(* ===== verification/Go_Base.thy ===== *)
theory Go_Base
  imports Main "HOL-Library.Word"
begin

text \<open>
  The prelude of the development: the Go types the program uses, errors as values, the two
  sequencing combinators every decoder and every fallible step is written with, and the generic
  lemmas the component theories share.

  Go's fixed-width integers are words of that width; a signed type shares the word type with its
  unsigned twin and is read with \<open>sint\<close>, so the synonyms below only say which reading the source
  means. Go strings are byte sequences. A nil slice and an empty slice are the same list.
\<close>

unbundle bit_operations_syntax

section \<open>Types\<close>

type_synonym u8 = "8 word"
type_synonym u16 = "16 word"
type_synonym u32 = "32 word"
type_synonym u64 = "64 word"
type_synonym i16 = "16 word"
type_synonym i32 = "32 word"
type_synonym i64 = "64 word"
type_synonym bytes = "8 word list"
type_synonym gostring = "8 word list"

text \<open>A clock reading, the zero time being 0.\<close>

type_synonym go_time = nat

section \<open>Signed comparison\<close>

text \<open>Go's ordered comparison of two \<open>int16\<close> or \<open>int32\<close> values.\<close>

definition slt :: "'a::len word \<Rightarrow> 'a word \<Rightarrow> bool" where
  "slt a b \<longleftrightarrow> sint a < sint b"

section \<open>Collections of facts\<close>

named_theorems wire_rt \<open>round trips of the wire primitives and of the composite codecs\<close>
named_theorems const_defs \<open>definitions of the source's named constants\<close>

section \<open>Sequencing with errors\<close>

text \<open>
  \<open>bindr\<close> is the source's \<open>if err != nil { return err }\<close> between two steps.
\<close>

definition bindr :: "'e + 'a \<Rightarrow> ('a \<Rightarrow> 'e + 'b) \<Rightarrow> 'e + 'b" where
  "bindr x f = (case x of Inl e \<Rightarrow> Inl e | Inr a \<Rightarrow> f a)"

lemma bindr_simps [simp]:
  "bindr (Inl e) f = Inl e"
  "bindr (Inr a) f = f a"
  by (simp_all add: bindr_def)

lemma bindr_eq_Inr: "bindr x f = Inr b \<longleftrightarrow> (\<exists>a. x = Inr a \<and> f a = Inr b)"
  by (cases x) auto

lemma bindr_eq_Inl: "bindr x f = Inl e \<longleftrightarrow> x = Inl e \<or> (\<exists>a. x = Inr a \<and> f a = Inl e)"
  by (cases x) auto

text \<open>
  \<open>require c e\<close> is the guard \<open>if !c { return e }\<close>.
\<close>

definition require :: "bool \<Rightarrow> 'e \<Rightarrow> 'e + unit" where
  "require c e = (if c then Inr () else Inl e)"

lemma require_eq_Inr [simp]: "require c e = Inr u \<longleftrightarrow> c"
  by (simp add: require_def)

lemma require_eq_Inl [simp]: "require c e = Inl e' \<longleftrightarrow> \<not> c \<and> e' = e"
  by (auto simp: require_def)

lemma require_True [simp]: "require True e = Inr ()"
  by (simp add: require_def)

section \<open>Generic lemmas\<close>

lemma take_append_len [simp]: "length xs = n \<Longrightarrow> take n (xs @ ys) = xs"
  by simp

lemma drop_append_len [simp]: "length xs = n \<Longrightarrow> drop n (xs @ ys) = ys"
  by simp

text \<open>A count that fits its field survives the conversion to the field's width and back.\<close>

lemma unat_of_nat_fits:
  "n < 2 ^ LENGTH('a) \<Longrightarrow> unat (of_nat n :: 'a::len word) = n"
  by (simp add: unat_of_nat take_bit_nat_eq_self)

end
