(* ===== verification/Wire.thy ===== *)
theory Wire
  imports Go_Base
begin

text \<open>
  The byte level of the protocol: Go's \<open>encoding/binary\<close> in big-endian order, the byte reader
  (\<open>bytes.Reader\<close> with \<open>io.ReadFull\<close>), and the two combinators a decoder is written with.
  A reader takes the unread bytes and returns an error or a value with the bytes left. The end of
  the input is \<open>EOF\<close> when nothing was left and \<open>UnexpectedEOF\<close> when part of a value was there: the
  decoders for optional trailing fields depend on the difference.

  The locale \<open>wire_codec\<close> states what an element's encoder and decoder promise each other, and
  proves once what follows for counted sequences of elements and for the byte ranges they occupy.
\<close>

section \<open>Errors\<close>

text \<open>
  One constructor per kind of failure of \<open>internal/protocol\<close>; formatted texts are left out.
  \<open>Panic\<close> is a Go run-time panic (a slice expression out of range).
\<close>

datatype go_error =
    EOF
  | UnexpectedEOF
  | PayloadTooShort
  | PayloadTruncated
  | InvalidMessageLength
  | InvalidMessageType u8
  | VersionMismatch u8
  | UnknownCommandType u8
  | TextTooLong
  | ValidationFailed go_error
  | ZeroConnectionID
  | TileCountMismatch
  | ZeroDimension
  | InvalidReason u8
  | EmptyTileUpdate
  | CountMismatch
  | InvalidCommandType u8
  | InvalidRegion
  | InvalidField u8
  | MissingName
  | ZeroTicks
  | InvalidLevel i32
  | OutOfRange
  | NothingToChange
  | InvalidStatus u8
  | ZeroQueryID
  | WrongMessage
  | Panic

type_synonym 'a reader = "bytes \<Rightarrow> go_error + ('a \<times> bytes)"

section \<open>Big-endian integers\<close>

text \<open>\<open>binary.BigEndian.PutUintN\<close>: the \<open>n\<close> low bytes of a word, most significant first.\<close>

fun put_be :: "nat \<Rightarrow> 'a::len word \<Rightarrow> bytes" where
  "put_be 0 v = []"
| "put_be (Suc n) v = ucast (drop_bit (8 * n) v) # put_be n v"

text \<open>\<open>binary.BigEndian.UintN\<close>.\<close>

definition get_be :: "bytes \<Rightarrow> 'a::len word" where
  "get_be bs = foldl (\<lambda>acc b. push_bit 8 acc OR ucast b) 0 bs"

lemma length_put_be [simp]: "length (put_be n v) = n"
  by (induction n) auto

lemma foldl_put_be:
  "foldl (\<lambda>acc b. push_bit 8 acc OR ucast b) acc (put_be n (v :: 'a::len word))
     = push_bit (8 * n) acc OR take_bit (8 * n) v"
proof (induction n arbitrary: acc)
  case 0
  then show ?case by simp
next
  case (Suc n)
  have "push_bit (8 * n) (push_bit 8 acc OR ucast (ucast (drop_bit (8 * n) v) :: u8))
          OR take_bit (8 * n) v
        = push_bit (8 * Suc n) acc OR take_bit (8 * Suc n) v"
    by (rule bit_word_eqI) (auto simp: bit_simps ac_simps)
  then show ?case by (simp add: Suc)
qed

lemma get_put_be: "LENGTH('a) \<le> 8 * n \<Longrightarrow> get_be (put_be n (v :: 'a::len word)) = v"
  by (simp add: get_be_def foldl_put_be take_bit_word_eq_self)

section \<open>The reader\<close>

definition preturn :: "'a \<Rightarrow> 'a reader" where
  "preturn x = (\<lambda>bs. Inr (x, bs))"

definition pfail :: "go_error \<Rightarrow> 'a reader" where
  "pfail e = (\<lambda>bs. Inl e)"

definition pbind :: "'a reader \<Rightarrow> ('a \<Rightarrow> 'b reader) \<Rightarrow> 'b reader" where
  "pbind p f = (\<lambda>bs. case p bs of Inl e \<Rightarrow> Inl e | Inr (x, rest) \<Rightarrow> f x rest)"

text \<open>\<open>io.ReadFull\<close> into a buffer of \<open>n\<close> bytes; an empty buffer is filled at once.\<close>

definition read_full :: "nat \<Rightarrow> bytes reader" where
  "read_full n bs =
     (if n = 0 then Inr ([], bs)
      else if bs = [] then Inl EOF
      else if length bs < n then Inl UnexpectedEOF
      else Inr (take n bs, drop n bs))"

text \<open>
  \<open>binary.Read\<close> of an integer, and the counterpart \<open>binary.Write\<close>, per width.
\<close>

definition get_u8 :: "u8 reader" where
  "get_u8 = pbind (read_full 1) (\<lambda>b. preturn (get_be b))"

definition get_u16 :: "u16 reader" where
  "get_u16 = pbind (read_full 2) (\<lambda>b. preturn (get_be b))"

definition get_u32 :: "u32 reader" where
  "get_u32 = pbind (read_full 4) (\<lambda>b. preturn (get_be b))"

definition get_u64 :: "u64 reader" where
  "get_u64 = pbind (read_full 8) (\<lambda>b. preturn (get_be b))"

definition put_u8 :: "u8 \<Rightarrow> bytes" where "put_u8 v = put_be 1 v"
definition put_u16 :: "u16 \<Rightarrow> bytes" where "put_u16 v = put_be 2 v"
definition put_u32 :: "u32 \<Rightarrow> bytes" where "put_u32 v = put_be 4 v"
definition put_u64 :: "u64 \<Rightarrow> bytes" where "put_u64 v = put_be 8 v"

text \<open>
  The signed integers have the same bytes: \<open>binary.Read\<close> into an \<open>int16\<close> reads the two bytes of a
  \<open>uint16\<close> and keeps the bits.
\<close>

abbreviation get_i16 :: "i16 reader" where "get_i16 \<equiv> get_u16"
abbreviation get_i32 :: "i32 reader" where "get_i32 \<equiv> get_u32"
abbreviation get_i64 :: "i64 reader" where "get_i64 \<equiv> get_u64"
abbreviation put_i16 :: "i16 \<Rightarrow> bytes" where "put_i16 \<equiv> put_u16"
abbreviation put_i32 :: "i32 \<Rightarrow> bytes" where "put_i32 \<equiv> put_u32"
abbreviation put_i64 :: "i64 \<Rightarrow> bytes" where "put_i64 \<equiv> put_u64"

text \<open>A boolean travels as the byte 1 or 0 and is read back as \<open>b != 0\<close>.\<close>

definition put_bool :: "bool \<Rightarrow> bytes" where
  "put_bool b = put_u8 (if b then 1 else 0)"

definition get_bool :: "bool reader" where
  "get_bool = pbind get_u8 (\<lambda>b. preturn (b \<noteq> 0))"

text \<open>
  A two-byte length and that many bytes. The writer converts the length with \<open>uint16(len(s))\<close>,
  which keeps its low 16 bits only.
\<close>

definition put_str16 :: "gostring \<Rightarrow> bytes" where
  "put_str16 s = put_u16 (of_nat (length s)) @ s"

definition get_str16 :: "gostring reader" where
  "get_str16 = pbind get_u16 (\<lambda>n. read_full (unat n))"

text \<open>The writers of named commands refuse a text longer than their limit.\<close>

definition put_str16_max :: "nat \<Rightarrow> gostring \<Rightarrow> go_error + bytes" where
  "put_str16_max limit s = (if length s > limit then Inl TextTooLong else Inr (put_str16 s))"

text \<open>
  The optional trailing fields: a read that meets the end of the input exactly keeps the default,
  any other error is returned.
\<close>

definition get_or_eof :: "'a reader \<Rightarrow> 'a \<Rightarrow> 'a reader" where
  "get_or_eof p d = (\<lambda>bs. case p bs of
       Inl e \<Rightarrow> (if e = EOF then Inr (d, bs) else Inl e)
     | Inr r \<Rightarrow> Inr r)"

text \<open>
  An optional string tail: only the length may be missing, a length without its bytes is an error.
\<close>

definition get_opt_str16 :: "gostring reader" where
  "get_opt_str16 = (\<lambda>bs. case get_u16 bs of
       Inl e \<Rightarrow> (if e = EOF then Inr ([], bs) else Inl e)
     | Inr (n, rest) \<Rightarrow> read_full (unat n) rest)"

text \<open>
  An additive trailing block: a presence byte that cannot be read, or that is not 1, means the
  block is absent (the byte itself, when there is one, is consumed).
\<close>

definition get_block :: "'a reader \<Rightarrow> 'a option reader" where
  "get_block p = (\<lambda>bs. case get_u8 bs of
       Inl e \<Rightarrow> Inr (None, bs)
     | Inr (h, rest) \<Rightarrow>
         (if h = 1 then pbind p (\<lambda>x. preturn (Some x)) rest else Inr (None, rest)))"

text \<open>A counted sequence: the loop \<open>for i := 0; i < n; i++\<close> over an element reader.\<close>

fun get_list :: "nat \<Rightarrow> 'a reader \<Rightarrow> 'a list reader" where
  "get_list 0 p = preturn []"
| "get_list (Suc n) p = pbind p (\<lambda>x. pbind (get_list n p) (\<lambda>xs. preturn (x # xs)))"

definition put_list :: "('a \<Rightarrow> bytes) \<Rightarrow> 'a list \<Rightarrow> bytes" where
  "put_list p xs = concat (map p xs)"

text \<open>Running a reader over a payload; bytes it leaves unread are ignored.\<close>

definition run_reader :: "'a reader \<Rightarrow> bytes \<Rightarrow> go_error + 'a" where
  "run_reader p data = bindr (p data) (\<lambda>(x, rest). Inr x)"

text \<open>
  A Go slice expression \<open>xs[lo:hi]\<close>; both bounds are already converted to their value. (The upper
  bound may reach the capacity in Go; here the slices are never longer than their backing data.)
\<close>

definition go_slice :: "'a list \<Rightarrow> nat \<Rightarrow> nat \<Rightarrow> go_error + 'a list" where
  "go_slice xs lo hi =
     (if lo \<le> hi \<and> hi \<le> length xs then Inr (take (hi - lo) (drop lo xs)) else Inl Panic)"

section \<open>Laws of the reader\<close>

lemma run_reader_Inr: "p data = Inr (x, rest) \<Longrightarrow> run_reader p data = Inr x"
  by (simp add: run_reader_def)

lemma run_reader_eq_Inl: "run_reader p data = Inl e \<longleftrightarrow> p data = Inl e"
  by (auto simp: run_reader_def bindr_eq_Inl)

lemma preturn_apply [simp]: "preturn x bs = Inr (x, bs)"
  by (simp add: preturn_def)

lemma pbind_Inr: "p bs = Inr (x, rest) \<Longrightarrow> pbind p f bs = f x rest"
  by (simp add: pbind_def)

lemma pbind_Inl: "p bs = Inl e \<Longrightarrow> pbind p f bs = Inl e"
  by (simp add: pbind_def)

lemma pbind_eq_Inr:
  "pbind p f bs = Inr r \<longleftrightarrow> (\<exists>x rest. p bs = Inr (x, rest) \<and> f x rest = Inr r)"
  by (auto simp: pbind_def split: sum.splits prod.splits)

lemma pbind_eq_Inl:
  "pbind p f bs = Inl e \<longleftrightarrow>
     p bs = Inl e \<or> (\<exists>x rest. p bs = Inr (x, rest) \<and> f x rest = Inl e)"
  by (auto simp: pbind_def split: sum.splits prod.splits)

lemma put_list_Nil [simp]: "put_list p [] = []"
  by (simp add: put_list_def)

lemma put_list_Cons [simp]: "put_list p (x # xs) = p x @ put_list p xs"
  by (simp add: put_list_def)

lemma put_lengths [simp]:
  "length (put_u8 a) = 1" "length (put_u16 b) = 2" "length (put_u32 c) = 4"
  "length (put_u64 d) = 8" "length (put_bool e) = 1"
  "length (put_str16 s) = 2 + length s"
  by (simp_all add: put_u8_def put_u16_def put_u32_def put_u64_def put_bool_def put_str16_def)

lemma put_not_Nil [simp]:
  "put_u8 a \<noteq> []" "put_u16 b \<noteq> []" "put_u32 c \<noteq> []" "put_u64 d \<noteq> []"
  by (metis put_lengths length_0_conv zero_neq_numeral zero_neq_one)+

lemma read_full_append: "length xs = n \<Longrightarrow> read_full n (xs @ rest) = Inr (xs, rest)"
  by (auto simp: read_full_def)

lemma read_full_0 [simp]: "read_full 0 bs = Inr ([], bs)"
  by (simp add: read_full_def)

lemma read_full_Nil: "0 < n \<Longrightarrow> read_full n [] = Inl EOF"
  by (simp add: read_full_def)

text \<open>Every integer reader undoes its writer and leaves what follows.\<close>

lemma get_put_ints [wire_rt]:
  "get_u8 (put_u8 a @ rest) = Inr (a, rest)"
  "get_u16 (put_u16 b @ rest) = Inr (b, rest)"
  "get_u32 (put_u32 c @ rest) = Inr (c, rest)"
  "get_u64 (put_u64 d @ rest) = Inr (d, rest)"
  by (simp_all add: get_u8_def get_u16_def get_u32_def get_u64_def put_u8_def put_u16_def
      put_u32_def put_u64_def pbind_def read_full_append get_put_be del: put_be.simps)

lemma get_put_bool [wire_rt]: "get_bool (put_bool b @ rest) = Inr (b, rest)"
  by (simp add: get_bool_def put_bool_def pbind_def get_put_ints)

lemma get_put_str16 [wire_rt]:
  "length s \<le> 65535 \<Longrightarrow> get_str16 (put_str16 s @ rest) = Inr (s, rest)"
  by (simp add: get_str16_def put_str16_def pbind_def get_put_ints read_full_append
      unat_of_nat_fits)

lemma get_put_opt_str16 [wire_rt]:
  "length s \<le> 65535 \<Longrightarrow> get_opt_str16 (put_str16 s @ rest) = Inr (s, rest)"
  by (simp add: get_opt_str16_def put_str16_def get_put_ints read_full_append unat_of_nat_fits)

lemma get_or_eof_Inr [wire_rt]: "p bs = Inr r \<Longrightarrow> get_or_eof p d bs = Inr r"
  by (simp add: get_or_eof_def)

text \<open>The same at the end of the input, where nothing follows.\<close>

lemma get_put_end [wire_rt]:
  "get_u8 (put_u8 a) = Inr (a, [])"
  "get_u16 (put_u16 b) = Inr (b, [])"
  "get_u32 (put_u32 c) = Inr (c, [])"
  "get_u64 (put_u64 d) = Inr (d, [])"
  "get_bool (put_bool e) = Inr (e, [])"
  using get_put_ints [where rest = "[]"] get_put_bool [where rest = "[]"] by simp_all

lemma get_put_str16_end [wire_rt]:
  "length s \<le> 65535 \<Longrightarrow> get_str16 (put_str16 s) = Inr (s, [])"
  "length s \<le> 65535 \<Longrightarrow> get_opt_str16 (put_str16 s) = Inr (s, [])"
  using get_put_str16 [where rest = "[]"] get_put_opt_str16 [where rest = "[]"] by simp_all

lemma put_u8_byte: "put_u8 v = [v]"
  by (simp add: put_u8_def)

text \<open>The bytes of the wider integers, for evaluating an encoding on closed terms.\<close>

lemma put_u16_bytes: "put_u16 v = [ucast (drop_bit 8 v), ucast v]"
proof -
  have n: "2 = Suc (Suc 0)" by simp
  show ?thesis unfolding put_u16_def n put_be.simps by simp
qed

lemma put_u32_bytes:
  "put_u32 v = [ucast (drop_bit 24 v), ucast (drop_bit 16 v), ucast (drop_bit 8 v), ucast v]"
proof -
  have n: "4 = Suc (Suc (Suc (Suc 0)))" by simp
  show ?thesis unfolding put_u32_def n put_be.simps by simp
qed

lemma get_u8_Cons: "get_u8 (b # bs) = Inr (b, bs)"
  by (simp add: get_u8_def pbind_def read_full_def get_be_def)

text \<open>What the integer readers do at the end of the input.\<close>

lemma get_ints_Nil [simp]:
  "get_u8 [] = Inl EOF" "get_u16 [] = Inl EOF" "get_u32 [] = Inl EOF" "get_u64 [] = Inl EOF"
  by (simp_all add: get_u8_def get_u16_def get_u32_def get_u64_def pbind_def read_full_Nil)

lemma get_optional_Nil [simp]:
  "get_or_eof get_u8 d [] = Inr (d, [])"
  "get_opt_str16 [] = Inr ([], [])"
  "get_block p [] = Inr (None, [])"
  by (simp_all add: get_or_eof_def get_opt_str16_def get_block_def)

lemma put_str16_max_eq_Inr:
  "put_str16_max limit s = Inr bs \<longleftrightarrow> length s \<le> limit \<and> bs = put_str16 s"
  by (auto simp: put_str16_max_def)

lemma put_str16_max_ok [simp]: "length s \<le> limit \<Longrightarrow> put_str16_max limit s = Inr (put_str16 s)"
  by (simp add: put_str16_max_def)

section \<open>Input errors\<close>

text \<open>
  A reader built from the primitives can only fail by running out of input: it never panics and
  never invents another error.
\<close>

definition io_reader :: "'a reader \<Rightarrow> bool" where
  "io_reader p \<longleftrightarrow> (\<forall>bs e. p bs = Inl e \<longrightarrow> e \<in> {EOF, UnexpectedEOF})"

named_theorems io_intros \<open>readers that fail by running out of input only\<close>

lemma io_readerD: "io_reader p \<Longrightarrow> p bs = Inl e \<Longrightarrow> e \<in> {EOF, UnexpectedEOF}"
  by (simp add: io_reader_def)

lemma io_pbind [io_intros]:
  "io_reader p \<Longrightarrow> (\<And>x. io_reader (f x)) \<Longrightarrow> io_reader (pbind p f)"
  unfolding io_reader_def pbind_eq_Inl by blast

lemma io_preturn [io_intros]: "io_reader (preturn x)"
  by (simp add: io_reader_def)

lemma io_read_full [io_intros]: "io_reader (read_full n)"
  by (simp add: io_reader_def read_full_def)

lemma io_if [io_intros]: "io_reader p \<Longrightarrow> io_reader q \<Longrightarrow> io_reader (if c then p else q)"
  by simp

lemma io_ints [io_intros]:
  "io_reader get_u8" "io_reader get_u16" "io_reader get_u32" "io_reader get_u64"
  "io_reader get_bool" "io_reader get_str16"
  by (simp_all add: get_u8_def get_u16_def get_u32_def get_u64_def get_bool_def get_str16_def
      io_intros)

lemma io_get_or_eof [io_intros]: "io_reader p \<Longrightarrow> io_reader (get_or_eof p d)"
  by (auto simp: io_reader_def get_or_eof_def split: sum.splits if_splits)

lemma io_get_opt_str16 [io_intros]: "io_reader get_opt_str16"
  using io_ints(2) io_read_full
  by (fastforce simp: io_reader_def get_opt_str16_def split: sum.splits if_splits)

lemma io_get_block [io_intros]:
  assumes "io_reader p"
  shows "io_reader (get_block p)"
proof -
  have "io_reader (pbind p (\<lambda>x. preturn (Some x)))"
    using assms by (intro io_intros)
  then show ?thesis
    by (auto simp: io_reader_def get_block_def split: sum.splits if_splits)
qed

lemma io_get_list [io_intros]: "io_reader p \<Longrightarrow> io_reader (get_list n p)"
  by (induction n) (simp_all add: io_intros)

section \<open>The contract of an element codec\<close>

text \<open>
  What the writer and the reader of one element promise each other: \<open>ok\<close> is the range of elements
  whose writing loses nothing, and \<open>shown\<close> is what the wire carries of an element.
\<close>

locale wire_codec =
  fixes put :: "'a \<Rightarrow> bytes"
    and get :: "'a reader"
    and ok :: "'a \<Rightarrow> bool"
    and shown :: "'a \<Rightarrow> 'a"
  assumes get_put: "ok x \<Longrightarrow> get (put x @ rest) = Inr (shown x, rest)"
begin

text \<open>A counted sequence of elements is read back whole, and nothing beyond it is touched.\<close>

lemma get_list_put_list:
  "\<forall>x\<in>set xs. ok x \<Longrightarrow>
     get_list (length xs) get (put_list put xs @ rest) = Inr (map shown xs, rest)"
  by (induction xs) (auto simp: pbind_def get_put)

text \<open>No encoding is a proper prefix of another: the reader decides where an element ends.\<close>

lemma put_prefix_free:
  "ok x \<Longrightarrow> ok y \<Longrightarrow> put x @ r = put y @ s \<Longrightarrow> shown x = shown y \<and> r = s"
  using get_put [of x r] get_put [of y s] by auto

text \<open>So a run of encodings determines the elements.\<close>

lemma put_list_inj:
  assumes "\<forall>x\<in>set xs. ok x" and "\<forall>y\<in>set ys. ok y" and "length xs = length ys"
    and "put_list put xs @ r = put_list put ys @ s"
  shows "map shown xs = map shown ys \<and> r = s"
  using get_list_put_list [OF assms(1), of r] get_list_put_list [OF assms(2), of s] assms(3,4)
  by simp

end

text \<open>
  The payload writers that can fail promise the same about the bytes they return.
\<close>

locale payload_codec =
  fixes wput :: "'a \<Rightarrow> go_error + bytes"
    and get :: "'a reader"
    and ok :: "'a \<Rightarrow> bool"
    and shown :: "'a \<Rightarrow> 'a"
  assumes get_wput: "wput x = Inr bs \<Longrightarrow> ok x \<Longrightarrow> get (bs @ rest) = Inr (shown x, rest)"
begin

lemma wput_determines:
  "wput x = Inr bs \<Longrightarrow> wput y = Inr bs \<Longrightarrow> ok x \<Longrightarrow> ok y \<Longrightarrow> shown x = shown y"
  using get_wput [of x bs "[]"] get_wput [of y bs "[]"] by simp

end

sublocale wire_codec \<subseteq> payload: payload_codec "\<lambda>x. Inr (put x)" get ok shown
  by unfold_locales (auto simp: get_put)

text \<open>A codec whose encodings all have one width: the offsets of a sequence's elements follow.\<close>

locale fixed_wire_codec = wire_codec +
  fixes width :: nat
  assumes put_width: "length (put x) = width"
begin

lemma length_put_list: "length (put_list put xs) = width * length xs"
  by (induction xs) (auto simp: put_width)

end

interpretation u8_wire: fixed_wire_codec put_u8 get_u8 "\<lambda>_. True" id 1
  by unfold_locales (simp_all add: wire_rt)

interpretation u16_wire: fixed_wire_codec put_u16 get_u16 "\<lambda>_. True" id 2
  by unfold_locales (simp_all add: wire_rt)

interpretation u32_wire: fixed_wire_codec put_u32 get_u32 "\<lambda>_. True" id 4
  by unfold_locales (simp_all add: wire_rt)

interpretation str16_wire: wire_codec put_str16 get_str16 "\<lambda>s. length s \<le> 65535" id
  by unfold_locales (simp_all add: wire_rt)

end
