(* ===== verification/Command_Types.thy ===== *)
theory Command_Types
  imports Wire
begin

text \<open>
  The data of command messages (\<open>internal/protocol/message.go\<close>): the command type bytes, the
  limits their payloads are validated against, one record per designation struct with the source's
  fields in the source's order, and \<open>CommandMessage\<close>, which embeds one designation of every kind.
  A decoder starts from Go's zero value of the struct, so each record comes with its zero.
\<close>

section \<open>Command types\<close>

definition CommandTypeDig :: u8 where "CommandTypeDig = 0x01"
definition CommandTypeBuild :: u8 where "CommandTypeBuild = 0x02"
definition CommandTypeCancel :: u8 where "CommandTypeCancel = 0x03"
definition CommandTypeChop :: u8 where "CommandTypeChop = 0x04"
definition CommandTypeGather :: u8 where "CommandTypeGather = 0x05"
definition CommandTypeZone :: u8 where "CommandTypeZone = 0x06"
definition CommandTypeBlueprint :: u8 where "CommandTypeBlueprint = 0x07"
definition CommandTypeUnsuspend :: u8 where "CommandTypeUnsuspend = 0x08"
definition CommandTypeWorkOrder :: u8 where "CommandTypeWorkOrder = 0x09"
definition CommandTypeStockpile :: u8 where "CommandTypeStockpile = 0x0A"
definition CommandTypeSmooth :: u8 where "CommandTypeSmooth = 0x0B"
definition CommandTypePause :: u8 where "CommandTypePause = 0x0C"
definition CommandTypeRemoveBuilding :: u8 where "CommandTypeRemoveBuilding = 0x0D"
definition CommandTypeQueueJob :: u8 where "CommandTypeQueueJob = 0x0E"
definition CommandTypeSetLabor :: u8 where "CommandTypeSetLabor = 0x0F"
definition CommandTypeAssignZone :: u8 where "CommandTypeAssignZone = 0x10"
definition CommandTypeUnassignZone :: u8 where "CommandTypeUnassignZone = 0x11"
definition CommandTypeCreateLocation :: u8 where "CommandTypeCreateLocation = 0x12"
definition CommandTypeAssignLodging :: u8 where "CommandTypeAssignLodging = 0x13"
definition CommandTypeUnassignLodging :: u8 where "CommandTypeUnassignLodging = 0x14"
definition CommandTypeRemoveZone :: u8 where "CommandTypeRemoveZone = 0x15"
definition CommandTypeBuildFarmPlot :: u8 where "CommandTypeBuildFarmPlot = 0x16"
definition CommandTypeSetFarmCrop :: u8 where "CommandTypeSetFarmCrop = 0x17"
definition CommandTypeDesignateBurrow :: u8 where "CommandTypeDesignateBurrow = 0x18"
definition CommandTypeRemoveBurrow :: u8 where "CommandTypeRemoveBurrow = 0x19"
definition CommandTypeAssignBurrow :: u8 where "CommandTypeAssignBurrow = 0x1A"
definition CommandTypeSetAlert :: u8 where "CommandTypeSetAlert = 0x1B"
definition CommandTypeLinkBuilding :: u8 where "CommandTypeLinkBuilding = 0x1C"
definition CommandTypePullLever :: u8 where "CommandTypePullLever = 0x1D"
definition CommandTypeBuildBridge :: u8 where "CommandTypeBuildBridge = 0x1E"
definition CommandTypeSetWorkshopProfile :: u8 where "CommandTypeSetWorkshopProfile = 0x1F"
definition CommandTypeAssignWorkDetail :: u8 where "CommandTypeAssignWorkDetail = 0x20"
definition CommandTypeSetWorkDetailMode :: u8 where "CommandTypeSetWorkDetailMode = 0x21"
definition CommandTypeCreateWorkDetail :: u8 where "CommandTypeCreateWorkDetail = 0x22"
definition CommandTypeBringGoodsToDepot :: u8 where "CommandTypeBringGoodsToDepot = 0x23"
definition CommandTypeAppointPosition :: u8 where "CommandTypeAppointPosition = 0x24"
definition CommandTypeSetBookkeeperPrecision :: u8 where "CommandTypeSetBookkeeperPrecision = 0x25"
definition CommandTypeCreateSquad :: u8 where "CommandTypeCreateSquad = 0x26"
definition CommandTypeAssignSquad :: u8 where "CommandTypeAssignSquad = 0x27"
definition CommandTypeSquadOrder :: u8 where "CommandTypeSquadOrder = 0x28"
definition CommandTypeCancelOrder :: u8 where "CommandTypeCancelOrder = 0x29"
definition CommandTypeEditOrder :: u8 where "CommandTypeEditOrder = 0x2A"
definition CommandTypeUnmarkTradeGoods :: u8 where "CommandTypeUnmarkTradeGoods = 0x2B"
definition CommandTypeSetDepotTradeFlags :: u8 where "CommandTypeSetDepotTradeFlags = 0x2C"

lemmas command_type_defs =
  CommandTypeDig_def CommandTypeBuild_def CommandTypeCancel_def CommandTypeChop_def
  CommandTypeGather_def CommandTypeZone_def CommandTypeBlueprint_def CommandTypeUnsuspend_def
  CommandTypeWorkOrder_def CommandTypeStockpile_def CommandTypeSmooth_def CommandTypePause_def
  CommandTypeRemoveBuilding_def CommandTypeQueueJob_def CommandTypeSetLabor_def
  CommandTypeAssignZone_def CommandTypeUnassignZone_def CommandTypeCreateLocation_def
  CommandTypeAssignLodging_def CommandTypeUnassignLodging_def CommandTypeRemoveZone_def
  CommandTypeBuildFarmPlot_def CommandTypeSetFarmCrop_def CommandTypeDesignateBurrow_def
  CommandTypeRemoveBurrow_def CommandTypeAssignBurrow_def CommandTypeSetAlert_def
  CommandTypeLinkBuilding_def CommandTypePullLever_def CommandTypeBuildBridge_def
  CommandTypeSetWorkshopProfile_def CommandTypeAssignWorkDetail_def
  CommandTypeSetWorkDetailMode_def CommandTypeCreateWorkDetail_def
  CommandTypeBringGoodsToDepot_def CommandTypeAppointPosition_def
  CommandTypeSetBookkeeperPrecision_def CommandTypeCreateSquad_def CommandTypeAssignSquad_def
  CommandTypeSquadOrder_def CommandTypeCancelOrder_def CommandTypeEditOrder_def
  CommandTypeUnmarkTradeGoods_def CommandTypeSetDepotTradeFlags_def

section \<open>Enumerations and limits of the payloads\<close>

definition ItemClassAny :: u8 where "ItemClassAny = 0x00"
definition ItemClassCrafts :: u8 where "ItemClassCrafts = 0x01"
definition SquadOrderStation :: u8 where "SquadOrderStation = 0x00"
definition SquadOrderDefendBurrow :: u8 where "SquadOrderDefendBurrow = 0x01"
definition SquadOrderCancel :: u8 where "SquadOrderCancel = 0x02"
definition LaborMaxIndex :: u8 where "LaborMaxIndex = 93"
definition WorkDetailModeDefault :: u8 where "WorkDetailModeDefault = 0x00"
definition WorkDetailModeEverybodyDoesThis :: u8 where "WorkDetailModeEverybodyDoesThis = 0x01"
definition WorkDetailModeNobodyDoesThis :: u8 where "WorkDetailModeNobodyDoesThis = 0x02"
definition WorkDetailModeOnlySelectedDoesThis :: u8 where "WorkDetailModeOnlySelectedDoesThis = 0x03"
definition BookkeeperPrecisionNearest10 :: u8 where "BookkeeperPrecisionNearest10 = 0x00"
definition BookkeeperPrecisionAllAccurate :: u8 where "BookkeeperPrecisionAllAccurate = 0x04"
definition MaterialClassAny :: u8 where "MaterialClassAny = 0x00"
definition MaterialClassBlocks :: u8 where "MaterialClassBlocks = 0x03"
definition QualityTierArtifact :: u8 where "QualityTierArtifact = 0x06"
definition QualityTierAny :: u8 where "QualityTierAny = 0xFF"
definition BuildOrientWest :: u8 where "BuildOrientWest = 0x03"
definition BuildOrientAny :: u8 where "BuildOrientAny = 0xFF"
definition FarmSeasonAll :: u8 where "FarmSeasonAll = 0xFF"
definition OrderTypeByName :: u8 where "OrderTypeByName = 0x00"
definition OrderTypeCustomReaction :: u8 where "OrderTypeCustomReaction = 0x0D"
definition WorkOrderFrequencyOneTime :: u8 where "WorkOrderFrequencyOneTime = 0x00"
definition WorkOrderFrequencyYearly :: u8 where "WorkOrderFrequencyYearly = 0x04"
definition BuildTypeByName :: u8 where "BuildTypeByName = 0x00"
definition BridgeDirectionRetract :: u8 where "BridgeDirectionRetract = 0x00"
definition BridgeDirectionRaiseW :: u8 where "BridgeDirectionRaiseW = 0x04"
definition PauseModeUnpause :: u8 where "PauseModeUnpause = 0x00"
definition PauseModePause :: u8 where "PauseModePause = 0x01"
definition PauseModeStep :: u8 where "PauseModeStep = 0x02"
definition SmoothTypeSmooth :: u8 where "SmoothTypeSmooth = 0x01"
definition SmoothTypeEngrave :: u8 where "SmoothTypeEngrave = 0x02"
definition DigTypeDefault :: u8 where "DigTypeDefault = 0x01"
definition DigTypeUpDownStair :: u8 where "DigTypeUpDownStair = 0x02"
definition DigTypeChannel :: u8 where "DigTypeChannel = 0x03"
definition DigTypeRamp :: u8 where "DigTypeRamp = 0x04"
definition DigTypeDownStair :: u8 where "DigTypeDownStair = 0x05"
definition DigTypeUpStair :: u8 where "DigTypeUpStair = 0x06"

lemmas payload_const_defs =
  ItemClassAny_def ItemClassCrafts_def SquadOrderStation_def SquadOrderDefendBurrow_def
  SquadOrderCancel_def LaborMaxIndex_def WorkDetailModeDefault_def
  WorkDetailModeEverybodyDoesThis_def WorkDetailModeNobodyDoesThis_def
  WorkDetailModeOnlySelectedDoesThis_def BookkeeperPrecisionNearest10_def
  BookkeeperPrecisionAllAccurate_def MaterialClassAny_def MaterialClassBlocks_def
  QualityTierArtifact_def QualityTierAny_def BuildOrientWest_def BuildOrientAny_def
  FarmSeasonAll_def OrderTypeByName_def OrderTypeCustomReaction_def
  WorkOrderFrequencyOneTime_def WorkOrderFrequencyYearly_def BuildTypeByName_def
  BridgeDirectionRetract_def BridgeDirectionRaiseW_def PauseModeUnpause_def PauseModePause_def
  PauseModeStep_def SmoothTypeSmooth_def SmoothTypeEngrave_def DigTypeDefault_def
  DigTypeUpDownStair_def DigTypeChannel_def DigTypeRamp_def DigTypeDownStair_def
  DigTypeUpStair_def

declare command_type_defs [const_defs]
declare payload_const_defs [const_defs]

section \<open>Designations\<close>

record Region =
  rg_X1 :: i16
  rg_Y1 :: i16
  rg_Z1 :: i16
  rg_X2 :: i16
  rg_Y2 :: i16
  rg_Z2 :: i16

record BuildDesignation =
  bd_X :: i16
  bd_Y :: i16
  bd_Z :: i16
  bd_BuildType :: u8
  bd_Material :: u8
  bd_Quality :: u8
  bd_Orientation :: u8
  bd_BuildTypeName :: gostring

record ZoneDesignation =
  zd_X1 :: i16
  zd_Y1 :: i16
  zd_Z :: i16
  zd_X2 :: i16
  zd_Y2 :: i16
  zd_ZoneType :: u8

record AssignZoneDesignation =
  az_X :: i16
  az_Y :: i16
  az_Z :: i16
  az_UnitID :: i32

record UnassignZoneDesignation =
  uz_X :: i16
  uz_Y :: i16
  uz_Z :: i16
  uz_UnitID :: i32

record RemoveZoneDesignation =
  rz_X :: i16
  rz_Y :: i16
  rz_Z :: i16

record FarmPlotDesignation =
  fp_X1 :: i16
  fp_Y1 :: i16
  fp_Z :: i16
  fp_X2 :: i16
  fp_Y2 :: i16

record SetFarmCropDesignation =
  fc_X :: i16
  fc_Y :: i16
  fc_Z :: i16
  fc_Season :: u8
  fc_CropName :: gostring

record DesignateBurrowDesignation =
  db_Name :: gostring
  db_X1 :: i16
  db_Y1 :: i16
  db_Z1 :: i16
  db_X2 :: i16
  db_Y2 :: i16
  db_Z2 :: i16

record RemoveBurrowDesignation =
  rb_Name :: gostring

record AssignBurrowDesignation =
  ab_Name :: gostring
  ab_Assign :: bool
  ab_AllCitizens :: bool
  ab_UnitID :: i32

record SetAlertDesignation =
  sa_Name :: gostring
  sa_Active :: bool

record CreateLocationDesignation =
  cl_X :: i16
  cl_Y :: i16
  cl_Z :: i16
  cl_LocationType :: u8
  cl_Profession :: gostring

record AssignLodgingDesignation =
  al_TavernX :: i16
  al_TavernY :: i16
  al_TavernZ :: i16
  al_BedroomX :: i16
  al_BedroomY :: i16
  al_BedroomZ :: i16

record UnassignLodgingDesignation =
  ul_BedroomX :: i16
  ul_BedroomY :: i16
  ul_BedroomZ :: i16

record LinkBuildingDesignation =
  lb_LeverX :: i16
  lb_LeverY :: i16
  lb_LeverZ :: i16
  lb_TargetX :: i16
  lb_TargetY :: i16
  lb_TargetZ :: i16

record PullLeverDesignation =
  pl_X :: i16
  pl_Y :: i16
  pl_Z :: i16

record BuildBridgeDesignation =
  bb_X1 :: i16
  bb_Y1 :: i16
  bb_Z :: i16
  bb_X2 :: i16
  bb_Y2 :: i16
  bb_Direction :: u8

record SetWorkshopProfileDesignation =
  wp_X :: i16
  wp_Y :: i16
  wp_Z :: i16
  wp_MinSkillLevel :: i32
  wp_MaxSkillLevel :: i32
  wp_WorkerUnitID :: i32

record UnsuspendDesignation =
  us_X :: i16
  us_Y :: i16
  us_Z :: i16

record RemoveBuildingDesignation =
  rm_X :: i16
  rm_Y :: i16
  rm_Z :: i16

record QueueJobDesignation =
  qj_X :: i16
  qj_Y :: i16
  qj_Z :: i16
  qj_OrderType :: u8
  qj_JobTypeName :: gostring
  qj_ReactionCode :: gostring
  qj_Material :: gostring
  qj_Subtype :: gostring

record SetLaborDesignation =
  sl_UnitID :: i32
  sl_LaborID :: u8
  sl_Enable :: bool

record AssignWorkDetailDesignation =
  aw_DetailIndex :: u16
  aw_UnitID :: i32
  aw_Add :: bool

record SetWorkDetailModeDesignation =
  wm_DetailIndex :: u16
  wm_Mode :: u8

record CreateWorkDetailDesignation =
  cw_Name :: gostring
  cw_Mode :: u8
  cw_LaborIDs :: bytes

record WorkOrderDesignation =
  wo_OrderType :: u8
  wo_Quantity :: u16
  wo_JobTypeName :: gostring
  wo_Material :: gostring
  wo_Frequency :: u8
  wo_Subtype :: gostring

record BringGoodsToDepotDesignation =
  bg_X :: i16
  bg_Y :: i16
  bg_Z :: i16
  bg_ItemTypeFilter :: gostring
  bg_MaterialFilter :: gostring
  bg_MaxCount :: i32
  bg_MaxTotalValue :: i64
  bg_ItemClass :: u8

record AppointPositionDesignation =
  ap_UnitID :: i32
  ap_PositionCode :: gostring

record SetBookkeeperPrecisionDesignation =
  bp_Precision :: u8

record CreateSquadDesignation =
  cs_PositionCode :: gostring

record AssignSquadDesignation =
  as_SquadID :: i32
  as_UnitID :: i32
  as_Add :: bool

record SquadOrderDesignation =
  so_SquadID :: i32
  so_Type :: u8
  so_X :: i16
  so_Y :: i16
  so_Z :: i16
  so_BurrowName :: gostring

record CancelOrderDesignation =
  co_OrderID :: i32

record EditOrderDesignation =
  eo_OrderID :: i32
  eo_HasAmount :: bool
  eo_Amount :: u16
  eo_HasFrequency :: bool
  eo_Frequency :: u8

record UnmarkTradeGoodsDesignation =
  ug_X :: i16
  ug_Y :: i16
  ug_Z :: i16
  ug_ItemTypeFilter :: gostring
  ug_MaterialFilter :: gostring
  ug_ItemClass :: u8
  ug_MaxCount :: i32

record SetDepotTradeFlagsDesignation =
  df_X :: i16
  df_Y :: i16
  df_Z :: i16
  df_TraderRequested :: bool
  df_AnyoneCanTrade :: bool

record StockpileDesignation =
  sp_X1 :: i16
  sp_Y1 :: i16
  sp_Z :: i16
  sp_X2 :: i16
  sp_Y2 :: i16
  sp_GroupMask :: u32

record SmoothDesignation =
  sm_X1 :: i16
  sm_Y1 :: i16
  sm_Z :: i16
  sm_X2 :: i16
  sm_Y2 :: i16
  sm_SmoothType :: u8

record PauseControl =
  pc_Mode :: u8
  pc_Ticks :: u32

text \<open>A command names its type and carries a designation of every kind; the type says which one counts.\<close>

record CommandMessage =
  cm_CommandID :: u32
  cm_CommandType :: u8
  cm_DigType :: u8
  cm_Region :: Region
  cm_Build :: BuildDesignation
  cm_Zone :: ZoneDesignation
  cm_Unsuspend :: UnsuspendDesignation
  cm_Order :: WorkOrderDesignation
  cm_Stockpile :: StockpileDesignation
  cm_Smooth :: SmoothDesignation
  cm_Pause :: PauseControl
  cm_Remove :: RemoveBuildingDesignation
  cm_QueueJob :: QueueJobDesignation
  cm_SetLabor :: SetLaborDesignation
  cm_AssignZone :: AssignZoneDesignation
  cm_UnassignZone :: UnassignZoneDesignation
  cm_RemoveZone :: RemoveZoneDesignation
  cm_FarmPlot :: FarmPlotDesignation
  cm_SetFarmCrop :: SetFarmCropDesignation
  cm_DesignateBurrow :: DesignateBurrowDesignation
  cm_RemoveBurrow :: RemoveBurrowDesignation
  cm_AssignBurrow :: AssignBurrowDesignation
  cm_SetAlert :: SetAlertDesignation
  cm_LinkBuilding :: LinkBuildingDesignation
  cm_PullLever :: PullLeverDesignation
  cm_BuildBridge :: BuildBridgeDesignation
  cm_SetWorkshopProfile :: SetWorkshopProfileDesignation
  cm_AssignWorkDetail :: AssignWorkDetailDesignation
  cm_SetWorkDetailMode :: SetWorkDetailModeDesignation
  cm_CreateWorkDetail :: CreateWorkDetailDesignation
  cm_BringGoodsToDepot :: BringGoodsToDepotDesignation
  cm_AppointPosition :: AppointPositionDesignation
  cm_SetBookkeeperPrecision :: SetBookkeeperPrecisionDesignation
  cm_CreateSquad :: CreateSquadDesignation
  cm_AssignSquad :: AssignSquadDesignation
  cm_SquadOrder :: SquadOrderDesignation
  cm_CancelOrder :: CancelOrderDesignation
  cm_EditOrder :: EditOrderDesignation
  cm_UnmarkTradeGoods :: UnmarkTradeGoodsDesignation
  cm_SetDepotTradeFlags :: SetDepotTradeFlagsDesignation
  cm_CreateLocation :: CreateLocationDesignation
  cm_AssignLodging :: AssignLodgingDesignation
  cm_UnassignLodging :: UnassignLodgingDesignation
  cm_BlueprintName :: gostring
  cm_OriginX :: i16
  cm_OriginY :: i16
  cm_OriginZ :: i16

section \<open>Zero values\<close>

definition zero_Region :: Region where
  "zero_Region = \<lparr>rg_X1 = 0, rg_Y1 = 0, rg_Z1 = 0, rg_X2 = 0, rg_Y2 = 0, rg_Z2 = 0\<rparr>"

definition zero_BuildDesignation :: BuildDesignation where
  "zero_BuildDesignation = \<lparr>bd_X = 0, bd_Y = 0, bd_Z = 0, bd_BuildType = 0, bd_Material = 0,
    bd_Quality = 0, bd_Orientation = 0, bd_BuildTypeName = []\<rparr>"

definition zero_ZoneDesignation :: ZoneDesignation where
  "zero_ZoneDesignation = \<lparr>zd_X1 = 0, zd_Y1 = 0, zd_Z = 0, zd_X2 = 0, zd_Y2 = 0, zd_ZoneType = 0\<rparr>"

definition zero_AssignZoneDesignation :: AssignZoneDesignation where
  "zero_AssignZoneDesignation = \<lparr>az_X = 0, az_Y = 0, az_Z = 0, az_UnitID = 0\<rparr>"

definition zero_UnassignZoneDesignation :: UnassignZoneDesignation where
  "zero_UnassignZoneDesignation = \<lparr>uz_X = 0, uz_Y = 0, uz_Z = 0, uz_UnitID = 0\<rparr>"

definition zero_RemoveZoneDesignation :: RemoveZoneDesignation where
  "zero_RemoveZoneDesignation = \<lparr>rz_X = 0, rz_Y = 0, rz_Z = 0\<rparr>"

definition zero_FarmPlotDesignation :: FarmPlotDesignation where
  "zero_FarmPlotDesignation = \<lparr>fp_X1 = 0, fp_Y1 = 0, fp_Z = 0, fp_X2 = 0, fp_Y2 = 0\<rparr>"

definition zero_SetFarmCropDesignation :: SetFarmCropDesignation where
  "zero_SetFarmCropDesignation = \<lparr>fc_X = 0, fc_Y = 0, fc_Z = 0, fc_Season = 0, fc_CropName = []\<rparr>"

definition zero_DesignateBurrowDesignation :: DesignateBurrowDesignation where
  "zero_DesignateBurrowDesignation = \<lparr>db_Name = [], db_X1 = 0, db_Y1 = 0, db_Z1 = 0, db_X2 = 0, db_Y2 = 0, db_Z2 = 0\<rparr>"

definition zero_RemoveBurrowDesignation :: RemoveBurrowDesignation where
  "zero_RemoveBurrowDesignation = \<lparr>rb_Name = []\<rparr>"

definition zero_AssignBurrowDesignation :: AssignBurrowDesignation where
  "zero_AssignBurrowDesignation = \<lparr>ab_Name = [], ab_Assign = False, ab_AllCitizens = False, ab_UnitID = 0\<rparr>"

definition zero_SetAlertDesignation :: SetAlertDesignation where
  "zero_SetAlertDesignation = \<lparr>sa_Name = [], sa_Active = False\<rparr>"

definition zero_CreateLocationDesignation :: CreateLocationDesignation where
  "zero_CreateLocationDesignation = \<lparr>cl_X = 0, cl_Y = 0, cl_Z = 0, cl_LocationType = 0, cl_Profession = []\<rparr>"

definition zero_AssignLodgingDesignation :: AssignLodgingDesignation where
  "zero_AssignLodgingDesignation = \<lparr>al_TavernX = 0, al_TavernY = 0, al_TavernZ = 0, al_BedroomX = 0,
    al_BedroomY = 0, al_BedroomZ = 0\<rparr>"

definition zero_UnassignLodgingDesignation :: UnassignLodgingDesignation where
  "zero_UnassignLodgingDesignation = \<lparr>ul_BedroomX = 0, ul_BedroomY = 0, ul_BedroomZ = 0\<rparr>"

definition zero_LinkBuildingDesignation :: LinkBuildingDesignation where
  "zero_LinkBuildingDesignation = \<lparr>lb_LeverX = 0, lb_LeverY = 0, lb_LeverZ = 0, lb_TargetX = 0, lb_TargetY = 0,
    lb_TargetZ = 0\<rparr>"

definition zero_PullLeverDesignation :: PullLeverDesignation where
  "zero_PullLeverDesignation = \<lparr>pl_X = 0, pl_Y = 0, pl_Z = 0\<rparr>"

definition zero_BuildBridgeDesignation :: BuildBridgeDesignation where
  "zero_BuildBridgeDesignation = \<lparr>bb_X1 = 0, bb_Y1 = 0, bb_Z = 0, bb_X2 = 0, bb_Y2 = 0, bb_Direction = 0\<rparr>"

definition zero_SetWorkshopProfileDesignation :: SetWorkshopProfileDesignation where
  "zero_SetWorkshopProfileDesignation = \<lparr>wp_X = 0, wp_Y = 0, wp_Z = 0, wp_MinSkillLevel = 0, wp_MaxSkillLevel = 0,
    wp_WorkerUnitID = 0\<rparr>"

definition zero_UnsuspendDesignation :: UnsuspendDesignation where
  "zero_UnsuspendDesignation = \<lparr>us_X = 0, us_Y = 0, us_Z = 0\<rparr>"

definition zero_RemoveBuildingDesignation :: RemoveBuildingDesignation where
  "zero_RemoveBuildingDesignation = \<lparr>rm_X = 0, rm_Y = 0, rm_Z = 0\<rparr>"

definition zero_QueueJobDesignation :: QueueJobDesignation where
  "zero_QueueJobDesignation = \<lparr>qj_X = 0, qj_Y = 0, qj_Z = 0, qj_OrderType = 0, qj_JobTypeName = [],
    qj_ReactionCode = [], qj_Material = [], qj_Subtype = []\<rparr>"

definition zero_SetLaborDesignation :: SetLaborDesignation where
  "zero_SetLaborDesignation = \<lparr>sl_UnitID = 0, sl_LaborID = 0, sl_Enable = False\<rparr>"

definition zero_AssignWorkDetailDesignation :: AssignWorkDetailDesignation where
  "zero_AssignWorkDetailDesignation = \<lparr>aw_DetailIndex = 0, aw_UnitID = 0, aw_Add = False\<rparr>"

definition zero_SetWorkDetailModeDesignation :: SetWorkDetailModeDesignation where
  "zero_SetWorkDetailModeDesignation = \<lparr>wm_DetailIndex = 0, wm_Mode = 0\<rparr>"

definition zero_CreateWorkDetailDesignation :: CreateWorkDetailDesignation where
  "zero_CreateWorkDetailDesignation = \<lparr>cw_Name = [], cw_Mode = 0, cw_LaborIDs = []\<rparr>"

definition zero_WorkOrderDesignation :: WorkOrderDesignation where
  "zero_WorkOrderDesignation = \<lparr>wo_OrderType = 0, wo_Quantity = 0, wo_JobTypeName = [], wo_Material = [],
    wo_Frequency = 0, wo_Subtype = []\<rparr>"

definition zero_BringGoodsToDepotDesignation :: BringGoodsToDepotDesignation where
  "zero_BringGoodsToDepotDesignation = \<lparr>bg_X = 0, bg_Y = 0, bg_Z = 0, bg_ItemTypeFilter = [], bg_MaterialFilter = [],
    bg_MaxCount = 0, bg_MaxTotalValue = 0, bg_ItemClass = 0\<rparr>"

definition zero_AppointPositionDesignation :: AppointPositionDesignation where
  "zero_AppointPositionDesignation = \<lparr>ap_UnitID = 0, ap_PositionCode = []\<rparr>"

definition zero_SetBookkeeperPrecisionDesignation :: SetBookkeeperPrecisionDesignation where
  "zero_SetBookkeeperPrecisionDesignation = \<lparr>bp_Precision = 0\<rparr>"

definition zero_CreateSquadDesignation :: CreateSquadDesignation where
  "zero_CreateSquadDesignation = \<lparr>cs_PositionCode = []\<rparr>"

definition zero_AssignSquadDesignation :: AssignSquadDesignation where
  "zero_AssignSquadDesignation = \<lparr>as_SquadID = 0, as_UnitID = 0, as_Add = False\<rparr>"

definition zero_SquadOrderDesignation :: SquadOrderDesignation where
  "zero_SquadOrderDesignation = \<lparr>so_SquadID = 0, so_Type = 0, so_X = 0, so_Y = 0, so_Z = 0, so_BurrowName = []\<rparr>"

definition zero_CancelOrderDesignation :: CancelOrderDesignation where
  "zero_CancelOrderDesignation = \<lparr>co_OrderID = 0\<rparr>"

definition zero_EditOrderDesignation :: EditOrderDesignation where
  "zero_EditOrderDesignation = \<lparr>eo_OrderID = 0, eo_HasAmount = False, eo_Amount = 0, eo_HasFrequency = False,
    eo_Frequency = 0\<rparr>"

definition zero_UnmarkTradeGoodsDesignation :: UnmarkTradeGoodsDesignation where
  "zero_UnmarkTradeGoodsDesignation = \<lparr>ug_X = 0, ug_Y = 0, ug_Z = 0, ug_ItemTypeFilter = [], ug_MaterialFilter = [],
    ug_ItemClass = 0, ug_MaxCount = 0\<rparr>"

definition zero_SetDepotTradeFlagsDesignation :: SetDepotTradeFlagsDesignation where
  "zero_SetDepotTradeFlagsDesignation = \<lparr>df_X = 0, df_Y = 0, df_Z = 0, df_TraderRequested = False,
    df_AnyoneCanTrade = False\<rparr>"

definition zero_StockpileDesignation :: StockpileDesignation where
  "zero_StockpileDesignation = \<lparr>sp_X1 = 0, sp_Y1 = 0, sp_Z = 0, sp_X2 = 0, sp_Y2 = 0, sp_GroupMask = 0\<rparr>"

definition zero_SmoothDesignation :: SmoothDesignation where
  "zero_SmoothDesignation = \<lparr>sm_X1 = 0, sm_Y1 = 0, sm_Z = 0, sm_X2 = 0, sm_Y2 = 0, sm_SmoothType = 0\<rparr>"

definition zero_PauseControl :: PauseControl where
  "zero_PauseControl = \<lparr>pc_Mode = 0, pc_Ticks = 0\<rparr>"

definition zero_CommandMessage :: CommandMessage where
  "zero_CommandMessage = \<lparr>cm_CommandID = 0, cm_CommandType = 0, cm_DigType = 0, cm_Region = zero_Region,
    cm_Build = zero_BuildDesignation, cm_Zone = zero_ZoneDesignation,
    cm_Unsuspend = zero_UnsuspendDesignation,
    cm_Order = zero_WorkOrderDesignation,
    cm_Stockpile = zero_StockpileDesignation,
    cm_Smooth = zero_SmoothDesignation, cm_Pause = zero_PauseControl,
    cm_Remove = zero_RemoveBuildingDesignation,
    cm_QueueJob = zero_QueueJobDesignation,
    cm_SetLabor = zero_SetLaborDesignation,
    cm_AssignZone = zero_AssignZoneDesignation,
    cm_UnassignZone = zero_UnassignZoneDesignation,
    cm_RemoveZone = zero_RemoveZoneDesignation,
    cm_FarmPlot = zero_FarmPlotDesignation,
    cm_SetFarmCrop = zero_SetFarmCropDesignation,
    cm_DesignateBurrow = zero_DesignateBurrowDesignation,
    cm_RemoveBurrow = zero_RemoveBurrowDesignation,
    cm_AssignBurrow = zero_AssignBurrowDesignation,
    cm_SetAlert = zero_SetAlertDesignation,
    cm_LinkBuilding = zero_LinkBuildingDesignation,
    cm_PullLever = zero_PullLeverDesignation,
    cm_BuildBridge = zero_BuildBridgeDesignation,
    cm_SetWorkshopProfile = zero_SetWorkshopProfileDesignation,
    cm_AssignWorkDetail = zero_AssignWorkDetailDesignation,
    cm_SetWorkDetailMode = zero_SetWorkDetailModeDesignation,
    cm_CreateWorkDetail = zero_CreateWorkDetailDesignation,
    cm_BringGoodsToDepot = zero_BringGoodsToDepotDesignation,
    cm_AppointPosition = zero_AppointPositionDesignation,
    cm_SetBookkeeperPrecision = zero_SetBookkeeperPrecisionDesignation,
    cm_CreateSquad = zero_CreateSquadDesignation,
    cm_AssignSquad = zero_AssignSquadDesignation,
    cm_SquadOrder = zero_SquadOrderDesignation,
    cm_CancelOrder = zero_CancelOrderDesignation,
    cm_EditOrder = zero_EditOrderDesignation,
    cm_UnmarkTradeGoods = zero_UnmarkTradeGoodsDesignation,
    cm_SetDepotTradeFlags = zero_SetDepotTradeFlagsDesignation,
    cm_CreateLocation = zero_CreateLocationDesignation,
    cm_AssignLodging = zero_AssignLodgingDesignation,
    cm_UnassignLodging = zero_UnassignLodgingDesignation,
    cm_BlueprintName = [], cm_OriginX = 0, cm_OriginY = 0, cm_OriginZ = 0\<rparr>"

end
