(* ===== verification/Command_Validate.thy ===== *)
theory Command_Validate
  imports Command_Types
begin

text \<open>
  \<open>CommandMessage.Validate\<close> (\<open>internal/protocol/message.go\<close>): the check every command passes before
  it is written and after it is read. One definition per case of the source's switch; the cases the
  source does not check are valid. Signed fields are compared as integers.
\<close>

section \<open>Build type ranges\<close>

definition IsBuildTypeWorkshop :: "u8 \<Rightarrow> bool" where
  "IsBuildTypeWorkshop t \<longleftrightarrow> 0x10 \<le> t \<and> t < 0x30"
definition IsBuildTypeFurniture :: "u8 \<Rightarrow> bool" where
  "IsBuildTypeFurniture t \<longleftrightarrow> 0x30 \<le> t \<and> t < 0x50"
definition IsBuildTypeConstruction :: "u8 \<Rightarrow> bool" where
  "IsBuildTypeConstruction t \<longleftrightarrow> 0x01 \<le> t \<and> t < 0x10"
definition IsBuildTypeDoor :: "u8 \<Rightarrow> bool" where
  "IsBuildTypeDoor t \<longleftrightarrow> 0x50 \<le> t \<and> t < 0x70"
definition IsBuildTypeFurnace :: "u8 \<Rightarrow> bool" where
  "IsBuildTypeFurnace t \<longleftrightarrow> 0x70 \<le> t \<and> t < 0x80"
definition IsBuildTypeDepot :: "u8 \<Rightarrow> bool" where
  "IsBuildTypeDepot t \<longleftrightarrow> 0x80 \<le> t \<and> t < 0x90"
definition IsBuildTypeInfra :: "u8 \<Rightarrow> bool" where
  "IsBuildTypeInfra t \<longleftrightarrow> 0x90 \<le> t \<and> t < 0xA0"
definition IsBuildTypeWaterPower :: "u8 \<Rightarrow> bool" where
  "IsBuildTypeWaterPower t \<longleftrightarrow> 0xA0 \<le> t \<and> t < 0xB0"
definition IsBuildTypeTrap :: "u8 \<Rightarrow> bool" where
  "IsBuildTypeTrap t \<longleftrightarrow> 0xB0 \<le> t \<and> t < 0xC0"

lemmas build_type_ranges =
  IsBuildTypeWorkshop_def IsBuildTypeFurniture_def IsBuildTypeConstruction_def
  IsBuildTypeDoor_def IsBuildTypeFurnace_def IsBuildTypeDepot_def IsBuildTypeInfra_def
  IsBuildTypeWaterPower_def IsBuildTypeTrap_def

section \<open>The cases of the switch\<close>

definition validate_region :: "Region \<Rightarrow> go_error + unit" where
  "validate_region r =
     require (\<not> (slt (rg_X2 r) (rg_X1 r) \<or> slt (rg_Y2 r) (rg_Y1 r) \<or> slt (rg_Z2 r) (rg_Z1 r)))
       InvalidRegion"

definition validate_build :: "BuildDesignation \<Rightarrow> go_error + unit" where
  "validate_build b = (let t = bd_BuildType b in
     bindr (require (\<not> (t \<noteq> BuildTypeByName \<and> \<not> IsBuildTypeConstruction t \<and>
         \<not> IsBuildTypeWorkshop t \<and> \<not> IsBuildTypeFurniture t \<and> \<not> IsBuildTypeDoor t \<and>
         \<not> IsBuildTypeFurnace t \<and> \<not> IsBuildTypeDepot t \<and> \<not> IsBuildTypeInfra t \<and>
         \<not> IsBuildTypeWaterPower t \<and> \<not> IsBuildTypeTrap t)) (InvalidField t)) (\<lambda>_.
     bindr (require (\<not> (t = BuildTypeByName \<and> bd_BuildTypeName b = [])) MissingName) (\<lambda>_.
     bindr (require (\<not> bd_Material b > MaterialClassBlocks) (InvalidField (bd_Material b))) (\<lambda>_.
     bindr (require (\<not> (bd_Quality b \<noteq> QualityTierAny \<and> bd_Quality b > QualityTierArtifact))
       (InvalidField (bd_Quality b))) (\<lambda>_.
     require (\<not> (bd_Orientation b \<noteq> BuildOrientAny \<and> bd_Orientation b > BuildOrientWest))
       (InvalidField (bd_Orientation b)))))))"

definition validate_pause :: "PauseControl \<Rightarrow> go_error + unit" where
  "validate_pause p =
     bindr (require (\<not> pc_Mode p > PauseModeStep) (InvalidField (pc_Mode p))) (\<lambda>_.
     require (\<not> (pc_Mode p = PauseModeStep \<and> pc_Ticks p = 0)) ZeroTicks)"

definition validate_set_labor :: "SetLaborDesignation \<Rightarrow> go_error + unit" where
  "validate_set_labor l = require (\<not> sl_LaborID l > LaborMaxIndex) (InvalidField (sl_LaborID l))"

definition validate_queue_job :: "QueueJobDesignation \<Rightarrow> go_error + unit" where
  "validate_queue_job q =
     bindr (require (\<not> (qj_OrderType q = OrderTypeByName \<and> qj_JobTypeName q = [])) MissingName) (\<lambda>_.
     require (\<not> (qj_OrderType q = OrderTypeCustomReaction \<and> qj_ReactionCode q = [])) MissingName)"

definition validate_work_order :: "WorkOrderDesignation \<Rightarrow> go_error + unit" where
  "validate_work_order w =
     bindr (require (\<not> (wo_OrderType w = OrderTypeByName \<and> wo_JobTypeName w = [])) MissingName) (\<lambda>_.
     require (\<not> wo_Frequency w > WorkOrderFrequencyYearly) (InvalidField (wo_Frequency w)))"

definition validate_farm_plot :: "FarmPlotDesignation \<Rightarrow> go_error + unit" where
  "validate_farm_plot f =
     require (\<not> (slt (fp_X2 f) (fp_X1 f) \<or> slt (fp_Y2 f) (fp_Y1 f))) InvalidRegion"

definition validate_set_farm_crop :: "SetFarmCropDesignation \<Rightarrow> go_error + unit" where
  "validate_set_farm_crop f =
     bindr (require (\<not> (fc_Season f > 3 \<and> fc_Season f \<noteq> FarmSeasonAll))
       (InvalidField (fc_Season f))) (\<lambda>_.
     require (\<not> fc_CropName f = []) MissingName)"

definition validate_designate_burrow :: "DesignateBurrowDesignation \<Rightarrow> go_error + unit" where
  "validate_designate_burrow d =
     bindr (require (\<not> db_Name d = []) MissingName) (\<lambda>_.
     require (\<not> (slt (db_X2 d) (db_X1 d) \<or> slt (db_Y2 d) (db_Y1 d) \<or> slt (db_Z2 d) (db_Z1 d)))
       InvalidRegion)"

definition validate_build_bridge :: "BuildBridgeDesignation \<Rightarrow> go_error + unit" where
  "validate_build_bridge b =
     bindr (require (\<not> (slt (bb_X2 b) (bb_X1 b) \<or> slt (bb_Y2 b) (bb_Y1 b))) InvalidRegion) (\<lambda>_.
     require (\<not> bb_Direction b > BridgeDirectionRaiseW) (InvalidField (bb_Direction b)))"

definition validate_workshop_profile :: "SetWorkshopProfileDesignation \<Rightarrow> go_error + unit" where
  "validate_workshop_profile p =
     bindr (require (\<not> (slt (wp_MinSkillLevel p) 0 \<or> slt 20 (wp_MinSkillLevel p)))
       (InvalidLevel (wp_MinSkillLevel p))) (\<lambda>_.
     bindr (require (\<not> (wp_MaxSkillLevel p \<noteq> -1 \<and>
         (slt (wp_MaxSkillLevel p) 0 \<or> slt 20 (wp_MaxSkillLevel p))))
       (InvalidLevel (wp_MaxSkillLevel p))) (\<lambda>_.
     require (\<not> (wp_MaxSkillLevel p \<noteq> -1 \<and> slt (wp_MaxSkillLevel p) (wp_MinSkillLevel p)))
       OutOfRange))"

definition validate_work_detail_mode :: "u8 \<Rightarrow> go_error + unit" where
  "validate_work_detail_mode mode =
     require (\<not> mode > WorkDetailModeOnlySelectedDoesThis) (InvalidField mode)"

definition validate_create_work_detail :: "CreateWorkDetailDesignation \<Rightarrow> go_error + unit" where
  "validate_create_work_detail d =
     bindr (require (\<not> cw_Name d = []) MissingName) (\<lambda>_. validate_work_detail_mode (cw_Mode d))"

definition validate_goods_filter :: "i32 \<Rightarrow> u8 \<Rightarrow> go_error + unit" where
  "validate_goods_filter maxCount itemClass =
     bindr (require (\<not> slt maxCount 1) OutOfRange) (\<lambda>_.
     require (\<not> itemClass > ItemClassCrafts) (InvalidField itemClass))"

definition validate_squad_order :: "SquadOrderDesignation \<Rightarrow> go_error + unit" where
  "validate_squad_order s =
     bindr (require (\<not> so_Type s > SquadOrderCancel) (InvalidField (so_Type s))) (\<lambda>_.
     require (\<not> (so_Type s = SquadOrderDefendBurrow \<and> so_BurrowName s = [])) MissingName)"

definition validate_edit_order :: "EditOrderDesignation \<Rightarrow> go_error + unit" where
  "validate_edit_order e =
     bindr (require (\<not> slt (eo_OrderID e) 0) OutOfRange) (\<lambda>_.
     bindr (require (\<not> (\<not> eo_HasAmount e \<and> \<not> eo_HasFrequency e)) NothingToChange) (\<lambda>_.
     bindr (require (\<not> (eo_HasAmount e \<and> (eo_Amount e = 0 \<or> eo_Amount e > 100))) OutOfRange) (\<lambda>_.
     require (\<not> (eo_HasFrequency e \<and> eo_Frequency e > WorkOrderFrequencyYearly))
       (InvalidField (eo_Frequency e)))))"

section \<open>Validate\<close>

definition validate_command :: "CommandMessage \<Rightarrow> go_error + unit" where
  "validate_command m = (let t = cm_CommandType m in
     if t < CommandTypeDig \<or> t > CommandTypeSetDepotTradeFlags then Inl (InvalidCommandType t)
     else if t = CommandTypeDig \<or> t = CommandTypeCancel then validate_region (cm_Region m)
     else if t = CommandTypeBuild then validate_build (cm_Build m)
     else if t = CommandTypePause then validate_pause (cm_Pause m)
     else if t = CommandTypeSetLabor then validate_set_labor (cm_SetLabor m)
     else if t = CommandTypeQueueJob then validate_queue_job (cm_QueueJob m)
     else if t = CommandTypeWorkOrder then validate_work_order (cm_Order m)
     else if t = CommandTypeBuildFarmPlot then validate_farm_plot (cm_FarmPlot m)
     else if t = CommandTypeSetFarmCrop then validate_set_farm_crop (cm_SetFarmCrop m)
     else if t = CommandTypeDesignateBurrow then validate_designate_burrow (cm_DesignateBurrow m)
     else if t = CommandTypeRemoveBurrow then require (\<not> rb_Name (cm_RemoveBurrow m) = []) MissingName
     else if t = CommandTypeAssignBurrow then require (\<not> ab_Name (cm_AssignBurrow m) = []) MissingName
     else if t = CommandTypeSetAlert then require (\<not> sa_Name (cm_SetAlert m) = []) MissingName
     else if t = CommandTypeBuildBridge then validate_build_bridge (cm_BuildBridge m)
     else if t = CommandTypeSetWorkshopProfile
       then validate_workshop_profile (cm_SetWorkshopProfile m)
     else if t = CommandTypeSetWorkDetailMode
       then validate_work_detail_mode (wm_Mode (cm_SetWorkDetailMode m))
     else if t = CommandTypeCreateWorkDetail
       then validate_create_work_detail (cm_CreateWorkDetail m)
     else if t = CommandTypeBringGoodsToDepot
       then validate_goods_filter (bg_MaxCount (cm_BringGoodsToDepot m))
         (bg_ItemClass (cm_BringGoodsToDepot m))
     else if t = CommandTypeAppointPosition
       then require (\<not> ap_PositionCode (cm_AppointPosition m) = []) MissingName
     else if t = CommandTypeSetBookkeeperPrecision
       then require (\<not> bp_Precision (cm_SetBookkeeperPrecision m) > BookkeeperPrecisionAllAccurate)
         (InvalidField (bp_Precision (cm_SetBookkeeperPrecision m)))
     else if t = CommandTypeSquadOrder then validate_squad_order (cm_SquadOrder m)
     else if t = CommandTypeCancelOrder
       then require (\<not> slt (co_OrderID (cm_CancelOrder m)) 0) OutOfRange
     else if t = CommandTypeEditOrder then validate_edit_order (cm_EditOrder m)
     else if t = CommandTypeUnmarkTradeGoods
       then validate_goods_filter (ug_MaxCount (cm_UnmarkTradeGoods m))
         (ug_ItemClass (cm_UnmarkTradeGoods m))
     else Inr ())"

text \<open>The valid command types are exactly the bytes 1 to 0x2C.\<close>

lemma valid_command_type:
  "validate_command m = Inr () \<Longrightarrow>
     CommandTypeDig \<le> cm_CommandType m \<and> cm_CommandType m \<le> CommandTypeSetDepotTradeFlags"
  by (auto simp: validate_command_def Let_def not_less split: if_splits)

text \<open>No case of the switch reports an invalid type: the range check alone does.\<close>

lemma require_not_invalid_type [simp]: "require c e = Inl (InvalidCommandType t) \<longleftrightarrow> \<not> c \<and> e = InvalidCommandType t"
  by auto

lemmas validate_cases =
  validate_region_def validate_build_def validate_pause_def validate_set_labor_def
  validate_queue_job_def validate_work_order_def validate_farm_plot_def
  validate_set_farm_crop_def validate_designate_burrow_def validate_build_bridge_def
  validate_workshop_profile_def validate_work_detail_mode_def validate_create_work_detail_def
  validate_goods_filter_def validate_squad_order_def validate_edit_order_def

lemma validate_type_error:
  "validate_command m = Inl (InvalidCommandType t) \<Longrightarrow>
     cm_CommandType m < CommandTypeDig \<or> cm_CommandType m > CommandTypeSetDepotTradeFlags"
  by (auto simp: validate_command_def validate_cases Let_def bindr_eq_Inl split: if_splits)

lemma validate_out_of_range:
  "cm_CommandType m < CommandTypeDig \<or> cm_CommandType m > CommandTypeSetDepotTradeFlags \<Longrightarrow>
     validate_command m = Inl (InvalidCommandType (cm_CommandType m))"
  by (simp add: validate_command_def)

end
