(* ===== verification/Messages.thy ===== *)
theory Messages
  imports Command_Validate
begin

text \<open>
  The thirteen protocol messages (\<open>internal/protocol/message.go\<close>): their type bytes, one record per
  message struct, the \<open>Message\<close> interface as a datatype with one constructor per implementation,
  and \<open>Type\<close> and \<open>Validate\<close> over it.
\<close>

section \<open>Message types and version\<close>

definition ProtocolVersion :: u8 where "ProtocolVersion = 1"
definition MessageTypeHandshake :: u8 where "MessageTypeHandshake = 0x01"
definition MessageTypeFullState :: u8 where "MessageTypeFullState = 0x02"
definition MessageTypeTileUpdate :: u8 where "MessageTypeTileUpdate = 0x03"
definition MessageTypeResyncRequest :: u8 where "MessageTypeResyncRequest = 0x04"
definition MessageTypeHeartbeat :: u8 where "MessageTypeHeartbeat = 0x05"
definition MessageTypeError :: u8 where "MessageTypeError = 0x06"
definition MessageTypeDisconnect :: u8 where "MessageTypeDisconnect = 0x07"
definition MessageTypeEntityUpdate :: u8 where "MessageTypeEntityUpdate = 0x08"
definition MessageTypeCommand :: u8 where "MessageTypeCommand = 0x09"
definition MessageTypeCommandAck :: u8 where "MessageTypeCommandAck = 0x0A"
definition MessageTypeQuery :: u8 where "MessageTypeQuery = 0x0B"
definition MessageTypeQueryResponse :: u8 where "MessageTypeQueryResponse = 0x0C"
definition MessageTypeAnnouncementUpdate :: u8 where "MessageTypeAnnouncementUpdate = 0x0D"

lemmas message_type_defs [const_defs] =
  ProtocolVersion_def MessageTypeHandshake_def MessageTypeFullState_def MessageTypeTileUpdate_def
  MessageTypeResyncRequest_def MessageTypeHeartbeat_def MessageTypeError_def
  MessageTypeDisconnect_def MessageTypeEntityUpdate_def MessageTypeCommand_def
  MessageTypeCommandAck_def MessageTypeQuery_def MessageTypeQueryResponse_def
  MessageTypeAnnouncementUpdate_def

definition AckStatusSuccess :: u8 where "AckStatusSuccess = 0x00"
definition AckStatusPartial :: u8 where "AckStatusPartial = 0x01"
definition AckStatusFailure :: u8 where "AckStatusFailure = 0x02"
definition QueryStatusSuccess :: u8 where "QueryStatusSuccess = 0x00"
definition QueryStatusError :: u8 where "QueryStatusError = 0x01"
definition QueryStatusUnknown :: u8 where "QueryStatusUnknown = 0x02"
definition ReasonNormalShutdown :: u8 where "ReasonNormalShutdown = 0x00"

lemmas status_defs [const_defs] =
  AckStatusSuccess_def AckStatusPartial_def AckStatusFailure_def QueryStatusSuccess_def
  QueryStatusError_def QueryStatusUnknown_def ReasonNormalShutdown_def

section \<open>Tiles\<close>

record TileState =
  ts_X :: i16
  ts_Y :: i16
  ts_Z :: i16
  ts_TileType :: u16
  ts_Flags :: u8

definition FlagHidden :: u8 where "FlagHidden = 0x01"
definition FlagDiscovered :: u8 where "FlagDiscovered = 0x02"
definition FlagDesignated :: u8 where "FlagDesignated = 0x04"
definition FlagConstruct :: u8 where "FlagConstruct = 0x08"
definition FlagWall :: u8 where "FlagWall = 0x10"
definition FlagFloor :: u8 where "FlagFloor = 0x20"
definition FlagVoid :: u8 where "FlagVoid = 0x40"
definition FlagLiquid7 :: u8 where "FlagLiquid7 = 0x80"

lemmas flag_defs [const_defs] =
  FlagHidden_def FlagDiscovered_def FlagDesignated_def FlagConstruct_def FlagWall_def
  FlagFloor_def FlagVoid_def FlagLiquid7_def

definition HasFlag :: "TileState \<Rightarrow> u8 \<Rightarrow> bool" where
  "HasFlag t flag \<longleftrightarrow> (ts_Flags t AND flag) \<noteq> 0"

definition SetFlag :: "TileState \<Rightarrow> u8 \<Rightarrow> TileState" where
  "SetFlag t flag = t\<lparr>ts_Flags := ts_Flags t OR flag\<rparr>"

text \<open>\<open>&^=\<close>: and with the complement.\<close>

definition ClearFlag :: "TileState \<Rightarrow> u8 \<Rightarrow> TileState" where
  "ClearFlag t flag = t\<lparr>ts_Flags := ts_Flags t AND NOT flag\<rparr>"

section \<open>Message structs\<close>

record HandshakeMessage =
  hs_ProtocolVersion :: u8
  hs_ConnectionID :: u32
  hs_Capabilities :: gostring

record FullStateMessage =
  fs_Width :: u16
  fs_Height :: u16
  fs_Depth :: u16
  fs_Tiles :: "TileState list"
  fs_IsSoilLayer :: "bool list"

record ResyncRequestMessage =
  rr_Reason :: u8

record TileUpdateMessage =
  tu_Count :: u32
  tu_Tiles :: "TileState list"

record HeartbeatMessage =
  hb_Timestamp :: u64
  hb_Sequence :: u8

record DisconnectMessage =
  dc_Reason :: u8

record ErrorMessage =
  em_Code :: u16
  em_Message :: gostring

record EntityInfo =
  ei_ID :: u32
  ei_X :: i16
  ei_Y :: i16
  ei_Z :: i16
  ei_Type :: u8
  ei_Subtype :: u16
  ei_Dead :: bool

record FortInfo =
  fi_DaysElapsed :: u32
  fi_CreatedWealth :: u64
  fi_Season :: u8
  fi_Year :: u32

record WorldIdentity =
  wi_SaveDir :: gostring
  wi_ID1 :: u32
  wi_ID2 :: u32

record ZoneData =
  zn_ZoneID :: u32
  zn_ZoneType :: u8
  zn_X1 :: i16
  zn_Y1 :: i16
  zn_Z1 :: i16
  zn_X2 :: i16
  zn_Y2 :: i16
  zn_Z2 :: i16
  zn_OwnerUnitID :: i32
  zn_AssignedUnits :: "i32 list"

record EntityUpdateMessage =
  eu_Count :: u32
  eu_Entities :: "EntityInfo list"
  eu_FortInfo :: "FortInfo option"
  eu_Zones :: "ZoneData list"
  eu_World :: "WorldIdentity option"

record CommandAckMessage =
  ca_CommandID :: u32
  ca_Status :: u8
  ca_ErrorMsg :: gostring

record AnnouncementInfo =
  an_ID :: u32
  an_TypeID :: u16
  an_Severity :: u8
  an_X :: i16
  an_Y :: i16
  an_Z :: i16
  an_GameYear :: u32
  an_GameTick :: u32
  an_Text :: gostring
  an_RepeatCount :: u32

record AnnouncementUpdateMessage =
  au_Count :: u32
  au_Announcements :: "AnnouncementInfo list"

record QueryMessage =
  qm_QueryID :: u32
  qm_Name :: gostring
  qm_Args :: gostring

record QueryResponseMessage =
  qr_QueryID :: u32
  qr_Status :: u8
  qr_Data :: gostring

section \<open>The Message interface\<close>

datatype Message =
    Handshake HandshakeMessage
  | FullState FullStateMessage
  | TileUpdate TileUpdateMessage
  | ResyncRequest ResyncRequestMessage
  | Heartbeat HeartbeatMessage
  | Error ErrorMessage
  | Disconnect DisconnectMessage
  | EntityUpdate EntityUpdateMessage
  | Command CommandMessage
  | CommandAck CommandAckMessage
  | Query QueryMessage
  | QueryResponse QueryResponseMessage
  | AnnouncementUpdate AnnouncementUpdateMessage

fun message_type :: "Message \<Rightarrow> u8" where
  "message_type (Handshake m) = MessageTypeHandshake"
| "message_type (FullState m) = MessageTypeFullState"
| "message_type (TileUpdate m) = MessageTypeTileUpdate"
| "message_type (ResyncRequest m) = MessageTypeResyncRequest"
| "message_type (Heartbeat m) = MessageTypeHeartbeat"
| "message_type (Error m) = MessageTypeError"
| "message_type (Disconnect m) = MessageTypeDisconnect"
| "message_type (EntityUpdate m) = MessageTypeEntityUpdate"
| "message_type (Command m) = MessageTypeCommand"
| "message_type (CommandAck m) = MessageTypeCommandAck"
| "message_type (Query m) = MessageTypeQuery"
| "message_type (QueryResponse m) = MessageTypeQueryResponse"
| "message_type (AnnouncementUpdate m) = MessageTypeAnnouncementUpdate"

section \<open>Validate\<close>

definition validate_handshake :: "HandshakeMessage \<Rightarrow> go_error + unit" where
  "validate_handshake m =
     bindr (require (hs_ProtocolVersion m = ProtocolVersion)
       (VersionMismatch (hs_ProtocolVersion m))) (\<lambda>_.
     require (hs_ConnectionID m \<noteq> 0) ZeroConnectionID)"

text \<open>The expected tile count is computed in \<open>int\<close> (64 bits), where it cannot overflow.\<close>

definition validate_full_state :: "FullStateMessage \<Rightarrow> go_error + unit" where
  "validate_full_state m =
     bindr (require
       (length (fs_Tiles m) = unat (fs_Width m) * unat (fs_Height m) * unat (fs_Depth m))
       TileCountMismatch) (\<lambda>_.
     require (\<not> (fs_Width m = 0 \<or> fs_Height m = 0 \<or> fs_Depth m = 0)) ZeroDimension)"

definition validate_resync :: "ResyncRequestMessage \<Rightarrow> go_error + unit" where
  "validate_resync m = require (\<not> rr_Reason m > 0x04) (InvalidReason (rr_Reason m))"

definition validate_tile_update :: "TileUpdateMessage \<Rightarrow> go_error + unit" where
  "validate_tile_update m =
     bindr (require (of_nat (length (tu_Tiles m)) = tu_Count m) CountMismatch) (\<lambda>_.
     require (tu_Count m \<noteq> 0) EmptyTileUpdate)"

definition validate_disconnect :: "DisconnectMessage \<Rightarrow> go_error + unit" where
  "validate_disconnect m = require (\<not> dc_Reason m > 0x03) (InvalidReason (dc_Reason m))"

definition validate_entity_update :: "EntityUpdateMessage \<Rightarrow> go_error + unit" where
  "validate_entity_update m = require (of_nat (length (eu_Entities m)) = eu_Count m) CountMismatch"

definition validate_command_ack :: "CommandAckMessage \<Rightarrow> go_error + unit" where
  "validate_command_ack m = require (\<not> ca_Status m > AckStatusFailure) (InvalidStatus (ca_Status m))"

definition validate_announcements :: "AnnouncementUpdateMessage \<Rightarrow> go_error + unit" where
  "validate_announcements m =
     bindr (require (of_nat (length (au_Announcements m)) = au_Count m) CountMismatch) (\<lambda>_.
     require (list_all (\<lambda>a. \<not> length (an_Text a) > 4096) (au_Announcements m)) TextTooLong)"

definition validate_query :: "QueryMessage \<Rightarrow> go_error + unit" where
  "validate_query m =
     bindr (require (qm_QueryID m \<noteq> 0) ZeroQueryID) (\<lambda>_.
     bindr (require (\<not> (length (qm_Name m) = 0 \<or> length (qm_Name m) > 64)) OutOfRange) (\<lambda>_.
     require (\<not> length (qm_Args m) > 4096) TextTooLong))"

definition validate_query_response :: "QueryResponseMessage \<Rightarrow> go_error + unit" where
  "validate_query_response m =
     bindr (require (qr_QueryID m \<noteq> 0) ZeroQueryID) (\<lambda>_.
     require (\<not> qr_Status m > QueryStatusUnknown) (InvalidStatus (qr_Status m)))"

fun validate_message :: "Message \<Rightarrow> go_error + unit" where
  "validate_message (Handshake m) = validate_handshake m"
| "validate_message (FullState m) = validate_full_state m"
| "validate_message (TileUpdate m) = validate_tile_update m"
| "validate_message (ResyncRequest m) = validate_resync m"
| "validate_message (Heartbeat m) = Inr ()"
| "validate_message (Error m) = Inr ()"
| "validate_message (Disconnect m) = validate_disconnect m"
| "validate_message (EntityUpdate m) = validate_entity_update m"
| "validate_message (Command m) = validate_command m"
| "validate_message (CommandAck m) = validate_command_ack m"
| "validate_message (Query m) = validate_query m"
| "validate_message (QueryResponse m) = validate_query_response m"
| "validate_message (AnnouncementUpdate m) = validate_announcements m"

lemmas message_validators =
  validate_handshake_def validate_full_state_def validate_resync_def validate_tile_update_def
  validate_disconnect_def validate_entity_update_def validate_command_ack_def
  validate_announcements_def validate_query_def validate_query_response_def

section \<open>Flag operations\<close>

lemma HasFlag_SetFlag: "flag \<noteq> 0 \<Longrightarrow> HasFlag (SetFlag t flag) flag"
  by (simp add: HasFlag_def SetFlag_def bit.conj_disj_distrib2 word_bw_comms)

lemma HasFlag_ClearFlag: "\<not> HasFlag (ClearFlag t flag) flag"
  by (simp add: HasFlag_def ClearFlag_def word_bw_assocs)

text \<open>Setting or clearing a flag leaves every disjoint flag as it was.\<close>

lemma HasFlag_frame:
  assumes "flag AND other = 0"
  shows "HasFlag (SetFlag t flag) other = HasFlag t other"
    and "HasFlag (ClearFlag t flag) other = HasFlag t other"
proof -
  have disjoint: "\<not> (bit flag n \<and> bit other n)" for n
    using assms by (metis bit_0_eq bit_and_iff bot2E bot_fun_def bot_bool_def)
  have "(ts_Flags t OR flag) AND other = ts_Flags t AND other"
    and "(ts_Flags t AND NOT flag) AND other = ts_Flags t AND other"
    by (rule bit_word_eqI; use disjoint in \<open>auto simp: bit_simps\<close>)+
  then show "HasFlag (SetFlag t flag) other = HasFlag t other"
    and "HasFlag (ClearFlag t flag) other = HasFlag t other"
    by (simp_all add: HasFlag_def SetFlag_def ClearFlag_def)
qed

end
