(* ===== verification/Command_Codec.thy ===== *)
theory Command_Codec
  imports Command_Validate
begin

text \<open>
  The payload codec of command messages (\<open>serializeCommand\<close> and \<open>deserializeCommand\<close> in
  \<open>internal/protocol/codec.go\<close>): for every command type one writer and one reader, in the order of
  the source's switch, then the two dispatchers and the two functions themselves. A writer that can
  refuse its payload returns a sum. Every pair interprets the codec contract of theory \<open>Wire\<close>, and
  \<open>command_shown\<close> says which fields of a command the wire carries for its type.
\<close>

section \<open>Payloads by command type\<close>

definition ser_region :: "Region \<Rightarrow> bytes" where
  "ser_region d =
     put_i16 (rg_X1 d) @ put_i16 (rg_Y1 d) @ put_i16 (rg_Z1 d) @ put_i16 (rg_X2 d) @
     put_i16 (rg_Y2 d) @ put_i16 (rg_Z2 d)"

definition des_region :: "Region reader" where
  "des_region =
     pbind get_i16 (\<lambda>x1.
     pbind get_i16 (\<lambda>y1.
     pbind get_i16 (\<lambda>z1.
     pbind get_i16 (\<lambda>x2.
     pbind get_i16 (\<lambda>y2.
     pbind get_i16 (\<lambda>z2.
     preturn \<lparr>rg_X1 = x1, rg_Y1 = y1, rg_Z1 = z1, rg_X2 = x2, rg_Y2 = y2, rg_Z2 = z2\<rparr>))))))"

definition ser_dig :: "CommandMessage \<Rightarrow> bytes" where
  "ser_dig m = put_u8 (cm_DigType m) @ ser_region (cm_Region m)"

definition des_dig :: "CommandMessage \<Rightarrow> CommandMessage reader" where
  "des_dig msg =
     pbind get_u8 (\<lambda>digType.
     pbind des_region (\<lambda>region.
     preturn (msg\<lparr>cm_DigType := digType, cm_Region := region\<rparr>)))"

text \<open>
  The material, quality and orientation bytes are optional when read: a payload of an older peer
  ends before them. The name follows only when the build type says so.
\<close>

definition ser_build :: "BuildDesignation \<Rightarrow> go_error + bytes" where
  "ser_build d =
     bindr (if bd_BuildType d = BuildTypeByName then put_str16_max 255 (bd_BuildTypeName d)
            else Inr []) (\<lambda>nameTail.
     Inr (put_i16 (bd_X d) @ put_i16 (bd_Y d) @ put_i16 (bd_Z d) @ put_u8 (bd_BuildType d) @
          put_u8 (bd_Material d) @ put_u8 (bd_Quality d) @ put_u8 (bd_Orientation d) @ nameTail))"

definition des_build :: "BuildDesignation reader" where
  "des_build =
     pbind get_i16 (\<lambda>x.
     pbind get_i16 (\<lambda>y.
     pbind get_i16 (\<lambda>z.
     pbind get_u8 (\<lambda>buildType.
     pbind (get_or_eof get_u8 MaterialClassAny) (\<lambda>material.
     pbind (get_or_eof get_u8 QualityTierAny) (\<lambda>quality.
     pbind (get_or_eof get_u8 BuildOrientAny) (\<lambda>orientation.
     pbind (if buildType = BuildTypeByName then get_str16 else preturn []) (\<lambda>name.
     preturn \<lparr>bd_X = x, bd_Y = y, bd_Z = z, bd_BuildType = buildType, bd_Material = material,
       bd_Quality = quality, bd_Orientation = orientation, bd_BuildTypeName = name\<rparr>))))))))"

definition ser_zone :: "ZoneDesignation \<Rightarrow> bytes" where
  "ser_zone d =
     put_u8 (zd_ZoneType d) @ put_i16 (zd_X1 d) @ put_i16 (zd_Y1 d) @ put_i16 (zd_Z d) @
     put_i16 (zd_X2 d) @ put_i16 (zd_Y2 d)"

definition des_zone :: "ZoneDesignation reader" where
  "des_zone =
     pbind get_u8 (\<lambda>zoneType.
     pbind get_i16 (\<lambda>x1.
     pbind get_i16 (\<lambda>y1.
     pbind get_i16 (\<lambda>z.
     pbind get_i16 (\<lambda>x2.
     pbind get_i16 (\<lambda>y2.
     preturn \<lparr>zd_X1 = x1, zd_Y1 = y1, zd_Z = z, zd_X2 = x2, zd_Y2 = y2, zd_ZoneType = zoneType\<rparr>))))))"

definition ser_assign_zone :: "AssignZoneDesignation \<Rightarrow> bytes" where
  "ser_assign_zone d =
     put_i16 (az_X d) @ put_i16 (az_Y d) @ put_i16 (az_Z d) @ put_i32 (az_UnitID d)"

definition des_assign_zone :: "AssignZoneDesignation reader" where
  "des_assign_zone =
     pbind get_i16 (\<lambda>x.
     pbind get_i16 (\<lambda>y.
     pbind get_i16 (\<lambda>z.
     pbind get_i32 (\<lambda>unitID.
     preturn \<lparr>az_X = x, az_Y = y, az_Z = z, az_UnitID = unitID\<rparr>))))"

definition ser_unassign_zone :: "UnassignZoneDesignation \<Rightarrow> bytes" where
  "ser_unassign_zone d =
     put_i16 (uz_X d) @ put_i16 (uz_Y d) @ put_i16 (uz_Z d) @ put_i32 (uz_UnitID d)"

definition des_unassign_zone :: "UnassignZoneDesignation reader" where
  "des_unassign_zone =
     pbind get_i16 (\<lambda>x.
     pbind get_i16 (\<lambda>y.
     pbind get_i16 (\<lambda>z.
     pbind get_i32 (\<lambda>unitID.
     preturn \<lparr>uz_X = x, uz_Y = y, uz_Z = z, uz_UnitID = unitID\<rparr>))))"

definition ser_create_location :: "CreateLocationDesignation \<Rightarrow> bytes" where
  "ser_create_location d =
     put_i16 (cl_X d) @ put_i16 (cl_Y d) @ put_i16 (cl_Z d) @ put_u8 (cl_LocationType d) @
     put_str16 (cl_Profession d)"

definition des_create_location :: "CreateLocationDesignation reader" where
  "des_create_location =
     pbind get_i16 (\<lambda>x.
     pbind get_i16 (\<lambda>y.
     pbind get_i16 (\<lambda>z.
     pbind get_u8 (\<lambda>locationType.
     pbind get_str16 (\<lambda>profession.
     preturn \<lparr>cl_X = x, cl_Y = y, cl_Z = z, cl_LocationType = locationType, cl_Profession = profession\<rparr>)))))"

definition ser_assign_lodging :: "AssignLodgingDesignation \<Rightarrow> bytes" where
  "ser_assign_lodging d =
     put_i16 (al_TavernX d) @ put_i16 (al_TavernY d) @ put_i16 (al_TavernZ d) @
     put_i16 (al_BedroomX d) @ put_i16 (al_BedroomY d) @ put_i16 (al_BedroomZ d)"

definition des_assign_lodging :: "AssignLodgingDesignation reader" where
  "des_assign_lodging =
     pbind get_i16 (\<lambda>tavernX.
     pbind get_i16 (\<lambda>tavernY.
     pbind get_i16 (\<lambda>tavernZ.
     pbind get_i16 (\<lambda>bedroomX.
     pbind get_i16 (\<lambda>bedroomY.
     pbind get_i16 (\<lambda>bedroomZ.
     preturn \<lparr>al_TavernX = tavernX, al_TavernY = tavernY, al_TavernZ = tavernZ, al_BedroomX = bedroomX,
       al_BedroomY = bedroomY, al_BedroomZ = bedroomZ\<rparr>))))))"

definition ser_unassign_lodging :: "UnassignLodgingDesignation \<Rightarrow> bytes" where
  "ser_unassign_lodging d =
     put_i16 (ul_BedroomX d) @ put_i16 (ul_BedroomY d) @ put_i16 (ul_BedroomZ d)"

definition des_unassign_lodging :: "UnassignLodgingDesignation reader" where
  "des_unassign_lodging =
     pbind get_i16 (\<lambda>bedroomX.
     pbind get_i16 (\<lambda>bedroomY.
     pbind get_i16 (\<lambda>bedroomZ.
     preturn \<lparr>ul_BedroomX = bedroomX, ul_BedroomY = bedroomY, ul_BedroomZ = bedroomZ\<rparr>)))"

definition ser_unsuspend :: "UnsuspendDesignation \<Rightarrow> bytes" where
  "ser_unsuspend d =
     put_i16 (us_X d) @ put_i16 (us_Y d) @ put_i16 (us_Z d)"

definition des_unsuspend :: "UnsuspendDesignation reader" where
  "des_unsuspend =
     pbind get_i16 (\<lambda>x.
     pbind get_i16 (\<lambda>y.
     pbind get_i16 (\<lambda>z.
     preturn \<lparr>us_X = x, us_Y = y, us_Z = z\<rparr>)))"

definition ser_work_order :: "WorkOrderDesignation \<Rightarrow> go_error + bytes" where
  "ser_work_order d =
     bindr (if wo_OrderType d = OrderTypeByName then put_str16_max 255 (wo_JobTypeName d)
            else Inr []) (\<lambda>nameTail.
     bindr (put_str16_max 255 (wo_Material d)) (\<lambda>materialBytes.
     bindr (put_str16_max 255 (wo_Subtype d)) (\<lambda>subtypeBytes.
     Inr (put_u8 (wo_OrderType d) @ put_u16 (wo_Quantity d) @ nameTail @ materialBytes @
          put_u8 (wo_Frequency d) @ subtypeBytes))))"

definition des_work_order :: "WorkOrderDesignation reader" where
  "des_work_order =
     pbind get_u8 (\<lambda>orderType.
     pbind get_u16 (\<lambda>quantity.
     pbind (if orderType = OrderTypeByName then get_str16 else preturn []) (\<lambda>name.
     pbind get_opt_str16 (\<lambda>material.
     pbind (get_or_eof get_u8 WorkOrderFrequencyOneTime) (\<lambda>frequency.
     pbind get_opt_str16 (\<lambda>subtype.
     preturn \<lparr>wo_OrderType = orderType, wo_Quantity = quantity, wo_JobTypeName = name,
       wo_Material = material, wo_Frequency = frequency, wo_Subtype = subtype\<rparr>))))))"

definition ser_stockpile :: "StockpileDesignation \<Rightarrow> bytes" where
  "ser_stockpile d =
     put_i16 (sp_X1 d) @ put_i16 (sp_Y1 d) @ put_i16 (sp_Z d) @ put_i16 (sp_X2 d) @
     put_i16 (sp_Y2 d) @ put_u32 (sp_GroupMask d)"

definition des_stockpile :: "StockpileDesignation reader" where
  "des_stockpile =
     pbind get_i16 (\<lambda>x1.
     pbind get_i16 (\<lambda>y1.
     pbind get_i16 (\<lambda>z.
     pbind get_i16 (\<lambda>x2.
     pbind get_i16 (\<lambda>y2.
     pbind get_u32 (\<lambda>groupMask.
     preturn \<lparr>sp_X1 = x1, sp_Y1 = y1, sp_Z = z, sp_X2 = x2, sp_Y2 = y2, sp_GroupMask = groupMask\<rparr>))))))"

definition ser_smooth :: "SmoothDesignation \<Rightarrow> bytes" where
  "ser_smooth d =
     put_u8 (sm_SmoothType d) @ put_i16 (sm_X1 d) @ put_i16 (sm_Y1 d) @ put_i16 (sm_Z d) @
     put_i16 (sm_X2 d) @ put_i16 (sm_Y2 d)"

definition des_smooth :: "SmoothDesignation reader" where
  "des_smooth =
     pbind get_u8 (\<lambda>smoothType.
     pbind get_i16 (\<lambda>x1.
     pbind get_i16 (\<lambda>y1.
     pbind get_i16 (\<lambda>z.
     pbind get_i16 (\<lambda>x2.
     pbind get_i16 (\<lambda>y2.
     preturn \<lparr>sm_X1 = x1, sm_Y1 = y1, sm_Z = z, sm_X2 = x2, sm_Y2 = y2, sm_SmoothType = smoothType\<rparr>))))))"

definition ser_pause :: "PauseControl \<Rightarrow> bytes" where
  "ser_pause d =
     put_u8 (pc_Mode d) @ put_u32 (pc_Ticks d)"

definition des_pause :: "PauseControl reader" where
  "des_pause =
     pbind get_u8 (\<lambda>mode.
     pbind get_u32 (\<lambda>ticks.
     preturn \<lparr>pc_Mode = mode, pc_Ticks = ticks\<rparr>))"

definition ser_remove_building :: "RemoveBuildingDesignation \<Rightarrow> bytes" where
  "ser_remove_building d =
     put_i16 (rm_X d) @ put_i16 (rm_Y d) @ put_i16 (rm_Z d)"

definition des_remove_building :: "RemoveBuildingDesignation reader" where
  "des_remove_building =
     pbind get_i16 (\<lambda>x.
     pbind get_i16 (\<lambda>y.
     pbind get_i16 (\<lambda>z.
     preturn \<lparr>rm_X = x, rm_Y = y, rm_Z = z\<rparr>)))"

definition ser_remove_zone :: "RemoveZoneDesignation \<Rightarrow> bytes" where
  "ser_remove_zone d =
     put_i16 (rz_X d) @ put_i16 (rz_Y d) @ put_i16 (rz_Z d)"

definition des_remove_zone :: "RemoveZoneDesignation reader" where
  "des_remove_zone =
     pbind get_i16 (\<lambda>x.
     pbind get_i16 (\<lambda>y.
     pbind get_i16 (\<lambda>z.
     preturn \<lparr>rz_X = x, rz_Y = y, rz_Z = z\<rparr>)))"

definition ser_farm_plot :: "FarmPlotDesignation \<Rightarrow> bytes" where
  "ser_farm_plot d =
     put_i16 (fp_X1 d) @ put_i16 (fp_Y1 d) @ put_i16 (fp_Z d) @ put_i16 (fp_X2 d) @
     put_i16 (fp_Y2 d)"

definition des_farm_plot :: "FarmPlotDesignation reader" where
  "des_farm_plot =
     pbind get_i16 (\<lambda>x1.
     pbind get_i16 (\<lambda>y1.
     pbind get_i16 (\<lambda>z.
     pbind get_i16 (\<lambda>x2.
     pbind get_i16 (\<lambda>y2.
     preturn \<lparr>fp_X1 = x1, fp_Y1 = y1, fp_Z = z, fp_X2 = x2, fp_Y2 = y2\<rparr>)))))"

definition ser_set_farm_crop :: "SetFarmCropDesignation \<Rightarrow> go_error + bytes" where
  "ser_set_farm_crop d =
     bindr (put_str16_max 65535 (fc_CropName d)) (\<lambda>cropNameBytes.
     Inr (put_i16 (fc_X d) @ put_i16 (fc_Y d) @ put_i16 (fc_Z d) @ put_u8 (fc_Season d) @
          cropNameBytes))"

definition des_set_farm_crop :: "SetFarmCropDesignation reader" where
  "des_set_farm_crop =
     pbind get_i16 (\<lambda>x.
     pbind get_i16 (\<lambda>y.
     pbind get_i16 (\<lambda>z.
     pbind get_u8 (\<lambda>season.
     pbind get_str16 (\<lambda>cropName.
     preturn \<lparr>fc_X = x, fc_Y = y, fc_Z = z, fc_Season = season, fc_CropName = cropName\<rparr>)))))"

definition ser_designate_burrow :: "DesignateBurrowDesignation \<Rightarrow> go_error + bytes" where
  "ser_designate_burrow d =
     bindr (put_str16_max 255 (db_Name d)) (\<lambda>nameBytes.
     Inr (nameBytes @ put_i16 (db_X1 d) @ put_i16 (db_Y1 d) @ put_i16 (db_Z1 d) @
          put_i16 (db_X2 d) @ put_i16 (db_Y2 d) @ put_i16 (db_Z2 d)))"

definition des_designate_burrow :: "DesignateBurrowDesignation reader" where
  "des_designate_burrow =
     pbind get_str16 (\<lambda>name.
     pbind get_i16 (\<lambda>x1.
     pbind get_i16 (\<lambda>y1.
     pbind get_i16 (\<lambda>z1.
     pbind get_i16 (\<lambda>x2.
     pbind get_i16 (\<lambda>y2.
     pbind get_i16 (\<lambda>z2.
     preturn \<lparr>db_Name = name, db_X1 = x1, db_Y1 = y1, db_Z1 = z1, db_X2 = x2, db_Y2 = y2, db_Z2 = z2\<rparr>)))))))"

definition ser_remove_burrow :: "RemoveBurrowDesignation \<Rightarrow> go_error + bytes" where
  "ser_remove_burrow d =
     bindr (put_str16_max 255 (rb_Name d)) (\<lambda>nameBytes.
     Inr (nameBytes))"

definition des_remove_burrow :: "RemoveBurrowDesignation reader" where
  "des_remove_burrow =
     pbind get_str16 (\<lambda>name.
     preturn \<lparr>rb_Name = name\<rparr>)"

definition ser_assign_burrow :: "AssignBurrowDesignation \<Rightarrow> go_error + bytes" where
  "ser_assign_burrow d =
     bindr (put_str16_max 255 (ab_Name d)) (\<lambda>nameBytes.
     Inr (nameBytes @ put_bool (ab_Assign d) @ put_bool (ab_AllCitizens d) @
          put_i32 (ab_UnitID d)))"

definition des_assign_burrow :: "AssignBurrowDesignation reader" where
  "des_assign_burrow =
     pbind get_str16 (\<lambda>name.
     pbind get_bool (\<lambda>assign.
     pbind get_bool (\<lambda>allCitizens.
     pbind get_i32 (\<lambda>unitID.
     preturn \<lparr>ab_Name = name, ab_Assign = assign, ab_AllCitizens = allCitizens, ab_UnitID = unitID\<rparr>))))"

definition ser_set_alert :: "SetAlertDesignation \<Rightarrow> go_error + bytes" where
  "ser_set_alert d =
     bindr (put_str16_max 255 (sa_Name d)) (\<lambda>nameBytes.
     Inr (nameBytes @ put_bool (sa_Active d)))"

definition des_set_alert :: "SetAlertDesignation reader" where
  "des_set_alert =
     pbind get_str16 (\<lambda>name.
     pbind get_bool (\<lambda>active.
     preturn \<lparr>sa_Name = name, sa_Active = active\<rparr>))"

definition ser_queue_job :: "QueueJobDesignation \<Rightarrow> go_error + bytes" where
  "ser_queue_job d =
     (let trailingName = (if qj_OrderType d = OrderTypeByName then qj_JobTypeName d
                          else if qj_OrderType d = OrderTypeCustomReaction then qj_ReactionCode d
                          else []) in
     bindr (if qj_OrderType d = OrderTypeByName \<or> qj_OrderType d = OrderTypeCustomReaction
            then put_str16_max 255 trailingName else Inr []) (\<lambda>nameTail.
     bindr (put_str16_max 255 (qj_Material d)) (\<lambda>materialBytes.
     bindr (put_str16_max 255 (qj_Subtype d)) (\<lambda>subtypeBytes.
     Inr (put_i16 (qj_X d) @ put_i16 (qj_Y d) @ put_i16 (qj_Z d) @ put_u8 (qj_OrderType d) @
          nameTail @ materialBytes @ subtypeBytes)))))"

definition des_queue_job :: "QueueJobDesignation reader" where
  "des_queue_job =
     pbind get_i16 (\<lambda>x.
     pbind get_i16 (\<lambda>y.
     pbind get_i16 (\<lambda>z.
     pbind get_u8 (\<lambda>orderType.
     pbind (if orderType = OrderTypeByName \<or> orderType = OrderTypeCustomReaction
            then get_str16 else preturn []) (\<lambda>name.
     pbind get_opt_str16 (\<lambda>material.
     pbind get_opt_str16 (\<lambda>subtype.
     preturn \<lparr>qj_X = x, qj_Y = y, qj_Z = z, qj_OrderType = orderType,
       qj_JobTypeName = (if orderType = OrderTypeByName then name else []),
       qj_ReactionCode = (if orderType = OrderTypeCustomReaction then name else []),
       qj_Material = material, qj_Subtype = subtype\<rparr>)))))))"

definition ser_set_labor :: "SetLaborDesignation \<Rightarrow> bytes" where
  "ser_set_labor d =
     put_i32 (sl_UnitID d) @ put_u8 (sl_LaborID d) @ put_bool (sl_Enable d)"

definition des_set_labor :: "SetLaborDesignation reader" where
  "des_set_labor =
     pbind get_i32 (\<lambda>unitID.
     pbind get_u8 (\<lambda>laborID.
     pbind get_bool (\<lambda>enable.
     preturn \<lparr>sl_UnitID = unitID, sl_LaborID = laborID, sl_Enable = enable\<rparr>)))"

definition ser_blueprint :: "CommandMessage \<Rightarrow> go_error + bytes" where
  "ser_blueprint m =
     bindr (put_str16_max 255 (cm_BlueprintName m)) (\<lambda>nameBytes.
     Inr (nameBytes @ put_i16 (cm_OriginX m) @ put_i16 (cm_OriginY m) @ put_i16 (cm_OriginZ m)))"

definition des_blueprint :: "CommandMessage \<Rightarrow> CommandMessage reader" where
  "des_blueprint msg =
     pbind get_str16 (\<lambda>name.
     pbind get_i16 (\<lambda>x.
     pbind get_i16 (\<lambda>y.
     pbind get_i16 (\<lambda>z.
     preturn (msg\<lparr>cm_BlueprintName := name, cm_OriginX := x, cm_OriginY := y, cm_OriginZ := z\<rparr>)))))"

definition ser_link_building :: "LinkBuildingDesignation \<Rightarrow> bytes" where
  "ser_link_building d =
     put_i16 (lb_LeverX d) @ put_i16 (lb_LeverY d) @ put_i16 (lb_LeverZ d) @
     put_i16 (lb_TargetX d) @ put_i16 (lb_TargetY d) @ put_i16 (lb_TargetZ d)"

definition des_link_building :: "LinkBuildingDesignation reader" where
  "des_link_building =
     pbind get_i16 (\<lambda>leverX.
     pbind get_i16 (\<lambda>leverY.
     pbind get_i16 (\<lambda>leverZ.
     pbind get_i16 (\<lambda>targetX.
     pbind get_i16 (\<lambda>targetY.
     pbind get_i16 (\<lambda>targetZ.
     preturn \<lparr>lb_LeverX = leverX, lb_LeverY = leverY, lb_LeverZ = leverZ, lb_TargetX = targetX,
       lb_TargetY = targetY, lb_TargetZ = targetZ\<rparr>))))))"

definition ser_pull_lever :: "PullLeverDesignation \<Rightarrow> bytes" where
  "ser_pull_lever d =
     put_i16 (pl_X d) @ put_i16 (pl_Y d) @ put_i16 (pl_Z d)"

definition des_pull_lever :: "PullLeverDesignation reader" where
  "des_pull_lever =
     pbind get_i16 (\<lambda>x.
     pbind get_i16 (\<lambda>y.
     pbind get_i16 (\<lambda>z.
     preturn \<lparr>pl_X = x, pl_Y = y, pl_Z = z\<rparr>)))"

definition ser_build_bridge :: "BuildBridgeDesignation \<Rightarrow> bytes" where
  "ser_build_bridge d =
     put_i16 (bb_X1 d) @ put_i16 (bb_Y1 d) @ put_i16 (bb_Z d) @ put_i16 (bb_X2 d) @
     put_i16 (bb_Y2 d) @ put_u8 (bb_Direction d)"

definition des_build_bridge :: "BuildBridgeDesignation reader" where
  "des_build_bridge =
     pbind get_i16 (\<lambda>x1.
     pbind get_i16 (\<lambda>y1.
     pbind get_i16 (\<lambda>z.
     pbind get_i16 (\<lambda>x2.
     pbind get_i16 (\<lambda>y2.
     pbind get_u8 (\<lambda>direction.
     preturn \<lparr>bb_X1 = x1, bb_Y1 = y1, bb_Z = z, bb_X2 = x2, bb_Y2 = y2, bb_Direction = direction\<rparr>))))))"

definition ser_set_workshop_profile :: "SetWorkshopProfileDesignation \<Rightarrow> bytes" where
  "ser_set_workshop_profile d =
     put_i16 (wp_X d) @ put_i16 (wp_Y d) @ put_i16 (wp_Z d) @ put_i32 (wp_MinSkillLevel d) @
     put_i32 (wp_MaxSkillLevel d) @ put_i32 (wp_WorkerUnitID d)"

definition des_set_workshop_profile :: "SetWorkshopProfileDesignation reader" where
  "des_set_workshop_profile =
     pbind get_i16 (\<lambda>x.
     pbind get_i16 (\<lambda>y.
     pbind get_i16 (\<lambda>z.
     pbind get_i32 (\<lambda>minSkillLevel.
     pbind get_i32 (\<lambda>maxSkillLevel.
     pbind get_i32 (\<lambda>workerUnitID.
     preturn \<lparr>wp_X = x, wp_Y = y, wp_Z = z, wp_MinSkillLevel = minSkillLevel,
       wp_MaxSkillLevel = maxSkillLevel, wp_WorkerUnitID = workerUnitID\<rparr>))))))"

definition ser_assign_work_detail :: "AssignWorkDetailDesignation \<Rightarrow> bytes" where
  "ser_assign_work_detail d =
     put_u16 (aw_DetailIndex d) @ put_i32 (aw_UnitID d) @ put_bool (aw_Add d)"

definition des_assign_work_detail :: "AssignWorkDetailDesignation reader" where
  "des_assign_work_detail =
     pbind get_u16 (\<lambda>detailIndex.
     pbind get_i32 (\<lambda>unitID.
     pbind get_bool (\<lambda>add.
     preturn \<lparr>aw_DetailIndex = detailIndex, aw_UnitID = unitID, aw_Add = add\<rparr>)))"

definition ser_set_work_detail_mode :: "SetWorkDetailModeDesignation \<Rightarrow> bytes" where
  "ser_set_work_detail_mode d =
     put_u16 (wm_DetailIndex d) @ put_u8 (wm_Mode d)"

definition des_set_work_detail_mode :: "SetWorkDetailModeDesignation reader" where
  "des_set_work_detail_mode =
     pbind get_u16 (\<lambda>detailIndex.
     pbind get_u8 (\<lambda>mode.
     preturn \<lparr>wm_DetailIndex = detailIndex, wm_Mode = mode\<rparr>))"

definition ser_create_work_detail :: "CreateWorkDetailDesignation \<Rightarrow> go_error + bytes" where
  "ser_create_work_detail d =
     bindr (put_str16_max 255 (cw_Name d)) (\<lambda>nameBytes.
     Inr (nameBytes @ put_u8 (cw_Mode d) @ put_str16 (cw_LaborIDs d)))"

definition des_create_work_detail :: "CreateWorkDetailDesignation reader" where
  "des_create_work_detail =
     pbind get_str16 (\<lambda>name.
     pbind get_u8 (\<lambda>mode.
     pbind get_str16 (\<lambda>laborIDs.
     preturn \<lparr>cw_Name = name, cw_Mode = mode, cw_LaborIDs = laborIDs\<rparr>)))"

definition ser_bring_goods :: "BringGoodsToDepotDesignation \<Rightarrow> go_error + bytes" where
  "ser_bring_goods d =
     bindr (put_str16_max 255 (bg_ItemTypeFilter d)) (\<lambda>itemTypeBytes.
     bindr (put_str16_max 255 (bg_MaterialFilter d)) (\<lambda>materialBytes.
     Inr (put_i16 (bg_X d) @ put_i16 (bg_Y d) @ put_i16 (bg_Z d) @ itemTypeBytes @ materialBytes @
          put_i32 (bg_MaxCount d) @ put_i64 (bg_MaxTotalValue d) @ put_u8 (bg_ItemClass d))))"

definition des_bring_goods :: "BringGoodsToDepotDesignation reader" where
  "des_bring_goods =
     pbind get_i16 (\<lambda>x.
     pbind get_i16 (\<lambda>y.
     pbind get_i16 (\<lambda>z.
     pbind get_str16 (\<lambda>itemTypeFilter.
     pbind get_str16 (\<lambda>materialFilter.
     pbind get_i32 (\<lambda>maxCount.
     pbind get_i64 (\<lambda>maxTotalValue.
     pbind (get_or_eof get_u8 ItemClassAny) (\<lambda>itemClass.
     preturn \<lparr>bg_X = x, bg_Y = y, bg_Z = z, bg_ItemTypeFilter = itemTypeFilter,
       bg_MaterialFilter = materialFilter, bg_MaxCount = maxCount, bg_MaxTotalValue = maxTotalValue,
       bg_ItemClass = itemClass\<rparr>))))))))"

definition ser_appoint_position :: "AppointPositionDesignation \<Rightarrow> go_error + bytes" where
  "ser_appoint_position d =
     bindr (put_str16_max 255 (ap_PositionCode d)) (\<lambda>positionCodeBytes.
     Inr (put_i32 (ap_UnitID d) @ positionCodeBytes))"

definition des_appoint_position :: "AppointPositionDesignation reader" where
  "des_appoint_position =
     pbind get_i32 (\<lambda>unitID.
     pbind get_str16 (\<lambda>positionCode.
     preturn \<lparr>ap_UnitID = unitID, ap_PositionCode = positionCode\<rparr>))"

definition ser_set_bookkeeper_precision :: "SetBookkeeperPrecisionDesignation \<Rightarrow> bytes" where
  "ser_set_bookkeeper_precision d =
     put_u8 (bp_Precision d)"

definition des_set_bookkeeper_precision :: "SetBookkeeperPrecisionDesignation reader" where
  "des_set_bookkeeper_precision =
     pbind get_u8 (\<lambda>precision.
     preturn \<lparr>bp_Precision = precision\<rparr>)"

definition ser_create_squad :: "CreateSquadDesignation \<Rightarrow> go_error + bytes" where
  "ser_create_squad d =
     bindr (put_str16_max 255 (cs_PositionCode d)) (\<lambda>positionCodeBytes.
     Inr (positionCodeBytes))"

definition des_create_squad :: "CreateSquadDesignation reader" where
  "des_create_squad =
     pbind get_str16 (\<lambda>positionCode.
     preturn \<lparr>cs_PositionCode = positionCode\<rparr>)"

definition ser_assign_squad :: "AssignSquadDesignation \<Rightarrow> bytes" where
  "ser_assign_squad d =
     put_i32 (as_SquadID d) @ put_i32 (as_UnitID d) @ put_bool (as_Add d)"

definition des_assign_squad :: "AssignSquadDesignation reader" where
  "des_assign_squad =
     pbind get_i32 (\<lambda>squadID.
     pbind get_i32 (\<lambda>unitID.
     pbind get_bool (\<lambda>add.
     preturn \<lparr>as_SquadID = squadID, as_UnitID = unitID, as_Add = add\<rparr>)))"

definition ser_squad_order :: "SquadOrderDesignation \<Rightarrow> go_error + bytes" where
  "ser_squad_order d =
     bindr (put_str16_max 255 (so_BurrowName d)) (\<lambda>burrowNameBytes.
     Inr (put_i32 (so_SquadID d) @ put_u8 (so_Type d) @ put_i16 (so_X d) @ put_i16 (so_Y d) @
          put_i16 (so_Z d) @ burrowNameBytes))"

definition des_squad_order :: "SquadOrderDesignation reader" where
  "des_squad_order =
     pbind get_i32 (\<lambda>squadID.
     pbind get_u8 (\<lambda>ty.
     pbind get_i16 (\<lambda>x.
     pbind get_i16 (\<lambda>y.
     pbind get_i16 (\<lambda>z.
     pbind get_str16 (\<lambda>burrowName.
     preturn \<lparr>so_SquadID = squadID, so_Type = ty, so_X = x, so_Y = y, so_Z = z, so_BurrowName = burrowName\<rparr>))))))"

definition ser_cancel_order :: "CancelOrderDesignation \<Rightarrow> bytes" where
  "ser_cancel_order d =
     put_i32 (co_OrderID d)"

definition des_cancel_order :: "CancelOrderDesignation reader" where
  "des_cancel_order =
     pbind get_i32 (\<lambda>orderID.
     preturn \<lparr>co_OrderID = orderID\<rparr>)"

definition ser_edit_order :: "EditOrderDesignation \<Rightarrow> bytes" where
  "ser_edit_order d =
     put_i32 (eo_OrderID d) @ put_bool (eo_HasAmount d) @ put_u16 (eo_Amount d) @
     put_bool (eo_HasFrequency d) @ put_u8 (eo_Frequency d)"

definition des_edit_order :: "EditOrderDesignation reader" where
  "des_edit_order =
     pbind get_i32 (\<lambda>orderID.
     pbind get_bool (\<lambda>hasAmount.
     pbind get_u16 (\<lambda>amount.
     pbind get_bool (\<lambda>hasFrequency.
     pbind get_u8 (\<lambda>frequency.
     preturn \<lparr>eo_OrderID = orderID, eo_HasAmount = hasAmount, eo_Amount = amount,
       eo_HasFrequency = hasFrequency, eo_Frequency = frequency\<rparr>)))))"

definition ser_unmark_trade_goods :: "UnmarkTradeGoodsDesignation \<Rightarrow> go_error + bytes" where
  "ser_unmark_trade_goods d =
     bindr (put_str16_max 255 (ug_ItemTypeFilter d)) (\<lambda>itemTypeFilterBytes.
     bindr (put_str16_max 255 (ug_MaterialFilter d)) (\<lambda>materialFilterBytes.
     Inr (put_i16 (ug_X d) @ put_i16 (ug_Y d) @ put_i16 (ug_Z d) @ itemTypeFilterBytes @
          materialFilterBytes @ put_u8 (ug_ItemClass d) @ put_i32 (ug_MaxCount d))))"

definition des_unmark_trade_goods :: "UnmarkTradeGoodsDesignation reader" where
  "des_unmark_trade_goods =
     pbind get_i16 (\<lambda>x.
     pbind get_i16 (\<lambda>y.
     pbind get_i16 (\<lambda>z.
     pbind get_str16 (\<lambda>itemTypeFilter.
     pbind get_str16 (\<lambda>materialFilter.
     pbind get_u8 (\<lambda>itemClass.
     pbind get_i32 (\<lambda>maxCount.
     preturn \<lparr>ug_X = x, ug_Y = y, ug_Z = z, ug_ItemTypeFilter = itemTypeFilter,
       ug_MaterialFilter = materialFilter, ug_ItemClass = itemClass, ug_MaxCount = maxCount\<rparr>)))))))"

definition ser_set_depot_trade_flags :: "SetDepotTradeFlagsDesignation \<Rightarrow> bytes" where
  "ser_set_depot_trade_flags d =
     put_i16 (df_X d) @ put_i16 (df_Y d) @ put_i16 (df_Z d) @ put_bool (df_TraderRequested d) @
     put_bool (df_AnyoneCanTrade d)"

definition des_set_depot_trade_flags :: "SetDepotTradeFlagsDesignation reader" where
  "des_set_depot_trade_flags =
     pbind get_i16 (\<lambda>x.
     pbind get_i16 (\<lambda>y.
     pbind get_i16 (\<lambda>z.
     pbind get_bool (\<lambda>traderRequested.
     pbind get_bool (\<lambda>anyoneCanTrade.
     preturn \<lparr>df_X = x, df_Y = y, df_Z = z, df_TraderRequested = traderRequested,
       df_AnyoneCanTrade = anyoneCanTrade\<rparr>)))))"

section \<open>Dispatch on the command type\<close>

definition ser_payload :: "CommandMessage \<Rightarrow> go_error + bytes" where
  "ser_payload m = (let t = cm_CommandType m in
     if t = CommandTypeDig \<or> t = CommandTypeCancel then Inr (ser_dig m)
     else if t = CommandTypeBuild then ser_build (cm_Build m)
     else if t = CommandTypeChop \<or> t = CommandTypeGather then Inr (ser_region (cm_Region m))
     else if t = CommandTypeZone then Inr (ser_zone (cm_Zone m))
     else if t = CommandTypeAssignZone then Inr (ser_assign_zone (cm_AssignZone m))
     else if t = CommandTypeUnassignZone then Inr (ser_unassign_zone (cm_UnassignZone m))
     else if t = CommandTypeCreateLocation then Inr (ser_create_location (cm_CreateLocation m))
     else if t = CommandTypeAssignLodging then Inr (ser_assign_lodging (cm_AssignLodging m))
     else if t = CommandTypeUnassignLodging then Inr (ser_unassign_lodging (cm_UnassignLodging m))
     else if t = CommandTypeUnsuspend then Inr (ser_unsuspend (cm_Unsuspend m))
     else if t = CommandTypeWorkOrder then ser_work_order (cm_Order m)
     else if t = CommandTypeStockpile then Inr (ser_stockpile (cm_Stockpile m))
     else if t = CommandTypeSmooth then Inr (ser_smooth (cm_Smooth m))
     else if t = CommandTypePause then Inr (ser_pause (cm_Pause m))
     else if t = CommandTypeRemoveBuilding then Inr (ser_remove_building (cm_Remove m))
     else if t = CommandTypeRemoveZone then Inr (ser_remove_zone (cm_RemoveZone m))
     else if t = CommandTypeBuildFarmPlot then Inr (ser_farm_plot (cm_FarmPlot m))
     else if t = CommandTypeSetFarmCrop then ser_set_farm_crop (cm_SetFarmCrop m)
     else if t = CommandTypeDesignateBurrow then ser_designate_burrow (cm_DesignateBurrow m)
     else if t = CommandTypeRemoveBurrow then ser_remove_burrow (cm_RemoveBurrow m)
     else if t = CommandTypeAssignBurrow then ser_assign_burrow (cm_AssignBurrow m)
     else if t = CommandTypeSetAlert then ser_set_alert (cm_SetAlert m)
     else if t = CommandTypeQueueJob then ser_queue_job (cm_QueueJob m)
     else if t = CommandTypeSetLabor then Inr (ser_set_labor (cm_SetLabor m))
     else if t = CommandTypeBlueprint then ser_blueprint m
     else if t = CommandTypeLinkBuilding then Inr (ser_link_building (cm_LinkBuilding m))
     else if t = CommandTypePullLever then Inr (ser_pull_lever (cm_PullLever m))
     else if t = CommandTypeBuildBridge then Inr (ser_build_bridge (cm_BuildBridge m))
     else if t = CommandTypeSetWorkshopProfile then Inr (ser_set_workshop_profile (cm_SetWorkshopProfile m))
     else if t = CommandTypeAssignWorkDetail then Inr (ser_assign_work_detail (cm_AssignWorkDetail m))
     else if t = CommandTypeSetWorkDetailMode then Inr (ser_set_work_detail_mode (cm_SetWorkDetailMode m))
     else if t = CommandTypeCreateWorkDetail then ser_create_work_detail (cm_CreateWorkDetail m)
     else if t = CommandTypeBringGoodsToDepot then ser_bring_goods (cm_BringGoodsToDepot m)
     else if t = CommandTypeAppointPosition then ser_appoint_position (cm_AppointPosition m)
     else if t = CommandTypeSetBookkeeperPrecision then Inr (ser_set_bookkeeper_precision (cm_SetBookkeeperPrecision m))
     else if t = CommandTypeCreateSquad then ser_create_squad (cm_CreateSquad m)
     else if t = CommandTypeAssignSquad then Inr (ser_assign_squad (cm_AssignSquad m))
     else if t = CommandTypeSquadOrder then ser_squad_order (cm_SquadOrder m)
     else if t = CommandTypeCancelOrder then Inr (ser_cancel_order (cm_CancelOrder m))
     else if t = CommandTypeEditOrder then Inr (ser_edit_order (cm_EditOrder m))
     else if t = CommandTypeUnmarkTradeGoods then ser_unmark_trade_goods (cm_UnmarkTradeGoods m)
     else if t = CommandTypeSetDepotTradeFlags then Inr (ser_set_depot_trade_flags (cm_SetDepotTradeFlags m))
     else Inr [])"

definition des_payload :: "CommandMessage \<Rightarrow> CommandMessage reader" where
  "des_payload msg = (let t = cm_CommandType msg in
     if t = CommandTypeDig \<or> t = CommandTypeCancel then des_dig msg
     else if t = CommandTypeBuild then pbind des_build (\<lambda>d. preturn (msg\<lparr>cm_Build := d\<rparr>))
     else if t = CommandTypeChop \<or> t = CommandTypeGather then pbind des_region (\<lambda>d. preturn (msg\<lparr>cm_Region := d\<rparr>))
     else if t = CommandTypeZone then pbind des_zone (\<lambda>d. preturn (msg\<lparr>cm_Zone := d\<rparr>))
     else if t = CommandTypeAssignZone then pbind des_assign_zone (\<lambda>d. preturn (msg\<lparr>cm_AssignZone := d\<rparr>))
     else if t = CommandTypeUnassignZone then pbind des_unassign_zone (\<lambda>d. preturn (msg\<lparr>cm_UnassignZone := d\<rparr>))
     else if t = CommandTypeCreateLocation then pbind des_create_location (\<lambda>d. preturn (msg\<lparr>cm_CreateLocation := d\<rparr>))
     else if t = CommandTypeAssignLodging then pbind des_assign_lodging (\<lambda>d. preturn (msg\<lparr>cm_AssignLodging := d\<rparr>))
     else if t = CommandTypeUnassignLodging then pbind des_unassign_lodging (\<lambda>d. preturn (msg\<lparr>cm_UnassignLodging := d\<rparr>))
     else if t = CommandTypeUnsuspend then pbind des_unsuspend (\<lambda>d. preturn (msg\<lparr>cm_Unsuspend := d\<rparr>))
     else if t = CommandTypeWorkOrder then pbind des_work_order (\<lambda>d. preturn (msg\<lparr>cm_Order := d\<rparr>))
     else if t = CommandTypeStockpile then pbind des_stockpile (\<lambda>d. preturn (msg\<lparr>cm_Stockpile := d\<rparr>))
     else if t = CommandTypeSmooth then pbind des_smooth (\<lambda>d. preturn (msg\<lparr>cm_Smooth := d\<rparr>))
     else if t = CommandTypePause then pbind des_pause (\<lambda>d. preturn (msg\<lparr>cm_Pause := d\<rparr>))
     else if t = CommandTypeRemoveBuilding then pbind des_remove_building (\<lambda>d. preturn (msg\<lparr>cm_Remove := d\<rparr>))
     else if t = CommandTypeRemoveZone then pbind des_remove_zone (\<lambda>d. preturn (msg\<lparr>cm_RemoveZone := d\<rparr>))
     else if t = CommandTypeBuildFarmPlot then pbind des_farm_plot (\<lambda>d. preturn (msg\<lparr>cm_FarmPlot := d\<rparr>))
     else if t = CommandTypeSetFarmCrop then pbind des_set_farm_crop (\<lambda>d. preturn (msg\<lparr>cm_SetFarmCrop := d\<rparr>))
     else if t = CommandTypeDesignateBurrow then pbind des_designate_burrow (\<lambda>d. preturn (msg\<lparr>cm_DesignateBurrow := d\<rparr>))
     else if t = CommandTypeRemoveBurrow then pbind des_remove_burrow (\<lambda>d. preturn (msg\<lparr>cm_RemoveBurrow := d\<rparr>))
     else if t = CommandTypeAssignBurrow then pbind des_assign_burrow (\<lambda>d. preturn (msg\<lparr>cm_AssignBurrow := d\<rparr>))
     else if t = CommandTypeSetAlert then pbind des_set_alert (\<lambda>d. preturn (msg\<lparr>cm_SetAlert := d\<rparr>))
     else if t = CommandTypeQueueJob then pbind des_queue_job (\<lambda>d. preturn (msg\<lparr>cm_QueueJob := d\<rparr>))
     else if t = CommandTypeSetLabor then pbind des_set_labor (\<lambda>d. preturn (msg\<lparr>cm_SetLabor := d\<rparr>))
     else if t = CommandTypeBlueprint then des_blueprint msg
     else if t = CommandTypeLinkBuilding then pbind des_link_building (\<lambda>d. preturn (msg\<lparr>cm_LinkBuilding := d\<rparr>))
     else if t = CommandTypePullLever then pbind des_pull_lever (\<lambda>d. preturn (msg\<lparr>cm_PullLever := d\<rparr>))
     else if t = CommandTypeBuildBridge then pbind des_build_bridge (\<lambda>d. preturn (msg\<lparr>cm_BuildBridge := d\<rparr>))
     else if t = CommandTypeSetWorkshopProfile then pbind des_set_workshop_profile (\<lambda>d. preturn (msg\<lparr>cm_SetWorkshopProfile := d\<rparr>))
     else if t = CommandTypeAssignWorkDetail then pbind des_assign_work_detail (\<lambda>d. preturn (msg\<lparr>cm_AssignWorkDetail := d\<rparr>))
     else if t = CommandTypeSetWorkDetailMode then pbind des_set_work_detail_mode (\<lambda>d. preturn (msg\<lparr>cm_SetWorkDetailMode := d\<rparr>))
     else if t = CommandTypeCreateWorkDetail then pbind des_create_work_detail (\<lambda>d. preturn (msg\<lparr>cm_CreateWorkDetail := d\<rparr>))
     else if t = CommandTypeBringGoodsToDepot then pbind des_bring_goods (\<lambda>d. preturn (msg\<lparr>cm_BringGoodsToDepot := d\<rparr>))
     else if t = CommandTypeAppointPosition then pbind des_appoint_position (\<lambda>d. preturn (msg\<lparr>cm_AppointPosition := d\<rparr>))
     else if t = CommandTypeSetBookkeeperPrecision then pbind des_set_bookkeeper_precision (\<lambda>d. preturn (msg\<lparr>cm_SetBookkeeperPrecision := d\<rparr>))
     else if t = CommandTypeCreateSquad then pbind des_create_squad (\<lambda>d. preturn (msg\<lparr>cm_CreateSquad := d\<rparr>))
     else if t = CommandTypeAssignSquad then pbind des_assign_squad (\<lambda>d. preturn (msg\<lparr>cm_AssignSquad := d\<rparr>))
     else if t = CommandTypeSquadOrder then pbind des_squad_order (\<lambda>d. preturn (msg\<lparr>cm_SquadOrder := d\<rparr>))
     else if t = CommandTypeCancelOrder then pbind des_cancel_order (\<lambda>d. preturn (msg\<lparr>cm_CancelOrder := d\<rparr>))
     else if t = CommandTypeEditOrder then pbind des_edit_order (\<lambda>d. preturn (msg\<lparr>cm_EditOrder := d\<rparr>))
     else if t = CommandTypeUnmarkTradeGoods then pbind des_unmark_trade_goods (\<lambda>d. preturn (msg\<lparr>cm_UnmarkTradeGoods := d\<rparr>))
     else if t = CommandTypeSetDepotTradeFlags then pbind des_set_depot_trade_flags (\<lambda>d. preturn (msg\<lparr>cm_SetDepotTradeFlags := d\<rparr>))
     else pfail (UnknownCommandType t))"

definition serializeCommand :: "CommandMessage \<Rightarrow> go_error + bytes" where
  "serializeCommand msg =
     bindr (ser_payload msg) (\<lambda>payload.
     Inr (put_u32 (cm_CommandID msg) @ put_u8 (cm_CommandType msg) @ payload))"

definition deserializeCommand :: "bytes \<Rightarrow> go_error + CommandMessage" where
  "deserializeCommand data =
     (if length data < 5 then Inl PayloadTooShort
      else bindr
        (pbind get_u32 (\<lambda>commandID.
         pbind get_u8 (\<lambda>commandType.
         des_payload (zero_CommandMessage\<lparr>cm_CommandID := commandID, cm_CommandType := commandType\<rparr>)))
         data)
        (\<lambda>(msg, rest). Inr msg))"

section \<open>What the wire carries\<close>

definition build_shown :: "BuildDesignation \<Rightarrow> BuildDesignation" where
  "build_shown d = (if bd_BuildType d = BuildTypeByName then d else d\<lparr>bd_BuildTypeName := []\<rparr>)"

definition work_order_shown :: "WorkOrderDesignation \<Rightarrow> WorkOrderDesignation" where
  "work_order_shown d = (if wo_OrderType d = OrderTypeByName then d else d\<lparr>wo_JobTypeName := []\<rparr>)"

definition queue_job_shown :: "QueueJobDesignation \<Rightarrow> QueueJobDesignation" where
  "queue_job_shown d =
     d\<lparr>qj_JobTypeName := (if qj_OrderType d = OrderTypeByName then qj_JobTypeName d else []),
       qj_ReactionCode :=
         (if qj_OrderType d = OrderTypeCustomReaction then qj_ReactionCode d else [])\<rparr>"

text \<open>
  A command as the receiver sees it: its id, its type and the designation its type selects, over
  the zero value.
\<close>

definition command_shown :: "CommandMessage \<Rightarrow> CommandMessage" where
  "command_shown m = (let t = cm_CommandType m;
       z = zero_CommandMessage\<lparr>cm_CommandID := cm_CommandID m, cm_CommandType := t\<rparr> in
     if t = CommandTypeDig \<or> t = CommandTypeCancel then z\<lparr>cm_DigType := cm_DigType m, cm_Region := cm_Region m\<rparr>
     else if t = CommandTypeBuild then z\<lparr>cm_Build := build_shown (cm_Build m)\<rparr>
     else if t = CommandTypeChop \<or> t = CommandTypeGather then z\<lparr>cm_Region := cm_Region m\<rparr>
     else if t = CommandTypeZone then z\<lparr>cm_Zone := cm_Zone m\<rparr>
     else if t = CommandTypeAssignZone then z\<lparr>cm_AssignZone := cm_AssignZone m\<rparr>
     else if t = CommandTypeUnassignZone then z\<lparr>cm_UnassignZone := cm_UnassignZone m\<rparr>
     else if t = CommandTypeCreateLocation then z\<lparr>cm_CreateLocation := cm_CreateLocation m\<rparr>
     else if t = CommandTypeAssignLodging then z\<lparr>cm_AssignLodging := cm_AssignLodging m\<rparr>
     else if t = CommandTypeUnassignLodging then z\<lparr>cm_UnassignLodging := cm_UnassignLodging m\<rparr>
     else if t = CommandTypeUnsuspend then z\<lparr>cm_Unsuspend := cm_Unsuspend m\<rparr>
     else if t = CommandTypeWorkOrder then z\<lparr>cm_Order := work_order_shown (cm_Order m)\<rparr>
     else if t = CommandTypeStockpile then z\<lparr>cm_Stockpile := cm_Stockpile m\<rparr>
     else if t = CommandTypeSmooth then z\<lparr>cm_Smooth := cm_Smooth m\<rparr>
     else if t = CommandTypePause then z\<lparr>cm_Pause := cm_Pause m\<rparr>
     else if t = CommandTypeRemoveBuilding then z\<lparr>cm_Remove := cm_Remove m\<rparr>
     else if t = CommandTypeRemoveZone then z\<lparr>cm_RemoveZone := cm_RemoveZone m\<rparr>
     else if t = CommandTypeBuildFarmPlot then z\<lparr>cm_FarmPlot := cm_FarmPlot m\<rparr>
     else if t = CommandTypeSetFarmCrop then z\<lparr>cm_SetFarmCrop := cm_SetFarmCrop m\<rparr>
     else if t = CommandTypeDesignateBurrow then z\<lparr>cm_DesignateBurrow := cm_DesignateBurrow m\<rparr>
     else if t = CommandTypeRemoveBurrow then z\<lparr>cm_RemoveBurrow := cm_RemoveBurrow m\<rparr>
     else if t = CommandTypeAssignBurrow then z\<lparr>cm_AssignBurrow := cm_AssignBurrow m\<rparr>
     else if t = CommandTypeSetAlert then z\<lparr>cm_SetAlert := cm_SetAlert m\<rparr>
     else if t = CommandTypeQueueJob then z\<lparr>cm_QueueJob := queue_job_shown (cm_QueueJob m)\<rparr>
     else if t = CommandTypeSetLabor then z\<lparr>cm_SetLabor := cm_SetLabor m\<rparr>
     else if t = CommandTypeBlueprint then z\<lparr>cm_BlueprintName := cm_BlueprintName m, cm_OriginX := cm_OriginX m,
         cm_OriginY := cm_OriginY m, cm_OriginZ := cm_OriginZ m\<rparr>
     else if t = CommandTypeLinkBuilding then z\<lparr>cm_LinkBuilding := cm_LinkBuilding m\<rparr>
     else if t = CommandTypePullLever then z\<lparr>cm_PullLever := cm_PullLever m\<rparr>
     else if t = CommandTypeBuildBridge then z\<lparr>cm_BuildBridge := cm_BuildBridge m\<rparr>
     else if t = CommandTypeSetWorkshopProfile then z\<lparr>cm_SetWorkshopProfile := cm_SetWorkshopProfile m\<rparr>
     else if t = CommandTypeAssignWorkDetail then z\<lparr>cm_AssignWorkDetail := cm_AssignWorkDetail m\<rparr>
     else if t = CommandTypeSetWorkDetailMode then z\<lparr>cm_SetWorkDetailMode := cm_SetWorkDetailMode m\<rparr>
     else if t = CommandTypeCreateWorkDetail then z\<lparr>cm_CreateWorkDetail := cm_CreateWorkDetail m\<rparr>
     else if t = CommandTypeBringGoodsToDepot then z\<lparr>cm_BringGoodsToDepot := cm_BringGoodsToDepot m\<rparr>
     else if t = CommandTypeAppointPosition then z\<lparr>cm_AppointPosition := cm_AppointPosition m\<rparr>
     else if t = CommandTypeSetBookkeeperPrecision then z\<lparr>cm_SetBookkeeperPrecision := cm_SetBookkeeperPrecision m\<rparr>
     else if t = CommandTypeCreateSquad then z\<lparr>cm_CreateSquad := cm_CreateSquad m\<rparr>
     else if t = CommandTypeAssignSquad then z\<lparr>cm_AssignSquad := cm_AssignSquad m\<rparr>
     else if t = CommandTypeSquadOrder then z\<lparr>cm_SquadOrder := cm_SquadOrder m\<rparr>
     else if t = CommandTypeCancelOrder then z\<lparr>cm_CancelOrder := cm_CancelOrder m\<rparr>
     else if t = CommandTypeEditOrder then z\<lparr>cm_EditOrder := cm_EditOrder m\<rparr>
     else if t = CommandTypeUnmarkTradeGoods then z\<lparr>cm_UnmarkTradeGoods := cm_UnmarkTradeGoods m\<rparr>
     else if t = CommandTypeSetDepotTradeFlags then z\<lparr>cm_SetDepotTradeFlags := cm_SetDepotTradeFlags m\<rparr>
     else z)"

text \<open>
  The two payload texts whose length the writer does not check: a longer one loses its length's
  high bits on the wire.
\<close>

definition command_fits :: "CommandMessage \<Rightarrow> bool" where
  "command_fits m \<longleftrightarrow>
     (cm_CommandType m = CommandTypeCreateLocation \<longrightarrow>
        length (cl_Profession (cm_CreateLocation m)) \<le> 65535) \<and>
     (cm_CommandType m = CommandTypeCreateWorkDetail \<longrightarrow>
        length (cw_LaborIDs (cm_CreateWorkDetail m)) \<le> 65535)"

section \<open>The contracts\<close>

interpretation region_codec: wire_codec ser_region des_region "\<lambda>_. True" id
  by unfold_locales (simp add: ser_region_def des_region_def pbind_def wire_rt)

interpretation build_codec: payload_codec ser_build des_build "\<lambda>_. True" build_shown
  by unfold_locales (auto simp: ser_build_def des_build_def build_shown_def bindr_eq_Inr put_str16_max_eq_Inr
      pbind_def wire_rt const_defs split: if_splits)

interpretation zone_codec: wire_codec ser_zone des_zone "\<lambda>_. True" id
  by unfold_locales (simp add: ser_zone_def des_zone_def pbind_def wire_rt)

interpretation assign_zone_codec: wire_codec ser_assign_zone des_assign_zone "\<lambda>_. True" id
  by unfold_locales (simp add: ser_assign_zone_def des_assign_zone_def pbind_def wire_rt)

interpretation unassign_zone_codec: wire_codec ser_unassign_zone des_unassign_zone "\<lambda>_. True" id
  by unfold_locales (simp add: ser_unassign_zone_def des_unassign_zone_def pbind_def wire_rt)

interpretation create_location_codec: wire_codec ser_create_location des_create_location "\<lambda>d. length (cl_Profession d) \<le> 65535" id
  by unfold_locales (simp add: ser_create_location_def des_create_location_def pbind_def wire_rt)

interpretation assign_lodging_codec: wire_codec ser_assign_lodging des_assign_lodging "\<lambda>_. True" id
  by unfold_locales (simp add: ser_assign_lodging_def des_assign_lodging_def pbind_def wire_rt)

interpretation unassign_lodging_codec: wire_codec ser_unassign_lodging des_unassign_lodging "\<lambda>_. True" id
  by unfold_locales (simp add: ser_unassign_lodging_def des_unassign_lodging_def pbind_def wire_rt)

interpretation unsuspend_codec: wire_codec ser_unsuspend des_unsuspend "\<lambda>_. True" id
  by unfold_locales (simp add: ser_unsuspend_def des_unsuspend_def pbind_def wire_rt)

interpretation work_order_codec: payload_codec ser_work_order des_work_order "\<lambda>_. True" work_order_shown
  by unfold_locales (auto simp: ser_work_order_def des_work_order_def work_order_shown_def bindr_eq_Inr put_str16_max_eq_Inr
      pbind_def wire_rt const_defs split: if_splits)

interpretation stockpile_codec: wire_codec ser_stockpile des_stockpile "\<lambda>_. True" id
  by unfold_locales (simp add: ser_stockpile_def des_stockpile_def pbind_def wire_rt)

interpretation smooth_codec: wire_codec ser_smooth des_smooth "\<lambda>_. True" id
  by unfold_locales (simp add: ser_smooth_def des_smooth_def pbind_def wire_rt)

interpretation pause_codec: wire_codec ser_pause des_pause "\<lambda>_. True" id
  by unfold_locales (simp add: ser_pause_def des_pause_def pbind_def wire_rt)

interpretation remove_building_codec: wire_codec ser_remove_building des_remove_building "\<lambda>_. True" id
  by unfold_locales (simp add: ser_remove_building_def des_remove_building_def pbind_def wire_rt)

interpretation remove_zone_codec: wire_codec ser_remove_zone des_remove_zone "\<lambda>_. True" id
  by unfold_locales (simp add: ser_remove_zone_def des_remove_zone_def pbind_def wire_rt)

interpretation farm_plot_codec: wire_codec ser_farm_plot des_farm_plot "\<lambda>_. True" id
  by unfold_locales (simp add: ser_farm_plot_def des_farm_plot_def pbind_def wire_rt)

interpretation set_farm_crop_codec: payload_codec ser_set_farm_crop des_set_farm_crop "\<lambda>_. True" id
  by unfold_locales (auto simp: ser_set_farm_crop_def des_set_farm_crop_def bindr_eq_Inr put_str16_max_eq_Inr
      pbind_def wire_rt)

interpretation designate_burrow_codec: payload_codec ser_designate_burrow des_designate_burrow "\<lambda>_. True" id
  by unfold_locales (auto simp: ser_designate_burrow_def des_designate_burrow_def bindr_eq_Inr put_str16_max_eq_Inr
      pbind_def wire_rt)

interpretation remove_burrow_codec: payload_codec ser_remove_burrow des_remove_burrow "\<lambda>_. True" id
  by unfold_locales (auto simp: ser_remove_burrow_def des_remove_burrow_def bindr_eq_Inr put_str16_max_eq_Inr
      pbind_def wire_rt)

interpretation assign_burrow_codec: payload_codec ser_assign_burrow des_assign_burrow "\<lambda>_. True" id
  by unfold_locales (auto simp: ser_assign_burrow_def des_assign_burrow_def bindr_eq_Inr put_str16_max_eq_Inr
      pbind_def wire_rt)

interpretation set_alert_codec: payload_codec ser_set_alert des_set_alert "\<lambda>_. True" id
  by unfold_locales (auto simp: ser_set_alert_def des_set_alert_def bindr_eq_Inr put_str16_max_eq_Inr
      pbind_def wire_rt)

interpretation queue_job_codec: payload_codec ser_queue_job des_queue_job "\<lambda>_. True" queue_job_shown
  by unfold_locales (auto simp: ser_queue_job_def des_queue_job_def queue_job_shown_def bindr_eq_Inr put_str16_max_eq_Inr
      pbind_def wire_rt const_defs split: if_splits)

interpretation set_labor_codec: wire_codec ser_set_labor des_set_labor "\<lambda>_. True" id
  by unfold_locales (simp add: ser_set_labor_def des_set_labor_def pbind_def wire_rt)

interpretation link_building_codec: wire_codec ser_link_building des_link_building "\<lambda>_. True" id
  by unfold_locales (simp add: ser_link_building_def des_link_building_def pbind_def wire_rt)

interpretation pull_lever_codec: wire_codec ser_pull_lever des_pull_lever "\<lambda>_. True" id
  by unfold_locales (simp add: ser_pull_lever_def des_pull_lever_def pbind_def wire_rt)

interpretation build_bridge_codec: wire_codec ser_build_bridge des_build_bridge "\<lambda>_. True" id
  by unfold_locales (simp add: ser_build_bridge_def des_build_bridge_def pbind_def wire_rt)

interpretation set_workshop_profile_codec: wire_codec ser_set_workshop_profile des_set_workshop_profile "\<lambda>_. True" id
  by unfold_locales (simp add: ser_set_workshop_profile_def des_set_workshop_profile_def pbind_def wire_rt)

interpretation assign_work_detail_codec: wire_codec ser_assign_work_detail des_assign_work_detail "\<lambda>_. True" id
  by unfold_locales (simp add: ser_assign_work_detail_def des_assign_work_detail_def pbind_def wire_rt)

interpretation set_work_detail_mode_codec: wire_codec ser_set_work_detail_mode des_set_work_detail_mode "\<lambda>_. True" id
  by unfold_locales (simp add: ser_set_work_detail_mode_def des_set_work_detail_mode_def pbind_def wire_rt)

interpretation create_work_detail_codec: payload_codec ser_create_work_detail des_create_work_detail "\<lambda>d. length (cw_LaborIDs d) \<le> 65535" id
  by unfold_locales (auto simp: ser_create_work_detail_def des_create_work_detail_def bindr_eq_Inr put_str16_max_eq_Inr
      pbind_def wire_rt)

interpretation bring_goods_codec: payload_codec ser_bring_goods des_bring_goods "\<lambda>_. True" id
  by unfold_locales (auto simp: ser_bring_goods_def des_bring_goods_def bindr_eq_Inr put_str16_max_eq_Inr
      pbind_def wire_rt)

interpretation appoint_position_codec: payload_codec ser_appoint_position des_appoint_position "\<lambda>_. True" id
  by unfold_locales (auto simp: ser_appoint_position_def des_appoint_position_def bindr_eq_Inr put_str16_max_eq_Inr
      pbind_def wire_rt)

interpretation set_bookkeeper_precision_codec: wire_codec ser_set_bookkeeper_precision des_set_bookkeeper_precision "\<lambda>_. True" id
  by unfold_locales (simp add: ser_set_bookkeeper_precision_def des_set_bookkeeper_precision_def pbind_def wire_rt)

interpretation create_squad_codec: payload_codec ser_create_squad des_create_squad "\<lambda>_. True" id
  by unfold_locales (auto simp: ser_create_squad_def des_create_squad_def bindr_eq_Inr put_str16_max_eq_Inr
      pbind_def wire_rt)

interpretation assign_squad_codec: wire_codec ser_assign_squad des_assign_squad "\<lambda>_. True" id
  by unfold_locales (simp add: ser_assign_squad_def des_assign_squad_def pbind_def wire_rt)

interpretation squad_order_codec: payload_codec ser_squad_order des_squad_order "\<lambda>_. True" id
  by unfold_locales (auto simp: ser_squad_order_def des_squad_order_def bindr_eq_Inr put_str16_max_eq_Inr
      pbind_def wire_rt)

interpretation cancel_order_codec: wire_codec ser_cancel_order des_cancel_order "\<lambda>_. True" id
  by unfold_locales (simp add: ser_cancel_order_def des_cancel_order_def pbind_def wire_rt)

interpretation edit_order_codec: wire_codec ser_edit_order des_edit_order "\<lambda>_. True" id
  by unfold_locales (simp add: ser_edit_order_def des_edit_order_def pbind_def wire_rt)

interpretation unmark_trade_goods_codec: payload_codec ser_unmark_trade_goods des_unmark_trade_goods "\<lambda>_. True" id
  by unfold_locales (auto simp: ser_unmark_trade_goods_def des_unmark_trade_goods_def bindr_eq_Inr put_str16_max_eq_Inr
      pbind_def wire_rt)

interpretation set_depot_trade_flags_codec: wire_codec ser_set_depot_trade_flags des_set_depot_trade_flags "\<lambda>_. True" id
  by unfold_locales (simp add: ser_set_depot_trade_flags_def des_set_depot_trade_flags_def pbind_def wire_rt)

lemmas designation_codecs =
  region_codec.get_put build_codec.get_wput zone_codec.get_put assign_zone_codec.get_put
  unassign_zone_codec.get_put create_location_codec.get_put assign_lodging_codec.get_put
  unassign_lodging_codec.get_put unsuspend_codec.get_put work_order_codec.get_wput
  stockpile_codec.get_put smooth_codec.get_put pause_codec.get_put
  remove_building_codec.get_put remove_zone_codec.get_put farm_plot_codec.get_put
  set_farm_crop_codec.get_wput designate_burrow_codec.get_wput remove_burrow_codec.get_wput
  assign_burrow_codec.get_wput set_alert_codec.get_wput queue_job_codec.get_wput
  set_labor_codec.get_put link_building_codec.get_put pull_lever_codec.get_put
  build_bridge_codec.get_put set_workshop_profile_codec.get_put
  assign_work_detail_codec.get_put set_work_detail_mode_codec.get_put
  create_work_detail_codec.get_wput bring_goods_codec.get_wput appoint_position_codec.get_wput
  set_bookkeeper_precision_codec.get_put create_squad_codec.get_wput assign_squad_codec.get_put
  squad_order_codec.get_wput cancel_order_codec.get_put edit_order_codec.get_put
  unmark_trade_goods_codec.get_wput set_depot_trade_flags_codec.get_put

section \<open>The command round trip\<close>

lemma dig_codec:
  "des_dig msg (ser_dig m @ rest) =
     Inr (msg\<lparr>cm_DigType := cm_DigType m, cm_Region := cm_Region m\<rparr>, rest)"
  by (simp add: des_dig_def ser_dig_def pbind_def wire_rt region_codec.get_put)

lemma blueprint_codec:
  "ser_blueprint m = Inr bs \<Longrightarrow> des_blueprint msg (bs @ rest) =
     Inr (msg\<lparr>cm_BlueprintName := cm_BlueprintName m, cm_OriginX := cm_OriginX m,
         cm_OriginY := cm_OriginY m, cm_OriginZ := cm_OriginZ m\<rparr>, rest)"
  by (auto simp: des_blueprint_def ser_blueprint_def bindr_eq_Inr put_str16_max_eq_Inr
      pbind_def wire_rt)

text \<open>The command types, one by one: every proof by cases on a valid type starts here.\<close>

lemma command_type_split:
  fixes t :: u8
  assumes "CommandTypeDig \<le> t" and "t \<le> CommandTypeSetDepotTradeFlags"
  shows "t \<in> set [0x01, 0x02, 0x03, 0x04, 0x05, 0x06, 0x07, 0x08, 0x09, 0x0A, 0x0B, 0x0C, 0x0D,
    0x0E, 0x0F, 0x10, 0x11, 0x12, 0x13, 0x14, 0x15, 0x16, 0x17, 0x18, 0x19, 0x1A, 0x1B, 0x1C, 0x1D,
    0x1E, 0x1F, 0x20, 0x21, 0x22, 0x23, 0x24, 0x25, 0x26, 0x27, 0x28, 0x29, 0x2A, 0x2B, 0x2C]"
proof -
  have "unat t \<in> set [1..<45]"
    using assms by (simp add: const_defs word_le_nat_alt)
  moreover have "t = word_of_nat (unat t)" by simp
  ultimately have "t \<in> word_of_nat ` set [1..<45]" by blast
  then show ?thesis by (simp add: upt_rec del: set_upt)
qed

lemma des_ser_payload:
  assumes "CommandTypeDig \<le> cm_CommandType m" "cm_CommandType m \<le> CommandTypeSetDepotTradeFlags"
    and "ser_payload m = Inr p" and "command_fits m"
  shows "des_payload (zero_CommandMessage\<lparr>cm_CommandID := cm_CommandID m,
             cm_CommandType := cm_CommandType m\<rparr>) (p @ rest)
         = Inr (command_shown m, rest)"
  using command_type_split [OF assms(1,2)] assms(3,4)
  unfolding list.set
  by (elim insertE emptyE)
    (auto simp: ser_payload_def des_payload_def command_shown_def command_fits_def const_defs
      pbind_def designation_codecs dig_codec blueprint_codec)

lemma command_decode_encode:
  assumes "validate_command m = Inr ()" and "command_fits m" and "serializeCommand m = Inr bs"
  shows "deserializeCommand (bs @ rest) = Inr (command_shown m)"
proof -
  from assms(3) obtain p where p: "ser_payload m = Inr p"
    and bs: "bs = put_u32 (cm_CommandID m) @ put_u8 (cm_CommandType m) @ p"
    by (auto simp: serializeCommand_def bindr_eq_Inr)
  note range = valid_command_type [OF assms(1)]
  show ?thesis
    using des_ser_payload [OF range [THEN conjunct1] range [THEN conjunct2] p assms(2), of rest]
    by (simp add: deserializeCommand_def bs pbind_def wire_rt)
qed

text \<open>What the wire carries of a valid command is a valid command.\<close>

lemma command_shown_valid:
  assumes "validate_command m = Inr ()"
  shows "validate_command (command_shown m) = Inr ()"
proof -
  note range = valid_command_type [OF assms]
  show ?thesis
    using command_type_split [OF range [THEN conjunct1] range [THEN conjunct2]] assms
    unfolding list.set
    by (elim insertE emptyE)
      (auto simp: validate_command_def command_shown_def const_defs validate_build_def
        validate_queue_job_def validate_work_order_def build_shown_def work_order_shown_def
        queue_job_shown_def bindr_eq_Inr Let_def)
qed


definition pause_example :: CommandMessage where
  "pause_example = zero_CommandMessage\<lparr>cm_CommandID := 7, cm_CommandType := CommandTypePause,
     cm_Pause := \<lparr>pc_Mode = PauseModeStep, pc_Ticks = 100\<rparr>\<rparr>"


section \<open>Decoding errors\<close>

lemmas designation_readers =
  des_region_def des_dig_def des_build_def des_zone_def des_assign_zone_def
  des_unassign_zone_def des_create_location_def des_assign_lodging_def des_unassign_lodging_def
  des_unsuspend_def des_work_order_def des_stockpile_def des_smooth_def des_pause_def
  des_remove_building_def des_remove_zone_def des_farm_plot_def des_set_farm_crop_def
  des_designate_burrow_def des_remove_burrow_def des_assign_burrow_def des_set_alert_def
  des_queue_job_def des_set_labor_def des_blueprint_def des_link_building_def
  des_pull_lever_def des_build_bridge_def des_set_workshop_profile_def
  des_assign_work_detail_def des_set_work_detail_mode_def des_create_work_detail_def
  des_bring_goods_def des_appoint_position_def des_set_bookkeeper_precision_def
  des_create_squad_def des_assign_squad_def des_squad_order_def des_cancel_order_def
  des_edit_order_def des_unmark_trade_goods_def des_set_depot_trade_flags_def

lemma io_designations [io_intros]:
  "io_reader des_region"
  "io_reader (des_dig msg)"
  "io_reader des_build"
  "io_reader des_zone"
  "io_reader des_assign_zone"
  "io_reader des_unassign_zone"
  "io_reader des_create_location"
  "io_reader des_assign_lodging"
  "io_reader des_unassign_lodging"
  "io_reader des_unsuspend"
  "io_reader des_work_order"
  "io_reader des_stockpile"
  "io_reader des_smooth"
  "io_reader des_pause"
  "io_reader des_remove_building"
  "io_reader des_remove_zone"
  "io_reader des_farm_plot"
  "io_reader des_set_farm_crop"
  "io_reader des_designate_burrow"
  "io_reader des_remove_burrow"
  "io_reader des_assign_burrow"
  "io_reader des_set_alert"
  "io_reader des_queue_job"
  "io_reader des_set_labor"
  "io_reader (des_blueprint msg)"
  "io_reader des_link_building"
  "io_reader des_pull_lever"
  "io_reader des_build_bridge"
  "io_reader des_set_workshop_profile"
  "io_reader des_assign_work_detail"
  "io_reader des_set_work_detail_mode"
  "io_reader des_create_work_detail"
  "io_reader des_bring_goods"
  "io_reader des_appoint_position"
  "io_reader des_set_bookkeeper_precision"
  "io_reader des_create_squad"
  "io_reader des_assign_squad"
  "io_reader des_squad_order"
  "io_reader des_cancel_order"
  "io_reader des_edit_order"
  "io_reader des_unmark_trade_goods"
  "io_reader des_set_depot_trade_flags"
  unfolding designation_readers by (intro io_intros)+

lemma des_payload_known:
  assumes "CommandTypeDig \<le> cm_CommandType msg" and "cm_CommandType msg \<le> CommandTypeSetDepotTradeFlags"
  shows "io_reader (des_payload msg)"
  using command_type_split [OF assms]
  unfolding list.set
  by (elim insertE emptyE) (simp_all add: des_payload_def const_defs io_intros)

lemma des_payload_unknown:
  assumes "\<not> (CommandTypeDig \<le> cm_CommandType msg \<and> cm_CommandType msg \<le> CommandTypeSetDepotTradeFlags)"
  shows "des_payload msg bs = Inl (UnknownCommandType (cm_CommandType msg))"
  using assms by (auto simp: des_payload_def const_defs pfail_def Let_def)

text \<open>The four ways decoding a command can fail: it never panics and reports no other error.\<close>

lemma deserializeCommand_Inl:
  assumes "deserializeCommand data = Inl e"
  shows "e \<in> {PayloadTooShort, EOF, UnexpectedEOF} \<or> (\<exists>t. e = UnknownCommandType t)"
proof -
  have payload: "des_payload m bs = Inl e \<Longrightarrow>
      e \<in> {EOF, UnexpectedEOF} \<or> (\<exists>t. e = UnknownCommandType t)" for m bs
    using io_readerD [OF des_payload_known [of m], of bs e] des_payload_unknown [of m bs] by auto
  show ?thesis
    using assms io_readerD [OF io_ints(1)] io_readerD [OF io_ints(3)] payload
    by (fastforce simp: deserializeCommand_def bindr_eq_Inl pbind_eq_Inl split: if_splits prod.splits)
qed

lemma deserializeCommand_header:
  assumes "5 \<le> length data"
  obtains commandID where "deserializeCommand data =
    bindr (des_payload (zero_CommandMessage\<lparr>cm_CommandID := commandID, cm_CommandType := data ! 4\<rparr>)
       (drop 5 data)) (\<lambda>(msg, rest). Inr msg)"
proof -
  obtain b0 b1 b2 b3 b4 tl where d: "data = b0 # b1 # b2 # b3 # b4 # tl"
    using assms by (auto simp: numeral_eq_Suc Suc_le_length_iff)
  have t: "get_u8 (b4 # tl) = Inr (b4, tl)"
    by (rule get_u8_Cons)
  obtain i where i: "get_u32 (b0 # b1 # b2 # b3 # b4 # tl) = Inr (i, b4 # tl)"
    by (simp add: get_u32_def pbind_def read_full_def)
  show ?thesis
    by (rule that [of i]) (simp add: deserializeCommand_def d pbind_def t i)
qed

text \<open>
  The decoder and Validate agree on the command types: a payload with room for its header is
  refused as an unknown command exactly when its type byte is one Validate refuses, so every type
  Validate lets a client send has a decoder.
\<close>

theorem unknown_command_iff_invalid_type:
  assumes "5 \<le> length data" and "cm_CommandType m = data ! 4"
  shows "(\<exists>t. deserializeCommand data = Inl (UnknownCommandType t)) \<longleftrightarrow>
         validate_command m = Inl (InvalidCommandType (data ! 4))"
proof -
  obtain i where i: "deserializeCommand data =
    bindr (des_payload (zero_CommandMessage\<lparr>cm_CommandID := i, cm_CommandType := data ! 4\<rparr>)
       (drop 5 data)) (\<lambda>(msg, rest). Inr msg)"
    using deserializeCommand_header [OF assms(1)] .
  have invalid: "validate_command m = Inl (InvalidCommandType (data ! 4)) \<longleftrightarrow>
      \<not> (CommandTypeDig \<le> data ! 4 \<and> data ! 4 \<le> CommandTypeSetDepotTradeFlags)"
    using validate_type_error [of m "data ! 4"] validate_out_of_range [of m] assms(2) by force
  show ?thesis
  proof (cases "CommandTypeDig \<le> data ! 4 \<and> data ! 4 \<le> CommandTypeSetDepotTradeFlags")
    case True
    let ?z = "zero_CommandMessage\<lparr>cm_CommandID := i, cm_CommandType := data ! 4\<rparr>"
    have "io_reader (des_payload ?z)" using True by (intro des_payload_known) simp_all
    then have "des_payload ?z (drop 5 data) \<noteq> Inl (UnknownCommandType t)" for t
      by (auto dest: io_readerD)
    then show ?thesis using True i invalid by (auto simp: bindr_eq_Inl split: prod.splits)
  next
    case False
    then show ?thesis using i invalid by (simp add: des_payload_unknown)
  qed
qed

theorem unknown_command_witness:
  "(\<exists>t. deserializeCommand [0, 0, 0, 1, 0x2D] = Inl (UnknownCommandType t)) \<longleftrightarrow>
   validate_command (zero_CommandMessage\<lparr>cm_CommandType := 0x2D\<rparr>) = Inl (InvalidCommandType 0x2D)"
  using unknown_command_iff_invalid_type [of "[0, 0, 0, 1, 0x2D]"
      "zero_CommandMessage\<lparr>cm_CommandType := 0x2D\<rparr>"]
  by simp

section \<open>Payloads of older peers\<close>

text \<open>
  A build payload that ends before its material, quality or orientation byte (a peer older than
  that field) decodes with "no constraint" in every missing field and everything before it intact.
\<close>

theorem build_legacy_payload:
  assumes "bd_BuildType d \<noteq> BuildTypeByName" and "ser_build d = Inr bs" and "k \<le> 3"
  shows "des_build (take (7 + k) bs) =
    Inr (d\<lparr>bd_Material := (if 1 \<le> k then bd_Material d else MaterialClassAny),
           bd_Quality := (if 2 \<le> k then bd_Quality d else QualityTierAny),
           bd_Orientation := (if k = 3 then bd_Orientation d else BuildOrientAny),
           bd_BuildTypeName := []\<rparr>, [])"
proof -
  let ?P = "put_i16 (bd_X d) @ put_i16 (bd_Y d) @ put_i16 (bd_Z d) @ put_u8 (bd_BuildType d)"
  have "bs = ?P @ [bd_Material d, bd_Quality d, bd_Orientation d]"
    using assms(1,2) by (auto simp: ser_build_def put_u8_byte)
  then have tk: "take (7 + k) bs = ?P @ take k [bd_Material d, bd_Quality d, bd_Orientation d]"
    by simp
  from assms(3) consider "k = 0" | "k = 1" | "k = 2" | "k = 3" by linarith
  then show ?thesis
    unfolding tk
    by cases (use assms(1) in
      \<open>simp_all add: des_build_def pbind_def wire_rt get_or_eof_def get_u8_Cons\<close>)
qed

definition bed_example :: BuildDesignation where
  "bed_example = zero_BuildDesignation\<lparr>bd_X := 4, bd_Y := 5, bd_Z := 6, bd_BuildType := 0x30,
     bd_Material := 1, bd_Quality := 3\<rparr>"

theorem build_legacy_payload_witness:
  "des_build (take (7 + 1) [0, 4, 0, 5, 0, 6, 0x30, 1, 3, 0]) =
    Inr (bed_example\<lparr>bd_Quality := QualityTierAny, bd_Orientation := BuildOrientAny\<rparr>, [])"
proof -
  have "bd_BuildType bed_example \<noteq> BuildTypeByName"
    by (simp add: bed_example_def const_defs)
  moreover have "ser_build bed_example = Inr [0, 4, 0, 5, 0, 6, 0x30, 1, 3, 0]" by code_simp
  ultimately show ?thesis
    using build_legacy_payload [of bed_example "[0, 4, 0, 5, 0, 6, 0x30, 1, 3, 0]" 1]
    by (simp add: bed_example_def zero_BuildDesignation_def)
qed

text \<open>
  A work order without a name decodes from a payload that ends after the quantity, after the
  material or after the frequency: every missing tail takes its default (no material, one-time, no
  subtype) and the fields before it are intact.
\<close>

theorem work_order_legacy_payload:
  assumes "wo_OrderType d \<noteq> OrderTypeByName" and "ser_work_order d = Inr bs"
  shows "des_work_order (take 3 bs) =
      Inr (d\<lparr>wo_JobTypeName := [], wo_Material := [], wo_Frequency := WorkOrderFrequencyOneTime,
             wo_Subtype := []\<rparr>, []) \<and>
    des_work_order (take (5 + length (wo_Material d)) bs) =
      Inr (d\<lparr>wo_JobTypeName := [], wo_Frequency := WorkOrderFrequencyOneTime,
             wo_Subtype := []\<rparr>, []) \<and>
    des_work_order (take (6 + length (wo_Material d)) bs) =
      Inr (d\<lparr>wo_JobTypeName := [], wo_Subtype := []\<rparr>, [])"
proof -
  let ?P = "put_u8 (wo_OrderType d) @ put_u16 (wo_Quantity d)"
  let ?M = "put_str16 (wo_Material d)"
  have bs: "bs = ?P @ ?M @ put_u8 (wo_Frequency d) @ put_str16 (wo_Subtype d)"
    and len: "length (wo_Material d) \<le> 65535"
    using assms by (auto simp: ser_work_order_def bindr_eq_Inr put_str16_max_eq_Inr)
  have cuts: "take 3 bs = ?P" "take (5 + length (wo_Material d)) bs = ?P @ ?M"
    "take (6 + length (wo_Material d)) bs = ?P @ ?M @ put_u8 (wo_Frequency d)"
    by (simp_all add: bs)
  show ?thesis
    unfolding cuts using assms(1) len
    by (simp add: des_work_order_def pbind_def wire_rt get_or_eof_def)
qed

definition table_order :: WorkOrderDesignation where
  "table_order = zero_WorkOrderDesignation\<lparr>wo_OrderType := 2, wo_Quantity := 10, wo_Frequency := 1\<rparr>"

theorem work_order_legacy_payload_witness:
  "des_work_order (take 3 [2, 0, 10, 0, 0, 1, 0, 0]) =
     Inr (table_order\<lparr>wo_Frequency := WorkOrderFrequencyOneTime\<rparr>, [])"
proof -
  have "wo_OrderType table_order \<noteq> OrderTypeByName"
    by (simp add: table_order_def const_defs)
  moreover have "ser_work_order table_order = Inr [2, 0, 10, 0, 0, 1, 0, 0]"
    by (simp add: ser_work_order_def table_order_def zero_WorkOrderDesignation_def const_defs
        put_str16_max_def put_str16_def put_u8_byte put_u16_bytes)
  ultimately show ?thesis
    using work_order_legacy_payload [of table_order "[2, 0, 10, 0, 0, 1, 0, 0]"]
    by (simp add: table_order_def zero_WorkOrderDesignation_def)
qed

end
