(* ===== verification/Message_Codec.thy ===== *)
theory Message_Codec
  imports Messages Command_Codec
begin

text \<open>
  The message codec (\<open>internal/protocol/codec.go\<close>): the payload writer and reader of every message,
  \<open>SerializeMessage\<close> and \<open>DeserializeMessage\<close> with the six-byte header (length, version, type), and
  the typed \<open>Deserialize\<close> methods. \<open>message_shown\<close> is what the wire carries of a message, and
  \<open>message_fits\<close> the sizes the length fields can hold where the writer does not check them.
\<close>

section \<open>Handshake\<close>

definition serializeHandshake :: "HandshakeMessage \<Rightarrow> bytes" where
  "serializeHandshake m =
     put_u8 (hs_ProtocolVersion m) @ put_u32 (hs_ConnectionID m) @ put_str16 (hs_Capabilities m)"

definition deserializeHandshake :: "bytes \<Rightarrow> go_error + HandshakeMessage" where
  "deserializeHandshake data =
     (if length data < 7 then Inl PayloadTooShort
      else run_reader
        (pbind get_u8 (\<lambda>version.
         pbind get_u32 (\<lambda>connectionID.
         pbind get_str16 (\<lambda>capabilities.
         preturn \<lparr>hs_ProtocolVersion = version, hs_ConnectionID = connectionID,
           hs_Capabilities = capabilities\<rparr>)))) data)"

section \<open>Tiles\<close>

definition serializeTileState :: "TileState \<Rightarrow> bytes" where
  "serializeTileState t =
     put_i16 (ts_X t) @ put_i16 (ts_Y t) @ put_i16 (ts_Z t) @ put_u16 (ts_TileType t) @
     put_u8 (ts_Flags t)"

definition deserializeTileState :: "TileState reader" where
  "deserializeTileState =
     pbind get_i16 (\<lambda>x.
     pbind get_i16 (\<lambda>y.
     pbind get_i16 (\<lambda>z.
     pbind get_u16 (\<lambda>tileType.
     pbind get_u8 (\<lambda>flags.
     preturn \<lparr>ts_X = x, ts_Y = y, ts_Z = z, ts_TileType = tileType, ts_Flags = flags\<rparr>)))))"

definition serializeFullState :: "FullStateMessage \<Rightarrow> bytes" where
  "serializeFullState m =
     put_u16 (fs_Width m) @ put_u16 (fs_Height m) @ put_u16 (fs_Depth m) @
     put_list serializeTileState (fs_Tiles m)"

definition deserializeFullState :: "bytes \<Rightarrow> go_error + FullStateMessage" where
  "deserializeFullState data =
     (if length data < 6 then Inl PayloadTooShort
      else run_reader
        (pbind get_u16 (\<lambda>width.
         pbind get_u16 (\<lambda>height.
         pbind get_u16 (\<lambda>depth.
         pbind (get_list (unat width * unat height * unat depth) deserializeTileState) (\<lambda>tiles.
         preturn \<lparr>fs_Width = width, fs_Height = height, fs_Depth = depth, fs_Tiles = tiles,
           fs_IsSoilLayer = []\<rparr>))))) data)"

definition serializeTileUpdate :: "TileUpdateMessage \<Rightarrow> bytes" where
  "serializeTileUpdate m = put_u32 (tu_Count m) @ put_list serializeTileState (tu_Tiles m)"

definition deserializeTileUpdate :: "bytes \<Rightarrow> go_error + TileUpdateMessage" where
  "deserializeTileUpdate data =
     (if length data < 4 then Inl PayloadTooShort
      else run_reader
        (pbind get_u32 (\<lambda>count.
         pbind (get_list (unat count) deserializeTileState) (\<lambda>tiles.
         preturn \<lparr>tu_Count = count, tu_Tiles = tiles\<rparr>))) data)"

section \<open>Resync request, heartbeat, disconnect\<close>

definition serializeResyncRequest :: "ResyncRequestMessage \<Rightarrow> bytes" where
  "serializeResyncRequest m = put_u8 (rr_Reason m)"

definition deserializeResyncRequest :: "bytes \<Rightarrow> go_error + ResyncRequestMessage" where
  "deserializeResyncRequest data =
     (if length data < 1 then Inl PayloadTooShort else Inr \<lparr>rr_Reason = data ! 0\<rparr>)"

definition serializeHeartbeat :: "HeartbeatMessage \<Rightarrow> bytes" where
  "serializeHeartbeat m = put_u64 (hb_Timestamp m) @ put_u8 (hb_Sequence m)"

definition deserializeHeartbeat :: "bytes \<Rightarrow> go_error + HeartbeatMessage" where
  "deserializeHeartbeat payload =
     (if length payload < 9 then Inl PayloadTooShort
      else Inr \<lparr>hb_Timestamp = get_be (take 8 payload), hb_Sequence = payload ! 8\<rparr>)"

definition serializeDisconnect :: "DisconnectMessage \<Rightarrow> bytes" where
  "serializeDisconnect m = put_u8 (dc_Reason m)"

definition deserializeDisconnect :: "bytes \<Rightarrow> go_error + DisconnectMessage" where
  "deserializeDisconnect payload =
     (if length payload < 1 then Inl PayloadTooShort else Inr \<lparr>dc_Reason = payload ! 0\<rparr>)"

section \<open>Error\<close>

definition serializeError :: "ErrorMessage \<Rightarrow> bytes" where
  "serializeError m = put_u16 (em_Code m) @ put_str16 (em_Message m)"

text \<open>
  The length check adds in \<open>int\<close>; the slice bound \<open>4+msgLen\<close> is a \<open>uint16\<close> sum, which wraps.
\<close>

definition deserializeError :: "bytes \<Rightarrow> go_error + ErrorMessage" where
  "deserializeError payload =
     (if length payload < 4 then Inl PayloadTooShort
      else let code = get_be (take 2 payload);
               msgLen = (get_be (take 2 (drop 2 payload)) :: u16)
       in if length payload < 4 + unat msgLen then Inl PayloadTruncated
       else bindr (go_slice payload 4 (unat (4 + msgLen))) (\<lambda>text.
         Inr \<lparr>em_Code = code, em_Message = text\<rparr>))"

section \<open>Entity update\<close>

definition serializeEntityInfo :: "EntityInfo \<Rightarrow> bytes" where
  "serializeEntityInfo e =
     put_u32 (ei_ID e) @ put_i16 (ei_X e) @ put_i16 (ei_Y e) @ put_i16 (ei_Z e) @
     put_u8 (ei_Type e) @ put_u16 (ei_Subtype e)"

definition deserializeEntityInfo :: "EntityInfo reader" where
  "deserializeEntityInfo =
     pbind get_u32 (\<lambda>i.
     pbind get_i16 (\<lambda>x.
     pbind get_i16 (\<lambda>y.
     pbind get_i16 (\<lambda>z.
     pbind get_u8 (\<lambda>ty.
     pbind get_u16 (\<lambda>subtype.
     preturn \<lparr>ei_ID = i, ei_X = x, ei_Y = y, ei_Z = z, ei_Type = ty, ei_Subtype = subtype,
       ei_Dead = False\<rparr>))))))"

definition ser_fort_info :: "FortInfo \<Rightarrow> bytes" where
  "ser_fort_info f =
     put_u32 (fi_DaysElapsed f) @ put_u64 (fi_CreatedWealth f) @ put_u8 (fi_Season f) @
     put_u32 (fi_Year f)"

definition des_fort_info :: "FortInfo reader" where
  "des_fort_info =
     pbind get_u32 (\<lambda>days.
     pbind get_u64 (\<lambda>wealth.
     pbind get_u8 (\<lambda>season.
     pbind get_u32 (\<lambda>year.
     preturn \<lparr>fi_DaysElapsed = days, fi_CreatedWealth = wealth, fi_Season = season,
       fi_Year = year\<rparr>))))"

text \<open>A zone record carries one z-level; the reader copies it to both corners.\<close>

definition ser_zone_data :: "ZoneData \<Rightarrow> bytes" where
  "ser_zone_data z =
     put_u32 (zn_ZoneID z) @ put_u8 (zn_ZoneType z) @ put_i16 (zn_X1 z) @ put_i16 (zn_Y1 z) @
     put_i16 (zn_X2 z) @ put_i16 (zn_Y2 z) @ put_i16 (zn_Z1 z) @ put_i32 (zn_OwnerUnitID z) @
     put_u16 (of_nat (length (zn_AssignedUnits z))) @ put_list put_i32 (zn_AssignedUnits z)"

definition des_zone_data :: "ZoneData reader" where
  "des_zone_data =
     pbind get_u32 (\<lambda>i.
     pbind get_u8 (\<lambda>ty.
     pbind get_i16 (\<lambda>x1.
     pbind get_i16 (\<lambda>y1.
     pbind get_i16 (\<lambda>x2.
     pbind get_i16 (\<lambda>y2.
     pbind get_i16 (\<lambda>zLevel.
     pbind get_i32 (\<lambda>owner.
     pbind get_u16 (\<lambda>assignedCount.
     pbind (get_list (unat assignedCount) get_i32) (\<lambda>units.
     preturn \<lparr>zn_ZoneID = i, zn_ZoneType = ty, zn_X1 = x1, zn_Y1 = y1, zn_Z1 = zLevel,
       zn_X2 = x2, zn_Y2 = y2, zn_Z2 = zLevel, zn_OwnerUnitID = owner,
       zn_AssignedUnits = units\<rparr>))))))))))"

definition ser_world :: "WorldIdentity \<Rightarrow> bytes" where
  "ser_world w =
     put_str16 (take 65535 (wi_SaveDir w)) @ put_u32 (wi_ID1 w) @ put_u32 (wi_ID2 w)"

definition des_world :: "WorldIdentity reader" where
  "des_world =
     pbind get_str16 (\<lambda>dir.
     pbind get_u32 (\<lambda>id1.
     pbind get_u32 (\<lambda>id2.
     preturn \<lparr>wi_SaveDir = dir, wi_ID1 = id1, wi_ID2 = id2\<rparr>)))"

text \<open>An optional block: the presence byte, then the block when there is one.\<close>

definition put_option :: "('a \<Rightarrow> bytes) \<Rightarrow> 'a option \<Rightarrow> bytes" where
  "put_option p x = (case x of None \<Rightarrow> put_u8 0 | Some a \<Rightarrow> put_u8 1 @ p a)"

text \<open>A counted block with a 32-bit count, always present.\<close>

definition put_counted :: "('a \<Rightarrow> bytes) \<Rightarrow> 'a list \<Rightarrow> bytes" where
  "put_counted p xs = put_u8 1 @ put_u32 (of_nat (length xs)) @ put_list p xs"

definition get_counted :: "'a reader \<Rightarrow> 'a list reader" where
  "get_counted p = pbind get_u32 (\<lambda>n. get_list (unat n) p)"

definition dead_ids :: "EntityInfo list \<Rightarrow> u32 list" where
  "dead_ids es = map ei_ID (filter ei_Dead es)"

text \<open>
  The dead units travel as a list of ids; the reader marks every entity whose id is in it.
\<close>

definition mark_dead :: "u32 list \<Rightarrow> EntityInfo list \<Rightarrow> EntityInfo list" where
  "mark_dead ids es = map (\<lambda>e. if ei_ID e \<in> set ids then e\<lparr>ei_Dead := True\<rparr> else e) es"

definition serializeEntityUpdate :: "EntityUpdateMessage \<Rightarrow> bytes" where
  "serializeEntityUpdate m =
     put_u32 (eu_Count m) @
     put_list serializeEntityInfo (eu_Entities m) @
     put_option ser_fort_info (eu_FortInfo m) @
     put_counted ser_zone_data (eu_Zones m) @
     put_counted put_u32 (dead_ids (eu_Entities m)) @
     put_option ser_world (eu_World m)"

definition deserializeEntityUpdate :: "bytes \<Rightarrow> go_error + EntityUpdateMessage" where
  "deserializeEntityUpdate data =
     (if length data < 4 then Inl PayloadTooShort
      else run_reader
        (pbind get_u32 (\<lambda>count.
         pbind (get_list (unat count) deserializeEntityInfo) (\<lambda>entities.
         pbind (get_block des_fort_info) (\<lambda>fortInfo.
         pbind (get_block (get_counted des_zone_data)) (\<lambda>zones.
         pbind (get_block (get_counted get_u32)) (\<lambda>dead.
         pbind (get_block des_world) (\<lambda>world.
         preturn \<lparr>eu_Count = count,
           eu_Entities = (case dead of None \<Rightarrow> entities | Some ids \<Rightarrow> mark_dead ids entities),
           eu_FortInfo = fortInfo,
           eu_Zones = (case zones of None \<Rightarrow> [] | Some zs \<Rightarrow> zs),
           eu_World = world\<rparr>))))))) data)"

section \<open>Command acknowledgement, query, query response\<close>

definition serializeCommandAck :: "CommandAckMessage \<Rightarrow> go_error + bytes" where
  "serializeCommandAck m =
     bindr (put_str16_max 65535 (ca_ErrorMsg m)) (\<lambda>errorBytes.
     Inr (put_u32 (ca_CommandID m) @ put_u8 (ca_Status m) @ errorBytes))"

definition deserializeCommandAck :: "bytes \<Rightarrow> go_error + CommandAckMessage" where
  "deserializeCommandAck data =
     (if length data < 7 then Inl PayloadTooShort
      else run_reader
        (pbind get_u32 (\<lambda>commandID.
         pbind get_u8 (\<lambda>status.
         pbind get_str16 (\<lambda>errorMsg.
         preturn \<lparr>ca_CommandID = commandID, ca_Status = status, ca_ErrorMsg = errorMsg\<rparr>)))) data)"

definition serializeQuery :: "QueryMessage \<Rightarrow> bytes" where
  "serializeQuery m = put_u32 (qm_QueryID m) @ put_str16 (qm_Name m) @ put_str16 (qm_Args m)"

definition deserializeQuery :: "bytes \<Rightarrow> go_error + QueryMessage" where
  "deserializeQuery data =
     (if length data < 8 then Inl PayloadTooShort
      else run_reader
        (pbind get_u32 (\<lambda>queryID.
         pbind get_str16 (\<lambda>name.
         pbind get_str16 (\<lambda>args.
         preturn \<lparr>qm_QueryID = queryID, qm_Name = name, qm_Args = args\<rparr>)))) data)"

definition serializeQueryResponse :: "QueryResponseMessage \<Rightarrow> bytes" where
  "serializeQueryResponse m =
     put_u32 (qr_QueryID m) @ put_u8 (qr_Status m) @ put_u32 (of_nat (length (qr_Data m))) @
     qr_Data m"

definition deserializeQueryResponse :: "bytes \<Rightarrow> go_error + QueryResponseMessage" where
  "deserializeQueryResponse data =
     (if length data < 9 then Inl PayloadTooShort
      else run_reader
        (pbind get_u32 (\<lambda>queryID.
         pbind get_u8 (\<lambda>status.
         pbind get_u32 (\<lambda>dataLen.
         pbind (read_full (unat dataLen)) (\<lambda>d.
         preturn \<lparr>qr_QueryID = queryID, qr_Status = status, qr_Data = d\<rparr>))))) data)"

section \<open>Announcements\<close>

definition ser_announcement :: "AnnouncementInfo \<Rightarrow> bytes" where
  "ser_announcement a =
     put_u32 (an_ID a) @ put_u16 (an_TypeID a) @ put_u8 (an_Severity a) @ put_i16 (an_X a) @
     put_i16 (an_Y a) @ put_i16 (an_Z a) @ put_u32 (an_GameYear a) @ put_u32 (an_GameTick a) @
     put_str16 (an_Text a)"

definition des_announcement :: "AnnouncementInfo reader" where
  "des_announcement =
     pbind get_u32 (\<lambda>i.
     pbind get_u16 (\<lambda>typeID.
     pbind get_u8 (\<lambda>severity.
     pbind get_i16 (\<lambda>x.
     pbind get_i16 (\<lambda>y.
     pbind get_i16 (\<lambda>z.
     pbind get_u32 (\<lambda>year.
     pbind get_u32 (\<lambda>tick.
     pbind get_str16 (\<lambda>text.
     preturn \<lparr>an_ID = i, an_TypeID = typeID, an_Severity = severity, an_X = x, an_Y = y, an_Z = z,
       an_GameYear = year, an_GameTick = tick, an_Text = text, an_RepeatCount = 0\<rparr>)))))))))"

definition serializeAnnouncementUpdate :: "AnnouncementUpdateMessage \<Rightarrow> bytes" where
  "serializeAnnouncementUpdate m =
     put_u32 (au_Count m) @
     put_list ser_announcement (au_Announcements m) @
     put_list (\<lambda>a. put_u32 (an_RepeatCount a)) (au_Announcements m)"

text \<open>
  The repeat counts come in a block after the entries, read only when exactly that many bytes are
  left; any other tail leaves them at zero.
\<close>

definition deserializeAnnouncementUpdate :: "bytes \<Rightarrow> go_error + AnnouncementUpdateMessage" where
  "deserializeAnnouncementUpdate data =
     (if length data < 4 then Inl PayloadTooShort
      else run_reader
        (pbind get_u32 (\<lambda>count.
         pbind (get_list (unat count) des_announcement) (\<lambda>entries rest.
         let expected = unat count * 4 in
         if 0 < expected \<and> length rest = expected
         then pbind (get_list (unat count) get_u32) (\<lambda>counts.
                preturn \<lparr>au_Count = count, au_Announcements =
                  map2 (\<lambda>a c. a\<lparr>an_RepeatCount := c\<rparr>) entries counts\<rparr>) rest
         else Inr (\<lparr>au_Count = count, au_Announcements = entries\<rparr>, rest)))) data)"

section \<open>SerializeMessage and DeserializeMessage\<close>

fun ser_message_payload :: "Message \<Rightarrow> go_error + bytes" where
  "ser_message_payload (Handshake m) = Inr (serializeHandshake m)"
| "ser_message_payload (FullState m) = Inr (serializeFullState m)"
| "ser_message_payload (ResyncRequest m) = Inr (serializeResyncRequest m)"
| "ser_message_payload (TileUpdate m) = Inr (serializeTileUpdate m)"
| "ser_message_payload (Heartbeat m) = Inr (serializeHeartbeat m)"
| "ser_message_payload (Disconnect m) = Inr (serializeDisconnect m)"
| "ser_message_payload (Error m) = Inr (serializeError m)"
| "ser_message_payload (EntityUpdate m) = Inr (serializeEntityUpdate m)"
| "ser_message_payload (Command m) = serializeCommand m"
| "ser_message_payload (CommandAck m) = serializeCommandAck m"
| "ser_message_payload (Query m) = Inr (serializeQuery m)"
| "ser_message_payload (QueryResponse m) = Inr (serializeQueryResponse m)"
| "ser_message_payload (AnnouncementUpdate m) = Inr (serializeAnnouncementUpdate m)"

definition validated :: "Message \<Rightarrow> go_error + unit" where
  "validated msg = (case validate_message msg of Inl e \<Rightarrow> Inl (ValidationFailed e) | Inr u \<Rightarrow> Inr u)"

text \<open>The length field is reserved as zero and filled in over the finished buffer.\<close>

definition SerializeMessage :: "Message \<Rightarrow> go_error + bytes" where
  "SerializeMessage msg =
     bindr (validated msg) (\<lambda>_.
     bindr (ser_message_payload msg) (\<lambda>payload.
     let data = put_u32 0 @ put_u8 ProtocolVersion @ put_u8 (message_type msg) @ payload
     in Inr (put_u32 (of_nat (length data)) @ drop 4 data)))"

definition des_message_payload :: "u8 \<Rightarrow> bytes \<Rightarrow> go_error + Message" where
  "des_message_payload msgType payload =
     (if msgType = MessageTypeHandshake then map_sum id Handshake (deserializeHandshake payload)
      else if msgType = MessageTypeFullState then map_sum id FullState (deserializeFullState payload)
      else if msgType = MessageTypeResyncRequest
        then map_sum id ResyncRequest (deserializeResyncRequest payload)
      else if msgType = MessageTypeTileUpdate
        then map_sum id TileUpdate (deserializeTileUpdate payload)
      else if msgType = MessageTypeHeartbeat then map_sum id Heartbeat (deserializeHeartbeat payload)
      else if msgType = MessageTypeDisconnect
        then map_sum id Disconnect (deserializeDisconnect payload)
      else if msgType = MessageTypeError then map_sum id Error (deserializeError payload)
      else if msgType = MessageTypeEntityUpdate
        then map_sum id EntityUpdate (deserializeEntityUpdate payload)
      else if msgType = MessageTypeCommand then map_sum id Command (deserializeCommand payload)
      else if msgType = MessageTypeCommandAck
        then map_sum id CommandAck (deserializeCommandAck payload)
      else if msgType = MessageTypeQuery then map_sum id Query (deserializeQuery payload)
      else if msgType = MessageTypeQueryResponse
        then map_sum id QueryResponse (deserializeQueryResponse payload)
      else if msgType = MessageTypeAnnouncementUpdate
        then map_sum id AnnouncementUpdate (deserializeAnnouncementUpdate payload)
      else Inl (InvalidMessageType msgType))"

definition DeserializeMessage :: "bytes \<Rightarrow> go_error + Message" where
  "DeserializeMessage data =
     (if length data < 6 then Inl InvalidMessageLength
      else let len = (get_be (take 4 data) :: u32); version = data ! 4; msgType = data ! 5 in
       if of_nat (length data) \<noteq> len then Inl InvalidMessageLength
       else if version \<noteq> ProtocolVersion then Inl (VersionMismatch version)
       else bindr (des_message_payload msgType (drop 6 data)) (\<lambda>msg.
            bindr (validated msg) (\<lambda>_. Inr msg)))"

text \<open>
  The methods \<open>Serialize\<close> and \<open>Deserialize\<close> of the message structs: \<open>Deserialize\<close> decodes any message
  and refuses one of another type.
\<close>

definition Deserialize_as :: "(Message \<Rightarrow> 'a option) \<Rightarrow> bytes \<Rightarrow> go_error + 'a" where
  "Deserialize_as sel data =
     bindr (DeserializeMessage data) (\<lambda>msg.
       case sel msg of None \<Rightarrow> Inl WrongMessage | Some m \<Rightarrow> Inr m)"

definition EncodeCommand :: "CommandMessage \<Rightarrow> go_error + bytes" where
  "EncodeCommand msg = SerializeMessage (Command msg)"

definition Deserialize_Handshake :: "bytes \<Rightarrow> go_error + HandshakeMessage" where
  "Deserialize_Handshake = Deserialize_as (\<lambda>msg. case msg of Handshake m \<Rightarrow> Some m | _ \<Rightarrow> None)"
definition Deserialize_FullState :: "bytes \<Rightarrow> go_error + FullStateMessage" where
  "Deserialize_FullState = Deserialize_as (\<lambda>msg. case msg of FullState m \<Rightarrow> Some m | _ \<Rightarrow> None)"
definition Deserialize_ResyncRequest :: "bytes \<Rightarrow> go_error + ResyncRequestMessage" where
  "Deserialize_ResyncRequest =
     Deserialize_as (\<lambda>msg. case msg of ResyncRequest m \<Rightarrow> Some m | _ \<Rightarrow> None)"
definition Deserialize_TileUpdate :: "bytes \<Rightarrow> go_error + TileUpdateMessage" where
  "Deserialize_TileUpdate = Deserialize_as (\<lambda>msg. case msg of TileUpdate m \<Rightarrow> Some m | _ \<Rightarrow> None)"
definition Deserialize_Heartbeat :: "bytes \<Rightarrow> go_error + HeartbeatMessage" where
  "Deserialize_Heartbeat = Deserialize_as (\<lambda>msg. case msg of Heartbeat m \<Rightarrow> Some m | _ \<Rightarrow> None)"
definition Deserialize_Disconnect :: "bytes \<Rightarrow> go_error + DisconnectMessage" where
  "Deserialize_Disconnect = Deserialize_as (\<lambda>msg. case msg of Disconnect m \<Rightarrow> Some m | _ \<Rightarrow> None)"
definition Deserialize_Error :: "bytes \<Rightarrow> go_error + ErrorMessage" where
  "Deserialize_Error = Deserialize_as (\<lambda>msg. case msg of Error m \<Rightarrow> Some m | _ \<Rightarrow> None)"
definition Deserialize_EntityUpdate :: "bytes \<Rightarrow> go_error + EntityUpdateMessage" where
  "Deserialize_EntityUpdate =
     Deserialize_as (\<lambda>msg. case msg of EntityUpdate m \<Rightarrow> Some m | _ \<Rightarrow> None)"
definition DecodeCommand :: "bytes \<Rightarrow> go_error + CommandMessage" where
  "DecodeCommand = Deserialize_as (\<lambda>msg. case msg of Command m \<Rightarrow> Some m | _ \<Rightarrow> None)"
definition Deserialize_CommandAck :: "bytes \<Rightarrow> go_error + CommandAckMessage" where
  "Deserialize_CommandAck = Deserialize_as (\<lambda>msg. case msg of CommandAck m \<Rightarrow> Some m | _ \<Rightarrow> None)"
definition Deserialize_Query :: "bytes \<Rightarrow> go_error + QueryMessage" where
  "Deserialize_Query = Deserialize_as (\<lambda>msg. case msg of Query m \<Rightarrow> Some m | _ \<Rightarrow> None)"
definition Deserialize_AnnouncementUpdate :: "bytes \<Rightarrow> go_error + AnnouncementUpdateMessage" where
  "Deserialize_AnnouncementUpdate =
     Deserialize_as (\<lambda>msg. case msg of AnnouncementUpdate m \<Rightarrow> Some m | _ \<Rightarrow> None)"
definition Deserialize_QueryResponse :: "bytes \<Rightarrow> go_error + QueryResponseMessage" where
  "Deserialize_QueryResponse =
     Deserialize_as (\<lambda>msg. case msg of QueryResponse m \<Rightarrow> Some m | _ \<Rightarrow> None)"

section \<open>What the wire carries\<close>

definition zone_shown :: "ZoneData \<Rightarrow> ZoneData" where
  "zone_shown z = z\<lparr>zn_Z2 := zn_Z1 z\<rparr>"

definition world_shown :: "WorldIdentity \<Rightarrow> WorldIdentity" where
  "world_shown w = w\<lparr>wi_SaveDir := take 65535 (wi_SaveDir w)\<rparr>"

text \<open>The dead mark is carried per id: an entity sharing a dead one's id arrives dead.\<close>

definition entity_update_shown :: "EntityUpdateMessage \<Rightarrow> EntityUpdateMessage" where
  "entity_update_shown m = m\<lparr>
     eu_Entities := map (\<lambda>e. e\<lparr>ei_Dead := ei_ID e \<in> set (dead_ids (eu_Entities m))\<rparr>) (eu_Entities m),
     eu_Zones := map zone_shown (eu_Zones m),
     eu_World := map_option world_shown (eu_World m)\<rparr>"

fun message_shown :: "Message \<Rightarrow> Message" where
  "message_shown (FullState m) = FullState (m\<lparr>fs_IsSoilLayer := []\<rparr>)"
| "message_shown (EntityUpdate m) = EntityUpdate (entity_update_shown m)"
| "message_shown (Command m) = Command (command_shown m)"
| "message_shown m = m"

text \<open>
  The sizes a length field can hold, where neither the writer nor \<open>Validate\<close> checks them. The limit
  on an error text is four below the field's, for the wrapping bound of \<open>deserializeError\<close>.
\<close>

fun message_fits :: "Message \<Rightarrow> bool" where
  "message_fits (Handshake m) = (length (hs_Capabilities m) \<le> 65535)"
| "message_fits (TileUpdate m) = (length (tu_Tiles m) < 2 ^ 32)"
| "message_fits (Error m) = (length (em_Message m) \<le> 65531)"
| "message_fits (EntityUpdate m) = (length (eu_Entities m) < 2 ^ 32 \<and> length (eu_Zones m) < 2 ^ 32 \<and>
     list_all (\<lambda>z. length (zn_AssignedUnits z) \<le> 65535) (eu_Zones m))"
| "message_fits (Command m) = command_fits m"
| "message_fits (QueryResponse m) = (length (qr_Data m) < 2 ^ 32)"
| "message_fits (AnnouncementUpdate m) = (length (au_Announcements m) < 2 ^ 32)"
| "message_fits m = True"

lemma unat_of_nat_count: "n < 2 ^ 32 \<Longrightarrow> unat (of_nat n :: u32) = n"
  by (simp add: unat_of_nat take_bit_nat_eq_self)

interpretation tile_wire: fixed_wire_codec serializeTileState deserializeTileState "\<lambda>_. True" id 9
  by unfold_locales (simp_all add: serializeTileState_def deserializeTileState_def pbind_def wire_rt)

interpretation entity_wire: fixed_wire_codec serializeEntityInfo deserializeEntityInfo "\<lambda>_. True"
  "\<lambda>e. e\<lparr>ei_Dead := False\<rparr>" 13
  by unfold_locales
    (simp_all add: serializeEntityInfo_def deserializeEntityInfo_def pbind_def wire_rt)

interpretation fort_wire: fixed_wire_codec ser_fort_info des_fort_info "\<lambda>_. True" id 17
  by unfold_locales (simp_all add: ser_fort_info_def des_fort_info_def pbind_def wire_rt)

interpretation zone_wire: wire_codec ser_zone_data des_zone_data
  "\<lambda>z. length (zn_AssignedUnits z) \<le> 65535" zone_shown
  by unfold_locales
    (simp add: ser_zone_data_def des_zone_data_def zone_shown_def pbind_def wire_rt
      unat_of_nat_fits u32_wire.get_list_put_list [simplified])

interpretation world_wire: wire_codec ser_world des_world "\<lambda>_. True" world_shown
  by unfold_locales (simp add: ser_world_def des_world_def world_shown_def pbind_def wire_rt)

interpretation announcement_wire: wire_codec ser_announcement des_announcement
  "\<lambda>a. length (an_Text a) \<le> 65535" "\<lambda>a. a\<lparr>an_RepeatCount := 0\<rparr>"
  by unfold_locales (simp add: ser_announcement_def des_announcement_def pbind_def wire_rt)

text \<open>The optional and the counted blocks of a message, for any element codec.\<close>

context wire_codec
begin

lemma get_block_option:
  "(\<And>a. x = Some a \<Longrightarrow> ok a) \<Longrightarrow>
     get_block get (put_option put x @ rest) = Inr (map_option shown x, rest)"
  by (cases x) (simp_all add: get_block_def put_option_def wire_rt pbind_def get_put)

lemma get_block_counted:
  "\<forall>x\<in>set xs. ok x \<Longrightarrow> length xs < 2 ^ 32 \<Longrightarrow>
     get_block (get_counted get) (put_counted put xs @ rest) = Inr (Some (map shown xs), rest)"
  by (simp add: get_block_def put_counted_def get_counted_def wire_rt pbind_def
      unat_of_nat_count get_list_put_list)

end

section \<open>Payload round trips\<close>

lemma handshake_payload:
  "length (hs_Capabilities m) \<le> 65535 \<Longrightarrow> deserializeHandshake (serializeHandshake m) = Inr m"
  by (simp add: deserializeHandshake_def serializeHandshake_def run_reader_def pbind_def wire_rt)

lemma full_state_payload:
  assumes "validate_full_state m = Inr ()"
  shows "deserializeFullState (serializeFullState m) = Inr (m\<lparr>fs_IsSoilLayer := []\<rparr>)"
proof -
  have n: "unat (fs_Width m) * unat (fs_Height m) * unat (fs_Depth m) = length (fs_Tiles m)"
    using assms by (simp add: validate_full_state_def bindr_eq_Inr)
  show ?thesis
    using tile_wire.get_list_put_list [of "fs_Tiles m" "[]"]
    by (simp add: deserializeFullState_def serializeFullState_def run_reader_def pbind_def wire_rt n)
qed

lemma tile_update_payload:
  assumes "validate_tile_update m = Inr ()" and "length (tu_Tiles m) < 2 ^ 32"
  shows "deserializeTileUpdate (serializeTileUpdate m) = Inr m"
proof -
  have n: "unat (tu_Count m) = length (tu_Tiles m)"
    using assms unat_of_nat_count [of "length (tu_Tiles m)"]
    by (auto simp: validate_tile_update_def bindr_eq_Inr)
  show ?thesis
    using tile_wire.get_list_put_list [of "tu_Tiles m" "[]"]
    by (simp add: deserializeTileUpdate_def serializeTileUpdate_def run_reader_def pbind_def wire_rt n)
qed

lemma fixed_payloads:
  "deserializeResyncRequest (serializeResyncRequest r) = Inr r"
  "deserializeDisconnect (serializeDisconnect d) = Inr d"
  by (simp_all add: deserializeResyncRequest_def serializeResyncRequest_def
      deserializeDisconnect_def serializeDisconnect_def put_u8_byte)

lemma heartbeat_payload: "deserializeHeartbeat (serializeHeartbeat h) = Inr h"
proof -
  have "get_be (put_u64 (hb_Timestamp h)) = hb_Timestamp h"
    by (simp add: put_u64_def get_put_be del: put_be.simps)
  then show ?thesis
    by (simp add: deserializeHeartbeat_def serializeHeartbeat_def put_u8_byte nth_append)
qed

lemma error_payload:
  assumes "length (em_Message m) \<le> 65531"
  shows "deserializeError (serializeError m) = Inr m"
proof -
  let ?n = "of_nat (length (em_Message m)) :: u16"
  have be: "get_be (put_u16 v) = v" for v
    by (simp add: put_u16_def get_put_be del: put_be.simps)
  have n: "unat ?n = length (em_Message m)"
    using assms by (simp add: unat_of_nat_fits)
  have hi: "unat (4 + ?n) = 4 + length (em_Message m)"
    using assms n by (simp add: unat_word_ariths)
  show ?thesis
    by (simp add: deserializeError_def serializeError_def put_str16_def be n hi go_slice_def
        bindr_def)
qed

lemma command_ack_payload:
  "serializeCommandAck m = Inr bs \<Longrightarrow> deserializeCommandAck bs = Inr m"
  by (auto simp: serializeCommandAck_def bindr_eq_Inr put_str16_max_eq_Inr
      deserializeCommandAck_def run_reader_def pbind_def wire_rt)

lemma query_payload:
  "validate_query m = Inr () \<Longrightarrow> deserializeQuery (serializeQuery m) = Inr m"
  by (simp add: validate_query_def bindr_eq_Inr deserializeQuery_def serializeQuery_def
      run_reader_def pbind_def wire_rt)

lemma query_response_payload:
  "length (qr_Data m) < 2 ^ 32 \<Longrightarrow> deserializeQueryResponse (serializeQueryResponse m) = Inr m"
  using read_full_append [of "qr_Data m" _ "[]"]
  by (simp add: deserializeQueryResponse_def serializeQueryResponse_def run_reader_def pbind_def
      wire_rt unat_of_nat_count)

lemma mark_dead_eq:
  "mark_dead ids (map (\<lambda>e. e\<lparr>ei_Dead := False\<rparr>) es) = map (\<lambda>e. e\<lparr>ei_Dead := ei_ID e \<in> set ids\<rparr>) es"
  by (simp add: mark_dead_def)

text \<open>The blocks an entity update is made of, in the order they were added to the protocol.\<close>

definition eu_blocks :: "EntityUpdateMessage \<Rightarrow> bytes list" where
  "eu_blocks m =
     [put_u32 (eu_Count m) @ put_list serializeEntityInfo (eu_Entities m),
      put_option ser_fort_info (eu_FortInfo m),
      put_counted ser_zone_data (eu_Zones m),
      put_counted put_u32 (dead_ids (eu_Entities m)),
      put_option ser_world (eu_World m)]"

text \<open>What a reader makes of the first \<open>k\<close> of them.\<close>

definition eu_upto :: "nat \<Rightarrow> EntityUpdateMessage \<Rightarrow> EntityUpdateMessage" where
  "eu_upto k m =
     (let seen = entity_update_shown m in \<lparr>eu_Count = eu_Count m,
       eu_Entities = (if 4 \<le> k then eu_Entities seen
                       else map (\<lambda>e. e\<lparr>ei_Dead := False\<rparr>) (eu_Entities m)),
       eu_FortInfo = (if 2 \<le> k then eu_FortInfo seen else None),
       eu_Zones = (if 3 \<le> k then eu_Zones seen else []),
       eu_World = (if 5 \<le> k then eu_World seen else None)\<rparr>)"
text \<open>The reader after the entities.\<close>

definition eu_rest :: "u32 \<Rightarrow> EntityInfo list \<Rightarrow> EntityUpdateMessage reader" where
  "eu_rest count entities = pbind (get_block des_fort_info) (\<lambda>fortInfo.
         pbind (get_block (get_counted des_zone_data)) (\<lambda>zones.
         pbind (get_block (get_counted get_u32)) (\<lambda>dead.
         pbind (get_block des_world) (\<lambda>world.
         preturn \<lparr>eu_Count = count,
           eu_Entities = (case dead of None \<Rightarrow> entities | Some ids \<Rightarrow> mark_dead ids entities),
           eu_FortInfo = fortInfo,
           eu_Zones = (case zones of None \<Rightarrow> [] | Some zs \<Rightarrow> zs),
           eu_World = world\<rparr>))))"

lemma eu_decode:
  assumes "validate_entity_update m = Inr ()" and "message_fits (EntityUpdate m)"
  shows "deserializeEntityUpdate
      (put_u32 (eu_Count m) @ put_list serializeEntityInfo (eu_Entities m) @ rest) =
    run_reader (eu_rest (eu_Count m) (map (\<lambda>e. e\<lparr>ei_Dead := False\<rparr>) (eu_Entities m))) rest"
proof -
  let ?es = "eu_Entities m"
  have n: "unat (eu_Count m) = length ?es"
    using assms unat_of_nat_count [of "length ?es"]
    by (auto simp: validate_entity_update_def)
  show ?thesis
    unfolding deserializeEntityUpdate_def run_reader_def eu_rest_def
    by (simp add: pbind_def wire_rt n entity_wire.get_list_put_list)
qed

lemma eu_rest_blocks:
  assumes "message_fits (EntityUpdate m)" and "1 \<le> k"
  shows "run_reader (eu_rest (eu_Count m) (map (\<lambda>e. e\<lparr>ei_Dead := False\<rparr>) (eu_Entities m)))
     (concat (take (k - 1) (tl (eu_blocks m)))) = Inr (eu_upto k m)"
proof -
  have zones: "\<forall>z\<in>set (eu_Zones m). length (zn_AssignedUnits z) \<le> 65535" "length (eu_Zones m) < 2 ^ 32"
    using assms by (simp_all add: list_all_iff)
  have dead: "length (dead_ids (eu_Entities m)) < 2 ^ 32"
    using assms(1) by (auto simp: dead_ids_def intro: le_less_trans [OF length_filter_le])
  have f: "get_block des_fort_info (put_option ser_fort_info (eu_FortInfo m) @ rest) =
      Inr (eu_FortInfo m, rest)" for rest
    using fort_wire.get_block_option by (simp add: option.map_id)
  have d: "get_block (get_counted get_u32) (put_counted put_u32 (dead_ids (eu_Entities m)) @ rest) =
      Inr (Some (dead_ids (eu_Entities m)), rest)" for rest
    using u32_wire.get_block_counted [OF _ dead] by simp
  have w: "get_block des_world (put_option ser_world (eu_World m)) =
      Inr (map_option world_shown (eu_World m), [])"
    using world_wire.get_block_option [of _ "[]"] by simp
  note blocks = f zone_wire.get_block_counted [OF zones] d w
  note ends = f [of "[]", simplified] zone_wire.get_block_counted [OF zones, of "[]", simplified]
     d [of "[]", simplified]
  from assms(2) consider "k = 1" | "k = 2" | "k = 3" | "k = 4" | "5 \<le> k" by linarith
  then show ?thesis
    unfolding run_reader_def eu_rest_def eu_blocks_def eu_upto_def
    by cases (simp_all add: pbind_def blocks ends mark_dead_eq entity_update_shown_def)
qed

lemma serializeEntityUpdate_blocks: "serializeEntityUpdate m = concat (eu_blocks m)"
  by (simp add: serializeEntityUpdate_def eu_blocks_def)

lemma eu_upto_all: "5 \<le> k \<Longrightarrow> eu_upto k m = entity_update_shown m"
  by (simp add: eu_upto_def entity_update_shown_def Let_def)

lemma entity_update_cut:
  assumes "validate_entity_update m = Inr ()" and "message_fits (EntityUpdate m)" and "1 \<le> k"
  shows "deserializeEntityUpdate (concat (take k (eu_blocks m))) = Inr (eu_upto k m)"
proof -
  have "concat (take k (eu_blocks m)) =
      put_u32 (eu_Count m) @ put_list serializeEntityInfo (eu_Entities m) @
      concat (take (k - 1) (tl (eu_blocks m)))"
    using assms(3) by (cases k) (simp_all add: eu_blocks_def)
  then show ?thesis
    using eu_decode [OF assms(1,2)] eu_rest_blocks [OF assms(2,3)] by simp
qed

lemma entity_update_payload:
  assumes "validate_entity_update m = Inr ()" and "message_fits (EntityUpdate m)"
  shows "deserializeEntityUpdate (serializeEntityUpdate m) = Inr (entity_update_shown m)"
  using entity_update_cut [OF assms, of 5]
  by (simp add: serializeEntityUpdate_blocks eu_upto_all) (simp add: eu_blocks_def)

lemma announcement_payload:
  assumes "validate_announcements m = Inr ()" and "length (au_Announcements m) < 2 ^ 32"
  shows "deserializeAnnouncementUpdate (serializeAnnouncementUpdate m) = Inr m"
proof -
  let ?as = "au_Announcements m"
  let ?tail = "put_list (\<lambda>a. put_u32 (an_RepeatCount a)) ?as"
  have n: "unat (au_Count m) = length ?as"
    using assms unat_of_nat_count [of "length ?as"]
    by (auto simp: validate_announcements_def bindr_eq_Inr)
  have ok: "\<forall>a\<in>set ?as. length (an_Text a) \<le> 65535"
    using assms by (auto simp: validate_announcements_def bindr_eq_Inr list_all_iff)
  have tail: "?tail = put_list put_u32 (map an_RepeatCount ?as)"
    by (simp add: put_list_def comp_def)
  have len: "length ?tail = length ?as * 4"
    by (simp add: tail u32_wire.length_put_list)
  have counts: "get_list (length ?as) get_u32 ?tail = Inr (map an_RepeatCount ?as, [])"
    using u32_wire.get_list_put_list [of "map an_RepeatCount ?as" "[]"] by (simp add: tail)
  have merge: "map2 (\<lambda>a c. a\<lparr>an_RepeatCount := c\<rparr>) (map (\<lambda>a. a\<lparr>an_RepeatCount := 0\<rparr>) as)
      (map an_RepeatCount as) = as" for as
    by (induction as) auto
  show ?thesis
    unfolding deserializeAnnouncementUpdate_def serializeAnnouncementUpdate_def run_reader_def
    by (cases "?as = []")
      (simp_all add: pbind_def wire_rt n announcement_wire.get_list_put_list [OF ok] len counts
        merge Let_def)
qed

section \<open>The frame of a message\<close>

lemma message_shown_valid:
  "validate_message msg = Inr () \<Longrightarrow> validate_message (message_shown msg) = Inr ()"
  by (cases msg)
    (simp_all add: validate_full_state_def validate_entity_update_def entity_update_shown_def
      command_shown_valid)

lemma message_shown_type [simp]: "message_type (message_shown msg) = message_type msg"
  by (cases msg) simp_all

lemma validated_eq [simp]: "validated msg = Inr () \<longleftrightarrow> validate_message msg = Inr ()"
  by (simp add: validated_def split: sum.splits)

lemma validated_ok [simp]: "validate_message msg = Inr () \<Longrightarrow> validated msg = Inr ()"
  by simp

lemma des_ser_message_payload:
  assumes "validate_message msg = Inr ()" and "message_fits msg" and "ser_message_payload msg = Inr p"
  shows "des_message_payload (message_type msg) p = Inr (message_shown msg)"
  using assms command_decode_encode [where rest = "[]"]
  by (cases msg)
    (auto simp: des_message_payload_def const_defs handshake_payload full_state_payload
      tile_update_payload fixed_payloads heartbeat_payload error_payload command_ack_payload
      query_payload query_response_payload entity_update_payload announcement_payload)

lemma SerializeMessage_Inr:
  assumes "SerializeMessage msg = Inr bs"
  obtains p where "ser_message_payload msg = Inr p" and "validate_message msg = Inr ()"
    and "bs = put_u32 (of_nat (6 + length p)) @ [ProtocolVersion, message_type msg] @ p"
proof -
  from assms obtain p where "validate_message msg = Inr ()" "ser_message_payload msg = Inr p"
    "bs = put_u32 (of_nat (6 + length p)) @ [ProtocolVersion, message_type msg] @ p"
    by (auto simp: SerializeMessage_def bindr_eq_Inr Let_def put_u8_byte)
  then show ?thesis by (intro that)
qed

lemma message_frame:
  assumes "SerializeMessage msg = Inr bs"
  shows "6 \<le> length bs" and "get_be (take 4 bs) = (of_nat (length bs) :: u32)"
    and "bs ! 4 = ProtocolVersion" and "bs ! 5 = message_type msg"
proof -
  from assms obtain p
    where bs: "bs = put_u32 (of_nat (6 + length p)) @ [ProtocolVersion, message_type msg] @ p"
    by (rule SerializeMessage_Inr)
  have "get_be (put_u32 v) = v" for v
    by (simp add: put_u32_def get_put_be del: put_be.simps)
  then show "get_be (take 4 bs) = (of_nat (length bs) :: u32)"
    by (simp add: bs)
  show "6 \<le> length bs" "bs ! 4 = ProtocolVersion" "bs ! 5 = message_type msg"
    by (simp_all add: bs nth_append)
qed

lemma message_decode_encode:
  assumes "SerializeMessage msg = Inr bs" and "message_fits msg"
  shows "DeserializeMessage bs = Inr (message_shown msg)"
proof -
  from assms(1) obtain p where p: "ser_message_payload msg = Inr p"
    and valid: "validate_message msg = Inr ()"
    and bs: "bs = put_u32 (of_nat (6 + length p)) @ [ProtocolVersion, message_type msg] @ p"
    by (rule SerializeMessage_Inr)
  have "drop 6 bs = p" by (simp add: bs)
  then show ?thesis
    using message_frame [OF assms(1)] des_ser_message_payload [OF valid assms(2) p]
      message_shown_valid [OF valid]
    by (simp add: DeserializeMessage_def Let_def)
qed


definition ack_example :: Message where
  "ack_example = CommandAck \<lparr>ca_CommandID = 7, ca_Status = AckStatusFailure, ca_ErrorMsg = [110, 111]\<rparr>"


text \<open>
  The length field guards the frame: with even one byte missing or one byte too many, the frame
  of a message is refused as an invalid length, never decoded as something else.
\<close>

theorem damaged_frame_rejected:
  assumes "SerializeMessage msg = Inr bs" and "length bs < 2 ^ 32"
  shows "(k < length bs \<longrightarrow> DeserializeMessage (take k bs) = Inl InvalidMessageLength) \<and>
         (extra \<noteq> [] \<and> length (bs @ extra) < 2 ^ 32 \<longrightarrow>
           DeserializeMessage (bs @ extra) = Inl InvalidMessageLength)"
proof -
  note frame = message_frame [OF assms(1)]
  have neq: "m < 2 ^ 32 \<Longrightarrow> n < 2 ^ 32 \<Longrightarrow> m \<noteq> n \<Longrightarrow> (of_nat m :: u32) \<noteq> of_nat n" for m n
    by (metis unat_of_nat_count)
  have "k < length bs \<Longrightarrow> DeserializeMessage (take k bs) = Inl InvalidMessageLength"
    using frame(2) neq [of k "length bs"] assms(2)
    by (auto simp: DeserializeMessage_def Let_def min_def not_less)
  moreover have "extra \<noteq> [] \<Longrightarrow> length (bs @ extra) < 2 ^ 32 \<Longrightarrow>
      DeserializeMessage (bs @ extra) = Inl InvalidMessageLength"
    using frame(1,2) neq [of "length (bs @ extra)" "length bs"] assms(2)
    by (auto simp: DeserializeMessage_def Let_def)
  ultimately show ?thesis by blast
qed

theorem damaged_frame_rejected_witness:
  "DeserializeMessage [0, 0, 0, 7, 1, 7] = Inl InvalidMessageLength \<and>
   DeserializeMessage [0, 0, 0, 7, 1, 7, 0, 0] = Inl InvalidMessageLength"
proof -
  have "SerializeMessage (Disconnect \<lparr>dc_Reason = 0\<rparr>) = Inr [0, 0, 0, 7, 1, 7, 0]"
    by (simp add: SerializeMessage_def validated_def validate_disconnect_def require_def
        serializeDisconnect_def const_defs put_u8_byte put_u32_bytes)
  from damaged_frame_rejected [OF this, of 6 "[0]"] show ?thesis by simp
qed

lemma map_sum_eq_Inr: "map_sum id f s = Inr y \<longleftrightarrow> (\<exists>x. s = Inr x \<and> y = f x)"
  by (cases s) auto

lemma map_sum_eq_Inl: "map_sum id f s = Inl e \<longleftrightarrow> s = Inl e"
  by (cases s) auto

lemma des_message_payload_type:
  assumes "des_message_payload t p = Inr msg"
  shows "message_type msg = t"
  using assms
  by (auto simp: des_message_payload_def map_sum_eq_Inr split: if_splits)

text \<open>
  C24: Whatever bytes arrive, a message DeserializeMessage returns passes Validate, has the type the
  header announces, and came in a frame of the announced length and the current version.
\<close>

theorem decoded_message_valid:
  assumes "DeserializeMessage data = Inr msg"
  shows "validate_message msg = Inr () \<and> message_type msg = data ! 5 \<and> data ! 4 = ProtocolVersion \<and>
         get_be (take 4 data) = (of_nat (length data) :: u32)"
  using assms des_message_payload_type
  by (auto simp: DeserializeMessage_def Let_def bindr_eq_Inr split: if_splits)

theorem decoded_message_valid_witness:
  "validate_message (Disconnect \<lparr>dc_Reason = 3\<rparr>) = Inr () \<and>
   message_type (Disconnect \<lparr>dc_Reason = 3\<rparr>) = 7"
proof -
  have "DeserializeMessage [0, 0, 0, 7, 1, 7, 3] = Inr (Disconnect \<lparr>dc_Reason = 3\<rparr>)"
    by code_simp
  from decoded_message_valid [OF this] show ?thesis by simp
qed

section \<open>Decoding errors\<close>

lemma io_elements [io_intros]:
  "io_reader deserializeTileState" "io_reader deserializeEntityInfo" "io_reader des_fort_info"
  "io_reader des_zone_data" "io_reader des_world" "io_reader des_announcement"
  "io_reader p \<Longrightarrow> io_reader (get_counted p)"
  unfolding deserializeTileState_def deserializeEntityInfo_def des_fort_info_def
    des_zone_data_def des_world_def des_announcement_def get_counted_def
  by (intro io_intros; assumption?)+

lemma io_announcement_tail:
  "io_reader p \<Longrightarrow> io_reader (\<lambda>rest. if c \<and> length rest = n then p rest else Inr (x, rest))"
  by (auto simp: io_reader_def)

lemma run_reader_io:
  "io_reader p \<Longrightarrow> run_reader p data = Inl e \<Longrightarrow> e \<in> {EOF, UnexpectedEOF}"
  by (simp add: run_reader_eq_Inl io_reader_def)

text \<open>Every payload decoder but the one for \<open>ErrorMessage\<close> fails with an error value.\<close>

lemma payload_readers_no_panic:
  "deserializeHandshake data \<noteq> Inl Panic" "deserializeFullState data \<noteq> Inl Panic"
  "deserializeResyncRequest data \<noteq> Inl Panic" "deserializeTileUpdate data \<noteq> Inl Panic"
  "deserializeHeartbeat data \<noteq> Inl Panic" "deserializeDisconnect data \<noteq> Inl Panic"
  "deserializeEntityUpdate data \<noteq> Inl Panic" "deserializeCommandAck data \<noteq> Inl Panic"
  "deserializeQuery data \<noteq> Inl Panic" "deserializeQueryResponse data \<noteq> Inl Panic"
  "deserializeCommand data \<noteq> Inl Panic"
proof -
  show "deserializeCommand data \<noteq> Inl Panic"
    using deserializeCommand_Inl [of data Panic] by auto
qed (unfold deserializeHandshake_def deserializeFullState_def deserializeResyncRequest_def
    deserializeTileUpdate_def deserializeHeartbeat_def deserializeDisconnect_def
    deserializeEntityUpdate_def deserializeCommandAck_def deserializeQuery_def
    deserializeQueryResponse_def,
    auto split: if_splits dest!: run_reader_io [rotated] intro!: io_intros)

lemma announcement_no_panic: "deserializeAnnouncementUpdate data \<noteq> Inl Panic"
  unfolding deserializeAnnouncementUpdate_def
  by (auto split: if_splits dest!: run_reader_io [rotated] intro!: io_intros io_announcement_tail)

lemma deserializeError_panic:
  "deserializeError p = Inl Panic \<longleftrightarrow>
     4 \<le> length p \<and> (65532 :: u16) \<le> get_be (take 2 (drop 2 p)) \<and>
     4 + unat (get_be (take 2 (drop 2 p)) :: u16) \<le> length p"
proof -
  let ?n = "get_be (take 2 (drop 2 p)) :: u16"
  have lt: "unat ?n < 65536"
    using unsigned_less [of ?n] by simp
  have "(4 + unat ?n) mod 65536 = (if unat ?n < 65532 then 4 + unat ?n else unat ?n - 65532)"
    using lt by (auto simp: mod_if)
  then have wrap: "unat (4 + ?n) < 4 \<longleftrightarrow> 65532 \<le> ?n"
    using lt by (auto simp: unat_word_ariths word_le_nat_alt)
  moreover have "unat (4 + ?n) \<le> 4 + unat ?n"
    by (simp add: unat_word_ariths)
  ultimately show ?thesis
    by (auto simp: deserializeError_def Let_def go_slice_def bindr_eq_Inl not_less)
qed

lemma decode_no_panic_but:
  "DeserializeMessage data = Inl Panic \<longleftrightarrow>
     10 \<le> length data \<and> get_be (take 4 data) = (of_nat (length data) :: u32) \<and>
     data ! 4 = ProtocolVersion \<and> data ! 5 = MessageTypeError \<and>
     (65532 :: u16) \<le> get_be (take 2 (drop 8 data)) \<and>
     10 + unat (get_be (take 2 (drop 8 data)) :: u16) \<le> length data"
proof -
  have val: "validated msg \<noteq> Inl Panic" for msg
    by (simp add: validated_def split: sum.splits)
  have payload: "des_message_payload t p = Inl Panic \<longleftrightarrow>
      t = MessageTypeError \<and> deserializeError p = Inl Panic" for t p
    using payload_readers_no_panic [of p] announcement_no_panic [of p]
    by (auto simp: des_message_payload_def map_sum_eq_Inl message_type_defs)
  show ?thesis
    by (auto simp: DeserializeMessage_def Let_def bindr_eq_Inl val payload deserializeError_panic)
qed


text \<open>
  So an Error message whose text is 65532 to 65535 bytes long, which Validate and the writer both
  accept, brings down the peer that decodes it.
\<close>

theorem long_error_text_panics:
  assumes "65532 \<le> length (em_Message m)" and "length (em_Message m) \<le> 65535"
  shows "\<exists>bs. SerializeMessage (Error m) = Inr bs \<and> DeserializeMessage bs = Inl Panic"
proof -
  obtain bs where s: "SerializeMessage (Error m) = Inr bs"
    by (simp add: SerializeMessage_def Let_def)
  then obtain p where p: "p = serializeError m"
    and bs: "bs = put_u32 (of_nat (6 + length p)) @ [ProtocolVersion, MessageTypeError] @ p"
    by (rule SerializeMessage_Inr) auto
  let ?n = "of_nat (length (em_Message m)) :: u16"
  have n: "unat ?n = length (em_Message m)" "65532 \<le> ?n"
    using assms by (simp_all add: unat_of_nat_fits word_le_nat_alt)
  have "get_be (put_u16 v) = v" for v
    by (simp add: put_u16_def get_put_be del: put_be.simps)
  then have "get_be (take 2 (drop 8 bs)) = ?n"
    by (simp add: bs p serializeError_def put_str16_def)
  moreover have "length bs = 10 + length (em_Message m)"
    by (simp add: bs p serializeError_def)
  ultimately have "DeserializeMessage bs = Inl Panic"
    using message_frame [OF s] n by (simp add: decode_no_panic_but)
  with s show ?thesis by blast
qed

theorem long_error_text_panics_witness:
  "\<exists>bs. SerializeMessage (Error \<lparr>em_Code = 1, em_Message = replicate 65532 65\<rparr>) = Inr bs \<and>
     DeserializeMessage bs = Inl Panic"
  by (rule long_error_text_panics) simp_all

section \<open>Entity updates of older peers\<close>

text \<open>
  The blocks of an entity update are additive: cut after any block (a peer older than the next
  one), the payload decodes to the same update with what the missing blocks carry left at its
  default, and everything sent intact.
\<close>

theorem entity_update_additive:
  assumes "validate_entity_update m = Inr ()" and "message_fits (EntityUpdate m)" and "1 \<le> k"
  shows "deserializeEntityUpdate (concat (take k (eu_blocks m))) = Inr (eu_upto k m)"
  by (rule entity_update_cut [OF assms])

definition migrants_example :: EntityUpdateMessage where
  "migrants_example = \<lparr>eu_Count = 1,
     eu_Entities = [\<lparr>ei_ID = 9, ei_X = 1, ei_Y = 2, ei_Z = 3, ei_Type = 1, ei_Subtype = 4,
       ei_Dead = True\<rparr>],
     eu_FortInfo = None, eu_Zones = [],
     eu_World = Some \<lparr>wi_SaveDir = [114], wi_ID1 = 5, wi_ID2 = 6\<rparr>\<rparr>"

theorem entity_update_additive_witness:
  "deserializeEntityUpdate [0, 0, 0, 1, 0, 0, 0, 9, 0, 1, 0, 2, 0, 3, 1, 0, 4, 0, 1, 0, 0, 0, 0]
     = Inr (eu_upto 3 migrants_example)"
proof -
  have "concat (take 3 (eu_blocks migrants_example)) =
      [0, 0, 0, 1, 0, 0, 0, 9, 0, 1, 0, 2, 0, 3, 1, 0, 4, 0, 1, 0, 0, 0, 0]"
    by (simp add: eu_blocks_def migrants_example_def serializeEntityInfo_def put_option_def
        put_counted_def put_u8_byte put_u16_bytes put_u32_bytes)
  then show ?thesis
    using entity_update_additive [of migrants_example 3]
    by (simp add: migrants_example_def validate_entity_update_def)
qed

text \<open>
  Distinct ids, which a real update has, make the dead marks exact.
\<close>

lemma dead_marks_exact:
  assumes "distinct (map ei_ID (eu_Entities m))"
  shows "eu_Entities (entity_update_shown m) = eu_Entities m"
proof -
  have "e\<lparr>ei_Dead := ei_ID e \<in> set (dead_ids (eu_Entities m))\<rparr> = e" if "e \<in> set (eu_Entities m)" for e
  proof -
    have "ei_ID e \<in> set (dead_ids (eu_Entities m)) \<longleftrightarrow> ei_Dead e"
      using assms that by (auto simp: dead_ids_def distinct_map inj_on_def)
    then show ?thesis by simp
  qed
  then show ?thesis by (simp add: entity_update_shown_def map_idI)
qed

end
