(* ===== verification/Connection.thy ===== *)
theory Connection
  imports Message_Codec "HOL-Library.Multiset"
begin

text \<open>
  The framed connection (\<open>internal/protocol/connection.go\<close>). A \<open>net.Conn\<close> is the bytes the peer has
  sent and we have not read (then the end of the stream), the bytes we have written, and how many
  more the network takes before a write fails. The sections a method runs under its lock are
  definitions of their own: the sequential methods are composed of them, and so are the steps of
  the interleaving model, where several goroutines use one connection.
\<close>

section \<open>State\<close>

datatype ConnectionState = StateDisconnected | StateConnecting | StateConnected | StateError

record NetConn =
  nc_in :: bytes
  nc_out :: bytes
  nc_room :: "nat option"
  nc_closed :: bool

record Connection =
  cn_conn :: "NetConn option"
  cn_state :: ConnectionState

datatype conn_error =
    DialFailed
  | NotConnected ConnectionState
  | SerializationFailed go_error
  | SendFailed
  | HeaderFailed go_error
  | BadLength u32
  | PayloadFailed go_error
  | DeserializationFailed go_error
  | ReceivePanic

definition NewConnection :: Connection where
  "NewConnection = \<lparr>cn_conn = None, cn_state = StateDisconnected\<rparr>"

text \<open>\<open>conn.Write\<close>: all of the data, or what still fits and an error.\<close>

definition net_write :: "NetConn \<Rightarrow> bytes \<Rightarrow> bool \<times> NetConn" where
  "net_write nc data =
     (if nc_closed nc then (False, nc)
      else case nc_room nc of
        None \<Rightarrow> (True, nc\<lparr>nc_out := nc_out nc @ data\<rparr>)
      | Some r \<Rightarrow> (length data \<le> r,
          nc\<lparr>nc_out := nc_out nc @ take r data, nc_room := Some (r - length data)\<rparr>))"

text \<open>\<open>io.ReadFull\<close> on a connection: when it fails, everything that had arrived is consumed.\<close>

definition net_read_full :: "nat \<Rightarrow> NetConn \<Rightarrow> (go_error + bytes) \<times> NetConn" where
  "net_read_full n nc =
     (case read_full n (nc_in nc) of
        Inl e \<Rightarrow> (Inl e, nc\<lparr>nc_in := []\<rparr>)
      | Inr (bs, rest) \<Rightarrow> (Inr bs, nc\<lparr>nc_in := rest\<rparr>))"

section \<open>The locked sections\<close>

definition lock_connecting :: "Connection \<Rightarrow> Connection" where
  "lock_connecting c = c\<lparr>cn_state := StateConnecting\<rparr>"

definition lock_connected :: "NetConn \<Rightarrow> Connection \<Rightarrow> Connection" where
  "lock_connected nc c = c\<lparr>cn_conn := Some nc, cn_state := StateConnected\<rparr>"

definition lock_error :: "Connection \<Rightarrow> Connection" where
  "lock_error c = c\<lparr>cn_state := StateError\<rparr>"

text \<open>The read lock of \<open>Send\<close> and \<open>Receive\<close>: the connection to use, if there is one.\<close>

definition lock_conn :: "Connection \<Rightarrow> conn_error + NetConn" where
  "lock_conn c =
     (if cn_state c \<noteq> StateConnected then Inl (NotConnected (cn_state c))
      else case cn_conn c of None \<Rightarrow> Inl (NotConnected (cn_state c)) | Some nc \<Rightarrow> Inr nc)"

definition lock_closed :: "Connection \<Rightarrow> Connection" where
  "lock_closed c = c\<lparr>cn_conn := None, cn_state := StateDisconnected\<rparr>"

section \<open>The methods\<close>

text \<open>\<open>dial\<close> is what \<open>net.Dial\<close> returns.\<close>

definition Connect :: "NetConn option \<Rightarrow> Connection \<Rightarrow> (conn_error + unit) \<times> Connection" where
  "Connect dial c =
     (let c = lock_connecting c in
      case dial of
        None \<Rightarrow> (Inl DialFailed, lock_error c)
      | Some nc \<Rightarrow> (Inr (), lock_connected nc c))"

definition AcceptConnection :: "NetConn \<Rightarrow> Connection \<Rightarrow> Connection" where
  "AcceptConnection nc c = lock_connected nc c"

definition Send :: "Message \<Rightarrow> Connection \<Rightarrow> (conn_error + unit) \<times> Connection" where
  "Send msg c =
     (case lock_conn c of
        Inl e \<Rightarrow> (Inl e, c)
      | Inr nc \<Rightarrow>
        (case SerializeMessage msg of
           Inl e \<Rightarrow> (Inl (SerializationFailed e), c)
         | Inr data \<Rightarrow>
             let (sent, nc') = net_write nc data; c' = c\<lparr>cn_conn := Some nc'\<rparr> in
             if sent then (Inr (), c') else (Inl SendFailed, lock_error c')))"

definition maxFrame :: nat where
  "maxFrame = 100 * 1024 * 1024"

text \<open>\<open>Receive\<close> after its lock: header, length check, payload, decoding.\<close>

definition read_frame :: "NetConn \<Rightarrow> (conn_error + bytes) \<times> NetConn" where
  "read_frame nc =
     (case net_read_full 6 nc of
        (Inl e, nc) \<Rightarrow> (Inl (HeaderFailed e), nc)
      | (Inr header, nc) \<Rightarrow>
        let len = (get_be (take 4 header) :: u32) in
        if unat len < 6 \<or> unat len > maxFrame then (Inl (BadLength len), nc)
        else if 6 < unat len then
          (case net_read_full (unat len - 6) nc of
             (Inl e, nc) \<Rightarrow> (Inl (PayloadFailed e), nc)
           | (Inr remaining, nc) \<Rightarrow> (Inr (header @ remaining), nc))
        else (Inr header, nc))"

text \<open>A failed read puts the connection into \<open>StateError\<close>; a bad length or payload does not.\<close>

definition Receive :: "Connection \<Rightarrow> (conn_error + Message) \<times> Connection" where
  "Receive c =
     (case lock_conn c of
        Inl e \<Rightarrow> (Inl e, c)
      | Inr nc \<Rightarrow>
        (case read_frame nc of
           (Inl (HeaderFailed e), nc) \<Rightarrow> (Inl (HeaderFailed e), lock_error (c\<lparr>cn_conn := Some nc\<rparr>))
         | (Inl (PayloadFailed e), nc) \<Rightarrow> (Inl (PayloadFailed e), lock_error (c\<lparr>cn_conn := Some nc\<rparr>))
         | (Inl e, nc) \<Rightarrow> (Inl e, c\<lparr>cn_conn := Some nc\<rparr>)
         | (Inr fullMsg, nc) \<Rightarrow>
             (case DeserializeMessage fullMsg of
                Inl e \<Rightarrow> (Inl (if e = Panic then ReceivePanic else DeserializationFailed e),
                          c\<lparr>cn_conn := Some nc\<rparr>)
              | Inr msg \<Rightarrow> (Inr msg, c\<lparr>cn_conn := Some nc\<rparr>))))"

text \<open>
  \<open>Close\<close> returns the connection and what became of the socket. The goodbye is best effort: neither
  a serialisation error nor a write error stops the close.
\<close>

definition Close :: "Connection \<Rightarrow> Connection \<times> NetConn option" where
  "Close c =
     (case cn_conn c of
        None \<Rightarrow> (c\<lparr>cn_state := StateDisconnected\<rparr>, None)
      | Some nc \<Rightarrow>
        let nc = (case SerializeMessage (Disconnect \<lparr>dc_Reason = ReasonNormalShutdown\<rparr>) of
                    Inl e \<Rightarrow> nc | Inr data \<Rightarrow> snd (net_write nc data))
        in (lock_closed c, Some (nc\<lparr>nc_closed := True\<rparr>)))"

section \<open>Delivery of a stream of messages\<close>

fun send_all :: "Message list \<Rightarrow> Connection \<Rightarrow> (conn_error + unit) \<times> Connection" where
  "send_all [] c = (Inr (), c)"
| "send_all (msg # ms) c =
     (case Send msg c of (Inl e, c) \<Rightarrow> (Inl e, c) | (Inr _, c) \<Rightarrow> send_all ms c)"

fun receive_n :: "nat \<Rightarrow> Connection \<Rightarrow> (conn_error + Message list) \<times> Connection" where
  "receive_n 0 c = (Inr [], c)"
| "receive_n (Suc n) c =
     (case Receive c of
        (Inl e, c) \<Rightarrow> (Inl e, c)
      | (Inr msg, c) \<Rightarrow>
          (case receive_n n c of (Inl e, c) \<Rightarrow> (Inl e, c) | (Inr ms, c) \<Rightarrow> (Inr (msg # ms), c)))"

definition connected :: "NetConn \<Rightarrow> Connection" where
  "connected nc = \<lparr>cn_conn = Some nc, cn_state = StateConnected\<rparr>"

text \<open>A message both ends can handle: its length fields hold it and its frame is within the limit.\<close>

definition sendable :: "Message \<Rightarrow> bool" where
  "sendable msg \<longleftrightarrow> message_fits msg \<and>
     (case SerializeMessage msg of Inl _ \<Rightarrow> True | Inr bs \<Rightarrow> length bs \<le> maxFrame)"

lemma lock_conn_connected [simp]: "lock_conn (connected nc) = Inr nc"
  by (simp add: lock_conn_def connected_def)

lemma connected_update [simp]: "(connected nc)\<lparr>cn_conn := Some nc'\<rparr> = connected nc'"
  by (simp add: connected_def)

lemma Send_Inr:
  assumes "Send msg (connected nc) = (Inr (), c')"
  obtains bs nc' where "SerializeMessage msg = Inr bs" and "c' = connected nc'"
    and "nc_out nc' = nc_out nc @ bs"
  using assms
  by (auto simp: Send_def Let_def net_write_def split: sum.splits prod.splits if_splits option.splits)

lemma read_frame_append:
  assumes "SerializeMessage msg = Inr bs" and "length bs \<le> maxFrame" and "nc_in nc = bs @ rest"
  shows "read_frame nc = (Inr bs, nc\<lparr>nc_in := rest\<rparr>)"
proof -
  note frame = message_frame [OF assms(1)]
  have len: "unat (get_be (take 4 bs) :: u32) = length bs"
    using frame(2) assms(2) by (simp add: unat_of_nat_count maxFrame_def)
  have hd: "net_read_full 6 nc = (Inr (take 6 bs), nc\<lparr>nc_in := drop 6 bs @ rest\<rparr>)"
    using frame(1) assms(3) read_full_append [of "take 6 bs" 6 "drop 6 bs @ rest"]
    by (simp add: net_read_full_def append_assoc [symmetric] del: append_assoc)
  have tl: "net_read_full (length bs - 6) (nc\<lparr>nc_in := drop 6 bs @ rest\<rparr>)
      = (Inr (drop 6 bs), nc\<lparr>nc_in := rest\<rparr>)"
    by (simp add: net_read_full_def read_full_append)
  have "read_frame nc = (Inr (take 6 bs @ drop 6 bs), nc\<lparr>nc_in := rest\<rparr>)"
    using frame(1) assms(2)
    by (cases "length bs = 6") (simp_all add: read_frame_def hd len tl Let_def min_def)
  then show ?thesis by simp
qed

lemma Receive_frame:
  assumes "SerializeMessage msg = Inr bs" and "sendable msg" and "nc_in nc = bs @ rest"
  shows "Receive (connected nc) = (Inr (message_shown msg), connected (nc\<lparr>nc_in := rest\<rparr>))"
proof -
  have "length bs \<le> maxFrame" "message_fits msg"
    using assms(1,2) by (simp_all add: sendable_def)
  then show ?thesis
    using read_frame_append [OF assms(1) _ assms(3)] message_decode_encode [OF assms(1)]
    by (simp add: Receive_def)
qed

lemma send_all_out:
  "send_all ms (connected nc) = (Inr (), c') \<Longrightarrow>
     \<exists>bss nc'. c' = connected nc' \<and> list_all2 (\<lambda>msg bs. SerializeMessage msg = Inr bs) ms bss \<and>
       nc_out nc' = nc_out nc @ concat bss"
proof (induction ms arbitrary: nc)
  case Nil
  then show ?case by auto
next
  case (Cons msg ms)
  from Cons.prems obtain c1 where c1: "Send msg (connected nc) = (Inr (), c1)"
    and rest: "send_all ms c1 = (Inr (), c')"
    by (auto split: prod.splits sum.splits)
  from c1 obtain bs nc1 where bs: "SerializeMessage msg = Inr bs" "c1 = connected nc1"
    "nc_out nc1 = nc_out nc @ bs"
    by (rule Send_Inr)
  from Cons.IH [of nc1] rest bs(2) obtain bss nc' where
    "c' = connected nc'" "list_all2 (\<lambda>msg bs. SerializeMessage msg = Inr bs) ms bss"
    "nc_out nc' = nc_out nc1 @ concat bss"
    by auto
  with bs show ?case
    by (intro exI [of _ "bs # bss"] exI [of _ nc']) simp
qed

lemma receive_n_frames:
  "list_all2 (\<lambda>msg bs. SerializeMessage msg = Inr bs) ms bss \<Longrightarrow> list_all sendable ms \<Longrightarrow>
     nc_in nc = concat bss @ rest \<Longrightarrow>
     receive_n (length ms) (connected nc) =
       (Inr (map message_shown ms), connected (nc\<lparr>nc_in := rest\<rparr>))"
proof (induction ms arbitrary: bss nc)
  case Nil
  then have "nc\<lparr>nc_in := rest\<rparr> = nc" by simp
  then show ?case by simp
next
  case (Cons msg ms)
  then obtain bs bss' where bss: "bss = bs # bss'" "SerializeMessage msg = Inr bs"
    "list_all2 (\<lambda>msg bs. SerializeMessage msg = Inr bs) ms bss'"
    by (auto simp: list_all2_Cons1)
  have "Receive (connected nc) =
      (Inr (message_shown msg), connected (nc\<lparr>nc_in := concat bss' @ rest\<rparr>))"
    using Cons.prems bss by (intro Receive_frame) simp_all
  then show ?case
    using Cons.IH [OF bss(3), of "nc\<lparr>nc_in := concat bss' @ rest\<rparr>"] Cons.prems by simp
qed


definition wire_example :: NetConn where
  "wire_example = \<lparr>nc_in = [], nc_out = [], nc_room = None, nc_closed = False\<rparr>"

definition beats_example :: "Message list" where
  "beats_example = [ResyncRequest \<lparr>rr_Reason = 2\<rparr>, Disconnect \<lparr>dc_Reason = 0\<rparr>]"


section \<open>Error paths of Receive\<close>

lemma read_frame_bad_length:
  assumes "nc_in nc = header @ rest" and "length header = 6"
    and "unat (get_be (take 4 header) :: u32) < 6 \<or> unat (get_be (take 4 header) :: u32) > maxFrame"
  shows "read_frame nc = (Inl (BadLength (get_be (take 4 header))), nc\<lparr>nc_in := rest\<rparr>)"
  using assms by (simp add: read_frame_def net_read_full_def read_full_append Let_def)

text \<open>
  A message whose frame is over the receiver's limit of 100 MB is still sent: Send reports
  success, and the peer refuses its length after the six header bytes, stays in the connected state
  and goes on reading in the middle of the frame.
\<close>

theorem oversized_frame:
  assumes "SerializeMessage msg = Inr bs" and "maxFrame < length bs" and "length bs < 2 ^ 32"
    and "nc_room nc = None" and "\<not> nc_closed nc" and "nc_in peer = bs"
  shows "fst (Send msg (connected nc)) = Inr () \<and>
    Receive (connected peer) = (Inl (BadLength (of_nat (length bs))),
      connected (peer\<lparr>nc_in := drop 6 bs\<rparr>))"
proof -
  note frame = message_frame [OF assms(1)]
  have len: "get_be (take 4 (take 6 bs)) = (of_nat (length bs) :: u32)"
    using frame(2) by (simp add: min_def)
  have n: "unat (of_nat (length bs) :: u32) = length bs"
    by (rule unat_of_nat_count [OF assms(3)])
  have "read_frame peer = (Inl (BadLength (of_nat (length bs))), peer\<lparr>nc_in := drop 6 bs\<rparr>)"
    using read_frame_bad_length [of peer "take 6 bs" "drop 6 bs"] assms(2,6) frame(1) len n
    by (simp add: min_def)
  then show ?thesis
    using assms by (simp add: Send_def net_write_def Receive_def Let_def)
qed

lemma query_response_frame:
  assumes "qr_QueryID q \<noteq> 0" and "\<not> qr_Status q > QueryStatusUnknown"
  shows "SerializeMessage (QueryResponse q) =
     Inr (put_u32 (of_nat (15 + length (qr_Data q))) @ [ProtocolVersion, MessageTypeQueryResponse] @
          serializeQueryResponse q)"
  using assms
  by (simp add: SerializeMessage_def validated_def validate_query_response_def require_def
      put_u8_byte serializeQueryResponse_def Let_def add.commute)

theorem oversized_frame_witness:
  "\<exists>bs. SerializeMessage (QueryResponse \<lparr>qr_QueryID = 1, qr_Status = 0,
      qr_Data = replicate maxFrame 0\<rparr>) = Inr bs \<and>
    fst (Send (QueryResponse \<lparr>qr_QueryID = 1, qr_Status = 0, qr_Data = replicate maxFrame 0\<rparr>)
      (connected wire_example)) = Inr () \<and>
    Receive (connected (wire_example\<lparr>nc_in := bs\<rparr>)) = (Inl (BadLength (of_nat (length bs))),
      connected (wire_example\<lparr>nc_in := drop 6 bs\<rparr>))"
proof -
  let ?q = "\<lparr>qr_QueryID = 1, qr_Status = 0, qr_Data = replicate maxFrame 0\<rparr>"
  obtain bs where bs: "SerializeMessage (QueryResponse ?q) = Inr bs"
    and "length bs = 15 + maxFrame"
    using query_response_frame [of ?q] by (simp add: QueryStatusUnknown_def serializeQueryResponse_def)
  then show ?thesis
    using oversized_frame [OF bs, of wire_example "wire_example\<lparr>nc_in := bs\<rparr>"]
    by (simp add: wire_example_def maxFrame_def)
qed

text \<open>What \<open>Receive\<close> does to the state: only a failed read changes it.\<close>

lemma Receive_state:
  "Receive c = (r, c') \<Longrightarrow>
     cn_state c' = (case r of Inl (HeaderFailed _) \<Rightarrow> StateError | Inl (PayloadFailed _) \<Rightarrow> StateError
                    | _ \<Rightarrow> cn_state c)"
  by (auto simp: Receive_def lock_error_def lock_conn_def split: sum.splits conn_error.splits
      prod.splits if_splits option.splits)

section \<open>One connection, several goroutines\<close>

text \<open>
  The lock is released between the sections of a method: while it dials, writes or reads, other
  goroutines run theirs. A system is the shared connection and how many calls are at each of these
  points. \<open>Transfer\<close> is a \<open>Send\<close> or a \<open>Receive\<close> that has passed its read lock.
\<close>

datatype in_flight = Dialing | Transfer

record system =
  sy_conn :: Connection
  sy_calls :: "in_flight multiset"

inductive conn_step :: "system \<Rightarrow> system \<Rightarrow> bool" where
  connect_begin: "conn_step s (s\<lparr>sy_conn := lock_connecting (sy_conn s),
    sy_calls := add_mset Dialing (sy_calls s)\<rparr>)"
| connect_ok: "Dialing \<in># sy_calls s \<Longrightarrow> conn_step s (s\<lparr>sy_conn := lock_connected nc (sy_conn s),
    sy_calls := sy_calls s - {#Dialing#}\<rparr>)"
| connect_fail: "Dialing \<in># sy_calls s \<Longrightarrow> conn_step s (s\<lparr>sy_conn := lock_error (sy_conn s),
    sy_calls := sy_calls s - {#Dialing#}\<rparr>)"
| accept: "conn_step s (s\<lparr>sy_conn := AcceptConnection nc (sy_conn s)\<rparr>)"
| transfer_begin: "lock_conn (sy_conn s) = Inr nc \<Longrightarrow>
    conn_step s (s\<lparr>sy_calls := add_mset Transfer (sy_calls s)\<rparr>)"
| transfer_end: "Transfer \<in># sy_calls s \<Longrightarrow> conn_step s (s\<lparr>sy_calls := sy_calls s - {#Transfer#}\<rparr>)"
| transfer_fail: "Transfer \<in># sy_calls s \<Longrightarrow> conn_step s (s\<lparr>sy_conn := lock_error (sy_conn s),
    sy_calls := sy_calls s - {#Transfer#}\<rparr>)"
| close: "conn_step s (s\<lparr>sy_conn := fst (Close (sy_conn s))\<rparr>)"

definition conn_initial :: system where
  "conn_initial = \<lparr>sy_conn = NewConnection, sy_calls = {#}\<rparr>"

lemma lock_results [simp]:
  "cn_state (lock_connecting c) = StateConnecting" "cn_conn (lock_connecting c) = cn_conn c"
  "cn_state (lock_connected nc c) = StateConnected" "cn_conn (lock_connected nc c) = Some nc"
  "cn_state (lock_error c) = StateError" "cn_conn (lock_error c) = cn_conn c"
  "cn_state (fst (Close c)) = StateDisconnected" "cn_conn (fst (Close c)) = None"
  by (simp_all add: lock_connecting_def lock_connected_def lock_error_def Close_def lock_closed_def
      Let_def split: option.splits)

definition conn_inv :: "Connection \<Rightarrow> bool" where
  "conn_inv c \<longleftrightarrow> (cn_state c = StateConnected \<longrightarrow> cn_conn c \<noteq> None) \<and>
     (cn_state c = StateDisconnected \<longrightarrow> cn_conn c = None)"

lemma conn_step_inv: "conn_step s s' \<Longrightarrow> conn_inv (sy_conn s) \<Longrightarrow> conn_inv (sy_conn s')"
  by (induction rule: conn_step.induct)
    (auto simp: conn_inv_def AcceptConnection_def)

text \<open>
  However the goroutines interleave, a connected connection has a socket and a disconnected one
  has none: Send and Receive, which test both under the read lock, never use a missing socket, and
  fail only because of the state.
\<close>

theorem connection_invariant:
  assumes "conn_step\<^sup>*\<^sup>* conn_initial s"
  shows "conn_inv (sy_conn s) \<and>
    ((\<exists>nc. lock_conn (sy_conn s) = Inr nc) \<longleftrightarrow> cn_state (sy_conn s) = StateConnected)"
proof -
  have "conn_inv (sy_conn s)"
    using assms
  proof (induction rule: rtranclp_induct)
    case base
    show ?case by (simp add: conn_initial_def NewConnection_def conn_inv_def)
  qed (rule conn_step_inv)
  then show ?thesis
    by (auto simp: lock_conn_def conn_inv_def split: option.splits)
qed

text \<open>A close while another goroutine is inside a read: the failed read has the last word.\<close>

lemma close_race_steps:
  "conn_step\<^sup>*\<^sup>* conn_initial
     \<lparr>sy_conn = \<lparr>cn_conn = None, cn_state = StateError\<rparr>, sy_calls = {#}\<rparr>"
proof -
  let ?s1 = "conn_initial\<lparr>sy_conn := AcceptConnection wire_example (sy_conn conn_initial)\<rparr>"
  let ?s2 = "?s1\<lparr>sy_calls := add_mset Transfer (sy_calls ?s1)\<rparr>"
  let ?s3 = "?s2\<lparr>sy_conn := fst (Close (sy_conn ?s2))\<rparr>"
  let ?s4 = "?s3\<lparr>sy_conn := lock_error (sy_conn ?s3), sy_calls := sy_calls ?s3 - {#Transfer#}\<rparr>"
  have r1: "conn_step\<^sup>*\<^sup>* conn_initial ?s1"
    by (rule r_into_rtranclp, rule accept)
  have r2: "conn_step\<^sup>*\<^sup>* conn_initial ?s2"
    by (rule rtranclp.rtrancl_into_rtrancl [OF r1], rule transfer_begin [of _ wire_example])
      (simp add: lock_conn_def AcceptConnection_def)
  have r3: "conn_step\<^sup>*\<^sup>* conn_initial ?s3"
    by (rule rtranclp.rtrancl_into_rtrancl [OF r2], rule close)
  have r4: "conn_step\<^sup>*\<^sup>* conn_initial ?s4"
    by (rule rtranclp.rtrancl_into_rtrancl [OF r3], rule transfer_fail) simp
  have "?s4 = \<lparr>sy_conn = \<lparr>cn_conn = None, cn_state = StateError\<rparr>, sy_calls = {#}\<rparr>"
    by (simp add: conn_initial_def lock_error_def Close_def lock_closed_def AcceptConnection_def
        lock_connected_def Let_def split: option.splits)
  with r4 show ?thesis by simp
qed

text \<open>
  Close does not have the last word on the state: a connection can be closed, with no call in
  flight any more, and report Error instead of Disconnected, because a Receive that Close
  interrupted records its read failure afterwards.
\<close>

theorem close_can_end_in_error:
  "\<exists>s. conn_step\<^sup>*\<^sup>* conn_initial s \<and> sy_calls s = {#} \<and> cn_conn (sy_conn s) = None \<and>
     cn_state (sy_conn s) = StateError \<and> cn_state (fst (Close (sy_conn s))) = StateDisconnected"
  by (rule exI, rule conjI [OF close_race_steps]) simp

theorem connection_invariant_witness:
  "conn_inv (sy_conn (conn_initial\<lparr>sy_conn := AcceptConnection wire_example (sy_conn conn_initial)\<rparr>))"
  by (rule connection_invariant [THEN conjunct1, OF r_into_rtranclp], rule accept)

end
