(* ===== verification/Overlay.thy ===== *)
theory Overlay
  imports Messages
begin

text \<open>
  The topology overlay (\<open>internal/topology/overlay.go\<close>, \<open>state.go\<close>, \<open>tiletype.go\<close>): two bit arrays
  over the tiles of the map, one for "open", one for "known", and the counts kept beside them. The
  abstraction is the list of the tiles' three-valued states; the lemmas show that every operation
  acts on it as its comment says and that the counts are the exact numbers of tiles in each state.
  An index outside a bit array is a run-time panic, the value \<open>Inl Panic\<close>.
\<close>

section \<open>Tile classification\<close>

datatype TileClass = TileClassWall | TileClassFloor | TileClassVoid | TileClassLiquid

definition ClassifyTile :: "u8 \<Rightarrow> TileClass" where
  "ClassifyTile flags =
     (if flags AND FlagLiquid7 \<noteq> 0 then TileClassLiquid
      else if flags AND FlagVoid \<noteq> 0 then TileClassVoid
      else if flags AND FlagFloor \<noteq> 0 then TileClassFloor
      else if flags AND FlagWall \<noteq> 0 then TileClassWall
      else TileClassWall)"

definition IsPathable :: "u8 \<Rightarrow> bool" where "IsPathable flags \<longleftrightarrow> ClassifyTile flags = TileClassFloor"
definition IsWall :: "u8 \<Rightarrow> bool" where "IsWall flags \<longleftrightarrow> ClassifyTile flags = TileClassWall"
definition IsFloor :: "u8 \<Rightarrow> bool" where "IsFloor flags \<longleftrightarrow> ClassifyTile flags = TileClassFloor"
definition IsVoid :: "u8 \<Rightarrow> bool" where "IsVoid flags \<longleftrightarrow> ClassifyTile flags = TileClassVoid"
definition IsLiquid :: "u8 \<Rightarrow> bool" where "IsLiquid flags \<longleftrightarrow> ClassifyTile flags = TileClassLiquid"

datatype OverlayState = StateUnknown | StateOpen | StateClosed

definition ClassifyState :: "u8 \<Rightarrow> OverlayState" where
  "ClassifyState flags =
     (if flags AND FlagHidden \<noteq> 0 then StateUnknown
      else if flags AND FlagFloor \<noteq> 0 then StateOpen
      else if flags AND (FlagWall OR FlagVoid OR FlagLiquid7) \<noteq> 0 then StateClosed
      else StateUnknown)"

section \<open>Bit arrays\<close>

text \<open>\<open>bits[i/8] >> (i%8) & 1\<close>, \<open>bits[i/8] |= 1 << (i%8)\<close> and \<open>bits[i/8] &^= 1 << (i%8)\<close>.\<close>

definition get_bit :: "bytes \<Rightarrow> nat \<Rightarrow> go_error + bool" where
  "get_bit bs i =
     (if i div 8 < length bs then Inr (drop_bit (i mod 8) (bs ! (i div 8)) AND 1 = 1) else Inl Panic)"

definition set_bit :: "bytes \<Rightarrow> nat \<Rightarrow> go_error + bytes" where
  "set_bit bs i =
     (if i div 8 < length bs then Inr (bs[i div 8 := bs ! (i div 8) OR push_bit (i mod 8) 1])
      else Inl Panic)"

definition clear_bit :: "bytes \<Rightarrow> nat \<Rightarrow> go_error + bytes" where
  "clear_bit bs i =
     (if i div 8 < length bs then Inr (bs[i div 8 := bs ! (i div 8) AND NOT (push_bit (i mod 8) 1)])
      else Inl Panic)"

section \<open>The overlay\<close>

record TopologyOverlay =
  ov_data :: bytes
  ov_known :: bytes
  ov_width :: u16
  ov_height :: u16
  ov_depth :: u16
  ov_totalTiles :: u32
  ov_openTileCount :: u32
  ov_closedTileCount :: u32
  ov_memoryBytes :: u64

definition NewTopologyOverlay :: "u16 \<Rightarrow> u16 \<Rightarrow> u16 \<Rightarrow> TopologyOverlay option" where
  "NewTopologyOverlay width height depth =
     (if width = 0 \<or> height = 0 \<or> depth = 0 then None
      else let totalTiles = ucast width * ucast height * ucast depth :: u32;
               bytesNeeded = (totalTiles + 7) div 8
       in Some \<lparr>ov_data = replicate (unat bytesNeeded) 0, ov_known = replicate (unat bytesNeeded) 0,
            ov_width = width, ov_height = height, ov_depth = depth, ov_totalTiles = totalTiles,
            ov_openTileCount = 0, ov_closedTileCount = 0,
            ov_memoryBytes = ucast bytesNeeded * 2\<rparr>)"

text \<open>
  The bit of a tile. The coordinates are \<open>int16\<close> values, which \<open>uint32(x)\<close> extends with their sign.
\<close>

definition bit_index :: "TopologyOverlay \<Rightarrow> i16 \<Rightarrow> i16 \<Rightarrow> i16 \<Rightarrow> u32" where
  "bit_index t x y z =
     scast z * ucast (ov_width t) * ucast (ov_height t) + scast y * ucast (ov_width t) + scast x"

definition set_tile_bits :: "TopologyOverlay \<Rightarrow> nat \<Rightarrow> OverlayState \<Rightarrow> go_error + TopologyOverlay" where
  "set_tile_bits t i state = (case state of
       StateOpen \<Rightarrow>
         bindr (set_bit (ov_known t) i) (\<lambda>known.
         bindr (set_bit (ov_data t) i) (\<lambda>data.
         Inr (t\<lparr>ov_known := known, ov_data := data, ov_openTileCount := ov_openTileCount t + 1\<rparr>)))
     | StateClosed \<Rightarrow>
         bindr (set_bit (ov_known t) i) (\<lambda>known.
         bindr (clear_bit (ov_data t) i) (\<lambda>data.
         Inr (t\<lparr>ov_known := known, ov_data := data, ov_closedTileCount := ov_closedTileCount t + 1\<rparr>)))
     | StateUnknown \<Rightarrow>
         bindr (clear_bit (ov_known t) i) (\<lambda>known.
         bindr (clear_bit (ov_data t) i) (\<lambda>data.
         Inr (t\<lparr>ov_known := known, ov_data := data\<rparr>))))"

definition in_bounds :: "TopologyOverlay \<Rightarrow> i16 \<Rightarrow> i16 \<Rightarrow> i16 \<Rightarrow> bool" where
  "in_bounds t x y z \<longleftrightarrow>
     \<not> (slt x 0 \<or> \<not> slt x (ov_width t)) \<and> \<not> (slt y 0 \<or> \<not> slt y (ov_height t)) \<and>
     \<not> (slt z 0 \<or> \<not> slt z (ov_depth t))"

definition SetTileState ::
  "TopologyOverlay \<Rightarrow> i16 \<Rightarrow> i16 \<Rightarrow> i16 \<Rightarrow> OverlayState \<Rightarrow> go_error + TopologyOverlay" where
  "SetTileState t x y z state =
     (if \<not> in_bounds t x y z then Inl OutOfRange
      else let i = unat (bit_index t x y z) in
       bindr (get_bit (ov_known t) i) (\<lambda>wasKnown.
       bindr (get_bit (ov_data t) i) (\<lambda>wasOpen.
       let t = (if wasKnown then
                  if wasOpen then t\<lparr>ov_openTileCount := ov_openTileCount t - 1\<rparr>
                  else t\<lparr>ov_closedTileCount := ov_closedTileCount t - 1\<rparr>
                else t)
       in set_tile_bits t i state)))"

definition SetTile :: "TopologyOverlay \<Rightarrow> i16 \<Rightarrow> i16 \<Rightarrow> i16 \<Rightarrow> bool \<Rightarrow> go_error + TopologyOverlay" where
  "SetTile t x y z isOpen =
     (if isOpen then SetTileState t x y z StateOpen else SetTileState t x y z StateClosed)"

definition tile_state :: "TopologyOverlay \<Rightarrow> nat \<Rightarrow> go_error + OverlayState" where
  "tile_state t i =
     bindr (get_bit (ov_known t) i) (\<lambda>known.
     if \<not> known then Inr StateUnknown
     else bindr (get_bit (ov_data t) i) (\<lambda>open. Inr (if open then StateOpen else StateClosed)))"

definition GetTileState :: "TopologyOverlay \<Rightarrow> i16 \<Rightarrow> i16 \<Rightarrow> i16 \<Rightarrow> go_error + OverlayState" where
  "GetTileState t x y z =
     (if \<not> in_bounds t x y z then Inr StateUnknown
      else tile_state t (unat (bit_index t x y z)))"

definition GetTile :: "TopologyOverlay \<Rightarrow> i16 \<Rightarrow> i16 \<Rightarrow> i16 \<Rightarrow> go_error + bool" where
  "GetTile t x y z =
     (if \<not> in_bounds t x y z then Inl OutOfRange
      else get_bit (ov_data t) (unat (bit_index t x y z)))"

definition GetDimensions :: "TopologyOverlay \<Rightarrow> u16 \<times> u16 \<times> u16" where
  "GetDimensions t = (ov_width t, ov_height t, ov_depth t)"

definition Counts :: "TopologyOverlay \<Rightarrow> u32 \<times> u32 \<times> u32" where
  "Counts t = (ov_openTileCount t, ov_closedTileCount t,
     ov_totalTiles t - ov_openTileCount t - ov_closedTileCount t)"

text \<open>The loop of \<open>BuildFromTiles\<close>: known bits, open bits and the two counts.\<close>

definition build_tile :: "TopologyOverlay \<Rightarrow> TileState \<Rightarrow> go_error + TopologyOverlay" where
  "build_tile t tile =
     (case ClassifyState (ts_Flags tile) of
        StateUnknown \<Rightarrow> Inr t
      | state \<Rightarrow>
          let i = unat (bit_index t (ts_X tile) (ts_Y tile) (ts_Z tile)) in
          bindr (set_bit (ov_known t) i) (\<lambda>known.
          if state = StateOpen
          then bindr (set_bit (ov_data t) i) (\<lambda>data.
            Inr (t\<lparr>ov_known := known, ov_data := data, ov_openTileCount := ov_openTileCount t + 1\<rparr>))
          else Inr (t\<lparr>ov_known := known, ov_closedTileCount := ov_closedTileCount t + 1\<rparr>)))"

fun build_tiles :: "TopologyOverlay \<Rightarrow> TileState list \<Rightarrow> go_error + TopologyOverlay" where
  "build_tiles t [] = Inr t"
| "build_tiles t (tile # tiles) = bindr (build_tile t tile) (\<lambda>t. build_tiles t tiles)"

definition BuildFromTiles :: "TopologyOverlay \<Rightarrow> TileState list \<Rightarrow> go_error + TopologyOverlay" where
  "BuildFromTiles t tiles =
     (if (of_nat (length tiles) :: u32) \<noteq> ov_totalTiles t then Inl TileCountMismatch
      else let bytesNeeded = (ov_totalTiles t + 7) div 8 in
       build_tiles (t\<lparr>ov_data := replicate (unat bytesNeeded) 0,
         ov_known := replicate (unat bytesNeeded) 0,
         ov_openTileCount := 0, ov_closedTileCount := 0\<rparr>) tiles)"

record ZStats =
  zs_Z :: i16
  zs_Open :: u32
  zs_Closed :: u32
  zs_Unknown :: u32

fun stats_loop :: "TopologyOverlay \<Rightarrow> nat list \<Rightarrow> ZStats \<Rightarrow> go_error + ZStats" where
  "stats_loop t [] stats = Inr stats"
| "stats_loop t (i # is) stats =
     bindr (get_bit (ov_known t) i) (\<lambda>isKnown.
     if \<not> isKnown then stats_loop t is (stats\<lparr>zs_Unknown := zs_Unknown stats + 1\<rparr>)
     else bindr (get_bit (ov_data t) i) (\<lambda>isOpen.
       if isOpen then stats_loop t is (stats\<lparr>zs_Open := zs_Open stats + 1\<rparr>)
       else stats_loop t is (stats\<lparr>zs_Closed := zs_Closed stats + 1\<rparr>)))"

definition zero_ZStats :: "i16 \<Rightarrow> ZStats" where
  "zero_ZStats z = \<lparr>zs_Z = z, zs_Open = 0, zs_Closed = 0, zs_Unknown = 0\<rparr>"

definition StatsForZ :: "TopologyOverlay \<Rightarrow> i16 \<Rightarrow> go_error + ZStats" where
  "StatsForZ t z =
     (if slt z 0 \<or> \<not> slt z (ov_depth t) then Inr (zero_ZStats z)
      else let tilesPerZ = ucast (ov_width t) * ucast (ov_height t) :: u32;
               startBit = scast z * tilesPerZ; endBit = startBit + tilesPerZ
       in stats_loop t [unat startBit..<unat endBit] (zero_ZStats z))"

text \<open>
  The levels from \<open>zMax\<close> down. The capacity \<open>zMax-zMin+1\<close> is an \<open>int16\<close>; \<open>make\<close> panics when it is
  negative. (\<open>z--\<close> cannot wrap: \<open>zMin\<close> is not negative by then.)
\<close>

fun stats_levels :: "TopologyOverlay \<Rightarrow> i16 list \<Rightarrow> go_error + ZStats list" where
  "stats_levels t [] = Inr []"
| "stats_levels t (z # zs) =
     bindr (StatsForZ t z) (\<lambda>s. bindr (stats_levels t zs) (\<lambda>ss. Inr (s # ss)))"

definition StatsForZRange :: "TopologyOverlay \<Rightarrow> i16 \<Rightarrow> i16 \<Rightarrow> go_error + ZStats list" where
  "StatsForZRange t zMin zMax =
     (if slt zMax zMin then Inr []
      else let zMin = (if slt zMin 0 then 0 else zMin);
               zMax = (if \<not> slt zMax (ov_depth t) then ov_depth t - 1 else zMax)
       in if slt (zMax - zMin + 1) 0 then Inl Panic
          else stats_levels t (map of_int (rev [sint zMin..sint zMax])))"

section \<open>Bits\<close>

definition bit_at :: "bytes \<Rightarrow> nat \<Rightarrow> bool" where
  "bit_at bs i = bit (bs ! (i div 8)) (i mod 8)"

lemma get_bit_at: "i < 8 * length bs \<Longrightarrow> get_bit bs i = Inr (bit_at bs i)"
  by (simp add: get_bit_def bit_at_def bit_iff_odd_drop_bit and_one_eq odd_iff_mod_2_eq_one
      less_mult_imp_div_less mult.commute)

lemma bit_at_update:
  assumes "i < 8 * length bs" and "j < 8 * length bs"
    and "\<And>n. n < 8 \<Longrightarrow> bit w n = (if n = i mod 8 then v else bit (bs ! (i div 8)) n)"
  shows "bit_at (bs[i div 8 := w]) j = (if j = i then v else bit_at bs j)"
proof (cases "j div 8 = i div 8")
  case True
  then have "j = i \<longleftrightarrow> j mod 8 = i mod 8"
    by (metis div_mult_mod_eq)
  moreover have "i div 8 < length bs" using assms(1) by (simp add: less_mult_imp_div_less mult.commute)
  ultimately show ?thesis using True assms(3) [of "j mod 8"] by (simp add: bit_at_def)
next
  case False
  then show ?thesis by (auto simp: bit_at_def)
qed

lemma set_bit_at:
  assumes "i < 8 * length bs"
  obtains bs' where "set_bit bs i = Inr bs'" and "length bs' = length bs"
    and "\<And>j. j < 8 * length bs \<Longrightarrow> bit_at bs' j = (j = i \<or> bit_at bs j)"
proof
  let ?bs = "bs[i div 8 := bs ! (i div 8) OR push_bit (i mod 8) 1]"
  show "set_bit bs i = Inr ?bs"
    using assms by (simp add: set_bit_def less_mult_imp_div_less mult.commute)
  show "bit_at ?bs j = (j = i \<or> bit_at bs j)" if "j < 8 * length bs" for j
    by (subst bit_at_update [OF assms that, where v = True])
      (auto simp: bit_simps)
qed simp

lemma clear_bit_at:
  assumes "i < 8 * length bs"
  obtains bs' where "clear_bit bs i = Inr bs'" and "length bs' = length bs"
    and "\<And>j. j < 8 * length bs \<Longrightarrow> bit_at bs' j = (j \<noteq> i \<and> bit_at bs j)"
proof
  let ?bs = "bs[i div 8 := bs ! (i div 8) AND NOT (push_bit (i mod 8) 1)]"
  show "clear_bit bs i = Inr ?bs"
    using assms by (simp add: clear_bit_def less_mult_imp_div_less mult.commute)
  show "bit_at ?bs j = (j \<noteq> i \<and> bit_at bs j)" if "j < 8 * length bs" for j
    by (subst bit_at_update [OF assms that, where v = False])
      (auto simp: bit_simps)
qed simp

section \<open>The abstraction\<close>

definition ov_size :: "TopologyOverlay \<Rightarrow> nat" where
  "ov_size t = unat (ov_width t) * unat (ov_height t) * unat (ov_depth t)"

definition state_of :: "bool \<Rightarrow> bool \<Rightarrow> OverlayState" where
  "state_of known open = (if \<not> known then StateUnknown else if open then StateOpen else StateClosed)"

definition ov_tiles :: "TopologyOverlay \<Rightarrow> OverlayState list" where
  "ov_tiles t = map (\<lambda>i. state_of (bit_at (ov_known t) i) (bit_at (ov_data t) i)) [0..<ov_size t]"

text \<open>
  The map is at most 32767 tiles wide, high and deep (the coordinates are \<open>int16\<close>), its tiles are
  counted in 32 bits, and the counts are exact.
\<close>

definition ov_wf :: "TopologyOverlay \<Rightarrow> bool" where
  "ov_wf t \<longleftrightarrow>
     unat (ov_width t) < 32768 \<and> unat (ov_height t) < 32768 \<and> unat (ov_depth t) < 32768 \<and>
     ov_size t + 7 < 2 ^ 32 \<and>
     length (ov_data t) = (ov_size t + 7) div 8 \<and> length (ov_known t) = (ov_size t + 7) div 8 \<and>
     ov_totalTiles t = of_nat (ov_size t) \<and>
     (\<forall>i<ov_size t. bit_at (ov_data t) i \<longrightarrow> bit_at (ov_known t) i) \<and>
     ov_openTileCount t = of_nat (count_list (ov_tiles t) StateOpen) \<and>
     ov_closedTileCount t = of_nat (count_list (ov_tiles t) StateClosed)"

definition tile_index :: "TopologyOverlay \<Rightarrow> i16 \<Rightarrow> i16 \<Rightarrow> i16 \<Rightarrow> nat" where
  "tile_index t x y z =
     (unat z * unat (ov_height t) + unat y) * unat (ov_width t) + unat x"

definition same_shape :: "TopologyOverlay \<Rightarrow> TopologyOverlay \<Rightarrow> bool" where
  "same_shape t t' \<longleftrightarrow> ov_width t' = ov_width t \<and> ov_height t' = ov_height t \<and>
     ov_depth t' = ov_depth t \<and> ov_totalTiles t' = ov_totalTiles t \<and> ov_memoryBytes t' = ov_memoryBytes t"

lemma length_ov_tiles [simp]: "length (ov_tiles t) = ov_size t"
  by (simp add: ov_tiles_def)

lemma ov_tiles_nth: "i < ov_size t \<Longrightarrow>
    ov_tiles t ! i = state_of (bit_at (ov_known t) i) (bit_at (ov_data t) i)"
  by (simp add: ov_tiles_def)

lemma ov_wf_lengths:
  assumes "ov_wf t" and "i < ov_size t"
  shows "i < 8 * length (ov_data t)" and "i < 8 * length (ov_known t)"
proof -
  have "ov_size t \<le> 8 * ((ov_size t + 7) div 8)" by presburger
  with assms show "i < 8 * length (ov_data t)" "i < 8 * length (ov_known t)"
    by (auto simp: ov_wf_def)
qed

lemma tile_state_at:
  assumes "ov_wf t" and "i < ov_size t"
  shows "tile_state t i = Inr (ov_tiles t ! i)"
  using ov_wf_lengths [OF assms]
  by (simp add: tile_state_def get_bit_at ov_tiles_nth [OF assms(2)] state_of_def)

text \<open>Signed coordinates that pass the bounds checks are small naturals.\<close>

lemma int_unat: "int (unat w) = uint w"
  by simp

lemma sint_small:
  assumes "unat (w :: i16) < 32768"
  shows "sint w = uint w"
proof -
  have "uint w < 32768" "- 32768 \<le> uint w"
    using assms int_unat [of w] unsigned_greater_eq [of w] by linarith+
  then show ?thesis by (simp add: sint_uint signed_take_bit_int_eq_self)
qed

lemma sint_nonneg:
  assumes "0 \<le> sint (w :: i16)"
  shows "unat w < 32768" and "sint w = uint w"
proof -
  have lt: "sint w < 32768"
    using sint_lt [of w] by simp
  then show u: "sint w = uint w"
    using assms by (simp add: uint_sint take_bit_int_eq_self)
  then show "unat w < 32768"
    using lt int_unat [of w] by linarith
qed

lemma slt_bound:
  assumes "\<not> slt x 0" and "slt x (w :: i16)" and "unat w < 32768"
  shows "unat x < unat w" and "(scast x :: u32) = ucast x"
proof -
  have s: "sint x = uint x" "sint w = uint w"
    using assms sint_nonneg [of x] sint_small [of w] by (simp_all add: slt_def)
  then show "unat x < unat w"
    using assms(2) by (metis slt_def word_less_def word_less_nat_alt)
  show "(scast x :: u32) = ucast x"
    by (metis s(1) scast_eq ucast_eq)
qed

lemma slt_small:
  assumes "unat x < 32768" and "unat (y :: i16) < 32768"
  shows "slt x y \<longleftrightarrow> unat x < unat y"
  by (metis assms sint_small slt_def word_less_def word_less_nat_alt)

lemma index_bound:
  fixes w h d x y z :: nat
  assumes "x < w" and "y < h" and "z < d"
  shows "(z * h + y) * w + x < w * h * d"
proof -
  have "z * h + y < h * d"
    using assms(2,3) by (metis Suc_leI add.commute add_less_cancel_left le_trans less_le_trans
        mult.commute mult_Suc mult_le_mono2 nat_add_left_cancel_less)
  then have "(z * h + y) * w + x < (h * d) * w"
    using assms(1) by (metis Suc_leI add.commute less_le_trans mult.commute mult_Suc mult_le_mono1
        nat_add_left_cancel_less)
  then show ?thesis by (simp add: ac_simps)
qed

lemma index_inj:
  fixes w h x y z x' y' z' :: nat
  assumes "x < w" "y < h" "x' < w" "y' < h" and "(z * h + y) * w + x = (z' * h + y') * w + x'"
  shows "x = x' \<and> y = y' \<and> z = z'"
proof -
  have "x = x'" and zy: "z * h + y = z' * h + y'"
    using assms(1,3,5) by (metis mod_mult_self3 mod_less add.commute,
        metis div_mult_self3 div_less add_0 add.commute less_nat_zero_code)
  moreover have "y = y'" and "z = z'"
    using assms(2,4) zy by (metis mod_mult_self3 mod_less add.commute,
        metis div_mult_self3 div_less add_0 add.commute less_nat_zero_code)
  ultimately show ?thesis by blast
qed

lemma bit_index_in_bounds:
  assumes "ov_wf t" and "in_bounds t x y z"
  shows "unat (bit_index t x y z) = tile_index t x y z" and "tile_index t x y z < ov_size t"
proof -
  have small: "unat (ov_width t) < 32768" "unat (ov_height t) < 32768" "unat (ov_depth t) < 32768"
    using assms(1) by (simp_all add: ov_wf_def)
  have xs: "unat x < unat (ov_width t)" "unat y < unat (ov_height t)" "unat z < unat (ov_depth t)"
    and casts: "(scast x :: u32) = ucast x" "(scast y :: u32) = ucast y" "(scast z :: u32) = ucast z"
    using assms(2) small by (auto simp: in_bounds_def intro: slt_bound)
  show lt: "tile_index t x y z < ov_size t"
    using index_bound [OF xs] by (simp add: tile_index_def ov_size_def)
  have "bit_index t x y z = of_nat (tile_index t x y z)"
    by (simp add: bit_index_def casts tile_index_def algebra_simps)
  then show "unat (bit_index t x y z) = tile_index t x y z"
    using lt assms(1) by (simp add: ov_wf_def unat_of_nat_fits)
qed

lemma tile_index_inj:
  assumes "ov_wf t" and "in_bounds t x y z" and "in_bounds t x' y' z'"
  shows "tile_index t x y z = tile_index t x' y' z' \<longleftrightarrow> x = x' \<and> y = y' \<and> z = z'"
proof
  have small: "unat (ov_width t) < 32768" "unat (ov_height t) < 32768"
    using assms(1) by (simp_all add: ov_wf_def)
  have "unat x < unat (ov_width t)" "unat y < unat (ov_height t)"
    "unat x' < unat (ov_width t)" "unat y' < unat (ov_height t)"
    using assms small by (auto simp: in_bounds_def intro: slt_bound)
  moreover assume "tile_index t x y z = tile_index t x' y' z'"
  ultimately show "x = x' \<and> y = y' \<and> z = z'"
    using index_inj [of "unat x" "unat (ov_width t)" "unat y" "unat (ov_height t)" "unat x'" "unat y'"
        "unat z" "unat z'"]
    by (auto simp: tile_index_def intro: unsigned_word_eqI)
qed simp

lemma GetTileState_at:
  assumes "ov_wf t"
  shows "GetTileState t x y z =
    Inr (if in_bounds t x y z then ov_tiles t ! tile_index t x y z else StateUnknown)"
  using bit_index_in_bounds [OF assms] tile_state_at [OF assms] by (simp add: GetTileState_def)

section \<open>The operations on the abstraction\<close>

lemma count_list_update:
  assumes "i < length xs"
  shows "(of_nat (count_list (xs[i := s]) c) :: 'a::len word) =
    of_nat (count_list xs c) - (if xs ! i = c then 1 else 0) + (if s = c then 1 else 0)"
  using assms
proof (induction xs arbitrary: i)
  case (Cons x xs)
  show ?case
  proof (cases i)
    case (Suc n)
    then show ?thesis using Cons.IH [of n] Cons.prems by (auto simp: algebra_simps)
  qed (auto simp: algebra_simps)
qed simp

text \<open>
  What the three cases of the switch do: the tile gets the state, its count goes up, the other
  tiles keep theirs.
\<close>

definition bump :: "OverlayState \<Rightarrow> OverlayState \<Rightarrow> u32" where
  "bump s c = (if s = c then 1 else 0)"

lemma set_tile_bits_abs:
  assumes "length (ov_data t) = (ov_size t + 7) div 8" "length (ov_known t) = (ov_size t + 7) div 8"
    and "\<forall>j<ov_size t. bit_at (ov_data t) j \<longrightarrow> bit_at (ov_known t) j" and "i < ov_size t"
  obtains t' where "set_tile_bits t i s = Inr t'" and "same_shape t t'"
    and "length (ov_data t') = (ov_size t + 7) div 8" and "length (ov_known t') = (ov_size t + 7) div 8"
    and "\<forall>j<ov_size t. bit_at (ov_data t') j \<longrightarrow> bit_at (ov_known t') j"
    and "ov_tiles t' = (ov_tiles t)[i := s]"
    and "ov_openTileCount t' = ov_openTileCount t + bump s StateOpen"
    and "ov_closedTileCount t' = ov_closedTileCount t + bump s StateClosed"
proof -
  have le: "ov_size t \<le> 8 * ((ov_size t + 7) div 8)" by presburger
  then have i: "i < 8 * length (ov_data t)" "i < 8 * length (ov_known t)"
    using assms by linarith+
  obtain k where k: "set_bit (ov_known t) i = Inr k" "length k = length (ov_known t)"
    and kb: "\<And>j. j < 8 * length (ov_known t) \<Longrightarrow> bit_at k j = (j = i \<or> bit_at (ov_known t) j)"
    using set_bit_at [OF i(2)] by blast
  obtain d where d: "set_bit (ov_data t) i = Inr d" "length d = length (ov_data t)"
    and db: "\<And>j. j < 8 * length (ov_data t) \<Longrightarrow> bit_at d j = (j = i \<or> bit_at (ov_data t) j)"
    using set_bit_at [OF i(1)] by blast
  obtain k0 where k0: "clear_bit (ov_known t) i = Inr k0" "length k0 = length (ov_known t)"
    and k0b: "\<And>j. j < 8 * length (ov_known t) \<Longrightarrow> bit_at k0 j = (j \<noteq> i \<and> bit_at (ov_known t) j)"
    using clear_bit_at [OF i(2)] by blast
  obtain d0 where d0: "clear_bit (ov_data t) i = Inr d0" "length d0 = length (ov_data t)"
    and d0b: "\<And>j. j < 8 * length (ov_data t) \<Longrightarrow> bit_at d0 j = (j \<noteq> i \<and> bit_at (ov_data t) j)"
    using clear_bit_at [OF i(1)] by blast
  have b: "j < 8 * length (ov_data t)" "j < 8 * length (ov_known t)" if "j < ov_size t" for j
    using that le assms(1,2) by linarith+
  show ?thesis
  proof (cases s)
    case StateUnknown
    show ?thesis
      by (rule that [of "t\<lparr>ov_known := k0, ov_data := d0\<rparr>"])
        (use StateUnknown k0 d0 b assms in \<open>auto simp: set_tile_bits_def same_shape_def bump_def
          ov_tiles_def k0b d0b state_of_def ov_size_def nth_list_update intro!: nth_equalityI\<close>)
  next
    case StateOpen
    show ?thesis
      by (rule that [of "t\<lparr>ov_known := k, ov_data := d, ov_openTileCount := ov_openTileCount t + 1\<rparr>"])
        (use StateOpen k d b assms in \<open>auto simp: set_tile_bits_def same_shape_def bump_def
          ov_tiles_def kb db state_of_def ov_size_def nth_list_update intro!: nth_equalityI\<close>)
  next
    case StateClosed
    show ?thesis
      by (rule that [of "t\<lparr>ov_known := k, ov_data := d0, ov_closedTileCount := ov_closedTileCount t + 1\<rparr>"])
        (use StateClosed k d0 b assms in \<open>auto simp: set_tile_bits_def same_shape_def bump_def
          ov_tiles_def kb d0b state_of_def ov_size_def nth_list_update intro!: nth_equalityI\<close>)
  qed
qed

lemma same_shape_index:
  "same_shape t t' \<Longrightarrow> ov_size t' = ov_size t" "same_shape t t' \<Longrightarrow> in_bounds t' = in_bounds t"
  "same_shape t t' \<Longrightarrow> tile_index t' = tile_index t"
  by (simp_all add: same_shape_def ov_size_def in_bounds_def tile_index_def fun_eq_iff)

lemma SetTileState_abs:
  assumes wf: "ov_wf t" and inb: "in_bounds t x y z"
  obtains t' where "SetTileState t x y z s = Inr t'" and "ov_wf t'" and "same_shape t t'"
    and "ov_tiles t' = (ov_tiles t)[tile_index t x y z := s]"
proof -
  define i where "i = tile_index t x y z"
  note index = bit_index_in_bounds [OF wf inb, folded i_def]
  define u where "u = t\<lparr>
    ov_openTileCount := ov_openTileCount t - bump (ov_tiles t ! i) StateOpen,
    ov_closedTileCount := ov_closedTileCount t - bump (ov_tiles t ! i) StateClosed\<rparr>"
  have same: "ov_size u = ov_size t" "ov_tiles u = ov_tiles t" "ov_data u = ov_data t"
    "ov_known u = ov_known t" "same_shape t u"
    by (simp_all add: u_def ov_size_def ov_tiles_def same_shape_def)
  obtain t' where t': "set_tile_bits u i s = Inr t'" "same_shape u t'"
    "length (ov_data t') = (ov_size u + 7) div 8" "length (ov_known t') = (ov_size u + 7) div 8"
    "\<forall>j<ov_size u. bit_at (ov_data t') j \<longrightarrow> bit_at (ov_known t') j"
    "ov_tiles t' = (ov_tiles u)[i := s]"
    "ov_openTileCount t' = ov_openTileCount u + bump s StateOpen"
    "ov_closedTileCount t' = ov_closedTileCount u + bump s StateClosed"
    by (rule set_tile_bits_abs [of u i s]) (use wf index in \<open>simp_all add: ov_wf_def same\<close>)
  have "SetTileState t x y z s = set_tile_bits u i s"
    using inb index ov_wf_lengths [OF wf index(2)] ov_tiles_nth [OF index(2)]
    by (auto simp: SetTileState_def Let_def get_bit_at u_def bump_def state_of_def)
  then have "SetTileState t x y z s = Inr t'" by (simp add: t'(1))
  moreover have shape: "same_shape t t'"
    using t'(2) same(5) by (simp add: same_shape_def)
  moreover have tiles: "ov_tiles t' = (ov_tiles t)[i := s]"
    by (simp add: t' same)
  moreover have "ov_wf t'"
  proof -
    have counts: "(of_nat (count_list (ov_tiles t') c) :: u32) =
        of_nat (count_list (ov_tiles t) c) - bump (ov_tiles t ! i) c + bump s c" for c
      using count_list_update [of i "ov_tiles t" s c] index(2) by (simp add: tiles bump_def)
    have "ov_openTileCount t' = of_nat (count_list (ov_tiles t') StateOpen)"
      and "ov_closedTileCount t' = of_nat (count_list (ov_tiles t') StateClosed)"
      using wf t'(7,8) by (simp_all add: counts u_def ov_wf_def)
    moreover have "ov_width t' = ov_width t" "ov_height t' = ov_height t" "ov_depth t' = ov_depth t"
      "ov_totalTiles t' = ov_totalTiles t"
      using shape by (simp_all add: same_shape_def)
    ultimately show ?thesis
      using wf t'(3-5) unfolding ov_wf_def same_shape_index(1) [OF shape] same(1) by simp
  qed
  ultimately show ?thesis by (intro that) (simp_all add: i_def)
qed

lemma SetTileState_read:
  assumes "ov_wf t" and "in_bounds t x y z"
  shows "\<exists>t'. SetTileState t x y z s = Inr t' \<and> ov_wf t' \<and> same_shape t t' \<and>
    (\<forall>x' y' z'. GetTileState t' x' y' z' =
       (if x' = x \<and> y' = y \<and> z' = z then Inr s else GetTileState t x' y' z'))"
proof -
  obtain t' where t': "SetTileState t x y z s = Inr t'" "ov_wf t'" "same_shape t t'"
    "ov_tiles t' = (ov_tiles t)[tile_index t x y z := s]"
    by (rule SetTileState_abs [OF assms])
  have "GetTileState t' x' y' z' =
       (if x' = x \<and> y' = y \<and> z' = z then Inr s else GetTileState t x' y' z')" for x' y' z'
    using tile_index_inj [OF assms(1) assms(2), of x' y' z'] bit_index_in_bounds [OF assms]
      bit_index_in_bounds [OF assms(1), of x' y' z'] assms(2)
    by (auto simp: GetTileState_at [OF assms(1)] GetTileState_at [OF t'(2)] t'(4)
        same_shape_index [OF t'(3)] nth_list_update)
  with t'(1-3) show ?thesis by blast
qed

text \<open>
  Writing a tile's state and reading the map: the written tile has the new state, every other
  tile, in bounds or not, the one it had, and the counts stay exact (the well-formedness).
\<close>

theorem set_get_tile:
  assumes "ov_wf t" and "in_bounds t x y z"
  shows "\<exists>t'. SetTileState t x y z s = Inr t' \<and> ov_wf t' \<and>
    (\<forall>x' y' z'. GetTileState t' x' y' z' =
       (if x' = x \<and> y' = y \<and> z' = z then Inr s else GetTileState t x' y' z'))"
  using SetTileState_read [OF assms, of s] by blast

lemma bytes_needed:
  assumes "n + 7 < 2 ^ 32"
  shows "unat ((of_nat n + 7) div 8 :: u32) = (n + 7) div 8"
proof -
  have "(of_nat n + 7 :: u32) = of_nat (n + 7)" by simp
  then show ?thesis using assms by (simp add: unat_div unat_of_nat_fits del: of_nat_add)
qed

text \<open>The overlay with every bit clear.\<close>

lemma blank_overlay:
  assumes "unat (ov_width t) < 32768" "unat (ov_height t) < 32768" "unat (ov_depth t) < 32768"
    and "ov_size t + 7 < 2 ^ 32" and "ov_totalTiles t = of_nat (ov_size t)"
    and "ov_data t = replicate ((ov_size t + 7) div 8) 0"
    and "ov_known t = replicate ((ov_size t + 7) div 8) 0"
    and "ov_openTileCount t = 0" "ov_closedTileCount t = 0"
  shows "ov_wf t" and "ov_tiles t = replicate (ov_size t) StateUnknown"
proof -
  have bits: "\<not> bit_at (replicate ((ov_size t + 7) div 8) 0) i" if "i < ov_size t" for i
  proof -
    have "ov_size t \<le> 8 * ((ov_size t + 7) div 8)" by presburger
    with that have "i div 8 < (ov_size t + 7) div 8"
      by (intro less_mult_imp_div_less) (simp add: mult.commute)
    from nth_replicate [OF this, of "0 :: u8"] show ?thesis
      unfolding bit_at_def by (simp only: bit_0_eq bot_apply) simp
  qed
  show tiles: "ov_tiles t = replicate (ov_size t) StateUnknown"
    by (rule nth_equalityI) (simp_all add: ov_tiles_nth assms(6,7) bits state_of_def)
  have "count_list (replicate k StateUnknown) c = (if c = StateUnknown then k else 0)" for k c
    by (induction k) auto
  then have "count_list (ov_tiles t) StateOpen = 0" "count_list (ov_tiles t) StateClosed = 0"
    by (simp_all add: tiles)
  moreover have "length (ov_data t) = (ov_size t + 7) div 8" "length (ov_known t) = (ov_size t + 7) div 8"
    unfolding assms(6,7) by (rule length_replicate)+
  moreover have "\<forall>i<ov_size t. \<not> bit_at (ov_data t) i"
    unfolding assms(6) using bits by blast
  ultimately show "ov_wf t"
    unfolding ov_wf_def using assms(1-5,8,9) by simp
qed

lemma NewTopologyOverlay_wf:
  assumes "NewTopologyOverlay w h d = Some t" and "unat w < 32768" "unat h < 32768" "unat d < 32768"
    and "unat w * unat h * unat d + 7 < 2 ^ 32"
  shows "ov_wf t \<and> ov_tiles t = replicate (ov_size t) StateUnknown \<and>
    ov_width t = w \<and> ov_height t = h \<and> ov_depth t = d"
proof -
  define n where "n = unat w * unat h * unat d"
  have total: "(ucast w * ucast h * ucast d :: u32) = of_nat n" by (simp add: n_def)
  have bytes: "unat ((of_nat n + 7) div 8 :: u32) = (n + 7) div 8"
    by (rule bytes_needed) (use assms(5) in \<open>simp add: n_def\<close>)
  have t: "ov_data t = replicate ((n + 7) div 8) 0 \<and> ov_known t = replicate ((n + 7) div 8) 0 \<and>
      ov_width t = w \<and> ov_height t = h \<and> ov_depth t = d \<and> ov_totalTiles t = of_nat n \<and>
      ov_openTileCount t = 0 \<and> ov_closedTileCount t = 0"
    using assms(1) unfolding NewTopologyOverlay_def Let_def total bytes by (auto split: if_splits)
  then have "ov_size t = n" by (simp add: ov_size_def n_def)
  then show ?thesis
    using blank_overlay [of t] t assms(2-5) by (simp add: n_def)
qed

definition small_map :: TopologyOverlay where
  "small_map = \<lparr>ov_data = [0, 0, 0], ov_known = [0, 0, 0], ov_width = 4, ov_height = 3, ov_depth = 2,
     ov_totalTiles = 24, ov_openTileCount = 0, ov_closedTileCount = 0, ov_memoryBytes = 6\<rparr>"

lemma small_map_new: "NewTopologyOverlay 4 3 2 = Some small_map"
  by code_simp

lemma small_map_wf: "ov_wf small_map"
  using NewTopologyOverlay_wf [OF small_map_new] by simp

theorem set_get_tile_witness:
  "\<exists>t'. SetTileState small_map 3 2 1 StateOpen = Inr t' \<and> ov_wf t' \<and>
    (\<forall>x' y' z'. GetTileState t' x' y' z' =
       (if x' = 3 \<and> y' = 2 \<and> z' = 1 then Inr StateOpen else GetTileState small_map x' y' z'))"
  by (rule set_get_tile [OF small_map_wf]) (simp add: in_bounds_def slt_def small_map_def)

section \<open>Counts and statistics\<close>

lemma count_list_sum:
  "count_list xs StateOpen + count_list xs StateClosed + count_list xs StateUnknown = length xs"
  by (induction xs) (auto, metis OverlayState.exhaust)

lemma counts_exact:
  assumes "ov_wf t"
  shows "unat (ov_openTileCount t) = count_list (ov_tiles t) StateOpen"
    and "unat (ov_closedTileCount t) = count_list (ov_tiles t) StateClosed"
    and "unat (ov_totalTiles t - ov_openTileCount t - ov_closedTileCount t) =
      count_list (ov_tiles t) StateUnknown"
proof -
  let ?n = "\<lambda>s. count_list (ov_tiles t) s"
  have sum: "?n StateOpen + ?n StateClosed + ?n StateUnknown = ov_size t"
    using count_list_sum [of "ov_tiles t"] by simp
  have "ov_size t < 2 ^ 32" using assms by (simp add: ov_wf_def)
  then have small: "?n s < 2 ^ 32" for s
    using count_le_length [of "ov_tiles t" s] by simp
  have "(of_nat (ov_size t) :: u32) = of_nat (?n StateOpen) + of_nat (?n StateClosed) + of_nat (?n StateUnknown)"
    unfolding sum [symmetric] by simp
  then have "ov_totalTiles t - ov_openTileCount t - ov_closedTileCount t = of_nat (?n StateUnknown)"
    using assms by (simp add: ov_wf_def)
  then show "unat (ov_openTileCount t) = ?n StateOpen" "unat (ov_closedTileCount t) = ?n StateClosed"
    "unat (ov_totalTiles t - ov_openTileCount t - ov_closedTileCount t) = ?n StateUnknown"
    using assms small by (simp_all add: ov_wf_def unat_of_nat_fits)
qed

text \<open>The tiles of one level.\<close>

definition level_tiles :: "TopologyOverlay \<Rightarrow> nat \<Rightarrow> OverlayState list" where
  "level_tiles t z = (let n = unat (ov_width t) * unat (ov_height t) in take n (drop (z * n) (ov_tiles t)))"

lemma stats_loop_counts:
  assumes "ov_wf t" and "\<forall>i\<in>set is. i < ov_size t"
  shows "stats_loop t is st = Inr (st\<lparr>
    zs_Open := zs_Open st + of_nat (count_list (map ((!) (ov_tiles t)) is) StateOpen),
    zs_Closed := zs_Closed st + of_nat (count_list (map ((!) (ov_tiles t)) is) StateClosed),
    zs_Unknown := zs_Unknown st + of_nat (count_list (map ((!) (ov_tiles t)) is) StateUnknown)\<rparr>)"
  using assms(2)
proof (induction "is" arbitrary: st)
  case (Cons i "is")
  then have i: "i < ov_size t" and rest: "\<forall>i\<in>set is. i < ov_size t" by simp_all
  show ?case
    using ov_wf_lengths [OF assms(1) i] ov_tiles_nth [OF i]
    by (simp add: get_bit_at Cons.IH [OF rest] state_of_def algebra_simps)
qed simp

lemma StatsForZ_level:
  assumes "ov_wf t" and "unat z < unat (ov_depth t)"
  shows "StatsForZ t z = Inr \<lparr>zs_Z = z,
    zs_Open = of_nat (count_list (level_tiles t (unat z)) StateOpen),
    zs_Closed = of_nat (count_list (level_tiles t (unat z)) StateClosed),
    zs_Unknown = of_nat (count_list (level_tiles t (unat z)) StateUnknown)\<rparr>"
proof -
  define n where "n = unat (ov_width t) * unat (ov_height t)"
  define k where "k = unat z"
  have d: "unat (ov_depth t) < 32768" and size: "ov_size t < 2 ^ 32"
    using assms(1) by (simp_all add: ov_wf_def)
  then have bound: "\<not> (slt z 0 \<or> \<not> slt z (ov_depth t))"
    using assms(2) slt_small [of z "ov_depth t"] sint_small [of z] by (simp add: slt_def)
  have cast: "(scast z :: u32) = of_nat k"
    using slt_bound(2) [of z "ov_depth t"] bound d by (simp add: k_def)
  have "(k + 1) * n \<le> unat (ov_depth t) * n"
    using assms(2) by (intro mult_le_mono1) (simp add: k_def)
  then have le: "k * n + n \<le> ov_size t"
    by (simp add: ov_size_def n_def algebra_simps)
  have n: "(ucast (ov_width t) * ucast (ov_height t) :: u32) = of_nat n"
    by (simp add: n_def)
  have "(of_nat k * of_nat n :: u32) = of_nat (k * n)"
    "(of_nat k * of_nat n + of_nat n :: u32) = of_nat (k * n + n)" by simp_all
  then have ends: "unat (of_nat k * of_nat n :: u32) = k * n"
    "unat (of_nat k * of_nat n + of_nat n :: u32) = k * n + n"
    using le size by (simp_all add: unat_of_nat_fits del: of_nat_mult of_nat_add)
  have level: "map ((!) (ov_tiles t)) [k * n..<k * n + n] = level_tiles t k"
    using le by (simp add: level_tiles_def Let_def n_def [symmetric] list_eq_iff_nth_eq)
  have "\<forall>i\<in>set [k * n..<k * n + n]. i < ov_size t"
    using le by simp
  from stats_loop_counts [OF assms(1) this, of "zero_ZStats z", unfolded level] show ?thesis
    using bound by (simp add: StatsForZ_def Let_def cast n ends zero_ZStats_def k_def [symmetric])
qed

lemma concat_slices:
  "concat (map (\<lambda>z. take n (drop (z * n) xs)) [0..<d]) = take (d * n) xs"
  by (induction d) (simp_all add: take_add add.commute [of n])

lemma levels_concat: "concat (map (level_tiles t) [0..<unat (ov_depth t)]) = ov_tiles t"
  using concat_slices [of "unat (ov_width t) * unat (ov_height t)" "ov_tiles t" "unat (ov_depth t)"]
  by (simp add: level_tiles_def [abs_def] Let_def ov_size_def mult.commute)

lemma count_list_concat:
  "count_list (concat xss) c = sum_list (map (\<lambda>xs. count_list xs c) xss)"
  by (induction xss) simp_all

lemma of_nat_sum_list_map:
  "(of_nat (\<Sum>z\<leftarrow>zs. f z) :: 'a::len word) = (\<Sum>z\<leftarrow>zs. of_nat (f z))"
  by (induction zs) simp_all

text \<open>
  The statistics agree with the counters and with the map: the per-level numbers of StatsForZ add
  up over the levels to what Counts reports, and these are the numbers of open, closed and unknown
  tiles.
\<close>

theorem level_stats_add_up:
  assumes "ov_wf t"
  shows "\<exists>ss. length ss = unat (ov_depth t) \<and>
    (\<forall>z < unat (ov_depth t). StatsForZ t (of_nat z) = Inr (ss ! z)) \<and>
    Counts t = (sum_list (map zs_Open ss), sum_list (map zs_Closed ss), sum_list (map zs_Unknown ss)) \<and>
    unat (ov_openTileCount t) = count_list (ov_tiles t) StateOpen \<and>
    unat (ov_closedTileCount t) = count_list (ov_tiles t) StateClosed"
proof -
  define st where "st z = \<lparr>zs_Z = of_nat z,
    zs_Open = of_nat (count_list (level_tiles t z) StateOpen),
    zs_Closed = of_nat (count_list (level_tiles t z) StateClosed),
    zs_Unknown = of_nat (count_list (level_tiles t z) StateUnknown)\<rparr>" for z
  let ?ss = "map st [0..<unat (ov_depth t)]"
  have d: "unat (ov_depth t) < 32768" using assms by (simp add: ov_wf_def)
  have "StatsForZ t (of_nat z) = Inr (st z)" if "z < unat (ov_depth t)" for z
    using StatsForZ_level [OF assms, of "of_nat z"] that d
    by (simp add: st_def unat_of_nat_fits)
  moreover have total: "(\<Sum>z\<leftarrow>[0..<unat (ov_depth t)]. of_nat (count_list (level_tiles t z) c)) =
      (of_nat (count_list (ov_tiles t) c) :: u32)" for c
    by (simp add: levels_concat [of t, symmetric] count_list_concat comp_def of_nat_sum_list_map)
  moreover have "ov_totalTiles t - ov_openTileCount t - ov_closedTileCount t =
      of_nat (count_list (ov_tiles t) StateUnknown)"
    using counts_exact(3) [OF assms] by (metis of_nat_unat ucast_id)
  ultimately show ?thesis
    using counts_exact [OF assms] assms
    by (intro exI [of _ ?ss]) (simp add: comp_def st_def Counts_def ov_wf_def)
qed

theorem level_stats_add_up_witness:
  "\<exists>ss. length ss = unat (ov_depth small_map) \<and>
    (\<forall>z < unat (ov_depth small_map). StatsForZ small_map (of_nat z) = Inr (ss ! z)) \<and>
    Counts small_map =
      (sum_list (map zs_Open ss), sum_list (map zs_Closed ss), sum_list (map zs_Unknown ss)) \<and>
    unat (ov_openTileCount small_map) = count_list (ov_tiles small_map) StateOpen \<and>
    unat (ov_closedTileCount small_map) = count_list (ov_tiles small_map) StateClosed"
  by (rule level_stats_add_up [OF small_map_wf])

text \<open>
  StatsForZRange reports the levels of the band that are on the map, topmost first; but a band
  that lies off the map by more than one level (its bottom above the top level plus one, or its top
  below level -1) panics: clamping moves only the end that is out, and the capacity goes negative.
\<close>

theorem StatsForZRange_band:
  assumes "ov_wf t" and "0 < unat (ov_depth t)" and "sint zMin \<le> sint zMax"
  defines "lo \<equiv> max 0 (sint zMin)" and "hi \<equiv> min (sint zMax) (uint (ov_depth t) - 1)"
  shows "StatsForZRange t zMin zMax =
    (if hi + 1 < lo then Inl Panic else stats_levels t (map of_int (rev [lo..hi])))"
proof -
  define D where "D = uint (ov_depth t)"
  have small: "unat (ov_depth t) < 32768" using assms(1) by (simp add: ov_wf_def)
  then have D: "0 < D" "D < 32768"
    unfolding D_def using assms(2) int_unat [of "ov_depth t"] by linarith+
  have sD: "sint (ov_depth t) = D"
    using sint_small [OF small] by (simp only: D_def)
  define zl where "zl = (if slt zMin 0 then 0 else zMin)"
  define zh where "zh = (if \<not> slt zMax (ov_depth t) then ov_depth t - 1 else zMax)"
  have ranges: "-32768 \<le> sint zMin" "sint zMin < 32768" "-32768 \<le> sint zMax" "sint zMax < 32768"
    using sint_ge [of zMin] sint_lt [of zMin] sint_ge [of zMax] sint_lt [of zMax] by simp_all
  have sbox: "sint (of_int k :: i16) = k" if "-32768 \<le> k" "k < 32768" for k
    using that by (simp add: signed_of_int signed_take_bit_int_eq_self)
  have "ov_depth t - 1 = of_int (D - 1)" by (simp add: D_def)
  then have "sint (ov_depth t - 1) = D - 1" using sbox [of "D - 1"] D by simp
  then have sh: "sint zh = hi" and sl: "sint zl = lo"
    using assms(3) by (auto simp: zh_def zl_def slt_def hi_def lo_def sD D_def [symmetric])
  have box: "-32768 \<le> hi - lo + 1" "hi - lo + 1 < 32768"
    using D ranges assms(3) by (auto simp: hi_def lo_def D_def [symmetric] min_def max_def)
  have "zh - zl + 1 = of_int (hi - lo + 1)"
    by (simp add: sh [symmetric] sl [symmetric])
  then have "slt (zh - zl + 1) 0 \<longleftrightarrow> hi + 1 < lo"
    using sbox [OF box] by (auto simp: slt_def)
  moreover have "\<not> slt zMax zMin" using assms(3) by (simp add: slt_def)
  ultimately show ?thesis
    by (simp add: StatsForZRange_def Let_def zl_def [symmetric] zh_def [symmetric] sh sl)
qed

theorem StatsForZRange_band_witness: "StatsForZRange small_map 4 9 = Inl Panic"
  using StatsForZRange_band [OF small_map_wf, of 4 9] by (simp add: small_map_def)

section \<open>Building the overlay from a full state\<close>

lemma clear_bit_same:
  assumes "i < 8 * length bs" and "\<not> bit_at bs i"
  shows "clear_bit bs i = Inr bs"
proof -
  have "bs ! (i div 8) AND NOT (push_bit (i mod 8) 1) = bs ! (i div 8)"
    by (rule bit_word_eqI) (use assms(2) in \<open>auto simp: bit_simps bit_at_def\<close>)
  then show ?thesis
    using assms(1) by (simp add: clear_bit_def less_mult_imp_div_less mult.commute)
qed

text \<open>On a tile not seen yet, a step of the build is a write of its state.\<close>

lemma build_tile_fresh:
  assumes "ov_wf t" and inb: "in_bounds t (ts_X tile) (ts_Y tile) (ts_Z tile)"
    and "GetTileState t (ts_X tile) (ts_Y tile) (ts_Z tile) = Inr StateUnknown"
  shows "build_tile t tile =
    SetTileState t (ts_X tile) (ts_Y tile) (ts_Z tile) (ClassifyState (ts_Flags tile))"
proof -
  define i where "i = tile_index t (ts_X tile) (ts_Y tile) (ts_Z tile)"
  note index = bit_index_in_bounds [OF assms(1) inb, folded i_def]
  have unknown: "\<not> bit_at (ov_known t) i"
    using assms(3) ov_tiles_nth [OF index(2)]
    by (auto simp: GetTileState_at [OF assms(1)] inb i_def [symmetric] state_of_def split: if_splits)
  moreover have "\<not> bit_at (ov_data t) i"
    using assms(1) index(2) unknown by (auto simp: ov_wf_def)
  ultimately show ?thesis
    using ov_wf_lengths [OF assms(1) index(2)] inb
    by (simp add: build_tile_def SetTileState_def index Let_def get_bit_at clear_bit_same
        set_tile_bits_def split: OverlayState.split)
qed

definition tile_pos :: "TileState \<Rightarrow> i16 \<times> i16 \<times> i16" where
  "tile_pos tile = (ts_X tile, ts_Y tile, ts_Z tile)"

lemma build_tiles_read:
  assumes "ov_wf t" and "\<forall>tile\<in>set tiles. in_bounds t (ts_X tile) (ts_Y tile) (ts_Z tile)"
    and "distinct (map tile_pos tiles)"
    and "\<forall>tile\<in>set tiles. GetTileState t (ts_X tile) (ts_Y tile) (ts_Z tile) = Inr StateUnknown"
  shows "\<exists>t'. build_tiles t tiles = Inr t' \<and> ov_wf t' \<and> same_shape t t' \<and>
    (\<forall>tile\<in>set tiles. GetTileState t' (ts_X tile) (ts_Y tile) (ts_Z tile) =
       Inr (ClassifyState (ts_Flags tile))) \<and>
    (\<forall>x y z. (x, y, z) \<notin> tile_pos ` set tiles \<longrightarrow> GetTileState t' x y z = GetTileState t x y z)"
  using assms
proof (induction tiles arbitrary: t)
  case Nil
  then show ?case by (simp add: same_shape_def)
next
  case (Cons tile tiles)
  let ?x = "ts_X tile" and ?y = "ts_Y tile" and ?z = "ts_Z tile"
  from SetTileState_read [of t ?x ?y ?z "ClassifyState (ts_Flags tile)"] Cons.prems
  obtain t1 where t1: "SetTileState t ?x ?y ?z (ClassifyState (ts_Flags tile)) = Inr t1" "ov_wf t1"
    "same_shape t t1"
    and read: "\<And>x' y' z'. GetTileState t1 x' y' z' = (if x' = ?x \<and> y' = ?y \<and> z' = ?z
        then Inr (ClassifyState (ts_Flags tile)) else GetTileState t x' y' z')"
    by (metis list.set_intros(1))
  have other: "\<not> (ts_X tl = ?x \<and> ts_Y tl = ?y \<and> ts_Z tl = ?z)" if "tl \<in> set tiles" for tl
    using Cons.prems(3) that by (force simp: tile_pos_def image_iff)
  have "\<exists>t'. build_tiles t1 tiles = Inr t' \<and> ov_wf t' \<and> same_shape t1 t' \<and>
    (\<forall>tile\<in>set tiles. GetTileState t' (ts_X tile) (ts_Y tile) (ts_Z tile) =
       Inr (ClassifyState (ts_Flags tile))) \<and>
    (\<forall>x y z. (x, y, z) \<notin> tile_pos ` set tiles \<longrightarrow> GetTileState t' x y z = GetTileState t1 x y z)"
    using Cons.prems other t1 by (intro Cons.IH) (auto simp: read same_shape_index)
  then obtain t' where t': "build_tiles t1 tiles = Inr t'" "ov_wf t'" "same_shape t1 t'"
    "\<forall>tile\<in>set tiles. GetTileState t' (ts_X tile) (ts_Y tile) (ts_Z tile) =
       Inr (ClassifyState (ts_Flags tile))"
    "\<forall>x y z. (x, y, z) \<notin> tile_pos ` set tiles \<longrightarrow> GetTileState t' x y z = GetTileState t1 x y z"
    by blast
  have "build_tile t tile = Inr t1"
    using Cons.prems t1(1) by (subst build_tile_fresh) auto
  moreover have "GetTileState t' ?x ?y ?z = Inr (ClassifyState (ts_Flags tile))"
    using t'(5) Cons.prems(3) read by (simp add: tile_pos_def image_iff)
  moreover have "GetTileState t' x y z = GetTileState t x y z"
    if "(x, y, z) \<notin> tile_pos ` set (tile # tiles)" for x y z
    using that t'(5) read by (auto simp: tile_pos_def)
  moreover have "same_shape t t'" using t1(3) t'(3) by (simp add: same_shape_def)
  ultimately show ?case using t' by auto
qed

lemma reset_overlay:
  assumes "ov_wf t"
  defines "b \<equiv> t\<lparr>ov_data := replicate (unat ((ov_totalTiles t + 7) div 8)) 0,
    ov_known := replicate (unat ((ov_totalTiles t + 7) div 8)) 0,
    ov_openTileCount := 0, ov_closedTileCount := 0\<rparr>"
  shows "ov_wf b" and "same_shape t b" and "GetTileState b x y z = Inr StateUnknown"
proof -
  have n: "unat ((ov_totalTiles t + 7) div 8) = (ov_size t + 7) div 8"
    using assms(1) bytes_needed [of "ov_size t"] by (simp add: ov_wf_def)
  have size: "ov_size b = ov_size t" by (simp add: b_def ov_size_def)
  show shape: "same_shape t b" by (simp add: b_def same_shape_def)
  have fields: "ov_data b = replicate ((ov_size t + 7) div 8) 0"
    "ov_known b = replicate ((ov_size t + 7) div 8) 0" "ov_width b = ov_width t"
    "ov_height b = ov_height t" "ov_depth b = ov_depth t" "ov_totalTiles b = ov_totalTiles t"
    "ov_openTileCount b = 0" "ov_closedTileCount b = 0"
    by (simp_all add: b_def n)
  show wf: "ov_wf b"
    by (rule blank_overlay(1)) (use assms(1) in \<open>simp_all add: fields size ov_wf_def\<close>)
  have "ov_tiles b = replicate (ov_size b) StateUnknown"
    by (rule blank_overlay(2)) (use assms(1) in \<open>simp_all add: fields size ov_wf_def\<close>)
  then show "GetTileState b x y z = Inr StateUnknown"
    using bit_index_in_bounds [OF wf, of x y z] by (simp add: GetTileState_at [OF wf])
qed

text \<open>
  Building the overlay from a full map state: when the tiles are as many as the map has, each
  within it and at its own place, the build succeeds, the counts are exact, and every tile reads
  back as the state its flags classify to, whatever the overlay held before.
\<close>

theorem build_from_tiles:
  assumes "ov_wf t" and "length tiles = ov_size t"
    and "\<forall>tile\<in>set tiles. in_bounds t (ts_X tile) (ts_Y tile) (ts_Z tile)"
    and "distinct (map tile_pos tiles)"
  shows "\<exists>t'. BuildFromTiles t tiles = Inr t' \<and> ov_wf t' \<and>
    (\<forall>tile\<in>set tiles. GetTileState t' (ts_X tile) (ts_Y tile) (ts_Z tile) =
       Inr (ClassifyState (ts_Flags tile)))"
proof -
  define b where "b = t\<lparr>ov_data := replicate (unat ((ov_totalTiles t + 7) div 8)) 0,
    ov_known := replicate (unat ((ov_totalTiles t + 7) div 8)) 0,
    ov_openTileCount := 0, ov_closedTileCount := 0\<rparr>"
  note b = reset_overlay [OF assms(1), folded b_def]
  have "BuildFromTiles t tiles = build_tiles b tiles"
    using assms(1,2) by (simp add: BuildFromTiles_def b_def Let_def ov_wf_def)
  then show ?thesis
    using build_tiles_read [OF b(1) _ assms(4)] assms(3) b(3) same_shape_index(2) [OF b(2)] by auto
qed

definition column_map :: TopologyOverlay where
  "column_map = \<lparr>ov_data = [2], ov_known = [2], ov_width = 1, ov_height = 1, ov_depth = 2,
     ov_totalTiles = 2, ov_openTileCount = 1, ov_closedTileCount = 0, ov_memoryBytes = 2\<rparr>"

lemma column_map_wf: "ov_wf column_map"
proof -
  have "ov_tiles column_map = [StateUnknown, StateOpen]" by code_simp
  moreover have "bit_at (ov_data column_map) i = bit_at (ov_known column_map) i" for i
    by (simp add: column_map_def)
  ultimately show ?thesis by (simp add: ov_wf_def) (simp add: column_map_def ov_size_def)
qed

theorem build_from_tiles_witness:
  "\<exists>t'. BuildFromTiles column_map
      [\<lparr>ts_X = 0, ts_Y = 0, ts_Z = 1, ts_TileType = 1, ts_Flags = FlagWall\<rparr>,
       \<lparr>ts_X = 0, ts_Y = 0, ts_Z = 0, ts_TileType = 2, ts_Flags = FlagFloor\<rparr>] = Inr t' \<and> ov_wf t' \<and>
    GetTileState t' 0 0 1 = Inr StateClosed \<and> GetTileState t' 0 0 0 = Inr StateOpen"
proof -
  have "ClassifyState FlagWall = StateClosed" "ClassifyState FlagFloor = StateOpen"
    by (simp_all add: ClassifyState_def flag_defs)
  then show ?thesis
    using build_from_tiles [OF column_map_wf, of
      "[\<lparr>ts_X = 0, ts_Y = 0, ts_Z = 1, ts_TileType = 1, ts_Flags = FlagWall\<rparr>,
        \<lparr>ts_X = 0, ts_Y = 0, ts_Z = 0, ts_TileType = 2, ts_Flags = FlagFloor\<rparr>]"]
    by (simp add: tile_pos_def in_bounds_def slt_def column_map_def ov_size_def)
qed

end
