(* ===== verification/Compression.thy ===== *)
theory Compression
  imports Overlay
begin

text \<open>
  Run-length compression of the overlay (\<open>internal/topology/compression.go\<close>): the varint, the
  run-length encoder, \<open>Compress\<close> with its modes, \<open>Decompress\<close> and \<open>Validate\<close>. The build time and the
  floating-point ratio are left out of the result. The main theorem is the round trip, with the
  bound on the run length it really needs.
\<close>

datatype topo_error =
    InvalidMode
  | NotImplemented
  | DataTooShort
  | RunCount go_error
  | RunByte go_error
  | DecompressOverflow
  | SizeMismatch
  | ByteMismatch nat
  | TopoPanic

record CompressionConfig =
  cc_Mode :: string
  cc_CenterZ :: u16
  cc_ZRadius :: u16

record CompressedTopology =
  ct_Data :: bytes
  ct_OriginalWidth :: u16
  ct_OriginalHeight :: u16
  ct_OriginalDepth :: u16
  ct_CompressedSize :: u32
  ct_UncompressedSize :: u32
  ct_Mode :: string
  ct_ZLevelsIncluded :: "u16 list"

section \<open>Varints\<close>

definition writeVarint :: "u32 \<Rightarrow> bytes" where
  "writeVarint count =
     (if count < 128 then [ucast count]
      else if count < 16384 then [ucast (drop_bit 7 count OR 0x80), ucast (count AND 0x7F)]
      else [ucast (drop_bit 14 count OR 0x80), ucast (drop_bit 7 count OR 0x80),
            ucast (count AND 0x7F)])"

definition readVarint :: "u32 reader" where
  "readVarint =
     pbind get_u8 (\<lambda>b1.
     if b1 AND 0x80 = 0 then preturn (ucast b1)
     else pbind get_u8 (\<lambda>b2.
     if b2 AND 0x80 = 0 then preturn (push_bit 7 (ucast (b1 AND 0x7F)) OR ucast b2)
     else pbind get_u8 (\<lambda>b3.
       preturn (push_bit 14 (ucast (b1 AND 0x7F)) OR push_bit 7 (ucast (b2 AND 0x7F)) OR ucast b3))))"

section \<open>Run-length encoding\<close>

fun rle_loop :: "u8 \<Rightarrow> u32 \<Rightarrow> bytes \<Rightarrow> bytes" where
  "rle_loop currentByte runCount [] = writeVarint runCount @ [currentByte]"
| "rle_loop currentByte runCount (b # bs) =
     (if b = currentByte \<and> runCount < 16777215 then rle_loop currentByte (runCount + 1) bs
      else writeVarint runCount @ [currentByte] @ rle_loop b 1 bs)"

definition rleCompress :: "bytes \<Rightarrow> bytes" where
  "rleCompress data = (case data of [] \<Rightarrow> [] | b # bs \<Rightarrow> rle_loop b 1 bs)"

section \<open>Compress\<close>

text \<open>\<open>t.data[startByte:endByte]\<close> for each level; a slice beyond the data panics.\<close>

fun extract_levels :: "bytes \<Rightarrow> u32 \<Rightarrow> u16 list \<Rightarrow> topo_error + bytes" where
  "extract_levels data bytesPerLevel [] = Inr []"
| "extract_levels data bytesPerLevel (z # zs) =
     (let startByte = ucast z * bytesPerLevel; endByte = startByte + bytesPerLevel in
      case go_slice data (unat startByte) (unat endByte) of
        Inl e \<Rightarrow> Inl TopoPanic
      | Inr level \<Rightarrow>
          bindr (extract_levels data bytesPerLevel zs) (\<lambda>rest. Inr (level @ rest)))"

definition extractZLevels :: "TopologyOverlay \<Rightarrow> u16 list \<Rightarrow> topo_error + bytes" where
  "extractZLevels t zLevels =
     extract_levels (ov_data t) ((ucast (ov_width t) * ucast (ov_height t) + 7) div 8) zLevels"

text \<open>
  The levels of a band: computed in \<open>int32\<close>, where nothing wraps; \<open>make\<close> panics when the capacity
  \<open>zMax-zMin+1\<close> is negative.
\<close>

definition active_levels :: "TopologyOverlay \<Rightarrow> CompressionConfig \<Rightarrow> topo_error + u16 list" where
  "active_levels t config =
     (let zMin = uint (cc_CenterZ config) - uint (cc_ZRadius config);
          zMax = uint (cc_CenterZ config) + uint (cc_ZRadius config);
          zMin = (if zMin < 0 then 0 else zMin);
          zMax = (if zMax \<ge> uint (ov_depth t) then uint (ov_depth t) - 1 else zMax)
      in if zMax - zMin + 1 < 0 then Inl TopoPanic else Inr (map of_int [zMin..zMax]))"

definition compress_data :: "TopologyOverlay \<Rightarrow> CompressionConfig \<Rightarrow> topo_error + u16 list \<times> bytes" where
  "compress_data t config =
     (if cc_Mode config = ''full'' then Inr (map of_nat [0..<unat (ov_depth t)], ov_data t)
      else if cc_Mode config = ''active_z_levels'' then
        bindr (active_levels t config) (\<lambda>zLevels.
        bindr (extractZLevels t zLevels) (\<lambda>data. Inr (zLevels, data)))
      else Inl NotImplemented)"

definition Compress :: "TopologyOverlay \<Rightarrow> CompressionConfig \<Rightarrow> topo_error + CompressedTopology" where
  "Compress t config =
     (if cc_Mode config \<notin> {''full'', ''active_z_levels'', ''custom_bounds''} then Inl InvalidMode
      else bindr (compress_data t config) (\<lambda>(zLevels, dataToCompress).
        let modeByte = (if cc_Mode config = ''full'' then 0
                        else if cc_Mode config = ''active_z_levels'' then 1 else 2);
            rle = rleCompress dataToCompress;
            zList = (if cc_Mode config \<noteq> ''full'' then put_list put_u16 zLevels else []);
            header = put_u16 (ov_width t) @ put_u16 (ov_height t) @ put_u16 (ov_depth t) @
              put_u8 modeByte @ put_u8 (of_nat (length zLevels)) @ put_u32 (of_nat (length rle));
            out = header @ zList @ rle
        in Inr \<lparr>ct_Data = out, ct_OriginalWidth = ov_width t, ct_OriginalHeight = ov_height t,
             ct_OriginalDepth = ov_depth t, ct_CompressedSize = of_nat (length out),
             ct_UncompressedSize = of_nat (length dataToCompress), ct_Mode = cc_Mode config,
             ct_ZLevelsIncluded = zLevels\<rparr>))"

section \<open>Decompress and Validate\<close>

text \<open>The loop that expands a run into the output of \<open>size\<close> bytes.\<close>

fun expand_run :: "nat \<Rightarrow> nat \<Rightarrow> u8 \<Rightarrow> bytes \<Rightarrow> topo_error + bytes" where
  "expand_run cap 0 val out = Inr out"
| "expand_run cap (Suc n) val out =
     (if length out \<ge> cap then Inl DecompressOverflow else expand_run cap n val (out @ [val]))"

lemma get_u8_Inr: "get_u8 bs = Inr (b, rest) \<longleftrightarrow> bs = b # rest"
  by (cases bs) (auto simp: get_u8_Cons)

lemma readVarint_shorter:
  "readVarint bs = Inr (count, rest) \<Longrightarrow> length rest < length bs"
  by (auto simp: readVarint_def pbind_eq_Inr get_u8_Inr split: if_splits)

function decompress_loop :: "nat \<Rightarrow> bytes \<Rightarrow> bytes \<Rightarrow> topo_error + bytes" where
  "decompress_loop cap reader out =
     (if reader = [] then Inr out
      else case readVarint reader of
        Inl e \<Rightarrow> Inl (RunCount e)
      | Inr (count, reader') \<Rightarrow>
          (case reader' of
             [] \<Rightarrow> Inl (RunByte EOF)
           | val # reader'' \<Rightarrow>
               (case expand_run cap (unat count) val out of
                  Inl e \<Rightarrow> Inl e
                | Inr out \<Rightarrow> decompress_loop cap reader'' out)))"
  by pat_completeness auto
termination
  by (relation "measure (\<lambda>(cap, reader, out). length reader)")
    (auto dest!: readVarint_shorter)

declare decompress_loop.simps [simp del]

definition Decompress :: "CompressedTopology \<Rightarrow> topo_error + bytes" where
  "Decompress c =
     (if length (ct_Data c) < 12 then Inl DataTooShort
      else let bytesNeeded =
             (ucast (ct_OriginalWidth c) * ucast (ct_OriginalHeight c) * ucast (ct_OriginalDepth c) + 7)
             div 8 :: u32
       in bindr (decompress_loop (unat bytesNeeded) (drop 12 (ct_Data c)) []) (\<lambda>output.
          if length output \<noteq> unat bytesNeeded then Inl SizeMismatch else Inr output))"

fun first_difference :: "nat \<Rightarrow> bytes \<Rightarrow> bytes \<Rightarrow> topo_error + unit" where
  "first_difference i (x # xs) (y # ys) =
     (if x \<noteq> y then Inl (ByteMismatch i) else first_difference (i + 1) xs ys)"
| "first_difference i xs ys = Inr ()"

definition ValidateCompressed :: "CompressedTopology \<Rightarrow> TopologyOverlay \<Rightarrow> topo_error + unit" where
  "ValidateCompressed c original =
     bindr (Decompress c) (\<lambda>decompressed.
     if length decompressed \<noteq> length (ov_data original) then Inl SizeMismatch
     else first_difference 0 decompressed (ov_data original))"

section \<open>The varint keeps 21 bits\<close>

lemma byte_high_bit: "ucast (x OR 0x80 :: u32) AND (0x80 :: u8) \<noteq> 0"
proof -
  have "bit (ucast (x OR 0x80 :: u32) AND (0x80 :: u8)) 7"
    by (simp add: bit_simps)
  then show ?thesis by (metis bit_0_eq bot_apply bot_bool_def)
qed

lemma byte_low: "ucast (ucast (x OR 0x80 :: u32) AND (0x7F :: u8)) = take_bit 7 x"
  by (rule bit_word_eqI) (auto simp: bit_simps less_Suc_eq numeral_eq_Suc)

lemma take_bit_less:
  assumes "unat (n :: u32) < 2 ^ k"
  shows "take_bit k n = n"
proof -
  have "unat (take_bit k n) = unat n"
    using assms by (simp add: unsigned_take_bit_eq take_bit_nat_eq_self)
  then show ?thesis by (rule unsigned_word_eqI)
qed

lemma and_low7: "(n :: u32) AND 0x7F = take_bit 7 n"
  by (rule bit_word_eqI) (auto simp: bit_simps less_Suc_eq numeral_eq_Suc)

lemma low7: "ucast (n AND 0x7F :: u32) AND (0x80 :: u8) = 0" "ucast (ucast (n AND 0x7F :: u32) :: u8) = take_bit 7 n"
  by (rule bit_word_eqI; auto simp: bit_simps less_Suc_eq numeral_eq_Suc)+

lemma split_bits: "push_bit j (take_bit i (drop_bit j n)) OR take_bit j n = take_bit (i + j) (n :: u32)"
  by (rule bit_word_eqI) (auto simp: bit_simps)

lemma readVarint_writeVarint: "readVarint (writeVarint n @ rest) = Inr (take_bit 21 n, rest)"
proof -
  consider "n < 128" | "\<not> n < 128" "n < 16384" | "\<not> n < 128" "\<not> n < 16384" by blast
  then show ?thesis
  proof cases
    case 1
    then have n: "unat n < 128" by (simp add: word_less_nat_alt)
    have small: "take_bit 7 n = n" "take_bit 21 n = n"
      by (rule take_bit_less; use n in simp)+
    have "n AND 0x7F = n" by (simp add: and_low7 small)
    then have "(ucast n :: u8) AND 0x80 = 0" "ucast (ucast n :: u8) = n"
      using low7 [of n] small by simp_all
    then show ?thesis
      using 1 small by (simp add: writeVarint_def readVarint_def pbind_def get_u8_Cons)
  next
    case 2
    then have n: "unat n < 16384" by (simp add: word_less_nat_alt)
    have "take_bit 21 n = n" "take_bit 14 n = n"
      by (rule take_bit_less; use n in simp)+
    then show ?thesis
      using 2 split_bits [of 7 7 n]
      by (simp add: writeVarint_def readVarint_def pbind_def get_u8_Cons byte_high_bit byte_low low7)
  next
    case 3
    then show ?thesis
      using split_bits [of 7 7 n] split_bits [of 14 7 n]
      by (simp add: writeVarint_def readVarint_def pbind_def get_u8_Cons byte_high_bit byte_low low7
          or.assoc)
  qed
qed

section \<open>Runs\<close>

lemma unat_add_fits: "unat (n :: u32) + 1 < 2 ^ 32 \<Longrightarrow> unat (n + 1) = unat n + 1"
  by (simp add: unat_word_ariths)

lemma expand_run_fits:
  "length out + n \<le> cap \<Longrightarrow> expand_run cap n v out = Inr (out @ replicate n v)"
  by (induction n arbitrary: out) simp_all

lemma decompress_run:
  assumes "length out + unat (take_bit 21 n) \<le> cap"
  shows "decompress_loop cap (writeVarint n @ v # rest) out =
    decompress_loop cap rest (out @ replicate (unat (take_bit 21 n)) v)"
proof -
  have "writeVarint n \<noteq> []" by (simp add: writeVarint_def)
  then show ?thesis
    by (subst decompress_loop.simps)
      (simp add: readVarint_writeVarint [of n "v # rest", simplified] expand_run_fits [OF assms])
qed

lemma decompress_done [simp]: "decompress_loop cap [] out = Inr out"
  by (subst decompress_loop.simps) simp

text \<open>Runs shorter than \<open>2^21\<close> come back, wherever the encoder splits them.\<close>

lemma decompress_rle:
  "unat n + length bs < 2 ^ 21 \<Longrightarrow> length out + unat n + length bs \<le> cap \<Longrightarrow>
     decompress_loop cap (rle_loop cur n bs) out = Inr (out @ replicate (unat n) cur @ bs)"
proof (induction bs arbitrary: cur n out)
  case Nil
  then have "take_bit 21 n = n" by (intro take_bit_less) simp
  then show ?case using Nil decompress_run [of out n cap cur "[]"] by simp
next
  case (Cons b bs)
  have n: "take_bit 21 n = n" using Cons.prems by (intro take_bit_less) simp
  show ?case
  proof (cases "b = cur \<and> n < 16777215")
    case True
    have "unat (n + 1) = unat n + 1"
      using Cons.prems(1) by (intro unat_add_fits) simp
    then show ?thesis
      using True Cons.IH [of "n + 1" out cur] Cons.prems by (simp add: replicate_append_same)
  next
    case False
    have "decompress_loop cap (rle_loop b 1 bs) (out @ replicate (unat n) cur) =
        Inr ((out @ replicate (unat n) cur) @ replicate (unat (1 :: u32)) b @ bs)"
      using Cons.prems by (intro Cons.IH) simp_all
    moreover have "rle_loop cur n (b # bs) = writeVarint n @ cur # rle_loop b 1 bs"
      using False by auto
    ultimately show ?thesis
      using n Cons.prems decompress_run [of out n cap cur "rle_loop b 1 bs"] by simp
  qed
qed

lemma decompress_rleCompress:
  "length data < 2 ^ 21 \<Longrightarrow> length data \<le> cap \<Longrightarrow>
     decompress_loop cap (rleCompress data) [] = Inr data"
  using decompress_rle [of 1 "tl data" "[]" cap "hd data"] by (cases data) (simp_all add: rleCompress_def)

lemma rle_replicate:
  "unat n + k \<le> 16777215 \<Longrightarrow>
     rle_loop v n (replicate k v) = writeVarint (n + of_nat k) @ [v]"
proof (induction k arbitrary: n)
  case (Suc k)
  have "unat (n + 1) = unat n + 1" using Suc.prems by (intro unat_add_fits) simp
  moreover have "n < 16777215" using Suc.prems by (simp add: word_less_nat_alt)
  ultimately show ?case using Suc by (simp add: add.assoc)
qed simp

lemma overlay_bytes:
  assumes "ov_wf t"
  shows "unat ((ucast (ov_width t) * ucast (ov_height t) * ucast (ov_depth t) + 7) div 8 :: u32)
    = length (ov_data t)"
proof -
  have "(ucast (ov_width t) * ucast (ov_height t) * ucast (ov_depth t) :: u32) = of_nat (ov_size t)"
    by (simp add: ov_size_def)
  then show ?thesis using assms bytes_needed [of "ov_size t"] by (simp add: ov_wf_def)
qed

lemma first_difference_same: "first_difference i xs xs = Inr ()"
  by (induction xs arbitrary: i) simp_all

lemma Compress_full:
  assumes "cc_Mode config = ''full''"
  obtains c where "Compress t config = Inr c" and "drop 12 (ct_Data c) = rleCompress (ov_data t)"
    and "12 \<le> length (ct_Data c)" and "ct_OriginalWidth c = ov_width t"
    and "ct_OriginalHeight c = ov_height t" and "ct_OriginalDepth c = ov_depth t"
  using assms by (simp add: Compress_def compress_data_def Let_def)

text \<open>
  C26: Compression in full mode loses nothing on maps up to 16 million tiles: when the open bits fill
  less than 2^21 bytes, Decompress of the compressed overlay returns them and Validate accepts it.
\<close>

theorem full_compression_roundtrip:
  assumes "ov_wf t" and "cc_Mode config = ''full''" and "length (ov_data t) < 2 ^ 21"
  shows "\<exists>c. Compress t config = Inr c \<and> Decompress c = Inr (ov_data t) \<and>
    ValidateCompressed c t = Inr ()"
proof -
  obtain c where c: "Compress t config = Inr c" "drop 12 (ct_Data c) = rleCompress (ov_data t)"
    "12 \<le> length (ct_Data c)" "ct_OriginalWidth c = ov_width t" "ct_OriginalHeight c = ov_height t"
    "ct_OriginalDepth c = ov_depth t"
    using Compress_full [OF assms(2)] by blast
  have "Decompress c = Inr (ov_data t)"
    using c assms(3) overlay_bytes [OF assms(1)] decompress_rleCompress [of "ov_data t"]
    by (simp add: Decompress_def Let_def)
  with c(1) show ?thesis by (simp add: ValidateCompressed_def first_difference_same)
qed

theorem full_compression_roundtrip_witness:
  "\<exists>c. Compress column_map \<lparr>cc_Mode = ''full'', cc_CenterZ = 0, cc_ZRadius = 0\<rparr> = Inr c \<and>
    Decompress c = Inr [2] \<and> ValidateCompressed c column_map = Inr ()"
  using full_compression_roundtrip [OF column_map_wf,
      of "\<lparr>cc_Mode = ''full'', cc_CenterZ = 0, cc_ZRadius = 0\<rparr>"]
  by (simp add: column_map_def)

text \<open>
  On larger maps it does not: the encoder allows runs of up to 16777215 bytes as "max 3-byte
  varint", but a three-byte varint holds 21 bits. A map whose open bits are one run of 2^21 to
  16777215 equal bytes (an unexplored map, say) is compressed without an error into data that
  Decompress rejects.
\<close>

theorem long_run_not_restored:
  assumes "ov_wf t" and "cc_Mode config = ''full''"
    and "ov_data t = replicate n v" and "2 ^ 21 \<le> n" and "n \<le> 16777215"
  shows "\<exists>c. Compress t config = Inr c \<and> Decompress c = Inl SizeMismatch"
proof -
  obtain c where c: "Compress t config = Inr c" "drop 12 (ct_Data c) = rleCompress (ov_data t)"
    "12 \<le> length (ct_Data c)" "ct_OriginalWidth c = ov_width t" "ct_OriginalHeight c = ov_height t"
    "ct_OriginalDepth c = ov_depth t"
    using Compress_full [OF assms(2)] by blast
  have cap: "unat ((ucast (ov_width t) * ucast (ov_height t) * ucast (ov_depth t) + 7) div 8 :: u32) = n"
    using overlay_bytes [OF assms(1)] assms(3) by simp
  obtain k where k: "n = Suc k" using assms(4) by (cases n) auto
  have un: "unat (of_nat n :: u32) = n" using assms(5) by (intro unat_of_nat_fits) simp
  have "rleCompress (ov_data t) = writeVarint (of_nat n) @ [v]"
    using rle_replicate [of 1 k v] assms(5) by (simp add: assms(3) k rleCompress_def)
  moreover have "unat (take_bit 21 w) = take_bit 21 (unat w)" for w :: u32
    by (rule unsigned_take_bit_eq)
  then have kept: "unat (take_bit 21 (of_nat n :: u32)) = n mod 2 ^ 21"
    by (simp only: un take_bit_eq_mod [where 'a = nat])
  moreover have lt: "n mod 2 ^ 21 < n"
    using assms(4) by (meson mod_less_divisor order_less_le_trans zero_less_numeral zero_less_power)
  ultimately have "decompress_loop n (rleCompress (ov_data t)) [] = Inr (replicate (n mod 2 ^ 21) v)"
    using decompress_run [of "[]" "of_nat n" n v "[]"] by simp
  then have "Decompress c = Inl SizeMismatch"
    using c cap lt by (simp add: Decompress_def Let_def)
  with c(1) show ?thesis by blast
qed

definition big_map :: TopologyOverlay where
  "big_map = \<lparr>ov_data = replicate 2097152 0, ov_known = replicate 2097152 0, ov_width = 512,
     ov_height = 512, ov_depth = 64, ov_totalTiles = 16777216, ov_openTileCount = 0,
     ov_closedTileCount = 0, ov_memoryBytes = 4194304\<rparr>"

lemma big_map_wf: "ov_wf big_map"
proof -
  have "ov_size big_map = 16777216" by (simp add: ov_size_def big_map_def)
  then show ?thesis by (intro blank_overlay(1)) (simp_all add: big_map_def)
qed

theorem long_run_not_restored_witness:
  "\<exists>c. Compress big_map \<lparr>cc_Mode = ''full'', cc_CenterZ = 0, cc_ZRadius = 0\<rparr> = Inr c \<and>
    Decompress c = Inl SizeMismatch"
  by (rule long_run_not_restored [OF big_map_wf, where n = 2097152 and v = 0])
    (simp_all add: big_map_def)

section \<open>Bands of levels\<close>

text \<open>
  A band centred more than its radius above the map makes Compress panic: only the upper end is
  clamped, and the list of levels is allocated with a negative capacity.
\<close>

theorem band_above_map_panics:
  assumes "cc_Mode config = ''active_z_levels''"
    and "uint (ov_depth t) + uint (cc_ZRadius config) < uint (cc_CenterZ config)"
  shows "Compress t config = Inl TopoPanic"
proof -
  define d r c where "d = uint (ov_depth t)" and "r = uint (cc_ZRadius config)"
    and "c = uint (cc_CenterZ config)"
  have "0 \<le> d" "0 \<le> r" "d + r < c" using assms(2) by (simp_all add: d_def r_def c_def)
  then have "active_levels t config = Inl TopoPanic"
    unfolding active_levels_def Let_def d_def [symmetric] r_def [symmetric] c_def [symmetric] by simp
  then show ?thesis using assms(1) by (simp add: Compress_def compress_data_def)
qed

theorem band_above_map_panics_witness:
  "Compress column_map \<lparr>cc_Mode = ''active_z_levels'', cc_CenterZ = 9, cc_ZRadius = 5\<rparr> = Inl TopoPanic"
  by (rule band_above_map_panics) (simp_all add: column_map_def)

lemma extract_levels_slices:
  assumes "\<forall>z\<in>set zs. (unat z + 1) * n \<le> length data" and "length data < 2 ^ 32"
  shows "extract_levels data (of_nat n) zs =
    Inr (concat (map (\<lambda>z. take n (drop (unat z * n) data)) zs))"
  using assms
proof (induction zs)
  case (Cons z zs)
  have le: "unat z * n + n \<le> length data" using Cons.prems(1) by (simp add: algebra_simps)
  then have lt: "unat z * n < 2 ^ 32" "unat z * n + n < 2 ^ 32" using Cons.prems(2) by simp_all
  have "(ucast z * of_nat n :: u32) = of_nat (unat z * n)"
    "(ucast z * of_nat n + of_nat n :: u32) = of_nat (unat z * n + n)" by simp_all
  then have "unat (ucast z * of_nat n :: u32) = unat z * n"
    "unat (ucast z * of_nat n + of_nat n :: u32) = unat z * n + n"
    using lt by (simp_all add: unat_of_nat_fits del: of_nat_mult of_nat_add)
  then show ?case using Cons le by (simp add: Let_def go_slice_def)
qed simp

lemma length_concat_slices:
  "\<forall>x\<in>set xss. length x = n \<Longrightarrow> length (concat xss) = n * length xss"
  by (induction xss) simp_all

lemma concat_slices_nth:
  "\<forall>x\<in>set xss. length x = n \<Longrightarrow> k < length xss \<Longrightarrow> j < n \<Longrightarrow>
     concat xss ! (n * k + j) = xss ! k ! j"
proof (induction xss arbitrary: k)
  case (Cons x xss)
  then show ?case by (cases k) (simp_all add: nth_append)
qed simp

text \<open>
  Where a level fills whole bytes (width times height divisible by 8, as on the game's own maps),
  the extracted bytes of a band are its levels' open bits: bit i of the k-th extracted level is the
  open bit of tile i of that level.
\<close>

theorem band_extraction:
  assumes "ov_wf t" and "unat (ov_width t) * unat (ov_height t) = 8 * n"
    and "\<forall>z\<in>set zs. unat z < unat (ov_depth t)"
  shows "\<exists>data. extractZLevels t zs = Inr data \<and> length data = n * length zs \<and>
    (\<forall>k < length zs. \<forall>i < 8 * n.
       bit_at data (8 * n * k + i) = bit_at (ov_data t) (unat (zs ! k) * (8 * n) + i))"
proof -
  have size: "ov_size t = 8 * n * unat (ov_depth t)" using assms(2) by (simp add: ov_size_def)
  then have len: "length (ov_data t) = n * unat (ov_depth t)" and small: "ov_size t + 7 < 2 ^ 32"
    using assms(1) by (simp_all add: ov_wf_def)
  have le: "(unat z + 1) * n \<le> length (ov_data t)" if "z \<in> set zs" for z
    unfolding len mult.commute [of n]
    using assms(3) that by (intro mult_le_mono1) (simp add: Suc_le_eq)
  have "unat (ov_width t) * unat (ov_height t) < 32768 * 32768"
    using assms(1) by (intro mult_strict_mono') (simp_all add: ov_wf_def)
  then have "8 * n + 7 < 2 ^ 32" using assms(2) by simp
  from bytes_needed [OF this] have "unat ((of_nat (8 * n) + 7) div 8 :: u32) = n" by simp
  moreover have "(ucast (ov_width t) * ucast (ov_height t) :: u32) = of_nat (8 * n)"
    unfolding assms(2) [symmetric] by simp
  ultimately have bpl: "((ucast (ov_width t) * ucast (ov_height t) + 7) div 8 :: u32) = of_nat n"
    by (metis of_nat_unat ucast_id)
  let ?levels = "map (\<lambda>z. take n (drop (unat z * n) (ov_data t))) zs"
  have "extractZLevels t zs = Inr (concat ?levels)"
    unfolding extractZLevels_def bpl
    by (rule extract_levels_slices) (use le small size len in \<open>auto\<close>)
  moreover have width: "\<forall>l\<in>set ?levels. length l = n"
    using le by (fastforce simp: algebra_simps)
  then have "length (concat ?levels) = n * length zs"
    using length_concat_slices [of ?levels n] by simp
  moreover have "bit_at (concat ?levels) (8 * n * k + i) =
      bit_at (ov_data t) (unat (zs ! k) * (8 * n) + i)" if k: "k < length zs" and i: "i < 8 * n" for k i
  proof -
    have d: "(8 * n * k + i) div 8 = n * k + i div 8" "(8 * n * k + i) mod 8 = i mod 8"
      "(unat (zs ! k) * (8 * n) + i) div 8 = unat (zs ! k) * n + i div 8"
      "(unat (zs ! k) * (8 * n) + i) mod 8 = i mod 8"
      by (simp_all add: mult.assoc mult.left_commute [of _ 8])
    have j: "i div 8 < n" using i by (simp add: less_mult_imp_div_less mult.commute)
    then have "concat ?levels ! (n * k + i div 8) = ?levels ! k ! (i div 8)"
      using concat_slices_nth [OF width] k by simp
    also have "\<dots> = ov_data t ! (unat (zs ! k) * n + i div 8)"
      using j k le [of "zs ! k"] by simp
    finally show ?thesis unfolding bit_at_def d by simp
  qed
  ultimately show ?thesis by blast
qed

theorem band_extraction_witness:
  "\<exists>data. extractZLevels big_map [3, 5] = Inr data \<and> length data = 32768 * 2"
  using band_extraction [OF big_map_wf, of 32768 "[3, 5]"] by (auto simp: big_map_def)

end
