(* ===== verification/Go_Heap.thy ===== *)
theory Go_Heap
  imports Go_Base "HOL-Library.Multiset"
begin

text \<open>
  Go's \<open>container/heap\<close>, as \<open>internal/planning\<close> uses it: an array in heap order of the elements'
  priorities, the greatest first, with \<open>heap.Push\<close> and \<open>heap.Pop\<close> written out as the library's sift
  loops. The locale \<open>priority_queue\<close> is the contract the task queue relies on; the heap is proved to
  keep it.
\<close>

section \<open>The library's loops\<close>

definition swap :: "'a list \<Rightarrow> nat \<Rightarrow> nat \<Rightarrow> 'a list" where
  "swap xs i j = xs[i := xs ! j, j := xs ! i]"

text \<open>\<open>up\<close>: the parent of 0 is 0 (the division truncates), which ends the loop.\<close>

function heap_up :: "('a \<Rightarrow> int) \<Rightarrow> 'a list \<Rightarrow> nat \<Rightarrow> 'a list" where
  "heap_up prio xs j =
     (let i = (j - 1) div 2 in
      if i = j \<or> \<not> prio (xs ! j) > prio (xs ! i) then xs
      else heap_up prio (swap xs i j) i)"
  by pat_completeness auto
termination
  by (relation "measure (\<lambda>(prio, xs, j). j)") auto

text \<open>\<open>down\<close> on the first \<open>n\<close> elements.\<close>

definition best_child :: "('a \<Rightarrow> int) \<Rightarrow> 'a list \<Rightarrow> nat \<Rightarrow> nat \<Rightarrow> nat" where
  "best_child prio xs i n =
     (let j1 = 2 * i + 1; j2 = j1 + 1
      in if j2 < n \<and> prio (xs ! j2) > prio (xs ! j1) then j2 else j1)"

function heap_down :: "('a \<Rightarrow> int) \<Rightarrow> 'a list \<Rightarrow> nat \<Rightarrow> nat \<Rightarrow> 'a list" where
  "heap_down prio xs i n =
     (if 2 * i + 1 \<ge> n then xs
      else let j = best_child prio xs i n in
       if \<not> prio (xs ! j) > prio (xs ! i) then xs
       else heap_down prio (swap xs i j) j n)"
  by pat_completeness auto
termination
  by (relation "measure (\<lambda>(prio, xs, i, n). n - i)") (auto simp: best_child_def Let_def)

declare heap_up.simps [simp del] heap_down.simps [simp del]

definition heap_push :: "('a \<Rightarrow> int) \<Rightarrow> 'a \<Rightarrow> 'a list \<Rightarrow> 'a list" where
  "heap_push prio x xs = (let xs = xs @ [x] in heap_up prio xs (length xs - 1))"

definition heap_pop :: "('a \<Rightarrow> int) \<Rightarrow> 'a list \<Rightarrow> 'a \<times> 'a list" where
  "heap_pop prio xs =
     (let n = length xs - 1; xs = heap_down prio (swap xs 0 n) 0 n
      in (xs ! n, take n xs))"

section \<open>The contract of a priority queue\<close>

locale priority_queue =
  fixes push :: "'a \<Rightarrow> 'q \<Rightarrow> 'q"
    and pop :: "'q \<Rightarrow> 'a \<times> 'q"
    and empty :: 'q
    and elems :: "'q \<Rightarrow> 'a multiset"
    and inv :: "'q \<Rightarrow> bool"
    and prio :: "'a \<Rightarrow> int"
  assumes empty_inv: "inv empty"
    and empty_elems: "elems empty = {#}"
    and push_inv: "inv q \<Longrightarrow> inv (push x q)"
    and push_elems: "inv q \<Longrightarrow> elems (push x q) = add_mset x (elems q)"
    and pop_inv: "inv q \<Longrightarrow> elems q \<noteq> {#} \<Longrightarrow> inv (snd (pop q))"
    and pop_elems: "inv q \<Longrightarrow> elems q \<noteq> {#} \<Longrightarrow> elems q = add_mset (fst (pop q)) (elems (snd (pop q)))"
    and pop_greatest: "inv q \<Longrightarrow> elems q \<noteq> {#} \<Longrightarrow> y \<in># elems q \<Longrightarrow> prio y \<le> prio (fst (pop q))"
begin

text \<open>Taking everything out gives the elements in descending priority.\<close>

fun pop_all :: "nat \<Rightarrow> 'q \<Rightarrow> 'a list" where
  "pop_all 0 q = []"
| "pop_all (Suc n) q = fst (pop q) # pop_all n (snd (pop q))"

lemma drain_sorted:
  "inv q \<Longrightarrow> size (elems q) = n \<Longrightarrow>
     mset (pop_all n q) = elems q \<and> sorted_wrt (\<lambda>a b. prio b \<le> prio a) (pop_all n q)"
proof (induction n arbitrary: q)
  case (Suc n)
  then have ne: "elems q \<noteq> {#}" by auto
  note e = pop_elems [OF Suc.prems(1) ne]
  have n: "size (elems (snd (pop q))) = n"
    using Suc.prems(2) e by (metis size_add_mset Suc_inject)
  note IH = Suc.IH [OF pop_inv [OF Suc.prems(1) ne] n]
  moreover have "\<forall>y\<in>set (pop_all n (snd (pop q))). prio y \<le> prio (fst (pop q))"
  proof
    fix y assume "y \<in> set (pop_all n (snd (pop q)))"
    then have "y \<in># elems (snd (pop q))" using IH by (metis set_mset_mset)
    then show "prio y \<le> prio (fst (pop q))"
      using pop_greatest [OF Suc.prems(1) ne, of y] e by (metis insert_iff set_mset_add_mset_insert)
  qed
  ultimately show ?case using e by simp
qed simp

end

section \<open>The heap keeps the contract\<close>

definition parent :: "nat \<Rightarrow> nat" where
  "parent j = (j - 1) div 2"

definition is_heap :: "('a \<Rightarrow> int) \<Rightarrow> 'a list \<Rightarrow> bool" where
  "is_heap prio xs \<longleftrightarrow> (\<forall>j<length xs. 0 < j \<longrightarrow> prio (xs ! j) \<le> prio (xs ! parent j))"

lemma parent_less: "0 < j \<Longrightarrow> parent j < j"
  by (auto simp: parent_def)

lemma heap_root:
  assumes "is_heap prio xs" and "j < length xs"
  shows "prio (xs ! j) \<le> prio (xs ! 0)"
  using assms(2)
proof (induction j rule: less_induct)
  case (less j)
  show ?case
  proof (cases "j = 0")
    case False
    then have "prio (xs ! j) \<le> prio (xs ! parent j)"
      using assms(1) less.prems by (simp add: is_heap_def)
    also have "\<dots> \<le> prio (xs ! 0)"
      using False less.prems parent_less [of j] by (intro less.IH) auto
    finally show ?thesis .
  qed simp
qed

lemma length_swap [simp]: "length (swap xs i j) = length xs"
  by (simp add: swap_def)

lemma mset_swap_heap: "i < length xs \<Longrightarrow> j < length xs \<Longrightarrow> mset (swap xs i j) = mset xs"
  by (simp add: swap_def mset_swap)

lemma nth_swap: "i < length xs \<Longrightarrow> j < length xs \<Longrightarrow> k < length xs \<Longrightarrow>
    swap xs i j ! k = (if k = j then xs ! i else if k = i then xs ! j else xs ! k)"
  by (auto simp: swap_def nth_list_update)

text \<open>Heap order except between \<open>j\<close> and its parent; the parent bounds the children of \<open>j\<close>.\<close>

definition heap_except_up :: "('a \<Rightarrow> int) \<Rightarrow> 'a list \<Rightarrow> nat \<Rightarrow> bool" where
  "heap_except_up prio xs j \<longleftrightarrow>
     (\<forall>k<length xs. 0 < k \<and> k \<noteq> j \<longrightarrow> prio (xs ! k) \<le> prio (xs ! parent k)) \<and>
     (\<forall>k<length xs. 0 < k \<and> parent k = j \<and> 0 < j \<longrightarrow> prio (xs ! k) \<le> prio (xs ! parent j))"

lemma heap_up_correct:
  "j < length xs \<Longrightarrow> heap_except_up prio xs j \<Longrightarrow>
     is_heap prio (heap_up prio xs j) \<and> mset (heap_up prio xs j) = mset xs"
proof (induction prio xs j rule: heap_up.induct)
  case (1 prio xs j)
  let ?i = "parent j"
  show ?case
  proof (cases "?i = j \<or> \<not> prio (xs ! j) > prio (xs ! ?i)")
    case True
    then have "heap_up prio xs j = xs" by (subst heap_up.simps) (simp add: parent_def Let_def)
    moreover have "j = 0 \<or> prio (xs ! j) \<le> prio (xs ! ?i)"
      using True parent_less [of j] by (cases "j = 0") auto
    ultimately show ?thesis
      using 1(3) by (auto simp: is_heap_def heap_except_up_def)
  next
    case False
    then have j: "0 < j" by (auto simp: parent_def)
    then have i: "?i < length xs" using 1(2) parent_less [of j] by simp
    have step: "heap_up prio xs j = heap_up prio (swap xs ?i j) ?i"
      using False by (subst heap_up.simps) (simp add: parent_def Let_def)
    have "heap_except_up prio (swap xs ?i j) ?i"
      unfolding heap_except_up_def length_swap
    proof (intro conjI allI impI)
      fix k assume k: "k < length xs" "0 < k \<and> k \<noteq> ?i"
      have p: "parent k < length xs" using k parent_less [of k] by simp
      show "prio (swap xs ?i j ! k) \<le> prio (swap xs ?i j ! parent k)"
        using k p False 1(3) i 1(2) j unfolding heap_except_up_def
        by (auto simp: nth_swap)
    next
      fix k assume k: "k < length xs" "0 < k \<and> parent k = ?i \<and> 0 < ?i"
      then have "parent ?i < ?i" "parent ?i < length xs" using i parent_less [of ?i] by simp_all
      moreover have "prio (xs ! ?i) \<le> prio (xs ! parent ?i)"
        using k i j 1(3) parent_less [of j] unfolding heap_except_up_def by auto
      moreover have "prio (xs ! k) \<le> prio (xs ! ?i)" if "k \<noteq> j"
        using k that 1(3) unfolding heap_except_up_def by auto
      moreover have "k \<noteq> ?i" "?i < j" using k parent_less [of k] parent_less [OF j] by auto
      ultimately show "prio (swap xs ?i j ! k) \<le> prio (swap xs ?i j ! parent ?i)"
        using k i 1(2) by (cases "k = j") (auto simp: nth_swap)
    qed
    then have "is_heap prio (heap_up prio (swap xs ?i j) ?i) \<and>
        mset (heap_up prio (swap xs ?i j) ?i) = mset (swap xs ?i j)"
      using 1(1) [of ?i] False i by (simp add: parent_def)
    then show ?thesis by (simp add: step mset_swap_heap i 1(2))
  qed
qed

text \<open>Heap order on the first \<open>n\<close> elements except between \<open>i\<close> and its children.\<close>

definition heap_except_down :: "('a \<Rightarrow> int) \<Rightarrow> 'a list \<Rightarrow> nat \<Rightarrow> nat \<Rightarrow> bool" where
  "heap_except_down prio xs i n \<longleftrightarrow>
     (\<forall>k<n. 0 < k \<and> parent k \<noteq> i \<longrightarrow> prio (xs ! k) \<le> prio (xs ! parent k)) \<and>
     (\<forall>k<n. 0 < k \<and> parent k = i \<and> 0 < i \<longrightarrow> prio (xs ! k) \<le> prio (xs ! parent i))"

definition heap_prefix :: "('a \<Rightarrow> int) \<Rightarrow> 'a list \<Rightarrow> nat \<Rightarrow> bool" where
  "heap_prefix prio xs n \<longleftrightarrow> (\<forall>k<n. 0 < k \<longrightarrow> prio (xs ! k) \<le> prio (xs ! parent k))"

lemma parent_eq_iff: "0 < k \<Longrightarrow> parent k = i \<longleftrightarrow> k = 2 * i + 1 \<or> k = 2 * i + 2"
  by (auto simp: parent_def)

lemma best_child_cases: "best_child prio xs i n = 2 * i + 1 \<or> best_child prio xs i n = 2 * i + 2"
  by (simp add: best_child_def Let_def)

lemma best_child_greatest:
  assumes "k < n" and "k = 2 * i + 1 \<or> k = 2 * i + 2"
  shows "prio (xs ! k) \<le> prio (xs ! best_child prio xs i n)"
  using assms by (elim disjE) (simp_all add: best_child_def Let_def)

lemma best_child:
  assumes "2 * i + 1 < n"
  shows "best_child prio xs i n < n" and "0 < best_child prio xs i n"
    and "parent (best_child prio xs i n) = i" and "i < best_child prio xs i n"
    and "k < n \<Longrightarrow> 0 < k \<Longrightarrow> parent k = i \<Longrightarrow> prio (xs ! k) \<le> prio (xs ! best_child prio xs i n)"
proof -
  show "best_child prio xs i n < n" using assms by (simp add: best_child_def Let_def)
  show pos: "0 < best_child prio xs i n" and "i < best_child prio xs i n"
    using best_child_cases [of prio xs i n] by linarith+
  show "parent (best_child prio xs i n) = i"
    using best_child_cases [of prio xs i n] parent_eq_iff [OF pos, of i] by blast
  show "prio (xs ! k) \<le> prio (xs ! best_child prio xs i n)" if "k < n" "0 < k" "parent k = i"
    using that parent_eq_iff [of k i] by (intro best_child_greatest) simp_all
qed

lemma heap_down_correct:
  "i < n \<or> n = 0 \<Longrightarrow> n \<le> length xs \<Longrightarrow> heap_except_down prio xs i n \<Longrightarrow>
     heap_prefix prio (heap_down prio xs i n) n \<and> mset (heap_down prio xs i n) = mset xs \<and>
     length (heap_down prio xs i n) = length xs \<and>
     (\<forall>k. n \<le> k \<and> k < length xs \<longrightarrow> heap_down prio xs i n ! k = xs ! k)"
proof (induction prio xs i n rule: heap_down.induct)
  case (1 prio xs i n)
  show ?case
  proof (cases "2 * i + 1 \<ge> n")
    case True
    then have "parent k \<noteq> i" if "k < n" "0 < k" for k
      using that parent_eq_iff [of k i] by auto
    then show ?thesis
      using True 1(4) by (subst (1 2 3 4) heap_down.simps) (auto simp: heap_prefix_def heap_except_down_def)
  next
    case False
    let ?j = "best_child prio xs i n"
    from False have lt: "2 * i + 1 < n" by simp
    note j = best_child [OF lt, where prio = prio and xs = xs]
    have ij: "i < length xs" "?j < length xs" using j(1,4) 1(3) by simp_all
    show ?thesis
    proof (cases "prio (xs ! ?j) > prio (xs ! i)")
      case le: False
      then have "heap_down prio xs i n = xs"
        using False by (subst heap_down.simps) (simp add: Let_def)
      moreover have "heap_prefix prio xs n"
        unfolding heap_prefix_def
      proof (intro allI impI)
        fix k assume k: "k < n" "0 < k"
        show "prio (xs ! k) \<le> prio (xs ! parent k)"
          using k le j(5) [of k] 1(4) unfolding heap_except_down_def by (cases "parent k = i") auto
      qed
      ultimately show ?thesis by simp
    next
      case gt: True
      let ?ys = "swap xs i ?j"
      have step: "heap_down prio xs i n = heap_down prio ?ys ?j n"
        using False gt by (subst heap_down.simps) (simp add: Let_def)
      have at: "?ys ! k = (if k = ?j then xs ! i else if k = i then xs ! ?j else xs ! k)"
        if "k < length xs" for k using nth_swap [OF ij that] .
      have "heap_except_down prio ?ys ?j n"
        unfolding heap_except_down_def
      proof (intro conjI allI impI)
        fix k assume k: "k < n" "0 < k \<and> parent k \<noteq> ?j"
        then have len: "k < length xs" "parent k < length xs"
          using 1(3) parent_less [of k] by simp_all
        consider "k = ?j" | "k \<noteq> ?j" "parent k = i" | "k = i" | "k \<noteq> ?j" "k \<noteq> i" "parent k \<noteq> i" by blast
        then show "prio (?ys ! k) \<le> prio (?ys ! parent k)"
        proof cases
          case 1
          then show ?thesis using gt j(3,4) len by (simp add: at)
        next
          case 2
          then have "k \<noteq> i" using k parent_less [of k] by auto
          then show ?thesis using 2 k j(4) j(5) [of k] len by (simp add: at)
        next
          case 3
          then have "parent k \<noteq> i" "parent k \<noteq> ?j" "k \<noteq> ?j" using k j(4) parent_less [of k] by auto
          then show ?thesis
            using 3 k 1(4) j(1,2,3) len unfolding heap_except_down_def by (simp add: at)
        next
          case 4
          then show ?thesis
            using k 1(4) len unfolding heap_except_down_def by (simp add: at)
        qed
      next
        fix k assume k: "k < n" "0 < k \<and> parent k = ?j \<and> 0 < ?j"
        then have "?j < k" using parent_less [of k] by auto
        then have "k \<noteq> i" "k \<noteq> ?j" "parent k \<noteq> i" using k j(4) by auto
        moreover from this(3) have "prio (xs ! k) \<le> prio (xs ! parent k)"
          using k 1(4) unfolding heap_except_down_def by blast
        moreover have "k < length xs" using k 1(3) by simp
        ultimately show "prio (?ys ! k) \<le> prio (?ys ! parent ?j)"
          using k ij j(3,4) by (simp add: at)
      qed
      then have IH: "heap_prefix prio (heap_down prio ?ys ?j n) n \<and>
          mset (heap_down prio ?ys ?j n) = mset ?ys \<and> length (heap_down prio ?ys ?j n) = length ?ys \<and>
          (\<forall>k. n \<le> k \<and> k < length ?ys \<longrightarrow> heap_down prio ?ys ?j n ! k = ?ys ! k)"
        using False gt j(1) 1(3) by (intro 1(1)) simp_all
      have "?ys ! k = xs ! k" if "n \<le> k" "k < length xs" for k
        using that j(1,4) by (simp add: at)
      with IH show ?thesis by (simp add: step mset_swap_heap ij)
    qed
  qed
qed

lemma heap_push_correct:
  assumes "is_heap prio xs"
  shows "is_heap prio (heap_push prio x xs)" and "mset (heap_push prio x xs) = add_mset x (mset xs)"
proof -
  have "heap_except_up prio (xs @ [x]) (length xs)"
    unfolding heap_except_up_def
  proof (intro conjI allI impI)
    fix k assume k: "k < length (xs @ [x])" "0 < k \<and> k \<noteq> length xs"
    then have "k < length xs" "parent k < length xs" using parent_less [of k] by auto
    then show "prio ((xs @ [x]) ! k) \<le> prio ((xs @ [x]) ! parent k)"
      using assms k by (simp add: is_heap_def nth_append)
  next
    fix k assume k: "k < length (xs @ [x])" "0 < k \<and> parent k = length xs \<and> 0 < length xs"
    then show "prio ((xs @ [x]) ! k) \<le> prio ((xs @ [x]) ! parent (length xs))"
      using parent_less [of k] by auto
  qed
  then show "is_heap prio (heap_push prio x xs)" "mset (heap_push prio x xs) = add_mset x (mset xs)"
    using heap_up_correct [of "length xs" "xs @ [x]" prio] by (simp_all add: heap_push_def Let_def)
qed

lemma heap_pop_correct:
  assumes "is_heap prio xs" and "xs \<noteq> []"
  shows "fst (heap_pop prio xs) = xs ! 0" and "is_heap prio (snd (heap_pop prio xs))"
    and "mset xs = add_mset (fst (heap_pop prio xs)) (mset (snd (heap_pop prio xs)))"
proof -
  define n where "n = length xs - 1"
  let ?ys = "swap xs 0 n"
  define zs where "zs = heap_down prio ?ys 0 n"
  have n: "n < length xs" "0 < length xs" "length xs = Suc n" using assms(2) by (simp_all add: n_def)
  have at: "?ys ! k = (if k = n then xs ! 0 else if k = 0 then xs ! n else xs ! k)" if "k < length xs" for k
    using nth_swap [OF n(2,1) that] .
  have "heap_except_down prio ?ys 0 n"
    unfolding heap_except_down_def
  proof (intro conjI allI impI)
    fix k assume k: "k < n" "0 < k \<and> parent k \<noteq> 0"
    then have p: "parent k < n" using parent_less [of k] by simp
    then have len: "k < length xs" "parent k < length xs" using k(1) n(3) by simp_all
    then have "?ys ! k = xs ! k" "?ys ! parent k = xs ! parent k"
      using at [OF len(1)] at [OF len(2)] k p by simp_all
    then show "prio (?ys ! k) \<le> prio (?ys ! parent k)"
      using assms(1) k(2) len(1) by (simp add: is_heap_def)
  qed simp
  then have zs: "heap_prefix prio zs n" "mset zs = mset xs" "length zs = length xs" "zs ! n = xs ! 0"
    using heap_down_correct [of 0 n ?ys prio] n by (auto simp: zs_def mset_swap_heap at)
  have pop: "heap_pop prio xs = (zs ! n, take n zs)"
    by (simp add: heap_pop_def Let_def zs_def n_def)
  show "fst (heap_pop prio xs) = xs ! 0" by (simp add: pop zs)
  show "is_heap prio (snd (heap_pop prio xs))"
    unfolding is_heap_def pop snd_conv
  proof (intro allI impI)
    fix k assume k: "k < length (take n zs)" "0 < k"
    then have "k < n" "parent k < n" using parent_less [of k] by simp_all
    then show "prio (take n zs ! k) \<le> prio (take n zs ! parent k)"
      using zs(1) k(2) by (simp add: heap_prefix_def)
  qed
  have "zs = take n zs @ [zs ! n]"
    using zs(3) n by (metis take_Suc_conv_app_nth take_all order_refl lessI)
  then have "mset zs = add_mset (zs ! n) (mset (take n zs))"
    by (metis mset_append mset.simps add_mset_add_single)
  then show "mset xs = add_mset (fst (heap_pop prio xs)) (mset (snd (heap_pop prio xs)))"
    by (simp add: pop zs(2))
qed

interpretation go_heap: priority_queue "heap_push prio" "heap_pop prio" "[]" mset "is_heap prio" prio
  for prio :: "'a \<Rightarrow> int"
proof
  fix q :: "'a list" and x y
  show "is_heap prio []" by (simp add: is_heap_def)
  show "is_heap prio q \<Longrightarrow> is_heap prio (heap_push prio x q)" by (rule heap_push_correct)
  show "is_heap prio q \<Longrightarrow> mset (heap_push prio x q) = add_mset x (mset q)"
    by (rule heap_push_correct)
  show "is_heap prio (snd (heap_pop prio q))" if "is_heap prio q" "mset q \<noteq> {#}"
    using that by (intro heap_pop_correct) auto
  show "mset q = add_mset (fst (heap_pop prio q)) (mset (snd (heap_pop prio q)))"
    if "is_heap prio q" "mset q \<noteq> {#}"
    using that by (intro heap_pop_correct) auto
  show "prio y \<le> prio (fst (heap_pop prio q))" if "is_heap prio q" "mset q \<noteq> {#}" "y \<in># mset q"
    using that heap_pop_correct(1) [of prio q] heap_root [of prio q]
    by (auto simp: in_set_conv_nth)
qed simp

end
