(* ===== verification/Task_Queue.thy ===== *)
theory Task_Queue
  imports Go_Heap
begin

text \<open>
  The task queue of the planner (\<open>internal/planning/task_queue.go\<close>): two priority heaps of waiting and
  ready tasks, and the tasks executing, completed and failed by id. The queue only carries a task's commands and metadata:
  their types are the parameters \<open>'c\<close> and \<open>'m\<close>. Clock readings are arguments. A task is a value of the
  model: the caller hands each \<open>*Task\<close> to \<open>AddTask\<close> once and does not write it afterwards. The proofs
  use the heap through the contract \<open>priority_queue\<close> only.
\<close>

section \<open>Tasks\<close>

datatype TaskStatus =
  TaskPending | TaskReady | TaskExecuting | TaskCompleted | TaskFailed | TaskCancelled

record ('c, 'm) Task =
  tk_ID :: string
  tk_Type :: string
  tk_Priority :: int
  tk_Dependencies :: "string list"
  tk_Timeout :: int
  tk_RetryCount :: int
  tk_MaxRetries :: int
  tk_Command :: 'c
  tk_Subcommands :: "'c list"
  tk_Status :: TaskStatus
  tk_StartedAt :: nat
  tk_CompletedAt :: nat
  tk_Error :: string
  tk_Description :: string
  tk_CreatedBy :: string
  tk_Metadata :: "string \<rightharpoonup> 'm"

definition IsReady :: "('c, 'm) Task \<Rightarrow> string set \<Rightarrow> bool" where
  "IsReady t completed =
     (if tk_Status t \<noteq> TaskPending then False
      else list_all (\<lambda>depID. depID \<in> completed) (tk_Dependencies t))"

section \<open>The queue\<close>

record ('c, 'm) TaskQueue =
  tq_pending :: "('c, 'm) Task list"
  tq_ready :: "('c, 'm) Task list"
  tq_executing :: "string \<rightharpoonup> ('c, 'm) Task"
  tq_completed :: "string \<rightharpoonup> ('c, 'm) Task"
  tq_failed :: "string \<rightharpoonup> ('c, 'm) Task"
  tq_maxQueueSize :: int
  tq_enableDependencies :: bool

datatype queue_error = QueueFull | TaskNotFound

definition NewTaskQueue :: "int \<Rightarrow> bool \<Rightarrow> ('c, 'm) TaskQueue" where
  "NewTaskQueue maxSize enableDependencies = \<lparr>tq_pending = [], tq_ready = [],
     tq_executing = Map.empty, tq_completed = Map.empty, tq_failed = Map.empty,
     tq_maxQueueSize = maxSize, tq_enableDependencies = enableDependencies\<rparr>"

definition getCompletedIDs :: "('c, 'm) TaskQueue \<Rightarrow> string set" where
  "getCompletedIDs tq = dom (tq_completed tq)"

definition AddTask :: "('c, 'm) Task \<Rightarrow> ('c, 'm) TaskQueue \<Rightarrow> queue_error + ('c, 'm) TaskQueue" where
  "AddTask task tq =
     (if int (length (tq_pending tq) + length (tq_ready tq)) \<ge> tq_maxQueueSize tq then Inl QueueFull
      else let task = task\<lparr>tk_Status := TaskPending\<rparr> in
       if IsReady task (getCompletedIDs tq)
       then Inr (tq\<lparr>tq_ready := heap_push tk_Priority (task\<lparr>tk_Status := TaskReady\<rparr>) (tq_ready tq)\<rparr>)
       else Inr (tq\<lparr>tq_pending := heap_push tk_Priority task (tq_pending tq)\<rparr>))"

lemma length_heap_down [simp]: "length (heap_down prio xs i n) = length xs"
  by (induction prio xs i n rule: heap_down.induct) (subst heap_down.simps, simp add: Let_def)

lemma length_heap_pop: "length (snd (heap_pop prio xs)) = length xs - 1"
  by (simp add: heap_pop_def Let_def)

text \<open>The loop of \<open>promotePendingTasks\<close>: pending tasks, ready queue, new pending queue.\<close>

function promote_loop :: "string set \<Rightarrow> ('c, 'm) Task list \<Rightarrow> ('c, 'm) Task list \<Rightarrow> ('c, 'm) Task list \<Rightarrow> ('c, 'm) Task list \<times> ('c, 'm) Task list" where
  "promote_loop completed pending ready newPending =
     (if pending = [] then (ready, newPending)
      else let (task, pending) = heap_pop tk_Priority pending in
       if IsReady task completed
       then promote_loop completed pending
         (heap_push tk_Priority (task\<lparr>tk_Status := TaskReady\<rparr>) ready) newPending
       else promote_loop completed pending ready (heap_push tk_Priority task newPending))"
  by pat_completeness auto
termination
  by (relation "measure (\<lambda>(completed, pending, ready, newPending). length pending)")
    (auto simp: length_heap_pop dest!: arg_cong [where f = snd])

declare promote_loop.simps [simp del]

definition promotePendingTasks :: "('c, 'm) TaskQueue \<Rightarrow> ('c, 'm) TaskQueue" where
  "promotePendingTasks tq =
     (let (ready, newPending) = promote_loop (getCompletedIDs tq) (tq_pending tq) (tq_ready tq) []
      in tq\<lparr>tq_ready := ready, tq_pending := newPending\<rparr>)"

definition GetNextTask :: "nat \<Rightarrow> ('c, 'm) TaskQueue \<Rightarrow> ('c, 'm) Task option \<times> ('c, 'm) TaskQueue" where
  "GetNextTask now tq =
     (let tq = promotePendingTasks tq in
      if length (tq_ready tq) = 0 then (None, tq)
      else let (task, ready) = heap_pop tk_Priority (tq_ready tq);
               task = task\<lparr>tk_Status := TaskExecuting, tk_StartedAt := now\<rparr>
       in (Some task, tq\<lparr>tq_ready := ready, tq_executing := (tq_executing tq)(tk_ID task \<mapsto> task)\<rparr>))"

definition CompleteTask :: "nat \<Rightarrow> string \<Rightarrow> ('c, 'm) TaskQueue \<Rightarrow> queue_error + ('c, 'm) TaskQueue" where
  "CompleteTask now taskID tq = (case tq_executing tq taskID of
       None \<Rightarrow> Inl TaskNotFound
     | Some task \<Rightarrow>
         let task = task\<lparr>tk_Status := TaskCompleted, tk_CompletedAt := now\<rparr> in
         Inr (promotePendingTasks (tq\<lparr>tq_executing := (tq_executing tq)(taskID := None),
           tq_completed := (tq_completed tq)(taskID \<mapsto> task)\<rparr>)))"

definition FailTask :: "string \<Rightarrow> string \<Rightarrow> ('c, 'm) TaskQueue \<Rightarrow> queue_error + ('c, 'm) TaskQueue" where
  "FailTask taskID err tq = (case tq_executing tq taskID of
       None \<Rightarrow> Inl TaskNotFound
     | Some task \<Rightarrow>
         let task = task\<lparr>tk_Error := err\<rparr> in
         if tk_RetryCount task < tk_MaxRetries task
         then let task = task\<lparr>tk_RetryCount := tk_RetryCount task + 1, tk_Status := TaskPending\<rparr>
           in Inr (tq\<lparr>tq_pending := heap_push tk_Priority task (tq_pending tq),
                tq_executing := (tq_executing tq)(taskID := None)\<rparr>)
         else let task = task\<lparr>tk_Status := TaskFailed\<rparr>
           in Inr (tq\<lparr>tq_executing := (tq_executing tq)(taskID := None),
                tq_failed := (tq_failed tq)(taskID \<mapsto> task)\<rparr>))"

record QueueStatus =
  qs_Pending :: int
  qs_Ready :: int
  qs_Executing :: int
  qs_Completed :: int
  qs_Failed :: int

definition GetQueueStatus :: "('c, 'm) TaskQueue \<Rightarrow> QueueStatus" where
  "GetQueueStatus tq = \<lparr>qs_Pending = int (length (tq_pending tq)), qs_Ready = int (length (tq_ready tq)),
     qs_Executing = int (card (dom (tq_executing tq))), qs_Completed = int (card (dom (tq_completed tq))),
     qs_Failed = int (card (dom (tq_failed tq)))\<rparr>"

section \<open>The promotion loop\<close>

definition make_ready :: "('c, 'm) Task \<Rightarrow> ('c, 'm) Task" where
  "make_ready t = t\<lparr>tk_Status := TaskReady\<rparr>"

lemma promote_loop_correct:
  "is_heap tk_Priority pending \<Longrightarrow> is_heap tk_Priority ready \<Longrightarrow> is_heap tk_Priority newPending \<Longrightarrow>
   promote_loop completed pending ready newPending = (ready', newPending') \<Longrightarrow>
     is_heap tk_Priority ready' \<and> is_heap tk_Priority newPending' \<and>
     mset ready' = mset ready + image_mset make_ready {#t \<in># mset pending. IsReady t completed#} \<and>
     mset newPending' = mset newPending + {#t \<in># mset pending. \<not> IsReady t completed#}"
proof (induction completed pending ready newPending rule: promote_loop.induct)
  case (1 completed pending ready newPending)
  show ?case
  proof (cases "pending = []")
    case True
    then show ?thesis using 1 by (simp add: promote_loop.simps [of completed "[]" ready newPending])
  next
    case False
    obtain task rest where pop: "heap_pop tk_Priority pending = (task, rest)" by fastforce
    have rest: "is_heap tk_Priority rest" and elems: "mset pending = add_mset task (mset rest)"
      using go_heap.pop_inv [of tk_Priority pending] go_heap.pop_elems [of tk_Priority pending]
        1(3) False by (simp_all add: pop)
    note step = promote_loop.simps [of completed pending ready newPending]
    show ?thesis
    proof (cases "IsReady task completed")
      case True
      have "promote_loop completed rest (heap_push tk_Priority (make_ready task) ready) newPending
          = (ready', newPending')"
        using 1(6) step False True by (simp add: pop make_ready_def)
      then show ?thesis
        using 1(1) [OF False pop [symmetric] refl True rest] True
          go_heap.push_inv [OF 1(4)] go_heap.push_elems [OF 1(4)] 1(5)
        by (simp add: elems make_ready_def)
    next
      case not: False
      have "promote_loop completed rest ready (heap_push tk_Priority task newPending)
          = (ready', newPending')"
        using 1(6) step False not by (simp add: pop)
      then show ?thesis
        using 1(2) [OF False pop [symmetric] refl not rest 1(4)] not
          go_heap.push_inv [OF 1(5)] go_heap.push_elems [OF 1(5)]
        by (simp add: elems)
    qed
  qed
qed

section \<open>The invariant\<close>

definition deps_done :: "('c, 'm) TaskQueue \<Rightarrow> ('c, 'm) Task \<Rightarrow> bool" where
  "deps_done tq t \<longleftrightarrow> set (tk_Dependencies t) \<subseteq> dom (tq_completed tq)"

definition status_inv :: "('c, 'm) TaskQueue \<Rightarrow> bool" where
  "status_inv tq \<longleftrightarrow>
     (\<forall>t\<in>set (tq_pending tq). tk_Status t = TaskPending) \<and>
     (\<forall>t\<in>set (tq_ready tq). tk_Status t = TaskReady \<and> deps_done tq t) \<and>
     (\<forall>t\<in>ran (tq_executing tq). tk_Status t = TaskExecuting \<and> deps_done tq t) \<and>
     (\<forall>t\<in>ran (tq_completed tq). tk_Status t = TaskCompleted \<and> deps_done tq t) \<and>
     (\<forall>t\<in>ran (tq_failed tq). tk_Status t = TaskFailed \<and> deps_done tq t \<and>
        tk_MaxRetries t \<le> tk_RetryCount t)"

definition keyed :: "(string \<rightharpoonup> ('c, 'm) Task) \<Rightarrow> bool" where
  "keyed m \<longleftrightarrow> finite (dom m) \<and> (\<forall>i t. m i = Some t \<longrightarrow> tk_ID t = i)"

definition tq_inv :: "('c, 'm) TaskQueue \<Rightarrow> bool" where
  "tq_inv tq \<longleftrightarrow> is_heap tk_Priority (tq_pending tq) \<and> is_heap tk_Priority (tq_ready tq) \<and>
     keyed (tq_executing tq) \<and> keyed (tq_completed tq) \<and> keyed (tq_failed tq) \<and> status_inv tq"

lemma keyed_update: "keyed m \<Longrightarrow> tk_ID t = i \<Longrightarrow> keyed (m(i \<mapsto> t))"
  by (auto simp: keyed_def)

lemma keyed_delete: "keyed m \<Longrightarrow> keyed (m(i := None))"
  by (auto simp: keyed_def split: if_splits)

lemma keyed_empty [simp]: "keyed Map.empty"
  by (simp add: keyed_def)

lemma ran_updateD: "t \<in> ran (m(i \<mapsto> x)) \<Longrightarrow> t = x \<or> t \<in> ran m"
  by (auto simp: ran_def split: if_splits)

lemma ran_deleteD: "t \<in> ran (m(i := None)) \<Longrightarrow> t \<in> ran m"
  by (auto simp: ran_def split: if_splits)

lemma make_ready_simps [simp]:
  "tk_Status (make_ready t) = TaskReady" "tk_ID (make_ready t) = tk_ID t"
  "tk_Priority (make_ready t) = tk_Priority t" "tk_Dependencies (make_ready t) = tk_Dependencies t"
  by (simp_all add: make_ready_def)

lemma deps_done_update [simp]:
  "deps_done tq (make_ready t) = deps_done tq t"
  "deps_done tq (t\<lparr>tk_Status := s\<rparr>) = deps_done tq t"
  "deps_done tq (t\<lparr>tk_StartedAt := n\<rparr>) = deps_done tq t"
  "deps_done tq (t\<lparr>tk_CompletedAt := n\<rparr>) = deps_done tq t"
  "deps_done tq (t\<lparr>tk_Error := e\<rparr>) = deps_done tq t"
  "deps_done (tq\<lparr>tq_ready := r\<rparr>) t = deps_done tq t"
  "deps_done (tq\<lparr>tq_pending := r\<rparr>) t = deps_done tq t"
  "deps_done (tq\<lparr>tq_executing := m\<rparr>) t = deps_done tq t"
  "deps_done (tq\<lparr>tq_failed := m\<rparr>) t = deps_done tq t"
  by (simp_all add: deps_done_def make_ready_def)

lemma deps_done_complete: "deps_done tq t \<Longrightarrow> deps_done (tq\<lparr>tq_completed := (tq_completed tq)(i \<mapsto> x)\<rparr>) t"
  by (auto simp: deps_done_def)

lemma IsReady_iff: "IsReady t (getCompletedIDs tq) \<longleftrightarrow> tk_Status t = TaskPending \<and> deps_done tq t"
  by (auto simp: IsReady_def deps_done_def getCompletedIDs_def list_all_iff)

text \<open>Promotion: what the two queues hold afterwards, everything else untouched.\<close>

lemma promotePendingTasks_correct:
  assumes "tq_inv tq"
  shows "tq_inv (promotePendingTasks tq)"
    and "mset (tq_ready (promotePendingTasks tq)) =
      mset (tq_ready tq) + image_mset make_ready {#t \<in># mset (tq_pending tq). deps_done tq t#}"
    and "mset (tq_pending (promotePendingTasks tq)) = {#t \<in># mset (tq_pending tq). \<not> deps_done tq t#}"
    and "tq_executing (promotePendingTasks tq) = tq_executing tq"
    and "tq_completed (promotePendingTasks tq) = tq_completed tq"
    and "tq_failed (promotePendingTasks tq) = tq_failed tq"
proof -
  obtain ready newPending where loop:
    "promote_loop (getCompletedIDs tq) (tq_pending tq) (tq_ready tq) [] = (ready, newPending)"
    by fastforce
  have pq: "promotePendingTasks tq = tq\<lparr>tq_ready := ready, tq_pending := newPending\<rparr>"
    by (simp add: promotePendingTasks_def loop)
  have pend: "tk_Status t = TaskPending" if "t \<in># mset (tq_pending tq)" for t
    using that assms by (simp add: tq_inv_def status_inv_def)
  have ready_iff: "IsReady t (getCompletedIDs tq) = deps_done tq t" if "t \<in># mset (tq_pending tq)" for t
    using pend [OF that] by (simp add: IsReady_iff)
  have filters: "{#t \<in># mset (tq_pending tq). IsReady t (getCompletedIDs tq)#} =
        {#t \<in># mset (tq_pending tq). deps_done tq t#}"
      "{#t \<in># mset (tq_pending tq). \<not> IsReady t (getCompletedIDs tq)#} =
        {#t \<in># mset (tq_pending tq). \<not> deps_done tq t#}"
    using ready_iff by (auto intro!: filter_mset_cong)
  note c = promote_loop_correct [OF _ _ go_heap.empty_inv loop]
  have heaps: "is_heap tk_Priority ready" "is_heap tk_Priority newPending"
    using c assms by (simp_all add: tq_inv_def)
  have r: "mset ready = mset (tq_ready tq) + image_mset make_ready {#t \<in># mset (tq_pending tq). deps_done tq t#}"
    using c assms by (simp add: tq_inv_def filters)
  have p: "mset newPending = {#t \<in># mset (tq_pending tq). \<not> deps_done tq t#}"
    using c assms by (simp add: tq_inv_def filters)
  have sr: "set ready = set (tq_ready tq) \<union> make_ready ` {t \<in> set (tq_pending tq). deps_done tq t}"
    using arg_cong [OF r, of set_mset] by simp
  have sp: "set newPending = {t \<in> set (tq_pending tq). \<not> deps_done tq t}"
    using arg_cong [OF p, of set_mset] by simp
  show "tq_inv (promotePendingTasks tq)"
    using assms heaps by (auto simp: tq_inv_def status_inv_def pq sr sp)
  show "mset (tq_ready (promotePendingTasks tq)) =
      mset (tq_ready tq) + image_mset make_ready {#t \<in># mset (tq_pending tq). deps_done tq t#}"
    and "mset (tq_pending (promotePendingTasks tq)) = {#t \<in># mset (tq_pending tq). \<not> deps_done tq t#}"
    and "tq_executing (promotePendingTasks tq) = tq_executing tq"
    and "tq_completed (promotePendingTasks tq) = tq_completed tq"
    and "tq_failed (promotePendingTasks tq) = tq_failed tq"
    by (simp_all add: pq r p)
qed

section \<open>Every operation keeps the invariant\<close>

lemma set_heap_push: "is_heap prio q \<Longrightarrow> set (heap_push prio x q) = insert x (set q)"
  using arg_cong [OF go_heap.push_elems, of prio q set_mset x] by simp

lemma NewTaskQueue_inv: "tq_inv (NewTaskQueue n d)"
  using go_heap.empty_inv by (simp add: tq_inv_def status_inv_def NewTaskQueue_def)

lemma AddTask_inv: "tq_inv tq \<Longrightarrow> AddTask t tq = Inr tq' \<Longrightarrow> tq_inv tq'"
  by (auto simp: AddTask_def Let_def IsReady_iff tq_inv_def status_inv_def set_heap_push
      go_heap.push_inv split: if_splits)

text \<open>\<open>CompleteTask\<close> before its promotion.\<close>

definition move_completed :: "nat \<Rightarrow> string \<Rightarrow> ('c, 'm) Task \<Rightarrow> ('c, 'm) TaskQueue \<Rightarrow> ('c, 'm) TaskQueue" where
  "move_completed now i t tq = tq\<lparr>tq_executing := (tq_executing tq)(i := None),
     tq_completed := (tq_completed tq)(i \<mapsto> t\<lparr>tk_Status := TaskCompleted, tk_CompletedAt := now\<rparr>)\<rparr>"

lemma CompleteTask_cases:
  assumes "CompleteTask now i tq = Inr tq'"
  obtains t where "tq_executing tq i = Some t" and "tq' = promotePendingTasks (move_completed now i t tq)"
  using assms by (auto simp: CompleteTask_def move_completed_def Let_def split: option.splits)

lemma move_completed_inv:
  assumes inv: "tq_inv tq" and t: "tq_executing tq i = Some t"
  shows "tq_inv (move_completed now i t tq)"
proof -
  let ?q = "move_completed now i t tq"
  have grow: "deps_done tq u \<Longrightarrow> deps_done ?q u" for u
    by (auto simp: deps_done_def move_completed_def)
  have "t \<in> ran (tq_executing tq)" using t by (auto simp: ran_def)
  then have d: "deps_done tq t" and id: "tk_ID t = i"
    using inv t by (auto simp: tq_inv_def status_inv_def keyed_def)
  have "status_inv ?q"
    using inv d grow [of t] grow unfolding tq_inv_def status_inv_def
    by (auto simp: move_completed_def dest!: ran_updateD ran_deleteD simp del: fun_upd_apply)
  then show ?thesis
    using inv id by (simp add: tq_inv_def move_completed_def keyed_update keyed_delete)
qed

lemma CompleteTask_inv: "tq_inv tq \<Longrightarrow> CompleteTask now i tq = Inr tq' \<Longrightarrow> tq_inv tq'"
  by (elim CompleteTask_cases) (simp add: promotePendingTasks_correct(1) move_completed_inv)

lemma FailTask_inv: "tq_inv tq \<Longrightarrow> FailTask i err tq = Inr tq' \<Longrightarrow> tq_inv tq'"
proof -
  assume inv: "tq_inv tq" and fail: "FailTask i err tq = Inr tq'"
  then obtain t where t: "tq_executing tq i = Some t"
    by (auto simp: FailTask_def split: option.splits)
  then have r: "t \<in> ran (tq_executing tq)" by (auto simp: ran_def)
  then have d: "deps_done tq t" and id: "tk_ID t = i"
    using inv t by (auto simp: tq_inv_def status_inv_def keyed_def)
  show "tq_inv tq'"
  proof (cases "tk_RetryCount t < tk_MaxRetries t")
    case True
    then show ?thesis using fail inv t
      by (auto simp: FailTask_def Let_def tq_inv_def status_inv_def set_heap_push go_heap.push_inv
          keyed_delete dest!: ran_deleteD simp del: fun_upd_apply)
  next
    case False
    then show ?thesis using fail inv t d id
      by (auto simp: FailTask_def Let_def tq_inv_def status_inv_def keyed_update
          keyed_delete dest!: ran_deleteD ran_updateD simp del: fun_upd_apply)
  qed
qed

text \<open>The tasks that could be dispatched now, and a task as \<open>GetNextTask\<close> returns it.\<close>

definition runnable :: "('c, 'm) TaskQueue \<Rightarrow> ('c, 'm) Task multiset" where
  "runnable tq = mset (tq_ready tq) + image_mset make_ready {#t \<in># mset (tq_pending tq). deps_done tq t#}"

definition dispatch :: "nat \<Rightarrow> ('c, 'm) Task \<Rightarrow> ('c, 'm) Task" where
  "dispatch now t = t\<lparr>tk_Status := TaskExecuting, tk_StartedAt := now\<rparr>"

lemma dispatch_simps [simp]:
  "tk_Status (dispatch now t) = TaskExecuting" "tk_ID (dispatch now t) = tk_ID t"
  "tk_Priority (dispatch now t) = tk_Priority t" "tk_Dependencies (dispatch now t) = tk_Dependencies t"
  "deps_done tq (dispatch now t) = deps_done tq t"
  by (simp_all add: dispatch_def)

lemma runnable_deps: "tq_inv tq \<Longrightarrow> t \<in># runnable tq \<Longrightarrow> deps_done tq t"
  by (auto simp: runnable_def tq_inv_def status_inv_def)

lemma GetNextTask_None:
  assumes "tq_inv tq"
  shows "fst (GetNextTask now tq) = None \<longleftrightarrow> runnable tq = {#}"
    and "runnable tq = {#} \<Longrightarrow> snd (GetNextTask now tq) = promotePendingTasks tq"
proof -
  have "mset (tq_ready (promotePendingTasks tq)) = runnable tq"
    by (simp add: promotePendingTasks_correct(2) [OF assms] runnable_def)
  then have "tq_ready (promotePendingTasks tq) = [] \<longleftrightarrow> runnable tq = {#}"
    by (metis mset_zero_iff)
  then show "fst (GetNextTask now tq) = None \<longleftrightarrow> runnable tq = {#}"
    and "runnable tq = {#} \<Longrightarrow> snd (GetNextTask now tq) = promotePendingTasks tq"
    by (simp_all add: GetNextTask_def Let_def case_prod_beta)
qed

lemma GetNextTask_Some:
  assumes inv: "tq_inv tq" and ne: "runnable tq \<noteq> {#}"
  obtains t ready where "t \<in># runnable tq" and "\<forall>u. u \<in># runnable tq \<longrightarrow> tk_Priority u \<le> tk_Priority t"
    and "mset ready = runnable tq - {#t#}" and "is_heap tk_Priority ready"
    and "GetNextTask now tq = (Some (dispatch now t), (promotePendingTasks tq)
      \<lparr>tq_ready := ready, tq_executing := (tq_executing tq)(tk_ID t \<mapsto> dispatch now t)\<rparr>)"
proof -
  let ?p = "promotePendingTasks tq"
  note p = promotePendingTasks_correct [OF inv]
  have r: "mset (tq_ready ?p) = runnable tq" by (simp add: p(2) runnable_def)
  obtain t ready where pop: "heap_pop tk_Priority (tq_ready ?p) = (t, ready)" by fastforce
  have hp: "is_heap tk_Priority (tq_ready ?p)" using p(1) by (simp add: tq_inv_def)
  note n = go_heap.pop_elems [OF hp] go_heap.pop_greatest [OF hp] go_heap.pop_inv [OF hp]
  have e: "runnable tq = add_mset t (mset ready)" and h: "is_heap tk_Priority ready"
    and g: "u \<in># runnable tq \<Longrightarrow> tk_Priority u \<le> tk_Priority t" for u
    using n ne unfolding r pop fst_conv snd_conv by blast+
  have "tq_ready ?p \<noteq> []" using r ne by auto
  then have "GetNextTask now tq = (Some (dispatch now t), ?p
      \<lparr>tq_ready := ready, tq_executing := (tq_executing tq)(tk_ID t \<mapsto> dispatch now t)\<rparr>)"
    by (simp add: GetNextTask_def Let_def pop p(4) dispatch_def)
  moreover have "t \<in># runnable tq" "mset ready = runnable tq - {#t#}" by (simp_all add: e)
  ultimately show thesis using that [of t ready] g h by blast
qed

lemma GetNextTask_inv: "tq_inv tq \<Longrightarrow> tq_inv (snd (GetNextTask now tq))"
proof -
  assume inv: "tq_inv tq"
  note p = promotePendingTasks_correct [OF inv]
  show ?thesis
  proof (cases "runnable tq = {#}")
    case True
    then show ?thesis using GetNextTask_None(2) [OF inv] p(1) by simp
  next
    case False
    obtain t ready where t: "t \<in># runnable tq" and r: "mset ready = runnable tq - {#t#}"
      and h: "is_heap tk_Priority ready"
      and g: "GetNextTask now tq = (Some (dispatch now t), (promotePendingTasks tq)
        \<lparr>tq_ready := ready, tq_executing := (tq_executing tq)(tk_ID t \<mapsto> dispatch now t)\<rparr>)"
      by (rule GetNextTask_Some [OF inv False]) blast
    have "mset (tq_ready (promotePendingTasks tq)) = runnable tq"
      by (simp add: p(2) runnable_def)
    then have sub: "set ready \<subseteq> set (tq_ready (promotePendingTasks tq))"
      using r by (metis diff_subset_eq_self set_mset_mono set_mset_mset)
    have same: "deps_done (promotePendingTasks tq) u = deps_done tq u" for u
      by (simp add: deps_done_def p(5))
    show ?thesis
      using p(1) sub h runnable_deps [OF inv t]
      by (auto simp: g tq_inv_def status_inv_def p(4) same keyed_update
          dest!: ran_updateD simp del: fun_upd_apply)
  qed
qed

section \<open>No task is lost\<close>

text \<open>A waiting task's identity: its id and what it waits for.\<close>

definition sig :: "('c, 'm) Task \<Rightarrow> string \<times> string list" where
  "sig t = (tk_ID t, tk_Dependencies t)"

definition waiting :: "('c, 'm) TaskQueue \<Rightarrow> (string \<times> string list) multiset" where
  "waiting tq = image_mset sig (mset (tq_pending tq) + mset (tq_ready tq))"

definition task_ids :: "('c, 'm) TaskQueue \<Rightarrow> string multiset" where
  "task_ids tq = image_mset fst (waiting tq) + mset_set (dom (tq_executing tq)) +
     mset_set (dom (tq_completed tq)) + mset_set (dom (tq_failed tq))"

lemma sig_simps [simp]: "sig (make_ready t) = sig t" "sig (dispatch now t) = sig t" "fst (sig t) = tk_ID t"
  by (simp_all add: sig_def)

lemma waiting_promote: "tq_inv tq \<Longrightarrow> waiting (promotePendingTasks tq) = waiting tq"
proof -
  assume "tq_inv tq"
  note p = promotePendingTasks_correct [OF this]
  have "image_mset sig (mset (tq_pending tq)) =
      image_mset sig {#t \<in># mset (tq_pending tq). \<not> deps_done tq t#} +
      image_mset sig {#t \<in># mset (tq_pending tq). deps_done tq t#}"
    by (metis multiset_partition image_mset_union add.commute)
  then show ?thesis
    by (simp add: waiting_def p(2,3) image_mset.compositionality comp_def ac_simps)
qed

lemma task_ids_promote: "tq_inv tq \<Longrightarrow> task_ids (promotePendingTasks tq) = task_ids tq"
  using promotePendingTasks_correct(4-6) [of tq] by (simp add: task_ids_def waiting_promote)

lemma waiting_next:
  assumes inv: "tq_inv tq" and nxt: "GetNextTask now tq = (Some t, tq')"
  shows "add_mset (sig t) (waiting tq') = waiting tq" and "tq_executing tq' = (tq_executing tq)(tk_ID t \<mapsto> t)"
    and "tq_completed tq' = tq_completed tq" and "tq_failed tq' = tq_failed tq"
proof -
  note p = promotePendingTasks_correct [OF inv]
  have ne: "runnable tq \<noteq> {#}" using GetNextTask_None(1) [OF inv, of now] nxt by auto
  obtain u ready where u: "u \<in># runnable tq" and r: "mset ready = runnable tq - {#u#}"
    and g: "GetNextTask now tq = (Some (dispatch now u), (promotePendingTasks tq)
      \<lparr>tq_ready := ready, tq_executing := (tq_executing tq)(tk_ID u \<mapsto> dispatch now u)\<rparr>)"
    by (rule GetNextTask_Some [OF inv ne]) blast
  have t: "t = dispatch now u" and tq': "tq' = (promotePendingTasks tq)
      \<lparr>tq_ready := ready, tq_executing := (tq_executing tq)(tk_ID u \<mapsto> dispatch now u)\<rparr>"
    using nxt unfolding g by auto
  have "mset (tq_ready (promotePendingTasks tq)) = add_mset u (mset ready)"
    using u by (simp add: p(2) r flip: runnable_def)
  then have "waiting (promotePendingTasks tq) = add_mset (sig u) (waiting tq')"
    by (simp add: waiting_def tq')
  then show "add_mset (sig t) (waiting tq') = waiting tq"
    by (simp add: waiting_promote [OF inv] t)
  show "tq_executing tq' = (tq_executing tq)(tk_ID t \<mapsto> t)"
    and "tq_completed tq' = tq_completed tq" and "tq_failed tq' = tq_failed tq"
    by (simp_all add: tq' t p)
qed

lemma count_dom: "finite (dom m) \<Longrightarrow> count (mset_set (dom m)) i = (if m i = None then 0 else 1)"
  by (simp add: count_mset_set' domIff)

lemma mset_set_insert_dom: "finite (dom m) \<Longrightarrow> m i = None \<Longrightarrow>
    mset_set (dom (m(i \<mapsto> x))) = add_mset i (mset_set (dom m))"
  by (simp add: domIff)

lemma mset_set_delete_dom: "finite (dom m) \<Longrightarrow> m i = Some x \<Longrightarrow>
    mset_set (dom m) = add_mset i (mset_set (dom (m(i := None))))"
  by (metis dom_fun_upd domI mset_set.remove)

lemma task_ids_add:
  assumes "tq_inv tq" and "AddTask t tq = Inr tq'"
  shows "task_ids tq' = add_mset (tk_ID t) (task_ids tq)"
  using assms by (auto simp: AddTask_def Let_def task_ids_def waiting_def sig_def tq_inv_def
      go_heap.push_elems split: if_splits)

lemma task_ids_next:
  assumes inv: "tq_inv tq" and one: "\<forall>i. count (task_ids tq) i \<le> 1"
    and nxt: "GetNextTask now tq = (Some t, tq')"
  shows "task_ids tq' = task_ids tq" and "tq_executing tq (tk_ID t) = None"
proof -
  note w = waiting_next [OF inv nxt]
  have fin: "finite (dom (tq_executing tq))" using inv by (simp add: tq_inv_def keyed_def)
  have "0 < count (image_mset fst (waiting tq)) (tk_ID t)"
    unfolding count_greater_zero_iff by (simp flip: w(1))
  moreover have "count (image_mset fst (waiting tq)) (tk_ID t) +
      count (mset_set (dom (tq_executing tq))) (tk_ID t) \<le> 1"
    using one [rule_format, of "tk_ID t"] by (simp add: task_ids_def)
  ultimately have "count (mset_set (dom (tq_executing tq))) (tk_ID t) = 0"
    by linarith
  then show none: "tq_executing tq (tk_ID t) = None"
    using fin by (simp add: count_dom split: if_splits)
  show "task_ids tq' = task_ids tq"
    by (simp add: task_ids_def w(2-4) mset_set_insert_dom [OF fin none] flip: w(1) del: fun_upd_apply dom_fun_upd)
qed

lemma task_ids_next_None: "tq_inv tq \<Longrightarrow> GetNextTask now tq = (None, tq') \<Longrightarrow> task_ids tq' = task_ids tq"
  using GetNextTask_None [of tq now] task_ids_promote [of tq] by simp

lemma task_ids_move:
  assumes inv: "tq_inv tq" and one: "\<forall>i. count (task_ids tq) i \<le> 1" and t: "tq_executing tq i = Some t"
  shows "tq_completed tq i = None" and "tq_failed tq i = None"
    and "\<lbrakk>ex = (tq_executing tq)(i := None); waiting tq' = waiting tq; tq_executing tq' = ex;
      tq_completed tq' = (tq_completed tq)(i \<mapsto> x); tq_failed tq' = tq_failed tq\<rbrakk>
      \<Longrightarrow> task_ids tq' = task_ids tq"
    and "\<lbrakk>ex = (tq_executing tq)(i := None); waiting tq' = waiting tq; tq_executing tq' = ex;
      tq_completed tq' = tq_completed tq; tq_failed tq' = (tq_failed tq)(i \<mapsto> x)\<rbrakk>
      \<Longrightarrow> task_ids tq' = task_ids tq"
    and "\<lbrakk>ex = (tq_executing tq)(i := None); tk_ID t = i; waiting tq' = add_mset (sig t) (waiting tq);
      tq_executing tq' = ex; tq_completed tq' = tq_completed tq; tq_failed tq' = tq_failed tq\<rbrakk>
      \<Longrightarrow> task_ids tq' = task_ids tq"
proof -
  have fin: "finite (dom (tq_executing tq))" "finite (dom (tq_completed tq))" "finite (dom (tq_failed tq))"
    using inv by (simp_all add: tq_inv_def keyed_def)
  have "count (mset_set (dom (tq_executing tq))) i = 1"
    using fin(1) t by (simp add: count_dom)
  then have "count (mset_set (dom (tq_completed tq))) i = 0" "count (mset_set (dom (tq_failed tq))) i = 0"
    using one [rule_format, of i] by (simp_all add: task_ids_def)
  then show c: "tq_completed tq i = None" and f: "tq_failed tq i = None"
    using fin by (simp_all add: count_dom split: if_splits)
  note e = mset_set_delete_dom [OF fin(1) t]
  note d = mset_set_insert_dom [OF fin(2) c] mset_set_insert_dom [OF fin(3) f]
  show "\<lbrakk>ex = (tq_executing tq)(i := None); waiting tq' = waiting tq; tq_executing tq' = ex;
      tq_completed tq' = (tq_completed tq)(i \<mapsto> x); tq_failed tq' = tq_failed tq\<rbrakk>
      \<Longrightarrow> task_ids tq' = task_ids tq"
    by (simp add: task_ids_def d e del: fun_upd_apply dom_fun_upd)
  show "\<lbrakk>ex = (tq_executing tq)(i := None); waiting tq' = waiting tq; tq_executing tq' = ex;
      tq_completed tq' = tq_completed tq; tq_failed tq' = (tq_failed tq)(i \<mapsto> x)\<rbrakk>
      \<Longrightarrow> task_ids tq' = task_ids tq"
    by (simp add: task_ids_def d e del: fun_upd_apply dom_fun_upd)
  show "\<lbrakk>ex = (tq_executing tq)(i := None); tk_ID t = i; waiting tq' = add_mset (sig t) (waiting tq);
      tq_executing tq' = ex; tq_completed tq' = tq_completed tq; tq_failed tq' = tq_failed tq\<rbrakk>
      \<Longrightarrow> task_ids tq' = task_ids tq"
    by (simp add: task_ids_def e del: fun_upd_apply dom_fun_upd)
qed

lemma task_ids_complete:
  assumes inv: "tq_inv tq" and one: "\<forall>i. count (task_ids tq) i \<le> 1"
    and cmp: "CompleteTask now i tq = Inr tq'"
  shows "task_ids tq' = task_ids tq"
proof -
  obtain t where t: "tq_executing tq i = Some t" and tq': "tq' = promotePendingTasks (move_completed now i t tq)"
    using cmp by (rule CompleteTask_cases)
  have "task_ids (move_completed now i t tq) = task_ids tq"
    by (rule task_ids_move(3) [OF inv one t refl]) (simp_all add: move_completed_def waiting_def)
  then show ?thesis
    by (simp add: tq' task_ids_promote move_completed_inv [OF inv t])
qed

lemma task_ids_fail:
  assumes inv: "tq_inv tq" and one: "\<forall>i. count (task_ids tq) i \<le> 1"
    and fail: "FailTask i err tq = Inr tq'"
  shows "task_ids tq' = task_ids tq"
proof -
  obtain t where t: "tq_executing tq i = Some t"
    using fail by (auto simp: FailTask_def split: option.splits)
  have id: "tk_ID t = i" and h: "is_heap tk_Priority (tq_pending tq)"
    using inv t by (auto simp: tq_inv_def keyed_def)
  show ?thesis
  proof (cases "tk_RetryCount t < tk_MaxRetries t")
    case True
    then show ?thesis using fail t h
      by (intro task_ids_move(5) [OF inv one t refl id])
        (auto simp: FailTask_def Let_def waiting_def sig_def go_heap.push_elems)
  next
    case False
    then show ?thesis using fail t
      by (intro task_ids_move(4) [OF inv one t refl]) (auto simp: FailTask_def Let_def waiting_def)
  qed
qed

section \<open>Reachable queues\<close>

text \<open>The queues a client can reach that adds each id once, with the ids it has added.\<close>

inductive tq_reach :: "string multiset \<Rightarrow> ('c, 'm) TaskQueue \<Rightarrow> bool" where
  new: "tq_reach {#} (NewTaskQueue maxSize enableDependencies)"
| add: "tq_reach ids tq \<Longrightarrow> tk_ID t \<notin># ids \<Longrightarrow> AddTask t tq = Inr tq' \<Longrightarrow>
    tq_reach (add_mset (tk_ID t) ids) tq'"
| take: "tq_reach ids tq \<Longrightarrow> tq_reach ids (snd (GetNextTask now tq))"
| complete: "tq_reach ids tq \<Longrightarrow> CompleteTask now i tq = Inr tq' \<Longrightarrow> tq_reach ids tq'"
| fail: "tq_reach ids tq \<Longrightarrow> FailTask i err tq = Inr tq' \<Longrightarrow> tq_reach ids tq'"

lemma task_ids_new: "task_ids (NewTaskQueue n d) = {#}"
  by (simp add: task_ids_def waiting_def NewTaskQueue_def)

lemma tq_reach_inv:
  "tq_reach ids tq \<Longrightarrow> tq_inv tq \<and> task_ids tq = ids \<and> (\<forall>i. count ids i \<le> 1)"
proof (induction rule: tq_reach.induct)
  case (add ids tq t tq')
  then show ?case
    using task_ids_add [of tq t tq'] AddTask_inv [of tq t tq'] by (auto simp: not_in_iff)
next
  case (take ids tq now)
  obtain r tq' where g: "GetNextTask now tq = (r, tq')" by fastforce
  have "task_ids tq' = task_ids tq"
    using take.IH g task_ids_next(1) [of tq now _ tq'] task_ids_next_None [of tq now tq'] by (cases r) simp_all
  then show ?case using take.IH GetNextTask_inv [of tq now] g by simp
next
  case (complete ids tq now i tq')
  then show ?case using CompleteTask_inv [of tq now i tq'] task_ids_complete [of tq now i tq'] by simp
next
  case (fail ids tq i err tq')
  then show ?case using FailTask_inv [of tq i err tq'] task_ids_fail [of tq i err tq'] by simp
qed (simp_all add: NewTaskQueue_inv task_ids_new)

section \<open>A worker finishes what can be finished\<close>

text \<open>A worker that takes the next task and completes it, \<open>n\<close> times at most.\<close>

fun work :: "nat \<Rightarrow> ('c, 'm) TaskQueue \<Rightarrow> ('c, 'm) TaskQueue" where
  "work 0 tq = tq"
| "work (Suc n) tq = (case GetNextTask n tq of
       (None, tq) \<Rightarrow> tq
     | (Some t, tq) \<Rightarrow> (case CompleteTask n (tk_ID t) tq of Inl _ \<Rightarrow> tq | Inr tq \<Rightarrow> work n tq))"

text \<open>Every dependency that is not completed waits itself, and waiting is not circular.\<close>

definition schedulable :: "(string \<Rightarrow> nat) \<Rightarrow> ('c, 'm) TaskQueue \<Rightarrow> bool" where
  "schedulable rank tq \<longleftrightarrow> (\<forall>(i, ds)\<in>#waiting tq. \<forall>d\<in>set ds. d \<in> dom (tq_completed tq) \<or>
     (\<exists>ds'. (d, ds') \<in># waiting tq \<and> rank d < rank i))"

lemma in_waiting: "x \<in># waiting tq \<longleftrightarrow> (\<exists>t. (t \<in> set (tq_pending tq) \<or> t \<in> set (tq_ready tq)) \<and> x = sig t)"
  by (auto simp: waiting_def)

lemma schedulable_runnable:
  assumes "schedulable rank tq" and "waiting tq \<noteq> {#}"
  shows "runnable tq \<noteq> {#}"
proof -
  obtain i ds where w: "(i, ds) \<in># waiting tq" and least: "\<And>i' ds'. (i', ds') \<in># waiting tq \<Longrightarrow> rank i \<le> rank i'"
    using ex_has_least_nat [of "\<lambda>x. x \<in># waiting tq" _ "\<lambda>x. rank (fst x)"] assms(2)
    by (metis fst_conv multiset_nonemptyE surj_pair)
  have deps: "set ds \<subseteq> dom (tq_completed tq)"
    using assms(1) w least unfolding schedulable_def by (fastforce dest: leD)
  obtain t where t: "t \<in> set (tq_pending tq) \<or> t \<in> set (tq_ready tq)" "sig t = (i, ds)"
    using w unfolding in_waiting by metis
  then have "deps_done tq t" using deps by (simp add: deps_done_def sig_def)
  with t(1) have "t \<in># runnable tq \<or> make_ready t \<in># runnable tq"
    by (auto simp: runnable_def)
  then show ?thesis by auto
qed

lemma next_complete:
  assumes inv: "tq_inv tq" and nxt: "GetNextTask now tq = (Some t, tq')"
  obtains tq'' where "CompleteTask now (tk_ID t) tq' = Inr tq''" and "tq_inv tq''"
    and "waiting tq'' = waiting tq - {#sig t#}" and "sig t \<in># waiting tq"
    and "dom (tq_completed tq'') = insert (tk_ID t) (dom (tq_completed tq))"
    and "tq_executing tq'' = (tq_executing tq)(tk_ID t := None)"
proof -
  note w = waiting_next [OF inv nxt]
  have inv': "tq_inv tq'" using GetNextTask_inv [OF inv, of now] nxt by simp
  have at: "tq_executing tq' (tk_ID t) = Some t" by (simp add: w(2))
  let ?m = "move_completed now (tk_ID t) t tq'"
  note m = move_completed_inv [OF inv' at, of now]
  note p = promotePendingTasks_correct [OF m]
  have "CompleteTask now (tk_ID t) tq' = Inr (promotePendingTasks ?m)"
    by (simp add: CompleteTask_def at Let_def move_completed_def)
  moreover have "waiting (promotePendingTasks ?m) = waiting tq'"
    by (simp add: waiting_promote [OF m]) (simp add: waiting_def move_completed_def)
  ultimately show thesis
    using that [of "promotePendingTasks ?m"] p
    by (simp add: move_completed_def w(2,3) flip: w(1))
qed

lemma schedulable_next:
  assumes "schedulable rank tq" and "waiting tq'' = waiting tq - {#sig t#}"
    and "dom (tq_completed tq'') = insert (tk_ID t) (dom (tq_completed tq))"
  shows "schedulable rank tq''"
proof -
  have keep: "(d, ds') \<in># waiting tq''" if "(d, ds') \<in># waiting tq" "d \<noteq> tk_ID t" for d ds'
    using that assms(2) by (auto simp: sig_def in_diff_count not_in_iff)
  have old: "x \<in># waiting tq" if "x \<in># waiting tq''" for x
    using that assms(2) by (auto dest: in_diffD)
  have "d \<in> dom (tq_completed tq'') \<or> (\<exists>ds'. (d, ds') \<in># waiting tq'' \<and> rank d < rank i)"
    if x: "(i, ds) \<in># waiting tq''" "d \<in> set ds" for i ds d
  proof -
    have "d \<in> dom (tq_completed tq) \<or> (\<exists>ds'. (d, ds') \<in># waiting tq \<and> rank d < rank i)"
      using assms(1) old [OF x(1)] x(2) unfolding schedulable_def by blast
    then show ?thesis using keep unfolding assms(3) by blast
  qed
  then show ?thesis by (auto simp: schedulable_def)
qed

lemma work_correct:
  "tq_inv tq \<Longrightarrow> schedulable rank tq \<Longrightarrow> size (waiting tq) \<le> n \<Longrightarrow>
     tq_pending (work n tq) = [] \<and> tq_ready (work n tq) = [] \<and>
     dom (tq_completed (work n tq)) = dom (tq_completed tq) \<union> fst ` set_mset (waiting tq)"
proof (induction n arbitrary: tq)
  case 0
  then show ?case by (simp add: waiting_def)
next
  case (Suc n)
  show ?case
  proof (cases "waiting tq = {#}")
    case True
    then have "runnable tq = {#}" by (simp add: waiting_def runnable_def)
    then have "GetNextTask n tq = (None, promotePendingTasks tq)"
      using GetNextTask_None [OF Suc.prems(1), of n] by (metis prod.collapse)
    moreover have "waiting (promotePendingTasks tq) = {#}"
      using waiting_promote [OF Suc.prems(1)] True by simp
    ultimately show ?thesis
      using True promotePendingTasks_correct(5) [OF Suc.prems(1)] by (simp add: waiting_def)
  next
    case False
    then obtain t tq' where g: "GetNextTask n tq = (Some t, tq')"
      using schedulable_runnable [OF Suc.prems(2)] GetNextTask_None(1) [OF Suc.prems(1), of n]
      by (metis not_None_eq prod.collapse)
    obtain tq'' where c: "CompleteTask n (tk_ID t) tq' = Inr tq''" "tq_inv tq''"
      "waiting tq'' = waiting tq - {#sig t#}" "sig t \<in># waiting tq"
      "dom (tq_completed tq'') = insert (tk_ID t) (dom (tq_completed tq))"
      by (rule next_complete [OF Suc.prems(1) g]) blast
    have "waiting tq = add_mset (sig t) (waiting tq'')" using c(3,4) by simp
    then have size: "size (waiting tq'') \<le> n"
      and ids: "fst ` set_mset (waiting tq) = insert (tk_ID t) (fst ` set_mset (waiting tq''))"
      using Suc.prems(3) by simp_all
    have "work (Suc n) tq = work n tq''" by (simp add: g c(1))
    then show ?thesis
      using Suc.IH [OF c(2) schedulable_next [OF Suc.prems(2) c(3,5)] size] ids c(5) by auto
  qed
qed

section \<open>Properties\<close>


text \<open>A task that depends on another: the dependency is less urgent but has to come first.\<close>

definition example_task :: "string \<Rightarrow> string list \<Rightarrow> int \<Rightarrow> (unit, unit) Task" where
  "example_task i ds p = \<lparr>tk_ID = i, tk_Type = ''dig'', tk_Priority = p, tk_Dependencies = ds,
     tk_Timeout = 0, tk_RetryCount = 0, tk_MaxRetries = 1, tk_Command = (), tk_Subcommands = [],
     tk_Status = TaskPending, tk_StartedAt = 0, tk_CompletedAt = 0, tk_Error = [],
     tk_Description = [], tk_CreatedBy = ''ai'', tk_Metadata = Map.empty\<rparr>"

lemma example_task_simps [simp]:
  "tk_ID (example_task i ds p) = i" "tk_Priority (example_task i ds p) = p"
  "tk_Dependencies (example_task i ds p) = ds" "tk_Status (example_task i ds p) = TaskPending"
  "(example_task i ds p)\<lparr>tk_Status := TaskPending\<rparr> = example_task i ds p"
  by (simp_all add: example_task_def)

lemma heap_push_Nil [simp]: "heap_push prio x [] = [x]"
  by (simp add: heap_push_def heap_up.simps [of prio "[x]" 0])

lemma heap_pop_single [simp]: "heap_pop prio [x] = (x, [])"
  by (simp add: heap_pop_def swap_def heap_down.simps [of prio "[x]" 0 0])

lemma promote_loop_short [simp]:
  "promote_loop c [] r n = (r, n)"
  "promote_loop c [t] r n = (if IsReady t c then (heap_push tk_Priority (t\<lparr>tk_Status := TaskReady\<rparr>) r, n)
     else (r, heap_push tk_Priority t n))"
  by (simp_all add: promote_loop.simps [of c "[t]"] promote_loop.simps [of c "[]"])

definition example_queue :: "(unit, unit) TaskQueue" where
  "example_queue = projr (AddTask (example_task ''a'' [] 3)
     (projr (AddTask (example_task ''b'' [''a''] 10) (NewTaskQueue 5 True))))"

lemma example_queue_eq: "example_queue =
   \<lparr>tq_pending = [example_task ''b'' [''a''] 10],
    tq_ready = [(example_task ''a'' [] 3)\<lparr>tk_Status := TaskReady\<rparr>],
    tq_executing = Map.empty, tq_completed = Map.empty, tq_failed = Map.empty,
    tq_maxQueueSize = 5, tq_enableDependencies = True\<rparr>"
  by (simp add: example_queue_def AddTask_def NewTaskQueue_def Let_def IsReady_def getCompletedIDs_def)

lemma example_reach: "tq_reach {#''a'', ''b''#} example_queue"
proof -
  let ?n = "NewTaskQueue 5 True" and ?a = "example_task ''a'' [] 3" and ?b = "example_task ''b'' [''a''] 10"
  have b: "AddTask ?b ?n = Inr (projr (AddTask ?b ?n))"
    by (simp add: AddTask_def NewTaskQueue_def Let_def)
  have a: "AddTask ?a (projr (AddTask ?b ?n)) = Inr example_queue"
    unfolding example_queue_def
    by (simp add: AddTask_def NewTaskQueue_def Let_def IsReady_def getCompletedIDs_def)
  have "tq_reach (add_mset (tk_ID ?b) {#}) (projr (AddTask ?b ?n))"
    by (rule tq_reach.add [OF tq_reach.new _ b]) simp
  then have "tq_reach (add_mset (tk_ID ?a) (add_mset (tk_ID ?b) {#})) example_queue"
    by (rule tq_reach.add [OF _ _ a]) simp
  then show ?thesis by simp
qed

lemma example_next:
  "GetNextTask 7 example_queue =
     (Some (dispatch 7 (example_task ''a'' [] 3)), snd (GetNextTask 7 example_queue))"
  by (simp add: example_queue_eq GetNextTask_def promotePendingTasks_def IsReady_def
      getCompletedIDs_def Let_def dispatch_def)


lemma tasks_conserved_parts:
  assumes "tq_reach ids tq"
  shows "image_mset tk_ID (mset (tq_pending tq) + mset (tq_ready tq)) + mset_set (dom (tq_executing tq)) +
      mset_set (dom (tq_completed tq)) + mset_set (dom (tq_failed tq)) = ids"
    and "qs_Pending (GetQueueStatus tq) + qs_Ready (GetQueueStatus tq) + qs_Executing (GetQueueStatus tq) +
      qs_Completed (GetQueueStatus tq) + qs_Failed (GetQueueStatus tq) = int (size ids)"
proof -
  have inv: "tq_inv tq" and ids: "task_ids tq = ids"
    using tq_reach_inv [OF assms] by simp_all
  have "image_mset fst (waiting tq) = image_mset tk_ID (mset (tq_pending tq) + mset (tq_ready tq))"
    by (simp add: waiting_def image_mset.compositionality comp_def)
  then show all: "image_mset tk_ID (mset (tq_pending tq) + mset (tq_ready tq)) + mset_set (dom (tq_executing tq)) +
      mset_set (dom (tq_completed tq)) + mset_set (dom (tq_failed tq)) = ids"
    using ids by (simp add: task_ids_def)
  show "qs_Pending (GetQueueStatus tq) + qs_Ready (GetQueueStatus tq) + qs_Executing (GetQueueStatus tq) +
      qs_Completed (GetQueueStatus tq) + qs_Failed (GetQueueStatus tq) = int (size ids)"
    using arg_cong [OF all, of size] by (simp add: GetQueueStatus_def)
qed





lemma worker_finishes_parts:
  assumes "tq_reach ids tq"
    and "\<forall>t\<in>set (tq_pending tq) \<union> set (tq_ready tq). \<forall>d\<in>set (tk_Dependencies t).
      d \<in> dom (tq_completed tq) \<or>
      (\<exists>u\<in>set (tq_pending tq) \<union> set (tq_ready tq). tk_ID u = d \<and> rank d < (rank (tk_ID t) :: nat))"
  shows "tq_pending (work (length (tq_pending tq) + length (tq_ready tq)) tq) = []"
    and "tq_ready (work (length (tq_pending tq) + length (tq_ready tq)) tq) = []"
    and "dom (tq_completed (work (length (tq_pending tq) + length (tq_ready tq)) tq)) =
      dom (tq_completed tq) \<union> tk_ID ` (set (tq_pending tq) \<union> set (tq_ready tq))"
proof -
  have inv: "tq_inv tq" using tq_reach_inv [OF assms(1)] by simp
  have sigs: "set_mset (waiting tq) = sig ` (set (tq_pending tq) \<union> set (tq_ready tq))"
    by (auto simp: waiting_def)
  have "schedulable rank tq"
    unfolding schedulable_def
  proof (intro ballI)
    fix x assume "x \<in># waiting tq"
    then obtain t where t: "t \<in> set (tq_pending tq) \<union> set (tq_ready tq)" "x = (tk_ID t, tk_Dependencies t)"
      by (auto simp: sigs sig_def)
    have "d \<in> dom (tq_completed tq) \<or> (\<exists>ds'. (d, ds') \<in># waiting tq \<and> rank d < rank (tk_ID t))"
      if d: "d \<in> set (tk_Dependencies t)" for d
    proof (cases "d \<in> dom (tq_completed tq)")
      case False
      then obtain u where u: "u \<in> set (tq_pending tq) \<union> set (tq_ready tq)" "tk_ID u = d" "rank d < rank (tk_ID t)"
        using assms(2) t(1) d by metis
      then have "(d, tk_Dependencies u) \<in># waiting tq" by (auto simp: sigs sig_def)
      with u(3) show ?thesis by blast
    qed simp
    then show "case x of (i, ds) \<Rightarrow> \<forall>d\<in>set ds. d \<in> dom (tq_completed tq) \<or>
        (\<exists>ds'. (d, ds') \<in># waiting tq \<and> rank d < rank i)" by (simp add: t(2))
  qed
  moreover have "size (waiting tq) \<le> length (tq_pending tq) + length (tq_ready tq)"
    by (simp add: waiting_def)
  ultimately have "tq_pending (work (length (tq_pending tq) + length (tq_ready tq)) tq) = [] \<and>
      tq_ready (work (length (tq_pending tq) + length (tq_ready tq)) tq) = [] \<and>
      dom (tq_completed (work (length (tq_pending tq) + length (tq_ready tq)) tq)) =
      dom (tq_completed tq) \<union> fst ` set_mset (waiting tq)"
    by (rule work_correct [OF inv])
  then show "tq_pending (work (length (tq_pending tq) + length (tq_ready tq)) tq) = []"
    and "tq_ready (work (length (tq_pending tq) + length (tq_ready tq)) tq) = []"
    and "dom (tq_completed (work (length (tq_pending tq) + length (tq_ready tq)) tq)) =
      dom (tq_completed tq) \<union> tk_ID ` (set (tq_pending tq) \<union> set (tq_ready tq))"
    by (simp_all add: sigs image_image)
qed

text \<open>
  Liveness: when every dependency of a waiting task is completed or is itself waiting, and the
  waiting is not circular, a worker that takes and completes one task after another empties both
  queues in as many turns as tasks wait, and all of them end completed.
\<close>

theorem worker_finishes:
  assumes "tq_reach ids tq"
    and "\<forall>t\<in>set (tq_pending tq) \<union> set (tq_ready tq). \<forall>d\<in>set (tk_Dependencies t).
      d \<in> dom (tq_completed tq) \<or>
      (\<exists>u\<in>set (tq_pending tq) \<union> set (tq_ready tq). tk_ID u = d \<and> rank d < (rank (tk_ID t) :: nat))"
  shows "(tq_pending (work (length (tq_pending tq) + length (tq_ready tq)) tq) = []) \<and>
    (tq_ready (work (length (tq_pending tq) + length (tq_ready tq)) tq) = []) \<and>
    (dom (tq_completed (work (length (tq_pending tq) + length (tq_ready tq)) tq)) =
      dom (tq_completed tq) \<union> tk_ID ` (set (tq_pending tq) \<union> set (tq_ready tq)))"
  using worker_finishes_parts [OF assms] by simp

lemma worker_finishes_witness: "tq_pending (work 2 example_queue) = []"
  using worker_finishes [OF example_reach, of "\<lambda>i. if i = ''a'' then 0 else 1"]
  by (simp add: example_queue_eq numeral_2_eq_2)

lemma duplicate_id_drops_task_parts:
  assumes "tq_inv tq" and "GetNextTask now tq = (Some t, tq')" and "tq_executing tq (tk_ID t) = Some u"
  shows "tq_executing tq' (tk_ID t) = Some t"
    and "qs_Executing (GetQueueStatus tq') = qs_Executing (GetQueueStatus tq)"
    and "qs_Pending (GetQueueStatus tq') + qs_Ready (GetQueueStatus tq') + 1 =
      qs_Pending (GetQueueStatus tq) + qs_Ready (GetQueueStatus tq)"
proof -
  note w = waiting_next [OF assms(1,2)]
  show "tq_executing tq' (tk_ID t) = Some t" by (simp add: w(2))
  have "dom (tq_executing tq') = dom (tq_executing tq)"
    using assms(3) by (auto simp: w(2))
  then show "qs_Executing (GetQueueStatus tq') = qs_Executing (GetQueueStatus tq)"
    by (simp add: GetQueueStatus_def)
  have "size (waiting tq) = Suc (size (waiting tq'))" by (simp flip: w(1))
  then show "qs_Pending (GetQueueStatus tq') + qs_Ready (GetQueueStatus tq') + 1 =
      qs_Pending (GetQueueStatus tq) + qs_Ready (GetQueueStatus tq)"
    by (simp add: GetQueueStatus_def waiting_def)
qed

text \<open>
  A second task with the id of an executing one takes its place in the executing map: the queue then
  holds one task fewer, and the first one can no longer be completed or retried.
\<close>

theorem duplicate_id_drops_task:
  assumes "tq_inv tq" and "GetNextTask now tq = (Some t, tq')" and "tq_executing tq (tk_ID t) = Some u"
  shows "(tq_executing tq' (tk_ID t) = Some t) \<and>
    (qs_Executing (GetQueueStatus tq') = qs_Executing (GetQueueStatus tq)) \<and>
    (qs_Pending (GetQueueStatus tq') + qs_Ready (GetQueueStatus tq') + 1 =
      qs_Pending (GetQueueStatus tq) + qs_Ready (GetQueueStatus tq))"
  using duplicate_id_drops_task_parts [OF assms] by simp

definition twice_queue :: "(unit, unit) TaskQueue" where
  "twice_queue = projr (AddTask (example_task ''a'' [] 4) (snd (GetNextTask 7 example_queue)))"

lemma duplicate_id_drops_task_witness:
  "qs_Executing (GetQueueStatus (snd (GetNextTask 8 twice_queue))) = 1"
proof -
  have q: "snd (GetNextTask 7 example_queue) = example_queue\<lparr>tq_ready := [],
      tq_executing := [''a'' \<mapsto> dispatch 7 (example_task ''a'' [] 3)]\<rparr>"
    by (simp add: example_queue_eq GetNextTask_def promotePendingTasks_def IsReady_def getCompletedIDs_def
        Let_def dispatch_def)
  have add: "AddTask (example_task ''a'' [] 4) (snd (GetNextTask 7 example_queue)) = Inr twice_queue"
    unfolding twice_queue_def q
    by (simp add: AddTask_def Let_def IsReady_def example_queue_eq getCompletedIDs_def)
  have inv: "tq_inv twice_queue"
    using AddTask_inv [OF GetNextTask_inv add] tq_reach_inv [OF example_reach] by simp
  have nxt: "GetNextTask 8 twice_queue =
      (Some (dispatch 8 (example_task ''a'' [] 4)), snd (GetNextTask 8 twice_queue))"
    unfolding twice_queue_def q
    by (simp add: AddTask_def Let_def example_queue_eq GetNextTask_def
        promotePendingTasks_def IsReady_def getCompletedIDs_def dispatch_def)
  have ex: "tq_executing twice_queue = [''a'' \<mapsto> dispatch 7 (example_task ''a'' [] 3)]"
    unfolding twice_queue_def q
    by (simp add: AddTask_def Let_def IsReady_def example_queue_eq getCompletedIDs_def)
  then have "tq_executing twice_queue (tk_ID (dispatch 8 (example_task ''a'' [] 4))) =
      Some (dispatch 7 (example_task ''a'' [] 3))" by simp
  then show ?thesis using duplicate_id_drops_task [OF inv nxt]
    by (simp add: GetQueueStatus_def ex)
qed

end
