(* ===== verification/Plan_DAG.thy ===== *)
theory Plan_DAG
  imports Go_Base
begin

text \<open>
  The plan (\<open>internal/plan/types.go\<close>, \<open>dag.go\<close>): nodes with a life cycle, stored by id, promoted from
  Pending to Ready when all their dependencies are Done. Go iterates over a map in no fixed order, so
  an operation that does takes that order as an argument \<open>ord\<close>; it lists the keys of the map. The
  clock reading \<open>time.Now()\<close> is an argument too, 0 being the zero time.
\<close>

section \<open>Nodes\<close>

datatype Status = StatusPending | StatusReady | StatusActive | StatusDone | StatusFailed

fun Status_String :: "Status \<Rightarrow> string" where
  "Status_String StatusPending = ''pending''"
| "Status_String StatusReady = ''ready''"
| "Status_String StatusActive = ''active''"
| "Status_String StatusDone = ''done''"
| "Status_String StatusFailed = ''failed''"

text \<open>A result text: as it is, as received from outside, or a format with its arguments (numbers, then texts).\<close>

datatype result_text = Text string | GoText gostring | Sprintf string "int list" "result_text list"

record PlanRegion =
  pr_X1 :: i16
  pr_Y1 :: i16
  pr_Z1 :: i16
  pr_X2 :: i16
  pr_Y2 :: i16
  pr_Z2 :: i16

record Action =
  ac_Type :: string
  ac_DigType :: string
  ac_BuildType :: u8
  ac_ZoneType :: u8
  ac_OrderType :: u8
  ac_Quantity :: u16
  ac_StockpileGroups :: u32
  ac_SmoothType :: u8
  ac_AlertID :: u32
  ac_Region :: PlanRegion
  ac_Description :: string

record Node =
  nd_ID :: string
  nd_Action :: Action
  nd_Dependencies :: "string list"
  nd_Status :: Status
  nd_CreatedAt :: go_time
  nd_StartedAt :: go_time
  nd_DoneAt :: go_time
  nd_LastProgressAt :: go_time
  nd_StallNotedAt :: go_time
  nd_Result :: result_text
  nd_PredictionCount :: int
  nd_PredictionsConfirmed :: int
  nd_PredictionsDiverged :: int
  nd_CommittingTurn :: u64

definition IsTerminal :: "Node \<Rightarrow> bool" where
  "IsTerminal n \<longleftrightarrow> nd_Status n = StatusDone \<or> nd_Status n = StatusFailed"

text \<open>The differences are taken in \<open>int16\<close>, before the conversion to \<open>int\<close>.\<close>

definition TileCount :: "PlanRegion \<Rightarrow> int" where
  "TileCount r =
     (let dx = sint (pr_X2 r - pr_X1 r) + 1;
          dy = sint (pr_Y2 r - pr_Y1 r) + 1;
          dz = sint (pr_Z2 r - pr_Z1 r) + 1
      in if dx < 0 \<or> dy < 0 \<or> dz < 0 then 0 else dx * dy * dz)"

definition IsVerticalShaft :: "PlanRegion \<Rightarrow> bool" where
  "IsVerticalShaft r \<longleftrightarrow> pr_Z1 r \<noteq> pr_Z2 r \<and> pr_X1 r = pr_X2 r \<and> pr_Y1 r = pr_Y2 r"

section \<open>The graph\<close>

record DAG =
  dg_nodes :: "string \<rightharpoonup> Node"
  dg_insertOrder :: "string list"

definition New :: DAG where
  "New = \<lparr>dg_nodes = Map.empty, dg_insertOrder = []\<rparr>"

definition allDepsDoneLocked :: "DAG \<Rightarrow> string list \<Rightarrow> bool" where
  "allDepsDoneLocked d deps =
     list_all (\<lambda>depID. case dg_nodes d depID of
        None \<Rightarrow> False | Some dep \<Rightarrow> nd_Status dep = StatusDone) deps"

text \<open>One round of the promotion loop, and the loop over the map in the order \<open>ord\<close>.\<close>

definition promote_node :: "DAG \<Rightarrow> string \<Rightarrow> DAG" where
  "promote_node d i = (case dg_nodes d i of
       None \<Rightarrow> d
     | Some n \<Rightarrow>
         if nd_Status n = StatusPending \<and> allDepsDoneLocked d (nd_Dependencies n)
         then d\<lparr>dg_nodes := (dg_nodes d)(i \<mapsto> n\<lparr>nd_Status := StatusReady\<rparr>)\<rparr>
         else d)"

definition promoteNewlyReadyLocked :: "string list \<Rightarrow> DAG \<Rightarrow> DAG" where
  "promoteNewlyReadyLocked ord d = foldl promote_node d ord"

definition Add :: "go_time \<Rightarrow> Node option \<Rightarrow> DAG \<Rightarrow> DAG" where
  "Add now np d = (case np of
       None \<Rightarrow> d
     | Some n \<Rightarrow>
       if nd_ID n = [] then d
       else let d = (if dg_nodes d (nd_ID n) = None
                     then d\<lparr>dg_insertOrder := dg_insertOrder d @ [nd_ID n]\<rparr> else d);
                n = (if nd_CreatedAt n = 0 then n\<lparr>nd_CreatedAt := now\<rparr> else n);
                n = (if nd_Status n = StatusPending \<and> allDepsDoneLocked d (nd_Dependencies n)
                     then n\<lparr>nd_Status := StatusReady\<rparr> else n)
            in d\<lparr>dg_nodes := (dg_nodes d)(nd_ID n \<mapsto> n)\<rparr>)"

definition Get :: "DAG \<Rightarrow> string \<Rightarrow> Node option" where
  "Get d i = dg_nodes d i"

definition Update :: "string list \<Rightarrow> string \<Rightarrow> (Node \<Rightarrow> Node) \<Rightarrow> DAG \<Rightarrow> bool \<times> DAG" where
  "Update ord i fn d = (case dg_nodes d i of
       None \<Rightarrow> (False, d)
     | Some n \<Rightarrow> (True, promoteNewlyReadyLocked ord (d\<lparr>dg_nodes := (dg_nodes d)(i \<mapsto> fn n)\<rparr>)))"

section \<open>The mutators\<close>

definition set_active :: "go_time \<Rightarrow> Node \<Rightarrow> Node" where
  "set_active now n =
     (if nd_Status n = StatusReady
      then n\<lparr>nd_Status := StatusActive, nd_StartedAt := now, nd_LastProgressAt := now\<rparr> else n)"

definition note_progress :: "go_time \<Rightarrow> Node \<Rightarrow> Node" where
  "note_progress now n =
     (if nd_Status n \<noteq> StatusActive then n else n\<lparr>nd_LastProgressAt := now, nd_StallNotedAt := 0\<rparr>)"

definition note_stall :: "go_time \<Rightarrow> Node \<Rightarrow> Node" where
  "note_stall now n = (if nd_Status n \<noteq> StatusActive then n else n\<lparr>nd_StallNotedAt := now\<rparr>)"

definition set_done :: "go_time \<Rightarrow> Node \<Rightarrow> Node" where
  "set_done now n = (if IsTerminal n then n else n\<lparr>nd_Status := StatusDone, nd_DoneAt := now\<rparr>)"

definition set_failed :: "go_time \<Rightarrow> result_text \<Rightarrow> Node \<Rightarrow> Node" where
  "set_failed now reason n =
     (if IsTerminal n then n
      else n\<lparr>nd_Status := StatusFailed, nd_Result := reason, nd_DoneAt := now\<rparr>)"

definition MarkActive :: "string list \<Rightarrow> go_time \<Rightarrow> string \<Rightarrow> DAG \<Rightarrow> bool \<times> DAG" where
  "MarkActive ord now i = Update ord i (set_active now)"

definition NoteProgress :: "string list \<Rightarrow> go_time \<Rightarrow> string \<Rightarrow> DAG \<Rightarrow> bool \<times> DAG" where
  "NoteProgress ord now i = Update ord i (note_progress now)"

definition NoteStall :: "string list \<Rightarrow> go_time \<Rightarrow> string \<Rightarrow> DAG \<Rightarrow> bool \<times> DAG" where
  "NoteStall ord now i = Update ord i (note_stall now)"

definition MarkDone :: "string list \<Rightarrow> go_time \<Rightarrow> string \<Rightarrow> DAG \<Rightarrow> bool \<times> DAG" where
  "MarkDone ord now i = Update ord i (set_done now)"

definition MarkFailed :: "string list \<Rightarrow> go_time \<Rightarrow> string \<Rightarrow> result_text \<Rightarrow> DAG \<Rightarrow> bool \<times> DAG" where
  "MarkFailed ord now i reason = Update ord i (set_failed now reason)"

section \<open>Reading the graph\<close>

definition filterByStatusLocked :: "DAG \<Rightarrow> Status list \<Rightarrow> Node list" where
  "filterByStatusLocked d statuses =
     List.map_filter (\<lambda>i. case dg_nodes d i of
        None \<Rightarrow> None
      | Some n \<Rightarrow> if nd_Status n \<in> set statuses then Some n else None) (dg_insertOrder d)"

definition ReadyNodes :: "DAG \<Rightarrow> Node list" where
  "ReadyNodes d = filterByStatusLocked d [StatusReady]"

definition ActiveNodes :: "DAG \<Rightarrow> Node list" where
  "ActiveNodes d = filterByStatusLocked d [StatusActive]"

definition PendingNodes :: "DAG \<Rightarrow> Node list" where
  "PendingNodes d = filterByStatusLocked d [StatusPending]"

definition Recent :: "DAG \<Rightarrow> int \<Rightarrow> Node list" where
  "Recent d n =
     (if n \<le> 0 \<or> dg_insertOrder d = [] then []
      else List.map_filter (dg_nodes d) (take (nat n) (rev (dg_insertOrder d))))"

record PlanStats =
  ps_Pending :: int
  ps_Ready :: int
  ps_Active :: int
  ps_Done :: int
  ps_Failed :: int

definition count_status :: "DAG \<Rightarrow> PlanStats \<Rightarrow> string \<Rightarrow> PlanStats" where
  "count_status d s i = (case dg_nodes d i of
       None \<Rightarrow> s
     | Some n \<Rightarrow> (case nd_Status n of
         StatusPending \<Rightarrow> s\<lparr>ps_Pending := ps_Pending s + 1\<rparr>
       | StatusReady \<Rightarrow> s\<lparr>ps_Ready := ps_Ready s + 1\<rparr>
       | StatusActive \<Rightarrow> s\<lparr>ps_Active := ps_Active s + 1\<rparr>
       | StatusDone \<Rightarrow> s\<lparr>ps_Done := ps_Done s + 1\<rparr>
       | StatusFailed \<Rightarrow> s\<lparr>ps_Failed := ps_Failed s + 1\<rparr>))"

definition DAG_Stats :: "string list \<Rightarrow> DAG \<Rightarrow> PlanStats" where
  "DAG_Stats ord d = foldl (count_status d)
     \<lparr>ps_Pending = 0, ps_Ready = 0, ps_Active = 0, ps_Done = 0, ps_Failed = 0\<rparr> ord"

record PlanNodeView =
  pv_ID :: string
  pv_Action :: string
  pv_Priority :: int
  pv_Status :: string
  pv_TargetTile :: "(i16 \<times> i16 \<times> i16) option"

definition node_view :: "Node \<Rightarrow> PlanNodeView" where
  "node_view n = \<lparr>pv_ID = nd_ID n, pv_Action = ac_Type (nd_Action n), pv_Priority = 0,
     pv_Status = Status_String (nd_Status n),
     pv_TargetTile = (if ac_Type (nd_Action n) = ''dig''
       then Some (let r = ac_Region (nd_Action n) in (pr_X1 r, pr_Y1 r, pr_Z1 r)) else None)\<rparr>"

definition viewByStatusLocked :: "DAG \<Rightarrow> Status list \<Rightarrow> PlanNodeView list" where
  "viewByStatusLocked d statuses = map node_view (filterByStatusLocked d statuses)"

section \<open>Promotion does not depend on the iteration order\<close>

text \<open>All nodes at once, judged by the graph before the loop.\<close>

definition promote_all :: "DAG \<Rightarrow> DAG" where
  "promote_all d = d\<lparr>dg_nodes := \<lambda>i. map_option (\<lambda>n.
     if nd_Status n = StatusPending \<and> allDepsDoneLocked d (nd_Dependencies n)
     then n\<lparr>nd_Status := StatusReady\<rparr> else n) (dg_nodes d i)\<rparr>"

lemma foldl_promote:
  "foldl promote_node d ord = d\<lparr>dg_nodes := \<lambda>i. if i \<in> set ord then dg_nodes (promote_all d) i
     else dg_nodes d i\<rparr>"
proof (induction ord rule: rev_induct)
  case (snoc i ord)
  let ?d = "d\<lparr>dg_nodes := \<lambda>i. if i \<in> set ord then dg_nodes (promote_all d) i else dg_nodes d i\<rparr>"
  have done_same: "(case dg_nodes ?d j of None \<Rightarrow> False | Some n \<Rightarrow> nd_Status n = StatusDone) =
      (case dg_nodes d j of None \<Rightarrow> False | Some n \<Rightarrow> nd_Status n = StatusDone)" for j
    by (auto simp: promote_all_def split: option.splits)
  have deps: "allDepsDoneLocked ?d deps = allDepsDoneLocked d deps" for deps
    unfolding allDepsDoneLocked_def done_same ..
  have "promote_node ?d i = d\<lparr>dg_nodes := \<lambda>j. if j \<in> set (ord @ [i]) then dg_nodes (promote_all d) j
      else dg_nodes d j\<rparr>"
    by (auto simp: promote_node_def deps promote_all_def fun_eq_iff split: option.splits)
  with snoc show ?case by simp
qed simp

lemma promote_eq:
  assumes "set ord = dom (dg_nodes d)"
  shows "promoteNewlyReadyLocked ord d = promote_all d"
proof -
  have "(\<lambda>i. if i \<in> set ord then dg_nodes (promote_all d) i else dg_nodes d i) =
      dg_nodes (promote_all d)"
    using assms by (auto simp: fun_eq_iff promote_all_def)
  then show ?thesis
    unfolding promoteNewlyReadyLocked_def foldl_promote by (simp add: promote_all_def)
qed

section \<open>The contract of a mutator\<close>

text \<open>
  A node only moves forward: from Pending to Ready to Active, from there or earlier to Done or
  Failed, and these two are final.
\<close>

definition rank :: "Status \<Rightarrow> nat" where
  "rank s = (case s of StatusPending \<Rightarrow> 0 | StatusReady \<Rightarrow> 1 | StatusActive \<Rightarrow> 2 | _ \<Rightarrow> 3)"

definition advances :: "Node \<Rightarrow> Node \<Rightarrow> bool" where
  "advances n n' \<longleftrightarrow> nd_ID n' = nd_ID n \<and> nd_Dependencies n' = nd_Dependencies n \<and>
     nd_Action n' = nd_Action n \<and> (nd_Status n' = nd_Status n \<or> rank (nd_Status n) < rank (nd_Status n'))"

lemma advances_refl [simp]: "advances n n"
  by (simp add: advances_def)

lemma advances_trans: "advances a b \<Longrightarrow> advances b c \<Longrightarrow> advances a c"
  by (auto simp: advances_def)

lemma advances_terminal: "advances n n' \<Longrightarrow> IsTerminal n \<Longrightarrow> nd_Status n' = nd_Status n"
  by (cases "nd_Status n'") (auto simp: advances_def IsTerminal_def rank_def)

text \<open>
  The graph is well formed when the order lists the keys, each node stands under its own id, a
  Pending node waits for something, and a Ready or Active one does not.
\<close>

definition deps_done :: "DAG \<Rightarrow> Node \<Rightarrow> bool" where
  "deps_done d n = allDepsDoneLocked d (nd_Dependencies n)"

definition dag_inv :: "DAG \<Rightarrow> bool" where
  "dag_inv d \<longleftrightarrow> distinct (dg_insertOrder d) \<and> set (dg_insertOrder d) = dom (dg_nodes d) \<and>
     (\<forall>i n. dg_nodes d i = Some n \<longrightarrow> nd_ID n = i \<and>
        (nd_Status n = StatusPending \<longrightarrow> \<not> deps_done d n) \<and>
        (nd_Status n = StatusReady \<or> nd_Status n = StatusActive \<longrightarrow> deps_done d n))"

text \<open>The nodes of one graph, each moved forward, are those of another.\<close>

definition progress :: "DAG \<Rightarrow> DAG \<Rightarrow> bool" where
  "progress d d' \<longleftrightarrow> (\<forall>i n. dg_nodes d i = Some n \<longrightarrow> (\<exists>n'. dg_nodes d' i = Some n' \<and> advances n n'))"

lemma progress_refl: "progress d d"
  by (simp add: progress_def)

lemma progress_trans: "progress a b \<Longrightarrow> progress b c \<Longrightarrow> progress a c"
  unfolding progress_def by (meson advances_trans)

lemma progress_deps_done:
  assumes "progress d d'" and "deps_done d n"
  shows "deps_done d' n"
proof -
  have "nd_Status n' = StatusDone" if "dg_nodes d i = Some m" "nd_Status m = StatusDone"
    "dg_nodes d' i = Some n'" for i m n'
  proof -
    have "advances m n'" using assms(1) that(1,3) by (fastforce simp: progress_def)
    then show ?thesis using advances_terminal [of m n'] that(2) by (simp add: IsTerminal_def)
  qed
  then show ?thesis
    using assms unfolding deps_done_def allDepsDoneLocked_def list_all_iff progress_def
    by (fastforce split: option.splits)
qed

lemma promote_all_progress: "progress d (promote_all d)"
  by (auto simp: progress_def promote_all_def advances_def rank_def)

lemma deps_done_promote: "deps_done (promote_all d) n \<longleftrightarrow> deps_done d n"
proof -
  have "(case dg_nodes (promote_all d) j of None \<Rightarrow> False | Some n \<Rightarrow> nd_Status n = StatusDone) =
      (case dg_nodes d j of None \<Rightarrow> False | Some n \<Rightarrow> nd_Status n = StatusDone)" for j
    by (auto simp: promote_all_def split: option.splits)
  then show ?thesis by (simp add: deps_done_def allDepsDoneLocked_def)
qed

text \<open>
  What \<open>Update\<close> relies on: the mutator moves the node forward, and never makes it Ready or Active
  unless it was Ready or Active before.
\<close>

locale node_mutator =
  fixes mutate :: "Node \<Rightarrow> Node"
  assumes mutate_advances: "advances n (mutate n)"
    and mutate_active: "nd_Status (mutate n) \<in> {StatusReady, StatusActive} \<Longrightarrow>
      nd_Status n \<in> {StatusReady, StatusActive}"
begin

lemma set_node_progress:
  "dg_nodes d i = Some n \<Longrightarrow> progress d (d\<lparr>dg_nodes := (dg_nodes d)(i \<mapsto> mutate n)\<rparr>)"
  by (auto simp: progress_def mutate_advances)

lemma Update_progress:
  assumes "set ord = dom (dg_nodes d)"
  shows "progress d (snd (Update ord i mutate d))"
proof (cases "dg_nodes d i")
  case (Some n)
  let ?d = "d\<lparr>dg_nodes := (dg_nodes d)(i \<mapsto> mutate n)\<rparr>"
  have "set ord = dom (dg_nodes ?d)" using assms Some by auto
  then have "snd (Update ord i mutate d) = promote_all ?d"
    using Some by (simp add: Update_def promote_eq)
  then show ?thesis
    using progress_trans [OF set_node_progress [OF Some] promote_all_progress] by simp
qed (simp add: Update_def progress_refl)

lemma Update_inv:
  assumes inv: "dag_inv d" and ord: "set ord = dom (dg_nodes d)"
  shows "dag_inv (snd (Update ord i mutate d))"
proof (cases "dg_nodes d i")
  case (Some n)
  let ?d = "d\<lparr>dg_nodes := (dg_nodes d)(i \<mapsto> mutate n)\<rparr>"
  have "set ord = dom (dg_nodes ?d)" using ord Some by auto
  then have upd: "snd (Update ord i mutate d) = promote_all ?d"
    using Some by (simp add: Update_def promote_eq)
  have ready: "deps_done ?d m" if "dg_nodes ?d j = Some m" "nd_Status m \<in> {StatusReady, StatusActive}" for j m
  proof (cases "j = i")
    case True
    then have m: "m = mutate n" using that(1) by simp
    then have "deps_done d n"
      using mutate_active that(2) inv Some by (auto simp: dag_inv_def)
    then have "deps_done d m"
      using mutate_advances [of n] by (simp add: m deps_done_def advances_def)
    then show ?thesis by (rule progress_deps_done [OF set_node_progress [OF Some]])
  next
    case False
    then have "deps_done d m" using that inv by (auto simp: dag_inv_def)
    then show ?thesis by (rule progress_deps_done [OF set_node_progress [OF Some]])
  qed
  have ids: "nd_ID m = j" if "dg_nodes ?d j = Some m" for j m
    using that inv Some mutate_advances [of n] by (auto simp: dag_inv_def advances_def split: if_splits)
  have keys: "distinct (dg_insertOrder ?d)" "set (dg_insertOrder ?d) = dom (dg_nodes (promote_all ?d))"
    using inv Some by (auto simp: dag_inv_def promote_all_def dom_def)
  have "dag_inv (promote_all ?d)"
    unfolding dag_inv_def deps_done_promote
  proof (intro conjI allI impI)
    fix j m assume "dg_nodes (promote_all ?d) j = Some m"
    then obtain k where k: "dg_nodes ?d j = Some k"
      and m: "m = (if nd_Status k = StatusPending \<and> deps_done ?d k then k\<lparr>nd_Status := StatusReady\<rparr> else k)"
      by (auto simp: promote_all_def deps_done_def)
    have same: "deps_done ?d m = deps_done ?d k" by (simp add: m deps_done_def)
    show "nd_ID m = j" using ids [OF k] by (simp add: m)
    show "\<not> deps_done ?d m" if "nd_Status m = StatusPending"
      using that same by (auto simp: m split: if_splits)
    show "deps_done ?d m" if "nd_Status m = StatusReady \<or> nd_Status m = StatusActive"
      using that same ready [OF k] by (auto simp: m split: if_splits)
  qed (use keys in \<open>simp_all add: promote_all_def\<close>)
  then show ?thesis by (simp add: upd)
qed (simp add: Update_def inv)

end

interpretation active_mutator: node_mutator "set_active now" for now
  by unfold_locales (auto simp: set_active_def advances_def rank_def split: if_splits)

interpretation progress_mutator: node_mutator "note_progress now" for now
  by unfold_locales (auto simp: note_progress_def advances_def split: if_splits)

interpretation stall_mutator: node_mutator "note_stall now" for now
  by unfold_locales (auto simp: note_stall_def advances_def split: if_splits)

lemma terminal_rank: "\<not> IsTerminal n \<Longrightarrow> rank (nd_Status n) < 3"
  by (cases "nd_Status n") (auto simp: IsTerminal_def rank_def)

interpretation done_mutator: node_mutator "set_done now" for now
  by unfold_locales (use terminal_rank in \<open>auto simp: set_done_def advances_def rank_def split: if_splits\<close>)

interpretation failed_mutator: node_mutator "set_failed now reason" for now reason
  by unfold_locales (use terminal_rank in \<open>auto simp: set_failed_def advances_def rank_def split: if_splits\<close>)

section \<open>Runs\<close>

text \<open>
  The steps of the graph: a new node (a fresh id, as the deliberator generates them), and the status
  operations, each with some iteration order of the map.
\<close>

inductive dag_step :: "DAG \<Rightarrow> DAG \<Rightarrow> bool" where
  add: "dg_nodes d (nd_ID n) = None \<Longrightarrow> nd_Status n = StatusPending \<Longrightarrow> dag_step d (Add now (Some n) d)"
| mark_active: "set ord = dom (dg_nodes d) \<Longrightarrow> dag_step d (snd (MarkActive ord now i d))"
| note_progress: "set ord = dom (dg_nodes d) \<Longrightarrow> dag_step d (snd (NoteProgress ord now i d))"
| note_stall: "set ord = dom (dg_nodes d) \<Longrightarrow> dag_step d (snd (NoteStall ord now i d))"
| mark_done: "set ord = dom (dg_nodes d) \<Longrightarrow> dag_step d (snd (MarkDone ord now i d))"
| mark_failed: "set ord = dom (dg_nodes d) \<Longrightarrow> dag_step d (snd (MarkFailed ord now i reason d))"

lemma Add_fresh:
  assumes "dg_nodes d (nd_ID n) = None" and "nd_Status n = StatusPending" and "nd_ID n \<noteq> []"
  obtains n' where "Add now (Some n) d = \<lparr>dg_nodes = (dg_nodes d)(nd_ID n \<mapsto> n'),
      dg_insertOrder = dg_insertOrder d @ [nd_ID n]\<rparr>"
    and "nd_ID n' = nd_ID n" and "nd_Dependencies n' = nd_Dependencies n"
    and "nd_Status n' = (if deps_done d n then StatusReady else StatusPending)"
proof -
  define n1 where "n1 = (if nd_CreatedAt n = 0 then n\<lparr>nd_CreatedAt := now\<rparr> else n)"
  have n1: "nd_ID n1 = nd_ID n" "nd_Dependencies n1 = nd_Dependencies n" "nd_Status n1 = StatusPending"
    using assms(2) by (simp_all add: n1_def)
  let ?d = "d\<lparr>dg_insertOrder := dg_insertOrder d @ [nd_ID n]\<rparr>"
  have deps: "allDepsDoneLocked ?d (nd_Dependencies n) = deps_done d n"
    by (simp add: deps_done_def allDepsDoneLocked_def)
  show ?thesis
  proof (rule that)
    show "Add now (Some n) d = \<lparr>dg_nodes = (dg_nodes d)(nd_ID n \<mapsto>
        if deps_done d n then n1\<lparr>nd_Status := StatusReady\<rparr> else n1),
        dg_insertOrder = dg_insertOrder d @ [nd_ID n]\<rparr>"
      using assms by (simp add: Add_def Let_def n1_def [symmetric] n1 deps)
  qed (simp_all add: n1)
qed

lemma Add_inv:
  assumes inv: "dag_inv d" and fresh: "dg_nodes d (nd_ID n) = None" and "nd_Status n = StatusPending"
  shows "dag_inv (Add now (Some n) d) \<and> progress d (Add now (Some n) d)"
proof (cases "nd_ID n = []")
  case False
  obtain n' where new: "Add now (Some n) d = \<lparr>dg_nodes = (dg_nodes d)(nd_ID n \<mapsto> n'),
      dg_insertOrder = dg_insertOrder d @ [nd_ID n]\<rparr>" (is "_ = ?d")
    and n': "nd_ID n' = nd_ID n" "nd_Dependencies n' = nd_Dependencies n"
      "nd_Status n' = (if deps_done d n then StatusReady else StatusPending)"
    by (rule Add_fresh [OF assms(2,3) False])
  have "(case dg_nodes ?d j of None \<Rightarrow> False | Some n \<Rightarrow> nd_Status n = StatusDone) =
      (case dg_nodes d j of None \<Rightarrow> False | Some n \<Rightarrow> nd_Status n = StatusDone)" for j
    using fresh n'(3) by (auto split: if_splits)
  then have deps: "deps_done ?d m = deps_done d m" for m
    by (simp add: deps_done_def allDepsDoneLocked_def)
  have "deps_done d n' = deps_done d n" by (simp add: deps_done_def n'(2))
  then have "dag_inv ?d"
    unfolding dag_inv_def deps using inv fresh n' by (auto simp: dag_inv_def split: if_splits)
  moreover have "progress d ?d" using fresh by (auto simp: progress_def)
  ultimately show ?thesis by (simp add: new)
qed (simp add: Add_def inv progress_refl)

lemmas mutator_defs = MarkActive_def NoteProgress_def NoteStall_def MarkDone_def MarkFailed_def

lemma dag_step_inv:
  "dag_step d d' \<Longrightarrow> dag_inv d \<Longrightarrow> dag_inv d' \<and> progress d d'"
  by (induction rule: dag_step.induct)
    (simp_all add: mutator_defs Add_inv active_mutator.Update_inv active_mutator.Update_progress
      progress_mutator.Update_inv progress_mutator.Update_progress stall_mutator.Update_inv
      stall_mutator.Update_progress done_mutator.Update_inv done_mutator.Update_progress
      failed_mutator.Update_inv failed_mutator.Update_progress)

lemma dag_run_inv:
  assumes "dag_step\<^sup>*\<^sup>* d d'" and "dag_inv d"
  shows "dag_inv d' \<and> progress d d'"
  using assms
  by (induction rule: rtranclp_induct) (auto simp: progress_refl dest: dag_step_inv intro: progress_trans)

lemma New_inv: "dag_inv New"
  by (simp add: dag_inv_def New_def)

section \<open>Properties of the plan\<close>

text \<open>
  Promotion does not depend on Go's map iteration order: whatever order the loop visits the nodes
  in, it makes Ready exactly the Pending nodes whose dependencies were all Done before it started.
\<close>

theorem promotion_order_independent:
  assumes "set ord = dom (dg_nodes d)" and "set ord' = dom (dg_nodes d)"
  shows "promoteNewlyReadyLocked ord d = promoteNewlyReadyLocked ord' d \<and>
    (\<forall>i. dg_nodes (promoteNewlyReadyLocked ord d) i = map_option (\<lambda>n.
       if nd_Status n = StatusPending \<and> allDepsDoneLocked d (nd_Dependencies n)
       then n\<lparr>nd_Status := StatusReady\<rparr> else n) (dg_nodes d i))"
  by (simp add: promote_eq [OF assms(1)] promote_eq [OF assms(2)] promote_all_def)

definition plan_node :: "string \<Rightarrow> string list \<Rightarrow> Node" where
  "plan_node i deps = \<lparr>nd_ID = i, nd_Action = \<lparr>ac_Type = ''wait'', ac_DigType = [], ac_BuildType = 0,
     ac_ZoneType = 0, ac_OrderType = 0, ac_Quantity = 0, ac_StockpileGroups = 0, ac_SmoothType = 0,
     ac_AlertID = 0, ac_Region = \<lparr>pr_X1 = 0, pr_Y1 = 0, pr_Z1 = 0, pr_X2 = 0, pr_Y2 = 0, pr_Z2 = 0\<rparr>,
     ac_Description = []\<rparr>, nd_Dependencies = deps, nd_Status = StatusPending, nd_CreatedAt = 1,
     nd_StartedAt = 0, nd_DoneAt = 0, nd_LastProgressAt = 0, nd_StallNotedAt = 0, nd_Result = Text [],
     nd_PredictionCount = 0, nd_PredictionsConfirmed = 0, nd_PredictionsDiverged = 0,
     nd_CommittingTurn = 1\<rparr>"

definition two_step_plan :: DAG where
  "two_step_plan = Add 1 (Some (plan_node ''b'' [''a''])) (Add 1 (Some (plan_node ''a'' [])) New)"

lemma two_step_plan_eq:
  "two_step_plan = \<lparr>dg_nodes = [''a'' \<mapsto> (plan_node ''a'' [])\<lparr>nd_Status := StatusReady\<rparr>,
     ''b'' \<mapsto> plan_node ''b'' [''a'']], dg_insertOrder = [''a'', ''b'']\<rparr>"
  by (simp add: two_step_plan_def Add_def New_def plan_node_def allDepsDoneLocked_def Let_def)

lemma two_step_plan_run: "dag_step\<^sup>*\<^sup>* New two_step_plan"
proof -
  have "dag_step New (Add 1 (Some (plan_node ''a'' [])) New)"
    by (rule dag_step.add) (simp_all add: New_def plan_node_def)
  moreover have "dag_step (Add 1 (Some (plan_node ''a'' [])) New) two_step_plan"
    unfolding two_step_plan_def
    by (rule dag_step.add) (simp_all add: Add_def New_def plan_node_def Let_def allDepsDoneLocked_def)
  ultimately show ?thesis by simp
qed

theorem promotion_order_independent_witness:
  "promoteNewlyReadyLocked [''a'', ''b''] two_step_plan = promoteNewlyReadyLocked [''b'', ''a''] two_step_plan"
  using promotion_order_independent [of "[''a'', ''b'']" two_step_plan "[''b'', ''a'']"]
  by (auto simp: two_step_plan_eq insert_commute)



text \<open>
  Over any further run every node stays in the plan, with its id, action and dependencies, and its
  status only moves forward along Pending, Ready, Active, Done or Failed; Done and Failed are final.
\<close>

theorem plan_lifecycle:
  assumes "dag_step\<^sup>*\<^sup>* New d" and "dag_step\<^sup>*\<^sup>* d d'" and "Get d i = Some n"
  shows "\<exists>n'. Get d' i = Some n' \<and> advances n n' \<and> (IsTerminal n \<longrightarrow> nd_Status n' = nd_Status n)"
proof -
  have "dag_inv d" using dag_run_inv [OF assms(1) New_inv] by simp
  then have "progress d d'" using dag_run_inv [OF assms(2)] by simp
  then show ?thesis
    using assms(3) advances_terminal unfolding progress_def Get_def by blast
qed

theorem plan_lifecycle_witness:
  "\<exists>n'. Get (snd (MarkDone [''a'', ''b''] 7 ''a'' two_step_plan)) ''a'' = Some n' \<and>
     advances ((plan_node ''a'' [])\<lparr>nd_Status := StatusReady\<rparr>) n'"
proof -
  have "dag_step\<^sup>*\<^sup>* two_step_plan (snd (MarkDone [''a'', ''b''] 7 ''a'' two_step_plan))"
    by (rule r_into_rtranclp, rule dag_step.mark_done) (auto simp: two_step_plan_eq)
  moreover have "Get two_step_plan ''a'' = Some ((plan_node ''a'' [])\<lparr>nd_Status := StatusReady\<rparr>)"
    by (simp add: two_step_plan_eq Get_def)
  ultimately show ?thesis
    using plan_lifecycle [OF two_step_plan_run] by blast
qed

text \<open>
  MarkActive says that the transition happened whenever the node exists: called on a node that is
  not Ready (already Active, Done or Failed, or still Pending after the graph's promotion) it returns
  true and changes neither its status nor its start time.
\<close>

theorem mark_active_reports_true:
  assumes "dag_inv d" and "set ord = dom (dg_nodes d)" and "Get d i = Some n"
    and "nd_Status n \<noteq> StatusReady"
  shows "fst (MarkActive ord now i d) = True \<and> Get (snd (MarkActive ord now i d)) i = Some n"
proof -
  have same: "d\<lparr>dg_nodes := (dg_nodes d)(i \<mapsto> set_active now n)\<rparr> = d"
    using assms(3,4) by (simp add: set_active_def Get_def fun_upd_idem)
  have "MarkActive ord now i d = (True, promote_all d)"
    using assms(2,3) by (simp add: MarkActive_def Update_def Get_def same promote_eq)
  moreover have "\<not> (nd_Status n = StatusPending \<and> deps_done d n)"
    using assms(1,3) by (auto simp: dag_inv_def Get_def)
  ultimately show ?thesis
    using assms(3) by (auto simp: Get_def promote_all_def deps_done_def)
qed

theorem mark_active_reports_true_witness:
  "fst (MarkActive [''a'', ''b''] 9 ''b'' two_step_plan) = True \<and>
   Get (snd (MarkActive [''a'', ''b''] 9 ''b'' two_step_plan)) ''b'' = Some (plan_node ''b'' [''a''])"
proof (rule mark_active_reports_true)
  show "dag_inv two_step_plan" using dag_run_inv [OF two_step_plan_run New_inv] by simp
qed (auto simp: two_step_plan_eq Get_def plan_node_def)

end
