(* ===== verification/Predicted.thy ===== *)
theory Predicted
  imports Go_Base
begin

text \<open>
  The predicted layer of the world model (\<open>internal/worldmodel/predicted.go\<close>, \<open>work.go\<close>,
  \<open>types.go\<close>): per-tile predictions, an index from plan nodes to their tiles, and one counter for each
  status. A loop over a Go map takes the order in which it meets the keys as an argument. Every
  method holds the lock throughout and is one step.
\<close>

section \<open>Data\<close>

record WCoord =
  wc_X :: i16
  wc_Y :: i16
  wc_Z :: i16

datatype Material = MaterialUnknown | MaterialSoil | MaterialStone | MaterialObsidian

record WorkEstimate =
  we_TileCount :: int
  we_Material :: Material
  we_Parallelism :: int

datatype PredictionStatus = PredictionOutstanding | PredictionConfirmed | PredictionDiverged

record TilePrediction =
  tp_Coord :: WCoord
  tp_Action :: string
  tp_PredictedFlags :: u8
  tp_PredictedTile :: u16
  tp_PlanNodeID :: string
  tp_PredictedAtTick :: u64
  tp_PredictedAt :: go_time
  tp_Estimate :: WorkEstimate
  tp_Status :: PredictionStatus
  tp_UpdatedAt :: go_time
  tp_DivergedReason :: string

record PredictedState =
  ps_tiles :: "WCoord \<rightharpoonup> TilePrediction"
  ps_byPlanNode :: "string \<rightharpoonup> WCoord set"
  ps_outstandingCount :: int
  ps_confirmedCount :: int
  ps_divergedCount :: int

definition newPredictedState :: PredictedState where
  "newPredictedState = \<lparr>ps_tiles = Map.empty, ps_byPlanNode = Map.empty,
     ps_outstandingCount = 0, ps_confirmedCount = 0, ps_divergedCount = 0\<rparr>"

section \<open>Operations\<close>

definition adjustCount :: "PredictionStatus \<Rightarrow> int \<Rightarrow> PredictedState \<Rightarrow> PredictedState" where
  "adjustCount s delta p = (case s of
       PredictionOutstanding \<Rightarrow> p\<lparr>ps_outstandingCount := ps_outstandingCount p + delta\<rparr>
     | PredictionConfirmed \<Rightarrow> p\<lparr>ps_confirmedCount := ps_confirmedCount p + delta\<rparr>
     | PredictionDiverged \<Rightarrow> p\<lparr>ps_divergedCount := ps_divergedCount p + delta\<rparr>)"

text \<open>Taking a tile out of its node's set; a set that becomes empty goes.\<close>

definition drop_ref :: "string \<Rightarrow> WCoord \<Rightarrow> PredictedState \<Rightarrow> PredictedState" where
  "drop_ref i c p = (case ps_byPlanNode p i of
       None \<Rightarrow> p
     | Some coords \<Rightarrow> p\<lparr>ps_byPlanNode := (ps_byPlanNode p)
         (i := if coords - {c} = {} then None else Some (coords - {c}))\<rparr>)"

definition Predict :: "go_time \<Rightarrow> TilePrediction \<Rightarrow> PredictedState \<Rightarrow> PredictedState" where
  "Predict now pred p =
     (let p = (case ps_tiles p (tp_Coord pred) of
             None \<Rightarrow> p
           | Some existing \<Rightarrow>
               let p = adjustCount (tp_Status existing) (-1) p
               in if tp_PlanNodeID existing \<noteq> tp_PlanNodeID pred
                  then drop_ref (tp_PlanNodeID existing) (tp_Coord existing) p else p);
          pred = (if tp_PredictedAt pred = 0 then pred\<lparr>tp_PredictedAt := now\<rparr> else pred);
          pred = pred\<lparr>tp_Status := PredictionOutstanding, tp_UpdatedAt := now, tp_DivergedReason := []\<rparr>;
          p = p\<lparr>ps_tiles := (ps_tiles p)(tp_Coord pred \<mapsto> pred)\<rparr>;
          p = (if tp_PlanNodeID pred \<noteq> []
               then p\<lparr>ps_byPlanNode := (ps_byPlanNode p)(tp_PlanNodeID pred \<mapsto>
                 insert (tp_Coord pred) (case ps_byPlanNode p (tp_PlanNodeID pred) of None \<Rightarrow> {} | Some s \<Rightarrow> s))\<rparr>
               else p)
      in p\<lparr>ps_outstandingCount := ps_outstandingCount p + 1\<rparr>)"

definition GetPrediction :: "PredictedState \<Rightarrow> WCoord \<Rightarrow> TilePrediction option" where
  "GetPrediction p c = ps_tiles p c"

definition Confirm :: "go_time \<Rightarrow> WCoord \<Rightarrow> PredictedState \<Rightarrow> bool \<times> PredictedState" where
  "Confirm now c p = (case ps_tiles p c of
       None \<Rightarrow> (False, p)
     | Some pred \<Rightarrow>
       if tp_Status pred \<noteq> PredictionOutstanding then (False, p)
       else let p = adjustCount (tp_Status pred) (-1) p;
                pred = pred\<lparr>tp_Status := PredictionConfirmed, tp_UpdatedAt := now\<rparr>
            in (True, adjustCount (tp_Status pred) 1 (p\<lparr>ps_tiles := (ps_tiles p)(c \<mapsto> pred)\<rparr>)))"

definition MarkDiverged :: "go_time \<Rightarrow> WCoord \<Rightarrow> string \<Rightarrow> PredictedState \<Rightarrow> bool \<times> PredictedState" where
  "MarkDiverged now c reason p = (case ps_tiles p c of
       None \<Rightarrow> (False, p)
     | Some pred \<Rightarrow>
       if tp_Status pred \<noteq> PredictionOutstanding then (False, p)
       else let p = adjustCount (tp_Status pred) (-1) p;
                pred = pred\<lparr>tp_Status := PredictionDiverged, tp_DivergedReason := reason, tp_UpdatedAt := now\<rparr>
            in (True, adjustCount (tp_Status pred) 1 (p\<lparr>ps_tiles := (ps_tiles p)(c \<mapsto> pred)\<rparr>)))"

fun remove_tiles :: "WCoord list \<Rightarrow> int \<Rightarrow> PredictedState \<Rightarrow> int \<times> PredictedState" where
  "remove_tiles [] removed p = (removed, p)"
| "remove_tiles (c # cs) removed p = (case ps_tiles p c of
       None \<Rightarrow> remove_tiles cs removed p
     | Some pred \<Rightarrow>
         let p = adjustCount (tp_Status pred) (-1) p
         in remove_tiles cs (removed + 1) (p\<lparr>ps_tiles := (ps_tiles p)(c := None)\<rparr>))"

text \<open>The order \<open>ord\<close> lists the node's tiles.\<close>

definition RemoveByPlanNode :: "WCoord list \<Rightarrow> string \<Rightarrow> PredictedState \<Rightarrow> int \<times> PredictedState" where
  "RemoveByPlanNode ord i p = (case ps_byPlanNode p i of
       None \<Rightarrow> (0, p)
     | Some _ \<Rightarrow>
         let (removed, p) = remove_tiles ord 0 p
         in (removed, p\<lparr>ps_byPlanNode := (ps_byPlanNode p)(i := None)\<rparr>))"

definition retire_tile :: "int \<Rightarrow> WCoord \<Rightarrow> int \<times> PredictedState \<Rightarrow> int \<times> PredictedState" where
  "retire_tile cutoff c acc = (case acc of (retired, p) \<Rightarrow> (case ps_tiles p c of
       None \<Rightarrow> (retired, p)
     | Some pred \<Rightarrow>
       if tp_Status pred \<noteq> PredictionConfirmed then (retired, p)
       else if cutoff < int (tp_UpdatedAt pred) then (retired, p)
       else let p = adjustCount (tp_Status pred) (-1) p
            in (retired + 1, drop_ref (tp_PlanNodeID pred) c (p\<lparr>ps_tiles := (ps_tiles p)(c := None)\<rparr>))))"

text \<open>The order \<open>ord\<close> lists the tiles.\<close>

definition RetireConfirmedOlderThan :: "WCoord list \<Rightarrow> int \<Rightarrow> PredictedState \<Rightarrow> int \<times> PredictedState" where
  "RetireConfirmedOlderThan ord cutoff p = fold (retire_tile cutoff) ord (0, p)"

definition with_status :: "PredictionStatus \<Rightarrow> WCoord list \<Rightarrow> PredictedState \<Rightarrow> TilePrediction list" where
  "with_status s ord p = filter (\<lambda>pred. tp_Status pred = s) (List.map_filter (ps_tiles p) ord)"

definition Outstanding :: "WCoord list \<Rightarrow> PredictedState \<Rightarrow> TilePrediction list" where
  "Outstanding ord p = with_status PredictionOutstanding ord p"

definition Diverged :: "WCoord list \<Rightarrow> PredictedState \<Rightarrow> TilePrediction list" where
  "Diverged ord p = with_status PredictionDiverged ord p"

record PredictedSummary =
  sm_OutstandingCount :: int
  sm_ConfirmedCount :: int
  sm_DivergedCount :: int
  sm_Outstanding :: "TilePrediction list"

definition summary :: "WCoord list \<Rightarrow> PredictedState \<Rightarrow> PredictedSummary" where
  "summary ord p = \<lparr>sm_OutstandingCount = ps_outstandingCount p, sm_ConfirmedCount = ps_confirmedCount p,
     sm_DivergedCount = ps_divergedCount p,
     sm_Outstanding = (if ps_outstandingCount p > 0
       then with_status PredictionOutstanding ord p else [])\<rparr>"

section \<open>The invariant\<close>

text \<open>The tiles of a status, and the index the tiles determine.\<close>

definition status_tiles :: "PredictionStatus \<Rightarrow> (WCoord \<rightharpoonup> TilePrediction) \<Rightarrow> WCoord set" where
  "status_tiles s m = {c. \<exists>t. m c = Some t \<and> tp_Status t = s}"

definition node_tiles :: "(WCoord \<rightharpoonup> TilePrediction) \<Rightarrow> string \<Rightarrow> WCoord set" where
  "node_tiles m i = {c. \<exists>t. m c = Some t \<and> tp_PlanNodeID t = i}"

definition index :: "(WCoord \<rightharpoonup> TilePrediction) \<Rightarrow> string \<rightharpoonup> WCoord set" where
  "index m i = (if i = [] \<or> node_tiles m i = {} then None else Some (node_tiles m i))"

definition counts_ok :: "PredictedState \<Rightarrow> bool" where
  "counts_ok p \<longleftrightarrow> finite (dom (ps_tiles p)) \<and> (\<forall>c t. ps_tiles p c = Some t \<longrightarrow> tp_Coord t = c) \<and>
     ps_outstandingCount p = int (card (status_tiles PredictionOutstanding (ps_tiles p))) \<and>
     ps_confirmedCount p = int (card (status_tiles PredictionConfirmed (ps_tiles p))) \<and>
     ps_divergedCount p = int (card (status_tiles PredictionDiverged (ps_tiles p)))"

definition pred_inv :: "PredictedState \<Rightarrow> bool" where
  "pred_inv p \<longleftrightarrow> counts_ok p \<and> ps_byPlanNode p = index (ps_tiles p)"

definition has_status :: "PredictionStatus \<Rightarrow> TilePrediction option \<Rightarrow> int" where
  "has_status s x = (case x of None \<Rightarrow> 0 | Some t \<Rightarrow> if tp_Status t = s then 1 else 0)"

lemma has_status_simps [simp]:
  "has_status s None = 0" "has_status s (Some t) = (if tp_Status t = s then 1 else 0)"
  by (simp_all add: has_status_def)

lemma card_status_update:
  assumes "finite (dom m)"
  shows "int (card (status_tiles s (m(c := x)))) =
    int (card (status_tiles s m)) - has_status s (m c) + has_status s x"
proof -
  have fin: "finite (status_tiles s m)"
    using assms by (rule finite_subset [rotated]) (auto simp: status_tiles_def)
  have eq: "status_tiles s (m(c := x)) =
      (if has_status s x = 1 then insert c (status_tiles s m - {c}) else status_tiles s m - {c})"
    by (auto simp: status_tiles_def has_status_def split: option.splits if_splits)
  define n where "n = card (status_tiles s m - {c})"
  have new: "card (status_tiles s (m(c := x))) = (if has_status s x = 1 then Suc n else n)"
    using fin by (simp add: eq n_def card.insert_remove)
  have old: "card (status_tiles s m) = (if c \<in> status_tiles s m then Suc n else n)"
    unfolding n_def using card.remove [OF fin] by (metis Diff_empty Diff_insert0)
  have "has_status s (m c) = (if c \<in> status_tiles s m then 1 else 0)"
    by (auto simp: status_tiles_def has_status_def split: option.splits)
  moreover have "has_status s x = 0 \<or> has_status s x = 1"
    by (simp add: has_status_def split: option.splits)
  ultimately show ?thesis by (auto simp: new old)
qed

lemma adjustCount_simps [simp]:
  "ps_tiles (adjustCount s d p) = ps_tiles p" "ps_byPlanNode (adjustCount s d p) = ps_byPlanNode p"
  by (cases s; simp add: adjustCount_def)+

lemma drop_ref_simps [simp]:
  "ps_tiles (drop_ref i c p) = ps_tiles p"
  "ps_outstandingCount (drop_ref i c p) = ps_outstandingCount p"
  "ps_confirmedCount (drop_ref i c p) = ps_confirmedCount p"
  "ps_divergedCount (drop_ref i c p) = ps_divergedCount p"
  by (simp_all add: drop_ref_def split: option.splits)

lemma drop_ref_adjust [simp]:
  "ps_byPlanNode (drop_ref i c (adjustCount s d p)) = ps_byPlanNode (drop_ref i c p)"
  by (simp add: drop_ref_def split: option.splits)

lemma counts_update:
  assumes "counts_ok p" and "ps_tiles p' = (ps_tiles p)(c := x)"
    and "\<And>t. x = Some t \<Longrightarrow> tp_Coord t = c"
    and "ps_outstandingCount p' = ps_outstandingCount p - has_status PredictionOutstanding (ps_tiles p c) +
      has_status PredictionOutstanding x"
    and "ps_confirmedCount p' = ps_confirmedCount p - has_status PredictionConfirmed (ps_tiles p c) +
      has_status PredictionConfirmed x"
    and "ps_divergedCount p' = ps_divergedCount p - has_status PredictionDiverged (ps_tiles p c) +
      has_status PredictionDiverged x"
  shows "counts_ok p'"
proof -
  have fin: "finite (dom (ps_tiles p))" using assms(1) by (simp add: counts_ok_def)
  have "finite (dom ((ps_tiles p)(c := x)))" using fin by (auto simp: dom_fun_upd)
  then show ?thesis
    using assms(1,3-6) unfolding counts_ok_def assms(2) card_status_update [OF fin] by simp
qed

text \<open>How one tile changes the index.\<close>

lemma node_tiles_update: "node_tiles (m(c := x)) i =
    (if \<exists>t. x = Some t \<and> tp_PlanNodeID t = i then insert c (node_tiles m i) else node_tiles m i - {c})"
  by (auto simp: node_tiles_def)

lemma index_same_node:
  assumes "m c = Some t" and "tp_PlanNodeID t' = tp_PlanNodeID t"
  shows "index (m(c \<mapsto> t')) = index m"
proof -
  have "node_tiles (m(c \<mapsto> t')) = node_tiles m"
    using assms by (auto simp: node_tiles_def fun_eq_iff)
  then show ?thesis by (simp add: index_def fun_eq_iff)
qed

lemma index_other_node:
  assumes "m c = Some t" and "j \<noteq> tp_PlanNodeID t"
  shows "index (m(c := None)) j = index m j"
proof -
  have "node_tiles (m(c := None)) j = node_tiles m j"
    using assms by (auto simp: node_tiles_def)
  then show ?thesis by (simp add: index_def)
qed

lemma drop_ref_index:
  assumes "ps_byPlanNode p = index m" and "m c = Some t" and "i = tp_PlanNodeID t"
  shows "ps_byPlanNode (drop_ref i c p) = index (m(c := None))"
proof
  fix j
  have c: "c \<in> node_tiles m i" using assms(2,3) by (auto simp: node_tiles_def)
  have other: "node_tiles m j - {c} = node_tiles m j" if "j \<noteq> i"
    using that assms(2,3) by (auto simp: node_tiles_def)
  show "ps_byPlanNode (drop_ref i c p) j = index (m(c := None)) j"
    using c other assms(1) by (cases "j = i") (auto simp: drop_ref_def index_def node_tiles_update)
qed

lemma newPredictedState_inv: "pred_inv newPredictedState"
  by (auto simp: pred_inv_def counts_ok_def newPredictedState_def status_tiles_def index_def
      node_tiles_def fun_eq_iff)

lemma Predict_tiles: "ps_tiles (Predict now pred p) = (ps_tiles p)(tp_Coord pred \<mapsto>
    pred\<lparr>tp_PredictedAt := if tp_PredictedAt pred = 0 then now else tp_PredictedAt pred,
      tp_Status := PredictionOutstanding, tp_UpdatedAt := now, tp_DivergedReason := []\<rparr>)"
  by (auto simp: Predict_def Let_def split: option.splits)

lemma Predict_counts: "counts_ok p \<Longrightarrow> counts_ok (Predict now pred p)"
  by (rule counts_update [OF _ Predict_tiles])
    (auto simp: Predict_def Let_def adjustCount_def drop_ref_def split: option.splits PredictionStatus.splits)

lemma Predict_inv:
  assumes "pred_inv p"
  shows "pred_inv (Predict now pred p)"
proof -
  let ?c = "tp_Coord pred" and ?i = "tp_PlanNodeID pred" and ?m = "ps_tiles p"
  have idx: "ps_byPlanNode p = index ?m" using assms by (simp add: pred_inv_def)
  have coord: "tp_Coord t = ?c" if "?m ?c = Some t" for t
    using assms that by (auto simp: pred_inv_def counts_ok_def)
  define q where "q = (case ?m ?c of None \<Rightarrow> p | Some existing \<Rightarrow>
      if tp_PlanNodeID existing \<noteq> ?i then drop_ref (tp_PlanNodeID existing) ?c p else p)"
  have q: "ps_byPlanNode q j = (if j = ?i then index ?m j else index (?m(?c := None)) j)" for j
  proof (cases "?m ?c")
    case None
    then show ?thesis by (simp add: q_def idx fun_upd_idem)
  next
    case (Some t)
    show ?thesis
      using Some drop_ref_index [OF idx Some refl] index_other_node [of ?m ?c t] by (auto simp: q_def idx)
  qed
  have "ps_byPlanNode (Predict now pred p) = (if ?i = [] then ps_byPlanNode q
      else (ps_byPlanNode q)(?i \<mapsto> insert ?c (case ps_byPlanNode q ?i of None \<Rightarrow> {} | Some s \<Rightarrow> s)))"
  proof (cases "?m ?c")
    case None
    then show ?thesis by (simp add: Predict_def Let_def q_def)
  next
    case (Some t)
    with coord [OF Some] show ?thesis by (simp add: Predict_def Let_def q_def)
  qed
  also have "\<dots> = index (ps_tiles (Predict now pred p))"
    unfolding Predict_tiles
    by (rule ext) (auto simp: q index_def node_tiles_update)
  finally show ?thesis using Predict_counts assms by (simp add: pred_inv_def)
qed

lemma Confirm_cases:
  obtains "Confirm now c p = (False, p)" and "c \<notin> status_tiles PredictionOutstanding (ps_tiles p)"
  | t where "ps_tiles p c = Some t" and "tp_Status t = PredictionOutstanding"
    and "Confirm now c p = (True, p\<lparr>ps_tiles := (ps_tiles p)(c \<mapsto>
        t\<lparr>tp_Status := PredictionConfirmed, tp_UpdatedAt := now\<rparr>),
      ps_outstandingCount := ps_outstandingCount p - 1, ps_confirmedCount := ps_confirmedCount p + 1\<rparr>)"
proof (cases "ps_tiles p c")
  case None
  then show ?thesis using that(1) by (simp add: Confirm_def status_tiles_def)
next
  case (Some t)
  then show ?thesis
    using that by (cases "tp_Status t = PredictionOutstanding")
      (simp_all add: Confirm_def adjustCount_def Let_def status_tiles_def)
qed

lemma MarkDiverged_cases:
  obtains "MarkDiverged now c reason p = (False, p)" and "c \<notin> status_tiles PredictionOutstanding (ps_tiles p)"
  | t where "ps_tiles p c = Some t" and "tp_Status t = PredictionOutstanding"
    and "MarkDiverged now c reason p = (True, p\<lparr>ps_tiles := (ps_tiles p)(c \<mapsto>
        t\<lparr>tp_Status := PredictionDiverged, tp_DivergedReason := reason, tp_UpdatedAt := now\<rparr>),
      ps_outstandingCount := ps_outstandingCount p - 1, ps_divergedCount := ps_divergedCount p + 1\<rparr>)"
proof (cases "ps_tiles p c")
  case None
  then show ?thesis using that(1) by (simp add: MarkDiverged_def status_tiles_def)
next
  case (Some t)
  then show ?thesis
    using that by (cases "tp_Status t = PredictionOutstanding")
      (simp_all add: MarkDiverged_def adjustCount_def Let_def status_tiles_def)
qed

lemma tile_coord: "pred_inv p \<Longrightarrow> ps_tiles p c = Some t \<Longrightarrow> tp_Coord t = c"
  by (simp add: pred_inv_def counts_ok_def)

text \<open>A tile whose prediction changes its status only.\<close>

lemma restatus_inv:
  assumes inv: "pred_inv p" and at: "ps_tiles p c = Some t"
    and t': "tp_Coord t' = tp_Coord t" "tp_PlanNodeID t' = tp_PlanNodeID t"
    and p': "ps_tiles p' = (ps_tiles p)(c \<mapsto> t')" "ps_byPlanNode p' = ps_byPlanNode p"
    and o: "ps_outstandingCount p' = ps_outstandingCount p - has_status PredictionOutstanding (Some t) +
      has_status PredictionOutstanding (Some t')"
    and f: "ps_confirmedCount p' = ps_confirmedCount p - has_status PredictionConfirmed (Some t) +
      has_status PredictionConfirmed (Some t')"
    and d: "ps_divergedCount p' = ps_divergedCount p - has_status PredictionDiverged (Some t) +
      has_status PredictionDiverged (Some t')"
  shows "pred_inv p'"
proof -
  have cnt: "counts_ok p" and idx: "ps_byPlanNode p = index (ps_tiles p)"
    using inv by (simp_all add: pred_inv_def)
  have "counts_ok p'"
    by (rule counts_update [OF cnt p'(1)]) (use tile_coord [OF inv at] t'(1) at o f d in simp_all)
  moreover have "ps_byPlanNode p' = index (ps_tiles p')"
    unfolding p' idx using index_same_node [of "ps_tiles p" c t t'] at t'(2) by simp
  ultimately show ?thesis by (simp add: pred_inv_def)
qed

lemma Confirm_inv: "pred_inv p \<Longrightarrow> pred_inv (snd (Confirm now c p))"
proof (cases rule: Confirm_cases [of now c p])
  case (2 t)
  assume "pred_inv p"
  then show ?thesis
    by (rule restatus_inv [OF _ 2(1), of "t\<lparr>tp_Status := PredictionConfirmed, tp_UpdatedAt := now\<rparr>"])
      (simp_all add: 2)
qed simp

lemma MarkDiverged_inv: "pred_inv p \<Longrightarrow> pred_inv (snd (MarkDiverged now c reason p))"
proof (cases rule: MarkDiverged_cases [of now c reason p])
  case (2 t)
  assume "pred_inv p"
  then show ?thesis
    by (rule restatus_inv [OF _ 2(1), of "t\<lparr>tp_Status := PredictionDiverged, tp_DivergedReason := reason, tp_UpdatedAt := now\<rparr>"])
      (simp_all add: 2)
qed simp

lemma remove_tiles_correct:
  "counts_ok p \<Longrightarrow> distinct cs \<Longrightarrow> set cs \<subseteq> dom (ps_tiles p) \<Longrightarrow> remove_tiles cs k p = (removed, p') \<Longrightarrow>
     counts_ok p' \<and> ps_tiles p' = ps_tiles p |` (- set cs) \<and> ps_byPlanNode p' = ps_byPlanNode p \<and>
     removed = k + int (length cs)"
proof (induction cs arbitrary: k p)
  case Nil
  then show ?case by (auto simp: restrict_map_def fun_eq_iff)
next
  case (Cons c cs)
  then obtain t where t: "ps_tiles p c = Some t" by auto
  let ?q = "(adjustCount (tp_Status t) (-1) p)\<lparr>ps_tiles := (ps_tiles p)(c := None)\<rparr>"
  have q: "counts_ok ?q"
    by (rule counts_update [OF Cons.prems(1), of _ c None])
      (simp_all add: t adjustCount_def split: PredictionStatus.splits)
  have "remove_tiles cs (k + 1) ?q = (removed, p')" using Cons.prems(4) t by (simp add: Let_def)
  then have "counts_ok p' \<and> ps_tiles p' = ps_tiles ?q |` (- set cs) \<and> ps_byPlanNode p' = ps_byPlanNode ?q \<and>
      removed = (k + 1) + int (length cs)"
    using Cons.prems(2,3) by (intro Cons.IH [OF q]) auto
  moreover have "ps_tiles ?q |` (- set cs) = ps_tiles p |` (- set (c # cs))"
    by (auto simp: restrict_map_def fun_eq_iff)
  ultimately show ?case by simp
qed

lemma RemoveByPlanNode_correct:
  assumes inv: "pred_inv p" and "distinct ord" and "set ord = node_tiles (ps_tiles p) i" and "i \<noteq> []"
  shows "pred_inv (snd (RemoveByPlanNode ord i p))"
    and "ps_tiles (snd (RemoveByPlanNode ord i p)) = ps_tiles p |` (- node_tiles (ps_tiles p) i)"
    and "fst (RemoveByPlanNode ord i p) = int (card (node_tiles (ps_tiles p) i))"
proof -
  let ?N = "node_tiles (ps_tiles p) i" and ?r = "RemoveByPlanNode ord i p"
  have idx: "ps_byPlanNode p = index (ps_tiles p)" and cnt: "counts_ok p"
    using inv by (simp_all add: pred_inv_def)
  obtain removed q where rt: "remove_tiles ord 0 p = (removed, q)" by fastforce
  have "set ord \<subseteq> dom (ps_tiles p)" using assms(3) by (auto simp: node_tiles_def)
  then have q: "counts_ok q" "ps_tiles q = ps_tiles p |` (- ?N)" "ps_byPlanNode q = ps_byPlanNode p"
    "removed = int (length ord)"
    using remove_tiles_correct [OF cnt assms(2) _ rt] assms(3) by auto
  have r: "?r = (if ?N = {} then (0, p) else (removed, q\<lparr>ps_byPlanNode := (ps_byPlanNode p)(i := None)\<rparr>))"
    using assms(4) by (simp add: RemoveByPlanNode_def idx index_def rt q(3))
  have len: "length ord = card ?N" using assms(2,3) by (metis distinct_card)
  have same: "ps_tiles p |` (- ?N) = ps_tiles p" if "?N = {}" using that by (simp add: restrict_map_def)
  show "ps_tiles (snd ?r) = ps_tiles p |` (- ?N)" using same by (simp add: r q(2))
  show "fst ?r = int (card ?N)" using len q(4) by (simp add: r)
  have "index (ps_tiles p |` (- ?N)) = (index (ps_tiles p))(i := None)"
  proof
    fix j
    have "node_tiles (ps_tiles p |` (- ?N)) j = (if j = i then {} else node_tiles (ps_tiles p) j)"
      by (auto simp: node_tiles_def restrict_map_def)
    then show "index (ps_tiles p |` (- ?N)) j = ((index (ps_tiles p))(i := None)) j"
      by (auto simp: index_def)
  qed
  then show "pred_inv (snd ?r)"
    using inv q(1,2) by (simp add: r pred_inv_def idx) (simp add: counts_ok_def)
qed

text \<open>The tiles the retirement loop takes away.\<close>

definition retired_tiles :: "int \<Rightarrow> (WCoord \<rightharpoonup> TilePrediction) \<Rightarrow> WCoord set" where
  "retired_tiles cutoff m =
     {c. \<exists>t. m c = Some t \<and> tp_Status t = PredictionConfirmed \<and> int (tp_UpdatedAt t) \<le> cutoff}"

lemma retire_tile_correct:
  assumes inv: "pred_inv p" and "retire_tile cutoff c (k, p) = (k', p')"
  shows "pred_inv p'" and "ps_tiles p' = (if c \<in> retired_tiles cutoff (ps_tiles p) then (ps_tiles p)(c := None) else ps_tiles p)"
    and "k' = k + (if c \<in> retired_tiles cutoff (ps_tiles p) then 1 else 0)"
proof -
  have "pred_inv p' \<and> ps_tiles p' = (if c \<in> retired_tiles cutoff (ps_tiles p) then (ps_tiles p)(c := None) else ps_tiles p) \<and>
      k' = k + (if c \<in> retired_tiles cutoff (ps_tiles p) then 1 else 0)"
  proof (cases "c \<in> retired_tiles cutoff (ps_tiles p)")
    case True
    then obtain t where t: "ps_tiles p c = Some t" "tp_Status t = PredictionConfirmed" "\<not> cutoff < int (tp_UpdatedAt t)"
      by (auto simp: retired_tiles_def)
    let ?q = "(adjustCount (tp_Status t) (-1) p)\<lparr>ps_tiles := (ps_tiles p)(c := None)\<rparr>"
    have p': "p' = drop_ref (tp_PlanNodeID t) c ?q" "k' = k + 1"
      using assms(2) t by (auto simp: retire_tile_def Let_def)
    have idx: "ps_byPlanNode ?q = index (ps_tiles p)" using inv by (simp add: pred_inv_def)
    have "counts_ok p" using inv by (simp add: pred_inv_def)
    then have "counts_ok p'"
      by (rule counts_update [of p _ c None]) (simp_all add: t p' adjustCount_def)
    then show ?thesis
      using True drop_ref_index [OF idx t(1) refl] by (simp add: p' pred_inv_def)
  next
    case False
    then have "(k', p') = (k, p)"
      using assms(2) by (auto simp: retire_tile_def retired_tiles_def Let_def split: option.splits if_splits)
    then show ?thesis using False inv by simp
  qed
  then show "pred_inv p'" and "ps_tiles p' = (if c \<in> retired_tiles cutoff (ps_tiles p) then (ps_tiles p)(c := None) else ps_tiles p)"
    and "k' = k + (if c \<in> retired_tiles cutoff (ps_tiles p) then 1 else 0)" by simp_all
qed

lemma retire_loop_correct:
  "pred_inv p \<Longrightarrow> distinct cs \<Longrightarrow> fold (retire_tile cutoff) cs (k, p) = (k', p') \<Longrightarrow>
     pred_inv p' \<and> ps_tiles p' = ps_tiles p |` (- (set cs \<inter> retired_tiles cutoff (ps_tiles p))) \<and>
     k' = k + int (card (set cs \<inter> retired_tiles cutoff (ps_tiles p)))"
proof (induction cs arbitrary: k p)
  case (Cons c cs)
  let ?R = "\<lambda>p. retired_tiles cutoff (ps_tiles p)"
  obtain k1 p1 where one: "retire_tile cutoff c (k, p) = (k1, p1)" by fastforce
  note s = retire_tile_correct [OF Cons.prems(1) one]
  have IH: "pred_inv p' \<and> ps_tiles p' = ps_tiles p1 |` (- (set cs \<inter> ?R p1)) \<and>
      k' = k1 + int (card (set cs \<inter> ?R p1))"
    using Cons.prems(2,3) one by (intro Cons.IH [OF s(1)]) simp_all
  have R1: "set cs \<inter> ?R p1 = set cs \<inter> ?R p"
    using Cons.prems(2) by (auto simp: s(2) retired_tiles_def split: if_splits)
  have "ps_tiles p1 |` (- (set cs \<inter> ?R p)) = ps_tiles p |` (- (set (c # cs) \<inter> ?R p))"
    by (auto simp: s(2) restrict_map_def fun_eq_iff)
  moreover have "card (set (c # cs) \<inter> ?R p) = card (set cs \<inter> ?R p) + (if c \<in> ?R p then 1 else 0)"
    using Cons.prems(2) by simp
  ultimately show ?case using IH by (simp add: R1 s(3))
qed (auto simp: restrict_map_def fun_eq_iff)

lemma RetireConfirmedOlderThan_correct:
  assumes "pred_inv p" and "distinct ord" and "set ord = dom (ps_tiles p)"
  shows "pred_inv (snd (RetireConfirmedOlderThan ord cutoff p))"
    and "ps_tiles (snd (RetireConfirmedOlderThan ord cutoff p)) = ps_tiles p |` (- retired_tiles cutoff (ps_tiles p))"
    and "fst (RetireConfirmedOlderThan ord cutoff p) = int (card (retired_tiles cutoff (ps_tiles p)))"
proof -
  obtain k' p' where r: "fold (retire_tile cutoff) ord (0, p) = (k', p')" by fastforce
  have "set ord \<inter> retired_tiles cutoff (ps_tiles p) = retired_tiles cutoff (ps_tiles p)"
    using assms(3) by (auto simp: retired_tiles_def)
  then show "pred_inv (snd (RetireConfirmedOlderThan ord cutoff p))"
    and "ps_tiles (snd (RetireConfirmedOlderThan ord cutoff p)) = ps_tiles p |` (- retired_tiles cutoff (ps_tiles p))"
    and "fst (RetireConfirmedOlderThan ord cutoff p) = int (card (retired_tiles cutoff (ps_tiles p)))"
    using retire_loop_correct [OF assms(1,2) r] by (simp_all add: RetireConfirmedOlderThan_def r)
qed

section \<open>Reading the predictions\<close>

lemma set_with_status:
  assumes "set ord = dom (ps_tiles p)"
  shows "set (with_status s ord p) = {t. \<exists>c. ps_tiles p c = Some t \<and> tp_Status t = s}"
proof -
  have "set (List.map_filter f xs) = {y. \<exists>x\<in>set xs. f x = Some y}" for f :: "WCoord \<Rightarrow> TilePrediction option" and xs
    by (induction xs) (auto simp: map_filter_simps split: option.splits)
  then show ?thesis using assms by (auto simp: with_status_def)
qed

lemma length_filter_map_filter:
  "length (filter P (List.map_filter f xs)) =
     length (filter (\<lambda>x. case f x of None \<Rightarrow> False | Some y \<Rightarrow> P y) xs)"
  by (induction xs) (auto simp: map_filter_simps split: option.splits)

lemma length_with_status:
  assumes "distinct ord" and "set ord = dom (ps_tiles p)"
  shows "length (filter P (with_status s ord p)) =
    card {c. \<exists>t. ps_tiles p c = Some t \<and> tp_Status t = s \<and> P t}"
proof -
  let ?Q = "\<lambda>c. case ps_tiles p c of None \<Rightarrow> False | Some t \<Rightarrow> tp_Status t = s \<and> P t"
  have "length (filter P (with_status s ord p)) = length (filter ?Q ord)"
    by (simp add: with_status_def length_filter_map_filter)
  also have "\<dots> = card (set (filter ?Q ord))"
    using assms(1) by (metis distinct_card distinct_filter)
  also have "set (filter ?Q ord) = {c. \<exists>t. ps_tiles p c = Some t \<and> tp_Status t = s \<and> P t}"
    using assms(2) by (auto split: option.splits)
  finally show ?thesis .
qed

section \<open>Every reachable state\<close>

inductive pred_step :: "PredictedState \<Rightarrow> PredictedState \<Rightarrow> bool" where
  predict: "pred_step p (Predict now pred p)"
| confirm: "pred_step p (snd (Confirm now c p))"
| diverge: "pred_step p (snd (MarkDiverged now c reason p))"
| remove: "distinct ord \<Longrightarrow> set ord = node_tiles (ps_tiles p) i \<Longrightarrow> i \<noteq> [] \<Longrightarrow>
    pred_step p (snd (RemoveByPlanNode ord i p))"
| retire: "distinct ord \<Longrightarrow> set ord = dom (ps_tiles p) \<Longrightarrow>
    pred_step p (snd (RetireConfirmedOlderThan ord cutoff p))"

lemma pred_step_inv: "pred_step p p' \<Longrightarrow> pred_inv p \<Longrightarrow> pred_inv p'"
  by (induction rule: pred_step.induct)
    (simp_all add: Predict_inv Confirm_inv MarkDiverged_inv RemoveByPlanNode_correct RetireConfirmedOlderThan_correct)

lemma pred_run_inv: "pred_step\<^sup>*\<^sup>* newPredictedState p \<Longrightarrow> pred_inv p"
  by (induction rule: rtranclp_induct) (simp_all add: newPredictedState_inv pred_step_inv)

text \<open>
  C17: The books of the predicted layer balance: in every reachable state the three counters are the
  numbers of tiles with that status, every tile is in exactly one of them, the index gives for each
  plan node exactly the tiles it predicted last, and no other node; Outstanding lists as many
  predictions as the counter says.
\<close>

theorem prediction_books_balance:
  assumes "pred_step\<^sup>*\<^sup>* newPredictedState p"
  shows "ps_outstandingCount p = int (card {c. \<exists>t. ps_tiles p c = Some t \<and> tp_Status t = PredictionOutstanding}) \<and>
    ps_confirmedCount p = int (card {c. \<exists>t. ps_tiles p c = Some t \<and> tp_Status t = PredictionConfirmed}) \<and>
    ps_divergedCount p = int (card {c. \<exists>t. ps_tiles p c = Some t \<and> tp_Status t = PredictionDiverged}) \<and>
    ps_outstandingCount p + ps_confirmedCount p + ps_divergedCount p = int (card (dom (ps_tiles p))) \<and>
    (\<forall>i. ps_byPlanNode p i = (let N = {c. \<exists>t. ps_tiles p c = Some t \<and> tp_PlanNodeID t = i}
       in if i = [] \<or> N = {} then None else Some N)) \<and>
    (\<forall>ord. distinct ord \<and> set ord = dom (ps_tiles p) \<longrightarrow>
       int (length (Outstanding ord p)) = ps_outstandingCount p)"
proof -
  have inv: "pred_inv p" using pred_run_inv [OF assms] .
  let ?S = "\<lambda>s. status_tiles s (ps_tiles p)"
  have fin: "finite (dom (ps_tiles p))" using inv by (simp add: pred_inv_def counts_ok_def)
  have sub: "?S s \<subseteq> dom (ps_tiles p)" for s by (auto simp: status_tiles_def)
  have "dom (ps_tiles p) = ?S PredictionOutstanding \<union> (?S PredictionConfirmed \<union> ?S PredictionDiverged)"
    by (auto simp: status_tiles_def) (metis PredictionStatus.exhaust)
  moreover have "?S s \<inter> ?S s' = {}" if "s \<noteq> s'" for s s' using that by (auto simp: status_tiles_def)
  ultimately have "card (dom (ps_tiles p)) =
      card (?S PredictionOutstanding) + (card (?S PredictionConfirmed) + card (?S PredictionDiverged))"
    using finite_subset [OF sub fin] by (simp add: card_Un_disjoint Int_Un_distrib)
  moreover have "int (length (Outstanding ord p)) = ps_outstandingCount p"
    if "distinct ord \<and> set ord = dom (ps_tiles p)" for ord
    using length_with_status [of ord p "\<lambda>_. True" PredictionOutstanding] that inv
    by (simp add: Outstanding_def pred_inv_def counts_ok_def status_tiles_def)
  ultimately show ?thesis
    using inv by (simp add: pred_inv_def counts_ok_def status_tiles_def index_def node_tiles_def Let_def)
qed

definition example_prediction :: "string \<Rightarrow> i16 \<Rightarrow> TilePrediction" where
  "example_prediction i x = \<lparr>tp_Coord = \<lparr>wc_X = x, wc_Y = 0, wc_Z = 0\<rparr>, tp_Action = ''dig'',
     tp_PredictedFlags = 8, tp_PredictedTile = 0, tp_PlanNodeID = i, tp_PredictedAtTick = 1, tp_PredictedAt = 0,
     tp_Estimate = \<lparr>we_TileCount = 1, we_Material = MaterialStone, we_Parallelism = 2\<rparr>,
     tp_Status = PredictionOutstanding, tp_UpdatedAt = 0, tp_DivergedReason = []\<rparr>"

lemma prediction_books_balance_witness:
  "ps_outstandingCount (Predict 5 (example_prediction ''n'' 3) newPredictedState) = 1"
proof -
  let ?p = "Predict 5 (example_prediction ''n'' 3) newPredictedState"
  have "pred_step\<^sup>*\<^sup>* newPredictedState ?p" by (intro r_into_rtranclp pred_step.predict)
  from prediction_books_balance [OF this]
  have "ps_outstandingCount ?p = int (card {c. \<exists>t. ps_tiles ?p c = Some t \<and> tp_Status t = PredictionOutstanding})"
    by (rule conjunct1)
  also have "{c. \<exists>t. ps_tiles ?p c = Some t \<and> tp_Status t = PredictionOutstanding} = {\<lparr>wc_X = 3, wc_Y = 0, wc_Z = 0\<rparr>}"
    by (auto simp: Predict_tiles newPredictedState_def example_prediction_def split: if_splits)
  finally show ?thesis by simp
qed

end
