(* ===== verification/Alerts.thy ===== *)
theory Alerts
  imports Go_Base
begin

text \<open>
  The alert store of the world model (\<open>internal/worldmodel/alerts.go\<close>): a bounded buffer of game
  announcements with an index from report ids to positions. An index that does not fit the buffer
  panics in Go: the operations that read through the index return None then. The store is proved
  to refine a plain bounded list, in which the index does not occur and nothing can panic.
\<close>

record Alert =
  al_ID :: u32
  al_TypeID :: u16
  al_Severity :: u8
  al_Text :: gostring
  al_X :: i16
  al_Y :: i16
  al_Z :: i16
  al_GameYear :: u32
  al_GameTick :: u32
  al_ReceivedAt :: go_time
  al_Dismissed :: bool
  al_RepeatCount :: u32

definition HasPosition :: "Alert \<Rightarrow> bool" where
  "HasPosition a \<longleftrightarrow> 0 \<le> sint (al_X a) \<and> 0 \<le> sint (al_Y a) \<and> 0 \<le> sint (al_Z a)"

record AlertStore =
  as_capacity :: int
  as_entries :: "Alert list"
  as_byID :: "u32 \<rightharpoonup> int"

definition NewAlertStore :: "int \<Rightarrow> AlertStore" where
  "NewAlertStore capacity =
     \<lparr>as_capacity = (if capacity \<le> 0 then 200 else capacity), as_entries = [], as_byID = Map.empty\<rparr>"

definition in_range :: "int \<Rightarrow> 'a list \<Rightarrow> bool" where
  "in_range i xs \<longleftrightarrow> 0 \<le> i \<and> i < int (length xs)"

definition evict_oldest :: "AlertStore \<Rightarrow> AlertStore option" where
  "evict_oldest s =
     (if int (length (as_entries s)) \<ge> as_capacity s then
        (case as_entries s of
           [] \<Rightarrow> None
         | evicted # rest \<Rightarrow> Some (s\<lparr>as_entries := rest,
             as_byID := \<lambda>i. map_option (\<lambda>idx. idx - 1) (((as_byID s)(al_ID evicted := None)) i)\<rparr>))
      else Some s)"

definition AddAlert :: "Alert \<Rightarrow> AlertStore \<Rightarrow> (bool \<times> AlertStore) option" where
  "AddAlert a s = (case as_byID s (al_ID a) of
       Some idx \<Rightarrow>
         if \<not> in_range idx (as_entries s) then None
         else let e = as_entries s ! nat idx in
          if al_RepeatCount a \<le> al_RepeatCount e then Some (False, s)
          else Some (True, s\<lparr>as_entries := (as_entries s)[nat idx :=
            e\<lparr>al_RepeatCount := al_RepeatCount a, al_ReceivedAt := al_ReceivedAt a, al_Dismissed := False\<rparr>]\<rparr>)
     | None \<Rightarrow> (case evict_oldest s of
           None \<Rightarrow> None
         | Some s \<Rightarrow> let entries = as_entries s @ [a] in
             Some (True, s\<lparr>as_entries := entries,
               as_byID := (as_byID s)(al_ID a \<mapsto> int (length entries) - 1)\<rparr>)))"

definition Dismiss :: "u32 \<Rightarrow> AlertStore \<Rightarrow> (bool \<times> AlertStore) option" where
  "Dismiss i s = (case as_byID s i of
       None \<Rightarrow> Some (False, s)
     | Some idx \<Rightarrow>
         if \<not> in_range idx (as_entries s) then None
         else if al_Dismissed (as_entries s ! nat idx) then Some (False, s)
         else Some (True, s\<lparr>as_entries := (as_entries s)[nat idx :=
           (as_entries s ! nat idx)\<lparr>al_Dismissed := True\<rparr>]\<rparr>))"

definition ResetAlerts :: "AlertStore \<Rightarrow> AlertStore" where
  "ResetAlerts s = s\<lparr>as_entries := [], as_byID := Map.empty\<rparr>"

fun dismiss_loop :: "Alert list \<Rightarrow> int \<times> Alert list" where
  "dismiss_loop [] = (0, [])"
| "dismiss_loop (a # as) = (let (n, as') = dismiss_loop as in
     if al_Dismissed a then (n, a # as') else (n + 1, a\<lparr>al_Dismissed := True\<rparr> # as'))"

definition DismissAll :: "AlertStore \<Rightarrow> int \<times> AlertStore" where
  "DismissAll s = (let (n, entries) = dismiss_loop (as_entries s) in (n, s\<lparr>as_entries := entries\<rparr>))"

text \<open>The loop walks the entries from the newest; here over the reversed list.\<close>

fun active_loop :: "int \<Rightarrow> Alert list \<Rightarrow> Alert list \<Rightarrow> Alert list" where
  "active_loop limit out [] = out"
| "active_loop limit out (a # as) =
     (if al_Dismissed a then active_loop limit out as
      else let out = out @ [a] in
       if limit > 0 \<and> int (length out) \<ge> limit then out else active_loop limit out as)"

definition ActiveAlerts :: "int \<Rightarrow> AlertStore \<Rightarrow> Alert list" where
  "ActiveAlerts limit s = active_loop limit [] (rev (as_entries s))"

definition RecentAlerts :: "int \<Rightarrow> AlertStore \<Rightarrow> Alert list" where
  "RecentAlerts limit s =
     (let limit = (if limit \<le> 0 \<or> limit > int (length (as_entries s)) then int (length (as_entries s)) else limit)
      in take (nat limit) (rev (as_entries s)))"

fun count_loop :: "int \<Rightarrow> int \<Rightarrow> Alert list \<Rightarrow> int \<times> int" where
  "count_loop active dismissed [] = (active, dismissed)"
| "count_loop active dismissed (a # as) =
     (if al_Dismissed a then count_loop active (dismissed + 1) as else count_loop (active + 1) dismissed as)"

definition AlertCounts :: "AlertStore \<Rightarrow> int \<times> int \<times> int" where
  "AlertCounts s = (let (active, dismissed) = count_loop 0 0 (as_entries s)
     in (active, dismissed, int (length (as_entries s))))"

section \<open>The bounded list it refines\<close>

text \<open>
  The specification: a list of alerts with distinct ids, newest last, of at most the capacity. A report
  seen before is updated in place when it repeats; a new one pushes the oldest out of a full list.
\<close>

definition repeat_alert :: "Alert \<Rightarrow> Alert \<Rightarrow> Alert" where
  "repeat_alert a e = (if al_ID e = al_ID a \<and> al_RepeatCount e < al_RepeatCount a
     then e\<lparr>al_RepeatCount := al_RepeatCount a, al_ReceivedAt := al_ReceivedAt a, al_Dismissed := False\<rparr> else e)"

definition spec_add :: "int \<Rightarrow> Alert \<Rightarrow> Alert list \<Rightarrow> Alert list" where
  "spec_add cap a es =
     (if al_ID a \<in> al_ID ` set es then map (repeat_alert a) es
      else (if int (length es) \<ge> cap then tl es else es) @ [a])"

definition spec_changed :: "Alert \<Rightarrow> Alert list \<Rightarrow> bool" where
  "spec_changed a es \<longleftrightarrow> (\<forall>e\<in>set es. al_ID e = al_ID a \<longrightarrow> al_RepeatCount e < al_RepeatCount a)"

definition spec_dismiss :: "u32 \<Rightarrow> Alert list \<Rightarrow> Alert list" where
  "spec_dismiss i es = map (\<lambda>e. if al_ID e = i then e\<lparr>al_Dismissed := True\<rparr> else e) es"

definition alert_inv :: "AlertStore \<Rightarrow> bool" where
  "alert_inv s \<longleftrightarrow> 0 < as_capacity s \<and> int (length (as_entries s)) \<le> as_capacity s \<and>
     distinct (map al_ID (as_entries s)) \<and>
     (\<forall>i idx. as_byID s i = Some idx \<longleftrightarrow>
        in_range idx (as_entries s) \<and> al_ID (as_entries s ! nat idx) = i)"

lemma in_range_nat: "in_range i xs \<Longrightarrow> nat i < length xs"
  by (simp add: in_range_def nat_less_iff)

lemma byID_Some: "alert_inv s \<Longrightarrow> as_byID s i = Some idx \<Longrightarrow>
    in_range idx (as_entries s) \<and> al_ID (as_entries s ! nat idx) = i"
  by (simp add: alert_inv_def)

lemma byID_None: "alert_inv s \<Longrightarrow> as_byID s i = None \<longleftrightarrow> i \<notin> al_ID ` set (as_entries s)"
proof -
  assume inv: "alert_inv s"
  have "as_byID s i \<noteq> None \<longleftrightarrow> (\<exists>n<length (as_entries s). al_ID (as_entries s ! n) = i)"
  proof
    assume "as_byID s i \<noteq> None"
    then obtain idx where "as_byID s i = Some idx" by auto
    then have "in_range idx (as_entries s) \<and> al_ID (as_entries s ! nat idx) = i" by (rule byID_Some [OF inv])
    then show "\<exists>n<length (as_entries s). al_ID (as_entries s ! n) = i"
      by (intro exI [of _ "nat idx"]) (auto simp: in_range_nat)
  next
    assume "\<exists>n<length (as_entries s). al_ID (as_entries s ! n) = i"
    then obtain n where "n < length (as_entries s)" "al_ID (as_entries s ! n) = i" by blast
    then have "as_byID s i = Some (int n)" using inv by (simp add: alert_inv_def in_range_def)
    then show "as_byID s i \<noteq> None" by simp
  qed
  moreover have "i \<in> set (map al_ID (as_entries s)) \<longleftrightarrow> (\<exists>n<length (as_entries s). al_ID (as_entries s ! n) = i)"
    unfolding in_set_conv_nth by (metis length_map nth_map)
  ultimately show ?thesis by (metis set_map)
qed

text \<open>An update in place of the one entry with an id is an update of every entry with that id.\<close>

lemma update_by_id:
  assumes "distinct (map al_ID es)" and "n < length es" and "al_ID (es ! n) = i"
    and "f (es ! n) = e'" and "\<And>e. al_ID e \<noteq> i \<Longrightarrow> f e = e"
  shows "es[n := e'] = map f es"
proof (rule nth_equalityI)
  fix k assume "k < length (es[n := e'])"
  then have k: "k < length es" by simp
  have "al_ID (es ! k) \<noteq> i" if "k \<noteq> n"
    using that assms(1-3) k by (metis length_map nth_eq_iff_index_eq nth_map)
  then show "es[n := e'] ! k = map f es ! k"
    using k assms(4,5) by (cases "k = n") auto
qed simp

lemma inv_same_ids:
  assumes "alert_inv s" and "map al_ID es = map al_ID (as_entries s)"
  shows "alert_inv (s\<lparr>as_entries := es\<rparr>)"
proof -
  have len: "length es = length (as_entries s)" using assms(2) by (metis length_map)
  have "al_ID (es ! n) = al_ID (as_entries s ! n)" if "n < length es" for n
    using that assms(2) len by (metis nth_map)
  then show ?thesis using assms len by (auto simp: alert_inv_def in_range_def)
qed

lemma evict_oldest_correct:
  assumes inv: "alert_inv s"
  obtains s' where "evict_oldest s = Some s'" and "alert_inv s'" and "as_capacity s' = as_capacity s"
    and "as_entries s' = (if int (length (as_entries s)) \<ge> as_capacity s then tl (as_entries s) else as_entries s)"
    and "int (length (as_entries s')) < as_capacity s'"
proof (cases "int (length (as_entries s)) \<ge> as_capacity s")
  case False
  then show ?thesis using that [of s] inv by (simp add: evict_oldest_def)
next
  case True
  then obtain e es where es: "as_entries s = e # es"
    using inv by (cases "as_entries s") (auto simp: alert_inv_def)
  define s' where "s' = s\<lparr>as_entries := es,
    as_byID := \<lambda>i. map_option (\<lambda>idx. idx - 1) (((as_byID s)(al_ID e := None)) i)\<rparr>"
  have idx: "as_byID s i = Some k \<longleftrightarrow> in_range k (e # es) \<and> al_ID ((e # es) ! nat k) = i" for i k
    using inv by (simp add: alert_inv_def es)
  have fresh: "al_ID (es ! n) \<noteq> al_ID e" if "n < length es" for n
  proof -
    have "al_ID (es ! n) \<in> al_ID ` set es" using that by simp
    moreover have "al_ID e \<notin> al_ID ` set es" using inv by (simp add: alert_inv_def es)
    ultimately show ?thesis by metis
  qed
  have "as_byID s' i = Some k \<longleftrightarrow> in_range k es \<and> al_ID (es ! nat k) = i" for i k
  proof -
    have "as_byID s' i = Some k \<longleftrightarrow> i \<noteq> al_ID e \<and> as_byID s i = Some (k + 1)"
      by (auto simp: s'_def)
    also have "\<dots> \<longleftrightarrow> in_range k es \<and> al_ID (es ! nat k) = i"
    proof (cases "0 \<le> k")
      case True
      then have "nat (k + 1) = Suc (nat k)" by simp
      then show ?thesis unfolding idx using True fresh [of "nat k"] in_range_nat [of k es] by (auto simp: in_range_def)
    next
      case False
      then have "nat (k + 1) = 0" by simp
      then show ?thesis unfolding idx using False by (auto simp: in_range_def)
    qed
    finally show ?thesis .
  qed
  then have "alert_inv s'"
    using inv by (simp add: alert_inv_def s'_def es)
  moreover have "evict_oldest s = Some s'" using True by (simp add: evict_oldest_def es s'_def)
  ultimately show ?thesis
    using that [of s'] inv True by (simp add: s'_def es alert_inv_def)
qed

lemma AddAlert_correct:
  assumes inv: "alert_inv s"
  obtains s' where "AddAlert a s = Some (spec_changed a (as_entries s), s')" and "alert_inv s'"
    and "as_entries s' = spec_add (as_capacity s) a (as_entries s)" and "as_capacity s' = as_capacity s"
proof (cases "as_byID s (al_ID a)")
  case None
  then have new: "al_ID a \<notin> al_ID ` set (as_entries s)" using byID_None [OF inv] by simp
  obtain s1 where s1: "evict_oldest s = Some s1" "alert_inv s1" "as_capacity s1 = as_capacity s"
    "as_entries s1 = (if int (length (as_entries s)) \<ge> as_capacity s then tl (as_entries s) else as_entries s)"
    "int (length (as_entries s1)) < as_capacity s1"
    by (rule evict_oldest_correct [OF inv]) blast
  define s' where "s' = s1\<lparr>as_entries := as_entries s1 @ [a],
    as_byID := (as_byID s1)(al_ID a \<mapsto> int (length (as_entries s1)))\<rparr>"
  have new1: "al_ID a \<notin> al_ID ` set (as_entries s1)"
  proof -
    have "set (as_entries s1) \<subseteq> set (as_entries s)"
      by (simp add: s1(4)) (metis list.set_sel(2) subsetI tl_Nil)
    then show ?thesis using new by blast
  qed
  have "as_byID s' i = Some k \<longleftrightarrow> in_range k (as_entries s') \<and> al_ID (as_entries s' ! nat k) = i" for i k
  proof (cases "k = int (length (as_entries s1))")
    case True
    then show ?thesis
      using byID_Some [OF s1(2), of i k] by (auto simp: s'_def in_range_def)
  next
    case False
    have "al_ID (as_entries s1 ! nat k) \<noteq> al_ID a" if "in_range k (as_entries s1)"
    proof -
      have "as_entries s1 ! nat k \<in> set (as_entries s1)" using in_range_nat [OF that] by simp
      then show ?thesis using new1 by (metis image_eqI)
    qed
    then show ?thesis
      using False s1(2) by (auto simp: s'_def in_range_def alert_inv_def nth_append)
  qed
  then have "alert_inv s'"
    using s1(2,5) new1 by (auto simp: alert_inv_def s'_def)
  moreover have "spec_changed a (as_entries s)" using new unfolding spec_changed_def by (metis image_eqI)
  ultimately show ?thesis
    using that [of s'] None s1 new by (simp add: AddAlert_def s'_def spec_add_def)
next
  case (Some idx)
  let ?es = "as_entries s" and ?e = "as_entries s ! nat idx"
  have r: "in_range idx ?es" "al_ID ?e = al_ID a" using byID_Some [OF inv Some] by simp_all
  then have n: "nat idx < length ?es" by (simp add: in_range_nat)
  have dist: "distinct (map al_ID ?es)" using inv by (simp add: alert_inv_def)
  have old: "al_ID a \<in> al_ID ` set ?es" using byID_None [OF inv, of "al_ID a"] Some by (metis option.distinct(1))
  have same: "e = ?e" if "e \<in> set ?es" "al_ID e = al_ID a" for e
    using that r(2) n dist by (metis distinct_map inj_on_contraD nth_mem)
  then have chg: "spec_changed a ?es \<longleftrightarrow> al_RepeatCount ?e < al_RepeatCount a"
    using n r(2) unfolding spec_changed_def by (metis nth_mem)
  have upd: "?es[nat idx := repeat_alert a ?e] = map (repeat_alert a) ?es"
    by (rule update_by_id [OF dist n r(2) refl]) (simp add: repeat_alert_def)
  show ?thesis
  proof (cases "al_RepeatCount ?e < al_RepeatCount a")
    case True
    let ?s = "s\<lparr>as_entries := map (repeat_alert a) ?es\<rparr>"
    have "alert_inv ?s" by (rule inv_same_ids [OF inv]) (simp add: repeat_alert_def)
    moreover have "AddAlert a s = Some (True, s\<lparr>as_entries := ?es[nat idx := repeat_alert a ?e]\<rparr>)"
      using Some r True by (simp add: AddAlert_def Let_def repeat_alert_def not_le)
    ultimately show ?thesis
      using that [of ?s] True chg old by (simp add: upd spec_add_def)
  next
    case False
    then have "map (repeat_alert a) ?es = ?es" using same by (intro map_idI) (auto simp: repeat_alert_def)
    then show ?thesis
      using that [of s] False chg old Some r inv by (simp add: AddAlert_def Let_def spec_add_def not_less)
  qed
qed

lemma Dismiss_correct:
  assumes inv: "alert_inv s"
  shows "\<exists>s'. Dismiss i s = Some (\<exists>e\<in>set (as_entries s). al_ID e = i \<and> \<not> al_Dismissed e, s') \<and>
    alert_inv s' \<and> as_entries s' = spec_dismiss i (as_entries s) \<and> as_capacity s' = as_capacity s"
proof (cases "as_byID s i")
  case None
  then have new: "i \<notin> al_ID ` set (as_entries s)" using byID_None [OF inv] by simp
  then have "spec_dismiss i (as_entries s) = as_entries s"
    by (auto simp: spec_dismiss_def intro!: map_idI)
  then show ?thesis using None inv new by (auto simp: Dismiss_def)
next
  case (Some idx)
  let ?es = "as_entries s" and ?e = "as_entries s ! nat idx"
  have r: "in_range idx ?es" "al_ID ?e = i" using byID_Some [OF inv Some] by simp_all
  then have n: "nat idx < length ?es" by (simp add: in_range_nat)
  have dist: "distinct (map al_ID ?es)" using inv by (simp add: alert_inv_def)
  have upd: "?es[nat idx := ?e\<lparr>al_Dismissed := True\<rparr>] = spec_dismiss i ?es"
    unfolding spec_dismiss_def by (rule update_by_id [OF dist n r(2)]) (simp_all add: r(2))
  have only: "(\<exists>e\<in>set ?es. al_ID e = i \<and> \<not> al_Dismissed e) \<longleftrightarrow> \<not> al_Dismissed ?e"
    using r(2) n dist by (metis distinct_map inj_on_contraD nth_mem)
  have "map al_ID (spec_dismiss i ?es) = map al_ID ?es"
    by (simp add: spec_dismiss_def)
  note inv' = inv_same_ids [OF inv this]
  have "spec_dismiss i ?es = ?es" if "al_Dismissed ?e"
  proof -
    from that have "?e\<lparr>al_Dismissed := True\<rparr> = ?e" by (cases ?e) simp
    then show ?thesis unfolding upd [symmetric] by simp
  qed
  then show ?thesis
    using Some r(1) inv inv' by (simp add: Dismiss_def only upd)
qed

lemma dismiss_loop_eq:
  "dismiss_loop es = (int (length (filter (\<lambda>a. \<not> al_Dismissed a) es)), map (al_Dismissed_update (\<lambda>_. True)) es)"
  by (induction es) (auto simp: Let_def)

lemma DismissAll_correct:
  assumes "alert_inv s"
  shows "alert_inv (snd (DismissAll s))"
    and "as_entries (snd (DismissAll s)) = map (al_Dismissed_update (\<lambda>_. True)) (as_entries s)"
    and "fst (DismissAll s) = int (length (filter (\<lambda>a. \<not> al_Dismissed a) (as_entries s)))"
    and "as_capacity (snd (DismissAll s)) = as_capacity s"
  using inv_same_ids [OF assms, of "map (al_Dismissed_update (\<lambda>_. True)) (as_entries s)"]
  by (simp_all add: DismissAll_def dismiss_loop_eq comp_def)

lemma active_loop_eq:
  "active_loop limit out es = (if limit \<le> 0 then out @ filter (\<lambda>a. \<not> al_Dismissed a) es
     else if int (length out) < limit then take (nat limit) (out @ filter (\<lambda>a. \<not> al_Dismissed a) es)
     else active_loop limit out es)"
proof (induction limit out es rule: active_loop.induct)
  case (2 limit out a as)
  have "nat limit = Suc (length out)" if "int (length out) < limit" "limit \<le> 1 + int (length out)"
    using that by linarith
  then show ?case using 2 by (auto simp: Let_def)
qed auto

lemma count_loop_eq:
  "count_loop a d es = (a + int (length (filter (\<lambda>a. \<not> al_Dismissed a) es)), d + int (length (filter al_Dismissed es)))"
  by (induction a d es rule: count_loop.induct) auto

lemma NewAlertStore_inv: "alert_inv (NewAlertStore n)"
  by (simp add: alert_inv_def NewAlertStore_def in_range_def)

lemma ResetAlerts_inv: "alert_inv s \<Longrightarrow> alert_inv (ResetAlerts s)"
  by (simp add: alert_inv_def ResetAlerts_def in_range_def)

section \<open>Every reachable store\<close>

text \<open>A run of the store: the operations, and whether one of them panicked.\<close>

datatype alert_op = OpAdd Alert | OpDismiss u32 | OpDismissAll | OpReset

fun apply_op :: "alert_op \<Rightarrow> AlertStore \<Rightarrow> AlertStore option" where
  "apply_op (OpAdd a) s = map_option snd (AddAlert a s)"
| "apply_op (OpDismiss i) s = map_option snd (Dismiss i s)"
| "apply_op OpDismissAll s = Some (snd (DismissAll s))"
| "apply_op OpReset s = Some (ResetAlerts s)"

fun spec_op :: "int \<Rightarrow> alert_op \<Rightarrow> Alert list \<Rightarrow> Alert list" where
  "spec_op cap (OpAdd a) es = spec_add cap a es"
| "spec_op cap (OpDismiss i) es = spec_dismiss i es"
| "spec_op cap OpDismissAll es = map (al_Dismissed_update (\<lambda>_. True)) es"
| "spec_op cap OpReset es = []"

fun run_ops :: "alert_op list \<Rightarrow> AlertStore \<Rightarrow> AlertStore option" where
  "run_ops [] s = Some s"
| "run_ops (p # ps) s = (case apply_op p s of None \<Rightarrow> None | Some s \<Rightarrow> run_ops ps s)"

lemma apply_op_correct:
  assumes "alert_inv s"
  shows "\<exists>s'. apply_op p s = Some s' \<and> alert_inv s' \<and> as_capacity s' = as_capacity s \<and>
    as_entries s' = spec_op (as_capacity s) p (as_entries s)"
proof (cases p)
  case (OpAdd a)
  then show ?thesis by (rule_tac AddAlert_correct [OF assms, of a]) auto
next
  case (OpDismiss i)
  then show ?thesis using Dismiss_correct [OF assms, of i] by auto
next
  case OpDismissAll
  then show ?thesis using DismissAll_correct [OF assms] by simp
next
  case OpReset
  then show ?thesis using ResetAlerts_inv [OF assms] by (simp add: ResetAlerts_def)
qed

lemma run_ops_correct:
  "alert_inv s \<Longrightarrow> \<exists>s'. run_ops ps s = Some s' \<and> alert_inv s' \<and> as_capacity s' = as_capacity s \<and>
     as_entries s' = fold (spec_op (as_capacity s)) ps (as_entries s)"
proof (induction ps arbitrary: s)
  case (Cons p ps)
  obtain s1 where "apply_op p s = Some s1" "alert_inv s1" "as_capacity s1 = as_capacity s"
    "as_entries s1 = spec_op (as_capacity s) p (as_entries s)"
    using apply_op_correct [OF Cons.prems, of p] by blast
  then show ?case using Cons.IH [of s1] by simp
qed simp

text \<open>
  C18: The alert store is a bounded list: no sequence of operations on a new store panics, and
  afterwards its entries are what the same operations give on a plain list that keeps one entry for
  each report, reopens it when the report repeats and drops the oldest when full; no more entries than
  the capacity, no report twice. Active lists the undismissed ones newest first, up to its limit, and
  Counts counts them.
\<close>

theorem alert_store_refines_list:
  "\<exists>s. run_ops ps (NewAlertStore n) = Some s \<and>
     as_entries s = fold (spec_op (if n \<le> 0 then 200 else n)) ps [] \<and>
     int (length (as_entries s)) \<le> (if n \<le> 0 then 200 else n) \<and>
     distinct (map al_ID (as_entries s)) \<and>
     ActiveAlerts limit s = (let as = filter (\<lambda>a. \<not> al_Dismissed a) (rev (as_entries s))
       in if limit \<le> 0 then as else take (nat limit) as) \<and>
     AlertCounts s = (int (length (filter (\<lambda>a. \<not> al_Dismissed a) (as_entries s))),
       int (length (filter al_Dismissed (as_entries s))), int (length (as_entries s)))"
proof -
  obtain s where s: "run_ops ps (NewAlertStore n) = Some s" "alert_inv s"
    "as_capacity s = as_capacity (NewAlertStore n)"
    "as_entries s = fold (spec_op (as_capacity (NewAlertStore n))) ps (as_entries (NewAlertStore n))"
    using run_ops_correct [OF NewAlertStore_inv, of ps n] by blast
  have cap: "as_capacity (NewAlertStore n) = (if n \<le> 0 then 200 else n)" and
    nil: "as_entries (NewAlertStore n) = []" by (simp_all add: NewAlertStore_def)
  have "ActiveAlerts limit s = (let as = filter (\<lambda>a. \<not> al_Dismissed a) (rev (as_entries s))
       in if limit \<le> 0 then as else take (nat limit) as)"
    unfolding ActiveAlerts_def Let_def by (subst active_loop_eq) simp
  moreover have "AlertCounts s = (int (length (filter (\<lambda>a. \<not> al_Dismissed a) (as_entries s))),
       int (length (filter al_Dismissed (as_entries s))), int (length (as_entries s)))"
    by (simp add: AlertCounts_def count_loop_eq)
  moreover have "int (length (as_entries s)) \<le> as_capacity s" "distinct (map al_ID (as_entries s))"
    using s(2) by (simp_all add: alert_inv_def)
  ultimately show ?thesis
    using s(1,4) by (intro exI [of _ s] conjI) (simp_all only: s(3) cap nil)
qed

end
