(* ===== verification/Command_Send.thy ===== *)
theory Command_Send
  imports Command_Codec
begin

text \<open>
  The commands the orchestrator can issue (\<open>internal/commands/executor.go\<close>): for each \<open>Send\<close> method the
  command message it hands to \<open>SendCommand\<close>, under the id the tracker gives it. Sending, tracking and
  waiting are in \<open>Command_Tracker\<close>.
\<close>

section \<open>The messages\<close>

definition SendDigRegion :: "u8 \<Rightarrow> i16 \<Rightarrow> i16 \<Rightarrow> i16 \<Rightarrow> i16 \<Rightarrow> i16 \<Rightarrow> i16 \<Rightarrow> u32 \<Rightarrow> CommandMessage" where
  "SendDigRegion digType x1 y1 z1 x2 y2 z2 commandID =
     (let (z1, z2) = (if slt z2 z1 then (z2, z1) else (z1, z2)) in
     zero_CommandMessage\<lparr>cm_CommandID := commandID, cm_CommandType := CommandTypeDig,
       cm_DigType := digType, cm_Region := zero_Region\<lparr>rg_X1 := x1, rg_Y1 := y1,
       rg_Z1 := z1, rg_X2 := x2, rg_Y2 := y2, rg_Z2 := z2\<rparr>\<rparr>)"

definition SendDigCommand :: "u8 \<Rightarrow> i16 \<Rightarrow> i16 \<Rightarrow> i16 \<Rightarrow> i16 \<Rightarrow> i16 \<Rightarrow> u32 \<Rightarrow> CommandMessage" where
  "SendDigCommand digType x1 y1 z x2 y2 commandID =
     SendDigRegion digType x1 y1 z x2 y2 z commandID"

definition buildDesignation :: "i16 \<Rightarrow> i16 \<Rightarrow> i16 \<Rightarrow> u8 \<Rightarrow> u8 \<Rightarrow> u8 \<Rightarrow> u8 \<Rightarrow> gostring \<Rightarrow> u32 \<Rightarrow> CommandMessage" where
  "buildDesignation x y z buildType material quality orientation name commandID =
     zero_CommandMessage\<lparr>cm_CommandID := commandID, cm_CommandType := CommandTypeBuild,
       cm_Build := zero_BuildDesignation\<lparr>bd_X := x, bd_Y := y, bd_Z := z,
       bd_BuildType := buildType, bd_BuildTypeName := name, bd_Material := material,
       bd_Quality := quality, bd_Orientation := orientation\<rparr>\<rparr>"

definition SendBuildCommandFull :: "i16 \<Rightarrow> i16 \<Rightarrow> i16 \<Rightarrow> u8 \<Rightarrow> u8 \<Rightarrow> u8 \<Rightarrow> u8 \<Rightarrow> u32 \<Rightarrow> CommandMessage" where
  "SendBuildCommandFull x y z buildType material quality orientation commandID =
     buildDesignation x y z buildType material quality orientation [] commandID"

definition SendBuildCommandWithMaterialAndQuality :: "i16 \<Rightarrow> i16 \<Rightarrow> i16 \<Rightarrow> u8 \<Rightarrow> u8 \<Rightarrow> u8 \<Rightarrow> u32 \<Rightarrow> CommandMessage" where
  "SendBuildCommandWithMaterialAndQuality x y z buildType material quality commandID =
     SendBuildCommandFull x y z buildType material quality BuildOrientAny commandID"

definition SendBuildCommandWithMaterial :: "i16 \<Rightarrow> i16 \<Rightarrow> i16 \<Rightarrow> u8 \<Rightarrow> u8 \<Rightarrow> u32 \<Rightarrow> CommandMessage" where
  "SendBuildCommandWithMaterial x y z buildType material commandID =
     SendBuildCommandWithMaterialAndQuality x y z buildType material QualityTierAny commandID"

definition SendBuildCommand :: "i16 \<Rightarrow> i16 \<Rightarrow> i16 \<Rightarrow> u8 \<Rightarrow> u32 \<Rightarrow> CommandMessage" where
  "SendBuildCommand x y z buildType commandID =
     SendBuildCommandWithMaterial x y z buildType MaterialClassAny commandID"

definition SendBuildCommandByNameFull :: "i16 \<Rightarrow> i16 \<Rightarrow> i16 \<Rightarrow> gostring \<Rightarrow> u8 \<Rightarrow> u8 \<Rightarrow> u8 \<Rightarrow> u32 \<Rightarrow> CommandMessage" where
  "SendBuildCommandByNameFull x y z name material quality orientation commandID =
     buildDesignation x y z BuildTypeByName material quality orientation name commandID"

definition SendBuildCommandByName :: "i16 \<Rightarrow> i16 \<Rightarrow> i16 \<Rightarrow> gostring \<Rightarrow> u8 \<Rightarrow> u8 \<Rightarrow> u32 \<Rightarrow> CommandMessage" where
  "SendBuildCommandByName x y z name material quality commandID =
     SendBuildCommandByNameFull x y z name material quality BuildOrientAny commandID"

definition SendCancelCommand :: "i16 \<Rightarrow> i16 \<Rightarrow> i16 \<Rightarrow> i16 \<Rightarrow> i16 \<Rightarrow> u32 \<Rightarrow> CommandMessage" where
  "SendCancelCommand x1 y1 z x2 y2 commandID =
     zero_CommandMessage\<lparr>cm_CommandID := commandID, cm_CommandType := CommandTypeCancel,
       cm_Region := zero_Region\<lparr>rg_X1 := x1, rg_Y1 := y1, rg_Z1 := z, rg_X2 := x2,
       rg_Y2 := y2, rg_Z2 := z\<rparr>\<rparr>"

definition SendChopCommand :: "i16 \<Rightarrow> i16 \<Rightarrow> i16 \<Rightarrow> i16 \<Rightarrow> i16 \<Rightarrow> u32 \<Rightarrow> CommandMessage" where
  "SendChopCommand x1 y1 z x2 y2 commandID =
     zero_CommandMessage\<lparr>cm_CommandID := commandID, cm_CommandType := CommandTypeChop,
       cm_Region := zero_Region\<lparr>rg_X1 := x1, rg_Y1 := y1, rg_Z1 := z, rg_X2 := x2,
       rg_Y2 := y2, rg_Z2 := z\<rparr>\<rparr>"

definition SendGatherCommand :: "i16 \<Rightarrow> i16 \<Rightarrow> i16 \<Rightarrow> i16 \<Rightarrow> i16 \<Rightarrow> u32 \<Rightarrow> CommandMessage" where
  "SendGatherCommand x1 y1 z x2 y2 commandID =
     zero_CommandMessage\<lparr>cm_CommandID := commandID, cm_CommandType := CommandTypeGather,
       cm_Region := zero_Region\<lparr>rg_X1 := x1, rg_Y1 := y1, rg_Z1 := z, rg_X2 := x2,
       rg_Y2 := y2, rg_Z2 := z\<rparr>\<rparr>"

definition SendZoneCommand :: "u8 \<Rightarrow> i16 \<Rightarrow> i16 \<Rightarrow> i16 \<Rightarrow> i16 \<Rightarrow> i16 \<Rightarrow> u32 \<Rightarrow> CommandMessage" where
  "SendZoneCommand zoneType x1 y1 z x2 y2 commandID =
     zero_CommandMessage\<lparr>cm_CommandID := commandID, cm_CommandType := CommandTypeZone,
       cm_Zone := zero_ZoneDesignation\<lparr>zd_X1 := x1, zd_Y1 := y1, zd_Z := z, zd_X2 := x2,
       zd_Y2 := y2, zd_ZoneType := zoneType\<rparr>\<rparr>"

definition SendAssignZone :: "i16 \<Rightarrow> i16 \<Rightarrow> i16 \<Rightarrow> i32 \<Rightarrow> u32 \<Rightarrow> CommandMessage" where
  "SendAssignZone x y z unitID commandID =
     zero_CommandMessage\<lparr>cm_CommandID := commandID, cm_CommandType := CommandTypeAssignZone,
       cm_AssignZone := zero_AssignZoneDesignation\<lparr>az_X := x, az_Y := y, az_Z := z,
       az_UnitID := unitID\<rparr>\<rparr>"

definition SendUnassignZone :: "i16 \<Rightarrow> i16 \<Rightarrow> i16 \<Rightarrow> i32 \<Rightarrow> u32 \<Rightarrow> CommandMessage" where
  "SendUnassignZone x y z unitID commandID =
     zero_CommandMessage\<lparr>cm_CommandID := commandID, cm_CommandType := CommandTypeUnassignZone,
       cm_UnassignZone := zero_UnassignZoneDesignation\<lparr>uz_X := x, uz_Y := y, uz_Z := z,
       uz_UnitID := unitID\<rparr>\<rparr>"

definition SendCreateLocation :: "i16 \<Rightarrow> i16 \<Rightarrow> i16 \<Rightarrow> u8 \<Rightarrow> gostring \<Rightarrow> u32 \<Rightarrow> CommandMessage" where
  "SendCreateLocation x y z locationType profession commandID =
     zero_CommandMessage\<lparr>cm_CommandID := commandID,
       cm_CommandType := CommandTypeCreateLocation,
       cm_CreateLocation := zero_CreateLocationDesignation\<lparr>cl_X := x, cl_Y := y,
       cl_Z := z, cl_LocationType := locationType, cl_Profession := profession\<rparr>\<rparr>"

definition SendAssignLodging :: "i16 \<Rightarrow> i16 \<Rightarrow> i16 \<Rightarrow> i16 \<Rightarrow> i16 \<Rightarrow> i16 \<Rightarrow> u32 \<Rightarrow> CommandMessage" where
  "SendAssignLodging tavernX tavernY tavernZ bedroomX bedroomY bedroomZ commandID =
     zero_CommandMessage\<lparr>cm_CommandID := commandID,
       cm_CommandType := CommandTypeAssignLodging,
       cm_AssignLodging := zero_AssignLodgingDesignation\<lparr>al_TavernX := tavernX,
       al_TavernY := tavernY, al_TavernZ := tavernZ, al_BedroomX := bedroomX,
       al_BedroomY := bedroomY, al_BedroomZ := bedroomZ\<rparr>\<rparr>"

definition SendUnassignLodging :: "i16 \<Rightarrow> i16 \<Rightarrow> i16 \<Rightarrow> u32 \<Rightarrow> CommandMessage" where
  "SendUnassignLodging bedroomX bedroomY bedroomZ commandID =
     zero_CommandMessage\<lparr>cm_CommandID := commandID,
       cm_CommandType := CommandTypeUnassignLodging,
       cm_UnassignLodging := zero_UnassignLodgingDesignation\<lparr>ul_BedroomX := bedroomX,
       ul_BedroomY := bedroomY, ul_BedroomZ := bedroomZ\<rparr>\<rparr>"

definition SendUnsuspendCommand :: "i16 \<Rightarrow> i16 \<Rightarrow> i16 \<Rightarrow> u32 \<Rightarrow> CommandMessage" where
  "SendUnsuspendCommand x y z commandID =
     zero_CommandMessage\<lparr>cm_CommandID := commandID, cm_CommandType := CommandTypeUnsuspend,
       cm_Unsuspend := zero_UnsuspendDesignation\<lparr>us_X := x, us_Y := y,
       us_Z := z\<rparr>\<rparr>"

definition SendRemoveBuilding :: "i16 \<Rightarrow> i16 \<Rightarrow> i16 \<Rightarrow> u32 \<Rightarrow> CommandMessage" where
  "SendRemoveBuilding x y z commandID =
     zero_CommandMessage\<lparr>cm_CommandID := commandID,
       cm_CommandType := CommandTypeRemoveBuilding,
       cm_Remove := zero_RemoveBuildingDesignation\<lparr>rm_X := x, rm_Y := y,
       rm_Z := z\<rparr>\<rparr>"

definition SendRemoveZone :: "i16 \<Rightarrow> i16 \<Rightarrow> i16 \<Rightarrow> u32 \<Rightarrow> CommandMessage" where
  "SendRemoveZone x y z commandID =
     zero_CommandMessage\<lparr>cm_CommandID := commandID, cm_CommandType := CommandTypeRemoveZone,
       cm_RemoveZone := zero_RemoveZoneDesignation\<lparr>rz_X := x, rz_Y := y,
       rz_Z := z\<rparr>\<rparr>"

definition SendWorkOrderCommand :: "u8 \<Rightarrow> u16 \<Rightarrow> gostring \<Rightarrow> gostring \<Rightarrow> gostring \<Rightarrow> u8 \<Rightarrow> u32 \<Rightarrow> CommandMessage" where
  "SendWorkOrderCommand orderType quantity jobTypeName material subtype frequency commandID =
     (let order = zero_WorkOrderDesignation\<lparr>wo_OrderType := orderType,
       wo_Quantity := quantity, wo_Material := material,
         wo_Subtype := subtype, wo_Frequency := frequency\<rparr>;
       order = (if orderType = OrderTypeByName then order\<lparr>wo_JobTypeName := jobTypeName\<rparr> else order)
     in zero_CommandMessage\<lparr>cm_CommandID := commandID,
       cm_CommandType := CommandTypeWorkOrder, cm_Order := order\<rparr>)"

definition SendQueueJob :: "i16 \<Rightarrow> i16 \<Rightarrow> i16 \<Rightarrow> u8 \<Rightarrow> gostring \<Rightarrow> gostring \<Rightarrow> gostring \<Rightarrow> u32 \<Rightarrow> CommandMessage" where
  "SendQueueJob x y z orderType name material subtype commandID =
     (let qj = zero_QueueJobDesignation\<lparr>qj_X := x, qj_Y := y, qj_Z := z,
       qj_OrderType := orderType,
         qj_Material := material, qj_Subtype := subtype\<rparr>;
       qj = (if orderType = OrderTypeByName then qj\<lparr>qj_JobTypeName := name\<rparr>
         else if orderType = OrderTypeCustomReaction then qj\<lparr>qj_ReactionCode := name\<rparr> else qj)
     in zero_CommandMessage\<lparr>cm_CommandID := commandID,
       cm_CommandType := CommandTypeQueueJob, cm_QueueJob := qj\<rparr>)"

definition SendSetLabor :: "i32 \<Rightarrow> u8 \<Rightarrow> bool \<Rightarrow> u32 \<Rightarrow> CommandMessage" where
  "SendSetLabor unitID laborID enable commandID =
     zero_CommandMessage\<lparr>cm_CommandID := commandID, cm_CommandType := CommandTypeSetLabor,
       cm_SetLabor := zero_SetLaborDesignation\<lparr>sl_UnitID := unitID,
       sl_LaborID := laborID, sl_Enable := enable\<rparr>\<rparr>"

definition SendStockpileCommand :: "i16 \<Rightarrow> i16 \<Rightarrow> i16 \<Rightarrow> i16 \<Rightarrow> i16 \<Rightarrow> u32 \<Rightarrow> u32 \<Rightarrow> CommandMessage" where
  "SendStockpileCommand x1 y1 z x2 y2 groupMask commandID =
     zero_CommandMessage\<lparr>cm_CommandID := commandID, cm_CommandType := CommandTypeStockpile,
       cm_Stockpile := zero_StockpileDesignation\<lparr>sp_X1 := x1, sp_Y1 := y1, sp_Z := z,
       sp_X2 := x2, sp_Y2 := y2, sp_GroupMask := groupMask\<rparr>\<rparr>"

definition SendBuildFarmPlot :: "i16 \<Rightarrow> i16 \<Rightarrow> i16 \<Rightarrow> i16 \<Rightarrow> i16 \<Rightarrow> u32 \<Rightarrow> CommandMessage" where
  "SendBuildFarmPlot x1 y1 z x2 y2 commandID =
     zero_CommandMessage\<lparr>cm_CommandID := commandID,
       cm_CommandType := CommandTypeBuildFarmPlot,
       cm_FarmPlot := zero_FarmPlotDesignation\<lparr>fp_X1 := x1, fp_Y1 := y1, fp_Z := z,
       fp_X2 := x2, fp_Y2 := y2\<rparr>\<rparr>"

definition SendSetFarmCrop :: "i16 \<Rightarrow> i16 \<Rightarrow> i16 \<Rightarrow> u8 \<Rightarrow> gostring \<Rightarrow> u32 \<Rightarrow> CommandMessage" where
  "SendSetFarmCrop x y z season cropName commandID =
     zero_CommandMessage\<lparr>cm_CommandID := commandID, cm_CommandType := CommandTypeSetFarmCrop,
       cm_SetFarmCrop := zero_SetFarmCropDesignation\<lparr>fc_X := x, fc_Y := y, fc_Z := z,
       fc_Season := season, fc_CropName := cropName\<rparr>\<rparr>"

definition SendDesignateBurrow :: "gostring \<Rightarrow> i16 \<Rightarrow> i16 \<Rightarrow> i16 \<Rightarrow> i16 \<Rightarrow> i16 \<Rightarrow> i16 \<Rightarrow> u32 \<Rightarrow> CommandMessage" where
  "SendDesignateBurrow name x1 y1 z1 x2 y2 z2 commandID =
     zero_CommandMessage\<lparr>cm_CommandID := commandID,
       cm_CommandType := CommandTypeDesignateBurrow,
       cm_DesignateBurrow := zero_DesignateBurrowDesignation\<lparr>db_Name := name,
       db_X1 := x1, db_Y1 := y1, db_Z1 := z1, db_X2 := x2, db_Y2 := y2,
       db_Z2 := z2\<rparr>\<rparr>"

definition SendRemoveBurrow :: "gostring \<Rightarrow> u32 \<Rightarrow> CommandMessage" where
  "SendRemoveBurrow name commandID =
     zero_CommandMessage\<lparr>cm_CommandID := commandID, cm_CommandType := CommandTypeRemoveBurrow,
       cm_RemoveBurrow := zero_RemoveBurrowDesignation\<lparr>rb_Name := name\<rparr>\<rparr>"

definition SendAssignBurrow :: "gostring \<Rightarrow> i32 \<Rightarrow> bool \<Rightarrow> bool \<Rightarrow> u32 \<Rightarrow> CommandMessage" where
  "SendAssignBurrow name unitID allCitizens assign commandID =
     zero_CommandMessage\<lparr>cm_CommandID := commandID, cm_CommandType := CommandTypeAssignBurrow,
       cm_AssignBurrow := zero_AssignBurrowDesignation\<lparr>ab_Name := name,
       ab_Assign := assign, ab_AllCitizens := allCitizens, ab_UnitID := unitID\<rparr>\<rparr>"

definition SendSetAlert :: "gostring \<Rightarrow> bool \<Rightarrow> u32 \<Rightarrow> CommandMessage" where
  "SendSetAlert name active commandID =
     zero_CommandMessage\<lparr>cm_CommandID := commandID, cm_CommandType := CommandTypeSetAlert,
       cm_SetAlert := zero_SetAlertDesignation\<lparr>sa_Name := name,
       sa_Active := active\<rparr>\<rparr>"

definition SendLinkBuilding :: "i16 \<Rightarrow> i16 \<Rightarrow> i16 \<Rightarrow> i16 \<Rightarrow> i16 \<Rightarrow> i16 \<Rightarrow> u32 \<Rightarrow> CommandMessage" where
  "SendLinkBuilding leverX leverY leverZ targetX targetY targetZ commandID =
     zero_CommandMessage\<lparr>cm_CommandID := commandID, cm_CommandType := CommandTypeLinkBuilding,
       cm_LinkBuilding := zero_LinkBuildingDesignation\<lparr>lb_LeverX := leverX,
       lb_LeverY := leverY, lb_LeverZ := leverZ, lb_TargetX := targetX, lb_TargetY := targetY,
       lb_TargetZ := targetZ\<rparr>\<rparr>"

definition SendPullLever :: "i16 \<Rightarrow> i16 \<Rightarrow> i16 \<Rightarrow> u32 \<Rightarrow> CommandMessage" where
  "SendPullLever x y z commandID =
     zero_CommandMessage\<lparr>cm_CommandID := commandID, cm_CommandType := CommandTypePullLever,
       cm_PullLever := zero_PullLeverDesignation\<lparr>pl_X := x, pl_Y := y,
       pl_Z := z\<rparr>\<rparr>"

definition SendBuildBridge :: "i16 \<Rightarrow> i16 \<Rightarrow> i16 \<Rightarrow> i16 \<Rightarrow> i16 \<Rightarrow> u8 \<Rightarrow> u32 \<Rightarrow> CommandMessage" where
  "SendBuildBridge x1 y1 z x2 y2 direction commandID =
     zero_CommandMessage\<lparr>cm_CommandID := commandID, cm_CommandType := CommandTypeBuildBridge,
       cm_BuildBridge := zero_BuildBridgeDesignation\<lparr>bb_X1 := x1, bb_Y1 := y1, bb_Z := z,
       bb_X2 := x2, bb_Y2 := y2, bb_Direction := direction\<rparr>\<rparr>"

definition SendSetWorkshopProfile :: "i16 \<Rightarrow> i16 \<Rightarrow> i16 \<Rightarrow> i32 \<Rightarrow> i32 \<Rightarrow> i32 \<Rightarrow> u32 \<Rightarrow> CommandMessage" where
  "SendSetWorkshopProfile x y z minSkillLevel maxSkillLevel workerUnitID commandID =
     zero_CommandMessage\<lparr>cm_CommandID := commandID,
       cm_CommandType := CommandTypeSetWorkshopProfile,
       cm_SetWorkshopProfile := zero_SetWorkshopProfileDesignation\<lparr>wp_X := x, wp_Y := y,
       wp_Z := z, wp_MinSkillLevel := minSkillLevel, wp_MaxSkillLevel := maxSkillLevel,
       wp_WorkerUnitID := workerUnitID\<rparr>\<rparr>"

definition SendAssignWorkDetail :: "u16 \<Rightarrow> i32 \<Rightarrow> bool \<Rightarrow> u32 \<Rightarrow> CommandMessage" where
  "SendAssignWorkDetail detailIndex unitID add commandID =
     zero_CommandMessage\<lparr>cm_CommandID := commandID,
       cm_CommandType := CommandTypeAssignWorkDetail,
       cm_AssignWorkDetail := zero_AssignWorkDetailDesignation\<lparr>aw_DetailIndex := detailIndex,
       aw_UnitID := unitID, aw_Add := add\<rparr>\<rparr>"

definition SendSetWorkDetailMode :: "u16 \<Rightarrow> u8 \<Rightarrow> u32 \<Rightarrow> CommandMessage" where
  "SendSetWorkDetailMode detailIndex mode commandID =
     zero_CommandMessage\<lparr>cm_CommandID := commandID,
       cm_CommandType := CommandTypeSetWorkDetailMode,
       cm_SetWorkDetailMode := zero_SetWorkDetailModeDesignation\<lparr>wm_DetailIndex := detailIndex,
       wm_Mode := mode\<rparr>\<rparr>"

definition SendCreateWorkDetail :: "gostring \<Rightarrow> u8 \<Rightarrow> bytes \<Rightarrow> u32 \<Rightarrow> CommandMessage" where
  "SendCreateWorkDetail name mode laborIDs commandID =
     zero_CommandMessage\<lparr>cm_CommandID := commandID,
       cm_CommandType := CommandTypeCreateWorkDetail,
       cm_CreateWorkDetail := zero_CreateWorkDetailDesignation\<lparr>cw_Name := name,
       cw_Mode := mode, cw_LaborIDs := laborIDs\<rparr>\<rparr>"

definition SendBringGoodsToDepot :: "i16 \<Rightarrow> i16 \<Rightarrow> i16 \<Rightarrow> gostring \<Rightarrow> gostring \<Rightarrow> u8 \<Rightarrow> i32 \<Rightarrow> i64 \<Rightarrow> u32 \<Rightarrow> CommandMessage" where
  "SendBringGoodsToDepot x y z itemTypeFilter materialFilter itemClass maxCount maxTotalValue commandID =
     zero_CommandMessage\<lparr>cm_CommandID := commandID,
       cm_CommandType := CommandTypeBringGoodsToDepot,
       cm_BringGoodsToDepot := zero_BringGoodsToDepotDesignation\<lparr>bg_X := x, bg_Y := y,
       bg_Z := z, bg_ItemTypeFilter := itemTypeFilter, bg_MaterialFilter := materialFilter,
       bg_MaxCount := maxCount, bg_MaxTotalValue := maxTotalValue,
       bg_ItemClass := itemClass\<rparr>\<rparr>"

definition SendUnmarkTradeGoods :: "i16 \<Rightarrow> i16 \<Rightarrow> i16 \<Rightarrow> gostring \<Rightarrow> gostring \<Rightarrow> u8 \<Rightarrow> i32 \<Rightarrow> u32 \<Rightarrow> CommandMessage" where
  "SendUnmarkTradeGoods x y z itemTypeFilter materialFilter itemClass maxCount commandID =
     zero_CommandMessage\<lparr>cm_CommandID := commandID,
       cm_CommandType := CommandTypeUnmarkTradeGoods,
       cm_UnmarkTradeGoods := zero_UnmarkTradeGoodsDesignation\<lparr>ug_X := x, ug_Y := y,
       ug_Z := z, ug_ItemTypeFilter := itemTypeFilter, ug_MaterialFilter := materialFilter,
       ug_ItemClass := itemClass, ug_MaxCount := maxCount\<rparr>\<rparr>"

definition SendSetDepotTradeFlags :: "i16 \<Rightarrow> i16 \<Rightarrow> i16 \<Rightarrow> bool \<Rightarrow> bool \<Rightarrow> u32 \<Rightarrow> CommandMessage" where
  "SendSetDepotTradeFlags x y z traderRequested anyoneCanTrade commandID =
     zero_CommandMessage\<lparr>cm_CommandID := commandID,
       cm_CommandType := CommandTypeSetDepotTradeFlags,
       cm_SetDepotTradeFlags := zero_SetDepotTradeFlagsDesignation\<lparr>df_X := x, df_Y := y,
       df_Z := z, df_TraderRequested := traderRequested,
       df_AnyoneCanTrade := anyoneCanTrade\<rparr>\<rparr>"

definition SendAppointPosition :: "i32 \<Rightarrow> gostring \<Rightarrow> u32 \<Rightarrow> CommandMessage" where
  "SendAppointPosition unitID positionCode commandID =
     zero_CommandMessage\<lparr>cm_CommandID := commandID,
       cm_CommandType := CommandTypeAppointPosition,
       cm_AppointPosition := zero_AppointPositionDesignation\<lparr>ap_UnitID := unitID,
       ap_PositionCode := positionCode\<rparr>\<rparr>"

definition SendSetBookkeeperPrecision :: "u8 \<Rightarrow> u32 \<Rightarrow> CommandMessage" where
  "SendSetBookkeeperPrecision precision commandID =
     zero_CommandMessage\<lparr>cm_CommandID := commandID,
       cm_CommandType := CommandTypeSetBookkeeperPrecision,
       cm_SetBookkeeperPrecision := zero_SetBookkeeperPrecisionDesignation\<lparr>bp_Precision := precision\<rparr>\<rparr>"

definition SendCreateSquad :: "gostring \<Rightarrow> u32 \<Rightarrow> CommandMessage" where
  "SendCreateSquad positionCode commandID =
     zero_CommandMessage\<lparr>cm_CommandID := commandID, cm_CommandType := CommandTypeCreateSquad,
       cm_CreateSquad := zero_CreateSquadDesignation\<lparr>cs_PositionCode := positionCode\<rparr>\<rparr>"

definition SendAssignSquad :: "i32 \<Rightarrow> i32 \<Rightarrow> bool \<Rightarrow> u32 \<Rightarrow> CommandMessage" where
  "SendAssignSquad squadID unitID add commandID =
     zero_CommandMessage\<lparr>cm_CommandID := commandID, cm_CommandType := CommandTypeAssignSquad,
       cm_AssignSquad := zero_AssignSquadDesignation\<lparr>as_SquadID := squadID,
       as_UnitID := unitID, as_Add := add\<rparr>\<rparr>"

definition sendSquadOrder :: "i32 \<Rightarrow> u8 \<Rightarrow> i16 \<Rightarrow> i16 \<Rightarrow> i16 \<Rightarrow> gostring \<Rightarrow> u32 \<Rightarrow> CommandMessage" where
  "sendSquadOrder squadID orderType x y z burrowName commandID =
     zero_CommandMessage\<lparr>cm_CommandID := commandID, cm_CommandType := CommandTypeSquadOrder,
       cm_SquadOrder := zero_SquadOrderDesignation\<lparr>so_SquadID := squadID,
       so_Type := orderType, so_X := x, so_Y := y, so_Z := z,
       so_BurrowName := burrowName\<rparr>\<rparr>"

definition SendSquadOrderStation :: "i32 \<Rightarrow> i16 \<Rightarrow> i16 \<Rightarrow> i16 \<Rightarrow> u32 \<Rightarrow> CommandMessage" where
  "SendSquadOrderStation squadID x y z commandID =
     sendSquadOrder squadID SquadOrderStation x y z [] commandID"

definition SendSquadOrderDefendBurrow :: "i32 \<Rightarrow> gostring \<Rightarrow> u32 \<Rightarrow> CommandMessage" where
  "SendSquadOrderDefendBurrow squadID burrowName commandID =
     sendSquadOrder squadID SquadOrderDefendBurrow 0 0 0 burrowName commandID"

definition SendSquadOrderCancel :: "i32 \<Rightarrow> u32 \<Rightarrow> CommandMessage" where
  "SendSquadOrderCancel squadID commandID =
     sendSquadOrder squadID SquadOrderCancel 0 0 0 [] commandID"

definition SendCancelOrder :: "i32 \<Rightarrow> u32 \<Rightarrow> CommandMessage" where
  "SendCancelOrder orderID commandID =
     zero_CommandMessage\<lparr>cm_CommandID := commandID, cm_CommandType := CommandTypeCancelOrder,
       cm_CancelOrder := zero_CancelOrderDesignation\<lparr>co_OrderID := orderID\<rparr>\<rparr>"

definition SendEditOrder :: "i32 \<Rightarrow> bool \<Rightarrow> u16 \<Rightarrow> bool \<Rightarrow> u8 \<Rightarrow> u32 \<Rightarrow> CommandMessage" where
  "SendEditOrder orderID hasAmount amount hasFrequency frequency commandID =
     zero_CommandMessage\<lparr>cm_CommandID := commandID, cm_CommandType := CommandTypeEditOrder,
       cm_EditOrder := zero_EditOrderDesignation\<lparr>eo_OrderID := orderID,
       eo_HasAmount := hasAmount, eo_Amount := amount, eo_HasFrequency := hasFrequency,
       eo_Frequency := frequency\<rparr>\<rparr>"

definition SendSmoothCommand :: "u8 \<Rightarrow> i16 \<Rightarrow> i16 \<Rightarrow> i16 \<Rightarrow> i16 \<Rightarrow> i16 \<Rightarrow> u32 \<Rightarrow> CommandMessage" where
  "SendSmoothCommand smoothType x1 y1 z x2 y2 commandID =
     zero_CommandMessage\<lparr>cm_CommandID := commandID, cm_CommandType := CommandTypeSmooth,
       cm_Smooth := zero_SmoothDesignation\<lparr>sm_X1 := x1, sm_Y1 := y1, sm_Z := z,
       sm_X2 := x2, sm_Y2 := y2, sm_SmoothType := smoothType\<rparr>\<rparr>"

definition SendPauseCommand :: "bool \<Rightarrow> u32 \<Rightarrow> CommandMessage" where
  "SendPauseCommand pause commandID =
     (let mode = (if pause then PauseModePause else PauseModeUnpause) in
     zero_CommandMessage\<lparr>cm_CommandID := commandID, cm_CommandType := CommandTypePause,
       cm_Pause := zero_PauseControl\<lparr>pc_Mode := mode\<rparr>\<rparr>)"

definition SendStepCommand :: "u32 \<Rightarrow> u32 \<Rightarrow> CommandMessage option" where
  "SendStepCommand ticks commandID =
     (if ticks = 0 then None else Some (zero_CommandMessage\<lparr>cm_CommandID := commandID,
       cm_CommandType := CommandTypePause,
       cm_Pause := zero_PauseControl\<lparr>pc_Mode := PauseModeStep,
       pc_Ticks := ticks\<rparr>\<rparr>))"

lemmas send_defs =
  SendDigRegion_def SendDigCommand_def buildDesignation_def SendBuildCommandFull_def
  SendBuildCommandWithMaterialAndQuality_def SendBuildCommandWithMaterial_def SendBuildCommand_def
  SendBuildCommandByNameFull_def SendBuildCommandByName_def SendCancelCommand_def
  SendChopCommand_def SendGatherCommand_def SendZoneCommand_def SendAssignZone_def
  SendUnassignZone_def SendCreateLocation_def SendAssignLodging_def SendUnassignLodging_def
  SendUnsuspendCommand_def SendRemoveBuilding_def SendRemoveZone_def SendWorkOrderCommand_def
  SendQueueJob_def SendSetLabor_def SendStockpileCommand_def SendBuildFarmPlot_def
  SendSetFarmCrop_def SendDesignateBurrow_def SendRemoveBurrow_def SendAssignBurrow_def
  SendSetAlert_def SendLinkBuilding_def SendPullLever_def SendBuildBridge_def
  SendSetWorkshopProfile_def SendAssignWorkDetail_def SendSetWorkDetailMode_def
  SendCreateWorkDetail_def SendBringGoodsToDepot_def SendUnmarkTradeGoods_def
  SendSetDepotTradeFlags_def SendAppointPosition_def SendSetBookkeeperPrecision_def
  SendCreateSquad_def SendAssignSquad_def sendSquadOrder_def SendSquadOrderStation_def
  SendSquadOrderDefendBurrow_def SendSquadOrderCancel_def SendCancelOrder_def SendEditOrder_def
  SendSmoothCommand_def SendPauseCommand_def SendStepCommand_def

text \<open>The messages any of the methods sends; the shorter \<open>SendBuild\<close> and squad methods call these.\<close>

inductive sent :: "CommandMessage \<Rightarrow> bool" where
  dig_region: "sent (SendDigRegion digType x1 y1 z1 x2 y2 z2 commandID)"
| build: "sent (SendBuildCommandFull x y z buildType material quality orientation commandID)"
| build_by_name: "sent (SendBuildCommandByNameFull x y z name material quality orientation commandID)"
| cancel: "sent (SendCancelCommand x1 y1 z x2 y2 commandID)"
| chop: "sent (SendChopCommand x1 y1 z x2 y2 commandID)"
| gather: "sent (SendGatherCommand x1 y1 z x2 y2 commandID)"
| zone: "sent (SendZoneCommand zoneType x1 y1 z x2 y2 commandID)"
| assign_zone: "sent (SendAssignZone x y z unitID commandID)"
| unassign_zone: "sent (SendUnassignZone x y z unitID commandID)"
| create_location: "sent (SendCreateLocation x y z locationType profession commandID)"
| assign_lodging: "sent (SendAssignLodging tavernX tavernY tavernZ bedroomX bedroomY bedroomZ commandID)"
| unassign_lodging: "sent (SendUnassignLodging bedroomX bedroomY bedroomZ commandID)"
| unsuspend: "sent (SendUnsuspendCommand x y z commandID)"
| remove_building: "sent (SendRemoveBuilding x y z commandID)"
| remove_zone: "sent (SendRemoveZone x y z commandID)"
| work_order: "sent (SendWorkOrderCommand orderType quantity jobTypeName material subtype frequency commandID)"
| queue_job: "sent (SendQueueJob x y z orderType name material subtype commandID)"
| set_labor: "sent (SendSetLabor unitID laborID enable commandID)"
| stockpile: "sent (SendStockpileCommand x1 y1 z x2 y2 groupMask commandID)"
| build_farm_plot: "sent (SendBuildFarmPlot x1 y1 z x2 y2 commandID)"
| set_farm_crop: "sent (SendSetFarmCrop x y z season cropName commandID)"
| designate_burrow: "sent (SendDesignateBurrow name x1 y1 z1 x2 y2 z2 commandID)"
| remove_burrow: "sent (SendRemoveBurrow name commandID)"
| assign_burrow: "sent (SendAssignBurrow name unitID allCitizens assign commandID)"
| set_alert: "sent (SendSetAlert name active commandID)"
| link_building: "sent (SendLinkBuilding leverX leverY leverZ targetX targetY targetZ commandID)"
| pull_lever: "sent (SendPullLever x y z commandID)"
| build_bridge: "sent (SendBuildBridge x1 y1 z x2 y2 direction commandID)"
| set_workshop_profile: "sent (SendSetWorkshopProfile x y z minSkillLevel maxSkillLevel workerUnitID commandID)"
| assign_work_detail: "sent (SendAssignWorkDetail detailIndex unitID add commandID)"
| set_work_detail_mode: "sent (SendSetWorkDetailMode detailIndex mode commandID)"
| create_work_detail: "sent (SendCreateWorkDetail name mode laborIDs commandID)"
| bring_goods_to_depot: "sent (SendBringGoodsToDepot x y z itemTypeFilter materialFilter itemClass maxCount maxTotalValue commandID)"
| unmark_trade_goods: "sent (SendUnmarkTradeGoods x y z itemTypeFilter materialFilter itemClass maxCount commandID)"
| set_depot_trade_flags: "sent (SendSetDepotTradeFlags x y z traderRequested anyoneCanTrade commandID)"
| appoint_position: "sent (SendAppointPosition unitID positionCode commandID)"
| set_bookkeeper_precision: "sent (SendSetBookkeeperPrecision precision commandID)"
| create_squad: "sent (SendCreateSquad positionCode commandID)"
| assign_squad: "sent (SendAssignSquad squadID unitID add commandID)"
| squad_order: "sent (sendSquadOrder squadID orderType x y z burrowName commandID)"
| cancel_order: "sent (SendCancelOrder orderID commandID)"
| edit_order: "sent (SendEditOrder orderID hasAmount amount hasFrequency frequency commandID)"
| smooth: "sent (SendSmoothCommand smoothType x1 y1 z x2 y2 commandID)"
| pause: "sent (SendPauseCommand pause commandID)"
| step: "SendStepCommand ticks commandID = Some m \<Longrightarrow> sent m"

section \<open>What the receiver sees of them\<close>

lemma shown_SendDigRegion: "command_shown (SendDigRegion digType x1 y1 z1 x2 y2 z2 commandID) = SendDigRegion digType x1 y1 z1 x2 y2 z2 commandID"
  by (cases "slt z2 z1") (simp_all add: SendDigRegion_def command_shown_def const_defs)

lemma shown_SendCancelCommand: "command_shown (SendCancelCommand x1 y1 z x2 y2 commandID) = SendCancelCommand x1 y1 z x2 y2 commandID"
  by (simp add: SendCancelCommand_def command_shown_def const_defs)

lemma shown_SendChopCommand: "command_shown (SendChopCommand x1 y1 z x2 y2 commandID) = SendChopCommand x1 y1 z x2 y2 commandID"
  by (simp add: SendChopCommand_def command_shown_def const_defs)

lemma shown_SendGatherCommand: "command_shown (SendGatherCommand x1 y1 z x2 y2 commandID) = SendGatherCommand x1 y1 z x2 y2 commandID"
  by (simp add: SendGatherCommand_def command_shown_def const_defs)

lemma shown_SendZoneCommand: "command_shown (SendZoneCommand zoneType x1 y1 z x2 y2 commandID) = SendZoneCommand zoneType x1 y1 z x2 y2 commandID"
  by (simp add: SendZoneCommand_def command_shown_def const_defs)

lemma shown_SendAssignZone: "command_shown (SendAssignZone x y z unitID commandID) = SendAssignZone x y z unitID commandID"
  by (simp add: SendAssignZone_def command_shown_def const_defs)

lemma shown_SendUnassignZone: "command_shown (SendUnassignZone x y z unitID commandID) = SendUnassignZone x y z unitID commandID"
  by (simp add: SendUnassignZone_def command_shown_def const_defs)

lemma shown_SendCreateLocation: "command_shown (SendCreateLocation x y z locationType profession commandID) = SendCreateLocation x y z locationType profession commandID"
  by (simp add: SendCreateLocation_def command_shown_def const_defs)

lemma shown_SendAssignLodging: "command_shown (SendAssignLodging tavernX tavernY tavernZ bedroomX bedroomY bedroomZ commandID) = SendAssignLodging tavernX tavernY tavernZ bedroomX bedroomY bedroomZ commandID"
  by (simp add: SendAssignLodging_def command_shown_def const_defs)

lemma shown_SendUnassignLodging: "command_shown (SendUnassignLodging bedroomX bedroomY bedroomZ commandID) = SendUnassignLodging bedroomX bedroomY bedroomZ commandID"
  by (simp add: SendUnassignLodging_def command_shown_def const_defs)

lemma shown_SendUnsuspendCommand: "command_shown (SendUnsuspendCommand x y z commandID) = SendUnsuspendCommand x y z commandID"
  by (simp add: SendUnsuspendCommand_def command_shown_def const_defs)

lemma shown_SendRemoveBuilding: "command_shown (SendRemoveBuilding x y z commandID) = SendRemoveBuilding x y z commandID"
  by (simp add: SendRemoveBuilding_def command_shown_def const_defs)

lemma shown_SendRemoveZone: "command_shown (SendRemoveZone x y z commandID) = SendRemoveZone x y z commandID"
  by (simp add: SendRemoveZone_def command_shown_def const_defs)

lemma shown_SendWorkOrderCommand: "command_shown (SendWorkOrderCommand orderType quantity jobTypeName material subtype frequency commandID) = SendWorkOrderCommand orderType quantity jobTypeName material subtype frequency commandID"
  by (simp add: SendWorkOrderCommand_def command_shown_def const_defs work_order_shown_def zero_WorkOrderDesignation_def Let_def)

lemma shown_SendQueueJob: "command_shown (SendQueueJob x y z orderType name material subtype commandID) = SendQueueJob x y z orderType name material subtype commandID"
  by (simp add: SendQueueJob_def command_shown_def const_defs queue_job_shown_def zero_QueueJobDesignation_def Let_def)

lemma shown_SendSetLabor: "command_shown (SendSetLabor unitID laborID enable commandID) = SendSetLabor unitID laborID enable commandID"
  by (simp add: SendSetLabor_def command_shown_def const_defs)

lemma shown_SendStockpileCommand: "command_shown (SendStockpileCommand x1 y1 z x2 y2 groupMask commandID) = SendStockpileCommand x1 y1 z x2 y2 groupMask commandID"
  by (simp add: SendStockpileCommand_def command_shown_def const_defs)

lemma shown_SendBuildFarmPlot: "command_shown (SendBuildFarmPlot x1 y1 z x2 y2 commandID) = SendBuildFarmPlot x1 y1 z x2 y2 commandID"
  by (simp add: SendBuildFarmPlot_def command_shown_def const_defs)

lemma shown_SendSetFarmCrop: "command_shown (SendSetFarmCrop x y z season cropName commandID) = SendSetFarmCrop x y z season cropName commandID"
  by (simp add: SendSetFarmCrop_def command_shown_def const_defs)

lemma shown_SendDesignateBurrow: "command_shown (SendDesignateBurrow name x1 y1 z1 x2 y2 z2 commandID) = SendDesignateBurrow name x1 y1 z1 x2 y2 z2 commandID"
  by (simp add: SendDesignateBurrow_def command_shown_def const_defs)

lemma shown_SendRemoveBurrow: "command_shown (SendRemoveBurrow name commandID) = SendRemoveBurrow name commandID"
  by (simp add: SendRemoveBurrow_def command_shown_def const_defs)

lemma shown_SendAssignBurrow: "command_shown (SendAssignBurrow name unitID allCitizens assign commandID) = SendAssignBurrow name unitID allCitizens assign commandID"
  by (simp add: SendAssignBurrow_def command_shown_def const_defs)

lemma shown_SendSetAlert: "command_shown (SendSetAlert name active commandID) = SendSetAlert name active commandID"
  by (simp add: SendSetAlert_def command_shown_def const_defs)

lemma shown_SendLinkBuilding: "command_shown (SendLinkBuilding leverX leverY leverZ targetX targetY targetZ commandID) = SendLinkBuilding leverX leverY leverZ targetX targetY targetZ commandID"
  by (simp add: SendLinkBuilding_def command_shown_def const_defs)

lemma shown_SendPullLever: "command_shown (SendPullLever x y z commandID) = SendPullLever x y z commandID"
  by (simp add: SendPullLever_def command_shown_def const_defs)

lemma shown_SendBuildBridge: "command_shown (SendBuildBridge x1 y1 z x2 y2 direction commandID) = SendBuildBridge x1 y1 z x2 y2 direction commandID"
  by (simp add: SendBuildBridge_def command_shown_def const_defs)

lemma shown_SendSetWorkshopProfile: "command_shown (SendSetWorkshopProfile x y z minSkillLevel maxSkillLevel workerUnitID commandID) = SendSetWorkshopProfile x y z minSkillLevel maxSkillLevel workerUnitID commandID"
  by (simp add: SendSetWorkshopProfile_def command_shown_def const_defs)

lemma shown_SendAssignWorkDetail: "command_shown (SendAssignWorkDetail detailIndex unitID add commandID) = SendAssignWorkDetail detailIndex unitID add commandID"
  by (simp add: SendAssignWorkDetail_def command_shown_def const_defs)

lemma shown_SendSetWorkDetailMode: "command_shown (SendSetWorkDetailMode detailIndex mode commandID) = SendSetWorkDetailMode detailIndex mode commandID"
  by (simp add: SendSetWorkDetailMode_def command_shown_def const_defs)

lemma shown_SendCreateWorkDetail: "command_shown (SendCreateWorkDetail name mode laborIDs commandID) = SendCreateWorkDetail name mode laborIDs commandID"
  by (simp add: SendCreateWorkDetail_def command_shown_def const_defs)

lemma shown_SendBringGoodsToDepot: "command_shown (SendBringGoodsToDepot x y z itemTypeFilter materialFilter itemClass maxCount maxTotalValue commandID) = SendBringGoodsToDepot x y z itemTypeFilter materialFilter itemClass maxCount maxTotalValue commandID"
  by (simp add: SendBringGoodsToDepot_def command_shown_def const_defs)

lemma shown_SendUnmarkTradeGoods: "command_shown (SendUnmarkTradeGoods x y z itemTypeFilter materialFilter itemClass maxCount commandID) = SendUnmarkTradeGoods x y z itemTypeFilter materialFilter itemClass maxCount commandID"
  by (simp add: SendUnmarkTradeGoods_def command_shown_def const_defs)

lemma shown_SendSetDepotTradeFlags: "command_shown (SendSetDepotTradeFlags x y z traderRequested anyoneCanTrade commandID) = SendSetDepotTradeFlags x y z traderRequested anyoneCanTrade commandID"
  by (simp add: SendSetDepotTradeFlags_def command_shown_def const_defs)

lemma shown_SendAppointPosition: "command_shown (SendAppointPosition unitID positionCode commandID) = SendAppointPosition unitID positionCode commandID"
  by (simp add: SendAppointPosition_def command_shown_def const_defs)

lemma shown_SendSetBookkeeperPrecision: "command_shown (SendSetBookkeeperPrecision precision commandID) = SendSetBookkeeperPrecision precision commandID"
  by (simp add: SendSetBookkeeperPrecision_def command_shown_def const_defs)

lemma shown_SendCreateSquad: "command_shown (SendCreateSquad positionCode commandID) = SendCreateSquad positionCode commandID"
  by (simp add: SendCreateSquad_def command_shown_def const_defs)

lemma shown_SendAssignSquad: "command_shown (SendAssignSquad squadID unitID add commandID) = SendAssignSquad squadID unitID add commandID"
  by (simp add: SendAssignSquad_def command_shown_def const_defs)

lemma shown_sendSquadOrder: "command_shown (sendSquadOrder squadID orderType x y z burrowName commandID) = sendSquadOrder squadID orderType x y z burrowName commandID"
  by (simp add: sendSquadOrder_def command_shown_def const_defs)

lemma shown_SendCancelOrder: "command_shown (SendCancelOrder orderID commandID) = SendCancelOrder orderID commandID"
  by (simp add: SendCancelOrder_def command_shown_def const_defs)

lemma shown_SendEditOrder: "command_shown (SendEditOrder orderID hasAmount amount hasFrequency frequency commandID) = SendEditOrder orderID hasAmount amount hasFrequency frequency commandID"
  by (simp add: SendEditOrder_def command_shown_def const_defs)

lemma shown_SendSmoothCommand: "command_shown (SendSmoothCommand smoothType x1 y1 z x2 y2 commandID) = SendSmoothCommand smoothType x1 y1 z x2 y2 commandID"
  by (simp add: SendSmoothCommand_def command_shown_def const_defs)

lemma shown_SendPauseCommand: "command_shown (SendPauseCommand pause commandID) = SendPauseCommand pause commandID"
  by (simp add: SendPauseCommand_def command_shown_def const_defs Let_def)

lemma shown_SendStepCommand: "SendStepCommand ticks commandID = Some m \<Longrightarrow> command_shown m = m"
  by (auto simp: SendStepCommand_def command_shown_def const_defs split: if_splits)

lemma shown_SendBuildCommandFull: "command_shown (SendBuildCommandFull x y z buildType material quality orientation commandID) = SendBuildCommandFull x y z buildType material quality orientation commandID"
  by (simp add: SendBuildCommandFull_def buildDesignation_def command_shown_def const_defs build_shown_def zero_BuildDesignation_def)

lemma shown_SendBuildCommandByNameFull: "command_shown (SendBuildCommandByNameFull x y z name material quality orientation commandID) = SendBuildCommandByNameFull x y z name material quality orientation commandID"
  by (simp add: SendBuildCommandByNameFull_def buildDesignation_def command_shown_def const_defs build_shown_def zero_BuildDesignation_def)

lemmas shown_sends =
  shown_SendDigRegion shown_SendCancelCommand shown_SendChopCommand shown_SendGatherCommand
  shown_SendZoneCommand shown_SendAssignZone shown_SendUnassignZone shown_SendCreateLocation
  shown_SendAssignLodging shown_SendUnassignLodging shown_SendUnsuspendCommand
  shown_SendRemoveBuilding shown_SendRemoveZone shown_SendWorkOrderCommand shown_SendQueueJob
  shown_SendSetLabor shown_SendStockpileCommand shown_SendBuildFarmPlot shown_SendSetFarmCrop
  shown_SendDesignateBurrow shown_SendRemoveBurrow shown_SendAssignBurrow shown_SendSetAlert
  shown_SendLinkBuilding shown_SendPullLever shown_SendBuildBridge shown_SendSetWorkshopProfile
  shown_SendAssignWorkDetail shown_SendSetWorkDetailMode shown_SendCreateWorkDetail
  shown_SendBringGoodsToDepot shown_SendUnmarkTradeGoods shown_SendSetDepotTradeFlags
  shown_SendAppointPosition shown_SendSetBookkeeperPrecision shown_SendCreateSquad
  shown_SendAssignSquad shown_sendSquadOrder shown_SendCancelOrder shown_SendEditOrder
  shown_SendSmoothCommand shown_SendPauseCommand shown_SendStepCommand shown_SendBuildCommandFull
  shown_SendBuildCommandByNameFull

lemma sent_shown: "sent m \<Longrightarrow> command_shown m = m"
  by (induction rule: sent.induct) (simp_all only: shown_sends)

text \<open>A dig passes \<open>Validate\<close> whatever the order of its levels, which are swapped into place.\<close>

lemma SendDigRegion_valid:
  "validate_command (SendDigRegion digType x1 y1 z1 x2 y2 z2 commandID) = Inr () \<longleftrightarrow>
     sint x1 \<le> sint x2 \<and> sint y1 \<le> sint y2"
  by (cases "slt z2 z1")
    (auto simp: SendDigRegion_def validate_command_def validate_region_def const_defs slt_def bindr_def
      not_less)



end
