(* ===== verification/Command_Tracker.thy ===== *)
theory Command_Tracker
  imports Messages
begin

text \<open>
  Tracking of issued commands (\<open>internal/commands/types.go\<close>, \<open>tracker.go\<close>, and \<open>SendCommand\<close>,
  \<open>WaitForAck\<close>, \<open>HandleAck\<close> of \<open>executor.go\<close>). A \<open>*Command\<close> is shared by the tracker's map and the
  goroutine that sends it, so the model keeps the objects in a store by id and the tracker's map as the
  set of ids it holds. A result channel has room for one result. \<open>SendCommand\<close> gives up the tracker's
  lock between its parts: each part is a step, and acknowledgements, the timeout check and the cleanup
  come between them as they like. Times are in nanoseconds.
\<close>

section \<open>Data\<close>

datatype CommandStatus =
  CommandStatusPending | CommandStatusSent | CommandStatusAcked | CommandStatusTimeout | CommandStatusFailed

record CommandResult =
  cr_Success :: bool
  cr_Status :: u8
  cr_ErrorMsg :: gostring
  cr_Response :: "CommandAckMessage option"
  cr_Duration :: int

record Command =
  co_ID :: u32
  co_Type :: u8
  co_Message :: CommandMessage
  co_Status :: CommandStatus
  co_Response :: "CommandAckMessage option"
  co_SentAt :: go_time
  co_AckedAt :: go_time
  co_TimeoutAt :: go_time
  co_ResultChan :: "CommandResult option"

definition IsComplete :: "Command \<Rightarrow> bool" where
  "IsComplete c \<longleftrightarrow> co_Status c = CommandStatusAcked \<or> co_Status c = CommandStatusTimeout \<or>
     co_Status c = CommandStatusFailed"

definition IsPending :: "Command \<Rightarrow> bool" where
  "IsPending c \<longleftrightarrow> co_Status c = CommandStatusSent"

record CommandTracker =
  ct_objects :: "u32 \<rightharpoonup> Command"
  ct_commands :: "u32 set"
  ct_nextID :: u32
  ct_timeout :: nat

definition NewCommandTracker :: "nat \<Rightarrow> CommandTracker" where
  "NewCommandTracker timeout =
     \<lparr>ct_objects = Map.empty, ct_commands = {}, ct_nextID = 1, ct_timeout = timeout\<rparr>"

definition GenerateCommandID :: "CommandTracker \<Rightarrow> u32 \<times> CommandTracker" where
  "GenerateCommandID t = (ct_nextID t + 1, t\<lparr>ct_nextID := ct_nextID t + 1\<rparr>)"

definition AddCommand :: "Command \<Rightarrow> CommandTracker \<Rightarrow> CommandTracker" where
  "AddCommand c t = t\<lparr>ct_objects := (ct_objects t)(co_ID c \<mapsto> c), ct_commands := insert (co_ID c) (ct_commands t)\<rparr>"

definition GetCommand :: "u32 \<Rightarrow> CommandTracker \<Rightarrow> Command option" where
  "GetCommand i t = (if i \<in> ct_commands t then ct_objects t i else None)"

definition set_object :: "Command \<Rightarrow> CommandTracker \<Rightarrow> CommandTracker" where
  "set_object c t = t\<lparr>ct_objects := (ct_objects t)(co_ID c \<mapsto> c)\<rparr>"

definition UpdateStatus :: "u32 \<Rightarrow> CommandStatus \<Rightarrow> CommandTracker \<Rightarrow> CommandTracker option" where
  "UpdateStatus i status t = (case GetCommand i t of
       None \<Rightarrow> None | Some c \<Rightarrow> Some (set_object (c\<lparr>co_Status := status\<rparr>) t))"

text \<open>A send that does not block: a full channel keeps what it has.\<close>

definition chan_offer :: "CommandResult \<Rightarrow> Command \<Rightarrow> Command" where
  "chan_offer r c = (if co_ResultChan c = None then c\<lparr>co_ResultChan := Some r\<rparr> else c)"

definition ack_result :: "CommandAckMessage \<Rightarrow> int \<Rightarrow> CommandResult" where
  "ack_result ack duration = \<lparr>cr_Success = (ca_Status ack = AckStatusSuccess), cr_Status = ca_Status ack,
     cr_ErrorMsg = ca_ErrorMsg ack, cr_Response = Some ack, cr_Duration = duration\<rparr>"

definition MarkAcked :: "go_time \<Rightarrow> u32 \<Rightarrow> CommandAckMessage \<Rightarrow> CommandTracker \<Rightarrow> CommandTracker option" where
  "MarkAcked now i ack t = (case GetCommand i t of
       None \<Rightarrow> None
     | Some c \<Rightarrow>
         let c = c\<lparr>co_Status := CommandStatusAcked, co_Response := Some ack, co_AckedAt := now\<rparr>;
             result = ack_result ack (int (co_AckedAt c) - int (co_SentAt c))
         in Some (set_object (chan_offer result c) t))"

definition timeout_text :: gostring where
  "timeout_text = map of_char ''timeout waiting for acknowledgment''"

definition timeout_result :: "int \<Rightarrow> CommandResult" where
  "timeout_result duration = \<lparr>cr_Success = False, cr_Status = AckStatusFailure, cr_ErrorMsg = timeout_text,
     cr_Response = None, cr_Duration = duration\<rparr>"

definition timed_out :: "go_time \<Rightarrow> Command \<Rightarrow> bool" where
  "timed_out now c \<longleftrightarrow> IsPending c \<and> co_TimeoutAt c < now"

definition expire :: "go_time \<Rightarrow> Command \<Rightarrow> Command" where
  "expire now c = (if timed_out now c
     then chan_offer (timeout_result (int now - int (co_SentAt c))) (c\<lparr>co_Status := CommandStatusTimeout\<rparr>)
     else c)"

text \<open>The loop touches each tracked command on its own: all at once.\<close>

definition CheckTimeouts :: "go_time \<Rightarrow> CommandTracker \<Rightarrow> nat \<times> CommandTracker" where
  "CheckTimeouts now t =
     (card {i \<in> ct_commands t. case ct_objects t i of None \<Rightarrow> False | Some c \<Rightarrow> timed_out now c},
      t\<lparr>ct_objects := \<lambda>i. if i \<in> ct_commands t then map_option (expire now) (ct_objects t i)
          else ct_objects t i\<rparr>)"

text \<open>The order \<open>ord\<close> lists the ids of the tracker's map.\<close>

definition tracked :: "u32 list \<Rightarrow> CommandTracker \<Rightarrow> Command list" where
  "tracked ord t = List.map_filter (\<lambda>i. if i \<in> ct_commands t then ct_objects t i else None) ord"

definition GetPendingCommands :: "u32 list \<Rightarrow> CommandTracker \<Rightarrow> Command list" where
  "GetPendingCommands ord t = filter IsPending (tracked ord t)"

record TrackerStats =
  ts_total :: int
  ts_pending :: int
  ts_acked :: int
  ts_timeout :: int
  ts_failed :: int

definition count_command :: "TrackerStats \<Rightarrow> Command \<Rightarrow> TrackerStats" where
  "count_command s c = (case co_Status c of
       CommandStatusPending \<Rightarrow> s
     | CommandStatusSent \<Rightarrow> s\<lparr>ts_pending := ts_pending s + 1\<rparr>
     | CommandStatusAcked \<Rightarrow> s\<lparr>ts_acked := ts_acked s + 1\<rparr>
     | CommandStatusTimeout \<Rightarrow> s\<lparr>ts_timeout := ts_timeout s + 1\<rparr>
     | CommandStatusFailed \<Rightarrow> s\<lparr>ts_failed := ts_failed s + 1\<rparr>)"

definition GetTrackerStats :: "u32 list \<Rightarrow> CommandTracker \<Rightarrow> TrackerStats" where
  "GetTrackerStats ord t = foldl count_command
     \<lparr>ts_total = int (length (tracked ord t)), ts_pending = 0, ts_acked = 0, ts_timeout = 0, ts_failed = 0\<rparr>
     (tracked ord t)"

lemma count_commands: "foldl count_command s cs = s\<lparr>
    ts_pending := ts_pending s + int (length (filter IsPending cs)),
    ts_acked := ts_acked s + int (length (filter (\<lambda>c. co_Status c = CommandStatusAcked) cs)),
    ts_timeout := ts_timeout s + int (length (filter (\<lambda>c. co_Status c = CommandStatusTimeout) cs)),
    ts_failed := ts_failed s + int (length (filter (\<lambda>c. co_Status c = CommandStatusFailed) cs))\<rparr>"
  by (induction cs arbitrary: s) (simp_all add: count_command_def IsPending_def split: CommandStatus.splits)

text \<open>The pending count is the number of commands \<open>GetPendingCommands\<close> lists.\<close>

lemma GetTrackerStats_pending:
  "ts_pending (GetTrackerStats ord t) = int (length (GetPendingCommands ord t))"
  by (simp add: GetTrackerStats_def GetPendingCommands_def count_commands)

definition RemoveCommand :: "u32 \<Rightarrow> CommandTracker \<Rightarrow> CommandTracker" where
  "RemoveCommand i t = t\<lparr>ct_commands := ct_commands t - {i}\<rparr>"

definition old_command :: "go_time \<Rightarrow> nat \<Rightarrow> Command \<Rightarrow> bool" where
  "old_command now maxAge c \<longleftrightarrow> IsComplete c \<and>
     int maxAge < int now - int (if co_AckedAt c \<noteq> 0 then co_AckedAt c else co_SentAt c)"

definition cleanupOldCommands :: "go_time \<Rightarrow> nat \<Rightarrow> CommandTracker \<Rightarrow> nat \<times> CommandTracker" where
  "cleanupOldCommands now maxAge t =
     (let old = {i \<in> ct_commands t. case ct_objects t i of None \<Rightarrow> False | Some c \<Rightarrow> old_command now maxAge c}
      in (card old, t\<lparr>ct_commands := ct_commands t - old\<rparr>))"

section \<open>Task progress\<close>

datatype TaskProgress =
  TaskStatusNotStarted | TaskStatusInProgress | TaskStatusCompleted | TaskStatusStalled | TaskStatusFailed

record PendingCommand =
  pd_Command :: "Command option"
  pd_TaskStatus :: TaskProgress
  pd_ExpectedTiles :: int
  pd_CompletedTiles :: int
  pd_LastProgressTime :: go_time
  pd_StartTime :: go_time
  pd_Description :: string

definition CheckProgress :: "go_time \<Rightarrow> PendingCommand option \<Rightarrow> int \<Rightarrow> TaskProgress \<times> PendingCommand option" where
  "CheckProgress now p currentCompletedTiles = (case p of
       None \<Rightarrow> (TaskStatusFailed, None)
     | Some pc \<Rightarrow>
       if pd_Command pc = None then (TaskStatusFailed, Some pc)
       else let pc = pc\<lparr>pd_CompletedTiles := currentCompletedTiles\<rparr> in
        if pd_CompletedTiles pc \<ge> pd_ExpectedTiles pc
        then (TaskStatusCompleted, Some (pc\<lparr>pd_TaskStatus := TaskStatusCompleted, pd_LastProgressTime := now\<rparr>))
        else if pd_CompletedTiles pc > 0
        then let pc = (if pd_TaskStatus pc = TaskStatusNotStarted
                 then pc\<lparr>pd_TaskStatus := TaskStatusInProgress, pd_StartTime := now\<rparr> else pc)
             in (TaskStatusInProgress, Some (pc\<lparr>pd_LastProgressTime := now\<rparr>))
        else if pd_TaskStatus pc = TaskStatusInProgress \<and> 60000000000 < int now - int (pd_LastProgressTime pc)
        then (TaskStatusStalled, Some (pc\<lparr>pd_TaskStatus := TaskStatusStalled\<rparr>))
        else (pd_TaskStatus pc, Some pc))"

text \<open>Once a tile is done, waiting alone never makes a task Stalled: the call itself refreshes the progress time.\<close>

lemma no_stall_after_first_tile:
  "0 < currentCompletedTiles \<Longrightarrow> fst (CheckProgress now p currentCompletedTiles) \<noteq> TaskStatusStalled"
  by (simp add: CheckProgress_def Let_def split: option.splits)

text \<open>The sizes are taken in \<open>int16\<close>, with the 1 added before the conversion.\<close>

definition CalculateExpectedTiles :: "Region \<Rightarrow> int" where
  "CalculateExpectedTiles r =
     sint (rg_X2 r - rg_X1 r + 1) * sint (rg_Y2 r - rg_Y1 r + 1) * sint (rg_Z2 r - rg_Z1 r + 1)"

section \<open>Sending, in steps\<close>

text \<open>Where a goroutine in \<open>SendCommand\<close> stands, and what it returned.\<close>

datatype send_phase = Registered | Written | Waiting | ReturnedError | ReturnedResult CommandResult

record SendWorld =
  sw_tracker :: CommandTracker
  sw_phase :: "u32 \<rightharpoonup> send_phase"

definition new_command :: "go_time \<Rightarrow> nat \<Rightarrow> CommandMessage \<Rightarrow> Command" where
  "new_command now timeout m = \<lparr>co_ID = cm_CommandID m, co_Type = cm_CommandType m, co_Message = m,
     co_Status = CommandStatusPending, co_Response = None, co_SentAt = now, co_AckedAt = 0,
     co_TimeoutAt = now + timeout, co_ResultChan = None\<rparr>"

definition register :: "go_time \<Rightarrow> CommandMessage \<Rightarrow> SendWorld \<Rightarrow> SendWorld" where
  "register now m w = \<lparr>sw_tracker = AddCommand (new_command now (ct_timeout (sw_tracker w)) m) (sw_tracker w),
     sw_phase = (sw_phase w)(cm_CommandID m \<mapsto> Registered)\<rparr>"

definition write_failed :: "u32 \<Rightarrow> Command \<Rightarrow> SendWorld \<Rightarrow> SendWorld" where
  "write_failed i c w =
     \<lparr>sw_tracker = RemoveCommand i (set_object (c\<lparr>co_Status := CommandStatusFailed\<rparr>) (sw_tracker w)),
      sw_phase = (sw_phase w)(i \<mapsto> ReturnedError)\<rparr>"

definition mark_sent :: "go_time \<Rightarrow> u32 \<Rightarrow> Command \<Rightarrow> SendWorld \<Rightarrow> SendWorld" where
  "mark_sent now i c w =
     \<lparr>sw_tracker = set_object (c\<lparr>co_Status := CommandStatusSent, co_SentAt := now,
        co_TimeoutAt := now + ct_timeout (sw_tracker w)\<rparr>) (sw_tracker w),
      sw_phase = (sw_phase w)(i \<mapsto> Waiting)\<rparr>"

definition take_result :: "u32 \<Rightarrow> Command \<Rightarrow> CommandResult \<Rightarrow> SendWorld \<Rightarrow> SendWorld" where
  "take_result i c r w = \<lparr>sw_tracker = set_object (c\<lparr>co_ResultChan := None\<rparr>) (sw_tracker w),
     sw_phase = (sw_phase w)(i \<mapsto> ReturnedResult r)\<rparr>"

definition give_up :: "go_time \<Rightarrow> u32 \<Rightarrow> Command \<Rightarrow> SendWorld \<Rightarrow> SendWorld" where
  "give_up now i c w = w\<lparr>sw_phase := (sw_phase w)
     (i \<mapsto> ReturnedResult (timeout_result (int now - int (co_SentAt c))))\<rparr>"

text \<open>
  The states a run can reach, with the acknowledgements received so far. A fresh id comes from
  \<open>GenerateCommandID\<close>; the peer may acknowledge any id at any time, with any status.
\<close>

inductive send_reach :: "CommandAckMessage set \<Rightarrow> SendWorld \<Rightarrow> bool" where
  start: "send_reach {} \<lparr>sw_tracker = NewCommandTracker timeout, sw_phase = Map.empty\<rparr>"
| register: "send_reach acks w \<Longrightarrow> GenerateCommandID (sw_tracker w) = (i, t) \<Longrightarrow> cm_CommandID m = i \<Longrightarrow>
    sw_phase w i = None \<Longrightarrow> send_reach acks (register now m (w\<lparr>sw_tracker := t\<rparr>))"
| write_ok: "send_reach acks w \<Longrightarrow> sw_phase w i = Some Registered \<Longrightarrow>
    send_reach acks (w\<lparr>sw_phase := (sw_phase w)(i \<mapsto> Written)\<rparr>)"
| write_failed: "send_reach acks w \<Longrightarrow> sw_phase w i = Some Registered \<Longrightarrow>
    ct_objects (sw_tracker w) i = Some c \<Longrightarrow> send_reach acks (write_failed i c w)"
| mark_sent: "send_reach acks w \<Longrightarrow> sw_phase w i = Some Written \<Longrightarrow>
    ct_objects (sw_tracker w) i = Some c \<Longrightarrow> send_reach acks (mark_sent now i c w)"
| take_result: "send_reach acks w \<Longrightarrow> sw_phase w i = Some Waiting \<Longrightarrow>
    ct_objects (sw_tracker w) i = Some c \<Longrightarrow> co_ResultChan c = Some r \<Longrightarrow> send_reach acks (take_result i c r w)"
| give_up: "send_reach acks w \<Longrightarrow> sw_phase w i = Some Waiting \<Longrightarrow>
    ct_objects (sw_tracker w) i = Some c \<Longrightarrow> send_reach acks (give_up now i c w)"
| ack: "send_reach acks w \<Longrightarrow> MarkAcked now (ca_CommandID ack) ack (sw_tracker w) = Some t \<Longrightarrow>
    send_reach (insert ack acks) (w\<lparr>sw_tracker := t\<rparr>)"
| check_timeouts: "send_reach acks w \<Longrightarrow> send_reach acks (w\<lparr>sw_tracker := snd (CheckTimeouts now (sw_tracker w))\<rparr>)"
| cleanup: "send_reach acks w \<Longrightarrow>
    send_reach acks (w\<lparr>sw_tracker := snd (cleanupOldCommands now maxAge (sw_tracker w))\<rparr>)"

section \<open>Results belong to their command\<close>

definition genuine :: "CommandAckMessage set \<Rightarrow> u32 \<Rightarrow> CommandResult \<Rightarrow> bool" where
  "genuine acks i r \<longleftrightarrow>
     (\<exists>ack\<in>acks. ca_CommandID ack = i \<and> cr_Response r = Some ack \<and> cr_Status r = ca_Status ack \<and>
        cr_ErrorMsg r = ca_ErrorMsg ack \<and> (cr_Success r \<longleftrightarrow> ca_Status ack = AckStatusSuccess)) \<or>
     (cr_Response r = None \<and> \<not> cr_Success r \<and> cr_Status r = AckStatusFailure \<and> cr_ErrorMsg r = timeout_text)"

definition send_inv :: "CommandAckMessage set \<Rightarrow> SendWorld \<Rightarrow> bool" where
  "send_inv acks w \<longleftrightarrow>
     (\<forall>i c. ct_objects (sw_tracker w) i = Some c \<longrightarrow>
        co_ID c = i \<and> (\<forall>r. co_ResultChan c = Some r \<longrightarrow> genuine acks i r)) \<and>
     (\<forall>i r. sw_phase w i = Some (ReturnedResult r) \<longrightarrow> genuine acks i r)"

lemma genuine_mono: "genuine acks i r \<Longrightarrow> genuine (insert a acks) i r"
  by (auto simp: genuine_def)

lemma genuine_timeout [simp]: "genuine acks i (timeout_result d)"
  by (simp add: genuine_def timeout_result_def)

lemma genuine_ack: "ack \<in> acks \<Longrightarrow> genuine acks (ca_CommandID ack) (ack_result ack d)"
  by (auto simp: genuine_def ack_result_def)

lemma chan_offer_simps [simp]:
  "co_ID (chan_offer r c) = co_ID c" "co_Status (chan_offer r c) = co_Status c"
  "co_ResultChan (chan_offer r c) = (case co_ResultChan c of None \<Rightarrow> Some r | Some r \<Rightarrow> Some r)"
  by (auto simp: chan_offer_def split: option.splits)

lemma expire_simps:
  "co_ID (expire now c) = co_ID c"
  "co_ResultChan (expire now c) = Some r \<Longrightarrow> co_ResultChan c = Some r \<or> (\<exists>d. r = timeout_result d)"
  by (auto simp: expire_def split: if_splits option.splits)

lemma send_reach_inv: "send_reach acks w \<Longrightarrow> send_inv acks w"
proof (induction rule: send_reach.induct)
  case (start timeout)
  then show ?case by (simp add: send_inv_def NewCommandTracker_def)
next
  case (register acks w i t m now)
  then show ?case
    by (auto simp: send_inv_def register_def AddCommand_def new_command_def GenerateCommandID_def)
next
  case (ack acks w now ack t)
  then obtain c where c: "ct_objects (sw_tracker w) (ca_CommandID ack) = Some c"
    by (auto simp: MarkAcked_def GetCommand_def split: option.splits if_splits)
  then have id: "co_ID c = ca_CommandID ack" using ack.IH by (auto simp: send_inv_def)
  have g: "genuine (insert ack acks) (ca_CommandID ack) (ack_result ack d)" for d
    by (rule genuine_ack) simp
  define c' where "c' = chan_offer (ack_result ack (int now - int (co_SentAt c)))
      (c\<lparr>co_Status := CommandStatusAcked, co_Response := Some ack, co_AckedAt := now\<rparr>)"
  have t: "ct_objects t = (ct_objects (sw_tracker w))(ca_CommandID ack \<mapsto> c')"
    using ack.hyps(2) c id
    by (auto simp: MarkAcked_def GetCommand_def set_object_def Let_def c'_def split: if_splits)
  have old: "co_ID c = i \<and> (\<forall>r. co_ResultChan c = Some r \<longrightarrow> genuine (insert ack acks) i r)"
    if "ct_objects (sw_tracker w) i = Some c" for i c
    using that ack.IH genuine_mono unfolding send_inv_def by blast
  have new: "co_ID c' = ca_CommandID ack \<and>
      (\<forall>r. co_ResultChan c' = Some r \<longrightarrow> genuine (insert ack acks) (ca_CommandID ack) r)"
    using old [OF c] g by (auto simp: c'_def split: option.splits)
  have "\<forall>i r. sw_phase w i = Some (ReturnedResult r) \<longrightarrow> genuine (insert ack acks) i r"
    using ack.IH genuine_mono unfolding send_inv_def by blast
  then show ?case using old new by (simp add: send_inv_def t)
next
  case (check_timeouts acks w now)
  show ?case
    unfolding send_inv_def
  proof (intro conjI allI impI)
    fix i c assume "ct_objects (sw_tracker (w\<lparr>sw_tracker := snd (CheckTimeouts now (sw_tracker w))\<rparr>)) i = Some c"
    then obtain c' where "ct_objects (sw_tracker w) i = Some c'" "c = c' \<or> c = expire now c'"
      by (auto simp: CheckTimeouts_def split: if_splits)
    then have "co_ID c = i \<and> (\<forall>r. co_ResultChan c = Some r \<longrightarrow> genuine acks i r)"
      using check_timeouts.IH by (auto simp: send_inv_def expire_simps(1) dest!: expire_simps(2))
    then show "co_ID c = i" "\<And>r. co_ResultChan c = Some r \<Longrightarrow> genuine acks i r" by auto
  qed (use check_timeouts.IH in \<open>simp add: send_inv_def\<close>)
qed (auto simp: send_inv_def write_failed_def mark_sent_def take_result_def give_up_def set_object_def
    RemoveCommand_def cleanupOldCommands_def Let_def split: if_splits)

text \<open>
  C19: However acknowledgements, timeouts and cleanups interleave with any number of senders, a result
  that SendCommand returns belongs to its own command: it is the content of an acknowledgement
  received for that command's id, counted a success exactly when its status is, or it is the timeout
  result. So success is never reported without the peer's success for that very command.
\<close>

theorem results_belong_to_their_command:
  assumes "send_reach acks w" and "sw_phase w i = Some (ReturnedResult r)"
  shows "(\<exists>ack\<in>acks. ca_CommandID ack = i \<and> cr_Response r = Some ack \<and> cr_Status r = ca_Status ack \<and>
      cr_ErrorMsg r = ca_ErrorMsg ack \<and> (cr_Success r \<longleftrightarrow> ca_Status ack = AckStatusSuccess)) \<or>
    (cr_Response r = None \<and> \<not> cr_Success r \<and> cr_Status r = AckStatusFailure \<and> cr_ErrorMsg r = timeout_text)"
  using send_reach_inv [OF assms(1)] assms(2) unfolding send_inv_def genuine_def by blast

text \<open>A run in which the acknowledgement overtakes the sender's own bookkeeping.\<close>

definition race_message :: CommandMessage where
  "race_message = zero_CommandMessage\<lparr>cm_CommandID := 2, cm_CommandType := CommandTypePause\<rparr>"

definition race_ack :: CommandAckMessage where
  "race_ack = \<lparr>ca_CommandID = 2, ca_Status = AckStatusSuccess, ca_ErrorMsg = []\<rparr>"

definition race_command :: "CommandStatus \<Rightarrow> go_time \<Rightarrow> go_time \<Rightarrow> CommandResult option \<Rightarrow> Command" where
  "race_command s sent timeout r = \<lparr>co_ID = 2, co_Type = CommandTypePause, co_Message = race_message,
     co_Status = s, co_Response = (if s = CommandStatusPending then None else Some race_ack), co_SentAt = sent,
     co_AckedAt = (if s = CommandStatusPending then 0 else 11), co_TimeoutAt = timeout, co_ResultChan = r\<rparr>"

definition race_world :: "Command \<Rightarrow> send_phase \<Rightarrow> SendWorld" where
  "race_world c p = \<lparr>sw_tracker = \<lparr>ct_objects = [2 \<mapsto> c], ct_commands = {2}, ct_nextID = 2, ct_timeout = 5\<rparr>,
     sw_phase = [2 \<mapsto> p]\<rparr>"

lemma race_run:
  "send_reach {} (race_world (race_command CommandStatusPending 10 15 None) Written)"
  "send_reach {race_ack} (race_world (race_command CommandStatusAcked 10 15 (Some (ack_result race_ack 1))) Written)"
  "send_reach {race_ack} (race_world (race_command CommandStatusSent 12 17 (Some (ack_result race_ack 1))) Waiting)"
  "send_reach {race_ack} (race_world (race_command CommandStatusSent 12 17 None) (ReturnedResult (ack_result race_ack 1)))"
proof -
  let ?w0 = "\<lparr>sw_tracker = NewCommandTracker 5, sw_phase = Map.empty\<rparr>"
  have "register 10 race_message (?w0\<lparr>sw_tracker := (NewCommandTracker 5)\<lparr>ct_nextID := 2\<rparr>\<rparr>) =
      race_world (race_command CommandStatusPending 10 15 None) Registered"
    by (simp add: register_def AddCommand_def new_command_def race_world_def race_command_def
        race_message_def NewCommandTracker_def)
  moreover have "send_reach {} (register 10 race_message (?w0\<lparr>sw_tracker := (NewCommandTracker 5)\<lparr>ct_nextID := 2\<rparr>\<rparr>))"
    by (rule send_reach.register [OF send_reach.start])
      (simp_all add: GenerateCommandID_def NewCommandTracker_def race_message_def)
  ultimately have r: "send_reach {} (race_world (race_command CommandStatusPending 10 15 None) Registered)"
    by simp
  from send_reach.write_ok [OF this, of 2]
  show w: "send_reach {} (race_world (race_command CommandStatusPending 10 15 None) Written)"
    by (simp add: race_world_def)
  have "MarkAcked 11 (ca_CommandID race_ack) race_ack (sw_tracker (race_world (race_command CommandStatusPending 10 15 None) Written)) =
      Some (sw_tracker (race_world (race_command CommandStatusAcked 10 15 (Some (ack_result race_ack 1))) Written))"
    by (simp add: MarkAcked_def GetCommand_def race_world_def race_command_def race_ack_def chan_offer_def
        set_object_def Let_def)
  from send_reach.ack [OF w this]
  show a: "send_reach {race_ack} (race_world (race_command CommandStatusAcked 10 15 (Some (ack_result race_ack 1))) Written)"
    by (simp add: race_world_def)
  from send_reach.mark_sent [OF a, of 2 _ 12]
  show s: "send_reach {race_ack} (race_world (race_command CommandStatusSent 12 17 (Some (ack_result race_ack 1))) Waiting)"
    by (simp add: race_world_def mark_sent_def set_object_def race_command_def)
  from send_reach.take_result [OF s, of 2 _ "ack_result race_ack 1"]
  show "send_reach {race_ack} (race_world (race_command CommandStatusSent 12 17 None) (ReturnedResult (ack_result race_ack 1)))"
    by (simp add: race_world_def take_result_def set_object_def race_command_def)
qed

lemma results_belong_to_their_command_witness:
  "\<exists>ack\<in>{race_ack}. ca_CommandID ack = 2 \<and> cr_Response (ack_result race_ack 1) = Some ack"
  using results_belong_to_their_command [OF race_run(4), of 2 "ack_result race_ack 1"]
  by (auto simp: race_world_def ack_result_def race_ack_def)

text \<open>
  The status the tracker keeps is less reliable: the acknowledgement can arrive before the sender has
  marked its command as sent, which then overwrites the acknowledged status; a command whose sender
  returned success is later expired and counted as timed out.
\<close>

theorem acked_command_can_time_out:
  "\<exists>acks w r c. send_reach acks w \<and> sw_phase w 2 = Some (ReturnedResult r) \<and> cr_Success r \<and>
     GetCommand 2 (sw_tracker w) = Some c \<and> co_Status c = CommandStatusTimeout"
proof -
  let ?w = "race_world (race_command CommandStatusSent 12 17 None) (ReturnedResult (ack_result race_ack 1))"
  have "send_reach {race_ack} (?w\<lparr>sw_tracker := snd (CheckTimeouts 20 (sw_tracker ?w))\<rparr>)"
    by (rule send_reach.check_timeouts [OF race_run(4)])
  then show ?thesis
    by (intro exI conjI, assumption)
      (auto simp: race_world_def CheckTimeouts_def GetCommand_def expire_def timed_out_def IsPending_def
        race_command_def ack_result_def race_ack_def)
qed

end
