(* ===== verification/Plan_Executor.thy ===== *)
theory Plan_Executor
  imports Plan_DAG Predicted Alerts Command_Send Command_Tracker
begin

text \<open>
  The plan executor (\<open>internal/plan/executor.go\<close>): it drains the Ready nodes of the plan, sends each
  node's command, and records the outcome. What \<open>SendCommand\<close> answers to a message (see
  \<open>Command_Tracker\<close>) is an argument: a transport error, no result, or a result. The loops over a dig's
  tiles run over \<open>int16\<close> counters, which wrap: a loop that does not end is None.
\<close>

section \<open>The executor's surroundings\<close>

type_synonym send_reply = "result_text + CommandResult option"

text \<open>One dispatch: the reply, the clock, the heartbeat, the id and the plan's iteration order.\<close>

record ExecEnv =
  ee_send :: "CommandMessage \<Rightarrow> send_reply"
  ee_now :: go_time
  ee_tick :: u64
  ee_id :: u32
  ee_ord :: "string list"

text \<open>The plan, and the two parts of the world model the executor writes; both may be absent.\<close>

record ExecState =
  ex_dag :: DAG
  ex_predicted :: "PredictedState option"
  ex_alerts :: "AlertStore option"

definition done_with :: "go_time \<Rightarrow> result_text \<Rightarrow> Node \<Rightarrow> Node" where
  "done_with now result n = (if IsTerminal n then n
     else n\<lparr>nd_Status := StatusDone, nd_DoneAt := now, nd_Result := result\<rparr>)"

definition failed_with :: "go_time \<Rightarrow> result_text \<Rightarrow> Node \<Rightarrow> Node" where
  "failed_with now reason n = (if IsTerminal n then n
     else n\<lparr>nd_Status := StatusFailed, nd_DoneAt := now, nd_Result := reason\<rparr>)"

definition markDone :: "ExecEnv \<Rightarrow> string \<Rightarrow> result_text \<Rightarrow> ExecState \<Rightarrow> ExecState" where
  "markDone e i result s = s\<lparr>ex_dag := snd (Update (ee_ord e) i (done_with (ee_now e) result) (ex_dag s))\<rparr>"

definition markFailed :: "ExecEnv \<Rightarrow> string \<Rightarrow> result_text \<Rightarrow> ExecState \<Rightarrow> ExecState" where
  "markFailed e i reason s = s\<lparr>ex_dag := snd (Update (ee_ord e) i (failed_with (ee_now e) reason) (ex_dag s))\<rparr>"

section \<open>Commands answered by one acknowledgement\<close>

text \<open>What every such dispatch does with its reply: fail with the reason, or done with a text.\<close>

definition settle :: "ExecEnv \<Rightarrow> string \<Rightarrow> string \<Rightarrow> result_text \<Rightarrow> send_reply \<Rightarrow> ExecState \<Rightarrow> ExecState" where
  "settle e i kind accepted reply s = (case reply of
       Inl err \<Rightarrow> markFailed e i err s
     | Inr None \<Rightarrow> markFailed e i (Sprintf (kind @ '': %s'') [] [Text ''rejected'']) s
     | Inr (Some res) \<Rightarrow>
         if \<not> cr_Success res
         then markFailed e i (Sprintf (kind @ '': %s'') [] [GoText (cr_ErrorMsg res)]) s
         else markDone e i accepted s)"

definition executeZone :: "ExecEnv \<Rightarrow> Node \<Rightarrow> ExecState \<Rightarrow> ExecState" where
  "executeZone e n s = (let a = nd_Action n; r = ac_Region a in
     settle e (nd_ID n) ''zone'' (Sprintf ''zone ack accepted (type 0x%02x)'' [uint (ac_ZoneType a)] [])
       (ee_send e (SendZoneCommand (ac_ZoneType a) (pr_X1 r) (pr_Y1 r) (pr_Z1 r) (pr_X2 r) (pr_Y2 r) (ee_id e))) s)"

definition executeStockpile :: "ExecEnv \<Rightarrow> Node \<Rightarrow> ExecState \<Rightarrow> ExecState" where
  "executeStockpile e n s = (let a = nd_Action n; r = ac_Region a in
     settle e (nd_ID n) ''stockpile''
       (Sprintf ''stockpile ack accepted (groups 0x%05x)'' [uint (ac_StockpileGroups a)] [])
       (ee_send e (SendStockpileCommand (pr_X1 r) (pr_Y1 r) (pr_Z1 r) (pr_X2 r) (pr_Y2 r)
         (ac_StockpileGroups a) (ee_id e))) s)"

definition executeSmooth :: "ExecEnv \<Rightarrow> Node \<Rightarrow> ExecState \<Rightarrow> ExecState" where
  "executeSmooth e n s = (let a = nd_Action n; r = ac_Region a;
       st = (if ac_SmoothType a = 0 then SmoothTypeSmooth else ac_SmoothType a) in
     settle e (nd_ID n) ''smooth'' (Sprintf ''smooth ack accepted (type 0x%02x)'' [uint st] [])
       (ee_send e (SendSmoothCommand st (pr_X1 r) (pr_Y1 r) (pr_Z1 r) (pr_X2 r) (pr_Y2 r) (ee_id e))) s)"

definition executeUnsuspend :: "ExecEnv \<Rightarrow> Node \<Rightarrow> ExecState \<Rightarrow> ExecState" where
  "executeUnsuspend e n s = (let r = ac_Region (nd_Action n) in
     settle e (nd_ID n) ''unsuspend'' (Text ''unsuspend ack accepted'')
       (ee_send e (SendUnsuspendCommand (pr_X1 r) (pr_Y1 r) (pr_Z1 r) (ee_id e))) s)"

definition executeOrder :: "ExecEnv \<Rightarrow> Node \<Rightarrow> ExecState \<Rightarrow> ExecState" where
  "executeOrder e n s = (let a = nd_Action n in
     settle e (nd_ID n) ''order''
       (Sprintf ''order ack accepted (type 0x%02x x%d)'' [uint (ac_OrderType a), uint (ac_Quantity a)] [])
       (ee_send e (SendWorkOrderCommand (ac_OrderType a) (ac_Quantity a) [] [] []
         WorkOrderFrequencyOneTime (ee_id e))) s)"

definition executeBuild :: "ExecEnv \<Rightarrow> Node \<Rightarrow> ExecState \<Rightarrow> ExecState" where
  "executeBuild e n s = (let a = nd_Action n; r = ac_Region a in
     settle e (nd_ID n) ''build'' (Sprintf ''build ack accepted (type 0x%02x)'' [uint (ac_BuildType a)] [])
       (ee_send e (SendBuildCommand (pr_X1 r) (pr_Y1 r) (pr_Z1 r) (ac_BuildType a) (ee_id e))) s)"

definition executeSimple :: "ExecEnv \<Rightarrow> Node \<Rightarrow> string \<Rightarrow> ExecState \<Rightarrow> ExecState" where
  "executeSimple e n kind s = (let r = ac_Region (nd_Action n) in
     if kind = ''chop'' then
       settle e (nd_ID n) kind (Sprintf ''%s ack accepted'' [] [Text kind])
         (ee_send e (SendChopCommand (pr_X1 r) (pr_Y1 r) (pr_Z1 r) (pr_X2 r) (pr_Y2 r) (ee_id e))) s
     else if kind = ''gather'' then
       settle e (nd_ID n) kind (Sprintf ''%s ack accepted'' [] [Text kind])
         (ee_send e (SendGatherCommand (pr_X1 r) (pr_Y1 r) (pr_Z1 r) (pr_X2 r) (pr_Y2 r) (ee_id e))) s
     else markFailed e (nd_ID n) (Sprintf ''unknown simple kind %q'' [] [Text kind]) s)"

text \<open>Dismissal does not leave the orchestrator; an inconsistent alert store would panic (None).\<close>

definition executeDismiss :: "ExecEnv \<Rightarrow> Node \<Rightarrow> ExecState \<Rightarrow> ExecState option" where
  "executeDismiss e n s = (let alert = ac_AlertID (nd_Action n) in
     case ex_alerts s of
       None \<Rightarrow> Some (markDone e (nd_ID n) (Text ''dismiss: no alert store'') s)
     | Some store \<Rightarrow>
         if alert = 0 then
           let (count, store) = DismissAll store in
           Some (markDone e (nd_ID n) (Sprintf ''dismissed %d alerts'' [count] []) (s\<lparr>ex_alerts := Some store\<rparr>))
         else (case Dismiss alert store of
             None \<Rightarrow> None
           | Some (True, store) \<Rightarrow> Some (markDone e (nd_ID n) (Sprintf ''dismissed alert %d'' [uint alert] [])
               (s\<lparr>ex_alerts := Some store\<rparr>))
           | Some (False, store) \<Rightarrow> Some (markFailed e (nd_ID n)
               (Sprintf ''alert %d not found or already dismissed'' [uint alert] []) (s\<lparr>ex_alerts := Some store\<rparr>))))"

section \<open>Digging\<close>

definition mapDigType :: "string \<Rightarrow> u8" where
  "mapDigType digType =
     (if digType = ''stairs'' \<or> digType = ''updownstairs'' then DigTypeUpDownStair
      else if digType = ''channel'' then DigTypeChannel
      else if digType = ''ramp'' then DigTypeRamp
      else if digType = ''downstair'' then DigTypeDownStair
      else if digType = ''upstair'' then DigTypeUpStair
      else DigTypeDefault)"

definition digActionLabel :: "string \<Rightarrow> string" where
  "digActionLabel digType = (if digType = [] then ''dig'' else ''dig:'' @ digType)"

definition stairActionLabel :: "string \<Rightarrow> string" where
  "stairActionLabel digType = (if digType = [] then ''stair'' else ''stair:'' @ digType)"

definition isStair :: "string \<Rightarrow> bool" where
  "isStair digType \<longleftrightarrow> digType = ''stairs'' \<or> digType = ''updownstairs'' \<or> digType = ''upstair'' \<or>
     digType = ''downstair''"

definition dig_prediction :: "ExecEnv \<Rightarrow> Node \<Rightarrow> i16 \<Rightarrow> i16 \<Rightarrow> i16 \<Rightarrow> TilePrediction" where
  "dig_prediction e n x y z = (let digType = ac_DigType (nd_Action n) in
     \<lparr>tp_Coord = \<lparr>wc_X = x, wc_Y = y, wc_Z = z\<rparr>,
      tp_Action = (if isStair digType then stairActionLabel digType else digActionLabel digType),
      tp_PredictedFlags = FlagFloor, tp_PredictedTile = 0, tp_PlanNodeID = nd_ID n,
      tp_PredictedAtTick = ee_tick e, tp_PredictedAt = 0,
      tp_Estimate = \<lparr>we_TileCount = TileCount (ac_Region (nd_Action n)), we_Material = MaterialStone,
        we_Parallelism = 2\<rparr>,
      tp_Status = PredictionOutstanding, tp_UpdatedAt = 0, tp_DivergedReason = []\<rparr>)"

text \<open>\<open>for i := lo; i <= hi; i++\<close> over \<open>int16\<close>; the counter wraps from 32767 to -32768.\<close>

partial_function (option) for_i16 :: "i16 \<Rightarrow> i16 \<Rightarrow> (i16 \<Rightarrow> 's \<Rightarrow> 's option) \<Rightarrow> 's \<Rightarrow> 's option" where
  "for_i16 i hi body s =
     (if slt hi i then Some s
      else Option.bind (body i s) (\<lambda>s. for_i16 (i + 1) hi body s))"

definition writeDigPredictionsForRegion :: "ExecEnv \<Rightarrow> Node \<Rightarrow> ExecState \<Rightarrow> (int \<times> ExecState) option" where
  "writeDigPredictionsForRegion e n s = (case ex_predicted s of
       None \<Rightarrow> Some (0, s)
     | Some p \<Rightarrow> (let r = ac_Region (nd_Action n) in
         map_option (\<lambda>(count, p). (count, s\<lparr>ex_predicted := Some p\<rparr>))
         (for_i16 (pr_Z1 r) (pr_Z2 r) (\<lambda>z.
          for_i16 (pr_X1 r) (pr_X2 r) (\<lambda>x.
          for_i16 (pr_Y1 r) (pr_Y2 r) (\<lambda>y (count, p).
            Some (count + 1, Predict (ee_now e) (dig_prediction e n x y z) p)))) (0, p))))"

definition dig_accepted :: "int \<Rightarrow> result_text \<Rightarrow> Node \<Rightarrow> Node" where
  "dig_accepted predictions result n = n\<lparr>nd_PredictionCount := predictions, nd_Result := result\<rparr>"

definition executeDig :: "ExecEnv \<Rightarrow> Node \<Rightarrow> ExecState \<Rightarrow> ExecState option" where
  "executeDig e n s = (let r = ac_Region (nd_Action n); digType = mapDigType (ac_DigType (nd_Action n)) in
     case ee_send e (SendDigRegion digType (pr_X1 r) (pr_Y1 r) (pr_Z1 r) (pr_X2 r) (pr_Y2 r) (pr_Z2 r) (ee_id e)) of
       Inl err \<Rightarrow> Some (markFailed e (nd_ID n) err s)
     | Inr None \<Rightarrow> Some (markFailed e (nd_ID n) (Text ''ack rejected'') s)
     | Inr (Some res) \<Rightarrow>
         if \<not> cr_Success res \<and> cr_Status res \<noteq> AckStatusPartial
         then Some (markFailed e (nd_ID n)
           (if cr_ErrorMsg res \<noteq> [] then GoText (cr_ErrorMsg res) else Text ''ack rejected'') s)
         else map_option (\<lambda>(predictions, s).
           let result = (if \<not> cr_Success res
             then Sprintf ''ack accepted WITH A CAVEAT, %d predictions - %s'' [predictions] [GoText (cr_ErrorMsg res)]
             else Sprintf ''ack accepted, %d predictions'' [predictions] [])
           in s\<lparr>ex_dag := snd (Update (ee_ord e) (nd_ID n) (dig_accepted predictions result) (ex_dag s))\<rparr>)
           (writeDigPredictionsForRegion e n s))"

section \<open>Dispatch\<close>

definition dispatch_action :: "ExecEnv \<Rightarrow> Node \<Rightarrow> ExecState \<Rightarrow> ExecState option" where
  "dispatch_action e n s = (let kind = ac_Type (nd_Action n) in
     if kind = ''dig'' then executeDig e n s
     else if kind = ''build'' then Some (executeBuild e n s)
     else if kind = ''zone'' then Some (executeZone e n s)
     else if kind = ''stockpile'' then Some (executeStockpile e n s)
     else if kind = ''smooth'' then Some (executeSmooth e n s)
     else if kind = ''unsuspend'' then Some (executeUnsuspend e n s)
     else if kind = ''order'' then Some (executeOrder e n s)
     else if kind = ''chop'' then Some (executeSimple e n ''chop'' s)
     else if kind = ''gather'' then Some (executeSimple e n ''gather'' s)
     else if kind = ''dismiss'' then executeDismiss e n s
     else if kind = ''wait'' then Some (markDone e (nd_ID n) (Text ''wait completed (no-op)'') s)
     else Some (markFailed e (nd_ID n) (Sprintf ''unknown action type %q'' [] [Text kind]) s))"

definition executeNode :: "ExecEnv \<Rightarrow> Node \<Rightarrow> ExecState \<Rightarrow> ExecState option" where
  "executeNode e n s =
     (let (ok, d) = MarkActive (ee_ord e) (ee_now e) (nd_ID n) (ex_dag s); s = s\<lparr>ex_dag := d\<rparr> in
      if \<not> ok then Some s else dispatch_action e n s)"

text \<open>\<open>drain\<close> works on the copies \<open>Ready\<close> returned; each dispatch has its own surroundings.\<close>

fun drain_nodes :: "(string \<Rightarrow> ExecEnv) \<Rightarrow> Node list \<Rightarrow> ExecState \<Rightarrow> ExecState option" where
  "drain_nodes env [] s = Some s"
| "drain_nodes env (n # ns) s = Option.bind (executeNode (env (nd_ID n)) n s) (drain_nodes env ns)"

definition drain :: "(string \<Rightarrow> ExecEnv) \<Rightarrow> ExecState \<Rightarrow> ExecState option" where
  "drain env s = drain_nodes env (ReadyNodes (ex_dag s)) s"

section \<open>The loops\<close>

lemma for_i16_never: "for_i16 lo 0x7FFF body s = None"
proof (rule ccontr)
  assume "for_i16 lo 0x7FFF body s \<noteq> None"
  then obtain r where "for_i16 lo 0x7FFF body s = Some r" by auto
  moreover have "hi \<noteq> 0x7FFF" if "for_i16 lo hi body s = Some r" for hi
    using that
  proof (rule for_i16.raw_induct [where P = "\<lambda>i hi body s r. hi \<noteq> 0x7FFF", rotated])
    fix rec :: "i16 \<Rightarrow> i16 \<Rightarrow> (i16 \<Rightarrow> 'a \<Rightarrow> 'a option) \<Rightarrow> 'a \<Rightarrow> 'a option"
    fix i hi :: i16 and body :: "i16 \<Rightarrow> 'a \<Rightarrow> 'a option" and s r :: 'a
    assume IH: "\<And>i hi body s r. rec i hi body s = Some r \<Longrightarrow> hi \<noteq> 0x7FFF"
      and step: "(if slt hi i then Some s else Option.bind (body i s) (\<lambda>s. rec (i + 1) hi body s)) = Some r"
    have "\<not> slt (0x7FFF :: i16) i" using sint_lt [of i] by (simp add: slt_def)
    then show "hi \<noteq> 0x7FFF"
    proof (cases "slt hi i")
      case False
      then obtain y where "rec (i + 1) hi body y = Some r" using step by (auto simp: bind_eq_Some_conv)
      then show ?thesis by (rule IH)
    qed auto
  qed
  ultimately show False by blast
qed

lemma sint_of: "- 32768 \<le> k \<Longrightarrow> k < 32768 \<Longrightarrow> sint (word_of_int k :: i16) = k"
  by (simp add: signed_of_int signed_take_bit_int_eq_self)

lemma sint_Suc: "sint (i :: i16) < 32767 \<Longrightarrow> sint (i + 1) = sint i + 1"
  using sint_of [of "sint i + 1"] sint_ge [of i] by simp

lemma i16_le_max: "sint (i :: i16) \<le> 32767"
  using sint_lt [of i] by simp

lemma i16_max: "sint (i :: i16) = 32767 \<longleftrightarrow> i = 0x7FFF"
proof
  assume "sint i = 32767"
  then have "sint i = sint (0x7FFF :: i16)" by simp
  then show "i = 0x7FFF" by (rule signed_word_eqI)
qed simp

text \<open>The values a loop that ends goes through.\<close>

definition i16_range :: "i16 \<Rightarrow> i16 \<Rightarrow> i16 list" where
  "i16_range lo hi = map word_of_int [sint lo..sint hi]"

lemma i16_range_rec: "\<not> slt hi lo \<Longrightarrow> hi \<noteq> 0x7FFF \<Longrightarrow> i16_range lo hi = lo # i16_range (lo + 1) hi"
proof -
  assume le: "\<not> slt hi lo" and hi: "hi \<noteq> 0x7FFF"
  have "sint hi \<noteq> 32767" using hi i16_max by blast
  then have "sint lo < 32767" using le i16_le_max [of hi] by (simp add: slt_def)
  then show ?thesis using le sint_Suc [of lo] by (simp add: i16_range_def slt_def upto_rec1)
qed

lemma i16_range_empty: "slt hi lo \<Longrightarrow> i16_range lo hi = []"
  by (simp add: i16_range_def slt_def)

lemma set_i16_range: "set (i16_range lo hi) = {i. sint lo \<le> sint i \<and> sint i \<le> sint hi}"
proof (intro set_eqI iffI)
  fix i :: i16 assume "i \<in> set (i16_range lo hi)"
  then obtain k where k: "i = word_of_int k" "sint lo \<le> k" "k \<le> sint hi" by (auto simp: i16_range_def)
  have "sint i = k"
    unfolding k(1) using k(2,3) sint_ge [of lo] sint_lt [of hi] by (intro sint_of) simp_all
  with k show "i \<in> {i. sint lo \<le> sint i \<and> sint i \<le> sint hi}" by simp
next
  fix i :: i16 assume "i \<in> {i. sint lo \<le> sint i \<and> sint i \<le> sint hi}"
  then show "i \<in> set (i16_range lo hi)"
    unfolding i16_range_def by (auto intro!: image_eqI [of _ _ "sint i"])
qed

lemma length_i16_range: "length (i16_range lo hi) = nat (sint hi - sint lo + 1)"
  by (simp add: i16_range_def)

lemma for_i16_ends:
  assumes "hi \<noteq> 0x7FFF" and "\<And>i s. i \<in> set (i16_range lo hi) \<Longrightarrow> body i s = Some (f i s)"
  shows "for_i16 lo hi body s = Some (fold f (i16_range lo hi) s)"
  using assms
proof (induction "nat (sint hi - sint lo + 1)" arbitrary: lo s rule: less_induct)
  case less
  show ?case
  proof (cases "slt hi lo")
    case True
    then show ?thesis by (simp add: for_i16.simps i16_range_empty)
  next
    case False
    note range = i16_range_rec [OF False less.prems(1)]
    have "sint hi \<noteq> 32767" using less.prems(1) i16_max by blast
    then have "sint lo < 32767" using False i16_le_max [of hi] by (simp add: slt_def)
    note suc = sint_Suc [OF this]
    have "for_i16 lo hi body s = for_i16 (lo + 1) hi body (f lo s)"
      using False less.prems(2) [of lo] range by (simp add: for_i16.simps [of lo])
    also have "\<dots> = Some (fold f (i16_range (lo + 1) hi) (f lo s))"
      using False suc range less.prems by (intro less.hyps) (auto simp: slt_def)
    finally show ?thesis by (simp add: range)
  qed
qed

lemma for_i16_stuck:
  assumes "\<not> slt hi lo" and "\<And>s. body lo s = None"
  shows "for_i16 lo hi body s = None"
  using assms by (simp add: for_i16.simps [of lo])

section \<open>The predictions of a dig\<close>

definition region_tiles :: "PlanRegion \<Rightarrow> WCoord set" where
  "region_tiles r = {c. sint (pr_X1 r) \<le> sint (wc_X c) \<and> sint (wc_X c) \<le> sint (pr_X2 r) \<and>
     sint (pr_Y1 r) \<le> sint (wc_Y c) \<and> sint (wc_Y c) \<le> sint (pr_Y2 r) \<and>
     sint (pr_Z1 r) \<le> sint (wc_Z c) \<and> sint (wc_Z c) \<le> sint (pr_Z2 r)}"

text \<open>The loops over a region end: no loop that is entered has the greatest bound.\<close>

definition region_ends :: "PlanRegion \<Rightarrow> bool" where
  "region_ends r \<longleftrightarrow> pr_Z2 r \<noteq> 0x7FFF \<and> (sint (pr_Z1 r) \<le> sint (pr_Z2 r) \<longrightarrow> pr_X2 r \<noteq> 0x7FFF \<and>
     (sint (pr_X1 r) \<le> sint (pr_X2 r) \<longrightarrow> pr_Y2 r \<noteq> 0x7FFF))"

definition region_list :: "PlanRegion \<Rightarrow> (i16 \<times> i16 \<times> i16) list" where
  "region_list r = concat (map (\<lambda>z. concat (map (\<lambda>x. map (\<lambda>y. (x, y, z)) (i16_range (pr_Y1 r) (pr_Y2 r)))
     (i16_range (pr_X1 r) (pr_X2 r)))) (i16_range (pr_Z1 r) (pr_Z2 r)))"

definition predict_at :: "ExecEnv \<Rightarrow> Node \<Rightarrow> i16 \<times> i16 \<times> i16 \<Rightarrow> int \<times> PredictedState \<Rightarrow> int \<times> PredictedState" where
  "predict_at e n t acc = (case t of (x, y, z) \<Rightarrow> case acc of (count, p) \<Rightarrow>
     (count + 1, Predict (ee_now e) (dig_prediction e n x y z) p))"

lemma fold_concat_map: "fold f (concat (map g xs)) = fold (\<lambda>x. fold f (g x)) xs"
  by (induction xs) simp_all

lemma region_loops:
  assumes "region_ends r"
  shows "for_i16 (pr_Z1 r) (pr_Z2 r) (\<lambda>z. for_i16 (pr_X1 r) (pr_X2 r) (\<lambda>x. for_i16 (pr_Y1 r) (pr_Y2 r)
      (\<lambda>y (count, p). Some (count + 1, Predict (ee_now e) (dig_prediction e n x y z) p)))) acc =
    Some (fold (predict_at e n) (region_list r) acc)"
proof -
  let ?Y = "i16_range (pr_Y1 r) (pr_Y2 r)" and ?X = "i16_range (pr_X1 r) (pr_X2 r)"
  let ?by = "\<lambda>x z y (count, p). Some (count + 1, Predict (ee_now e) (dig_prediction e n x y z) p)"
  have y: "for_i16 (pr_Y1 r) (pr_Y2 r) (?by x z) acc = Some (fold (\<lambda>y. predict_at e n (x, y, z)) ?Y acc)"
    if "pr_Y2 r \<noteq> 0x7FFF" for x z acc
    by (rule for_i16_ends [OF that]) (simp add: predict_at_def split: prod.splits)
  have x: "for_i16 (pr_X1 r) (pr_X2 r) (\<lambda>x. for_i16 (pr_Y1 r) (pr_Y2 r) (?by x z)) acc =
      Some (fold (\<lambda>x. fold (\<lambda>y. predict_at e n (x, y, z)) ?Y) ?X acc)"
    if "pr_X2 r \<noteq> 0x7FFF" "sint (pr_X1 r) \<le> sint (pr_X2 r) \<longrightarrow> pr_Y2 r \<noteq> 0x7FFF" for z acc
    by (rule for_i16_ends [OF that(1)], rule y) (use that(2) in \<open>auto simp: set_i16_range\<close>)
  have "for_i16 (pr_Z1 r) (pr_Z2 r) (\<lambda>z. for_i16 (pr_X1 r) (pr_X2 r) (\<lambda>x. for_i16 (pr_Y1 r) (pr_Y2 r) (?by x z))) acc =
      Some (fold (\<lambda>z. fold (\<lambda>x. fold (\<lambda>y. predict_at e n (x, y, z)) ?Y) ?X)
        (i16_range (pr_Z1 r) (pr_Z2 r)) acc)"
    using assms by (intro for_i16_ends x) (auto simp: region_ends_def set_i16_range)
  then show ?thesis by (simp add: region_list_def fold_concat_map fold_map comp_def)
qed

lemma region_loops_stuck:
  assumes "\<not> region_ends r"
  shows "for_i16 (pr_Z1 r) (pr_Z2 r) (\<lambda>z. for_i16 (pr_X1 r) (pr_X2 r) (\<lambda>x. for_i16 (pr_Y1 r) (pr_Y2 r)
      (body x z))) acc = None"
proof (cases "pr_Z2 r = 0x7FFF")
  case True
  then show ?thesis by (simp only: for_i16_never)
next
  case False
  then have z: "\<not> slt (pr_Z2 r) (pr_Z1 r)" using assms by (auto simp: region_ends_def slt_def)
  have "for_i16 (pr_X1 r) (pr_X2 r) (\<lambda>x. for_i16 (pr_Y1 r) (pr_Y2 r) (body x (pr_Z1 r))) s = None" for s
  proof (cases "pr_X2 r = 0x7FFF")
    case True
    then show ?thesis by (simp only: for_i16_never)
  next
    case X: False
    then have "pr_Y2 r = 0x7FFF" "\<not> slt (pr_X2 r) (pr_X1 r)"
      using assms False by (auto simp: region_ends_def slt_def)
    then show ?thesis by (intro for_i16_stuck [of "pr_X2 r"]) (simp_all only: for_i16_never simp_thms)
  qed
  then show ?thesis by (rule for_i16_stuck [OF z])
qed

lemma set_region_list: "(x, y, z) \<in> set (region_list r) \<longleftrightarrow> \<lparr>wc_X = x, wc_Y = y, wc_Z = z\<rparr> \<in> region_tiles r"
  by (auto simp: region_list_def region_tiles_def set_i16_range)

lemma length_region_list: "length (region_list r) =
    nat (sint (pr_Z2 r) - sint (pr_Z1 r) + 1) * (nat (sint (pr_X2 r) - sint (pr_X1 r) + 1) *
      nat (sint (pr_Y2 r) - sint (pr_Y1 r) + 1))"
  by (simp add: region_list_def length_concat comp_def sum_list_triv length_i16_range)

definition coord :: "i16 \<times> i16 \<times> i16 \<Rightarrow> WCoord" where
  "coord t = (case t of (x, y, z) \<Rightarrow> \<lparr>wc_X = x, wc_Y = y, wc_Z = z\<rparr>)"

text \<open>What stands at a tile after the dig predicted it.\<close>

definition written :: "ExecEnv \<Rightarrow> Node \<Rightarrow> WCoord \<Rightarrow> TilePrediction" where
  "written e n c = (dig_prediction e n (wc_X c) (wc_Y c) (wc_Z c))
     \<lparr>tp_PredictedAt := ee_now e, tp_Status := PredictionOutstanding, tp_UpdatedAt := ee_now e,
      tp_DivergedReason := []\<rparr>"

lemma predict_at_tiles: "ps_tiles (snd (predict_at e n t (k, p))) = (ps_tiles p)(coord t \<mapsto> written e n (coord t))"
  by (simp add: predict_at_def Predict_tiles dig_prediction_def written_def coord_def Let_def split: prod.splits)

lemma predict_fold:
  "fold (predict_at e n) ts (k, p) = (k', p') \<Longrightarrow> k' = k + int (length ts) \<and> (pred_inv p \<longrightarrow> pred_inv p') \<and>
     ps_tiles p' = (\<lambda>c. if c \<in> coord ` set ts then Some (written e n c) else ps_tiles p c)"
proof (induction ts arbitrary: k p)
  case (Cons t ts)
  obtain q where q: "predict_at e n t (k, p) = (k + 1, q)" and inv: "pred_inv p \<longrightarrow> pred_inv q"
    by (cases t) (simp add: predict_at_def Predict_inv)
  have "ps_tiles q = (ps_tiles p)(coord t \<mapsto> written e n (coord t))"
    using predict_at_tiles [of e n t k p] by (simp add: q)
  moreover have "k' = (k + 1) + int (length ts) \<and> (pred_inv q \<longrightarrow> pred_inv p') \<and>
      ps_tiles p' = (\<lambda>c. if c \<in> coord ` set ts then Some (written e n c) else ps_tiles q c)"
    using Cons.prems by (intro Cons.IH) (simp add: q)
  ultimately show ?case using inv by (auto simp: fun_eq_iff)
qed simp

lemma coord_region_list: "coord ` set (region_list r) = region_tiles r"
proof (intro set_eqI iffI)
  fix c assume "c \<in> coord ` set (region_list r)"
  then show "c \<in> region_tiles r" by (auto simp: coord_def set_region_list)
next
  fix c assume "c \<in> region_tiles r"
  then have "(wc_X c, wc_Y c, wc_Z c) \<in> set (region_list r)" by (cases c) (simp add: set_region_list)
  then show "c \<in> coord ` set (region_list r)" by (rule rev_image_eqI) (simp add: coord_def)
qed

definition span :: "i16 \<Rightarrow> i16 \<Rightarrow> int" where
  "span lo hi = max 0 (sint hi - sint lo + 1)"

definition region_size :: "PlanRegion \<Rightarrow> int" where
  "region_size r = span (pr_X1 r) (pr_X2 r) * span (pr_Y1 r) (pr_Y2 r) * span (pr_Z1 r) (pr_Z2 r)"

lemma length_region: "int (length (region_list r)) = region_size r"
  by (simp add: length_region_list region_size_def span_def max_def ac_simps)

lemma writeDigPredictions_eq:
  "writeDigPredictionsForRegion e n s = (case ex_predicted s of
       None \<Rightarrow> Some (0, s)
     | Some p \<Rightarrow> if \<not> region_ends (ac_Region (nd_Action n)) then None
         else Some (case fold (predict_at e n) (region_list (ac_Region (nd_Action n))) (0, p) of
             (count, p) \<Rightarrow> (count, s\<lparr>ex_predicted := Some p\<rparr>)))"
  using region_loops [of "ac_Region (nd_Action n)" e n]
    region_loops_stuck [of "ac_Region (nd_Action n)" "\<lambda>x z y (count, p). Some (count + 1, Predict (ee_now e) (dig_prediction e n x y z) p)"]
  by (auto simp: writeDigPredictionsForRegion_def Let_def split: option.splits)

text \<open>The predictions of a region, when the loops end.\<close>

lemma writeDigPredictions_correct:
  assumes "writeDigPredictionsForRegion e n s = Some (count, s')" and "ex_predicted s = Some p"
  obtains p' where "s' = s\<lparr>ex_predicted := Some p'\<rparr>" and "count = region_size (ac_Region (nd_Action n))"
    and "pred_inv p \<longrightarrow> pred_inv p'"
    and "ps_tiles p' = (\<lambda>c. if c \<in> region_tiles (ac_Region (nd_Action n)) then Some (written e n c) else ps_tiles p c)"
proof -
  obtain p' where p': "fold (predict_at e n) (region_list (ac_Region (nd_Action n))) (0, p) = (count, p')"
    "s' = s\<lparr>ex_predicted := Some p'\<rparr>"
    using assms by (auto simp: writeDigPredictions_eq split: if_splits prod.splits)
  show ?thesis
    using predict_fold [OF p'(1)] by (intro that [OF p'(2)]) (simp_all add: length_region coord_region_list)
qed

section \<open>The executor and the plan\<close>

interpretation done_with_mutator: node_mutator "done_with now result" for now result
  by unfold_locales (use terminal_rank in \<open>auto simp: done_with_def advances_def rank_def split: if_splits\<close>)

interpretation failed_with_mutator: node_mutator "failed_with now reason" for now reason
  by unfold_locales (use terminal_rank in \<open>auto simp: failed_with_def advances_def rank_def split: if_splits\<close>)

interpretation accepted_mutator: node_mutator "dig_accepted predictions result" for predictions result
  by unfold_locales (auto simp: dig_accepted_def advances_def)

lemma Update_dom:
  assumes "set ord = dom (dg_nodes d)"
  shows "dom (dg_nodes (snd (Update ord i f d))) = dom (dg_nodes d)"
proof (cases "dg_nodes d i")
  case (Some n)
  then have "set ord = dom (dg_nodes (d\<lparr>dg_nodes := (dg_nodes d)(i \<mapsto> f n)\<rparr>))" using assms by auto
  with Some show ?thesis by (auto simp: Update_def promote_eq promote_all_def)
qed (simp add: Update_def)

lemma Update_get:
  assumes "set ord = dom (dg_nodes d)" and "dg_nodes d i = Some n" and "nd_Status (f n) \<noteq> StatusPending"
  shows "dg_nodes (snd (Update ord i f d)) i = Some (f n)"
proof -
  have "set ord = dom (dg_nodes (d\<lparr>dg_nodes := (dg_nodes d)(i \<mapsto> f n)\<rparr>))" using assms by auto
  then show ?thesis using assms by (simp add: Update_def promote_eq promote_all_def)
qed

text \<open>The plan stays well formed, keeps its nodes, and each only moves forward.\<close>

definition keeps_plan :: "DAG \<Rightarrow> DAG \<Rightarrow> bool" where
  "keeps_plan d d' \<longleftrightarrow> dom (dg_nodes d') = dom (dg_nodes d) \<and> progress d d' \<and> (dag_inv d \<longrightarrow> dag_inv d')"

lemma keeps_plan_refl: "keeps_plan d d"
  by (simp add: keeps_plan_def progress_refl)

lemma keeps_plan_trans: "keeps_plan a b \<Longrightarrow> keeps_plan b c \<Longrightarrow> keeps_plan a c"
  by (auto simp: keeps_plan_def intro: progress_trans)

lemma updates_keep_plan:
  assumes "set ord = dom (dg_nodes d)"
  shows "keeps_plan d (snd (MarkActive ord now i d))"
    and "keeps_plan d (snd (Update ord i (done_with now result) d))"
    and "keeps_plan d (snd (Update ord i (failed_with now result) d))"
    and "keeps_plan d (snd (Update ord i (dig_accepted k result) d))"
  using assms
  by (simp_all add: keeps_plan_def MarkActive_def Update_dom active_mutator.Update_inv active_mutator.Update_progress
      done_with_mutator.Update_inv done_with_mutator.Update_progress failed_with_mutator.Update_inv
      failed_with_mutator.Update_progress accepted_mutator.Update_inv accepted_mutator.Update_progress)

text \<open>A dispatch that ends its node: Done or Failed, and the predictions as they were.\<close>

definition ended :: "string \<Rightarrow> ExecState \<Rightarrow> ExecState \<Rightarrow> bool" where
  "ended i s s' \<longleftrightarrow> keeps_plan (ex_dag s) (ex_dag s') \<and> ex_predicted s' = ex_predicted s \<and>
     (\<forall>n. dg_nodes (ex_dag s) i = Some n \<longrightarrow> (\<exists>m. dg_nodes (ex_dag s') i = Some m \<and> IsTerminal m))"

lemma mark_ended:
  assumes "set (ee_ord e) = dom (dg_nodes (ex_dag s))"
  shows "ended i s (markDone e i result (s\<lparr>ex_alerts := a\<rparr>))" and "ended i s (markFailed e i result (s\<lparr>ex_alerts := a\<rparr>))"
proof -
  have *: "IsTerminal (done_with now result n)" "IsTerminal (failed_with now result n)" for now n
    by (simp_all add: done_with_def failed_with_def IsTerminal_def)
  have **: "nd_Status m \<noteq> StatusPending" if "IsTerminal m" for m using that by (auto simp: IsTerminal_def)
  show "ended i s (markDone e i result (s\<lparr>ex_alerts := a\<rparr>))" and "ended i s (markFailed e i result (s\<lparr>ex_alerts := a\<rparr>))"
    using assms * ** by (auto simp: ended_def markDone_def markFailed_def updates_keep_plan Update_get)
qed

lemma markDone_ended: "set (ee_ord e) = dom (dg_nodes (ex_dag s)) \<Longrightarrow> ended i s (markDone e i result s)"
  using mark_ended(1) [of e s i result "ex_alerts s"] by simp

lemma markFailed_ended: "set (ee_ord e) = dom (dg_nodes (ex_dag s)) \<Longrightarrow> ended i s (markFailed e i result s)"
  using mark_ended(2) [of e s i result "ex_alerts s"] by simp

lemma settle_ended:
  "set (ee_ord e) = dom (dg_nodes (ex_dag s)) \<Longrightarrow> ended i s (settle e i kind accepted reply s)"
  by (simp add: settle_def markDone_ended markFailed_ended split: sum.splits option.splits)

lemma executeDismiss_ended:
  "set (ee_ord e) = dom (dg_nodes (ex_dag s)) \<Longrightarrow> executeDismiss e n s = Some s' \<Longrightarrow> ended (nd_ID n) s s'"
  by (auto simp: executeDismiss_def Let_def markDone_ended mark_ended
      split: option.splits if_splits prod.splits bool.splits)

text \<open>When the plugin took a dig: wholly, or partly with a caveat.\<close>

definition dig_taken :: "send_reply \<Rightarrow> bool" where
  "dig_taken reply = (case reply of Inr (Some res) \<Rightarrow> cr_Success res \<or> cr_Status res = AckStatusPartial | _ \<Rightarrow> False)"

definition dig_reply :: "ExecEnv \<Rightarrow> Node \<Rightarrow> send_reply" where
  "dig_reply e n = (let r = ac_Region (nd_Action n) in
     ee_send e (SendDigRegion (mapDigType (ac_DigType (nd_Action n)))
       (pr_X1 r) (pr_Y1 r) (pr_Z1 r) (pr_X2 r) (pr_Y2 r) (pr_Z2 r) (ee_id e)))"

lemma executeDig_refused:
  assumes "\<not> dig_taken (dig_reply e n)"
  obtains reason where "executeDig e n s = Some (markFailed e (nd_ID n) reason s)"
proof -
  consider err where "dig_reply e n = Inl err" | "dig_reply e n = Inr None"
    | res where "dig_reply e n = Inr (Some res)" "\<not> cr_Success res" "cr_Status res \<noteq> AckStatusPartial"
    using assms by (auto simp: dig_taken_def split: sum.splits option.splits)
  then show ?thesis by cases (use that in \<open>simp_all add: executeDig_def dig_reply_def Let_def\<close>)
qed

lemma executeDig_taken:
  assumes "dig_taken (dig_reply e n)"
  obtains result where "executeDig e n s = map_option (\<lambda>(k, s'). s'\<lparr>ex_dag :=
      snd (Update (ee_ord e) (nd_ID n) (dig_accepted k (result k)) (ex_dag s'))\<rparr>) (writeDigPredictionsForRegion e n s)"
proof -
  obtain res where res: "dig_reply e n = Inr (Some res)" "cr_Success res \<or> cr_Status res = AckStatusPartial"
    using assms by (auto simp: dig_taken_def split: sum.splits option.splits)
  show ?thesis
    by (rule that [of "\<lambda>k. if \<not> cr_Success res
        then Sprintf ''ack accepted WITH A CAVEAT, %d predictions - %s'' [k] [GoText (cr_ErrorMsg res)]
        else Sprintf ''ack accepted, %d predictions'' [k] []"])
      (use res in \<open>auto simp: executeDig_def dig_reply_def Let_def split: if_splits\<close>)
qed

text \<open>A dig that was taken: the node keeps its status, and its region is predicted.\<close>

lemma executeDig_taken_state:
  assumes ord: "set (ee_ord e) = dom (dg_nodes (ex_dag s))" and taken: "dig_taken (dig_reply e n)"
    and run: "executeDig e n s = Some s'" and node: "dg_nodes (ex_dag s) (nd_ID n) = Some m"
    and "nd_Status m \<noteq> StatusPending"
  obtains k result where "dg_nodes (ex_dag s') (nd_ID n) = Some (dig_accepted k result m)"
    and "keeps_plan (ex_dag s) (ex_dag s')" and "writeDigPredictionsForRegion e n s = Some (k, s'\<lparr>ex_dag := ex_dag s\<rparr>)"
proof -
  obtain result where ex: "executeDig e n s = map_option (\<lambda>(k, s'). s'\<lparr>ex_dag :=
      snd (Update (ee_ord e) (nd_ID n) (dig_accepted k (result k)) (ex_dag s'))\<rparr>) (writeDigPredictionsForRegion e n s)"
    using executeDig_taken [OF taken] .
  obtain k q where q: "writeDigPredictionsForRegion e n s = Some (k, q)"
    "s' = q\<lparr>ex_dag := snd (Update (ee_ord e) (nd_ID n) (dig_accepted k (result k)) (ex_dag q))\<rparr>"
    using run unfolding ex by (auto simp: map_option_case split: option.splits)
  have dag: "ex_dag q = ex_dag s"
    using q(1) by (auto simp: writeDigPredictions_eq split: option.splits if_splits prod.splits)
  show ?thesis
  proof (rule that)
    show "dg_nodes (ex_dag s') (nd_ID n) = Some (dig_accepted k (result k) m)"
      unfolding q(2) dag
      by (simp add: Update_get [OF ord node] dig_accepted_def assms(5))
    show "keeps_plan (ex_dag s) (ex_dag s')" using ord by (simp add: q(2) dag updates_keep_plan)
    show "writeDigPredictionsForRegion e n s = Some (k, s'\<lparr>ex_dag := ex_dag s\<rparr>)"
      by (simp add: q dag [symmetric])
  qed
qed

section \<open>Dispatch\<close>

lemma dispatch_cases:
  assumes "set (ee_ord e) = dom (dg_nodes (ex_dag s))" and "dispatch_action e n s = Some s'"
  shows "(ac_Type (nd_Action n) = ''dig'' \<and> dig_taken (dig_reply e n) \<and> executeDig e n s = Some s') \<or>
    (\<not> (ac_Type (nd_Action n) = ''dig'' \<and> dig_taken (dig_reply e n)) \<and> ended (nd_ID n) s s')"
proof (cases "ac_Type (nd_Action n) = ''dig''")
  case True
  then have dig: "executeDig e n s = Some s'" using assms(2) by (simp add: dispatch_action_def)
  show ?thesis
  proof (cases "dig_taken (dig_reply e n)")
    case refused: False
    then obtain reason where "executeDig e n s = Some (markFailed e (nd_ID n) reason s)"
      by (rule executeDig_refused)
    then show ?thesis using dig refused markFailed_ended [OF assms(1)] by simp
  qed (use True dig in simp)
next
  case False
  then have "ended (nd_ID n) s s'"
    using assms settle_ended [OF assms(1)] markDone_ended [OF assms(1)] markFailed_ended [OF assms(1)]
      executeDismiss_ended [OF assms(1)]
    by (auto simp: dispatch_action_def executeBuild_def executeZone_def executeStockpile_def executeSmooth_def
        executeUnsuspend_def executeOrder_def executeSimple_def Let_def split: if_splits)
  then show ?thesis using False by simp
qed

lemma writeDigPredictions_dag:
  "writeDigPredictionsForRegion e n s = Some (k, s') \<Longrightarrow> ex_dag s' = ex_dag s"
  by (auto simp: writeDigPredictions_eq split: option.splits if_splits prod.splits)

lemma executeDig_keeps_plan:
  assumes "set (ee_ord e) = dom (dg_nodes (ex_dag s))" and "dig_taken (dig_reply e n)" and "executeDig e n s = Some s'"
  shows "keeps_plan (ex_dag s) (ex_dag s')"
proof -
  obtain result where ex: "executeDig e n s = map_option (\<lambda>(k, s'). s'\<lparr>ex_dag :=
      snd (Update (ee_ord e) (nd_ID n) (dig_accepted k (result k)) (ex_dag s'))\<rparr>) (writeDigPredictionsForRegion e n s)"
    using executeDig_taken [OF assms(2)] .
  obtain k q where "writeDigPredictionsForRegion e n s = Some (k, q)"
    "s' = q\<lparr>ex_dag := snd (Update (ee_ord e) (nd_ID n) (dig_accepted k (result k)) (ex_dag q))\<rparr>"
    using assms(3) unfolding ex by (auto simp: map_option_case split: option.splits)
  then show ?thesis using assms(1) by (simp add: writeDigPredictions_dag updates_keep_plan)
qed

lemma executeNode_keeps_plan:
  assumes ord: "set (ee_ord e) = dom (dg_nodes (ex_dag s))" and run: "executeNode e n s = Some s'"
  shows "keeps_plan (ex_dag s) (ex_dag s')" and "keeps_plan (snd (MarkActive (ee_ord e) (ee_now e) (nd_ID n) (ex_dag s))) (ex_dag s')"
proof -
  let ?d = "snd (MarkActive (ee_ord e) (ee_now e) (nd_ID n) (ex_dag s))"
  have act: "keeps_plan (ex_dag s) ?d" using ord by (rule updates_keep_plan(1))
  then have ord': "set (ee_ord e) = dom (dg_nodes (ex_dag (s\<lparr>ex_dag := ?d\<rparr>)))" using ord by (simp add: keeps_plan_def)
  have "s' = s\<lparr>ex_dag := ?d\<rparr> \<or> dispatch_action e n (s\<lparr>ex_dag := ?d\<rparr>) = Some s'"
    using run by (auto simp: executeNode_def Let_def split: prod.splits if_splits)
  then show "keeps_plan ?d (ex_dag s')"
    using dispatch_cases [OF ord', of n s'] executeDig_keeps_plan [OF ord', of n s']
    by (auto simp: keeps_plan_refl ended_def)
  then show "keeps_plan (ex_dag s) (ex_dag s')" using act by (blast intro: keeps_plan_trans)
qed

lemma executeNode_active:
  assumes "set (ee_ord e) = dom (dg_nodes (ex_dag s))" and "Get (ex_dag s) (nd_ID n) = Some m" and "nd_Status m = StatusReady"
  defines "d \<equiv> snd (MarkActive (ee_ord e) (ee_now e) (nd_ID n) (ex_dag s))"
  shows "dg_nodes d (nd_ID n) = Some (set_active (ee_now e) m)"
    and "executeNode e n s = dispatch_action e n (s\<lparr>ex_dag := d\<rparr>)"
    and "set (ee_ord e) = dom (dg_nodes d)"
proof -
  have "nd_Status (set_active (ee_now e) m) \<noteq> StatusPending" by (simp add: set_active_def assms(3))
  then show "dg_nodes d (nd_ID n) = Some (set_active (ee_now e) m)"
    unfolding d_def MarkActive_def using assms(1,2) by (intro Update_get) (simp_all add: Get_def)
  have "MarkActive (ee_ord e) (ee_now e) (nd_ID n) (ex_dag s) = (True, d)"
    using assms(2) by (simp add: d_def MarkActive_def Update_def Get_def)
  then show "executeNode e n s = dispatch_action e n (s\<lparr>ex_dag := d\<rparr>)" by (simp add: executeNode_def)
  show "set (ee_ord e) = dom (dg_nodes d)"
    using updates_keep_plan(1) [OF assms(1)] assms(1) by (simp add: d_def keeps_plan_def)
qed

text \<open>A concrete dig, and a plugin that takes it.\<close>

definition dig_node :: "i16 \<Rightarrow> i16 \<Rightarrow> Node" where
  "dig_node z1 z2 = (let n = plan_node ''d'' [] in n\<lparr>nd_Action := (nd_Action n)\<lparr>ac_Type := ''dig'',
     ac_Region := \<lparr>pr_X1 = 4, pr_Y1 = 5, pr_Z1 = z1, pr_X2 = 5, pr_Y2 = 5, pr_Z2 = z2\<rparr>\<rparr>, nd_Status := StatusReady\<rparr>)"

definition dig_plan :: "i16 \<Rightarrow> i16 \<Rightarrow> ExecState" where
  "dig_plan z1 z2 = \<lparr>ex_dag = \<lparr>dg_nodes = [''d'' \<mapsto> dig_node z1 z2], dg_insertOrder = [''d'']\<rparr>,
     ex_predicted = Some newPredictedState, ex_alerts = None\<rparr>"

definition accepting :: ExecEnv where
  "accepting = \<lparr>ee_send = \<lambda>_. Inr (Some \<lparr>cr_Success = True, cr_Status = 0, cr_ErrorMsg = [], cr_Response = None,
     cr_Duration = 1\<rparr>), ee_now = 9, ee_tick = 1, ee_id = 2, ee_ord = [''d'']\<rparr>"

lemma dig_node_simps:
  "nd_ID (dig_node z1 z2) = ''d''" "nd_Status (dig_node z1 z2) = StatusReady" "nd_Dependencies (dig_node z1 z2) = []"
  "ac_Type (nd_Action (dig_node z1 z2)) = ''dig''"
  "ac_Region (nd_Action (dig_node z1 z2)) = \<lparr>pr_X1 = 4, pr_Y1 = 5, pr_Z1 = z1, pr_X2 = 5, pr_Y2 = 5, pr_Z2 = z2\<rparr>"
  by (simp_all add: dig_node_def plan_node_def Let_def)

lemma dig_plan_ord: "set (ee_ord accepting) = dom (dg_nodes (ex_dag (dig_plan z1 z2)))"
  and dig_plan_get: "Get (ex_dag (dig_plan z1 z2)) ''d'' = Some (dig_node z1 z2)"
  by (simp_all add: accepting_def dig_plan_def Get_def)

lemma dig_plan_inv: "dag_inv (ex_dag (dig_plan z1 z2))"
  by (simp add: dag_inv_def dig_plan_def dig_node_simps deps_done_def allDepsDoneLocked_def)

lemma accepting_taken: "dig_taken (dig_reply accepting n)"
  by (simp add: dig_taken_def dig_reply_def accepting_def Let_def)

lemma dig_plan_runs:
  assumes "z2 \<noteq> 0x7FFF"
  obtains s' where "executeNode accepting (dig_node z1 z2) (dig_plan z1 z2) = Some s'"
proof -
  have "executeDig accepting (dig_node z1 z2) (dig_plan z1 z2\<lparr>ex_dag := d\<rparr>) \<noteq> None" for d
  proof -
    obtain result where ex: "executeDig accepting (dig_node z1 z2) (dig_plan z1 z2\<lparr>ex_dag := d\<rparr>) = map_option (\<lambda>(k, s'). s'\<lparr>ex_dag :=
        snd (Update (ee_ord accepting) (nd_ID (dig_node z1 z2)) (dig_accepted k (result k)) (ex_dag s'))\<rparr>)
        (writeDigPredictionsForRegion accepting (dig_node z1 z2) (dig_plan z1 z2\<lparr>ex_dag := d\<rparr>))"
      using executeDig_taken [OF accepting_taken] .
    show ?thesis
      unfolding ex using assms by (simp add: writeDigPredictions_eq region_ends_def dig_node_simps dig_plan_def)
  qed
  then show ?thesis
    using that executeNode_active(2) [OF dig_plan_ord, where n = "dig_node z1 z2" and m = "dig_node z1 z2"] dig_plan_get
    by (auto simp: dig_node_simps dispatch_action_def)
qed

lemma dispatch_result:
  assumes "set (ee_ord e) = dom (dg_nodes (ex_dag s))" and "Get (ex_dag s) (nd_ID n) = Some n"
    and "nd_Status n = StatusReady" and "executeNode e n s = Some s'"
  shows "\<exists>m. Get (ex_dag s') (nd_ID n) = Some m \<and>
    (if ac_Type (nd_Action n) = ''dig'' \<and> dig_taken (dig_reply e n)
     then nd_Status m = StatusActive \<and> nd_StartedAt m = ee_now e \<and>
       (case ex_predicted s of
          None \<Rightarrow> ex_predicted s' = None \<and> nd_PredictionCount m = 0
        | Some p \<Rightarrow> \<exists>p'. ex_predicted s' = Some p' \<and> (pred_inv p \<longrightarrow> pred_inv p') \<and>
            nd_PredictionCount m = region_size (ac_Region (nd_Action n)) \<and>
            (\<forall>c. GetPrediction p' c = (if c \<in> region_tiles (ac_Region (nd_Action n))
               then Some (written e n c) else GetPrediction p c)))
     else IsTerminal m \<and> ex_predicted s' = ex_predicted s)"
proof -
  define d where "d = snd (MarkActive (ee_ord e) (ee_now e) (nd_ID n) (ex_dag s))"
  define m where "m = set_active (ee_now e) n"
  note act = executeNode_active [OF assms(1-3), folded d_def m_def]
  have run: "dispatch_action e n (s\<lparr>ex_dag := d\<rparr>) = Some s'" using assms(4) act(2) by simp
  have ord: "set (ee_ord e) = dom (dg_nodes (ex_dag (s\<lparr>ex_dag := d\<rparr>)))" using act(3) by simp
  show ?thesis
  proof (cases "ac_Type (nd_Action n) = ''dig'' \<and> dig_taken (dig_reply e n)")
    case False
    then have "ended (nd_ID n) (s\<lparr>ex_dag := d\<rparr>) s'" using dispatch_cases [OF ord run] by auto
    then show ?thesis using False act(1) by (auto simp: ended_def Get_def)
  next
    case True
    then have dig: "executeDig e n (s\<lparr>ex_dag := d\<rparr>) = Some s'" using dispatch_cases [OF ord run] by auto
    have m: "nd_Status m = StatusActive" "nd_StartedAt m = ee_now e"
      using assms(3) by (simp_all add: m_def set_active_def)
    obtain k result where k: "dg_nodes (ex_dag s') (nd_ID n) = Some (dig_accepted k result m)"
      and w: "writeDigPredictionsForRegion e n (s\<lparr>ex_dag := d\<rparr>) = Some (k, s'\<lparr>ex_dag := d\<rparr>)"
      by (rule executeDig_taken_state [OF ord conjunct2 [OF True] dig, of m]) (use act(1) m in simp_all)
    show ?thesis
    proof (cases "ex_predicted s")
      case None
      then have "k = 0" "ex_predicted s' = None"
        using w by (auto simp: writeDigPredictions_eq dest: arg_cong [where f = ex_predicted])
      then show ?thesis using True None k m by (simp add: Get_def dig_accepted_def)
    next
      case (Some p)
      then obtain p' where "ex_predicted s' = Some p'" "k = region_size (ac_Region (nd_Action n))" "pred_inv p \<longrightarrow> pred_inv p'"
        "ps_tiles p' = (\<lambda>c. if c \<in> region_tiles (ac_Region (nd_Action n)) then Some (written e n c) else ps_tiles p c)"
        by (elim writeDigPredictions_correct [OF w, simplified]) (auto dest: arg_cong [where f = ex_predicted])
      then show ?thesis using True Some k m by (simp add: Get_def dig_accepted_def GetPrediction_def)
    qed
  qed
qed

text \<open>
  A Ready node that is dispatched ends as the reply says. A dig the plugin took (wholly, or partly
  with a caveat) leaves the node Active, started now, and predicts exactly the tiles of its region, all
  Outstanding and owned by this node, with their number as the node's prediction count. Every other
  dispatch leaves the node Done or Failed and the predictions as they were.
\<close>

theorem dispatch_outcome:
  assumes "set (ee_ord e) = dom (dg_nodes (ex_dag s))" and "Get (ex_dag s) (nd_ID n) = Some n"
    and "nd_Status n = StatusReady" and "executeNode e n s = Some s'"
  shows "\<exists>m. Get (ex_dag s') (nd_ID n) = Some m \<and>
    (if ac_Type (nd_Action n) = ''dig'' \<and> dig_taken (dig_reply e n)
     then nd_Status m = StatusActive \<and> nd_StartedAt m = ee_now e \<and>
       (case ex_predicted s of
          None \<Rightarrow> ex_predicted s' = None \<and> nd_PredictionCount m = 0
        | Some p \<Rightarrow> \<exists>p'. ex_predicted s' = Some p' \<and> (pred_inv p \<longrightarrow> pred_inv p') \<and>
            nd_PredictionCount m = region_size (ac_Region (nd_Action n)) \<and>
            (\<forall>c. GetPrediction p' c = (if c \<in> region_tiles (ac_Region (nd_Action n))
               then Some (written e n c) else GetPrediction p c)))
     else IsTerminal m \<and> ex_predicted s' = ex_predicted s)"
  by (rule dispatch_result [OF assms])

lemma dispatch_outcome_witness:
  "\<exists>s' p'. executeNode accepting (dig_node 6 7) (dig_plan 6 7) = Some s' \<and> ex_predicted s' = Some p' \<and>
     GetPrediction p' \<lparr>wc_X = 4, wc_Y = 5, wc_Z = 7\<rparr> = Some (written accepting (dig_node 6 7) \<lparr>wc_X = 4, wc_Y = 5, wc_Z = 7\<rparr>)"
proof -
  obtain s' where run: "executeNode accepting (dig_node 6 7) (dig_plan 6 7) = Some s'"
    by (rule dig_plan_runs [of 7 6]) simp
  have pred: "ex_predicted (dig_plan 6 7) = Some newPredictedState" by (simp add: dig_plan_def)
  have tile: "\<lparr>wc_X = 4, wc_Y = 5, wc_Z = 7\<rparr> \<in> region_tiles (ac_Region (nd_Action (dig_node 6 7)))"
    by (simp add: region_tiles_def dig_node_simps)
  from dispatch_outcome [OF dig_plan_ord _ _ run] run pred tile show ?thesis
    by (force simp: dig_node_simps dig_plan_get accepting_taken)
qed

text \<open>
  C22: When dispatching a dig returns: always, unless the plugin took the dig, there is a predicted layer,
  and one of the loops over the region that is entered counts up to 32767; then the \<open>int16\<close> counter wraps
  before it can exceed the bound, and the executor's goroutine never leaves the loop.
\<close>

theorem dig_dispatch_returns_iff:
  "executeDig e n s = None \<longleftrightarrow>
     dig_taken (dig_reply e n) \<and> ex_predicted s \<noteq> None \<and> \<not> region_ends (ac_Region (nd_Action n))"
proof (cases "dig_taken (dig_reply e n)")
  case True
  obtain result where "executeDig e n s = map_option (\<lambda>(k, s'). s'\<lparr>ex_dag :=
      snd (Update (ee_ord e) (nd_ID n) (dig_accepted k (result k)) (ex_dag s'))\<rparr>) (writeDigPredictionsForRegion e n s)"
    using executeDig_taken [OF True] .
  then have "executeDig e n s = None \<longleftrightarrow> writeDigPredictionsForRegion e n s = None" by simp
  then show ?thesis using True by (simp add: writeDigPredictions_eq split: option.splits)
next
  case False
  then obtain reason where "executeDig e n s = Some (markFailed e (nd_ID n) reason s)" by (rule executeDig_refused)
  then show ?thesis using False by simp
qed

section \<open>Draining the plan\<close>

lemma progress_rank:
  assumes "progress d d'" and "dg_nodes d i = Some m" and "k \<le> rank (nd_Status m)"
  obtains m' where "dg_nodes d' i = Some m'" and "k \<le> rank (nd_Status m')"
proof -
  obtain m' where m': "dg_nodes d' i = Some m'" "advances m m'" using assms(1,2) unfolding progress_def by blast
  have "k \<le> rank (nd_Status m')" using m'(2) assms(3) by (auto simp: advances_def)
  with m'(1) show ?thesis by (rule that)
qed

lemma executeNode_dispatches:
  assumes ord: "set (ee_ord e) = dom (dg_nodes (ex_dag s))" and run: "executeNode e n s = Some s'"
    and m: "dg_nodes (ex_dag s) (nd_ID n) = Some m" and "1 \<le> rank (nd_Status m)"
  obtains m' where "dg_nodes (ex_dag s') (nd_ID n) = Some m'" and "2 \<le> rank (nd_Status m')"
proof (cases "nd_Status m = StatusReady")
  case True
  let ?d = "snd (MarkActive (ee_ord e) (ee_now e) (nd_ID n) (ex_dag s))"
  have "dg_nodes ?d (nd_ID n) = Some (set_active (ee_now e) m)"
    using executeNode_active(1) [OF ord _ True] m by (simp add: Get_def)
  moreover have "progress ?d (ex_dag s')" using executeNode_keeps_plan(2) [OF ord run] by (simp add: keeps_plan_def)
  moreover have "2 \<le> rank (nd_Status (set_active (ee_now e) m))" using True by (simp add: set_active_def rank_def)
  ultimately show ?thesis using that by (blast elim: progress_rank)
next
  case False
  then have "2 \<le> rank (nd_Status m)" using assms(4) by (cases "nd_Status m") (auto simp: rank_def)
  moreover have "progress (ex_dag s) (ex_dag s')" using executeNode_keeps_plan(1) [OF ord run] by (simp add: keeps_plan_def)
  ultimately show ?thesis using m that by (blast elim: progress_rank)
qed

lemma drain_nodes_dispatch:
  "(\<And>i. set (ee_ord (env i)) = dom (dg_nodes (ex_dag s))) \<Longrightarrow> drain_nodes env ns s = Some s' \<Longrightarrow>
     keeps_plan (ex_dag s) (ex_dag s') \<and>
     (\<forall>n\<in>set ns. \<forall>m. dg_nodes (ex_dag s) (nd_ID n) = Some m \<and> 1 \<le> rank (nd_Status m) \<longrightarrow>
        (\<exists>m'. dg_nodes (ex_dag s') (nd_ID n) = Some m' \<and> 2 \<le> rank (nd_Status m')))"
proof (induction ns arbitrary: s)
  case Nil
  then show ?case by (simp add: keeps_plan_refl)
next
  case (Cons n ns)
  obtain s1 where run: "executeNode (env (nd_ID n)) n s = Some s1" and rest: "drain_nodes env ns s1 = Some s'"
    using Cons.prems(2) by (auto simp: bind_eq_Some_conv)
  have k: "keeps_plan (ex_dag s) (ex_dag s1)" by (rule executeNode_keeps_plan(1) [OF Cons.prems(1) run])
  then have ord: "set (ee_ord (env i)) = dom (dg_nodes (ex_dag s1))" for i
    using Cons.prems(1) by (simp add: keeps_plan_def)
  have pr: "progress (ex_dag s) (ex_dag s1)" using k by (simp add: keeps_plan_def)
  note IH = Cons.IH [OF ord rest]
  have pr': "progress (ex_dag s1) (ex_dag s')" using IH by (simp add: keeps_plan_def)
  have "\<exists>m'. dg_nodes (ex_dag s') (nd_ID a) = Some m' \<and> 2 \<le> rank (nd_Status m')"
    if a: "a \<in> set (n # ns)" "dg_nodes (ex_dag s) (nd_ID a) = Some m" "1 \<le> rank (nd_Status m)" for a m
  proof (cases "a \<in> set ns")
    case True
    from progress_rank [OF pr a(2,3)] obtain m1 where "dg_nodes (ex_dag s1) (nd_ID a) = Some m1" "1 \<le> rank (nd_Status m1)" .
    then show ?thesis using IH True by blast
  next
    case False
    then have "a = n" using a(1) by simp
    with executeNode_dispatches [OF Cons.prems(1) run] a obtain m1 where
      "dg_nodes (ex_dag s1) (nd_ID a) = Some m1" "2 \<le> rank (nd_Status m1)" by blast
    from progress_rank [OF pr' this] show ?thesis by blast
  qed
  then show ?case using keeps_plan_trans [OF k] IH by blast
qed

lemma ReadyNodes_mem:
  assumes "dag_inv d" and "Get d i = Some n" and "nd_Status n = StatusReady"
  shows "n \<in> set (ReadyNodes d)"
proof -
  have set_mf: "set (List.map_filter f xs) = {y. \<exists>x\<in>set xs. f x = Some y}" for f :: "string \<Rightarrow> Node option" and xs
    by (induction xs) (auto simp: map_filter_simps split: option.splits)
  have "i \<in> set (dg_insertOrder d)" using assms(1,2) by (auto simp: dag_inv_def Get_def)
  then show ?thesis
    using assms(2,3) by (auto simp: ReadyNodes_def filterByStatusLocked_def set_mf Get_def intro!: bexI [of _ i])
qed

lemma drain_dispatch:
  assumes "dag_inv (ex_dag s)" and "\<And>i. set (ee_ord (env i)) = dom (dg_nodes (ex_dag s))"
    and "drain env s = Some s'" and "Get (ex_dag s) i = Some n" and "nd_Status n = StatusReady"
  shows "\<exists>m. Get (ex_dag s') i = Some m \<and> nd_Status m \<in> {StatusActive, StatusDone, StatusFailed} \<and>
    advances n m \<and> dag_inv (ex_dag s') \<and> dom (dg_nodes (ex_dag s')) = dom (dg_nodes (ex_dag s))"
proof -
  have id: "nd_ID n = i" using assms(1,4) by (auto simp: dag_inv_def Get_def)
  note all = drain_nodes_dispatch [OF assms(2) assms(3) [unfolded drain_def]]
  then obtain m where m: "dg_nodes (ex_dag s') i = Some m" "2 \<le> rank (nd_Status m)"
    using ReadyNodes_mem [OF assms(1,4,5)] assms(4,5) by (auto simp: id Get_def rank_def)
  have "nd_Status m \<in> {StatusActive, StatusDone, StatusFailed}"
    using m(2) by (cases "nd_Status m") (auto simp: rank_def)
  moreover have "advances n m" using all m(1) assms(4) by (fastforce simp: keeps_plan_def progress_def Get_def)
  ultimately show ?thesis using all m(1) assms(1) by (auto simp: keeps_plan_def Get_def)
qed

text \<open>
  C21: One tick of the executor dispatches every node that was Ready when it began: when the drain
  returns, each of them is Active, Done or Failed, with its action and dependencies as they were; the
  plan is still well formed and has the same nodes.
\<close>

theorem drain_dispatches_ready:
  assumes "dag_inv (ex_dag s)" and "\<And>i. set (ee_ord (env i)) = dom (dg_nodes (ex_dag s))"
    and "drain env s = Some s'" and "Get (ex_dag s) i = Some n" and "nd_Status n = StatusReady"
  shows "\<exists>m. Get (ex_dag s') i = Some m \<and> nd_Status m \<in> {StatusActive, StatusDone, StatusFailed} \<and>
    advances n m \<and> dag_inv (ex_dag s') \<and> dom (dg_nodes (ex_dag s')) = dom (dg_nodes (ex_dag s))"
  by (rule drain_dispatch [OF assms])

lemma drain_dispatches_ready_witness:
  "\<exists>s' m. drain (\<lambda>_. accepting) (dig_plan 6 7) = Some s' \<and> Get (ex_dag s') ''d'' = Some m \<and>
     nd_Status m \<in> {StatusActive, StatusDone, StatusFailed}"
proof -
  obtain s' where "executeNode accepting (dig_node 6 7) (dig_plan 6 7) = Some s'"
    by (rule dig_plan_runs [of 7 6]) simp
  moreover have "ReadyNodes (ex_dag (dig_plan 6 7)) = [dig_node 6 7]"
    by (simp add: ReadyNodes_def filterByStatusLocked_def dig_plan_def dig_node_simps map_filter_simps)
  ultimately have run: "drain (\<lambda>_. accepting) (dig_plan 6 7) = Some s'" by (simp add: drain_def)
  from drain_dispatches_ready [OF dig_plan_inv dig_plan_ord run dig_plan_get dig_node_simps(2)] run show ?thesis
    by blast
qed

end
