(* ===== verification/Reconciler.thy ===== *)
theory Reconciler
  imports Plan_Executor Overlay
begin

text \<open>
  The reconciler (\<open>internal/reconcile/reconciler.go\<close>, \<open>types.go\<close>): one scan confirms the predictions whose
  tile is now open, notes the progress of their nodes, makes a node Done when none of its predictions
  is left, and reports the nodes that do not progress through a bounded buffer of events. A scan is one
  step over the predicted layer, the overlay it reads and the plan; the clock readings and the orders in which
  the maps are met are the fields of \<open>ScanEnv\<close>. Times and durations are in nanoseconds.
\<close>

section \<open>Configuration\<close>

record ReconcileConfig =
  rc_ScanEvery :: int
  rc_RetireEvery :: int
  rc_RetainConfirmed :: int
  rc_EventBufferSize :: int
  rc_StallThreshold :: int
  rc_StallReNotifyInterval :: int

definition DefaultConfig :: ReconcileConfig where
  "DefaultConfig = \<lparr>rc_ScanEvery = 1500000000, rc_RetireEvery = 60000000000, rc_RetainConfirmed = 300000000000,
     rc_EventBufferSize = 128, rc_StallThreshold = 90000000000, rc_StallReNotifyInterval = 300000000000\<rparr>"

definition with_defaults :: "ReconcileConfig \<Rightarrow> ReconcileConfig" where
  "with_defaults cfg = (let def = DefaultConfig in
    \<lparr>rc_ScanEvery = (if rc_ScanEvery cfg \<le> 0 then rc_ScanEvery def else rc_ScanEvery cfg),
     rc_RetireEvery = (if rc_RetireEvery cfg \<le> 0 then rc_RetireEvery def else rc_RetireEvery cfg),
     rc_RetainConfirmed = (if rc_RetainConfirmed cfg \<le> 0 then rc_RetainConfirmed def else rc_RetainConfirmed cfg),
     rc_EventBufferSize = (if rc_EventBufferSize cfg \<le> 0 then rc_EventBufferSize def else rc_EventBufferSize cfg),
     rc_StallThreshold = (if rc_StallThreshold cfg \<le> 0 then rc_StallThreshold def else rc_StallThreshold cfg),
     rc_StallReNotifyInterval = (if rc_StallReNotifyInterval cfg \<le> 0 then rc_StallReNotifyInterval def
       else rc_StallReNotifyInterval cfg)\<rparr>)"

section \<open>The event buffer\<close>

datatype DivergenceReason = ReasonStalled | ReasonContradicted | ReasonExplicitBlocker

record DivergenceEvent =
  de_Coord :: WCoord
  de_Action :: string
  de_PlanNodeID :: string
  de_PredictedAt :: go_time
  de_EmittedAt :: go_time
  de_Reason :: DivergenceReason
  de_IdleSeconds :: int
  de_PredictedFlags :: u8
  de_ObservedFlags :: u8
  de_Note :: result_text

record EventBuffer =
  eb_events :: "DivergenceEvent list"
  eb_cap :: int

definition NewEventBuffer :: "int \<Rightarrow> EventBuffer" where
  "NewEventBuffer capacity = \<lparr>eb_events = [], eb_cap = (if capacity \<le> 0 then 64 else capacity)\<rparr>"

definition AppendEvent :: "EventBuffer \<Rightarrow> DivergenceEvent \<Rightarrow> EventBuffer" where
  "AppendEvent b e =
     (if int (length (eb_events b)) < eb_cap b then b\<lparr>eb_events := eb_events b @ [e]\<rparr>
      else b\<lparr>eb_events := tl (eb_events b) @ [e]\<rparr>)"

text \<open>\<open>for i := len - 1; i >= len - n; i--\<close>\<close>

definition RecentEvents :: "EventBuffer \<Rightarrow> int \<Rightarrow> DivergenceEvent list" where
  "RecentEvents b n =
     (if eb_events b = [] then []
      else let len = int (length (eb_events b)); n = (if n \<le> 0 \<or> n > len then len else n)
           in map (\<lambda>i. eb_events b ! nat i) (rev [len - n..len - 1]))"

definition EventLen :: "EventBuffer \<Rightarrow> int" where
  "EventLen b = int (length (eb_events b))"

section \<open>The state and one scan's surroundings\<close>

text \<open>The parts of the world model and the plan the reconciler holds; each may be absent.\<close>

record ReconcileState =
  rs_cfg :: ReconcileConfig
  rs_predicted :: "PredictedState option"
  rs_topology :: "TopologyOverlay option"
  rs_dag :: "DAG option"
  rs_events :: EventBuffer

record ScanEnv =
  sc_now :: go_time
  sc_confirm :: "WCoord \<Rightarrow> go_time"
  sc_progress :: "string \<Rightarrow> go_time"
  sc_done :: "string \<Rightarrow> go_time"
  sc_stall :: "string \<Rightarrow> go_time"
  sc_ord :: "string list"
  sc_progressed :: "string list"
  sc_outstanding1 :: "WCoord list"
  sc_diverged :: "WCoord list"
  sc_outstanding2 :: "WCoord list"

definition NewReconciler ::
  "ReconcileConfig \<Rightarrow> PredictedState option \<Rightarrow> TopologyOverlay option \<Rightarrow> DAG option \<Rightarrow> ReconcileState" where
  "NewReconciler cfg p t d = (let cfg = with_defaults cfg in
     \<lparr>rs_cfg = cfg, rs_predicted = p, rs_topology = t, rs_dag = d,
      rs_events = NewEventBuffer (rc_EventBufferSize cfg)\<rparr>)"

section \<open>Confirming\<close>

text \<open>An error of the lookup is a tile outside the map; the bit arrays of an overlay always cover it.\<close>

definition isConfirmed :: "TopologyOverlay option \<Rightarrow> TilePrediction \<Rightarrow> bool" where
  "isConfirmed topo pred = (case topo of
       None \<Rightarrow> False
     | Some t \<Rightarrow> (case GetTile t (wc_X (tp_Coord pred)) (wc_Y (tp_Coord pred)) (wc_Z (tp_Coord pred)) of
         Inl err \<Rightarrow> False
       | Inr open \<Rightarrow> open))"

text \<open>The number confirmed, the nodes that progressed, and the predicted layer.\<close>

definition confirm_one :: "(WCoord \<Rightarrow> go_time) \<Rightarrow> TopologyOverlay option \<Rightarrow> TilePrediction \<Rightarrow>
    int \<times> string set \<times> PredictedState \<Rightarrow> int \<times> string set \<times> PredictedState" where
  "confirm_one clock topo pred acc = (case acc of (confirmed, progressed, p) \<Rightarrow>
     if isConfirmed topo pred then
       (case Confirm (clock (tp_Coord pred)) (tp_Coord pred) p of
          (True, p) \<Rightarrow> (confirmed + 1,
            if tp_PlanNodeID pred \<noteq> [] then insert (tp_PlanNodeID pred) progressed else progressed, p)
        | (False, p) \<Rightarrow> (confirmed, progressed, p))
     else (confirmed, progressed, p))"

section \<open>Bookkeeping of the nodes\<close>

definition count_for :: "string \<Rightarrow> TilePrediction list \<Rightarrow> int" where
  "count_for i preds = int (length (filter (\<lambda>pred. tp_PlanNodeID pred = i) preds))"

definition confirmed_count :: "TilePrediction list \<Rightarrow> TilePrediction list \<Rightarrow> Node \<Rightarrow> int" where
  "confirmed_count outstanding diverged n =
     (let confirmed = nd_PredictionCount n - count_for (nd_ID n) outstanding - count_for (nd_ID n) diverged
      in if confirmed < 0 then 0 else confirmed)"

definition set_counts :: "int \<Rightarrow> int \<Rightarrow> Node \<Rightarrow> Node" where
  "set_counts confirmed diverged n = n\<lparr>nd_PredictionsConfirmed := confirmed, nd_PredictionsDiverged := diverged\<rparr>"

definition count_node :: "ScanEnv \<Rightarrow> TilePrediction list \<Rightarrow> TilePrediction list \<Rightarrow> Node \<Rightarrow> DAG \<Rightarrow> DAG" where
  "count_node e outstanding diverged n d =
     (if nd_PredictionCount n = 0 then d
      else let confirmed = confirmed_count outstanding diverged n;
               d = snd (Update (sc_ord e) (nd_ID n) (set_counts confirmed (count_for (nd_ID n) diverged)) d)
           in if confirmed \<ge> nd_PredictionCount n
              then snd (MarkDone (sc_ord e) (sc_done e (nd_ID n)) (nd_ID n) d) else d)"

definition updateNodeCounts :: "ScanEnv \<Rightarrow> PredictedState \<Rightarrow> DAG \<Rightarrow> DAG" where
  "updateNodeCounts e p d =
     (let active = ActiveNodes d in
      if active = [] then d
      else fold (count_node e (Outstanding (sc_outstanding2 e) p) (Diverged (sc_diverged e) p)) active d)"

section \<open>Stalls\<close>

text \<open>\<open>Duration.Round\<close> to a second, of a duration that is not negative.\<close>

definition round_second :: "int \<Rightarrow> int" where
  "round_second d = (let r = d mod 1000000000 in if r + r < 1000000000 then d - r else d - r + 1000000000)"

text \<open>\<open>v / 2\<close> on \<open>int16\<close> rounds towards zero; the sums before it wrap.\<close>

definition half16 :: "i16 \<Rightarrow> i16" where
  "half16 w = word_of_int (if sint w < 0 then - ((- sint w) div 2) else sint w div 2)"

definition centroidOf :: "Action \<Rightarrow> WCoord" where
  "centroidOf a = (let r = ac_Region a in
     \<lparr>wc_X = half16 (pr_X1 r + pr_X2 r), wc_Y = half16 (pr_Y1 r + pr_Y2 r), wc_Z = half16 (pr_Z1 r + pr_Z2 r)\<rparr>)"

definition describeAction :: "Action \<Rightarrow> string" where
  "describeAction a = (if ac_Type a = ''dig'' then ''dig:'' @ ac_DigType a else ac_Type a)"

definition idle_of :: "go_time \<Rightarrow> Node \<Rightarrow> int" where
  "idle_of now n = int now - int (nd_LastProgressAt n)"

text \<open>The guards of the loop of \<open>detectStalls\<close>.\<close>

definition is_stalled :: "ReconcileConfig \<Rightarrow> go_time \<Rightarrow> Node \<Rightarrow> bool" where
  "is_stalled cfg now n \<longleftrightarrow> \<not> (nd_PredictionCount n = 0) \<and> \<not> (nd_PredictionsConfirmed n \<ge> nd_PredictionCount n) \<and>
     \<not> (idle_of now n < rc_StallThreshold cfg) \<and>
     \<not> (nd_StallNotedAt n \<noteq> 0 \<and> int now - int (nd_StallNotedAt n) < rc_StallReNotifyInterval cfg)"

definition stall_event :: "go_time \<Rightarrow> Node \<Rightarrow> DivergenceEvent" where
  "stall_event now n = \<lparr>de_Coord = centroidOf (nd_Action n), de_Action = describeAction (nd_Action n),
     de_PlanNodeID = nd_ID n, de_PredictedAt = nd_StartedAt n, de_EmittedAt = now, de_Reason = ReasonStalled,
     de_IdleSeconds = idle_of now n div 1000000000, de_PredictedFlags = 0, de_ObservedFlags = 0,
     de_Note = Sprintf ''no observed progress for %s; %d/%d predictions confirmed''
       [round_second (idle_of now n), nd_PredictionsConfirmed n, nd_PredictionCount n] []\<rparr>"

definition stall_node :: "ScanEnv \<Rightarrow> ReconcileConfig \<Rightarrow> Node \<Rightarrow> int \<times> EventBuffer \<times> DAG \<Rightarrow> int \<times> EventBuffer \<times> DAG" where
  "stall_node e cfg n acc = (case acc of (emitted, events, d) \<Rightarrow>
     if is_stalled cfg (sc_now e) n
     then (emitted + 1, AppendEvent events (stall_event (sc_now e) n),
           snd (NoteStall (sc_ord e) (sc_stall e (nd_ID n)) (nd_ID n) d))
     else (emitted, events, d))"

definition detectStalls :: "ScanEnv \<Rightarrow> ReconcileConfig \<Rightarrow> EventBuffer \<Rightarrow> DAG \<Rightarrow> int \<times> EventBuffer \<times> DAG" where
  "detectStalls e cfg events d = fold (stall_node e cfg) (ActiveNodes d) (0, events, d)"

section \<open>A scan and a retirement\<close>

definition note_all :: "ScanEnv \<Rightarrow> string list \<Rightarrow> DAG \<Rightarrow> DAG" where
  "note_all e ids d = fold (\<lambda>i d. snd (NoteProgress (sc_ord e) (sc_progress e i) i d)) ids d"

text \<open>Without a plan, noting progress would dereference nil: None.\<close>

definition scan :: "ScanEnv \<Rightarrow> ReconcileState \<Rightarrow> ReconcileState option" where
  "scan e s = (case rs_predicted s of
       None \<Rightarrow> Some s
     | Some p \<Rightarrow>
       (let (confirmed, progressed, p) = fold (confirm_one (sc_confirm e) (rs_topology s))
              (Outstanding (sc_outstanding1 e) p) (0, {}, p);
            ids = filter (\<lambda>i. i \<in> progressed) (sc_progressed e)
        in case rs_dag s of
            None \<Rightarrow> if ids = [] then Some (s\<lparr>rs_predicted := Some p\<rparr>) else None
          | Some d \<Rightarrow>
            let d = updateNodeCounts e p (note_all e ids d);
                (emitted, events, d) = detectStalls e (rs_cfg s) (rs_events s) d
            in Some (s\<lparr>rs_predicted := Some p, rs_dag := Some d, rs_events := events\<rparr>)))"

definition retire :: "go_time \<Rightarrow> WCoord list \<Rightarrow> ReconcileState \<Rightarrow> ReconcileState" where
  "retire now ord s = (case rs_predicted s of
       None \<Rightarrow> s
     | Some p \<Rightarrow> s\<lparr>rs_predicted :=
         Some (snd (RetireConfirmedOlderThan ord (int now - rc_RetainConfirmed (rs_cfg s)) p))\<rparr>)"

section \<open>What confirming does\<close>

definition as_confirmed :: "(WCoord \<Rightarrow> go_time) \<Rightarrow> TilePrediction \<Rightarrow> TilePrediction" where
  "as_confirmed clock t = t\<lparr>tp_Status := PredictionConfirmed, tp_UpdatedAt := clock (tp_Coord t)\<rparr>"

lemma confirm_loop_correct:
  "pred_inv p \<Longrightarrow> distinct (map tp_Coord preds) \<Longrightarrow>
   (\<And>t. t \<in> set preds \<Longrightarrow> ps_tiles p (tp_Coord t) = Some t \<and> tp_Status t = PredictionOutstanding) \<Longrightarrow>
   fold (confirm_one clock topo) preds (k, S, p) = (k', S', p') \<Longrightarrow>
   pred_inv p' \<and>
   ps_tiles p' = (\<lambda>c. map_option (\<lambda>t. if t \<in> set preds \<and> isConfirmed topo t then as_confirmed clock t else t) (ps_tiles p c)) \<and>
   S' = S \<union> {i. i \<noteq> [] \<and> (\<exists>t\<in>set preds. isConfirmed topo t \<and> tp_PlanNodeID t = i)}"
proof (induction preds arbitrary: k S p)
  case Nil
  then show ?case by (simp add: option.map_ident)
next
  case (Cons t preds)
  have t: "ps_tiles p (tp_Coord t) = Some t" "tp_Status t = PredictionOutstanding" using Cons.prems(3) by simp_all
  show ?case
  proof (cases "isConfirmed topo t")
    case False
    then have "fold (confirm_one clock topo) preds (k, S, p) = (k', S', p')"
      using Cons.prems(4) by (simp add: confirm_one_def [of clock topo t])
    with Cons.prems have IH: "pred_inv p' \<and>
       ps_tiles p' = (\<lambda>c. map_option (\<lambda>t. if t \<in> set preds \<and> isConfirmed topo t then as_confirmed clock t else t) (ps_tiles p c)) \<and>
       S' = S \<union> {i. i \<noteq> [] \<and> (\<exists>t\<in>set preds. isConfirmed topo t \<and> tp_PlanNodeID t = i)}"
      by (intro Cons.IH) auto
    moreover have "(t' = t \<or> t' \<in> set preds) \<and> isConfirmed topo t' \<longleftrightarrow> t' \<in> set preds \<and> isConfirmed topo t'" for t'
      using False by auto
    ultimately show ?thesis using False by auto
  next
    case True
    define q where "q = snd (Confirm (clock (tp_Coord t)) (tp_Coord t) p)"
    have q: "Confirm (clock (tp_Coord t)) (tp_Coord t) p = (True, q)"
      "ps_tiles q = (ps_tiles p)(tp_Coord t \<mapsto> as_confirmed clock t)"
      using t by (simp_all add: q_def Confirm_def adjustCount_def Let_def as_confirmed_def)
    define S1 where "S1 = (if tp_PlanNodeID t \<noteq> [] then insert (tp_PlanNodeID t) S else S)"
    have "fold (confirm_one clock topo) preds (k + 1, S1, q) = (k', S', p')"
      using Cons.prems(4) True by (simp add: confirm_one_def [of clock topo t] q(1) S1_def)
    moreover have "pred_inv q" unfolding q_def by (rule Confirm_inv [OF Cons.prems(1)])
    moreover have new: "t' \<noteq> t" "tp_Coord t' \<noteq> tp_Coord t" if "t' \<in> set preds" for t'
    proof -
      have "tp_Coord t \<notin> tp_Coord ` set preds" using Cons.prems(2) by simp
      with imageI [OF that, of tp_Coord] show "tp_Coord t' \<noteq> tp_Coord t" by metis
      then show "t' \<noteq> t" by blast
    qed
    ultimately have IH: "pred_inv p' \<and>
       ps_tiles p' = (\<lambda>c. map_option (\<lambda>t. if t \<in> set preds \<and> isConfirmed topo t then as_confirmed clock t else t) (ps_tiles q c)) \<and>
       S' = S1 \<union> {i. i \<noteq> [] \<and> (\<exists>t\<in>set preds. isConfirmed topo t \<and> tp_PlanNodeID t = i)}"
      using Cons.prems(2,3) by (intro Cons.IH) (auto simp: q(2))
    have "tp_Coord (as_confirmed clock t) = tp_Coord t" by (simp add: as_confirmed_def)
    then have same: "as_confirmed clock t \<notin> set preds" using new(2) by metis
    have other: "t' \<noteq> t" if "ps_tiles p c = Some t'" "c \<noteq> tp_Coord t" for c t'
      using Cons.prems(1) that by (auto simp: pred_inv_def counts_ok_def)
    have "ps_tiles p' = (\<lambda>c. map_option (\<lambda>t'. if t' \<in> set (t # preds) \<and> isConfirmed topo t' then as_confirmed clock t' else t') (ps_tiles p c))"
    proof
      fix c
      show "ps_tiles p' c = map_option (\<lambda>t'. if t' \<in> set (t # preds) \<and> isConfirmed topo t' then as_confirmed clock t' else t') (ps_tiles p c)"
        using IH same True t(1) other by (cases "c = tp_Coord t"; cases "ps_tiles p c") (auto simp: q(2))
    qed
    moreover have "S' = S \<union> {i. i \<noteq> [] \<and> (\<exists>t'\<in>set (t # preds). isConfirmed topo t' \<and> tp_PlanNodeID t' = i)}"
      using IH True by (auto simp: S1_def split: if_splits)
    ultimately show ?thesis using IH by blast
  qed
qed

lemma Outstanding_list:
  assumes "pred_inv p" and "distinct ord" and "set ord = dom (ps_tiles p)"
  shows "distinct (map tp_Coord (Outstanding ord p))"
    and "t \<in> set (Outstanding ord p) \<longleftrightarrow> ps_tiles p (tp_Coord t) = Some t \<and> tp_Status t = PredictionOutstanding"
proof -
  have coord: "tp_Coord t = c" if "ps_tiles p c = Some t" for c t
    using assms(1) that by (auto simp: pred_inv_def counts_ok_def)
  have "map tp_Coord (List.map_filter (ps_tiles p) cs) = filter (\<lambda>c. c \<in> dom (ps_tiles p)) cs" for cs
    using coord by (induction cs) (auto simp: map_filter_simps split: option.splits)
  then have "distinct (map tp_Coord (List.map_filter (ps_tiles p) ord))" using assms(2) by simp
  then show "distinct (map tp_Coord (Outstanding ord p))"
    unfolding Outstanding_def with_status_def by (rule distinct_map_filter)
  show "t \<in> set (Outstanding ord p) \<longleftrightarrow> ps_tiles p (tp_Coord t) = Some t \<and> tp_Status t = PredictionOutstanding"
    unfolding Outstanding_def set_with_status [OF assms(3)] using coord by auto
qed

text \<open>The predicted layer after the first part of a scan.\<close>

definition confirm_open :: "ScanEnv \<Rightarrow> TopologyOverlay option \<Rightarrow> (WCoord \<rightharpoonup> TilePrediction) \<Rightarrow> WCoord \<rightharpoonup> TilePrediction" where
  "confirm_open e topo m c = map_option (\<lambda>t.
     if tp_Status t = PredictionOutstanding \<and> isConfirmed topo t then as_confirmed (sc_confirm e) t else t) (m c)"

lemma confirm_phase:
  assumes "pred_inv p" and "distinct (sc_outstanding1 e)" and "set (sc_outstanding1 e) = dom (ps_tiles p)"
    and "fold (confirm_one (sc_confirm e) topo) (Outstanding (sc_outstanding1 e) p) (0, {}, p) = (k, S, p')"
  shows "pred_inv p'" and "ps_tiles p' = confirm_open e topo (ps_tiles p)"
    and "S = {i. i \<noteq> [] \<and> (\<exists>c t. ps_tiles p c = Some t \<and> tp_PlanNodeID t = i \<and>
      tp_Status t = PredictionOutstanding \<and> isConfirmed topo t)}"
proof -
  note out = Outstanding_list [OF assms(1-3)]
  have r: "pred_inv p' \<and>
     ps_tiles p' = (\<lambda>c. map_option (\<lambda>t. if t \<in> set (Outstanding (sc_outstanding1 e) p) \<and> isConfirmed topo t
       then as_confirmed (sc_confirm e) t else t) (ps_tiles p c)) \<and>
     S = {} \<union> {i. i \<noteq> [] \<and> (\<exists>t\<in>set (Outstanding (sc_outstanding1 e) p). isConfirmed topo t \<and> tp_PlanNodeID t = i)}"
    by (rule confirm_loop_correct [OF assms(1) out(1) _ assms(4)]) (simp add: out(2))
  have coord: "tp_Coord t = c" if "ps_tiles p c = Some t" for c t
    using assms(1) that by (auto simp: pred_inv_def counts_ok_def)
  show "pred_inv p'" using r by simp
  show "ps_tiles p' = confirm_open e topo (ps_tiles p)"
    using r coord by (auto simp: confirm_open_def fun_eq_iff out(2) intro!: option.map_cong0)
  show "S = {i. i \<noteq> [] \<and> (\<exists>c t. ps_tiles p c = Some t \<and> tp_PlanNodeID t = i \<and>
      tp_Status t = PredictionOutstanding \<and> isConfirmed topo t)}"
    using r coord by (auto simp: out(2)) blast+
qed

section \<open>Visiting nodes one after another\<close>

text \<open>
  The loops over nodes share a contract: a visit keeps the plan, and a node other than the visited one that is not
  Pending stays as it is. Then each node that is visited once sees itself as it was before the loop.
\<close>

locale node_visit =
  fixes ord :: "string list" and key :: "'a \<Rightarrow> string" and visit :: "'a \<Rightarrow> DAG \<Rightarrow> DAG"
  assumes visit_keeps: "set ord = dom (dg_nodes d) \<Longrightarrow> keeps_plan d (visit x d)"
    and visit_others: "set ord = dom (dg_nodes d) \<Longrightarrow> j \<noteq> key x \<Longrightarrow> dg_nodes d j = Some m \<Longrightarrow>
      nd_Status m \<noteq> StatusPending \<Longrightarrow> dg_nodes (visit x d) j = Some m"
begin

lemma visit_ord: "set ord = dom (dg_nodes d) \<Longrightarrow> set ord = dom (dg_nodes (visit x d))"
  using visit_keeps by (simp add: keeps_plan_def)

lemma visits_keep: "set ord = dom (dg_nodes d) \<Longrightarrow> keeps_plan d (fold visit xs d)"
proof (induction xs arbitrary: d)
  case (Cons x xs)
  have "keeps_plan (visit x d) (fold visit xs (visit x d))" by (rule Cons.IH [OF visit_ord [OF Cons.prems]])
  then show ?case using keeps_plan_trans [OF visit_keeps [OF Cons.prems]] by simp
qed (simp add: keeps_plan_refl)

lemma not_visited:
  "set ord = dom (dg_nodes d) \<Longrightarrow> j \<notin> key ` set xs \<Longrightarrow> dg_nodes d j = Some m \<Longrightarrow> nd_Status m \<noteq> StatusPending \<Longrightarrow>
     dg_nodes (fold visit xs d) j = Some m"
proof (induction xs arbitrary: d)
  case (Cons x xs)
  have "dg_nodes (visit x d) j = Some m" using Cons.prems by (intro visit_others) auto
  then show ?case using Cons.prems by (simp add: Cons.IH [OF visit_ord [OF Cons.prems(1)]])
qed simp

lemma visited:
  assumes "set ord = dom (dg_nodes d)" and "distinct (map key xs)" and "x \<in> set xs"
    and "dg_nodes d (key x) = Some m" and "nd_Status m \<noteq> StatusPending"
    and effect: "\<And>d. set ord = dom (dg_nodes d) \<Longrightarrow> dg_nodes d (key x) = Some m \<Longrightarrow> dg_nodes (visit x d) (key x) = Some m'"
    and "nd_Status m' \<noteq> StatusPending"
  shows "dg_nodes (fold visit xs d) (key x) = Some m'"
proof -
  obtain ys zs where xs: "xs = ys @ x # zs" using assms(3) by (meson split_list)
  have out: "key x \<notin> key ` set ys" "key x \<notin> key ` set zs" using assms(2) by (auto simp: xs)
  let ?d = "fold visit ys d"
  have ord: "set ord = dom (dg_nodes ?d)"
    using visits_keep [OF assms(1), of ys] assms(1) by (simp add: keeps_plan_def)
  have "dg_nodes ?d (key x) = Some m" by (rule not_visited [OF assms(1) out(1) assms(4,5)])
  then have "dg_nodes (visit x ?d) (key x) = Some m'" by (rule effect [OF ord])
  then have "dg_nodes (fold visit zs (visit x ?d)) (key x) = Some m'"
    by (rule not_visited [OF visit_ord [OF ord] out(2) _ assms(7)])
  then show ?thesis by (simp add: xs)
qed

end

lemma Update_other:
  assumes "set ord = dom (dg_nodes d)" and "j \<noteq> i" and "dg_nodes d j = Some m" and "nd_Status m \<noteq> StatusPending"
  shows "dg_nodes (snd (Update ord i f d)) j = Some m"
proof (cases "dg_nodes d i")
  case (Some n)
  then have "set ord = dom (dg_nodes (d\<lparr>dg_nodes := (dg_nodes d)(i \<mapsto> f n)\<rparr>))" using assms(1) by auto
  with Some assms show ?thesis by (simp add: Update_def promote_eq promote_all_def)
qed (simp add: Update_def assms(3))

interpretation counts_mutator: node_mutator "set_counts confirmed diverged" for confirmed diverged
  by unfold_locales (auto simp: set_counts_def advances_def)

lemma scan_updates_keep_plan:
  assumes "set ord = dom (dg_nodes d)"
  shows "keeps_plan d (snd (Update ord i (set_counts confirmed diverged) d))"
    and "keeps_plan d (snd (MarkDone ord now i d))" and "keeps_plan d (snd (NoteStall ord now i d))"
    and "keeps_plan d (snd (NoteProgress ord now i d))"
  using assms
  by (simp_all add: keeps_plan_def mutator_defs Update_dom counts_mutator.Update_inv counts_mutator.Update_progress
      done_mutator.Update_inv done_mutator.Update_progress stall_mutator.Update_inv stall_mutator.Update_progress
      progress_mutator.Update_inv progress_mutator.Update_progress)

lemmas scan_updates_keep = scan_updates_keep_plan [unfolded mutator_defs]

lemma keeps_ord: "set ord = dom (dg_nodes d) \<Longrightarrow> keeps_plan d d' \<Longrightarrow> set ord = dom (dg_nodes d')"
  by (simp add: keeps_plan_def)

lemma count_node_keeps:
  "set (sc_ord e) = dom (dg_nodes d) \<Longrightarrow> keeps_plan d (count_node e outstanding diverged n d)"
proof -
  assume ord: "set (sc_ord e) = dom (dg_nodes d)"
  have one: "keeps_plan d (snd (Update (sc_ord e) (nd_ID n) f d))" if "f = set_counts a b" for f a b
    using scan_updates_keep_plan(1) [OF ord] that by simp
  have "keeps_plan d (snd (MarkDone (sc_ord e) now i (snd (Update (sc_ord e) (nd_ID n) (set_counts a b) d))))" for now i a b
    by (rule keeps_plan_trans [OF one [OF refl] scan_updates_keep_plan(2)]) (rule keeps_ord [OF ord one [OF refl]])
  then show ?thesis using one by (simp add: count_node_def Let_def keeps_plan_refl)
qed

interpretation count_visit: node_visit "sc_ord e" nd_ID "count_node e outstanding diverged" for e outstanding diverged
proof
  fix d :: DAG and x :: Node and j :: string and m :: Node
  assume ord: "set (sc_ord e) = dom (dg_nodes d)"
  show "keeps_plan d (count_node e outstanding diverged x d)" by (rule count_node_keeps [OF ord])
  assume j: "j \<noteq> nd_ID x" "dg_nodes d j = Some m" "nd_Status m \<noteq> StatusPending"
  let ?d = "snd (Update (sc_ord e) (nd_ID x) (set_counts (confirmed_count outstanding diverged x)
    (count_for (nd_ID x) diverged)) d)"
  have "dg_nodes ?d j = Some m" by (rule Update_other [OF ord j])
  moreover have "set (sc_ord e) = dom (dg_nodes ?d)" by (rule keeps_ord [OF ord scan_updates_keep_plan(1) [OF ord]])
  ultimately show "dg_nodes (count_node e outstanding diverged x d) j = Some m"
    using j by (simp add: count_node_def Let_def MarkDone_def Update_other)
qed

interpretation progress_visit: node_visit "sc_ord e" "\<lambda>i. i" "\<lambda>i d. snd (NoteProgress (sc_ord e) (sc_progress e i) i d)" for e
  by unfold_locales (simp_all add: scan_updates_keep NoteProgress_def Update_other)

text \<open>The plan's part of \<open>stall_node\<close>.\<close>

definition stall_visit_node :: "ScanEnv \<Rightarrow> ReconcileConfig \<Rightarrow> Node \<Rightarrow> DAG \<Rightarrow> DAG" where
  "stall_visit_node e cfg n d = (if is_stalled cfg (sc_now e) n
     then snd (NoteStall (sc_ord e) (sc_stall e (nd_ID n)) (nd_ID n) d) else d)"

interpretation stall_visit: node_visit "sc_ord e" nd_ID "stall_visit_node e cfg" for e cfg
  by unfold_locales (simp_all add: stall_visit_node_def scan_updates_keep keeps_plan_refl NoteStall_def Update_other)

lemma stall_loop: "fold (stall_node e cfg) ns (k, b, d) =
    (k + int (length (filter (is_stalled cfg (sc_now e)) ns)),
     foldl AppendEvent b (map (stall_event (sc_now e)) (filter (is_stalled cfg (sc_now e)) ns)),
     fold (stall_visit_node e cfg) ns d)"
  by (induction ns arbitrary: k b d) (simp_all add: stall_node_def stall_visit_node_def)

section \<open>One node through a scan\<close>

lemma set_map_filter: "set (List.map_filter f xs) = {y. \<exists>x\<in>set xs. f x = Some y}"
  by (induction xs) (auto simp: map_filter_simps split: option.splits)

lemma ActiveNodes_list:
  assumes "dag_inv d"
  shows "n \<in> set (ActiveNodes d) \<longleftrightarrow> dg_nodes d (nd_ID n) = Some n \<and> nd_Status n = StatusActive"
    and "distinct (map nd_ID (ActiveNodes d))"
proof -
  let ?f = "\<lambda>i. case dg_nodes d i of None \<Rightarrow> None | Some n \<Rightarrow> if nd_Status n \<in> set [StatusActive] then Some n else None"
  have id: "nd_ID n = i" if "dg_nodes d i = Some n" for i n using assms that by (simp add: dag_inv_def)
  have dom: "i \<in> set (dg_insertOrder d) \<longleftrightarrow> (\<exists>n. dg_nodes d i = Some n)" for i
    using assms by (auto simp: dag_inv_def)
  show "n \<in> set (ActiveNodes d) \<longleftrightarrow> dg_nodes d (nd_ID n) = Some n \<and> nd_Status n = StatusActive"
  proof -
    have f: "?f i = Some n \<longleftrightarrow> dg_nodes d i = Some n \<and> nd_Status n = StatusActive" for i
      by (auto split: option.splits)
    have "n \<in> set (ActiveNodes d) \<longleftrightarrow> (\<exists>i. i \<in> set (dg_insertOrder d) \<and> ?f i = Some n)"
      unfolding ActiveNodes_def filterByStatusLocked_def set_map_filter by blast
    then show ?thesis unfolding f dom using id by blast
  qed
  have "map nd_ID (List.map_filter ?f is) = filter (\<lambda>i. ?f i \<noteq> None) is" for "is"
    using id by (induction "is") (auto simp: map_filter_simps split: option.splits)
  then show "distinct (map nd_ID (ActiveNodes d))"
    using assms by (simp add: ActiveNodes_def filterByStatusLocked_def dag_inv_def)
qed

definition node_counted :: "ScanEnv \<Rightarrow> TilePrediction list \<Rightarrow> TilePrediction list \<Rightarrow> Node \<Rightarrow> Node" where
  "node_counted e outstanding diverged n =
     (if nd_PredictionCount n = 0 then n
      else let confirmed = confirmed_count outstanding diverged n;
               m = set_counts confirmed (count_for (nd_ID n) diverged) n
           in if confirmed \<ge> nd_PredictionCount n then set_done (sc_done e (nd_ID n)) m else m)"

lemma count_effect:
  assumes ord: "set (sc_ord e) = dom (dg_nodes d)" and n: "dg_nodes d (nd_ID n) = Some n" "nd_Status n = StatusActive"
  shows "dg_nodes (count_node e outstanding diverged n d) (nd_ID n) = Some (node_counted e outstanding diverged n)"
proof -
  let ?m = "set_counts (confirmed_count outstanding diverged n) (count_for (nd_ID n) diverged)"
  have m: "dg_nodes (snd (Update (sc_ord e) (nd_ID n) ?m d)) (nd_ID n) = Some (?m n)"
    by (rule Update_get [OF ord n(1)]) (simp add: set_counts_def n(2))
  have "dg_nodes (snd (MarkDone (sc_ord e) now (nd_ID n) (snd (Update (sc_ord e) (nd_ID n) ?m d)))) (nd_ID n) =
      Some (set_done now (?m n))" for now
    unfolding MarkDone_def
    by (rule Update_get [OF keeps_ord [OF ord scan_updates_keep_plan(1) [OF ord]] m])
      (simp add: set_done_def set_counts_def n(2) IsTerminal_def)
  with m n(1) show ?thesis by (simp add: count_node_def node_counted_def Let_def)
qed

lemma node_counted_status: "nd_Status n = StatusActive \<Longrightarrow> nd_Status (node_counted e out dv n) \<in> {StatusActive, StatusDone}"
  and node_counted_id: "nd_ID (node_counted e out dv n) = nd_ID n"
  by (auto simp: node_counted_def Let_def set_counts_def set_done_def IsTerminal_def)

lemma node_through_counts:
  assumes inv: "dag_inv d" and ord: "set (sc_ord e) = dom (dg_nodes d)"
    and n: "dg_nodes d i = Some n" "nd_Status n = StatusActive"
  shows "dg_nodes (updateNodeCounts e p d) i =
    Some (node_counted e (Outstanding (sc_outstanding2 e) p) (Diverged (sc_diverged e) p) n)"
proof -
  let ?out = "Outstanding (sc_outstanding2 e) p" and ?div = "Diverged (sc_diverged e) p"
  have id: "nd_ID n = i" using inv n by (simp add: dag_inv_def)
  have mem: "n \<in> set (ActiveNodes d)" using n by (simp add: ActiveNodes_list(1) [OF inv] id)
  have "dg_nodes (fold (count_node e ?out ?div) (ActiveNodes d) d) (nd_ID n) = Some (node_counted e ?out ?div n)"
  proof (rule count_visit.visited [OF ord ActiveNodes_list(2) [OF inv] mem, where m = n])
    show "nd_Status (node_counted e ?out ?div n) \<noteq> StatusPending"
      using node_counted_status [OF n(2), of e ?out ?div] by auto
    show "set (sc_ord e) = dom (dg_nodes d') \<Longrightarrow> dg_nodes d' (nd_ID n) = Some n \<Longrightarrow>
        dg_nodes (count_node e ?out ?div n d') (nd_ID n) = Some (node_counted e ?out ?div n)" for d'
      by (rule count_effect) (simp_all add: n(2))
  qed (simp_all add: id n)
  moreover have "ActiveNodes d \<noteq> []" using mem by auto
  ultimately show ?thesis by (simp add: updateNodeCounts_def id)
qed

lemma updateNodeCounts_keeps: "set (sc_ord e) = dom (dg_nodes d) \<Longrightarrow> keeps_plan d (updateNodeCounts e p d)"
  by (simp add: updateNodeCounts_def Let_def keeps_plan_refl count_visit.visits_keep)

lemma note_all_keeps: "set (sc_ord e) = dom (dg_nodes d) \<Longrightarrow> keeps_plan d (note_all e ids d)"
  unfolding note_all_def by (rule progress_visit.visits_keep)

lemma node_through_notes:
  assumes ord: "set (sc_ord e) = dom (dg_nodes d)" and "distinct ids"
    and n: "dg_nodes d i = Some n" "nd_Status n = StatusActive"
  shows "dg_nodes (note_all e ids d) i = Some (if i \<in> set ids then note_progress (sc_progress e i) n else n)"
proof (cases "i \<in> set ids")
  case True
  have "dg_nodes (fold (\<lambda>i d. snd (NoteProgress (sc_ord e) (sc_progress e i) i d)) ids d) i =
      Some (note_progress (sc_progress e i) n)"
  proof (rule progress_visit.visited [OF ord _ True])
    show "set (sc_ord e) = dom (dg_nodes d') \<Longrightarrow> dg_nodes d' i = Some n \<Longrightarrow>
        dg_nodes (snd (NoteProgress (sc_ord e) (sc_progress e i) i d')) i = Some (note_progress (sc_progress e i) n)" for d'
      unfolding NoteProgress_def by (rule Update_get) (simp_all add: note_progress_def n(2))
  qed (simp_all add: assms(2) n note_progress_def)
  then show ?thesis using True by (simp add: note_all_def)
next
  case False
  then show ?thesis using progress_visit.not_visited [OF ord _ n(1), of ids] n(2) by (simp add: note_all_def)
qed

definition stall_noted :: "ScanEnv \<Rightarrow> ReconcileConfig \<Rightarrow> Node \<Rightarrow> Node" where
  "stall_noted e cfg n = (if nd_Status n = StatusActive \<and> is_stalled cfg (sc_now e) n
     then note_stall (sc_stall e (nd_ID n)) n else n)"

lemma detectStalls_eq: "detectStalls e cfg b d =
    (int (length (filter (is_stalled cfg (sc_now e)) (ActiveNodes d))),
     foldl AppendEvent b (map (stall_event (sc_now e)) (filter (is_stalled cfg (sc_now e)) (ActiveNodes d))),
     fold (stall_visit_node e cfg) (ActiveNodes d) d)"
  by (simp add: detectStalls_def stall_loop)

lemma node_through_stalls:
  assumes inv: "dag_inv d" and ord: "set (sc_ord e) = dom (dg_nodes d)"
    and n: "dg_nodes d i = Some n" "nd_Status n \<noteq> StatusPending"
  shows "dg_nodes (fold (stall_visit_node e cfg) (ActiveNodes d) d) i = Some (stall_noted e cfg n)"
proof -
  have id: "nd_ID n = i" using inv n by (simp add: dag_inv_def)
  show ?thesis
  proof (cases "nd_Status n = StatusActive")
    case True
    have mem: "n \<in> set (ActiveNodes d)" using n True by (simp add: ActiveNodes_list(1) [OF inv] id)
    have "dg_nodes (fold (stall_visit_node e cfg) (ActiveNodes d) d) (nd_ID n) = Some (stall_noted e cfg n)"
    proof (rule stall_visit.visited [OF ord ActiveNodes_list(2) [OF inv] mem, where m = n])
      show "set (sc_ord e) = dom (dg_nodes d') \<Longrightarrow> dg_nodes d' (nd_ID n) = Some n \<Longrightarrow>
          dg_nodes (stall_visit_node e cfg n d') (nd_ID n) = Some (stall_noted e cfg n)" for d'
        by (auto simp: stall_visit_node_def stall_noted_def True NoteStall_def note_stall_def intro!: Update_get [THEN trans])
    qed (simp_all add: id n stall_noted_def note_stall_def)
    then show ?thesis by (simp add: id)
  next
    case False
    then have "i \<notin> nd_ID ` set (ActiveNodes d)"
      using n(1) by (auto simp: ActiveNodes_list(1) [OF inv])
    then show ?thesis using stall_visit.not_visited [OF ord _ n] False by (simp add: stall_noted_def)
  qed
qed

section \<open>The outcome of a scan\<close>

text \<open>The orders of a scan list the keys of the maps it goes through.\<close>

definition lists_tiles :: "WCoord list \<Rightarrow> PredictedState \<Rightarrow> bool" where
  "lists_tiles cs p \<longleftrightarrow> distinct cs \<and> set cs = dom (ps_tiles p)"

definition scan_env_ok :: "ScanEnv \<Rightarrow> PredictedState \<Rightarrow> DAG \<Rightarrow> bool" where
  "scan_env_ok e p d \<longleftrightarrow> lists_tiles (sc_outstanding1 e) p \<and> lists_tiles (sc_outstanding2 e) p \<and>
     lists_tiles (sc_diverged e) p \<and> set (sc_ord e) = dom (dg_nodes d) \<and> distinct (sc_progressed e) \<and>
     tp_PlanNodeID ` ran (ps_tiles p) \<subseteq> set (sc_progressed e)"

definition progressed_nodes :: "TopologyOverlay option \<Rightarrow> PredictedState \<Rightarrow> string set" where
  "progressed_nodes topo p = {i. i \<noteq> [] \<and> (\<exists>c t. ps_tiles p c = Some t \<and> tp_PlanNodeID t = i \<and>
     tp_Status t = PredictionOutstanding \<and> isConfirmed topo t)}"

lemma confirm_open_dom: "dom (confirm_open e topo m) = dom m"
  by (auto simp: confirm_open_def dom_def)

lemma scan_eq:
  assumes "pred_inv p" and "scan_env_ok e p d" and "rs_predicted s = Some p" and "rs_dag s = Some d"
  obtains p' ids where "pred_inv p'" and "ps_tiles p' = confirm_open e (rs_topology s) (ps_tiles p)"
    and "distinct ids" and "set ids = progressed_nodes (rs_topology s) p"
    and "scan e s = Some (let d2 = updateNodeCounts e p' (note_all e ids d) in
      s\<lparr>rs_predicted := Some p', rs_dag := Some (fold (stall_visit_node e (rs_cfg s)) (ActiveNodes d2) d2),
        rs_events := foldl AppendEvent (rs_events s)
          (map (stall_event (sc_now e)) (filter (is_stalled (rs_cfg s) (sc_now e)) (ActiveNodes d2)))\<rparr>)"
proof -
  obtain k S p' where f: "fold (confirm_one (sc_confirm e) (rs_topology s)) (Outstanding (sc_outstanding1 e) p) (0, {}, p) = (k, S, p')"
    by (metis prod_cases3)
  have ord: "distinct (sc_outstanding1 e)" "set (sc_outstanding1 e) = dom (ps_tiles p)"
    using assms(2) by (simp_all add: scan_env_ok_def lists_tiles_def)
  note ph = confirm_phase [OF assms(1) ord f]
  let ?ids = "filter (\<lambda>i. i \<in> S) (sc_progressed e)"
  have S: "S = progressed_nodes (rs_topology s) p" by (simp add: ph(3) progressed_nodes_def)
  have "S \<subseteq> tp_PlanNodeID ` ran (ps_tiles p)" unfolding ph(3) by (auto intro: ranI)
  then have "S \<subseteq> set (sc_progressed e)" using assms(2) by (auto simp: scan_env_ok_def)
  then have ids: "set ?ids = progressed_nodes (rs_topology s) p" by (auto simp flip: S)
  show ?thesis
  proof (rule that [OF ph(1,2) _ ids])
    show "distinct ?ids" using assms(2) by (simp add: scan_env_ok_def)
  qed (simp add: scan_def assms(3,4) f Let_def detectStalls_eq)
qed

text \<open>What the bookkeeping sees of a node: no prediction left to be confirmed.\<close>

lemma counts_zero:
  assumes "lists_tiles (sc_outstanding2 e) p" and "lists_tiles (sc_diverged e) p" and "pred_inv p"
  shows "count_for i (Outstanding (sc_outstanding2 e) p) + count_for i (Diverged (sc_diverged e) p) = 0 \<longleftrightarrow>
    (\<forall>c t. ps_tiles p c = Some t \<and> tp_PlanNodeID t = i \<longrightarrow> tp_Status t = PredictionConfirmed)"
proof -
  have fin: "finite {c. \<exists>t. ps_tiles p c = Some t \<and> P t}" for P
    by (rule finite_subset [of _ "dom (ps_tiles p)"]) (use assms(3) in \<open>auto simp: pred_inv_def counts_ok_def\<close>)
  have count: "count_for i (with_status st ord p) = 0 \<longleftrightarrow>
      (\<forall>c t. ps_tiles p c = Some t \<and> tp_PlanNodeID t = i \<longrightarrow> tp_Status t \<noteq> st)" if "lists_tiles ord p" for st ord
    using length_with_status [of ord p "\<lambda>t. tp_PlanNodeID t = i" st] that fin
    by (auto simp: count_for_def lists_tiles_def)
  have "0 \<le> count_for i ts" for ts by (simp add: count_for_def)
  then have "count_for i (Outstanding (sc_outstanding2 e) p) + count_for i (Diverged (sc_diverged e) p) = 0 \<longleftrightarrow>
      count_for i (Outstanding (sc_outstanding2 e) p) = 0 \<and> count_for i (Diverged (sc_diverged e) p) = 0"
    by (simp add: add_nonneg_eq_0_iff)
  also have "\<dots> \<longleftrightarrow> (\<forall>c t. ps_tiles p c = Some t \<and> tp_PlanNodeID t = i \<longrightarrow>
      tp_Status t \<noteq> PredictionOutstanding \<and> tp_Status t \<noteq> PredictionDiverged)"
    unfolding Outstanding_def Diverged_def count [OF assms(1)] count [OF assms(2)] by blast
  also have "\<dots> \<longleftrightarrow> (\<forall>c t. ps_tiles p c = Some t \<and> tp_PlanNodeID t = i \<longrightarrow> tp_Status t = PredictionConfirmed)"
    using PredictionStatus.exhaust by (metis PredictionStatus.distinct(1,3,5))
  finally show ?thesis .
qed

lemma node_counted_outcome:
  assumes "0 \<le> nd_PredictionCount n" and "nd_Status n = StatusActive"
    and "lists_tiles (sc_outstanding2 e) p" and "lists_tiles (sc_diverged e) p" and "pred_inv p"
  shows "nd_Status (node_counted e (Outstanding (sc_outstanding2 e) p) (Diverged (sc_diverged e) p) n) =
    (if nd_PredictionCount n \<noteq> 0 \<and>
       (\<forall>c t. ps_tiles p c = Some t \<and> tp_PlanNodeID t = nd_ID n \<longrightarrow> tp_Status t = PredictionConfirmed)
     then StatusDone else StatusActive)"
proof -
  let ?o = "count_for (nd_ID n) (Outstanding (sc_outstanding2 e) p)" and ?v = "count_for (nd_ID n) (Diverged (sc_diverged e) p)"
  have "0 \<le> ?o" "0 \<le> ?v" by (simp_all add: count_for_def)
  then have "nd_PredictionCount n \<noteq> 0 \<Longrightarrow> nd_PredictionCount n \<le> confirmed_count (Outstanding (sc_outstanding2 e) p) (Diverged (sc_diverged e) p) n \<longleftrightarrow>
      ?o + ?v = 0"
    using assms(1) by (auto simp: confirmed_count_def Let_def)
  then show ?thesis
    using assms(2) unfolding counts_zero [OF assms(3-5), of "nd_ID n", symmetric]
    by (simp add: node_counted_def Let_def set_counts_def set_done_def IsTerminal_def)
qed

text \<open>An Active node through a whole scan.\<close>

lemma scan_node:
  assumes p: "pred_inv p" and d: "dag_inv d" and ok: "scan_env_ok e p d"
    and s: "rs_predicted s = Some p" "rs_dag s = Some d"
    and n: "dg_nodes d i = Some n" "nd_Status n = StatusActive" and "0 \<le> nd_PredictionCount n"
  obtains s' p' d' m where "scan e s = Some s'" and "rs_predicted s' = Some p'" and "pred_inv p'"
    and "ps_tiles p' = confirm_open e (rs_topology s) (ps_tiles p)" and "rs_dag s' = Some d'" and "dag_inv d'"
    and "progress d d'" and "dg_nodes d' i = Some m" and "nd_PredictionCount m = nd_PredictionCount n"
    and "nd_Status m = (if nd_PredictionCount n \<noteq> 0 \<and>
       (\<forall>c t. ps_tiles p' c = Some t \<and> tp_PlanNodeID t = i \<longrightarrow> tp_Status t = PredictionConfirmed)
     then StatusDone else StatusActive)"
proof -
  obtain p' ids where p': "pred_inv p'" "ps_tiles p' = confirm_open e (rs_topology s) (ps_tiles p)"
    and ids: "distinct ids" "set ids = progressed_nodes (rs_topology s) p"
    and scan: "scan e s = Some (let d2 = updateNodeCounts e p' (note_all e ids d) in
      s\<lparr>rs_predicted := Some p', rs_dag := Some (fold (stall_visit_node e (rs_cfg s)) (ActiveNodes d2) d2),
        rs_events := foldl AppendEvent (rs_events s)
          (map (stall_event (sc_now e)) (filter (is_stalled (rs_cfg s) (sc_now e)) (ActiveNodes d2)))\<rparr>)"
    by (rule scan_eq [OF p ok s])
  define d1 where "d1 = note_all e ids d"
  define d2 where "d2 = updateNodeCounts e p' d1"
  define d3 where "d3 = fold (stall_visit_node e (rs_cfg s)) (ActiveNodes d2) d2"
  define n1 where "n1 = (if i \<in> set ids then note_progress (sc_progress e i) n else n)"
  define n2 where "n2 = node_counted e (Outstanding (sc_outstanding2 e) p') (Diverged (sc_diverged e) p') n1"
  have ord: "set (sc_ord e) = dom (dg_nodes d)" using ok by (simp add: scan_env_ok_def)
  have k1: "keeps_plan d d1" unfolding d1_def by (rule note_all_keeps [OF ord])
  have ord1: "set (sc_ord e) = dom (dg_nodes d1)" by (rule keeps_ord [OF ord k1])
  have k2: "keeps_plan d1 d2" unfolding d2_def by (rule updateNodeCounts_keeps [OF ord1])
  have ord2: "set (sc_ord e) = dom (dg_nodes d2)" by (rule keeps_ord [OF ord1 k2])
  have k3: "keeps_plan d2 d3" unfolding d3_def by (rule stall_visit.visits_keep [OF ord2])
  have inv1: "dag_inv d1" and inv2: "dag_inv d2" using d k1 k2 by (simp_all add: keeps_plan_def)
  have a1: "dg_nodes d1 i = Some n1" unfolding d1_def n1_def by (rule node_through_notes [OF ord ids(1) n])
  have n1: "nd_Status n1 = StatusActive" "nd_PredictionCount n1 = nd_PredictionCount n"
    using n(2) by (simp_all add: n1_def note_progress_def)
  have id: "nd_ID n1 = i" using inv1 a1 by (simp add: dag_inv_def)
  have a2: "dg_nodes d2 i = Some n2" unfolding d2_def n2_def by (rule node_through_counts [OF inv1 ord1 a1 n1(1)])
  have st2: "nd_Status n2 \<noteq> StatusPending" using node_counted_status [OF n1(1)] unfolding n2_def by (metis insert_iff Status.distinct singletonD)
  have a3: "dg_nodes d3 i = Some (stall_noted e (rs_cfg s) n2)" unfolding d3_def by (rule node_through_stalls [OF inv2 ord2 a2 st2])
  have tiles: "lists_tiles (sc_outstanding2 e) p'" "lists_tiles (sc_diverged e) p'"
    using ok by (simp_all add: scan_env_ok_def lists_tiles_def p'(2) confirm_open_dom)
  have "nd_PredictionCount n2 = nd_PredictionCount n"
    by (simp add: n2_def node_counted_def Let_def set_counts_def set_done_def n1(2))
  then have cnt: "nd_PredictionCount (stall_noted e (rs_cfg s) n2) = nd_PredictionCount n"
    by (simp add: stall_noted_def note_stall_def)
  have "nd_Status (stall_noted e (rs_cfg s) n2) = nd_Status n2" by (simp add: stall_noted_def note_stall_def)
  also have "\<dots> = (if nd_PredictionCount n \<noteq> 0 \<and>
       (\<forall>c t. ps_tiles p' c = Some t \<and> tp_PlanNodeID t = i \<longrightarrow> tp_Status t = PredictionConfirmed)
     then StatusDone else StatusActive)"
    unfolding n2_def by (rule node_counted_outcome [OF _ n1(1) tiles p'(1), unfolded n1(2) id]) (use assms(8) in simp)
  finally have st: "nd_Status (stall_noted e (rs_cfg s) n2) = \<dots>" .
  have k: "keeps_plan d d3" using keeps_plan_trans [OF keeps_plan_trans [OF k1 k2] k3] .
  show ?thesis
    by (rule that [OF scan _ p'(1,2) _ _ _ a3 cnt st])
      (use k d in \<open>simp_all add: Let_def d1_def [symmetric] d2_def [symmetric] d3_def [symmetric] keeps_plan_def\<close>)
qed

text \<open>Any scan with a plan: the tiles, the plan and the events.\<close>

lemma scan_keeps:
  assumes p: "pred_inv p" and d: "dag_inv d" and ok: "scan_env_ok e p d"
    and s: "rs_predicted s = Some p" "rs_dag s = Some d"
  obtains s' p' d' where "scan e s = Some s'" and "rs_predicted s' = Some p'" and "pred_inv p'"
    and "ps_tiles p' = confirm_open e (rs_topology s) (ps_tiles p)" and "rs_dag s' = Some d'" and "dag_inv d'"
    and "progress d d'" and "rs_topology s' = rs_topology s"
proof -
  obtain p' ids where p': "pred_inv p'" "ps_tiles p' = confirm_open e (rs_topology s) (ps_tiles p)"
    and scan: "scan e s = Some (let d2 = updateNodeCounts e p' (note_all e ids d) in
      s\<lparr>rs_predicted := Some p', rs_dag := Some (fold (stall_visit_node e (rs_cfg s)) (ActiveNodes d2) d2),
        rs_events := foldl AppendEvent (rs_events s)
          (map (stall_event (sc_now e)) (filter (is_stalled (rs_cfg s) (sc_now e)) (ActiveNodes d2)))\<rparr>)"
    by (rule scan_eq [OF p ok s])
  have ord: "set (sc_ord e) = dom (dg_nodes d)" using ok by (simp add: scan_env_ok_def)
  note k1 = note_all_keeps [OF ord, of ids]
  note k2 = keeps_plan_trans [OF k1 updateNodeCounts_keeps [OF keeps_ord [OF ord k1], of p']]
  let ?d2 = "updateNodeCounts e p' (note_all e ids d)"
  let ?d3 = "fold (stall_visit_node e (rs_cfg s)) (ActiveNodes ?d2) ?d2"
  have k: "keeps_plan d ?d3" by (rule keeps_plan_trans [OF k2 stall_visit.visits_keep [OF keeps_ord [OF ord k2]]])
  show ?thesis
    by (rule that [OF scan _ p' _ _ _, of ?d3]) (use k d in \<open>simp_all add: Let_def keeps_plan_def\<close>)
qed

lemma retire_keeps:
  assumes "pred_inv p" and "lists_tiles ord p" and "rs_predicted s = Some p"
  obtains p' where "retire now ord s = s\<lparr>rs_predicted := Some p'\<rparr>" and "pred_inv p'"
    and "ps_tiles p' = ps_tiles p |` (- retired_tiles (int now - rc_RetainConfirmed (rs_cfg s)) (ps_tiles p))"
  using RetireConfirmedOlderThan_correct [OF assms(1), of ord] assms(2,3)
  by (simp add: retire_def lists_tiles_def)

section \<open>Properties of a scan\<close>

text \<open>
  C16: A scan confirms exactly the Outstanding predictions whose tile is open in the overlay, and leaves
  every other prediction as it is; then it makes an Active node Done exactly when the node has
  predictions and none of those that still stand in its name is Outstanding or Diverged. Otherwise the
  node stays Active: a scan never fails a node.
\<close>

theorem scan_decides_done:
  assumes "pred_inv p" and "dag_inv d" and "scan_env_ok e p d" and "rs_predicted s = Some p" and "rs_dag s = Some d"
    and "Get d i = Some n" and "nd_Status n = StatusActive" and "0 \<le> nd_PredictionCount n"
  shows "\<exists>s' p' d' m. scan e s = Some s' \<and> rs_predicted s' = Some p' \<and> rs_dag s' = Some d' \<and> Get d' i = Some m \<and>
    (\<forall>c. GetPrediction p' c = map_option (\<lambda>t. if tp_Status t = PredictionOutstanding \<and> isConfirmed (rs_topology s) t
       then t\<lparr>tp_Status := PredictionConfirmed, tp_UpdatedAt := sc_confirm e (tp_Coord t)\<rparr> else t) (GetPrediction p c)) \<and>
    nd_Status m = (if nd_PredictionCount n \<noteq> 0 \<and>
       (\<forall>c t. GetPrediction p' c = Some t \<and> tp_PlanNodeID t = i \<longrightarrow> tp_Status t = PredictionConfirmed)
     then StatusDone else StatusActive)"
proof -
  have n: "dg_nodes d i = Some n" using assms(6) by (simp add: Get_def)
  show ?thesis
    unfolding GetPrediction_def Get_def as_confirmed_def [symmetric] confirm_open_def [symmetric]
    by (rule scan_node [OF assms(1-5) n assms(7,8)]) (metis (no_types))
qed

text \<open>
  A node that has lost its predictions is made Done without any observation: the bookkeeping
  counts what is neither Outstanding nor Diverged as confirmed, so when every tile of an Active node
  was predicted again by another node (or its predictions were removed), the next scan makes it Done,
  even when there is no overlay to read at all.
\<close>

theorem lost_predictions_make_done:
  assumes "pred_inv p" and "dag_inv d" and "scan_env_ok e p d" and "rs_predicted s = Some p" and "rs_dag s = Some d"
    and "Get d i = Some n" and "nd_Status n = StatusActive" and "0 < nd_PredictionCount n"
    and "\<And>c t. GetPrediction p c = Some t \<Longrightarrow> tp_PlanNodeID t \<noteq> i" and "rs_topology s = None"
  shows "\<exists>s' d' m. scan e s = Some s' \<and> rs_dag s' = Some d' \<and> Get d' i = Some m \<and> nd_Status m = StatusDone"
proof -
  have n: "dg_nodes d i = Some n" using assms(6) by (simp add: Get_def)
  have "0 \<le> nd_PredictionCount n" using assms(8) by simp
  then show ?thesis
  proof (rule scan_node [OF assms(1-5) n assms(7)])
    fix s' p' d' m
    assume r: "scan e s = Some s'" "rs_dag s' = Some d'" "dg_nodes d' i = Some m"
      and tiles: "ps_tiles p' = confirm_open e (rs_topology s) (ps_tiles p)"
      and st: "nd_Status m = (if nd_PredictionCount n \<noteq> 0 \<and>
         (\<forall>c t. ps_tiles p' c = Some t \<and> tp_PlanNodeID t = i \<longrightarrow> tp_Status t = PredictionConfirmed)
       then StatusDone else StatusActive)"
    have "ps_tiles p' = ps_tiles p"
      using assms(10) by (auto simp: tiles confirm_open_def isConfirmed_def option.map_ident fun_eq_iff)
    then have "nd_Status m = StatusDone" using st assms(8,9) by (auto simp: GetPrediction_def)
    then show ?thesis using r by (auto simp: Get_def)
  qed
qed

section \<open>From dispatch to Done\<close>

text \<open>The tiles the overlay shows open.\<close>

definition open_tiles :: "TopologyOverlay option \<Rightarrow> WCoord set" where
  "open_tiles topo = {c. \<exists>t. topo = Some t \<and> GetTile t (wc_X c) (wc_Y c) (wc_Z c) = Inr True}"

lemma isConfirmed_open: "isConfirmed topo t \<longleftrightarrow> tp_Coord t \<in> open_tiles topo"
  by (auto simp: isConfirmed_def open_tiles_def split: option.splits sum.splits)

text \<open>
  A run while the node \<open>i\<close> with region \<open>R\<close> is watched: scans (the set collects the tiles the overlay showed
  open at a scan), new overlays, retirements, predictions for tiles outside \<open>R\<close>, and steps of the plan that do not
  touch the node.
\<close>

inductive watch :: "string \<Rightarrow> WCoord set \<Rightarrow> ReconcileState \<Rightarrow> WCoord set \<Rightarrow> ReconcileState \<Rightarrow> bool" for i R s0 where
  start: "watch i R s0 {} s0"
| scan: "watch i R s0 seen s \<Longrightarrow> rs_predicted s = Some p \<Longrightarrow> rs_dag s = Some d \<Longrightarrow> scan_env_ok e p d \<Longrightarrow>
    scan e s = Some s' \<Longrightarrow> watch i R s0 (seen \<union> open_tiles (rs_topology s)) s'"
| observe: "watch i R s0 seen s \<Longrightarrow> watch i R s0 seen (s\<lparr>rs_topology := topo\<rparr>)"
| retire: "watch i R s0 seen s \<Longrightarrow> rs_predicted s = Some p \<Longrightarrow> lists_tiles ord p \<Longrightarrow>
    watch i R s0 seen (retire now ord s)"
| predict: "watch i R s0 seen s \<Longrightarrow> rs_predicted s = Some p \<Longrightarrow> tp_Coord pred \<notin> R \<Longrightarrow>
    watch i R s0 seen (s\<lparr>rs_predicted := Some (Predict now pred p)\<rparr>)"
| plan: "watch i R s0 seen s \<Longrightarrow> rs_dag s = Some d \<Longrightarrow> dag_step d d' \<Longrightarrow> Get d' i = Get d i \<Longrightarrow>
    watch i R s0 seen (s\<lparr>rs_dag := Some d'\<rparr>)"

definition waits_for :: "string \<Rightarrow> (WCoord \<rightharpoonup> TilePrediction) \<Rightarrow> WCoord \<Rightarrow> bool" where
  "waits_for i m c \<longleftrightarrow> (\<exists>t. m c = Some t \<and> tp_PlanNodeID t = i \<and> tp_Status t = PredictionOutstanding)"

text \<open>The state a watched node is in: still Active, with the count \<open>k\<close> and every tile awaited or seen; or finished.\<close>

definition watched_node :: "string \<Rightarrow> WCoord set \<Rightarrow> int \<Rightarrow> WCoord set \<Rightarrow> PredictedState \<Rightarrow> Node \<Rightarrow> bool" where
  "watched_node i R k seen p n \<longleftrightarrow>
     nd_Status n = StatusActive \<and> nd_PredictionCount n = k \<and> (\<forall>c\<in>R. c \<in> seen \<or> waits_for i (ps_tiles p) c) \<or>
     IsTerminal n \<and> k \<noteq> 0 \<and> R \<subseteq> seen"

definition watched :: "string \<Rightarrow> WCoord set \<Rightarrow> int \<Rightarrow> WCoord set \<Rightarrow> ReconcileState \<Rightarrow> bool" where
  "watched i R k seen s \<longleftrightarrow> (\<exists>p d n. rs_predicted s = Some p \<and> pred_inv p \<and> rs_dag s = Some d \<and> dag_inv d \<and>
     dg_nodes d i = Some n \<and> watched_node i R k seen p n)"

lemma watchedI:
  "rs_predicted s = Some p \<Longrightarrow> pred_inv p \<Longrightarrow> rs_dag s = Some d \<Longrightarrow> dag_inv d \<Longrightarrow> dg_nodes d i = Some n \<Longrightarrow>
     watched_node i R k seen p n \<Longrightarrow> watched i R k seen s"
  by (auto simp: watched_def)

lemma watched_scan:
  assumes w: "watched i R k seen s" and "0 \<le> k" and s: "rs_predicted s = Some p" "rs_dag s = Some d"
    and ok: "scan_env_ok e p d" and run: "scan e s = Some s'"
  shows "watched i R k (seen \<union> open_tiles (rs_topology s)) s'"
proof -
  obtain n where inv: "pred_inv p" "dag_inv d" and n: "dg_nodes d i = Some n" and node: "watched_node i R k seen p n"
    using w s by (auto simp: watched_def)
  from node [unfolded watched_node_def] show ?thesis
  proof
    assume fin: "IsTerminal n \<and> k \<noteq> 0 \<and> R \<subseteq> seen"
    obtain p' d' where r: "rs_predicted s' = Some p'" "pred_inv p'" "rs_dag s' = Some d'" "dag_inv d'" "progress d d'"
      by (rule scan_keeps [OF inv ok s]) (use run in simp)
    then obtain m where m: "dg_nodes d' i = Some m" "advances n m" using n by (auto simp: progress_def)
    have "IsTerminal m" using advances_terminal [OF m(2)] fin by (simp add: IsTerminal_def)
    then show ?thesis using fin by (intro watchedI [OF r(1-4) m(1)]) (auto simp: watched_node_def)
  next
    assume act: "nd_Status n = StatusActive \<and> nd_PredictionCount n = k \<and> (\<forall>c\<in>R. c \<in> seen \<or> waits_for i (ps_tiles p) c)"
    obtain p' d' m where r: "rs_predicted s' = Some p'" "pred_inv p'" "rs_dag s' = Some d'" "dag_inv d'" "dg_nodes d' i = Some m"
      and tiles: "ps_tiles p' = confirm_open e (rs_topology s) (ps_tiles p)"
      and m: "nd_PredictionCount m = k" "nd_Status m = (if k \<noteq> 0 \<and>
        (\<forall>c t. ps_tiles p' c = Some t \<and> tp_PlanNodeID t = i \<longrightarrow> tp_Status t = PredictionConfirmed) then StatusDone else StatusActive)"
      by (rule scan_node [OF inv ok s n]) (use run act assms(2) in simp_all)
    have tile: "c \<in> seen \<union> open_tiles (rs_topology s) \<or> waits_for i (ps_tiles p') c" if cR: "c \<in> R" for c
    proof (cases "c \<in> seen")
      case False
      then obtain t where t: "ps_tiles p c = Some t" "tp_PlanNodeID t = i" "tp_Status t = PredictionOutstanding"
        using act cR by (auto simp: waits_for_def)
      have "tp_Coord t = c" using inv(1) t(1) by (auto simp: pred_inv_def counts_ok_def)
      then show ?thesis using t by (auto simp: tiles confirm_open_def waits_for_def isConfirmed_open)
    qed simp
    show ?thesis
    proof (rule watchedI [OF r])
      show "watched_node i R k (seen \<union> open_tiles (rs_topology s)) p' m"
      proof (cases "nd_Status m = StatusActive")
        case True
        then show ?thesis using tile m(1) by (simp add: watched_node_def)
      next
        case False
        then have fin: "nd_Status m = StatusDone" "k \<noteq> 0" and all: "\<not> waits_for i (ps_tiles p') c" for c
          using m(2) by (auto simp: waits_for_def split: if_splits)
        then show ?thesis using tile by (auto simp: watched_node_def IsTerminal_def)
      qed
    qed
  qed
qed

lemma watched_run:
  "watch i R s0 seen s \<Longrightarrow> watched i R k {} s0 \<Longrightarrow> 0 \<le> k \<Longrightarrow> watched i R k seen s"
proof (induction rule: watch.induct)
  case start
  then show ?case by simp
next
  case (scan seen s p d e s')
  then show ?case by (intro watched_scan) simp_all
next
  case (observe seen s topo)
  then show ?case by (simp add: watched_def)
next
  case (retire seen s p ord now)
  then obtain d n where inv: "pred_inv p" "rs_dag s = Some d" "dag_inv d" "dg_nodes d i = Some n" "watched_node i R k seen p n"
    by (auto simp: watched_def)
  obtain p' where p': "retire now ord s = s\<lparr>rs_predicted := Some p'\<rparr>" "pred_inv p'"
    "ps_tiles p' = ps_tiles p |` (- retired_tiles (int now - rc_RetainConfirmed (rs_cfg s)) (ps_tiles p))"
    by (rule retire_keeps [OF inv(1) retire.hyps(3,2)])
  have "waits_for i (ps_tiles p') c" if "waits_for i (ps_tiles p) c" for c
    using that by (auto simp: p'(3) waits_for_def retired_tiles_def)
  then have "watched_node i R k seen p' n" using inv(5) by (auto simp: watched_node_def)
  then show ?case using inv p' by (intro watchedI [of _ p']) simp_all
next
  case (predict seen s p pred now)
  then obtain d n where inv: "pred_inv p" "rs_dag s = Some d" "dag_inv d" "dg_nodes d i = Some n" "watched_node i R k seen p n"
    by (auto simp: watched_def)
  have "watched_node i R k seen (Predict now pred p) n"
    using inv(5) predict.hyps(3) by (auto simp: watched_node_def waits_for_def Predict_tiles)
  then show ?case using inv Predict_inv [OF inv(1)] by (intro watchedI [of _ "Predict now pred p"]) simp_all
next
  case (plan seen s d d')
  then show ?case using dag_step_inv [of d d'] by (auto simp: watched_def Get_def)
qed

text \<open>
  A dig that was just taken is watched, from any reconciler state that shares the executor's plan and
  predictions.
\<close>

lemma dispatched_dig_watched:
  assumes "set (ee_ord e) = dom (dg_nodes (ex_dag x))" and "dag_inv (ex_dag x)"
    and "Get (ex_dag x) (nd_ID n) = Some n" and "nd_Status n = StatusReady" and "ac_Type (nd_Action n) = ''dig''"
    and "dig_taken (dig_reply e n)" and "ex_predicted x = Some p" and "pred_inv p"
    and "executeNode e n x = Some x'" and "rs_predicted s0 = ex_predicted x'" and "rs_dag s0 = Some (ex_dag x')"
  shows "watched (nd_ID n) (region_tiles (ac_Region (nd_Action n))) (region_size (ac_Region (nd_Action n))) {} s0"
proof -
  obtain m p' where m: "Get (ex_dag x') (nd_ID n) = Some m" "nd_Status m = StatusActive" "ex_predicted x' = Some p'"
    "nd_PredictionCount m = region_size (ac_Region (nd_Action n))" "pred_inv p'"
    and tiles: "\<And>c. c \<in> region_tiles (ac_Region (nd_Action n)) \<Longrightarrow> ps_tiles p' c = Some (written e n c)"
    using dispatch_result [OF assms(1,3,4,9)] assms(5-8) by (auto simp: GetPrediction_def)
  have "dag_inv (ex_dag x')" using executeNode_keeps_plan(1) [OF assms(1,9)] assms(2) by (simp add: keeps_plan_def)
  moreover have "waits_for (nd_ID n) (ps_tiles p') c" if "c \<in> region_tiles (ac_Region (nd_Action n))" for c
    using tiles [OF that] by (simp add: waits_for_def written_def dig_prediction_def Let_def)
  ultimately show ?thesis
    using m assms(10,11) by (intro watchedI [of _ p' "ex_dag x'" _ m]) (simp_all add: watched_node_def Get_def)
qed

text \<open>
  C3: Done means observed. From the dispatch of a dig that the plugin took, and through any run of
  scans, new overlays, retirements, predictions outside its region and work on other nodes: when the
  node is Done, every tile of its region was open in the overlay at some scan of the run.
\<close>

theorem done_means_observed:
  assumes "set (ee_ord e) = dom (dg_nodes (ex_dag x))" and "dag_inv (ex_dag x)"
    and "Get (ex_dag x) (nd_ID n) = Some n" and "nd_Status n = StatusReady" and "ac_Type (nd_Action n) = ''dig''"
    and "dig_taken (dig_reply e n)" and "ex_predicted x = Some p" and "pred_inv p"
    and "executeNode e n x = Some x'" and "rs_predicted s0 = ex_predicted x'" and "rs_dag s0 = Some (ex_dag x')"
    and "watch (nd_ID n) (region_tiles (ac_Region (nd_Action n))) s0 seen s"
    and "rs_dag s = Some d" and "Get d (nd_ID n) = Some m" and "nd_Status m = StatusDone"
  shows "region_tiles (ac_Region (nd_Action n)) \<subseteq> seen"
proof -
  have "0 \<le> region_size (ac_Region (nd_Action n))" by (simp add: region_size_def span_def)
  from watched_run [OF assms(12) dispatched_dig_watched [OF assms(1-11)] this] assms(13-15) show ?thesis
    by (auto simp: watched_def watched_node_def Get_def)
qed


section \<open>The event buffer\<close>

lemma AppendEvent_fold:
  "1 \<le> eb_cap b \<Longrightarrow> eb_events b = [] \<Longrightarrow>
     eb_events (foldl AppendEvent b es) = drop (length es - nat (eb_cap b)) es \<and> eb_cap (foldl AppendEvent b es) = eb_cap b"
proof (induction es rule: rev_induct)
  case (snoc e es)
  let ?b = "foldl AppendEvent b es" and ?c = "nat (eb_cap b)"
  have b: "eb_events ?b = drop (length es - ?c) es" "eb_cap ?b = eb_cap b" using snoc by simp_all
  show ?case
  proof (cases "length es < ?c")
    case True
    then have "int (length (eb_events ?b)) < eb_cap ?b" by (simp add: b)
    then show ?thesis using True by (simp add: AppendEvent_def [of ?b] b)
  next
    case False
    then have "length es - ?c < length es" "Suc (length es) - ?c = Suc (length es - ?c)" using snoc.prems(1) by auto
    then show ?thesis using False snoc.prems(1) by (simp add: AppendEvent_def [of ?b] b tl_drop drop_Suc)
  qed
qed simp

lemma RecentEvents_eq: "RecentEvents b k =
    take (if k \<le> 0 \<or> int (length (eb_events b)) < k then length (eb_events b) else nat k) (rev (eb_events b))"
proof (cases "eb_events b = []")
  case False
  let ?xs = "eb_events b"
  define n where "n = (if k \<le> 0 \<or> int (length ?xs) < k then length ?xs else nat k)"
  have n: "(if k \<le> 0 \<or> k > int (length ?xs) then int (length ?xs) else k) = int n" "n \<le> length ?xs"
    by (auto simp: n_def)
  have "map (\<lambda>i. ?xs ! nat i) (rev [int (length ?xs) - int n..int (length ?xs) - 1]) = take n (rev ?xs)"
    using n(2) by (intro nth_equalityI) (auto simp: rev_nth nat_diff_distrib of_nat_diff intro!: arg_cong [of _ _ "nth ?xs"])
  then show ?thesis using False n(1) by (simp add: RecentEvents_def Let_def n_def [symmetric])
qed (simp add: RecentEvents_def)

text \<open>
  The event buffer keeps the newest events and no others: after any sequence of appends to a new
  buffer it holds the last ones, at most its capacity (64 when none was given), in the order they came;
  and Recent gives the newest of them, newest first, all of them when it is asked for none or too many.
\<close>

theorem event_buffer_keeps_latest:
  "eb_events (foldl AppendEvent (NewEventBuffer c) es) = drop (length es - nat (if c \<le> 0 then 64 else c)) es \<and>
   RecentEvents (foldl AppendEvent (NewEventBuffer c) es) k =
     (let kept = min (length es) (nat (if c \<le> 0 then 64 else c))
      in take (if k \<le> 0 \<or> int kept < k then kept else nat k) (rev es))"
proof -
  let ?c = "if c \<le> 0 then 64 else c"
  have ev: "eb_events (foldl AppendEvent (NewEventBuffer c) es) = drop (length es - nat ?c) es"
    using AppendEvent_fold [of "NewEventBuffer c" es] by (simp add: NewEventBuffer_def)
  have "length (drop (length es - nat ?c) es) = min (length es) (nat ?c)" by simp
  moreover have "rev (drop (length es - nat ?c) es) = take (min (length es) (nat ?c)) (rev es)"
    by (simp add: rev_drop min_def)
  ultimately have "RecentEvents (foldl AppendEvent (NewEventBuffer c) es) k =
     (let kept = min (length es) (nat ?c) in take (if k \<le> 0 \<or> int kept < k then kept else nat k) (rev es))"
    unfolding RecentEvents_eq ev Let_def by (auto simp: min_def)
  then show ?thesis using ev by blast
qed

section \<open>Concrete runs\<close>

definition reconciler_on :: "PredictedState \<Rightarrow> TopologyOverlay option \<Rightarrow> DAG \<Rightarrow> ReconcileState" where
  "reconciler_on p t d = NewReconciler DefaultConfig (Some p) t (Some d)"

lemma reconciler_on_simps [simp]:
  "rs_predicted (reconciler_on p t d) = Some p" "rs_topology (reconciler_on p t d) = t" "rs_dag (reconciler_on p t d) = Some d"
  by (simp_all add: reconciler_on_def NewReconciler_def Let_def)

definition scan_over :: "WCoord list \<Rightarrow> ScanEnv" where
  "scan_over cs = \<lparr>sc_now = 20, sc_confirm = \<lambda>_. 21, sc_progress = \<lambda>_. 22, sc_done = \<lambda>_. 23, sc_stall = \<lambda>_. 24,
     sc_ord = [''d''], sc_progressed = [''d''], sc_outstanding1 = cs, sc_diverged = cs, sc_outstanding2 = cs\<rparr>"

definition active_dig :: "int \<Rightarrow> Node" where
  "active_dig k = (dig_node 0 0)\<lparr>nd_Status := StatusActive, nd_PredictionCount := k\<rparr>"

definition active_plan :: "int \<Rightarrow> DAG" where
  "active_plan k = \<lparr>dg_nodes = [''d'' \<mapsto> active_dig k], dg_insertOrder = [''d'']\<rparr>"

lemma active_plan_facts:
  "dag_inv (active_plan k)" "Get (active_plan k) ''d'' = Some (active_dig k)" "nd_Status (active_dig k) = StatusActive"
  "nd_PredictionCount (active_dig k) = k" "dom (dg_nodes (active_plan k)) = {''d''}"
  by (simp_all add: active_plan_def active_dig_def dig_node_simps dag_inv_def deps_done_def allDepsDoneLocked_def Get_def)

lemma scan_decides_done_witness:
  "\<exists>s' d' m. scan (scan_over [\<lparr>wc_X = 3, wc_Y = 0, wc_Z = 0\<rparr>])
     (reconciler_on (Predict 5 (example_prediction ''d'' 3) newPredictedState) None (active_plan 1)) = Some s' \<and>
     rs_dag s' = Some d' \<and> Get d' ''d'' = Some m \<and> nd_Status m = StatusActive"
proof -
  let ?c = "\<lparr>wc_X = 3, wc_Y = 0, wc_Z = 0\<rparr> :: WCoord" and ?p = "Predict 5 (example_prediction ''d'' 3) newPredictedState"
  let ?s = "reconciler_on ?p None (active_plan 1)"
  have inv: "pred_inv ?p" by (intro Predict_inv newPredictedState_inv)
  have tiles: "ps_tiles ?p = [?c \<mapsto> (example_prediction ''d'' 3)\<lparr>tp_PredictedAt := 5, tp_UpdatedAt := 5\<rparr>]"
    by (simp add: Predict_tiles newPredictedState_def example_prediction_def)
  have ok: "scan_env_ok (scan_over [?c]) ?p (active_plan 1)"
    unfolding scan_env_ok_def lists_tiles_def tiles
    by (simp add: scan_over_def active_plan_facts example_prediction_def)
  have "0 \<le> nd_PredictionCount (active_dig 1)" by (simp add: active_plan_facts)
  from scan_decides_done [OF inv active_plan_facts(1) ok reconciler_on_simps(1,3) active_plan_facts(2,3) this, of None,
      unfolded reconciler_on_simps]
  obtain s' p' d' m where r: "scan (scan_over [?c]) ?s = Some s'" "rs_dag s' = Some d'" "Get d' ''d'' = Some m"
    and p': "\<And>c. GetPrediction p' c = map_option (\<lambda>t. if tp_Status t = PredictionOutstanding \<and> isConfirmed None t
       then t\<lparr>tp_Status := PredictionConfirmed, tp_UpdatedAt := sc_confirm (scan_over [?c]) (tp_Coord t)\<rparr> else t) (GetPrediction ?p c)"
    and st: "nd_Status m = (if nd_PredictionCount (active_dig 1) \<noteq> 0 \<and>
       (\<forall>c t. GetPrediction p' c = Some t \<and> tp_PlanNodeID t = ''d'' \<longrightarrow> tp_Status t = PredictionConfirmed)
       then StatusDone else StatusActive)"
    by (elim exE conjE) blast
  have "GetPrediction p' ?c = Some ((example_prediction ''d'' 3)\<lparr>tp_PredictedAt := 5, tp_UpdatedAt := 5\<rparr>)"
    unfolding p' by (simp add: GetPrediction_def tiles isConfirmed_def)
  moreover have "tp_PlanNodeID ((example_prediction ''d'' 3)\<lparr>tp_PredictedAt := 5, tp_UpdatedAt := 5\<rparr>) = ''d''"
    "tp_Status ((example_prediction ''d'' 3)\<lparr>tp_PredictedAt := 5, tp_UpdatedAt := 5\<rparr>) \<noteq> PredictionConfirmed"
    by (simp_all add: example_prediction_def)
  ultimately have "\<not> (\<forall>c t. GetPrediction p' c = Some t \<and> tp_PlanNodeID t = ''d'' \<longrightarrow> tp_Status t = PredictionConfirmed)"
    by blast
  then have "nd_Status m = StatusActive" using st by simp
  with r show ?thesis by blast
qed

lemma lost_predictions_make_done_witness:
  "\<exists>s' d' m. scan (scan_over []) (reconciler_on newPredictedState None (active_plan 2)) = Some s' \<and>
     rs_dag s' = Some d' \<and> Get d' ''d'' = Some m \<and> nd_Status m = StatusDone"
proof (rule lost_predictions_make_done [OF newPredictedState_inv active_plan_facts(1) _ _ _ active_plan_facts(2,3)])
  show "scan_env_ok (scan_over []) newPredictedState (active_plan 2)"
    by (simp add: scan_env_ok_def scan_over_def lists_tiles_def newPredictedState_def active_plan_facts)
qed (simp_all add: active_plan_facts GetPrediction_def newPredictedState_def)


text \<open>A dig of two tiles, and an overlay that shows them open.\<close>

definition open_map :: TopologyOverlay where
  "open_map = \<lparr>ov_data = replicate 8 255, ov_known = replicate 8 255, ov_width = 8, ov_height = 8, ov_depth = 1,
     ov_totalTiles = 64, ov_openTileCount = 64, ov_closedTileCount = 0, ov_memoryBytes = 16\<rparr>"

lemma open_map_open: "\<lparr>wc_X = 4, wc_Y = 5, wc_Z = 0\<rparr> \<in> open_tiles (Some open_map)"
    "\<lparr>wc_X = 5, wc_Y = 5, wc_Z = 0\<rparr> \<in> open_tiles (Some open_map)"
proof -
  have "GetTile open_map 4 5 0 = Inr True" "GetTile open_map 5 5 0 = Inr True" by code_simp+
  then show "\<lparr>wc_X = 4, wc_Y = 5, wc_Z = 0\<rparr> \<in> open_tiles (Some open_map)"
    "\<lparr>wc_X = 5, wc_Y = 5, wc_Z = 0\<rparr> \<in> open_tiles (Some open_map)" by (simp_all add: open_tiles_def)
qed

lemma two_tiles: "region_tiles (ac_Region (nd_Action (dig_node 0 0))) =
    {\<lparr>wc_X = 4, wc_Y = 5, wc_Z = 0\<rparr>, \<lparr>wc_X = 5, wc_Y = 5, wc_Z = 0\<rparr>}"
proof -
  have "region_list (ac_Region (nd_Action (dig_node 0 0))) = [(4, 5, 0), (5, 5, 0)]"
    unfolding dig_node_simps by code_simp
  then show ?thesis by (simp flip: coord_region_list add: coord_def)
qed

lemma done_means_observed_witness:
  "\<exists>x' s0 s d m. executeNode accepting (dig_node 0 0) (dig_plan 0 0) = Some x' \<and>
     watch ''d'' (region_tiles (ac_Region (nd_Action (dig_node 0 0)))) s0 ({} \<union> open_tiles (Some open_map)) s \<and>
     rs_dag s = Some d \<and> Get d ''d'' = Some m \<and> nd_Status m = StatusDone \<and>
     region_tiles (ac_Region (nd_Action (dig_node 0 0))) \<subseteq> {} \<union> open_tiles (Some open_map)"
proof -
  let ?n = "dig_node 0 0" and ?x = "dig_plan 0 0" and ?R = "region_tiles (ac_Region (nd_Action (dig_node 0 0)))"
  let ?cs = "[\<lparr>wc_X = 4, wc_Y = 5, wc_Z = 0\<rparr>, \<lparr>wc_X = 5, wc_Y = 5, wc_Z = 0\<rparr>] :: WCoord list"
  obtain x' where run: "executeNode accepting ?n ?x = Some x'" by (rule dig_plan_runs [of 0 0]) simp
  note get = dig_plan_get [of 0 0, folded dig_node_simps(1) [of 0 0]]
  have pred: "ex_predicted ?x = Some newPredictedState" by (simp add: dig_plan_def)
  obtain n p where n: "Get (ex_dag x') ''d'' = Some n" "nd_Status n = StatusActive" "ex_predicted x' = Some p"
    "pred_inv p" "nd_PredictionCount n = region_size (ac_Region (nd_Action ?n))"
    and tiles: "\<And>c. GetPrediction p c = (if c \<in> ?R then Some (written accepting ?n c) else GetPrediction newPredictedState c)"
    using dispatch_result [OF dig_plan_ord get dig_node_simps(2) run] accepting_taken newPredictedState_inv
    by (auto simp: dig_node_simps pred)
  define s0 where "s0 = reconciler_on p (Some open_map) (ex_dag x')"
  have keeps: "keeps_plan (ex_dag ?x) (ex_dag x')" by (rule executeNode_keeps_plan(1) [OF dig_plan_ord run])
  then have inv: "dag_inv (ex_dag x')" and dom: "dom (dg_nodes (ex_dag x')) = {''d''}"
    using dig_plan_inv [of 0 0] by (simp_all add: keeps_plan_def) (simp add: dig_plan_def)
  have ptiles: "ps_tiles p = (\<lambda>c. if c \<in> ?R then Some (written accepting ?n c) else None)"
    using tiles by (simp add: GetPrediction_def newPredictedState_def fun_eq_iff)
  have owner: "tp_PlanNodeID (written accepting ?n c) = ''d''" "tp_Status (written accepting ?n c) = PredictionOutstanding"
    "tp_Coord (written accepting ?n c) = c" for c
    by (simp_all add: written_def dig_prediction_def Let_def dig_node_simps)
  have ids: "tp_PlanNodeID ` ran (ps_tiles p) \<subseteq> {''d''}" by (auto simp: ptiles ran_def owner split: if_splits)
  have "dom (ps_tiles p) = ?R" by (auto simp: ptiles dom_def)
  then have ok: "scan_env_ok (scan_over ?cs) p (ex_dag x')"
    unfolding scan_env_ok_def lists_tiles_def dom two_tiles using ids by (simp add: scan_over_def)
  have size: "region_size (ac_Region (nd_Action ?n)) = 2" by (simp add: region_size_def span_def dig_node_simps)
  have s0: "rs_predicted s0 = Some p" "rs_dag s0 = Some (ex_dag x')" by (simp_all add: s0_def)
  have nd: "dg_nodes (ex_dag x') ''d'' = Some n" and cnt: "0 \<le> nd_PredictionCount n" using n size by (simp_all add: Get_def)
  obtain s and p' :: PredictedState and d m where s: "scan (scan_over ?cs) s0 = Some s" "rs_dag s = Some d" "dg_nodes d ''d'' = Some m"
    and p': "ps_tiles p' = confirm_open (scan_over ?cs) (rs_topology s0) (ps_tiles p)"
    and st: "nd_Status m = (if nd_PredictionCount n \<noteq> 0 \<and>
       (\<forall>c t. ps_tiles p' c = Some t \<and> tp_PlanNodeID t = ''d'' \<longrightarrow> tp_Status t = PredictionConfirmed)
     then StatusDone else StatusActive)"
    by (rule scan_node [OF n(4) inv ok s0 nd n(2) cnt]) blast
  have "tp_Status t = PredictionConfirmed" if "ps_tiles p' c = Some t" for c t
  proof -
    have R: "c \<in> ?R" using that by (simp add: p' confirm_open_def ptiles split: if_splits)
    then have "c \<in> open_tiles (Some open_map)" using open_map_open unfolding two_tiles by blast
    then have "isConfirmed (rs_topology s0) (written accepting ?n c)" by (simp add: isConfirmed_open owner s0_def)
    then have "t = as_confirmed (sc_confirm (scan_over ?cs)) (written accepting ?n c)"
      using that R by (simp add: p' confirm_open_def ptiles owner(2))
    then show ?thesis by (simp add: as_confirmed_def)
  qed
  then have fin: "nd_Status m = StatusDone" using st n(5) size by auto
  have w: "watch ''d'' ?R s0 ({} \<union> open_tiles (rs_topology s0)) s"
    by (rule watch.scan [OF watch.start s0 ok s(1)])
  then have w': "watch (nd_ID ?n) ?R s0 ({} \<union> open_tiles (Some open_map)) s" by (simp add: dig_node_simps s0_def)
  have m: "Get d (nd_ID ?n) = Some m" using s(3) by (simp add: Get_def dig_node_simps)
  have "?R \<subseteq> {} \<union> open_tiles (Some open_map)"
    by (rule done_means_observed [OF dig_plan_ord dig_plan_inv get dig_node_simps(2) dig_node_simps(4) accepting_taken pred
        newPredictedState_inv run _ s0(2) w' s(2) m fin]) (simp add: s0 n(3))
  with run w' s(2) m fin show ?thesis by (auto simp: dig_node_simps)
qed

end
