(* ===== verification/Go_Fmt.thy ===== *)
theory Go_Fmt
  imports Go_Base
begin

text \<open>
  What the program uses of Go's \<open>fmt\<close>, \<open>strconv\<close> and \<open>strings\<close>: decimal numerals as \<open>%d\<close> prints them and
  \<open>strconv.ParseInt\<close> reads them, trimming and lower case. Text that is read rune by rune is a list of code points.
\<close>

section \<open>Decimal digits\<close>

fun digits :: "nat \<Rightarrow> nat list" where
  "digits n = (if n < 10 then [n] else digits (n div 10) @ [n mod 10])"

declare digits.simps [simp del]

definition digits_value :: "nat list \<Rightarrow> nat" where
  "digits_value ds = foldl (\<lambda>a d. 10 * a + d) 0 ds"

lemma digits_value_snoc [simp]: "digits_value (ds @ [d]) = 10 * digits_value ds + d"
  by (simp add: digits_value_def)

lemma digits_value_digits [simp]: "digits_value (digits n) = n"
proof (induction n rule: digits.induct)
  case (1 n)
  show ?case
  proof (cases "n < 10")
    case True
    then show ?thesis by (simp add: digits.simps [of n] digits_value_def)
  next
    case False
    then show ?thesis using 1 by (simp add: digits.simps [of n])
  qed
qed

lemma digits_inj: "digits m = digits n \<longleftrightarrow> m = n"
  by (metis digits_value_digits)

lemma digits_range: "d \<in> set (digits n) \<Longrightarrow> d < 10"
proof (induction n rule: digits.induct)
  case (1 n)
  then show ?case by (cases "n < 10") (auto simp: digits.simps [of n])
qed

lemma digits_not_Nil [simp]: "digits n \<noteq> []"
  by (simp add: digits.simps [of n])

section \<open>Byte strings\<close>

definition digit_char :: "nat \<Rightarrow> char" where
  "digit_char d = char_of (48 + d)"

definition dec :: "nat \<Rightarrow> string" where
  "dec n = map digit_char (digits n)"

lemma of_char_digit: "d < 10 \<Longrightarrow> of_char (digit_char d) = (48 + d :: nat)"
  by (simp add: digit_char_def)

lemma dec_chars: "c \<in> set (dec n) \<Longrightarrow> 48 \<le> (of_char c :: nat) \<and> (of_char c :: nat) < 58"
  by (auto simp: dec_def of_char_digit dest: digits_range)

lemma dec_inj: "dec m = dec n \<longleftrightarrow> m = n"
proof
  assume "dec m = dec n"
  then have "map of_char (dec m) = (map of_char (dec n) :: nat list)" by simp
  then have "map ((+) 48) (digits m) = map ((+) 48) (digits n)"
    by (simp add: dec_def of_char_digit digits_range cong: map_cong)
  then have "digits m = digits n" by (simp add: map_injective inj_on_def inj_map_eq_map)
  then show "m = n" by (simp add: digits_inj)
qed simp

text \<open>Two numerals, separated by text that holds no digit at its ends.\<close>

lemma dec_split:
  assumes "dec m @ c # xs = dec n @ c # ys" and "\<not> (48 \<le> (of_char c :: nat) \<and> (of_char c :: nat) < 58)"
  shows "m = n \<and> xs = ys"
proof -
  let ?P = "\<lambda>c'. c' \<noteq> c"
  have "\<forall>c'\<in>set (dec k). c' \<noteq> c" for k using assms(2) dec_chars by blast
  then have "takeWhile ?P (dec k @ c # zs) = dec k" "dropWhile ?P (dec k @ c # zs) = c # zs" for k zs
    by simp_all
  then show ?thesis using assms(1) by (metis dec_inj list.inject)
qed

section \<open>Runes\<close>

type_synonym rune = nat

definition runes :: "string \<Rightarrow> rune list" where
  "runes s = map of_char s"

lemma runes_inj [simp]: "runes s = runes t \<longleftrightarrow> s = t"
proof -
  have "inj (of_char :: char \<Rightarrow> nat)" by (rule inj_of_char)
  then show ?thesis by (simp add: runes_def inj_map_eq_map)
qed

text \<open>\<open>unicode.IsSpace\<close>.\<close>

definition is_space :: "rune \<Rightarrow> bool" where
  "is_space r \<longleftrightarrow> r \<in> {9, 10, 11, 12, 13, 32, 0x85, 0xA0, 0x1680, 0x2028, 0x2029, 0x202F, 0x205F, 0x3000} \<or>
     (0x2000 \<le> r \<and> r \<le> 0x200A)"

definition TrimSpace :: "rune list \<Rightarrow> rune list" where
  "TrimSpace s = rev (dropWhile is_space (rev (dropWhile is_space s)))"

text \<open>
  \<open>strings.ToLower\<close> up to what a comparison with an ASCII text can see: the capital letters, and the two code points
  outside ASCII whose lower case is an ASCII letter (U+0130 and U+212A). Every other code point outside
  ASCII has a lower case outside ASCII, and stands for itself.
\<close>

definition lower_rune :: "rune \<Rightarrow> rune" where
  "lower_rune r = (if 65 \<le> r \<and> r \<le> 90 then r + 32 else if r = 0x130 then 105 else if r = 0x212A then 107 else r)"

definition ToLower :: "rune list \<Rightarrow> rune list" where
  "ToLower s = map lower_rune s"

definition HasPrefix :: "rune list \<Rightarrow> rune list \<Rightarrow> bool" where
  "HasPrefix s p \<longleftrightarrow> take (length p) s = p"

section \<open>Integers\<close>

text \<open>\<open>fmt.Sprintf("%d", x)\<close>.\<close>

definition format_int :: "int \<Rightarrow> rune list" where
  "format_int i = (if i < 0 then 45 # map ((+) 48) (digits (nat (- i))) else map ((+) 48) (digits (nat i)))"

text \<open>
  \<open>strconv.ParseInt(s, 10, 16)\<close>: an optional sign and decimal digits; None for text that is no numeral and for a
  value that does not fit.
\<close>

definition parse_digits :: "rune list \<Rightarrow> nat option" where
  "parse_digits s = (if s \<noteq> [] \<and> (\<forall>r\<in>set s. 48 \<le> r \<and> r < 58) then Some (digits_value (map (\<lambda>r. r - 48) s)) else None)"

definition ParseInt16 :: "rune list \<Rightarrow> i16 option" where
  "ParseInt16 s =
     (let (neg, rest) = (case s of [] \<Rightarrow> (False, [])
        | r # rs \<Rightarrow> if r = 43 then (False, rs) else if r = 45 then (True, rs) else (False, s))
      in case parse_digits rest of
        None \<Rightarrow> None
      | Some un \<Rightarrow>
          if \<not> neg \<and> un \<ge> 2 ^ 15 then None
          else if neg \<and> un > 2 ^ 15 then None
          else Some (if neg then - of_nat un else of_nat un))"

lemma parse_digits_format: "parse_digits (map ((+) 48) (digits n)) = Some n"
  by (auto simp: parse_digits_def o_def dest: digits_range)

lemma digits_head: "\<exists>r rs. map ((+) 48) (digits n) = r # rs \<and> r \<noteq> 43 \<and> r \<noteq> 45"
  by (cases "digits n") auto

lemma ParseInt16_format [simp]: "ParseInt16 (format_int (sint x)) = Some x" for x :: i16
proof -
  have lo: "- (2 ^ 15) \<le> sint x" using sint_ge [of x] by simp
  have hi: "sint x < 2 ^ 15" using sint_lt [of x] by simp
  show ?thesis
  proof (cases "sint x < 0")
    case True
    then have "(of_nat (nat (- sint x)) :: i16) = of_int (- sint x)" by (simp add: of_nat_nat)
    then have "- of_nat (nat (- sint x)) = x" by simp
    then show ?thesis
      using True lo by (simp add: format_int_def ParseInt16_def parse_digits_format)
  next
    case False
    obtain r rs where r: "map ((+) 48) (digits (nat (sint x))) = r # rs" "r \<noteq> 43" "r \<noteq> 45"
      using digits_head [of "nat (sint x)"] by (elim exE conjE) (rule that)
    have "(of_nat (nat (sint x)) :: i16) = x" using False by (simp add: of_nat_nat)
    then show ?thesis
      using False hi r parse_digits_format [of "nat (sint x)"] by (simp add: format_int_def ParseInt16_def)
  qed
qed

end
