(* ===== verification/Regions.thy ===== *)
theory Regions
  imports Overlay
begin

text \<open>
  The region graph (\<open>internal/topology/regions.go\<close>): breadth-first flood fill of the open tiles, the
  scan that starts one fill per region, and the lookups over the result. The code needs of the
  overlay only which tiles are open and that these lie within the scanned range; this is the locale
  \<open>open_map\<close>, in which the fill and the scan are proved to compute the connected components.
\<close>

section \<open>Coordinates\<close>

record Coord =
  cd_X :: i16
  cd_Y :: i16
  cd_Z :: i16

instance Coord_ext :: (finite) finite
proof
  have "(UNIV :: 'a Coord_scheme set) =
      (\<lambda>(x, y, z, m). \<lparr>cd_X = x, cd_Y = y, cd_Z = z, \<dots> = m\<rparr>) ` UNIV"
    by (auto simp: image_iff) (metis Coord.surjective)
  then show "finite (UNIV :: 'a Coord_scheme set)"
    by (metis finite_imageI finite)
qed

definition minCoord :: "Coord \<Rightarrow> Coord \<Rightarrow> Coord" where
  "minCoord a b =
     (let m = a;
          m = (if slt (cd_X b) (cd_X m) then m\<lparr>cd_X := cd_X b\<rparr> else m);
          m = (if slt (cd_Y b) (cd_Y m) then m\<lparr>cd_Y := cd_Y b\<rparr> else m)
      in if slt (cd_Z b) (cd_Z m) then m\<lparr>cd_Z := cd_Z b\<rparr> else m)"

definition maxCoord :: "Coord \<Rightarrow> Coord \<Rightarrow> Coord" where
  "maxCoord a b =
     (let m = a;
          m = (if slt (cd_X m) (cd_X b) then m\<lparr>cd_X := cd_X b\<rparr> else m);
          m = (if slt (cd_Y m) (cd_Y b) then m\<lparr>cd_Y := cd_Y b\<rparr> else m)
      in if slt (cd_Z m) (cd_Z b) then m\<lparr>cd_Z := cd_Z b\<rparr> else m)"

definition neighbors :: "Coord \<Rightarrow> Coord list" where
  "neighbors c =
     [c\<lparr>cd_X := cd_X c - 1\<rparr>, c\<lparr>cd_X := cd_X c + 1\<rparr>, c\<lparr>cd_Y := cd_Y c - 1\<rparr>,
      c\<lparr>cd_Y := cd_Y c + 1\<rparr>, c\<lparr>cd_Z := cd_Z c - 1\<rparr>, c\<lparr>cd_Z := cd_Z c + 1\<rparr>]"

section \<open>Flood fill\<close>

text \<open>\<open>topo.GetTileState(...) == StateOpen\<close>.\<close>

definition tile_open :: "TopologyOverlay \<Rightarrow> Coord \<Rightarrow> bool" where
  "tile_open topo c \<longleftrightarrow> GetTileState topo (cd_X c) (cd_Y c) (cd_Z c) = Inr StateOpen"

record OpenRegion =
  rn_ID :: nat
  rn_Tiles :: "Coord list"
  rn_BBox :: "Coord \<times> Coord"

text \<open>The variables of the fill; \<open>visited\<close> is shared between the fills of one scan.\<close>

record flood =
  fl_visited :: "Coord set"
  fl_tiles :: "Coord list"
  fl_queue :: "Coord list"
  fl_min :: Coord
  fl_max :: Coord

definition flood_visit :: "(Coord \<Rightarrow> bool) \<Rightarrow> flood \<Rightarrow> Coord \<Rightarrow> flood" where
  "flood_visit op st n =
     (if n \<in> fl_visited st \<or> \<not> op n then st
      else st\<lparr>fl_visited := insert n (fl_visited st), fl_tiles := fl_tiles st @ [n],
        fl_queue := fl_queue st @ [n],
        fl_min := minCoord (fl_min st) n, fl_max := maxCoord (fl_max st) n\<rparr>)"

text \<open>
  A visited tile leaves a finite supply of unvisited ones, so the fill ends: twice the unvisited
  tiles plus the length of the queue goes down with every tile taken from the queue.
\<close>

definition flood_size :: "flood \<Rightarrow> nat" where
  "flood_size st = 2 * card (- fl_visited st) + length (fl_queue st)"

lemma flood_visit_size: "flood_size (flood_visit op st n) \<le> flood_size st"
proof (cases "n \<in> fl_visited st")
  case False
  then have "- fl_visited st = insert n (- insert n (fl_visited st))" by auto
  then have "card (- fl_visited st) = Suc (card (- insert n (fl_visited st)))"
    by (metis ComplD card_insert_disjoint finite insertI1)
  then show ?thesis by (simp add: flood_visit_def flood_size_def)
qed (simp add: flood_visit_def)

lemma flood_visits_size: "flood_size (foldl (flood_visit op) st ns) \<le> flood_size st"
  by (induction ns arbitrary: st) (auto intro: le_trans flood_visit_size)

function flood_loop :: "(Coord \<Rightarrow> bool) \<Rightarrow> flood \<Rightarrow> flood" where
  "flood_loop op st = (case fl_queue st of
       [] \<Rightarrow> st
     | c # queue \<Rightarrow> flood_loop op (foldl (flood_visit op) (st\<lparr>fl_queue := queue\<rparr>) (neighbors c)))"
  by pat_completeness auto
termination
proof (relation "measure (\<lambda>(op, st). flood_size st)")
  fix op :: "Coord \<Rightarrow> bool" and st :: flood and c queue
  assume "fl_queue st = c # queue"
  then have "flood_size (st\<lparr>fl_queue := queue\<rparr>) < flood_size st" by (simp add: flood_size_def)
  then show "((op, foldl (flood_visit op) (st\<lparr>fl_queue := queue\<rparr>) (neighbors c)), op, st)
      \<in> measure (\<lambda>(op, st). flood_size st)"
    using flood_visits_size [of op "st\<lparr>fl_queue := queue\<rparr>" "neighbors c"] by simp
qed simp

declare flood_loop.simps [simp del]

definition floodFill :: "(Coord \<Rightarrow> bool) \<Rightarrow> Coord \<Rightarrow> Coord set \<Rightarrow> OpenRegion \<times> Coord set" where
  "floodFill op start visited =
     (let st = flood_loop op \<lparr>fl_visited = insert start visited, fl_tiles = [start],
        fl_queue = [start], fl_min = start, fl_max = start\<rparr>
      in (\<lparr>rn_ID = 0, rn_Tiles = fl_tiles st, rn_BBox = (fl_min st, fl_max st)\<rparr>, fl_visited st))"

section \<open>The scan\<close>

record RegionGraph =
  gr_Regions :: "OpenRegion list"
  gr_index :: "Coord \<rightharpoonup> nat"

definition scan_tile ::
  "(Coord \<Rightarrow> bool) \<Rightarrow> Coord set \<times> RegionGraph \<Rightarrow> Coord \<Rightarrow> Coord set \<times> RegionGraph" where
  "scan_tile op st start = (case st of (visited, g) \<Rightarrow>
     if start \<in> visited \<or> \<not> op start then (visited, g)
     else let (region, visited) = floodFill op start visited;
              region = region\<lparr>rn_ID := length (gr_Regions g)\<rparr>
      in (visited, \<lparr>gr_Regions = gr_Regions g @ [region],
            gr_index = foldl (\<lambda>m t. m(t \<mapsto> rn_ID region)) (gr_index g) (rn_Tiles region)\<rparr>))"

text \<open>The loops over \<open>z\<close>, \<open>y\<close> and \<open>x\<close>, each from 0 below an \<open>int16\<close> bound.\<close>

definition scan_order :: "u16 \<times> u16 \<times> u16 \<Rightarrow> Coord list" where
  "scan_order dims = (case dims of (w, h, d) \<Rightarrow>
     concat (map (\<lambda>z. concat (map (\<lambda>y. map (\<lambda>x.
       \<lparr>cd_X = of_int x, cd_Y = of_int y, cd_Z = of_int z\<rparr>)
       [0..sint w - 1]) [0..sint h - 1])) [0..sint d - 1]))"

definition empty_graph :: RegionGraph where
  "empty_graph = \<lparr>gr_Regions = [], gr_index = Map.empty\<rparr>"

definition build_graph :: "(Coord \<Rightarrow> bool) \<Rightarrow> Coord list \<Rightarrow> RegionGraph" where
  "build_graph op starts = snd (foldl (scan_tile op) ({}, empty_graph) starts)"

definition BuildRegionGraph :: "TopologyOverlay \<Rightarrow> RegionGraph" where
  "BuildRegionGraph topo = build_graph (tile_open topo) (scan_order (GetDimensions topo))"

section \<open>Lookups\<close>

definition SameRegion :: "RegionGraph \<Rightarrow> Coord \<Rightarrow> Coord \<Rightarrow> bool" where
  "SameRegion g a b = (case (gr_index g a, gr_index g b) of
       (Some ia, Some ib) \<Rightarrow> ia = ib
     | _ \<Rightarrow> False)"

definition RegionAt :: "RegionGraph \<Rightarrow> Coord \<Rightarrow> OpenRegion option" where
  "RegionAt g c = (case gr_index g c of None \<Rightarrow> None | Some i \<Rightarrow> Some (gr_Regions g ! i))"

text \<open>\<open>-v\<close> of an \<open>int16\<close> wraps at the least value.\<close>

definition abs16 :: "i16 \<Rightarrow> int" where
  "abs16 v = (if slt v 0 then sint (- v) else sint v)"

definition max3 :: "int \<Rightarrow> int \<Rightarrow> int \<Rightarrow> int" where
  "max3 a b c =
     (let m = a; m = (if b > m then b else m) in if c > m then c else m)"

definition chebyshev :: "Coord \<Rightarrow> Coord \<Rightarrow> int" where
  "chebyshev t c = max3 (abs16 (cd_X t - cd_X c)) (abs16 (cd_Y t - cd_Y c)) (abs16 (cd_Z t - cd_Z c))"

text \<open>The accumulator: best distance (-1 when there is none yet), its region and its tile.\<close>

definition nearest_step ::
  "Coord \<Rightarrow> int \<times> (OpenRegion \<times> Coord) option \<Rightarrow> OpenRegion \<times> Coord \<Rightarrow> int \<times> (OpenRegion \<times> Coord) option" where
  "nearest_step c acc rt = (case acc of (best, found) \<Rightarrow>
     let d = chebyshev (snd rt) c in
     if best = -1 \<or> d < best then (d, Some rt) else (best, found))"

definition NearestRegion :: "RegionGraph \<Rightarrow> Coord \<Rightarrow> int \<times> (OpenRegion \<times> Coord) option" where
  "NearestRegion g c = foldl (nearest_step c) (-1, None)
     (concat (map (\<lambda>r. map (Pair r) (rn_Tiles r)) (gr_Regions g)))"

section \<open>Adjacency\<close>

lemma set_neighbors_sym: "n \<in> set (neighbors c) \<longleftrightarrow> c \<in> set (neighbors n)"
  by (cases n; cases c) (auto simp: neighbors_def)

text \<open>Two open tiles side by side, and the component of a tile.\<close>

definition open_adj :: "(Coord \<Rightarrow> bool) \<Rightarrow> Coord \<Rightarrow> Coord \<Rightarrow> bool" where
  "open_adj op a b \<longleftrightarrow> op a \<and> op b \<and> b \<in> set (neighbors a)"

definition connected_open :: "(Coord \<Rightarrow> bool) \<Rightarrow> Coord \<Rightarrow> Coord \<Rightarrow> bool" where
  "connected_open op a b \<longleftrightarrow> op a \<and> op b \<and> (open_adj op)\<^sup>*\<^sup>* a b"

lemma open_adj_sym: "open_adj op a b \<Longrightarrow> open_adj op b a"
  by (simp add: open_adj_def set_neighbors_sym)

lemma open_adj_star_sym: "(open_adj op)\<^sup>*\<^sup>* a b \<Longrightarrow> (open_adj op)\<^sup>*\<^sup>* b a"
  by (induction rule: rtranclp_induct) (auto intro: converse_rtranclp_into_rtranclp open_adj_sym)

lemma connected_open_sym: "connected_open op a b \<longleftrightarrow> connected_open op b a"
  by (auto simp: connected_open_def intro: open_adj_star_sym)

lemma connected_open_trans: "connected_open op a b \<Longrightarrow> connected_open op b c \<Longrightarrow> connected_open op a c"
  by (auto simp: connected_open_def)

lemma connected_open_step: "connected_open op a b \<Longrightarrow> open_adj op b c \<Longrightarrow> connected_open op a c"
  by (auto simp: connected_open_def open_adj_def intro: rtranclp.rtrancl_into_rtrancl)

section \<open>What one fill computes\<close>

text \<open>One round of the inner loop: the new tiles are the open unvisited neighbours.\<close>

lemma flood_visits:
  "\<exists>new. foldl (flood_visit op) st ns = st\<lparr>fl_visited := fl_visited st \<union> set new,
       fl_tiles := fl_tiles st @ new, fl_queue := fl_queue st @ new,
       fl_min := foldl minCoord (fl_min st) new, fl_max := foldl maxCoord (fl_max st) new\<rparr> \<and>
     set new = {n \<in> set ns. op n \<and> n \<notin> fl_visited st} \<and> distinct new"
proof (induction ns arbitrary: st)
  case (Cons n ns)
  show ?case
  proof (cases "n \<in> fl_visited st \<or> \<not> op n")
    case True
    then have "flood_visit op st n = st" by (simp add: flood_visit_def)
    then show ?thesis using Cons.IH [of st] True by auto
  next
    case False
    then have v: "flood_visit op st n = st\<lparr>fl_visited := insert n (fl_visited st),
        fl_tiles := fl_tiles st @ [n], fl_queue := fl_queue st @ [n],
        fl_min := minCoord (fl_min st) n, fl_max := maxCoord (fl_max st) n\<rparr>"
      by (simp add: flood_visit_def)
    obtain new where new: "foldl (flood_visit op) (flood_visit op st n) ns =
        (flood_visit op st n)\<lparr>fl_visited := fl_visited (flood_visit op st n) \<union> set new,
          fl_tiles := fl_tiles (flood_visit op st n) @ new,
          fl_queue := fl_queue (flood_visit op st n) @ new,
          fl_min := foldl minCoord (fl_min (flood_visit op st n)) new,
          fl_max := foldl maxCoord (fl_max (flood_visit op st n)) new\<rparr>"
      "set new = {m \<in> set ns. op m \<and> m \<notin> fl_visited (flood_visit op st n)}" "distinct new"
      using Cons.IH [of "flood_visit op st n"] by blast
    show ?thesis
      by (rule exI [of _ "n # new"]) (use new False in \<open>auto simp: v\<close>)
  qed
qed (rule exI [of _ "[]"], simp)

text \<open>
  The invariant of the fill from \<open>start\<close>, where \<open>V\<close> is what the earlier fills have visited: the
  tiles found are connected to the start and new, and a tile that has left the queue has no
  unvisited open neighbour.
\<close>

definition flood_inv :: "(Coord \<Rightarrow> bool) \<Rightarrow> Coord \<Rightarrow> Coord set \<Rightarrow> flood \<Rightarrow> bool" where
  "flood_inv op start V st \<longleftrightarrow>
     fl_visited st = V \<union> set (fl_tiles st) \<and> V \<inter> set (fl_tiles st) = {} \<and> distinct (fl_tiles st) \<and>
     start \<in> set (fl_tiles st) \<and> set (fl_queue st) \<subseteq> set (fl_tiles st) \<and>
     (\<forall>t\<in>set (fl_tiles st). connected_open op start t) \<and>
     (\<forall>t\<in>set (fl_tiles st) - set (fl_queue st). \<forall>n. open_adj op t n \<longrightarrow> n \<in> fl_visited st) \<and>
     (\<exists>ts. fl_tiles st = start # ts \<and> fl_min st = foldl minCoord start ts \<and>
        fl_max st = foldl maxCoord start ts)"

lemma flood_inv_step:
  assumes "flood_inv op start V st" and "fl_queue st = c # queue"
  shows "flood_inv op start V (foldl (flood_visit op) (st\<lparr>fl_queue := queue\<rparr>) (neighbors c))"
proof -
  obtain new where st': "foldl (flood_visit op) (st\<lparr>fl_queue := queue\<rparr>) (neighbors c) =
      st\<lparr>fl_visited := fl_visited st \<union> set new, fl_tiles := fl_tiles st @ new,
        fl_queue := queue @ new, fl_min := foldl minCoord (fl_min st) new,
        fl_max := foldl maxCoord (fl_max st) new\<rparr>"
    and new: "set new = {n \<in> set (neighbors c). op n \<and> n \<notin> fl_visited st}" "distinct new"
    using flood_visits [of op "st\<lparr>fl_queue := queue\<rparr>" "neighbors c"] by auto
  have c: "c \<in> set (fl_tiles st)" "connected_open op start c"
    using assms by (auto simp: flood_inv_def)
  then have oc: "op c" by (simp add: connected_open_def)
  have conn: "connected_open op start n" if "n \<in> set new" for n
    using connected_open_step [OF c(2)] that new(1) oc by (auto simp: open_adj_def)
  have nbrs: "n \<in> fl_visited st \<union> set new" if "open_adj op c n" for n
    using that new(1) by (auto simp: open_adj_def)
  obtain ts where ts: "fl_tiles st = start # ts" "fl_min st = foldl minCoord start ts"
    "fl_max st = foldl maxCoord start ts"
    using assms(1) by (auto simp: flood_inv_def)
  have "\<exists>us. fl_tiles st @ new = start # us \<and> foldl minCoord (fl_min st) new = foldl minCoord start us \<and>
      foldl maxCoord (fl_max st) new = foldl maxCoord start us"
    by (rule exI [of _ "ts @ new"]) (simp add: ts)
  moreover have closed: "n \<in> fl_visited st \<union> set new"
    if "t \<in> set (fl_tiles st @ new) - set (queue @ new)" "open_adj op t n" for t n
  proof (cases "t = c")
    case True
    then show ?thesis using nbrs that(2) by simp
  next
    case False
    then have "t \<in> set (fl_tiles st) - set (fl_queue st)" using that(1) assms(2) by auto
    then show ?thesis using assms(1) that(2) unfolding flood_inv_def by blast
  qed
  moreover have "fl_visited st \<union> set new = V \<union> set (fl_tiles st @ new)"
    "V \<inter> set (fl_tiles st @ new) = {}" "distinct (fl_tiles st @ new)"
    "start \<in> set (fl_tiles st @ new)" "set (queue @ new) \<subseteq> set (fl_tiles st @ new)"
    using assms new unfolding flood_inv_def by auto
  moreover have "connected_open op start t" if "t \<in> set (fl_tiles st @ new)" for t
    using that conn assms(1) unfolding flood_inv_def by auto
  ultimately show ?thesis
    unfolding st' flood_inv_def by simp
qed

lemma flood_loop_inv:
  "flood_inv op start V st \<Longrightarrow>
     flood_inv op start V (flood_loop op st) \<and> fl_queue (flood_loop op st) = []"
proof (induction op st rule: flood_loop.induct)
  case (1 op st)
  show ?case
  proof (cases "fl_queue st")
    case Nil
    with 1 show ?thesis by (simp add: flood_loop.simps [of op st])
  next
    case (Cons c queue)
    with 1 flood_inv_step [OF 1(2) Cons] show ?thesis
      by (simp add: flood_loop.simps [of op st])
  qed
qed

text \<open>The corners of the bounding box: least and greatest coordinates, taken on by some tile.\<close>

definition bounds :: "Coord \<times> Coord \<Rightarrow> Coord set \<Rightarrow> bool" where
  "bounds bb T \<longleftrightarrow>
     (\<forall>t\<in>T. sint (cd_X (fst bb)) \<le> sint (cd_X t) \<and> sint (cd_Y (fst bb)) \<le> sint (cd_Y t) \<and>
        sint (cd_Z (fst bb)) \<le> sint (cd_Z t) \<and> sint (cd_X t) \<le> sint (cd_X (snd bb)) \<and>
        sint (cd_Y t) \<le> sint (cd_Y (snd bb)) \<and> sint (cd_Z t) \<le> sint (cd_Z (snd bb))) \<and>
     cd_X (fst bb) \<in> cd_X ` T \<and> cd_Y (fst bb) \<in> cd_Y ` T \<and> cd_Z (fst bb) \<in> cd_Z ` T \<and>
     cd_X (snd bb) \<in> cd_X ` T \<and> cd_Y (snd bb) \<in> cd_Y ` T \<and> cd_Z (snd bb) \<in> cd_Z ` T"

lemma corner_fields:
  "cd_X (minCoord a b) = (if slt (cd_X b) (cd_X a) then cd_X b else cd_X a)"
  "cd_Y (minCoord a b) = (if slt (cd_Y b) (cd_Y a) then cd_Y b else cd_Y a)"
  "cd_Z (minCoord a b) = (if slt (cd_Z b) (cd_Z a) then cd_Z b else cd_Z a)"
  "cd_X (maxCoord a b) = (if slt (cd_X a) (cd_X b) then cd_X b else cd_X a)"
  "cd_Y (maxCoord a b) = (if slt (cd_Y a) (cd_Y b) then cd_Y b else cd_Y a)"
  "cd_Z (maxCoord a b) = (if slt (cd_Z a) (cd_Z b) then cd_Z b else cd_Z a)"
  by (simp_all add: minCoord_def maxCoord_def Let_def)

lemma bounds_insert:
  assumes "bounds (lo, hi) T"
  shows "bounds (minCoord lo c, maxCoord hi c) (insert c T)"
  unfolding bounds_def fst_conv snd_conv corner_fields
  by (intro conjI) (use assms in \<open>auto simp: bounds_def slt_def\<close>)

lemma bounds_foldl:
  "bounds (lo, hi) T \<Longrightarrow> bounds (foldl minCoord lo ts, foldl maxCoord hi ts) (T \<union> set ts)"
proof (induction ts arbitrary: lo hi T)
  case (Cons c ts)
  then show ?case using bounds_insert [of lo hi T c] by fastforce
qed simp

definition component :: "(Coord \<Rightarrow> bool) \<Rightarrow> Coord \<Rightarrow> Coord set" where
  "component op a = {b. connected_open op a b}"

definition adj_closed :: "(Coord \<Rightarrow> bool) \<Rightarrow> Coord set \<Rightarrow> bool" where
  "adj_closed op V \<longleftrightarrow> (\<forall>v\<in>V. op v \<and> (\<forall>n. open_adj op v n \<longrightarrow> n \<in> V))"

lemma component_closed: "adj_closed op (component op a)"
  by (auto simp: adj_closed_def component_def connected_open_step)
    (auto simp: connected_open_def)

lemma floodFill_component:
  assumes "op start" and "start \<notin> V" and "adj_closed op V" and "floodFill op start V = (r, V')"
  shows "set (rn_Tiles r) = component op start" and "distinct (rn_Tiles r)"
    and "bounds (rn_BBox r) (set (rn_Tiles r))"
    and "V' = V \<union> component op start" and "V \<inter> component op start = {}"
proof -
  let ?st0 = "\<lparr>fl_visited = insert start V, fl_tiles = [start], fl_queue = [start],
    fl_min = start, fl_max = start\<rparr>"
  define st where "st = flood_loop op ?st0"
  have "flood_inv op start V ?st0"
    using assms(1,2) by (auto simp: flood_inv_def connected_open_def)
  then have inv: "flood_inv op start V st" and drained: "fl_queue st = []"
    using flood_loop_inv [of op start V ?st0] by (simp_all add: st_def)
  have r: "r = \<lparr>rn_ID = 0, rn_Tiles = fl_tiles st, rn_BBox = (fl_min st, fl_max st)\<rparr>"
    and V': "V' = fl_visited st"
    using assms(4) by (auto simp: floodFill_def st_def Let_def)
  have disj: "V \<inter> set (fl_tiles st) = {}" and vis: "fl_visited st = V \<union> set (fl_tiles st)"
    using inv by (simp_all add: flood_inv_def)
  have closed: "n \<in> set (fl_tiles st)" if t: "t \<in> set (fl_tiles st)" and adj: "open_adj op t n" for t n
  proof -
    have "n \<in> V \<union> set (fl_tiles st)"
      using inv drained t adj unfolding flood_inv_def vis by auto
    moreover have "n \<notin> V"
      using assms(3) open_adj_sym [OF adj] t disj by (auto simp: adj_closed_def)
    ultimately show ?thesis by simp
  qed
  have "b \<in> set (fl_tiles st)" if "(open_adj op)\<^sup>*\<^sup>* start b" for b
    using that
  proof (induction rule: rtranclp_induct)
    case base
    show ?case using inv by (simp add: flood_inv_def)
  qed (use closed in blast)
  then show tiles: "set (rn_Tiles r) = component op start"
    using inv by (auto simp: r flood_inv_def component_def connected_open_def)
  show "distinct (rn_Tiles r)" using inv by (simp add: r flood_inv_def)
  show "V' = V \<union> component op start" "V \<inter> component op start = {}"
    using disj tiles by (simp_all add: V' vis r)
  obtain ts where "fl_tiles st = start # ts" "fl_min st = foldl minCoord start ts"
    "fl_max st = foldl maxCoord start ts"
    using inv by (auto simp: flood_inv_def)
  moreover have "bounds (start, start) {start}" by (simp add: bounds_def)
  ultimately show "bounds (rn_BBox r) (set (rn_Tiles r))"
    using bounds_foldl [of start start "{start}" ts] by (simp add: r)
qed

section \<open>What the scan computes\<close>

definition region_ok :: "(Coord \<Rightarrow> bool) \<Rightarrow> nat \<Rightarrow> OpenRegion \<Rightarrow> bool" where
  "region_ok op i r \<longleftrightarrow> rn_ID r = i \<and> distinct (rn_Tiles r) \<and>
     (\<exists>s. op s \<and> set (rn_Tiles r) = component op s) \<and> bounds (rn_BBox r) (set (rn_Tiles r))"

definition graph_inv :: "(Coord \<Rightarrow> bool) \<Rightarrow> Coord set \<times> RegionGraph \<Rightarrow> bool" where
  "graph_inv op st \<longleftrightarrow> (case st of (V, g) \<Rightarrow>
     adj_closed op V \<and> V = dom (gr_index g) \<and>
     (\<forall>i<length (gr_Regions g). region_ok op i (gr_Regions g ! i)) \<and>
     (\<forall>c i. gr_index g c = Some i \<longleftrightarrow>
        i < length (gr_Regions g) \<and> c \<in> set (rn_Tiles (gr_Regions g ! i))))"

lemma foldl_upd_same: "foldl (\<lambda>m t. m(t \<mapsto> i)) m ts = (\<lambda>c. if c \<in> set ts then Some i else m c)"
  by (induction ts arbitrary: m) auto

lemma graph_inv_step:
  assumes "graph_inv op (V, g)" and "scan_tile op (V, g) start = (V', g')"
  shows "graph_inv op (V', g') \<and> V \<subseteq> V' \<and> (op start \<longrightarrow> start \<in> V')"
proof (cases "start \<in> V \<or> \<not> op start")
  case True
  then show ?thesis using assms by (auto simp: scan_tile_def)
next
  case False
  obtain r W where f: "floodFill op start V = (r, W)" by fastforce
  let ?n = "length (gr_Regions g)"
  have V: "adj_closed op V" using assms(1) by (auto simp: graph_inv_def)
  note r = floodFill_component [OF _ _ V f, simplified]
  from False have start: "op start" "start \<notin> V" by simp_all
  note r = r [OF start]
  have V': "V' = V \<union> component op start"
    and g': "g' = \<lparr>gr_Regions = gr_Regions g @ [r\<lparr>rn_ID := ?n\<rparr>],
      gr_index = (\<lambda>c. if c \<in> component op start then Some ?n else gr_index g c)\<rparr>"
    using assms(2) False f r by (auto simp: scan_tile_def Let_def foldl_upd_same)
  have "adj_closed op V'"
    using V component_closed [of op start] unfolding V' adj_closed_def by blast
  moreover have "V' = dom (gr_index g')"
    using assms(1) by (auto simp: V' g' graph_inv_def split: if_splits)
  moreover have "region_ok op ?n (r\<lparr>rn_ID := ?n\<rparr>)"
    using r start by (auto simp: region_ok_def)
  then have "\<forall>i<length (gr_Regions g'). region_ok op i (gr_Regions g' ! i)"
    using assms(1) by (auto simp: g' graph_inv_def nth_append less_Suc_eq)
  moreover have "gr_index g' c = Some i \<longleftrightarrow>
      i < length (gr_Regions g') \<and> c \<in> set (rn_Tiles (gr_Regions g' ! i))" for c i
  proof (cases "c \<in> component op start")
    case True
    then have "c \<notin> dom (gr_index g)" using r(5) assms(1) by (auto simp: graph_inv_def)
    then have "\<not> (i < ?n \<and> c \<in> set (rn_Tiles (gr_Regions g ! i)))"
      using assms(1) by (auto simp: graph_inv_def)
    then show ?thesis using True r(1) by (auto simp: g' nth_append less_Suc_eq)
  next
    case False
    then show ?thesis
      using assms(1) r(1) by (auto simp: g' graph_inv_def nth_append less_Suc_eq)
  qed
  moreover have "start \<in> component op start" using start by (simp add: component_def connected_open_def)
  ultimately show ?thesis by (auto simp: graph_inv_def V')
qed

lemma graph_inv_scan:
  "graph_inv op st \<Longrightarrow> foldl (scan_tile op) st starts = (V', g') \<Longrightarrow>
     graph_inv op (V', g') \<and> fst st \<subseteq> V' \<and> (\<forall>s\<in>set starts. op s \<longrightarrow> s \<in> V')"
proof (induction starts arbitrary: st)
  case (Cons s starts)
  obtain V g where st: "st = (V, g)" by fastforce
  obtain V1 g1 where s: "scan_tile op st s = (V1, g1)" by fastforce
  have 1: "graph_inv op (V1, g1) \<and> V \<subseteq> V1 \<and> (op s \<longrightarrow> s \<in> V1)"
    using graph_inv_step Cons.prems(1) s by (simp add: st)
  then have 2: "graph_inv op (V', g') \<and> V1 \<subseteq> V' \<and> (\<forall>s\<in>set starts. op s \<longrightarrow> s \<in> V')"
    using Cons.IH [of "(V1, g1)"] Cons.prems(2) by (simp add: s)
  show ?case using 1 2 by (auto simp: st)
qed auto

lemma graph_inv_empty: "graph_inv op ({}, empty_graph)"
  by (simp add: graph_inv_def empty_graph_def adj_closed_def)

section \<open>The contract of the map\<close>

text \<open>
  All the scan relies on: it passes over every open tile.
\<close>

locale open_map =
  fixes op :: "Coord \<Rightarrow> bool"
    and starts :: "Coord list"
  assumes open_scanned: "op c \<Longrightarrow> c \<in> set starts"
begin

lemma graph_facts:
  shows "dom (gr_index (build_graph op starts)) = {c. op c}"
    and "\<forall>i<length (gr_Regions (build_graph op starts)).
      region_ok op i (gr_Regions (build_graph op starts) ! i)"
    and "\<forall>c i. gr_index (build_graph op starts) c = Some i \<longleftrightarrow>
      i < length (gr_Regions (build_graph op starts)) \<and>
      c \<in> set (rn_Tiles (gr_Regions (build_graph op starts) ! i))"
proof -
  obtain V g where Vg: "foldl (scan_tile op) ({}, empty_graph) starts = (V, g)" by fastforce
  then have g: "build_graph op starts = g" by (simp add: build_graph_def)
  have inv: "graph_inv op (V, g)" and all: "\<forall>s\<in>set starts. op s \<longrightarrow> s \<in> V"
    using graph_inv_scan [OF graph_inv_empty Vg] by simp_all
  then have "dom (gr_index g) = V" and "\<forall>v\<in>V. op v"
    by (simp_all add: graph_inv_def adj_closed_def)
  then show "dom (gr_index (build_graph op starts)) = {c. op c}"
    using all open_scanned by (auto simp: g)
  show "\<forall>i<length (gr_Regions (build_graph op starts)).
      region_ok op i (gr_Regions (build_graph op starts) ! i)"
    and "\<forall>c i. gr_index (build_graph op starts) c = Some i \<longleftrightarrow>
      i < length (gr_Regions (build_graph op starts)) \<and>
      c \<in> set (rn_Tiles (gr_Regions (build_graph op starts) ! i))"
    using inv by (simp_all add: g graph_inv_def)
qed

lemma index_defined: "gr_index (build_graph op starts) a \<noteq> None \<longleftrightarrow> op a"
  using graph_facts(1) by auto

lemma index_region:
  assumes "gr_index (build_graph op starts) a = Some i"
  shows "region_ok op i (gr_Regions (build_graph op starts) ! i)"
    and "set (rn_Tiles (gr_Regions (build_graph op starts) ! i)) = component op a"
proof -
  let ?r = "gr_Regions (build_graph op starts) ! i"
  have i: "i < length (gr_Regions (build_graph op starts))" and a: "a \<in> set (rn_Tiles ?r)"
    using assms graph_facts(3) by simp_all
  show ok: "region_ok op i ?r" using graph_facts(2) i by simp
  then obtain s where s: "set (rn_Tiles ?r) = component op s" by (auto simp: region_ok_def)
  then have "connected_open op s a" using a by (simp add: component_def)
  then have "component op s = component op a"
    using connected_open_sym connected_open_trans unfolding component_def by blast
  then show "set (rn_Tiles ?r) = component op a" by (simp add: s)
qed

lemma index_eq:
  assumes "op a" and "op b"
  shows "gr_index (build_graph op starts) a = gr_index (build_graph op starts) b \<longleftrightarrow>
    connected_open op a b"
proof -
  let ?g = "build_graph op starts"
  obtain i where i: "gr_index ?g a = Some i" using index_defined [of a] assms(1) by auto
  obtain j where j: "gr_index ?g b = Some j" using index_defined [of b] assms(2) by auto
  have "i < length (gr_Regions ?g)" using i graph_facts(3) by simp
  then have "gr_index ?g b = Some i \<longleftrightarrow> b \<in> component op a"
    using index_region(2) [OF i] graph_facts(3) by simp
  then show ?thesis by (auto simp: i j component_def)
qed

lemma same_region: "SameRegion (build_graph op starts) a b \<longleftrightarrow> connected_open op a b"
  using index_defined [of a] index_defined [of b] index_eq [of a b]
  by (auto simp: SameRegion_def connected_open_def split: option.splits)

lemma region_at:
  "RegionAt (build_graph op starts) a = None \<longleftrightarrow> \<not> op a"
  "RegionAt (build_graph op starts) a = Some r \<Longrightarrow>
     set (rn_Tiles r) = component op a \<and> distinct (rn_Tiles r) \<and>
     gr_Regions (build_graph op starts) ! rn_ID r = r \<and> bounds (rn_BBox r) (component op a)"
  using index_defined [of a] index_region [of a]
  by (auto simp: RegionAt_def region_ok_def split: option.splits)

text \<open>The regions partition the open tiles.\<close>

lemma open_in_regions: "op c \<longleftrightarrow> (\<exists>r\<in>set (gr_Regions (build_graph op starts)). c \<in> set (rn_Tiles r))"
proof -
  have "op c \<longleftrightarrow> (\<exists>i<length (gr_Regions (build_graph op starts)).
      c \<in> set (rn_Tiles (gr_Regions (build_graph op starts) ! i)))"
    using index_defined [of c] graph_facts(3) by auto
  then show ?thesis
    by (metis in_set_conv_nth)
qed

end

text \<open>The overlay keeps the contract: an open tile is in bounds, and the scan covers the bounds.\<close>

lemma scan_order_bounds:
  assumes "in_bounds topo (cd_X c) (cd_Y c) (cd_Z c)"
  shows "c \<in> set (scan_order (GetDimensions topo))"
proof -
  have "c = \<lparr>cd_X = of_int (sint (cd_X c)), cd_Y = of_int (sint (cd_Y c)),
      cd_Z = of_int (sint (cd_Z c))\<rparr>" by simp
  moreover have "sint (cd_X c) \<in> {0..sint (ov_width topo) - 1}"
    "sint (cd_Y c) \<in> {0..sint (ov_height topo) - 1}" "sint (cd_Z c) \<in> {0..sint (ov_depth topo) - 1}"
    using assms by (auto simp: in_bounds_def slt_def)
  ultimately show ?thesis
    unfolding scan_order_def GetDimensions_def by force
qed

interpretation overlay_map: open_map "tile_open topo" "scan_order (GetDimensions topo)" for topo
proof
  show "c \<in> set (scan_order (GetDimensions topo))" if "tile_open topo c" for c
    using that by (intro scan_order_bounds) (auto simp: tile_open_def GetTileState_def split: if_splits)
qed

section \<open>Properties of the region graph\<close>

text \<open>
  C14: Two tiles are in the same region of the graph exactly when both are open and a path of open
  tiles, each next to the one before (north, south, east, west, up or down), leads from one to the
  other: the flood fill finds whole components and never joins two.
\<close>

theorem same_region_iff_connected:
  "SameRegion (BuildRegionGraph topo) a b \<longleftrightarrow> connected_open (tile_open topo) a b"
  unfolding BuildRegionGraph_def by (rule overlay_map.same_region)

text \<open>
  Every open tile, and no other, has a region; the region lists exactly the tiles connected to
  it, none twice, is found again under its own id, and its bounding box is tight.
\<close>

theorem region_at_tile:
  "(RegionAt (BuildRegionGraph topo) a = None \<longleftrightarrow> \<not> tile_open topo a) \<and>
   (\<forall>r. RegionAt (BuildRegionGraph topo) a = Some r \<longrightarrow>
      set (rn_Tiles r) = {b. connected_open (tile_open topo) a b} \<and> distinct (rn_Tiles r) \<and>
      gr_Regions (BuildRegionGraph topo) ! rn_ID r = r \<and>
      bounds (rn_BBox r) {b. connected_open (tile_open topo) a b})"
  unfolding BuildRegionGraph_def component_def [symmetric]
  using overlay_map.region_at [where topo = topo and a = a] by blast

lemma column_tiles:
  "GetTileState column_map 0 0 1 = Inr StateOpen" "GetTileState column_map 0 0 0 = Inr StateUnknown"
  by code_simp+

theorem region_at_tile_witness:
  "\<exists>r. RegionAt (BuildRegionGraph column_map) \<lparr>cd_X = 0, cd_Y = 0, cd_Z = 1\<rparr> = Some r \<and>
     distinct (rn_Tiles r) \<and> RegionAt (BuildRegionGraph column_map) \<lparr>cd_X = 0, cd_Y = 0, cd_Z = 0\<rparr> = None"
  using region_at_tile [of column_map "\<lparr>cd_X = 0, cd_Y = 0, cd_Z = 1\<rparr>"]
    region_at_tile [of column_map "\<lparr>cd_X = 0, cd_Y = 0, cd_Z = 0\<rparr>"]
  by (auto simp: tile_open_def column_tiles)

section \<open>The nearest region\<close>

definition distance :: "Coord \<Rightarrow> Coord \<Rightarrow> int" where
  "distance t c = max \<bar>sint (cd_X t) - sint (cd_X c)\<bar>
     (max \<bar>sint (cd_Y t) - sint (cd_Y c)\<bar> \<bar>sint (cd_Z t) - sint (cd_Z c)\<bar>)"

text \<open>Between coordinates on the map the 16-bit differences do not wrap.\<close>

definition on_grid :: "Coord \<Rightarrow> bool" where
  "on_grid c \<longleftrightarrow> 0 \<le> sint (cd_X c) \<and> 0 \<le> sint (cd_Y c) \<and> 0 \<le> sint (cd_Z c)"

lemma sint_sub_exact:
  assumes "0 \<le> sint (a :: i16)" and "0 \<le> sint (b :: i16)"
  shows "sint (a - b) = sint a - sint b" and "sint (- (a - b)) = sint b - sint a"
proof -
  have lt: "sint a < 32768" "sint b < 32768" using sint_lt [of a] sint_lt [of b] by simp_all
  have of_int: "sint (of_int k :: i16) = k" if "-32768 \<le> k" "k < 32768" for k
    using that by (simp add: signed_of_int signed_take_bit_int_eq_self)
  have "a - b = of_int (sint a - sint b)" "- (a - b) = of_int (sint b - sint a)" by simp_all
  then show "sint (a - b) = sint a - sint b" "sint (- (a - b)) = sint b - sint a"
    using of_int [of "sint a - sint b"] of_int [of "sint b - sint a"] assms lt by simp_all
qed

lemma chebyshev_distance:
  assumes "on_grid t" and "on_grid c"
  shows "chebyshev t c = distance t c"
proof -
  have "abs16 (a - b) = \<bar>sint a - sint b\<bar>" if "0 \<le> sint a" "0 \<le> sint b" for a b
    using sint_sub_exact [OF that] by (auto simp: abs16_def slt_def)
  then show ?thesis
    using assms by (auto simp: chebyshev_def distance_def on_grid_def max3_def Let_def max_def)
qed

definition nearest_inv :: "Coord \<Rightarrow> (OpenRegion \<times> Coord) list \<Rightarrow> int \<times> (OpenRegion \<times> Coord) option \<Rightarrow> bool" where
  "nearest_inv c seen acc \<longleftrightarrow>
     (seen = [] \<and> acc = (-1, None)) \<or>
     (\<exists>rt\<in>set seen. acc = (chebyshev (snd rt) c, Some rt) \<and>
        (\<forall>rt'\<in>set seen. chebyshev (snd rt) c \<le> chebyshev (snd rt') c))"

lemma nearest_inv_step:
  assumes "\<forall>rt\<in>set seen. 0 \<le> chebyshev (snd rt) c" and "nearest_inv c seen acc"
  shows "nearest_inv c (seen @ [x]) (nearest_step c acc x)"
proof (cases "seen = []")
  case True
  then have "nearest_step c acc x = (chebyshev (snd x) c, Some x)"
    using assms(2) by (simp add: nearest_inv_def nearest_step_def)
  then show ?thesis using True by (simp add: nearest_inv_def)
next
  case False
  then obtain rt where rt: "rt \<in> set seen" "acc = (chebyshev (snd rt) c, Some rt)"
    "\<forall>rt'\<in>set seen. chebyshev (snd rt) c \<le> chebyshev (snd rt') c"
    using assms(2) by (auto simp: nearest_inv_def)
  then have "0 \<le> chebyshev (snd rt) c" using assms(1) by simp
  then have step: "nearest_step c acc x =
      (if chebyshev (snd x) c < chebyshev (snd rt) c then (chebyshev (snd x) c, Some x) else acc)"
    by (simp add: nearest_step_def rt(2))
  show ?thesis
  proof (cases "chebyshev (snd x) c < chebyshev (snd rt) c")
    case True
    with rt(3) show ?thesis unfolding nearest_inv_def step
      by (intro disjI2 bexI [of _ x]) (auto intro: less_imp_le less_le_trans)
  next
    case False
    with rt show ?thesis unfolding nearest_inv_def step
      by (intro disjI2 bexI [of _ rt]) auto
  qed
qed

lemma nearest_fold:
  "\<forall>rt\<in>set (seen @ xs). 0 \<le> chebyshev (snd rt) c \<Longrightarrow> nearest_inv c seen acc \<Longrightarrow>
     nearest_inv c (seen @ xs) (foldl (nearest_step c) acc xs)"
proof (induction xs arbitrary: seen acc)
  case (Cons x xs)
  then show ?case
    using nearest_inv_step [of seen c acc x] Cons.IH [of "seen @ [x]" "nearest_step c acc x"] by simp
qed simp

lemma open_on_grid: "tile_open topo t \<Longrightarrow> on_grid t"
  by (auto simp: tile_open_def GetTileState_def in_bounds_def slt_def on_grid_def split: if_splits)

text \<open>
  NearestRegion answers with a real tile: when no tile is open it finds nothing; otherwise the
  tile it returns is open and belongs to the region it returns, its distance (the greatest of the
  three coordinate differences) is the reported one, and no open tile of the map is nearer.
\<close>

theorem nearest_region:
  assumes "on_grid c"
  shows "(NearestRegion (BuildRegionGraph topo) c = (-1, None) \<and> (\<forall>t. \<not> tile_open topo t)) \<or>
    (\<exists>r t. NearestRegion (BuildRegionGraph topo) c = (distance t c, Some (r, t)) \<and>
       tile_open topo t \<and> RegionAt (BuildRegionGraph topo) t = Some r \<and>
       (\<forall>t'. tile_open topo t' \<longrightarrow> distance t c \<le> distance t' c))"
proof -
  let ?g = "BuildRegionGraph topo"
  define xs where "xs = concat (map (\<lambda>r. map (Pair r) (rn_Tiles r)) (gr_Regions ?g))"
  have all: "tile_open topo t \<longleftrightarrow> (\<exists>r. (r, t) \<in> set xs)" for t
    using overlay_map.open_in_regions [where topo = topo and c = t]
    by (auto simp: xs_def BuildRegionGraph_def)
  have at: "RegionAt ?g t = Some r" if rt: "(r, t) \<in> set xs" for r t
  proof -
    obtain i where i: "i < length (gr_Regions ?g)" "gr_Regions ?g ! i = r" "t \<in> set (rn_Tiles r)"
      using rt by (auto simp: xs_def in_set_conv_nth)
    then have "gr_index ?g t = Some i"
      using overlay_map.graph_facts(3) [where topo = topo] by (simp add: BuildRegionGraph_def)
    then show ?thesis using i by (simp add: RegionAt_def)
  qed
  have cheb: "chebyshev t c = distance t c" if "(r, t) \<in> set xs" for r t
    using chebyshev_distance open_on_grid [of topo t] all assms that by blast
  then have "0 \<le> chebyshev (snd rt) c" if "rt \<in> set xs" for rt
    using that by (cases rt) (auto simp: distance_def)
  then have "nearest_inv c xs (NearestRegion ?g c)"
    using nearest_fold [of "[]" xs c "(-1, None)"]
    unfolding NearestRegion_def xs_def [symmetric] by (simp add: nearest_inv_def)
  then consider "xs = []" "NearestRegion ?g c = (-1, None)" |
    r t where "(r, t) \<in> set xs" "NearestRegion ?g c = (chebyshev t c, Some (r, t))"
      "\<forall>rt'\<in>set xs. chebyshev t c \<le> chebyshev (snd rt') c"
    by (auto simp: nearest_inv_def)
  then show ?thesis
  proof cases
    case 1
    then show ?thesis using all by simp
  next
    case 2
    then have "\<forall>t'. tile_open topo t' \<longrightarrow> distance t c \<le> distance t' c"
      using all cheb by (metis snd_conv)
    then show ?thesis using 2 all at cheb by auto
  qed
qed

theorem nearest_region_witness:
  "\<exists>r t. NearestRegion (BuildRegionGraph column_map) \<lparr>cd_X = 5, cd_Y = 0, cd_Z = 0\<rparr> =
       (distance t \<lparr>cd_X = 5, cd_Y = 0, cd_Z = 0\<rparr>, Some (r, t)) \<and> tile_open column_map t"
proof -
  have "tile_open column_map \<lparr>cd_X = 0, cd_Y = 0, cd_Z = 1\<rparr>"
    by (simp add: tile_open_def column_tiles)
  then show ?thesis
    using nearest_region [of "\<lparr>cd_X = 5, cd_Y = 0, cd_Z = 0\<rparr>" column_map] by (auto simp: on_grid_def)
qed

end
