(* ===== verification/Modifications.thy ===== *)
theory Modifications
  imports Regions
begin

text \<open>
  The record of what the fort has changed (\<open>internal/modifications/overlay.go\<close>, \<open>detector.go\<close>,
  \<open>chambers.go\<close>, \<open>types.go\<close>): a sparse map of modified tiles with its cached count and bounding box, the
  detector that compares each observed tile with the first one seen there, and the chambers, the connected
  groups of modified tiles. The package's \<open>Coordinate\<close> has the fields of \<open>topology.Coord\<close> and is modelled by
  the same record. A loop over a Go map takes the order it meets the keys in as an argument. Times are in
  nanoseconds.
\<close>

section \<open>Data\<close>

record MapBounds =
  mb_Width :: u16
  mb_Height :: u16
  mb_Depth :: u16

record ModRegion =
  mr_XMin :: i16
  mr_XMax :: i16
  mr_YMin :: i16
  mr_YMax :: i16
  mr_ZMin :: i16
  mr_ZMax :: i16

definition zero_ModRegion :: ModRegion where
  "zero_ModRegion = \<lparr>mr_XMin = 0, mr_XMax = 0, mr_YMin = 0, mr_YMax = 0, mr_ZMin = 0, mr_ZMax = 0\<rparr>"

datatype ModificationType =
  ModificationUnknown | ModificationDug | ModificationBuiltWall | ModificationBuiltFloor | ModificationBuiltRamp |
  ModificationChanneled | ModificationSmoothed | ModificationEngraved | ModificationDestroyed

record GraphMetadata =
  gm_NodeID :: string
  gm_NodeType :: string
  gm_AgentName :: string
  gm_Dependencies :: "string list"
  gm_Status :: string
  gm_Rationale :: string

record ModificationInfo =
  mi_Type :: ModificationType
  mi_OldTileType :: u16
  mi_NewTileType :: u16
  mi_DetectedAt :: go_time
  mi_CommandID :: u32
  mi_LastVerified :: go_time
  mi_GraphNode :: "GraphMetadata option"

record ModificationOverlay =
  mo_modifications :: "Coord \<rightharpoonup> ModificationInfo"
  mo_totalCount :: u32
  mo_lastUpdate :: go_time
  mo_mapBounds :: MapBounds
  mo_boundsComputed :: bool
  mo_cachedBounds :: ModRegion

definition NewModificationOverlay :: "go_time \<Rightarrow> MapBounds \<Rightarrow> ModificationOverlay" where
  "NewModificationOverlay now bds = \<lparr>mo_modifications = Map.empty, mo_totalCount = 0, mo_lastUpdate = now,
     mo_mapBounds = bds, mo_boundsComputed = False, mo_cachedBounds = zero_ModRegion\<rparr>"

section \<open>The overlay\<close>

text \<open>The guards every access starts with: the axis that is out of bounds, compared as \<open>int16\<close>.\<close>

datatype axis = AxisX | AxisY | AxisZ

definition bounds_error :: "MapBounds \<Rightarrow> Coord \<Rightarrow> axis option" where
  "bounds_error b c =
     (if slt (cd_X c) 0 \<or> \<not> slt (cd_X c) (mb_Width b) then Some AxisX
      else if slt (cd_Y c) 0 \<or> \<not> slt (cd_Y c) (mb_Height b) then Some AxisY
      else if slt (cd_Z c) 0 \<or> \<not> slt (cd_Z c) (mb_Depth b) then Some AxisZ
      else None)"

definition AddModification ::
  "go_time \<Rightarrow> Coord \<Rightarrow> ModificationInfo \<Rightarrow> ModificationOverlay \<Rightarrow> axis + ModificationOverlay" where
  "AddModification now coord info m = (case bounds_error (mo_mapBounds m) coord of
       Some a \<Rightarrow> Inl a
     | None \<Rightarrow>
       let existed = (mo_modifications m coord \<noteq> None);
           m = m\<lparr>mo_modifications := (mo_modifications m)(coord \<mapsto> info)\<rparr>;
           m = (if \<not> existed then m\<lparr>mo_totalCount := mo_totalCount m + 1\<rparr> else m)
       in Inr (m\<lparr>mo_lastUpdate := now, mo_boundsComputed := False\<rparr>))"

definition GetModification :: "ModificationOverlay \<Rightarrow> Coord \<Rightarrow> ModificationInfo option" where
  "GetModification m coord = (case bounds_error (mo_mapBounds m) coord of
       Some a \<Rightarrow> None
     | None \<Rightarrow> mo_modifications m coord)"

definition GetCount :: "ModificationOverlay \<Rightarrow> u32" where
  "GetCount m = mo_totalCount m"

text \<open>The loops for a bounding box, over coordinates; None before the first one.\<close>

definition widen :: "Coord \<Rightarrow> ModRegion option \<Rightarrow> ModRegion option" where
  "widen c acc = Some (case acc of
       None \<Rightarrow> \<lparr>mr_XMin = cd_X c, mr_XMax = cd_X c, mr_YMin = cd_Y c, mr_YMax = cd_Y c, mr_ZMin = cd_Z c, mr_ZMax = cd_Z c\<rparr>
     | Some b \<Rightarrow>
         let b = (if slt (cd_X c) (mr_XMin b) then b\<lparr>mr_XMin := cd_X c\<rparr> else b);
             b = (if slt (mr_XMax b) (cd_X c) then b\<lparr>mr_XMax := cd_X c\<rparr> else b);
             b = (if slt (cd_Y c) (mr_YMin b) then b\<lparr>mr_YMin := cd_Y c\<rparr> else b);
             b = (if slt (mr_YMax b) (cd_Y c) then b\<lparr>mr_YMax := cd_Y c\<rparr> else b);
             b = (if slt (cd_Z c) (mr_ZMin b) then b\<lparr>mr_ZMin := cd_Z c\<rparr> else b);
             b = (if slt (mr_ZMax b) (cd_Z c) then b\<lparr>mr_ZMax := cd_Z c\<rparr> else b)
         in b)"

definition bounding_box :: "Coord list \<Rightarrow> ModRegion" where
  "bounding_box cs = (case fold widen cs None of None \<Rightarrow> zero_ModRegion | Some b \<Rightarrow> b)"

definition GetBounds :: "Coord list \<Rightarrow> ModificationOverlay \<Rightarrow> ModRegion \<times> ModificationOverlay" where
  "GetBounds ord m =
     (if mo_boundsComputed m then (mo_cachedBounds m, m)
      else if mo_totalCount m = 0 then (zero_ModRegion, m)
      else let bounds = bounding_box ord
           in (bounds, m\<lparr>mo_cachedBounds := bounds, mo_boundsComputed := True\<rparr>))"

definition in_region :: "ModRegion \<Rightarrow> Coord \<Rightarrow> bool" where
  "in_region r c \<longleftrightarrow> \<not> slt (cd_X c) (mr_XMin r) \<and> \<not> slt (mr_XMax r) (cd_X c) \<and>
     \<not> slt (cd_Y c) (mr_YMin r) \<and> \<not> slt (mr_YMax r) (cd_Y c) \<and>
     \<not> slt (cd_Z c) (mr_ZMin r) \<and> \<not> slt (mr_ZMax r) (cd_Z c)"

definition GetModificationsInRegion :: "ModRegion \<Rightarrow> int \<Rightarrow> ModificationOverlay \<Rightarrow> Coord \<rightharpoonup> ModificationInfo" where
  "GetModificationsInRegion region since m = (\<lambda>coord. case mo_modifications m coord of
       None \<Rightarrow> None
     | Some info \<Rightarrow> if in_region region coord \<and> (since = 0 \<or> since < int (mi_DetectedAt info)) then Some info else None)"

definition GetAllModifications :: "ModificationOverlay \<Rightarrow> Coord \<rightharpoonup> ModificationInfo" where
  "GetAllModifications m = mo_modifications m"

definition links :: "ModRegion \<Rightarrow> go_time \<Rightarrow> Coord \<Rightarrow> ModificationInfo \<Rightarrow> bool" where
  "links region timestamp coord info \<longleftrightarrow> in_region region coord \<and>
     (let timeDiff = int (mi_DetectedAt info) - int timestamp
      in timeDiff \<ge> -5000000000 \<and> timeDiff \<le> 5000000000) \<and> mi_CommandID info = 0"

text \<open>One round of the loop over the keys.\<close>

definition link_one :: "u32 \<Rightarrow> ModRegion \<Rightarrow> go_time \<Rightarrow> Coord \<Rightarrow> int \<times> ModificationOverlay \<Rightarrow> int \<times> ModificationOverlay" where
  "link_one commandID region timestamp coord acc = (case acc of (linkedCount, m) \<Rightarrow>
     case mo_modifications m coord of
       None \<Rightarrow> (linkedCount, m)
     | Some info \<Rightarrow>
       if links region timestamp coord info
       then (linkedCount + 1, m\<lparr>mo_modifications := (mo_modifications m)(coord \<mapsto> info\<lparr>mi_CommandID := commandID\<rparr>)\<rparr>)
       else (linkedCount, m))"

definition LinkCommandToModifications ::
  "Coord list \<Rightarrow> u32 \<Rightarrow> ModRegion \<Rightarrow> go_time \<Rightarrow> ModificationOverlay \<Rightarrow> int \<times> ModificationOverlay" where
  "LinkCommandToModifications ord commandID region timestamp m = fold (link_one commandID region timestamp) ord (0, m)"

definition ClearModifications :: "go_time \<Rightarrow> ModificationOverlay \<Rightarrow> ModificationOverlay" where
  "ClearModifications now m = m\<lparr>mo_modifications := Map.empty, mo_totalCount := 0, mo_lastUpdate := now,
     mo_boundsComputed := False\<rparr>"

definition GetMemoryUsage :: "ModificationOverlay \<Rightarrow> u64" where
  "GetMemoryUsage m = ucast (mo_totalCount m) * 46"

section \<open>The detector\<close>

record baselineTile =
  bt_TileType :: u16
  bt_Flags :: u8

record Detector =
  dt_baseline :: "Coord \<rightharpoonup> baselineTile"
  dt_overlay :: ModificationOverlay

definition NewDetector :: "ModificationOverlay \<Rightarrow> Detector" where
  "NewDetector m = \<lparr>dt_baseline = Map.empty, dt_overlay = m\<rparr>"

definition shapeMask :: u8 where
  "shapeMask = FlagWall OR FlagFloor OR FlagVoid"

definition InferModificationTypeFromFlags :: "u8 \<Rightarrow> u8 \<Rightarrow> ModificationType" where
  "InferModificationTypeFromFlags oldFlags newFlags =
     (let oldShape = oldFlags AND shapeMask; newShape = newFlags AND shapeMask in
      if oldShape = FlagWall \<and> newShape = FlagFloor then ModificationDug
      else if oldShape = FlagWall \<and> newShape = FlagVoid then ModificationChanneled
      else if oldShape = FlagFloor \<and> newShape = FlagVoid then ModificationChanneled
      else if oldShape = FlagFloor \<and> newShape = FlagWall then ModificationBuiltWall
      else if oldShape = FlagVoid \<and> newShape = FlagWall then ModificationBuiltWall
      else if oldShape = FlagVoid \<and> newShape = FlagFloor then ModificationBuiltFloor
      else ModificationUnknown)"

text \<open>The end of a round, for a transition that was classified: an update of the record, or a new one.\<close>

definition record_modification ::
  "go_time \<Rightarrow> go_time \<Rightarrow> TileState \<Rightarrow> Coord \<Rightarrow> baselineTile \<Rightarrow> ModificationType \<Rightarrow> int \<Rightarrow> ModificationOverlay \<Rightarrow>
     int \<times> ModificationOverlay" where
  "record_modification now clock tile coord base modType detectedCount m = (case GetModification m coord of
       Some existingInfo \<Rightarrow>
         if mi_NewTileType existingInfo \<noteq> ts_TileType tile then
           (case AddModification clock coord (existingInfo\<lparr>mi_NewTileType := ts_TileType tile,
                mi_LastVerified := now, mi_Type := modType\<rparr>) m of
              Inl err \<Rightarrow> (detectedCount, m)
            | Inr m \<Rightarrow> (detectedCount, m))
         else (detectedCount, m)
     | None \<Rightarrow>
         (case AddModification clock coord \<lparr>mi_Type = modType, mi_OldTileType = bt_TileType base,
              mi_NewTileType = ts_TileType tile, mi_DetectedAt = now, mi_CommandID = 0,
              mi_LastVerified = now, mi_GraphNode = None\<rparr> m of
            Inl err \<Rightarrow> (detectedCount, m)
          | Inr m \<Rightarrow> (detectedCount + 1, m)))"

text \<open>One round of the loop: the number of new modifications so far, and the detector.\<close>

definition detect_tile :: "go_time \<Rightarrow> go_time \<Rightarrow> TileState \<Rightarrow> int \<times> Detector \<Rightarrow> int \<times> Detector" where
  "detect_tile now clock tile acc = (case acc of (detectedCount, d) \<Rightarrow>
     let coord = \<lparr>cd_X = ts_X tile, cd_Y = ts_Y tile, cd_Z = ts_Z tile\<rparr>;
         seen = \<lparr>bt_TileType = ts_TileType tile, bt_Flags = ts_Flags tile\<rparr> in
     case dt_baseline d coord of
       None \<Rightarrow> (detectedCount, d\<lparr>dt_baseline := (dt_baseline d)(coord \<mapsto> seen)\<rparr>)
     | Some base \<Rightarrow>
       let wasShapeless = (bt_Flags base AND shapeMask = 0);
           d = (if wasShapeless then d\<lparr>dt_baseline := (dt_baseline d)(coord \<mapsto> seen)\<rparr> else d);
           baseFlags = (if wasShapeless then FlagWall else bt_Flags base);
           modType = InferModificationTypeFromFlags baseFlags (ts_Flags tile) in
       if modType = ModificationUnknown then (detectedCount, d)
       else let (detectedCount, m) = record_modification now clock tile coord base modType detectedCount (dt_overlay d)
         in (detectedCount, d\<lparr>dt_overlay := m\<rparr>))"

definition DetectModifications :: "go_time \<Rightarrow> go_time \<Rightarrow> TileState list \<Rightarrow> Detector \<Rightarrow> int \<times> Detector" where
  "DetectModifications now clock tiles d = fold (detect_tile now clock) tiles (0, d)"

definition baseline_of :: "TileState \<Rightarrow> Coord \<times> baselineTile" where
  "baseline_of tile = (\<lparr>cd_X = ts_X tile, cd_Y = ts_Y tile, cd_Z = ts_Z tile\<rparr>,
     \<lparr>bt_TileType = ts_TileType tile, bt_Flags = ts_Flags tile\<rparr>)"

definition InitializeBaseline :: "TileState list \<Rightarrow> Detector \<Rightarrow> Detector" where
  "InitializeBaseline tiles d = d\<lparr>dt_baseline := fold (\<lambda>t m. m(fst (baseline_of t) \<mapsto> snd (baseline_of t))) tiles Map.empty\<rparr>"

section \<open>Chambers\<close>

record Chamber =
  ch_ID :: u32
  ch_Bounds :: ModRegion
  ch_TileCount :: u32
  ch_Tiles :: "Coord list"
  ch_Connections :: "u32 list"

definition directions :: "Coord \<Rightarrow> Coord list" where
  "directions c =
     [c\<lparr>cd_Y := cd_Y c - 1\<rparr>, c\<lparr>cd_Y := cd_Y c + 1\<rparr>, c\<lparr>cd_X := cd_X c + 1\<rparr>,
      c\<lparr>cd_X := cd_X c - 1\<rparr>, c\<lparr>cd_Z := cd_Z c + 1\<rparr>, c\<lparr>cd_Z := cd_Z c - 1\<rparr>]"

record chamber_fill =
  cf_queue :: "Coord list"
  cf_result :: "Coord list"
  cf_visited :: "Coord set"

definition chamber_visit :: "(Coord \<Rightarrow> bool) \<Rightarrow> chamber_fill \<Rightarrow> Coord \<Rightarrow> chamber_fill" where
  "chamber_visit modified st neighbor =
     (if neighbor \<in> cf_visited st then st
      else if \<not> modified neighbor then st
      else st\<lparr>cf_visited := insert neighbor (cf_visited st), cf_queue := cf_queue st @ [neighbor]\<rparr>)"

text \<open>The measure is that of the fill in \<open>Regions\<close>.\<close>

definition fill_size :: "chamber_fill \<Rightarrow> nat" where
  "fill_size st = 2 * card (- cf_visited st) + length (cf_queue st)"

lemma chamber_visit_size: "fill_size (chamber_visit modified st n) \<le> fill_size st"
proof (cases "n \<in> cf_visited st")
  case False
  then have "- cf_visited st = insert n (- insert n (cf_visited st))" by auto
  then have "card (- cf_visited st) = Suc (card (- insert n (cf_visited st)))"
    by (metis ComplD card_insert_disjoint finite insertI1)
  then show ?thesis by (simp add: chamber_visit_def fill_size_def)
qed (simp add: chamber_visit_def)

lemma chamber_visits_size: "fill_size (foldl (chamber_visit modified) st ns) \<le> fill_size st"
  by (induction ns arbitrary: st) (auto intro: le_trans chamber_visit_size)

function chamber_loop :: "(Coord \<Rightarrow> bool) \<Rightarrow> chamber_fill \<Rightarrow> chamber_fill" where
  "chamber_loop modified st = (case cf_queue st of
       [] \<Rightarrow> st
     | current # queue \<Rightarrow> chamber_loop modified (foldl (chamber_visit modified)
         (st\<lparr>cf_queue := queue, cf_result := cf_result st @ [current]\<rparr>) (directions current)))"
  by pat_completeness auto
termination
proof (relation "measure (\<lambda>(modified, st). fill_size st)")
  fix modified :: "Coord \<Rightarrow> bool" and st :: chamber_fill and current queue
  let ?st = "st\<lparr>cf_queue := queue, cf_result := cf_result st @ [current]\<rparr>"
  assume "cf_queue st = current # queue"
  then have "fill_size ?st < fill_size st" by (simp add: fill_size_def)
  then show "((modified, foldl (chamber_visit modified) ?st (directions current)), modified, st)
      \<in> measure (\<lambda>(modified, st). fill_size st)"
    using chamber_visits_size [of modified ?st "directions current"] by simp
qed simp

declare chamber_loop.simps [simp del]

definition chamber_floodFill :: "Coord \<Rightarrow> (Coord \<Rightarrow> bool) \<Rightarrow> Coord set \<Rightarrow> Coord list \<times> Coord set" where
  "chamber_floodFill start modified visited =
     (let st = chamber_loop modified \<lparr>cf_queue = [start], cf_result = [], cf_visited = insert start visited\<rparr>
      in (cf_result st, cf_visited st))"

definition createChamber :: "u32 \<Rightarrow> Coord list \<Rightarrow> Chamber" where
  "createChamber i tiles =
     (if tiles = [] then \<lparr>ch_ID = i, ch_Bounds = zero_ModRegion, ch_TileCount = 0, ch_Tiles = [], ch_Connections = []\<rparr>
      else \<lparr>ch_ID = i, ch_Bounds = bounding_box tiles, ch_TileCount = of_nat (length tiles), ch_Tiles = tiles,
        ch_Connections = []\<rparr>)"

text \<open>One round of the loop over the modifications: the visited tiles, the chambers and the next id.\<close>

definition extract_step :: "(Coord \<Rightarrow> bool) \<Rightarrow> Coord \<Rightarrow> Coord set \<times> Chamber list \<times> u32 \<Rightarrow> Coord set \<times> Chamber list \<times> u32" where
  "extract_step modified coord acc = (case acc of (visited, chambers, nextChamberID) \<Rightarrow>
     if coord \<in> visited then (visited, chambers, nextChamberID)
     else let (tiles, visited) = chamber_floodFill coord modified visited in
       if tiles = [] then (visited, chambers, nextChamberID)
       else (visited, chambers @ [createChamber nextChamberID tiles], nextChamberID + 1))"

text \<open>
  \<open>ord\<close> lists the modifications, \<open>ord'\<close> those that the region query returns. The query's time is a hundred
  years before the last update.
\<close>

definition far_past :: "ModificationOverlay \<Rightarrow> int" where
  "far_past m = int (mo_lastUpdate m) - 24 * 365 * 100 * 3600000000000"

definition ExtractChambers :: "Coord list \<Rightarrow> Coord list \<Rightarrow> ModificationOverlay \<Rightarrow> Chamber list \<times> ModificationOverlay" where
  "ExtractChambers ord ord' m =
     (let (allBounds, m) = GetBounds ord m in
      if mr_XMin allBounds = 0 \<and> mr_XMax allBounds = 0 \<and> GetCount m = 0 then ([], m)
      else let allMods = GetModificationsInRegion allBounds (far_past m) m in
       if allMods = Map.empty then ([], m)
       else (fst (snd (fold (extract_step (\<lambda>c. allMods c \<noteq> None)) ord' ({}, [], 1))), m))"

definition GetChambersByLevel :: "Chamber list \<Rightarrow> i16 \<Rightarrow> Chamber list" where
  "GetChambersByLevel chambers z =
     filter (\<lambda>ch. \<not> slt z (mr_ZMin (ch_Bounds ch)) \<and> \<not> slt (mr_ZMax (ch_Bounds ch)) z) chambers"

section \<open>Bounding boxes\<close>

text \<open>The least region that contains the coordinates: every side is touched.\<close>

definition tight_box :: "ModRegion \<Rightarrow> Coord set \<Rightarrow> bool" where
  "tight_box b S \<longleftrightarrow> (\<forall>c\<in>S. in_region b c) \<and>
     mr_XMin b \<in> cd_X ` S \<and> mr_XMax b \<in> cd_X ` S \<and> mr_YMin b \<in> cd_Y ` S \<and> mr_YMax b \<in> cd_Y ` S \<and>
     mr_ZMin b \<in> cd_Z ` S \<and> mr_ZMax b \<in> cd_Z ` S"

lemma widen_first: "widen c None = Some b \<Longrightarrow> tight_box b {c}"
  by (auto simp: widen_def tight_box_def in_region_def slt_def)

lemma widen_fields:
  assumes "widen c (Some b) = Some b'"
  shows "mr_XMin b' = (if slt (cd_X c) (mr_XMin b) then cd_X c else mr_XMin b)"
    "mr_XMax b' = (if slt (mr_XMax b) (cd_X c) then cd_X c else mr_XMax b)"
    "mr_YMin b' = (if slt (cd_Y c) (mr_YMin b) then cd_Y c else mr_YMin b)"
    "mr_YMax b' = (if slt (mr_YMax b) (cd_Y c) then cd_Y c else mr_YMax b)"
    "mr_ZMin b' = (if slt (cd_Z c) (mr_ZMin b) then cd_Z c else mr_ZMin b)"
    "mr_ZMax b' = (if slt (mr_ZMax b) (cd_Z c) then cd_Z c else mr_ZMax b)"
  using assms by (auto simp: widen_def Let_def)

lemma widen_more:
  assumes "tight_box b S" and "widen c (Some b) = Some b'"
  shows "tight_box b' (insert c S)"
  unfolding tight_box_def in_region_def widen_fields [OF assms(2)]
  by (intro conjI) (use assms(1) in \<open>auto simp: tight_box_def in_region_def slt_def\<close>)

lemma widen_some: obtains b where "widen c acc = Some b"
  by (simp add: widen_def)

lemma fold_widen: "tight_box b S \<Longrightarrow> \<exists>b'. fold widen cs (Some b) = Some b' \<and> tight_box b' (S \<union> set cs)"
proof (induction cs arbitrary: b S)
  case (Cons c cs)
  obtain b1 where b1: "widen c (Some b) = Some b1" by (rule widen_some)
  show ?case using Cons.IH [OF widen_more [OF Cons.prems b1]] b1 by (simp add: Un_commute)
qed simp

lemma bounding_box_tight: "cs \<noteq> [] \<Longrightarrow> tight_box (bounding_box cs) (set cs)"
proof (cases cs)
  case (Cons c cs')
  obtain b where b: "widen c None = Some b" by (rule widen_some)
  obtain b' where "fold widen cs' (Some b) = Some b'" "tight_box b' ({c} \<union> set cs')"
    using fold_widen [OF widen_first [OF b]] by blast
  then show ?thesis by (simp add: Cons bounding_box_def b)
qed simp

text \<open>A tight box is determined by the set, so the order of the loop does not matter.\<close>

lemma tight_box_unique:
  assumes "tight_box a S" and "tight_box b S"
  shows "a = b"
proof -
  have eq: "x = y" if "\<not> slt x y" "\<not> slt y x" for x y :: i16
  proof -
    have "sint x = sint y" using that by (simp add: slt_def)
    then show ?thesis by (rule signed_word_eqI)
  qed
  have "mr_XMin a = mr_XMin b" "mr_XMax a = mr_XMax b" "mr_YMin a = mr_YMin b" "mr_YMax a = mr_YMax b"
    "mr_ZMin a = mr_ZMin b" "mr_ZMax a = mr_ZMax b"
    by (rule eq; use assms in \<open>auto simp: tight_box_def in_region_def\<close>)+
  then show ?thesis by (cases a; cases b) simp
qed

section \<open>The overlay's books\<close>

text \<open>
  The count is the number of modified tiles (modulo the width of the counter), every one of them lies on the map,
  and a cached box is the box of the modified tiles.
\<close>

definition overlay_inv :: "ModificationOverlay \<Rightarrow> bool" where
  "overlay_inv m \<longleftrightarrow> mo_totalCount m = of_nat (card (dom (mo_modifications m))) \<and>
     (\<forall>c\<in>dom (mo_modifications m). bounds_error (mo_mapBounds m) c = None) \<and>
     (mo_boundsComputed m \<longrightarrow> tight_box (mo_cachedBounds m) (dom (mo_modifications m)))"

lemma finite_mods: "finite (dom m)" for m :: "Coord \<rightharpoonup> 'a"
  by (rule finite)

lemma overlay_inv_New: "overlay_inv (NewModificationOverlay now b)"
  by (simp add: overlay_inv_def NewModificationOverlay_def)

lemma AddModification_cases:
  obtains (rejected) a where "AddModification now c info m = Inl a" and "bounds_error (mo_mapBounds m) c = Some a"
  | (added) m' where "AddModification now c info m = Inr m'" and "bounds_error (mo_mapBounds m) c = None"
    and "mo_modifications m' = (mo_modifications m)(c \<mapsto> info)" and "mo_mapBounds m' = mo_mapBounds m"
    and "mo_totalCount m' = (if c \<in> dom (mo_modifications m) then mo_totalCount m else mo_totalCount m + 1)"
    and "\<not> mo_boundsComputed m'" and "mo_lastUpdate m' = now"
proof (cases "bounds_error (mo_mapBounds m) c")
  case None
  then show ?thesis
    by (cases "mo_modifications m c") (auto intro!: added simp: AddModification_def Let_def)
qed (rule rejected, simp_all add: AddModification_def)

lemma AddModification_inv:
  assumes "overlay_inv m" and "AddModification now c info m = Inr m'"
  shows "overlay_inv m'"
proof (cases rule: AddModification_cases [of now c info m])
  case (added m1)
  have m1: "m1 = m'" using added(1) assms(2) by simp
  have "card (dom (mo_modifications m')) =
      (if c \<in> dom (mo_modifications m) then card (dom (mo_modifications m)) else Suc (card (dom (mo_modifications m))))"
    unfolding added(3) [unfolded m1] by (simp add: insert_absorb)
  then show ?thesis
    using assms(1) added [unfolded m1] by (auto simp: overlay_inv_def split: if_splits)
qed (use assms(2) in simp)

text \<open>A count that fits the counter tells an empty overlay from one that is not.\<close>

lemma count_zero:
  assumes "overlay_inv m" and "card (dom (mo_modifications m)) < 2 ^ 32"
  shows "mo_totalCount m = 0 \<longleftrightarrow> mo_modifications m = Map.empty"
proof -
  have "unat (mo_totalCount m) = card (dom (mo_modifications m))"
    using assms by (simp add: overlay_inv_def unat_of_nat_fits)
  then show ?thesis by (metis card_0_eq dom_eq_empty_conv finite_mods unat_eq_0)
qed

lemma GetBounds_correct:
  assumes inv: "overlay_inv m" and "card (dom (mo_modifications m)) < 2 ^ 32" and "set ord = dom (mo_modifications m)"
    and run: "GetBounds ord m = (b, m')"
  shows "overlay_inv m'" and "mo_modifications m' = mo_modifications m" and "mo_totalCount m' = mo_totalCount m"
    and "mo_lastUpdate m' = mo_lastUpdate m"
    and "if mo_modifications m = Map.empty then b = zero_ModRegion \<or> mo_boundsComputed m else tight_box b (dom (mo_modifications m))"
proof -
  have "ord \<noteq> []" if "mo_modifications m \<noteq> Map.empty"
    using that assms(3) by (metis dom_eq_empty_conv list.set(1))
  then have "tight_box (bounding_box ord) (dom (mo_modifications m))" if "mo_modifications m \<noteq> Map.empty"
    using bounding_box_tight that assms(3) by metis
  then show "overlay_inv m'" and "mo_modifications m' = mo_modifications m" and "mo_totalCount m' = mo_totalCount m"
    and "mo_lastUpdate m' = mo_lastUpdate m"
    and "if mo_modifications m = Map.empty then b = zero_ModRegion \<or> mo_boundsComputed m else tight_box b (dom (mo_modifications m))"
    using run inv count_zero [OF inv assms(2)]
    by (auto simp: GetBounds_def Let_def overlay_inv_def split: if_splits)
qed

section \<open>The fill of a chamber\<close>

lemma set_directions: "set (directions c) = set (neighbors c)"
  by (auto simp: directions_def neighbors_def)

lemma chamber_visits:
  "\<exists>new. foldl (chamber_visit modified) st ns = st\<lparr>cf_visited := cf_visited st \<union> set new, cf_queue := cf_queue st @ new\<rparr> \<and>
     set new = {n \<in> set ns. modified n \<and> n \<notin> cf_visited st} \<and> distinct new"
proof (induction ns arbitrary: st)
  case (Cons n ns)
  show ?case
  proof (cases "n \<in> cf_visited st \<or> \<not> modified n")
    case True
    then have "chamber_visit modified st n = st" by (auto simp: chamber_visit_def)
    then show ?thesis using Cons.IH [of st] True by auto
  next
    case False
    then have v: "chamber_visit modified st n = st\<lparr>cf_visited := insert n (cf_visited st), cf_queue := cf_queue st @ [n]\<rparr>"
      by (simp add: chamber_visit_def)
    obtain new where "foldl (chamber_visit modified) (chamber_visit modified st n) ns = (chamber_visit modified st n)
        \<lparr>cf_visited := cf_visited (chamber_visit modified st n) \<union> set new, cf_queue := cf_queue (chamber_visit modified st n) @ new\<rparr>"
      "set new = {m \<in> set ns. modified m \<and> m \<notin> cf_visited (chamber_visit modified st n)}" "distinct new"
      using Cons.IH [of "chamber_visit modified st n"] by blast
    then show ?thesis by (intro exI [of _ "n # new"]) (use False in \<open>auto simp: v\<close>)
  qed
qed (rule exI [of _ "[]"], simp)

definition fill_inv :: "(Coord \<Rightarrow> bool) \<Rightarrow> Coord \<Rightarrow> Coord set \<Rightarrow> chamber_fill \<Rightarrow> bool" where
  "fill_inv modified start V st \<longleftrightarrow> (let found = cf_result st @ cf_queue st in
     cf_visited st = V \<union> set found \<and> V \<inter> set found = {} \<and> distinct found \<and> start \<in> set found \<and>
     (\<forall>t\<in>set found. connected_open modified start t) \<and>
     (\<forall>t\<in>set (cf_result st). \<forall>n. open_adj modified t n \<longrightarrow> n \<in> cf_visited st))"

lemma fill_inv_step:
  assumes inv: "fill_inv modified start V st" and q: "cf_queue st = c # queue"
  shows "fill_inv modified start V (foldl (chamber_visit modified)
    (st\<lparr>cf_queue := queue, cf_result := cf_result st @ [c]\<rparr>) (directions c))"
proof -
  let ?st = "st\<lparr>cf_queue := queue, cf_result := cf_result st @ [c]\<rparr>"
  obtain new where st': "foldl (chamber_visit modified) ?st (directions c) =
      ?st\<lparr>cf_visited := cf_visited st \<union> set new, cf_queue := queue @ new\<rparr>"
    and new: "set new = {n \<in> set (neighbors c). modified n \<and> n \<notin> cf_visited st}" "distinct new"
    using chamber_visits [of modified ?st "directions c"] by (auto simp: set_directions)
  have c: "connected_open modified start c" using inv q by (simp add: fill_inv_def Let_def)
  then have mc: "modified c" by (simp add: connected_open_def)
  have "connected_open modified start n" if "n \<in> set new" for n
    using connected_open_step [OF c] that new(1) mc by (auto simp: open_adj_def)
  moreover have "n \<in> cf_visited st \<union> set new" if "open_adj modified c n" for n
    using that new(1) by (auto simp: open_adj_def)
  ultimately show ?thesis
    unfolding st' using inv new q by (auto simp: fill_inv_def Let_def)
qed

lemma chamber_loop_inv:
  "fill_inv modified start V st \<Longrightarrow>
     fill_inv modified start V (chamber_loop modified st) \<and> cf_queue (chamber_loop modified st) = []"
proof (induction modified st rule: chamber_loop.induct)
  case (1 modified st)
  show ?case
  proof (cases "cf_queue st")
    case Nil
    with 1 show ?thesis by (simp add: chamber_loop.simps [of modified st])
  next
    case (Cons c queue)
    with 1 fill_inv_step [OF 1(2) Cons] show ?thesis by (simp add: chamber_loop.simps [of modified st])
  qed
qed

lemma chamber_floodFill_component:
  assumes "modified start" and "start \<notin> V" and "adj_closed modified V"
    and "chamber_floodFill start modified V = (tiles, V')"
  shows "set tiles = component modified start" and "distinct tiles" and "V' = V \<union> component modified start"
    and "V \<inter> component modified start = {}"
proof -
  let ?st0 = "\<lparr>cf_queue = [start], cf_result = [], cf_visited = insert start V\<rparr>"
  define st where "st = chamber_loop modified ?st0"
  have "fill_inv modified start V ?st0" using assms(1,2) by (simp add: fill_inv_def connected_open_def)
  then have inv: "fill_inv modified start V st" and drained: "cf_queue st = []"
    using chamber_loop_inv [of modified start V ?st0] by (simp_all add: st_def)
  have r: "tiles = cf_result st" "V' = cf_visited st"
    using assms(4) by (auto simp: chamber_floodFill_def st_def Let_def)
  have disj: "V \<inter> set tiles = {}" and vis: "V' = V \<union> set tiles" and start: "start \<in> set tiles"
    and conn: "\<And>t. t \<in> set tiles \<Longrightarrow> connected_open modified start t"
    and adj: "\<And>t n. t \<in> set tiles \<Longrightarrow> open_adj modified t n \<Longrightarrow> n \<in> V'"
    using inv drained unfolding r by (simp_all add: fill_inv_def Let_def) blast
  have closed: "n \<in> set tiles" if "t \<in> set tiles" "open_adj modified t n" for t n
    using adj [OF that] assms(3) open_adj_sym [OF that(2)] that(1) disj by (auto simp: vis adj_closed_def)
  have "b \<in> set tiles" if "(open_adj modified)\<^sup>*\<^sup>* start b" for b
    using that by (induction rule: rtranclp_induct) (use start closed in blast)+
  then show tiles: "set tiles = component modified start"
    using conn by (auto simp: component_def connected_open_def)
  show "distinct tiles" using inv by (simp add: r fill_inv_def Let_def)
  show "V' = V \<union> component modified start" "V \<inter> component modified start = {}"
    using disj tiles vis by simp_all
qed

section \<open>The chambers are the connected components\<close>

definition chamber_ok :: "(Coord \<Rightarrow> bool) \<Rightarrow> nat \<Rightarrow> Chamber \<Rightarrow> bool" where
  "chamber_ok modified i ch \<longleftrightarrow> ch_ID ch = of_nat (Suc i) \<and> distinct (ch_Tiles ch) \<and>
     (\<exists>s. modified s \<and> set (ch_Tiles ch) = component modified s) \<and>
     tight_box (ch_Bounds ch) (set (ch_Tiles ch)) \<and> ch_TileCount ch = of_nat (card (set (ch_Tiles ch)))"

definition extract_inv :: "(Coord \<Rightarrow> bool) \<Rightarrow> Coord set \<times> Chamber list \<times> u32 \<Rightarrow> bool" where
  "extract_inv modified acc \<longleftrightarrow> (case acc of (V, chs, k) \<Rightarrow>
     adj_closed modified V \<and> (\<Union>ch\<in>set chs. set (ch_Tiles ch)) = V \<and> k = of_nat (Suc (length chs)) \<and>
     (\<forall>i<length chs. chamber_ok modified i (chs ! i)) \<and>
     (\<forall>i<length chs. \<forall>j<length chs. i \<noteq> j \<longrightarrow> set (ch_Tiles (chs ! i)) \<inter> set (ch_Tiles (chs ! j)) = {}))"

lemma component_self: "modified s \<Longrightarrow> s \<in> component modified s"
  by (simp add: component_def connected_open_def)

lemma createChamber_ok:
  assumes "modified s" and "set tiles = component modified s" and "distinct tiles"
  shows "chamber_ok modified i (createChamber (of_nat (Suc i)) tiles)" and "ch_Tiles (createChamber k tiles) = tiles"
proof -
  have "tiles \<noteq> []" using component_self [of modified s, OF assms(1)] assms(2) by auto
  then show "chamber_ok modified i (createChamber (of_nat (Suc i)) tiles)" and "ch_Tiles (createChamber k tiles) = tiles"
    using assms bounding_box_tight [of tiles] distinct_card [of tiles]
    by (auto simp: chamber_ok_def createChamber_def)
qed

lemma extract_step_inv:
  assumes inv: "extract_inv modified (V, chs, k)" and "modified c" and run: "extract_step modified c (V, chs, k) = (V', chs', k')"
  shows "extract_inv modified (V', chs', k')" and "V \<subseteq> V'" and "c \<in> V'"
proof -
  have "extract_inv modified (V', chs', k') \<and> V \<subseteq> V' \<and> c \<in> V'"
  proof (cases "c \<in> V")
    case True
    then show ?thesis using inv run by (auto simp: extract_step_def)
  next
    case False
    obtain tiles W where f: "chamber_floodFill c modified V = (tiles, W)" by fastforce
    have closed: "adj_closed modified V" and cover: "(\<Union>ch\<in>set chs. set (ch_Tiles ch)) = V" and k: "k = of_nat (Suc (length chs))"
      using inv by (simp_all add: extract_inv_def)
    note t = chamber_floodFill_component [OF assms(2) False closed f]
    have c: "c \<in> set tiles" using component_self [of modified c] assms(2) t(1) by simp
    let ?ch = "createChamber k tiles"
    have ok: "chamber_ok modified (length chs) ?ch" "ch_Tiles ?ch = tiles"
      unfolding k by (rule createChamber_ok [OF assms(2) t(1,2)])+
    have new: "V' = V \<union> set tiles" "chs' = chs @ [?ch]" "k' = of_nat (Suc (length chs'))"
    proof -
      have "tiles \<noteq> []" using c by auto
      then have "(V', chs', k') = (W, chs @ [?ch], k + 1)" using run False by (simp add: extract_step_def f)
      then show "V' = V \<union> set tiles" "chs' = chs @ [?ch]" "k' = of_nat (Suc (length chs'))"
        by (simp_all add: t(1,3) k)
    qed
    have "adj_closed modified V'"
      using closed component_closed [of modified c] by (auto simp: new(1) t(1) adj_closed_def)
    moreover have "(\<Union>ch\<in>set chs'. set (ch_Tiles ch)) = V'" using cover by (simp add: new(1,2) ok(2) Un_commute)
    moreover have "\<forall>i<length chs'. chamber_ok modified i (chs' ! i)"
      using inv ok(1) by (auto simp: new(2) nth_append extract_inv_def less_Suc_eq)
    moreover have "\<forall>i<length chs'. \<forall>j<length chs'. i \<noteq> j \<longrightarrow> set (ch_Tiles (chs' ! i)) \<inter> set (ch_Tiles (chs' ! j)) = {}"
    proof -
    have "set (ch_Tiles (chs ! i)) \<inter> set tiles = {}" if "i < length chs" for i
    proof -
      have "set (ch_Tiles (chs ! i)) \<subseteq> V" using that cover nth_mem by blast
      then show ?thesis using t(4) t(1) by auto
    qed
    moreover have "\<forall>i<length chs. \<forall>j<length chs. i \<noteq> j \<longrightarrow> set (ch_Tiles (chs ! i)) \<inter> set (ch_Tiles (chs ! j)) = {}"
      using inv by (simp add: extract_inv_def)
    ultimately show ?thesis
      by (auto simp: new(2) nth_append ok(2) less_Suc_eq)
    qed
    ultimately show ?thesis using new(1,3) c by (simp add: extract_inv_def)
  qed
  then show "extract_inv modified (V', chs', k')" and "V \<subseteq> V'" and "c \<in> V'" by simp_all
qed

lemma extract_loop:
  "extract_inv modified (V, chs, k) \<Longrightarrow> (\<And>c. c \<in> set cs \<Longrightarrow> modified c) \<Longrightarrow>
     fold (extract_step modified) cs (V, chs, k) = (V', chs', k') \<Longrightarrow>
     extract_inv modified (V', chs', k') \<and> V \<union> set cs \<subseteq> V'"
proof (induction cs arbitrary: V chs k)
  case (Cons c cs)
  obtain V1 chs1 k1 where one: "extract_step modified c (V, chs, k) = (V1, chs1, k1)" by (metis prod_cases3)
  have mc: "modified c" using Cons.prems(2) by simp
  note s = extract_step_inv [OF Cons.prems(1) mc one]
  have "extract_inv modified (V', chs', k') \<and> V1 \<union> set cs \<subseteq> V'"
    using Cons.prems(2,3) one by (intro Cons.IH [OF s(1)]) simp_all
  then show ?case using s(2,3) by auto
qed simp

text \<open>The query of \<open>ExtractChambers\<close> returns everything, when nothing is a hundred years old.\<close>

lemma query_all:
  assumes "tight_box b (dom (mo_modifications m))"
    and "\<And>c info. mo_modifications m c = Some info \<Longrightarrow> t < int (mi_DetectedAt info)"
  shows "GetModificationsInRegion b t m = mo_modifications m"
proof
  fix c show "GetModificationsInRegion b t m c = mo_modifications m c"
    using assms by (cases "mo_modifications m c") (auto simp: GetModificationsInRegion_def tight_box_def)
qed

lemma ExtractChambers_inv:
  assumes inv: "overlay_inv m" and small: "card (dom (mo_modifications m)) < 2 ^ 32"
    and ord: "set ord = dom (mo_modifications m)" "set ord' = dom (mo_modifications m)"
    and recent: "\<And>c info. mo_modifications m c = Some info \<Longrightarrow> far_past m < int (mi_DetectedAt info)"
    and run: "ExtractChambers ord ord' m = (chs, m')"
  obtains V k where "extract_inv (\<lambda>c. mo_modifications m c \<noteq> None) (V, chs, k)" and "V = dom (mo_modifications m)"
proof -
  let ?P = "\<lambda>c. mo_modifications m c \<noteq> None"
  have start: "extract_inv ?P ({}, [], 1)" by (simp add: extract_inv_def adj_closed_def)
  obtain b m1 where b: "GetBounds ord m = (b, m1)" by fastforce
  note gb = GetBounds_correct [OF inv small ord(1) b]
  show ?thesis
  proof (cases "mo_modifications m = Map.empty")
    case True
    then have "\<not> mo_boundsComputed m" using inv by (auto simp: overlay_inv_def tight_box_def)
    moreover have "mo_totalCount m = 0" using count_zero [OF inv small] True by simp
    ultimately have "chs = []"
      using run gb(5) True by (auto simp: ExtractChambers_def b GetCount_def gb(3) zero_ModRegion_def)
    then show ?thesis using that [of "{}" 1] start True by simp
  next
    case False
    have tight: "tight_box b (dom (mo_modifications m1))" using gb(5) False by (simp add: gb(2))
    have "GetModificationsInRegion b (far_past m1) m1 = mo_modifications m1"
      by (rule query_all [OF tight]) (use recent in \<open>simp add: gb(2) far_past_def gb(4)\<close>)
    then have q: "GetModificationsInRegion b (far_past m1) m1 = mo_modifications m" by (simp add: gb(2))
    have "mo_totalCount m \<noteq> 0" using count_zero [OF inv small] False by simp
    then have chs: "chs = fst (snd (fold (extract_step ?P) ord' ({}, [], 1)))"
      using run False by (auto simp: ExtractChambers_def b GetCount_def gb(3) q Let_def)
    obtain V k where f: "fold (extract_step ?P) ord' ({}, [], 1) = (V, chs, k)"
      using chs by (metis prod.collapse)
    have l: "extract_inv ?P (V, chs, k) \<and> {} \<union> set ord' \<subseteq> V"
      by (rule extract_loop [OF start _ f]) (use ord(2) in auto)
    have "V \<subseteq> dom (mo_modifications m)" using l by (auto simp: extract_inv_def adj_closed_def)
    moreover have "dom (mo_modifications m) \<subseteq> V" using l ord(2) by simp
    ultimately show ?thesis using l that by blast
  qed
qed

text \<open>
  C32: The chambers are the rooms: every modified tile is in exactly one chamber, two modified tiles are
  in the same chamber exactly when a path of modified tiles, from neighbour to neighbour, joins them,
  the tiles of a chamber are listed once, its box is the least that contains them, and the chambers
  are numbered from 1, in whatever order Go meets the map's keys.
\<close>

theorem chambers_are_components:
  assumes "overlay_inv m" and "card (dom (mo_modifications m)) < 2 ^ 32"
    and "set ord = dom (mo_modifications m)" and "set ord' = dom (mo_modifications m)"
    and "\<And>c info. mo_modifications m c = Some info \<Longrightarrow> far_past m < int (mi_DetectedAt info)"
    and "ExtractChambers ord ord' m = (chs, m')"
  shows "(\<forall>c. mo_modifications m c \<noteq> None \<longleftrightarrow> (\<exists>!i. i < length chs \<and> c \<in> set (ch_Tiles (chs ! i)))) \<and>
    (\<forall>ch\<in>set chs. \<forall>a\<in>set (ch_Tiles ch). \<forall>b.
       b \<in> set (ch_Tiles ch) \<longleftrightarrow> connected_open (\<lambda>c. mo_modifications m c \<noteq> None) a b) \<and>
    (\<forall>ch\<in>set chs. distinct (ch_Tiles ch) \<and> tight_box (ch_Bounds ch) (set (ch_Tiles ch))) \<and>
    (\<forall>i<length chs. ch_ID (chs ! i) = of_nat (i + 1))"
proof -
  let ?P = "\<lambda>c. mo_modifications m c \<noteq> None"
  obtain V k where inv: "extract_inv ?P (V, chs, k)" and V: "V = dom (mo_modifications m)"
    by (rule ExtractChambers_inv [OF assms])
  have ok: "chamber_ok ?P i (chs ! i)" if "i < length chs" for i using inv that by (simp add: extract_inv_def)
  have disj: "i = j" if "i < length chs" "j < length chs" "c \<in> set (ch_Tiles (chs ! i))" "c \<in> set (ch_Tiles (chs ! j))" for i j c
    using inv that unfolding extract_inv_def by auto
  have mem: "(\<exists>ch\<in>set chs. Q ch) \<longleftrightarrow> (\<exists>i<length chs. Q (chs ! i))" for Q by (metis in_set_conv_nth)
  have "(\<Union>ch\<in>set chs. set (ch_Tiles ch)) = V" using inv by (simp add: extract_inv_def)
  then have cover: "c \<in> V \<longleftrightarrow> (\<exists>i<length chs. c \<in> set (ch_Tiles (chs ! i)))" for c
    unfolding mem [of "\<lambda>ch. c \<in> set (ch_Tiles ch)", symmetric] by blast
  have ok': "\<exists>i. chamber_ok ?P i ch" if "ch \<in> set chs" for ch using that ok by (metis in_set_conv_nth)
  have "?P c \<longleftrightarrow> (\<exists>!i. i < length chs \<and> c \<in> set (ch_Tiles (chs ! i)))" for c
    using cover [of c] disj [of _ _ c] unfolding V by blast
  moreover have "b \<in> set (ch_Tiles ch) \<longleftrightarrow> connected_open ?P a b"
    if ch: "ch \<in> set chs" and a: "a \<in> set (ch_Tiles ch)" for ch a b
  proof -
    obtain s where s: "set (ch_Tiles ch) = component ?P s"
      using ok' [OF ch] by (auto simp: chamber_ok_def)
    then have "connected_open ?P s a" using a by (simp add: component_def)
    then show ?thesis
      using connected_open_trans [of ?P] connected_open_sym [of ?P] unfolding s component_def mem_Collect_eq by blast
  qed
  moreover have "distinct (ch_Tiles ch) \<and> tight_box (ch_Bounds ch) (set (ch_Tiles ch))" if "ch \<in> set chs" for ch
    using ok' [OF that] by (auto simp: chamber_ok_def)
  moreover have "ch_ID (chs ! i) = of_nat (i + 1)" if "i < length chs" for i
    using ok [OF that] by (simp add: chamber_ok_def)
  ultimately show ?thesis by blast
qed

text \<open>Two tiles dug next to each other.\<close>

definition dug_info :: ModificationInfo where
  "dug_info = \<lparr>mi_Type = ModificationDug, mi_OldTileType = 7, mi_NewTileType = 9, mi_DetectedAt = 5, mi_CommandID = 0,
     mi_LastVerified = 5, mi_GraphNode = None\<rparr>"

definition dug_a :: Coord where "dug_a = \<lparr>cd_X = 1, cd_Y = 1, cd_Z = 1\<rparr>"
definition dug_b :: Coord where "dug_b = \<lparr>cd_X = 2, cd_Y = 1, cd_Z = 1\<rparr>"

definition dug_out :: ModificationOverlay where
  "dug_out = \<lparr>mo_modifications = [dug_a \<mapsto> dug_info, dug_b \<mapsto> dug_info], mo_totalCount = 2, mo_lastUpdate = 6,
     mo_mapBounds = \<lparr>mb_Width = 4, mb_Height = 4, mb_Depth = 4\<rparr>, mo_boundsComputed = False,
     mo_cachedBounds = zero_ModRegion\<rparr>"

theorem chambers_are_components_witness:
  "\<exists>ch\<in>set (fst (ExtractChambers [dug_a, dug_b] [dug_b, dug_a] dug_out)). {dug_a, dug_b} \<subseteq> set (ch_Tiles ch)"
proof -
  let ?P = "\<lambda>c. mo_modifications dug_out c \<noteq> None"
  obtain chs m' where run: "ExtractChambers [dug_a, dug_b] [dug_b, dug_a] dug_out = (chs, m')" by fastforce
  have ne: "dug_a \<noteq> dug_b" by (simp add: dug_a_def dug_b_def)
  have doms: "dom (mo_modifications dug_out) = {dug_a, dug_b}" by (auto simp: dug_out_def)
  have "bounds_error (mo_mapBounds dug_out) dug_a = None" "bounds_error (mo_mapBounds dug_out) dug_b = None"
    unfolding dug_out_def ModificationOverlay.simps by code_simp+
  then have inv: "overlay_inv dug_out" using doms ne by (simp add: overlay_inv_def) (simp add: dug_out_def)
  have recent: "far_past dug_out < int (mi_DetectedAt info)" if "mo_modifications dug_out c = Some info" for c info
    using that by (auto simp: dug_out_def far_past_def dug_info_def split: if_splits)
  have "card (dom (mo_modifications dug_out)) < 2 ^ 32" "set [dug_a, dug_b] = dom (mo_modifications dug_out)"
    "set [dug_b, dug_a] = dom (mo_modifications dug_out)" using ne by (auto simp: doms)
  note main = chambers_are_components [OF inv this _ run]
  have all: "\<forall>c. ?P c \<longleftrightarrow> (\<exists>!i. i < length chs \<and> c \<in> set (ch_Tiles (chs ! i)))"
    and joined: "\<forall>ch\<in>set chs. \<forall>a\<in>set (ch_Tiles ch). \<forall>b. b \<in> set (ch_Tiles ch) \<longleftrightarrow> connected_open ?P a b"
    by (rule main [THEN conjunct1], rule recent, assumption) (rule main [THEN conjunct2, THEN conjunct1], rule recent, assumption)
  have P: "?P dug_a" "?P dug_b" by (simp_all add: dug_out_def)
  have "\<exists>!i. i < length chs \<and> dug_a \<in> set (ch_Tiles (chs ! i))" by (rule all [rule_format, THEN iffD1, OF P(1)])
  then obtain i where i: "i < length chs" "dug_a \<in> set (ch_Tiles (chs ! i))" by (elim ex1E conjE)
  have "open_adj ?P dug_a dug_b"
    using P by (simp add: open_adj_def) (simp add: dug_a_def dug_b_def neighbors_def)
  then have "connected_open ?P dug_a dug_b" using P by (simp add: connected_open_def)
  then have "dug_b \<in> set (ch_Tiles (chs ! i))"
    by (rule joined [rule_format, OF nth_mem [OF i(1)] i(2), THEN iffD2])
  then show ?thesis using i run nth_mem by (intro bexI [of _ "chs ! i"]) auto
qed

section \<open>What the detector records\<close>

text \<open>
  The reference: the flag bytes of one tile in the order they were observed. The baseline is the first of them that
  carries a shape, rock when none did yet; a modification is an observation after the first whose transition from
  the baseline is classified.
\<close>

definition tile_coord :: "TileState \<Rightarrow> Coord" where
  "tile_coord t = \<lparr>cd_X = ts_X t, cd_Y = ts_Y t, cd_Z = ts_Z t\<rparr>"

definition flags_at :: "Coord \<Rightarrow> TileState list \<Rightarrow> u8 list" where
  "flags_at c ts = map ts_Flags (filter (\<lambda>t. tile_coord t = c) ts)"

definition shape_bearing :: "u8 list \<Rightarrow> u8 option" where
  "shape_bearing fs = find (\<lambda>f. f AND shapeMask \<noteq> 0) fs"

definition effective_base :: "u8 list \<Rightarrow> u8" where
  "effective_base fs = (case shape_bearing fs of None \<Rightarrow> FlagWall | Some f \<Rightarrow> f)"

fun modified_after :: "u8 list \<Rightarrow> u8 list \<Rightarrow> bool" where
  "modified_after before [] \<longleftrightarrow> False"
| "modified_after before (f # fs) \<longleftrightarrow>
     (before \<noteq> [] \<and> InferModificationTypeFromFlags (effective_base before) f \<noteq> ModificationUnknown) \<or>
     modified_after (before @ [f]) fs"

definition observe :: "(go_time \<times> go_time \<times> TileState list) list \<Rightarrow> int \<times> Detector \<Rightarrow> int \<times> Detector" where
  "observe batches acc = fold (\<lambda>(now, clock, tiles) (n, d).
     case DetectModifications now clock tiles d of (k, d') \<Rightarrow> (n + k, d')) batches acc"

lemma modified_after_snoc:
  "modified_after before (fs @ [f]) \<longleftrightarrow> modified_after before fs \<or>
     (before @ fs \<noteq> [] \<and> InferModificationTypeFromFlags (effective_base (before @ fs)) f \<noteq> ModificationUnknown)"
  by (induction fs arbitrary: before) auto

lemma flags_at_snoc: "flags_at c (ts @ [t]) = flags_at c ts @ (if tile_coord t = c then [ts_Flags t] else [])"
  by (simp add: flags_at_def)

lemma shape_bearing_snoc:
  "shape_bearing (fs @ [f]) = (case shape_bearing fs of Some g \<Rightarrow> Some g | None \<Rightarrow> if f AND shapeMask \<noteq> 0 then Some f else None)"
  by (induction fs) (auto simp: shape_bearing_def)

text \<open>The flags of the stored baseline: the first with a shape, and the last one seen while there is none.\<close>

definition stored_base :: "u8 list \<Rightarrow> u8 option" where
  "stored_base fs = (if fs = [] then None else Some (case shape_bearing fs of Some f \<Rightarrow> f | None \<Rightarrow> last fs))"

lemma shape_bearing_None: "shape_bearing fs = None \<longleftrightarrow> (\<forall>f\<in>set fs. f AND shapeMask = 0)"
  by (auto simp: shape_bearing_def find_None_iff)

lemma shape_bearing_Some: "shape_bearing fs = Some f \<Longrightarrow> f AND shapeMask \<noteq> 0"
  by (auto simp: shape_bearing_def find_Some_iff)

lemma stored_base_snoc:
  "stored_base (fs @ [f]) = (case stored_base fs of None \<Rightarrow> Some f
     | Some g \<Rightarrow> if g AND shapeMask = 0 then Some f else Some g)"
proof (cases "fs = []")
  case False
  show ?thesis
  proof (cases "shape_bearing fs")
    case None
    then have "last fs AND shapeMask = 0" using False last_in_set by (auto simp: shape_bearing_None)
    then show ?thesis using None False by (simp add: stored_base_def shape_bearing_snoc)
  next
    case (Some g)
    then show ?thesis using False shape_bearing_Some [OF Some] by (simp add: stored_base_def shape_bearing_snoc)
  qed
qed (simp add: stored_base_def shape_bearing_def)

lemma stored_base_Nil [simp]: "stored_base [] = None"
  by (simp add: stored_base_def)

lemma stored_base_single [simp]: "stored_base [f] = Some f"
  using stored_base_snoc [of "[]" f] by simp

lemma effective_base_stored:
  assumes "stored_base fs = Some g"
  shows "effective_base fs = (if g AND shapeMask = 0 then FlagWall else g)"
proof (cases "shape_bearing fs")
  case None
  then have "g = last fs" "fs \<noteq> []" using assms by (auto simp: stored_base_def split: if_splits)
  then have "g AND shapeMask = 0" using None last_in_set [of fs] by (simp add: shape_bearing_None)
  then show ?thesis using None by (simp add: effective_base_def)
next
  case (Some f)
  then show ?thesis using assms shape_bearing_Some [OF Some] by (auto simp: effective_base_def stored_base_def split: if_splits)
qed

text \<open>What holds between the detector and the observations made so far.\<close>

definition detector_inv :: "MapBounds \<Rightarrow> TileState list \<Rightarrow> int \<times> Detector \<Rightarrow> bool" where
  "detector_inv bds ts acc \<longleftrightarrow> (case acc of (n, d) \<Rightarrow>
     (\<forall>c. map_option bt_Flags (dt_baseline d c) = stored_base (flags_at c ts)) \<and>
     (\<forall>c. mo_modifications (dt_overlay d) c \<noteq> None \<longleftrightarrow> bounds_error bds c = None \<and> modified_after [] (flags_at c ts)) \<and>
     mo_mapBounds (dt_overlay d) = bds \<and> overlay_inv (dt_overlay d) \<and>
     n = int (card (dom (mo_modifications (dt_overlay d)))))"


lemma detector_inv_start: "detector_inv bds [] (0, NewDetector (NewModificationOverlay now bds))"
  by (simp add: detector_inv_def NewDetector_def stored_base_def flags_at_def overlay_inv_New)
    (simp add: NewModificationOverlay_def)

text \<open>The record is made once, and only for a coordinate on the map.\<close>

lemma record_modification_books:
  assumes "overlay_inv m" and "record_modification now clock tile c base mt n m = (n', m')"
  shows "overlay_inv m' \<and> mo_mapBounds m' = mo_mapBounds m \<and>
    dom (mo_modifications m') = (if bounds_error (mo_mapBounds m) c = None then insert c (dom (mo_modifications m)) else dom (mo_modifications m)) \<and>
    n' - n = int (card (dom (mo_modifications m'))) - int (card (dom (mo_modifications m)))"
proof -
  have add: "overlay_inv m'' \<and> mo_mapBounds m'' = mo_mapBounds m \<and> dom (mo_modifications m'') = insert c (dom (mo_modifications m)) \<and>
      bounds_error (mo_mapBounds m) c = None"
    if "AddModification clock c info m = Inr m''" for info m''
    by (cases rule: AddModification_cases [of clock c info m]) (use that assms(1) AddModification_inv [OF assms(1) that] in auto)
  have rej: "bounds_error (mo_mapBounds m) c \<noteq> None" if "AddModification clock c info m = Inl a" for info a
    using that by (auto simp: AddModification_def Let_def split: option.splits)
  show ?thesis
  proof (cases "GetModification m c")
    case None
    then have "dom (mo_modifications m) \<inter> {c} = {}" if "bounds_error (mo_mapBounds m) c = None"
      using that by (auto simp: GetModification_def)
    then have "card (insert c (dom (mo_modifications m))) = Suc (card (dom (mo_modifications m)))"
      if "bounds_error (mo_mapBounds m) c = None" using that finite_mods [of "mo_modifications m"] by (auto simp: card_insert_if)
    with None show ?thesis
      using assms add rej by (auto simp: record_modification_def GetModification_def split: sum.splits option.splits)
  next
    case (Some e)
    then have "c \<in> dom (mo_modifications m)" "bounds_error (mo_mapBounds m) c = None"
      by (auto simp: GetModification_def split: option.splits)
    then show ?thesis
      using assms Some add by (auto simp: record_modification_def insert_absorb split: sum.splits if_splits)
  qed
qed

lemma detect_tile_inv:
  assumes inv: "detector_inv bds ts acc"
  shows "detector_inv bds (ts @ [t]) (detect_tile now clock t acc)"
proof -
  obtain n d where acc: "acc = (n, d)" by fastforce
  let ?c = "tile_coord t" and ?seen = "\<lparr>bt_TileType = ts_TileType t, bt_Flags = ts_Flags t\<rparr>"
  have base: "\<And>c. map_option bt_Flags (dt_baseline d c) = stored_base (flags_at c ts)"
    and rec: "\<And>c. mo_modifications (dt_overlay d) c \<noteq> None \<longleftrightarrow> bounds_error bds c = None \<and> modified_after [] (flags_at c ts)"
    and rest: "mo_mapBounds (dt_overlay d) = bds" "overlay_inv (dt_overlay d)" "n = int (card (dom (mo_modifications (dt_overlay d))))"
    using inv by (simp_all add: detector_inv_def acc)
  show ?thesis
  proof (cases "dt_baseline d ?c")
    case None
    then have first: "flags_at ?c ts = []" using base [of ?c] by (simp add: stored_base_def split: if_splits)
    have "detect_tile now clock t acc = (n, d\<lparr>dt_baseline := (dt_baseline d)(?c \<mapsto> ?seen)\<rparr>)"
      using None by (simp add: acc detect_tile_def tile_coord_def Let_def)
    then show ?thesis
      using base rec rest first
      by (auto simp: detector_inv_def flags_at_snoc stored_base_snoc modified_after_snoc split: option.splits)
  next
    case (Some b)
    define d' where "d' = (if bt_Flags b AND shapeMask = 0 then d\<lparr>dt_baseline := (dt_baseline d)(?c \<mapsto> ?seen)\<rparr> else d)"
    define mt where "mt = InferModificationTypeFromFlags (effective_base (flags_at ?c ts)) (ts_Flags t)"
    have sb: "stored_base (flags_at ?c ts) = Some (bt_Flags b)" using base [of ?c] Some by simp
    then have ne: "flags_at ?c ts \<noteq> []" by (auto simp: stored_base_def)
    obtain n' m' where r: "record_modification now clock t ?c b mt n (dt_overlay d) = (n', m')" by fastforce
    have run: "detect_tile now clock t acc = (if mt = ModificationUnknown then (n, d') else (n', d'\<lparr>dt_overlay := m'\<rparr>))"
      using Some r
      by (auto simp: acc detect_tile_def Let_def d'_def mt_def effective_base_stored [OF sb] simp flip: tile_coord_def)
    have base': "map_option bt_Flags (dt_baseline d' c) = stored_base (flags_at c (ts @ [t]))" for c
      using base [of c] Some sb by (auto simp: d'_def flags_at_snoc stored_base_snoc)
    have rec': "modified_after [] (flags_at c (ts @ [t])) \<longleftrightarrow> modified_after [] (flags_at c ts) \<or> c = ?c \<and> mt \<noteq> ModificationUnknown" for c
      using ne by (auto simp: flags_at_snoc modified_after_snoc mt_def)
    have ov: "dt_overlay d' = dt_overlay d" by (simp add: d'_def)
    note books = record_modification_books [OF rest(2) r, unfolded rest(1)]
    show ?thesis
    proof (cases "mt = ModificationUnknown")
      case True
      then show ?thesis using base' rec rec' rest by (simp add: run detector_inv_def ov)
    next
      case False
      have "mo_modifications m' c \<noteq> None \<longleftrightarrow> bounds_error bds c = None \<and> modified_after [] (flags_at c (ts @ [t]))" for c
      proof -
        have "mo_modifications m' c \<noteq> None \<longleftrightarrow> c \<in> dom (mo_modifications m')" by auto
        also have "\<dots> \<longleftrightarrow> c = ?c \<and> bounds_error bds c = None \<or> mo_modifications (dt_overlay d) c \<noteq> None"
          using books by auto
        finally show ?thesis using rec [of c] rec' [of c] False by auto
      qed
      moreover have "n' = int (card (dom (mo_modifications m')))" using books rest(3) by linarith
      moreover have "overlay_inv m' \<and> mo_mapBounds m' = bds" using books by blast
      ultimately show ?thesis using False base' by (simp add: run detector_inv_def)
    qed
  qed
qed

lemma detect_tiles_inv:
  "detector_inv bds ts acc \<Longrightarrow> detector_inv bds (ts @ us) (fold (detect_tile now clock) us acc)"
proof (induction us arbitrary: ts acc)
  case (Cons u us)
  show ?case using Cons.IH [OF detect_tile_inv [OF Cons.prems]] by simp
qed simp

text \<open>The counter of a call only adds up: a call started from another count ends that much higher.\<close>

lemma record_modification_shift:
  "record_modification now clock t c b mt (n + k) m =
     (case record_modification now clock t c b mt n m of (n', m') \<Rightarrow> (n' + k, m'))"
  by (auto simp: record_modification_def split: option.splits sum.splits)

lemma detect_tile_shift:
  "detect_tile now clock t (n + k, d) = (case detect_tile now clock t (n, d) of (n', d') \<Rightarrow> (n' + k, d'))"
  by (auto simp: detect_tile_def record_modification_shift Let_def split: option.splits prod.splits)

lemma detect_tiles_shift:
  "fold (detect_tile now clock) ts (n + k, d) = (case fold (detect_tile now clock) ts (n, d) of (n', d') \<Rightarrow> (n' + k, d'))"
proof (induction ts arbitrary: n d)
  case (Cons t ts)
  obtain n1 d1 where "detect_tile now clock t (n, d) = (n1, d1)" by fastforce
  then show ?case using Cons.IH [of n1 d1] detect_tile_shift [of now clock t n k d] by simp
qed simp

lemma observe_inv:
  "detector_inv bds ts (n, d) \<Longrightarrow>
     detector_inv bds (ts @ concat (map (snd \<circ> snd) batches)) (observe batches (n, d))"
  for batches :: "(go_time \<times> go_time \<times> TileState list) list"
proof (induction batches arbitrary: ts n d)
  case (Cons b bs)
  obtain now clock us where b: "b = (now, clock, us)" by (metis prod_cases3)
  obtain k d1 where one: "DetectModifications now clock us d = (k, d1)" by fastforce
  have "fold (detect_tile now clock) us (0 + n, d) = (k + n, d1)"
    using one by (simp add: detect_tiles_shift [of now clock us 0 n d, simplified] DetectModifications_def)
  then have "detector_inv bds (ts @ us) (n + k, d1)"
    using detect_tiles_inv [OF Cons.prems, of us now clock] by (simp add: add.commute)
  from Cons.IH [OF this] show ?case by (simp add: observe_def b one)
qed (simp add: observe_def)

text \<open>
  C33: The fort's record is exactly what the observations show: after any batches of tile updates a coordinate is
  recorded as modified when it lies on the map and some observation of it after the first was a classified
  transition from its baseline (its first observation that carries a shape, rock while it has none), the detector has
  counted each recorded tile once over all batches, and the overlay's own books hold.
\<close>

theorem tile_recorded_iff:
  assumes "observe batches (0, NewDetector (NewModificationOverlay now bds)) = (n, d)"
  shows "(\<forall>c. mo_modifications (dt_overlay d) c \<noteq> None \<longleftrightarrow>
       bounds_error bds c = None \<and> modified_after [] (flags_at c (concat (map (snd \<circ> snd) batches)))) \<and>
     n = int (card (dom (mo_modifications (dt_overlay d)))) \<and> overlay_inv (dt_overlay d)"
  using observe_inv [OF detector_inv_start [of bds now], of batches] by (simp add: assms detector_inv_def)

text \<open>
  A tile seen as rock, then dug out, then walled up again: it is recorded, and the last observation, which shows
  the rock it began as, leaves the record of the dig in place.
\<close>

definition rock_tile :: TileState where
  "rock_tile = \<lparr>ts_X = 1, ts_Y = 1, ts_Z = 1, ts_TileType = 7, ts_Flags = FlagWall\<rparr>"

definition dug_tile :: TileState where
  "dug_tile = rock_tile\<lparr>ts_TileType := 9, ts_Flags := FlagFloor\<rparr>"

theorem tile_recorded_iff_witness:
  "mo_modifications (dt_overlay (snd (observe [(5, 6, [rock_tile]), (7, 8, [dug_tile, rock_tile])]
     (0, NewDetector (NewModificationOverlay 0 \<lparr>mb_Width = 4, mb_Height = 4, mb_Depth = 4\<rparr>)))))
     \<lparr>cd_X = 1, cd_Y = 1, cd_Z = 1\<rparr> \<noteq> None"
proof -
  have "bounds_error \<lparr>mb_Width = 4, mb_Height = 4, mb_Depth = 4\<rparr> \<lparr>cd_X = 1, cd_Y = 1, cd_Z = 1\<rparr> = None" by code_simp
  moreover have "modified_after [] (flags_at \<lparr>cd_X = 1, cd_Y = 1, cd_Z = 1\<rparr> [rock_tile, dug_tile, rock_tile])" by code_simp
  ultimately show ?thesis
    using tile_recorded_iff [of "[(5, 6, [rock_tile]), (7, 8, [dug_tile, rock_tile])]" 0
        "\<lparr>mb_Width = 4, mb_Height = 4, mb_Depth = 4\<rparr>"] by (simp add: prod_eq_iff)
qed

end
