(* ===== verification/Blueprints.thy ===== *)
theory Blueprints
  imports Go_Fmt Modifications Plan_Executor
begin

text \<open>
  Saved dig patterns (\<open>internal/blueprints/types.go\<close>, \<open>csv.go\<close>) and their way back into the ground
  (\<open>internal/mcpserver/blueprint.go\<close>, \<open>digrects.go\<close>): the two file formats, blueprints taken from a scan or from the
  overlay of modifications, their placement, and the runs of tiles that are sent as one command each.

  A CSV file is the list of its records, each the list of its fields; quoting and blank lines are below the
  model. What \<open>encoding/csv\<close> adds is its check that every record has as many fields as the first.
\<close>

section \<open>Data\<close>

record DigEntry =
  de_X :: i16
  de_Y :: i16
  de_Z :: i16
  de_DigType :: "rune list"

record DigBlueprint =
  bp_Name :: "rune list"
  bp_Description :: "rune list"
  bp_Author :: "rune list"
  bp_CreatedAt :: "rune list"
  bp_Digs :: "DigEntry list"
  bp_Width :: i16
  bp_Height :: i16
  bp_Depth :: i16
  bp_Tags :: "rune list list"

record DigCommand =
  dc_X :: i16
  dc_Y :: i16
  dc_Z :: i16
  dc_DigType :: "rune list"

type_synonym csv_rows = "rune list list list"

datatype load_error =
  CsvFieldCount | EmptyFile | ShortRow nat | BadCoordinate nat axis | NoGridEntries | NoModifications | NoDugTiles

definition new_blueprint :: "rune list \<Rightarrow> DigBlueprint" where
  "new_blueprint name = \<lparr>bp_Name = name, bp_Description = [], bp_Author = [], bp_CreatedAt = [], bp_Digs = [],
     bp_Width = 0, bp_Height = 0, bp_Depth = 0, bp_Tags = []\<rparr>"

section \<open>Reading\<close>

text \<open>\<open>csv.Reader.ReadAll\<close> with its default settings: every record is as long as the first.\<close>

definition ReadAll :: "csv_rows \<Rightarrow> csv_rows option" where
  "ReadAll records = (if \<forall>r\<in>set records. length r = length (hd records) then Some records else None)"

definition load_row :: "nat \<Rightarrow> rune list list \<Rightarrow> load_error + DigEntry" where
  "load_row i rec =
     (if length rec < 4 then Inl (ShortRow i)
      else case ParseInt16 (rec ! 0) of None \<Rightarrow> Inl (BadCoordinate i AxisX)
      | Some x \<Rightarrow> (case ParseInt16 (rec ! 1) of None \<Rightarrow> Inl (BadCoordinate i AxisY)
      | Some y \<Rightarrow> (case ParseInt16 (rec ! 2) of None \<Rightarrow> Inl (BadCoordinate i AxisZ)
      | Some z \<Rightarrow> Inr \<lparr>de_X = x, de_Y = y, de_Z = z, de_DigType = rec ! 3\<rparr>)))"

text \<open>The number is that of the record in the file.\<close>

fun load_rows :: "nat \<Rightarrow> csv_rows \<Rightarrow> load_error + DigEntry list" where
  "load_rows i [] = Inr []"
| "load_rows i (rec # recs) = bindr (load_row i rec) (\<lambda>dig. bindr (load_rows (i + 1) recs) (\<lambda>digs. Inr (dig # digs)))"

definition entry_coord :: "DigEntry \<Rightarrow> Coord" where
  "entry_coord e = \<lparr>cd_X = de_X e, cd_Y = de_Y e, cd_Z = de_Z e\<rparr>"

definition dig_cell :: "rune list \<Rightarrow> rune list option" where
  "dig_cell cell =
     (if cell = [] \<or> cell = runes ''#'' then None
      else if cell = runes ''d'' then Some (runes ''default'')
      else if cell = runes ''i'' then Some (runes ''updown_stair'')
      else if cell = runes ''j'' then Some (runes ''down_stair'')
      else if cell = runes ''u'' then Some (runes ''up_stair'')
      else if cell = runes ''h'' then Some (runes ''channel'')
      else if cell = runes ''r'' then Some (runes ''ramp'')
      else if cell = runes ''x'' then Some (runes ''remove_ramp'')
      else None)"

fun grid_row :: "nat \<Rightarrow> nat \<Rightarrow> rune list list \<Rightarrow> DigEntry list" where
  "grid_row y x [] = []"
| "grid_row y x (c # cs) = (case dig_cell (TrimSpace (ToLower c)) of
       None \<Rightarrow> grid_row y (x + 1) cs
     | Some digType \<Rightarrow>
         \<lparr>de_X = of_nat x, de_Y = of_nat y, de_Z = 0, de_DigType = digType\<rparr> # grid_row y (x + 1) cs)"

fun grid_rows :: "nat \<Rightarrow> csv_rows \<Rightarrow> DigEntry list" where
  "grid_rows y [] = []"
| "grid_rows y (row # rows) = grid_row y 0 row @ grid_rows (y + 1) rows"

definition parseQuickfortGrid :: "csv_rows \<Rightarrow> rune list \<Rightarrow> load_error + DigBlueprint" where
  "parseQuickfortGrid records filename =
     (if records = [] then Inl EmptyFile
      else let startRow = (if hd records \<noteq> [] \<and> HasPrefix (TrimSpace (hd (hd records))) (runes ''#'') then 1 else 0);
               digs = grid_rows 0 (drop startRow records);
               b = bounding_box (map entry_coord digs) in
      if digs = [] then Inl NoGridEntries
      else Inr ((new_blueprint filename)\<lparr>bp_Digs := digs, bp_Width := mr_XMax b - mr_XMin b + 1,
             bp_Height := mr_YMax b - mr_YMin b + 1, bp_Depth := 1\<rparr>))"

definition LoadFromCSV :: "rune list \<Rightarrow> csv_rows \<Rightarrow> load_error + DigBlueprint" where
  "LoadFromCSV filename file = (case ReadAll file of
       None \<Rightarrow> Inl CsvFieldCount
     | Some records \<Rightarrow>
       if records = [] then Inl EmptyFile
       else let firstCell = (if hd records \<noteq> [] then TrimSpace (hd (hd records)) else []) in
         if hd records \<noteq> [] \<and> HasPrefix firstCell (runes ''#'') then parseQuickfortGrid records filename
         else let startRow = (if hd records \<noteq> [] \<and> firstCell = runes ''x'' then 1 else 0) in
           bindr (load_rows startRow (drop startRow records)) (\<lambda>digs.
             let b = bounding_box (map entry_coord digs)
             in Inr ((new_blueprint filename)\<lparr>bp_Digs := digs, bp_Width := mr_XMax b - mr_XMin b + 1,
                  bp_Height := mr_YMax b - mr_YMin b + 1, bp_Depth := mr_ZMax b - mr_ZMin b + 1\<rparr>)))"

section \<open>Writing, capturing and placing\<close>

definition SaveToCSV :: "DigBlueprint \<Rightarrow> csv_rows" where
  "SaveToCSV bp = [runes ''x'', runes ''y'', runes ''z'', runes ''dig_type''] #
     map (\<lambda>dig. [format_int (sint (de_X dig)), format_int (sint (de_Y dig)), format_int (sint (de_Z dig)), de_DigType dig])
       (bp_Digs bp)"

definition region_entry :: "ModRegion \<Rightarrow> i16 \<Rightarrow> i16 \<Rightarrow> i16 \<Rightarrow> DigEntry" where
  "region_entry region x y z = \<lparr>de_X = x - mr_XMin region, de_Y = y - mr_YMin region, de_Z = z - mr_ZMin region,
     de_DigType = runes ''default''\<rparr>"

definition region_blueprint :: "rune list \<Rightarrow> ModRegion \<Rightarrow> DigEntry list \<Rightarrow> DigBlueprint" where
  "region_blueprint name region digs = (new_blueprint name)\<lparr>bp_Author := runes ''ai'', bp_Digs := digs,
     bp_Width := mr_XMax region - mr_XMin region + 1, bp_Height := mr_YMax region - mr_YMin region + 1,
     bp_Depth := mr_ZMax region - mr_ZMin region + 1\<rparr>"

text \<open>\<open>ord\<close> lists the modifications the query returns.\<close>

definition CreateBlueprintFromModifications ::
  "Coord list \<Rightarrow> ModificationOverlay \<Rightarrow> ModRegion \<Rightarrow> rune list \<Rightarrow> load_error + DigBlueprint" where
  "CreateBlueprintFromModifications ord mods region name =
     (let modsInRegion = GetModificationsInRegion region 0 mods in
      if modsInRegion = Map.empty then Inl NoModifications
      else Inr (region_blueprint name region (map (\<lambda>c. region_entry region (cd_X c) (cd_Y c) (cd_Z c))
        (filter (\<lambda>c. case modsInRegion c of None \<Rightarrow> False | Some info \<Rightarrow> mi_Type info = ModificationDug) ord))))"

record RegionScanTile =
  rst_X :: i16
  rst_Y :: i16
  rst_Z :: i16
  rst_Kind :: "rune list"

definition CreateBlueprintFromRegionScan ::
  "RegionScanTile list \<Rightarrow> ModRegion \<Rightarrow> rune list \<Rightarrow> load_error + DigBlueprint" where
  "CreateBlueprintFromRegionScan tiles region name =
     (let digs = map (\<lambda>t. region_entry region (rst_X t) (rst_Y t) (rst_Z t))
        (filter (\<lambda>t. rst_Kind t \<noteq> runes ''construction'') tiles) in
      if digs = [] then Inl NoDugTiles else Inr (region_blueprint name region digs))"

definition ApplyAt :: "Coord \<Rightarrow> DigBlueprint \<Rightarrow> DigCommand list" where
  "ApplyAt origin bp = map (\<lambda>dig. \<lparr>dc_X = cd_X origin + de_X dig, dc_Y = cd_Y origin + de_Y dig,
     dc_Z = cd_Z origin + de_Z dig, dc_DigType = de_DigType dig\<rparr>) (bp_Digs bp)"

section \<open>The library\<close>

type_synonym BlueprintLibrary = "rune list \<rightharpoonup> DigBlueprint"

text \<open>The files in the order the directory lists them, with None for one that cannot be opened or read.\<close>

definition load_file :: "rune list \<times> csv_rows option \<Rightarrow> BlueprintLibrary \<Rightarrow> BlueprintLibrary" where
  "load_file f lib = (case f of (filename, content) \<Rightarrow>
     case content of None \<Rightarrow> lib
     | Some rows \<Rightarrow> (case LoadFromCSV filename rows of
         Inl err \<Rightarrow> lib
       | Inr bp \<Rightarrow> lib(take (length filename - 4) filename \<mapsto> bp)))"

definition LoadAll :: "(rune list \<times> csv_rows option) list \<Rightarrow> BlueprintLibrary \<Rightarrow> BlueprintLibrary" where
  "LoadAll files lib = fold load_file files lib"

definition AddBlueprint :: "rune list \<Rightarrow> DigBlueprint \<Rightarrow> BlueprintLibrary \<Rightarrow> BlueprintLibrary" where
  "AddBlueprint name bp lib = lib(name \<mapsto> bp)"

definition GetBlueprint :: "BlueprintLibrary \<Rightarrow> rune list \<Rightarrow> DigBlueprint option" where
  "GetBlueprint lib name = lib name"

definition expandBlueprint ::
  "(rune list \<times> csv_rows option) list \<Rightarrow> BlueprintLibrary \<Rightarrow> rune list \<Rightarrow> Coord \<Rightarrow> DigCommand list option \<times> BlueprintLibrary" where
  "expandBlueprint files lib name origin =
     (let lib = LoadAll files lib in (map_option (ApplyAt origin) (GetBlueprint lib name), lib))"

definition normalizeRegion :: "i16 \<Rightarrow> i16 \<Rightarrow> i16 \<Rightarrow> i16 \<Rightarrow> i16 \<Rightarrow> i16 \<Rightarrow> ModRegion" where
  "normalizeRegion x1 y1 z1 x2 y2 z2 =
     (let (x1, x2) = (if slt x2 x1 then (x2, x1) else (x1, x2));
          (y1, y2) = (if slt y2 y1 then (y2, y1) else (y1, y2));
          (z1, z2) = (if slt z2 z1 then (z2, z1) else (z1, z2))
      in \<lparr>mr_XMin = x1, mr_XMax = x2, mr_YMin = y1, mr_YMax = y2, mr_ZMin = z1, mr_ZMax = z2\<rparr>)"

section \<open>Runs\<close>

record digRun =
  dr_DigType :: "rune list"
  dr_Z :: i16
  dr_Y :: i16
  dr_X1 :: i16
  dr_X2 :: i16
  dr_Count :: int

type_synonym run_key = "rune list \<times> i16 \<times> i16"

text \<open>The keys of a group's set, each once; the order they are kept in does not matter, as they are sorted.\<close>

definition group_cmd :: "DigCommand \<Rightarrow> (run_key \<rightharpoonup> i16 list) \<times> run_key list \<Rightarrow> (run_key \<rightharpoonup> i16 list) \<times> run_key list" where
  "group_cmd c acc = (case acc of (groups, order) \<Rightarrow>
     let k = (dc_DigType c, dc_Z c, dc_Y c) in
     case groups k of
       None \<Rightarrow> (groups(k \<mapsto> [dc_X c]), order @ [k])
     | Some xs \<Rightarrow> (groups(k \<mapsto> (if dc_X c \<in> set xs then xs else xs @ [dc_X c])), order))"

text \<open>The inner loop: how far the tiles after \<open>x\<close> go on without a gap.\<close>

fun run_length :: "i16 \<Rightarrow> i16 list \<Rightarrow> nat" where
  "run_length x [] = 0"
| "run_length x (y # ys) = (if y = x + 1 then Suc (run_length y ys) else 0)"

definition cmd_key :: "DigCommand \<Rightarrow> run_key" where
  "cmd_key c = (dc_DigType c, dc_Z c, dc_Y c)"

lemma run_length_le: "run_length x xs \<le> length xs"
  by (induction xs arbitrary: x) auto

function split_runs :: "run_key \<Rightarrow> i16 list \<Rightarrow> digRun list" where
  "split_runs k [] = []"
| "split_runs k (x # xs) = (let n = run_length x xs in
     \<lparr>dr_DigType = fst k, dr_Z = fst (snd k), dr_Y = snd (snd k), dr_X1 = x, dr_X2 = (x # xs) ! n, dr_Count = int n + 1\<rparr> #
     split_runs k (drop n xs))"
  by pat_completeness auto
termination by (relation "measure (length \<circ> snd)") auto

definition coalesceDigRuns :: "DigCommand list \<Rightarrow> digRun list" where
  "coalesceDigRuns cmds = (let (groups, order) = fold group_cmd cmds (Map.empty, []) in
     concat (map (\<lambda>k. split_runs k (sort_key sint (case groups k of None \<Rightarrow> [] | Some xs \<Rightarrow> xs))) order))"

text \<open>The tiles a run stands for, and those the commands name.\<close>

definition run_tiles :: "digRun \<Rightarrow> (rune list \<times> Coord) set" where
  "run_tiles r = {(t, c). t = dr_DigType r \<and> cd_Y c = dr_Y r \<and> cd_Z c = dr_Z r \<and>
     sint (dr_X1 r) \<le> sint (cd_X c) \<and> sint (cd_X c) \<le> sint (dr_X2 r)}"

definition cmd_tile :: "DigCommand \<Rightarrow> rune list \<times> Coord" where
  "cmd_tile c = (dc_DigType c, \<lparr>cd_X = dc_X c, cd_Y = dc_Y c, cd_Z = dc_Z c\<rparr>)"

definition grouped :: "DigCommand list \<Rightarrow> (run_key \<rightharpoonup> i16 list) \<times> run_key list \<Rightarrow> bool" where
  "grouped cmds acc \<longleftrightarrow> (case acc of (groups, order) \<Rightarrow>
     distinct order \<and> set order = dom groups \<and> dom groups = cmd_key ` set cmds \<and>
     (\<forall>k xs. groups k = Some xs \<longrightarrow> distinct xs \<and> set xs = dc_X ` {c \<in> set cmds. cmd_key c = k}))"

lemma group_cmd_grouped:
  assumes "grouped cmds acc"
  shows "grouped (cmds @ [c]) (group_cmd c acc)"
proof -
  obtain g os where acc: "acc = (g, os)" by fastforce
  have os: "distinct os" "set os = dom g" "dom g = cmd_key ` set cmds"
    and gs: "\<And>k xs. g k = Some xs \<Longrightarrow> distinct xs \<and> set xs = dc_X ` {c \<in> set cmds. cmd_key c = k}"
    using assms unfolding acc grouped_def by (simp_all del: split_paired_All)
  have split: "{d \<in> set (cmds @ [c]). cmd_key d = k} =
      {d \<in> set cmds. cmd_key d = k} \<union> (if cmd_key c = k then {c} else {})" for k by auto
  show ?thesis
  proof (cases "g (cmd_key c)")
    case None
    then have new: "cmd_key c \<notin> cmd_key ` set cmds" using os(3) by blast
    then have "{d \<in> set cmds. cmd_key d = cmd_key c} = {}" by (auto simp: image_iff)
    moreover have "group_cmd c acc = (g(cmd_key c \<mapsto> [dc_X c]), os @ [cmd_key c])"
      using None by (simp add: acc group_cmd_def cmd_key_def Let_def)
    ultimately show ?thesis using os gs new unfolding grouped_def split
      by (auto split: if_splits simp del: split_paired_All)
  next
    case (Some xs)
    then have old: "cmd_key c \<in> cmd_key ` set cmds" using os(3) by blast
    have "group_cmd c acc = (g(cmd_key c \<mapsto> (if dc_X c \<in> set xs then xs else xs @ [dc_X c])), os)"
      using Some by (simp add: acc group_cmd_def cmd_key_def Let_def)
    then show ?thesis using os gs [OF Some] gs old unfolding grouped_def split
      by (auto split: if_splits simp del: split_paired_All)
  qed
qed

lemma group_cmds_grouped: "grouped cmds (fold group_cmd cmds (Map.empty, []))"
proof (induction cmds rule: rev_induct)
  case (snoc c cmds)
  then show ?case using group_cmd_grouped by simp
qed (simp add: grouped_def)

lemma sint_eq_iff: "sint x = sint y \<longleftrightarrow> x = y" for x y :: i16
  by (auto intro: signed_word_eqI)

lemma sint_next: "sint x < sint y \<Longrightarrow> sint (x + 1) = sint x + 1" for x y :: i16
  using sint_lt [of y] by (intro sint_Suc) simp

text \<open>The tiles of one group, sorted: a run takes those up to the first gap, and nothing that follows touches it.\<close>

lemma run_length_run:
  assumes "sorted_wrt slt (x # xs)"
  defines "e \<equiv> (x # xs) ! run_length x xs"
  shows "sint e = sint x + int (run_length x xs)"
    and "set (take (Suc (run_length x xs)) (x # xs)) = {y. sint x \<le> sint y \<and> sint y \<le> sint e}"
    and "\<forall>z\<in>set (drop (run_length x xs) xs). sint e + 1 < sint z"
proof -
  have "sint e = sint x + int (run_length x xs) \<and>
    set (take (Suc (run_length x xs)) (x # xs)) = {y. sint x \<le> sint y \<and> sint y \<le> sint e} \<and>
    (\<forall>z\<in>set (drop (run_length x xs) xs). sint e + 1 < sint z)"
    using assms(1) unfolding e_def
  proof (induction xs arbitrary: x)
    case Nil
    then show ?case by (auto simp: sint_eq_iff)
  next
    case (Cons y ys)
    have srt: "sorted_wrt slt (y # ys)" and "slt x y" and "\<forall>z\<in>set ys. slt y z" using Cons.prems by simp_all
    then have lt: "sint x < sint y" and all: "\<forall>z\<in>set ys. sint y < sint z" by (simp_all add: slt_def)
    show ?case
    proof (cases "y = x + 1")
      case True
      have y: "sint y = sint x + 1" using sint_next [OF lt] True by simp
      have from_x: "sint x \<le> sint z \<longleftrightarrow> z = x \<or> sint x + 1 \<le> sint z" for z
        by (cases "z = x") (use sint_eq_iff [of x z] in auto)
      have "{z. sint x \<le> sint z \<and> sint z \<le> sint ((y # ys) ! run_length y ys)} =
          insert x {z. sint y \<le> sint z \<and> sint z \<le> sint ((y # ys) ! run_length y ys)}"
        using Cons.IH [OF srt] y from_x by auto
      then show ?thesis using Cons.IH [OF srt] y True by auto
    next
      case False
      have "sint y \<noteq> sint x + 1" using False sint_next [OF lt] by (metis signed_word_eqI)
      then have "sint x + 1 < sint y" using lt by simp
      then show ?thesis using all False by (auto simp: sint_eq_iff)
    qed
  qed
  then show "sint e = sint x + int (run_length x xs)"
    and "set (take (Suc (run_length x xs)) (x # xs)) = {y. sint x \<le> sint y \<and> sint y \<le> sint e}"
    and "\<forall>z\<in>set (drop (run_length x xs) xs). sint e + 1 < sint z"
    by blast+
qed

definition run_span :: "digRun \<Rightarrow> i16 set" where
  "run_span r = {x. sint (dr_X1 r) \<le> sint x \<and> sint x \<le> sint (dr_X2 r)}"

definition run_key_of :: "digRun \<Rightarrow> run_key" where
  "run_key_of r = (dr_DigType r, dr_Z r, dr_Y r)"

lemma split_runs_spans:
  "sorted_wrt slt xs \<Longrightarrow> (\<Union>r\<in>set (split_runs k xs). run_span r) = set xs \<and>
     (\<forall>r\<in>set (split_runs k xs). run_key_of r = k \<and> dr_Count r = sint (dr_X2 r) - sint (dr_X1 r) + 1 \<and>
        sint (dr_X1 r) \<le> sint (dr_X2 r)) \<and>
     sorted_wrt (\<lambda>r r'. sint (dr_X2 r) + 1 < sint (dr_X1 r')) (split_runs k xs)"
proof (induction k xs rule: split_runs.induct)
  case (2 k x xs)
  define n where "n = run_length x xs"
  note run = run_length_run [OF 2(2), folded n_def]
  let ?r = "\<lparr>dr_DigType = fst k, dr_Z = fst (snd k), dr_Y = snd (snd k), dr_X1 = x, dr_X2 = (x # xs) ! n, dr_Count = int n + 1\<rparr>"
  have eq: "split_runs k (x # xs) = ?r # split_runs k (drop n xs)" by (simp add: n_def Let_def)
  have "sorted_wrt slt (drop n xs)" using 2(2) sorted_wrt_drop by auto
  note IH = 2(1) [OF n_def this]
  have "set (x # xs) = set (take (Suc n) (x # xs)) \<union> set (drop (Suc n) (x # xs))"
    by (metis append_take_drop_id set_append)
  then have whole: "set (x # xs) = run_span ?r \<union> set (drop n xs)" using run(2) by (simp add: run_span_def del: take_Suc_Cons)
  have "sint (dr_X2 ?r) + 1 < sint (dr_X1 r)" if "r \<in> set (split_runs k (drop n xs))" for r
  proof -
    have "dr_X1 r \<in> run_span r" using IH that by (simp add: run_span_def)
    then have "dr_X1 r \<in> set (drop n xs)" using IH that by blast
    then show ?thesis using run(3) by simp
  qed
  then show ?case
    unfolding eq whole using IH run(1) by (auto simp: run_key_of_def)
qed simp

text \<open>Runs of one key leave a gap; runs of different keys share no tile.\<close>

definition apart :: "digRun \<Rightarrow> digRun \<Rightarrow> bool" where
  "apart r r' \<longleftrightarrow> run_key_of r \<noteq> run_key_of r' \<or> sint (dr_X2 r) + 1 < sint (dr_X1 r')"

lemma run_tiles_span: "run_tiles r = (\<lambda>x. (dr_DigType r, \<lparr>cd_X = x, cd_Y = dr_Y r, cd_Z = dr_Z r\<rparr>)) ` run_span r"
proof -
  have "(t, c) \<in> run_tiles r \<longleftrightarrow> (\<exists>x\<in>run_span r. (t, c) = (dr_DigType r, \<lparr>cd_X = x, cd_Y = dr_Y r, cd_Z = dr_Z r\<rparr>))" for t c
    by (cases c) (auto simp: run_tiles_def run_span_def)
  then show ?thesis by (auto simp: image_iff)
qed

lemma apart_disjoint: "apart r r' \<Longrightarrow> run_tiles r \<inter> run_tiles r' = {}"
  by (auto simp: apart_def run_tiles_def run_key_of_def)

lemma card_run_tiles:
  assumes "sint (dr_X1 r) \<le> sint (dr_X2 r)"
  shows "int (card (run_tiles r)) = sint (dr_X2 r) - sint (dr_X1 r) + 1"
proof -
  have "v \<in> sint ` run_span r" if "sint (dr_X1 r) \<le> v" "v \<le> sint (dr_X2 r)" for v
  proof -
    have "- (2 ^ 15) \<le> v" "v < 2 ^ 15" using that sint_ge [of "dr_X1 r"] sint_lt [of "dr_X2 r"] by simp_all
    then have "sint (word_of_int v :: i16) = v" by (simp add: sint_sbintrunc' signed_take_bit_int_eq_self)
    then show ?thesis using that by (intro image_eqI [of _ _ "word_of_int v"]) (simp_all add: run_span_def)
  qed
  then have "sint ` run_span r = {sint (dr_X1 r)..sint (dr_X2 r)}" by (auto simp: run_span_def)
  moreover have "card (sint ` run_span r) = card (run_span r)" by (rule card_image) (simp add: inj_on_def sint_eq_iff)
  moreover have "card (run_tiles r) = card (run_span r)"
    unfolding run_tiles_span by (rule card_image) (simp add: inj_on_def)
  ultimately show ?thesis using assms by simp
qed

lemma coalesce_runs:
  shows "sorted_wrt apart (coalesceDigRuns cmds)"
    and "\<And>r. r \<in> set (coalesceDigRuns cmds) \<Longrightarrow>
       dr_Count r = sint (dr_X2 r) - sint (dr_X1 r) + 1 \<and> sint (dr_X1 r) \<le> sint (dr_X2 r)"
    and "(\<Union>r\<in>set (coalesceDigRuns cmds). run_tiles r) = cmd_tile ` set cmds"
proof -
  obtain groups order where g: "fold group_cmd cmds (Map.empty, []) = (groups, order)" by fastforce
  have ord: "distinct order" "set order = cmd_key ` set cmds"
    and gs: "\<And>k xs. groups k = Some xs \<Longrightarrow> distinct xs \<and> set xs = dc_X ` {c \<in> set cmds. cmd_key c = k}"
    and doms: "dom groups = cmd_key ` set cmds"
    using group_cmds_grouped [of cmds] unfolding g grouped_def by (simp_all del: split_paired_All)
  define xs where "xs k = sort_key sint (case groups k of None \<Rightarrow> [] | Some xs \<Rightarrow> xs)" for k
  have xs: "sorted_wrt slt (xs k) \<and> set (xs k) = dc_X ` {c \<in> set cmds. cmd_key c = k}" if k: "k \<in> set order" for k
  proof -
    obtain ys where ys: "groups k = Some ys" using k ord(2) doms by blast
    have "sorted (map sint (sort_key sint ys))" "distinct (map sint (sort_key sint ys))"
      using gs [OF ys] by (simp_all add: distinct_map inj_on_def sint_eq_iff)
    then have "sorted_wrt (<) (map sint (sort_key sint ys))" by (simp add: strict_sorted_iff)
    then have "sorted_wrt slt (sort_key sint ys)" by (simp add: sorted_wrt_map slt_def [abs_def])
    then show ?thesis using gs [OF ys] by (simp add: xs_def ys)
  qed
  have eq: "coalesceDigRuns cmds = concat (map (\<lambda>k. split_runs k (xs k)) order)"
    by (simp add: coalesceDigRuns_def g xs_def)
  note spans = split_runs_spans [OF conjunct1 [OF xs]]
  have "sorted_wrt apart (concat (map (\<lambda>k. split_runs k (xs k)) ks))" if "distinct ks" "set ks \<subseteq> set order" for ks
    using that
  proof (induction ks)
    case (Cons k ks)
    have "sorted_wrt apart (split_runs k (xs k))"
      using spans [of k k] Cons.prems(2) sorted_wrt_mono_rel [of "split_runs k (xs k)" _ apart] by (auto simp: apart_def)
    moreover have "apart r r'" if "r \<in> set (split_runs k (xs k))" "k' \<in> set ks" "r' \<in> set (split_runs k' (xs k'))" for r r' k'
    proof -
      have "run_key_of r = k" "run_key_of r' = k'" using spans [of k k] spans [of k' k'] that Cons.prems(2) by auto
      then show ?thesis using that(2) Cons.prems(1) by (auto simp: apart_def)
    qed
    ultimately show ?case using Cons by (auto simp: sorted_wrt_append)
  qed simp
  then show "sorted_wrt apart (coalesceDigRuns cmds)" using ord(1) by (simp add: eq)
  show "dr_Count r = sint (dr_X2 r) - sint (dr_X1 r) + 1 \<and> sint (dr_X1 r) \<le> sint (dr_X2 r)"
    if "r \<in> set (coalesceDigRuns cmds)" for r
    using that spans by (auto simp: eq)
  show "(\<Union>r\<in>set (coalesceDigRuns cmds). run_tiles r) = cmd_tile ` set cmds"
  proof -
    have "(\<Union>r\<in>set (split_runs k (xs k)). run_tiles r) = cmd_tile ` {c \<in> set cmds. cmd_key c = k}" if k: "k \<in> set order" for k
    proof -
      let ?t = "\<lambda>x. (fst k, \<lparr>cd_X = x, cd_Y = snd (snd k), cd_Z = fst (snd k)\<rparr>)"
      have "run_tiles r = ?t ` run_span r" if "r \<in> set (split_runs k (xs k))" for r
        using spans [OF k, of k] that by (auto simp: run_tiles_span run_key_of_def)
      then have "(\<Union>r\<in>set (split_runs k (xs k)). run_tiles r) = ?t ` (\<Union>r\<in>set (split_runs k (xs k)). run_span r)"
        by (auto simp: image_iff)
      also have "\<dots> = ?t ` dc_X ` {c \<in> set cmds. cmd_key c = k}" using spans [OF k, of k] xs [OF k] by simp
      also have "\<dots> = cmd_tile ` {c \<in> set cmds. cmd_key c = k}"
        by (auto simp: image_image cmd_key_def cmd_tile_def image_iff intro!: image_eqI)
      finally show ?thesis .
    qed
    then have "(\<Union>r\<in>set (coalesceDigRuns cmds). run_tiles r) = (\<Union>k\<in>set order. cmd_tile ` {c \<in> set cmds. cmd_key c = k})"
      by (simp add: eq)
    also have "\<dots> = cmd_tile ` set cmds" unfolding ord(2) by auto
    finally show ?thesis .
  qed
qed

lemma card_disjoint_runs:
  "sorted_wrt (\<lambda>r r'. T r \<inter> T r' = {}) rs \<Longrightarrow> (\<And>r. r \<in> set rs \<Longrightarrow> finite (T r)) \<Longrightarrow>
     card (\<Union>r\<in>set rs. T r) = (\<Sum>r\<leftarrow>rs. card (T r))"
proof (induction rs)
  case (Cons r rs)
  then have "T r \<inter> (\<Union>r\<in>set rs. T r) = {}" by auto
  then show ?case using Cons by (simp add: card_Un_disjoint)
qed simp

lemma finite_run_tiles [simp]: "finite (run_tiles r)"
  by (simp add: run_tiles_span)

lemma coalesce_disjoint: "sorted_wrt (\<lambda>r r'. run_tiles r \<inter> run_tiles r' = {}) (coalesceDigRuns cmds)"
  by (rule sorted_wrt_mono_rel [OF _ coalesce_runs(1)]) (rule apart_disjoint)

lemma coalesce_count: "r \<in> set (coalesceDigRuns cmds) \<Longrightarrow> dr_Count r = int (card (run_tiles r))"
  using coalesce_runs(2) card_run_tiles by simp

lemma int_sum_list: "(\<Sum>x\<leftarrow>xs. int (f x)) = int (\<Sum>x\<leftarrow>xs. f x)"
  by (induction xs) simp_all

lemma coalesce_total: "(\<Sum>r\<leftarrow>coalesceDigRuns cmds. dr_Count r) = int (card (cmd_tile ` set cmds))"
proof -
  have "(\<Sum>r\<leftarrow>coalesceDigRuns cmds. dr_Count r) = (\<Sum>r\<leftarrow>coalesceDigRuns cmds. int (card (run_tiles r)))"
    by (simp add: coalesce_count cong: map_cong)
  also have "\<dots> = int (\<Sum>r\<leftarrow>coalesceDigRuns cmds. card (run_tiles r))" by (rule int_sum_list)
  also have "\<dots> = int (card (\<Union>r\<in>set (coalesceDigRuns cmds). run_tiles r))"
    by (simp add: card_disjoint_runs [OF coalesce_disjoint])
  finally show ?thesis by (simp add: coalesce_runs(3))
qed

lemma coalesce_gaps:
  assumes "r \<in> set (coalesceDigRuns cmds)" and "r' \<in> set (coalesceDigRuns cmds)" and "run_key_of r = run_key_of r'"
  shows "sint (dr_X2 r) + 1 \<noteq> sint (dr_X1 r')"
proof -
  obtain i j where ij: "i < length (coalesceDigRuns cmds)" "r = coalesceDigRuns cmds ! i"
    "j < length (coalesceDigRuns cmds)" "r' = coalesceDigRuns cmds ! j"
    using assms(1,2) by (metis in_set_conv_nth)
  consider "i = j" | "i < j" | "j < i" by linarith
  then show ?thesis
  proof cases
    case 2
    then have "apart r r'" using ij coalesce_runs(1) by (simp add: sorted_wrt_nth_less)
    then show ?thesis using assms(3) by (simp add: apart_def)
  next
    case 3
    then have "apart r' r" using ij coalesce_runs(1) by (simp add: sorted_wrt_nth_less)
    then have "sint (dr_X2 r') + 1 < sint (dr_X1 r)" using assms(3) by (simp add: apart_def)
    then show ?thesis using coalesce_runs(2) [OF assms(1)] coalesce_runs(2) [OF assms(2)] by linarith
  next
    case 1
    then show ?thesis using coalesce_runs(2) [OF assms(1)] ij by simp
  qed
qed

text \<open>
  C31: The runs that go out as single commands designate exactly the tiles of the blueprint: their rectangles cover
  the commanded tiles and nothing else, each with its dig type, no two runs overlap, each carries the number of its
  tiles (so the counts add up to the number of distinct tiles), and no two runs of one row touch: they could not be merged
  further.
\<close>

theorem coalesce_runs_exact:
  "(\<Union>r\<in>set (coalesceDigRuns cmds). run_tiles r) = cmd_tile ` set cmds \<and>
   sorted_wrt (\<lambda>r r'. run_tiles r \<inter> run_tiles r' = {}) (coalesceDigRuns cmds) \<and>
   (\<forall>r\<in>set (coalesceDigRuns cmds). dr_Count r = int (card (run_tiles r))) \<and>
   (\<Sum>r\<leftarrow>coalesceDigRuns cmds. dr_Count r) = int (card (cmd_tile ` set cmds)) \<and>
   (\<forall>r\<in>set (coalesceDigRuns cmds). \<forall>r'\<in>set (coalesceDigRuns cmds).
      run_key_of r = run_key_of r' \<longrightarrow> sint (dr_X2 r) + 1 \<noteq> sint (dr_X1 r'))"
  by (intro conjI ballI impI coalesce_runs(3) coalesce_disjoint coalesce_count coalesce_total coalesce_gaps)

definition dig_at :: "i16 \<Rightarrow> DigCommand" where
  "dig_at x = \<lparr>dc_X = x, dc_Y = 1, dc_Z = 1, dc_DigType = runes ''default''\<rparr>"

lemma coalesce_runs_exact_witness:
  "(\<Sum>r\<leftarrow>coalesceDigRuns [dig_at 4, dig_at 1, dig_at 2, dig_at 2]. dr_Count r) = 3 \<and>
   length (coalesceDigRuns [dig_at 4, dig_at 1, dig_at 2, dig_at 2]) = 2"
proof
  have "cmd_tile ` set [dig_at 4, dig_at 1, dig_at 2, dig_at 2] = {cmd_tile (dig_at 1), cmd_tile (dig_at 2), cmd_tile (dig_at 4)}"
    by auto
  also have "card \<dots> = 3" by (simp add: cmd_tile_def dig_at_def)
  finally show "(\<Sum>r\<leftarrow>coalesceDigRuns [dig_at 4, dig_at 1, dig_at 2, dig_at 2]. dr_Count r) = 3"
    using coalesce_runs_exact [of "[dig_at 4, dig_at 1, dig_at 2, dig_at 2]"] by simp
qed (code_simp)

section \<open>The record of dug rectangles\<close>

record digRect =
  rc_x1 :: i16
  rc_y1 :: i16
  rc_z1 :: i16
  rc_x2 :: i16
  rc_y2 :: i16
  rc_z2 :: i16

definition rect_contains :: "digRect \<Rightarrow> i16 \<Rightarrow> i16 \<Rightarrow> i16 \<Rightarrow> bool" where
  "rect_contains r x y z \<longleftrightarrow> \<not> slt x (rc_x1 r) \<and> \<not> slt (rc_x2 r) x \<and>
     \<not> slt y (rc_y1 r) \<and> \<not> slt (rc_y2 r) y \<and> \<not> slt z (rc_z1 r) \<and> \<not> slt (rc_z2 r) z"

type_synonym pendingDigs = "digRect list option"

definition pending_add :: "i16 \<Rightarrow> i16 \<Rightarrow> i16 \<Rightarrow> i16 \<Rightarrow> i16 \<Rightarrow> i16 \<Rightarrow> pendingDigs \<Rightarrow> pendingDigs" where
  "pending_add x1 y1 z1 x2 y2 z2 p = (case p of None \<Rightarrow> None
     | Some rects \<Rightarrow>
       let (x1, x2) = (if slt x2 x1 then (x2, x1) else (x1, x2));
           (y1, y2) = (if slt y2 y1 then (y2, y1) else (y1, y2));
           (z1, z2) = (if slt z2 z1 then (z2, z1) else (z1, z2))
       in Some (rects @ [\<lparr>rc_x1 = x1, rc_y1 = y1, rc_z1 = z1, rc_x2 = x2, rc_y2 = y2, rc_z2 = z2\<rparr>]))"

definition pending_contains :: "pendingDigs \<Rightarrow> i16 \<Rightarrow> i16 \<Rightarrow> i16 \<Rightarrow> bool" where
  "pending_contains p x y z = (case p of None \<Rightarrow> False | Some rects \<Rightarrow> list_ex (\<lambda>r. rect_contains r x y z) rects)"

section \<open>Sending a blueprint\<close>

definition digTypeFromName :: "rune list \<Rightarrow> u8 option" where
  "digTypeFromName s = (let s = ToLower s in
     if s \<in> {runes ''default'', runes ''dig'', runes ''mine''} then Some DigTypeDefault
     else if s \<in> {runes ''stairs'', runes ''updown_stair''} then Some DigTypeUpDownStair
     else if s = runes ''channel'' then Some DigTypeChannel
     else if s = runes ''ramp'' then Some DigTypeRamp
     else if s \<in> {runes ''downstair'', runes ''down_stair''} then Some DigTypeDownStair
     else if s \<in> {runes ''upstair'', runes ''up_stair''} then Some DigTypeUpStair
     else None)"

definition ackDesignated :: "send_reply \<Rightarrow> bool" where
  "ackDesignated reply = (case reply of
       Inl err \<Rightarrow> False
     | Inr None \<Rightarrow> False
     | Inr (Some res) \<Rightarrow> cr_Success res \<or> cr_Status res = AckStatusPartial)"

text \<open>The texts for the tool's output are kept as what they are made from.\<close>

datatype blueprint_problem = UnknownDigType "rune list" | Ack digRun send_reply

record apply_state =
  as_okCount :: int
  as_failCount :: int
  as_firstErr :: "blueprint_problem option"
  as_partialRuns :: int
  as_firstPartial :: "blueprint_problem option"
  as_Digs :: pendingDigs

definition apply_run :: "(nat \<Rightarrow> CommandMessage \<Rightarrow> send_reply) \<Rightarrow> (nat \<Rightarrow> u32) \<Rightarrow> nat \<times> digRun \<Rightarrow> apply_state \<Rightarrow> apply_state" where
  "apply_run send ids ir s = (case ir of (i, run) \<Rightarrow>
     case digTypeFromName (dr_DigType run) of
       None \<Rightarrow> s\<lparr>as_failCount := as_failCount s + dr_Count run,
         as_firstErr := (if as_firstErr s = None then Some (UnknownDigType (dr_DigType run)) else as_firstErr s)\<rparr>
     | Some dt \<Rightarrow>
       let reply = send i (SendDigRegion dt (dr_X1 run) (dr_Y run) (dr_Z run) (dr_X2 run) (dr_Y run) (dr_Z run) (ids i)) in
       if \<not> ackDesignated reply then s\<lparr>as_failCount := as_failCount s + dr_Count run,
         as_firstErr := (if as_firstErr s = None then Some (Ack run reply) else as_firstErr s)\<rparr>
       else let s = (case reply of
                Inr (Some res) \<Rightarrow> if \<not> cr_Success res
                  then s\<lparr>as_partialRuns := as_partialRuns s + 1,
                    as_firstPartial := (if as_firstPartial s = None then Some (Ack run reply) else as_firstPartial s)\<rparr>
                  else s
              | _ \<Rightarrow> s)
         in s\<lparr>as_okCount := as_okCount s + dr_Count run,
              as_Digs := pending_add (dr_X1 run) (dr_Y run) (dr_Z run) (dr_X2 run) (dr_Y run) (dr_Z run) (as_Digs s)\<rparr>)"

definition applyBlueprintCmds ::
  "(nat \<Rightarrow> CommandMessage \<Rightarrow> send_reply) \<Rightarrow> (nat \<Rightarrow> u32) \<Rightarrow> DigCommand list \<Rightarrow> pendingDigs \<Rightarrow> apply_state" where
  "applyBlueprintCmds send ids cmds digs = fold (apply_run send ids) (enumerate 0 (coalesceDigRuns cmds))
     \<lparr>as_okCount = 0, as_failCount = 0, as_firstErr = None, as_partialRuns = 0, as_firstPartial = None, as_Digs = digs\<rparr>"

text \<open>A run is taken when its type is on the wire and the plugin designated it.\<close>

definition run_taken :: "(nat \<Rightarrow> CommandMessage \<Rightarrow> send_reply) \<Rightarrow> (nat \<Rightarrow> u32) \<Rightarrow> nat \<times> digRun \<Rightarrow> bool" where
  "run_taken send ids ir \<longleftrightarrow> (case ir of (i, run) \<Rightarrow>
     case digTypeFromName (dr_DigType run) of
       None \<Rightarrow> False
     | Some dt \<Rightarrow> ackDesignated (send i
         (SendDigRegion dt (dr_X1 run) (dr_Y run) (dr_Z run) (dr_X2 run) (dr_Y run) (dr_Z run) (ids i))))"

lemma apply_run_effect:
  "as_okCount (apply_run send ids ir s) = as_okCount s + (if run_taken send ids ir then dr_Count (snd ir) else 0)"
  "as_failCount (apply_run send ids ir s) = as_failCount s + (if run_taken send ids ir then 0 else dr_Count (snd ir))"
  "as_firstErr (apply_run send ids ir s) = None \<longleftrightarrow> as_firstErr s = None \<and> run_taken send ids ir"
  "as_Digs (apply_run send ids ir s) = (if run_taken send ids ir
     then pending_add (dr_X1 (snd ir)) (dr_Y (snd ir)) (dr_Z (snd ir)) (dr_X2 (snd ir)) (dr_Y (snd ir)) (dr_Z (snd ir)) (as_Digs s)
     else as_Digs s)"
  by (cases ir; simp add: apply_run_def run_taken_def Let_def split: option.split sum.split)+

lemma pending_contains_add:
  assumes "sint (dr_X1 r) \<le> sint (dr_X2 r)" and "p \<noteq> None"
  shows "pending_contains (pending_add (dr_X1 r) (dr_Y r) (dr_Z r) (dr_X2 r) (dr_Y r) (dr_Z r) p) x y z \<longleftrightarrow>
     pending_contains p x y z \<or> (dr_DigType r, \<lparr>cd_X = x, cd_Y = y, cd_Z = z\<rparr>) \<in> run_tiles r"
  using assms
  by (auto simp: pending_add_def pending_contains_def rect_contains_def run_tiles_def slt_def sint_eq_iff
      not_less order_antisym)

lemma apply_runs_counts:
  "as_okCount (fold (apply_run send ids) irs s) = as_okCount s + (\<Sum>ir\<leftarrow>filter (run_taken send ids) irs. dr_Count (snd ir))"
  "as_okCount (fold (apply_run send ids) irs s) + as_failCount (fold (apply_run send ids) irs s) =
     as_okCount s + as_failCount s + (\<Sum>ir\<leftarrow>irs. dr_Count (snd ir))"
  "as_firstErr (fold (apply_run send ids) irs s) = None \<longleftrightarrow> as_firstErr s = None \<and> (\<forall>ir\<in>set irs. run_taken send ids ir)"
  by (induction irs arbitrary: s) (auto simp: apply_run_effect)

lemma apply_run_Digs: "as_Digs s \<noteq> None \<Longrightarrow> as_Digs (apply_run send ids ir s) \<noteq> None"
  by (auto simp: apply_run_effect pending_add_def Let_def split: option.splits)

lemma apply_runs_Digs:
  "(\<And>ir. ir \<in> set irs \<Longrightarrow> sint (dr_X1 (snd ir)) \<le> sint (dr_X2 (snd ir))) \<Longrightarrow> as_Digs s \<noteq> None \<Longrightarrow>
     pending_contains (as_Digs (fold (apply_run send ids) irs s)) x y z \<longleftrightarrow>
     pending_contains (as_Digs s) x y z \<or> (\<exists>ir\<in>set irs. run_taken send ids ir \<and>
       (dr_DigType (snd ir), \<lparr>cd_X = x, cd_Y = y, cd_Z = z\<rparr>) \<in> run_tiles (snd ir))"
proof (induction irs arbitrary: s)
  case (Cons ir irs)
  have "pending_contains (as_Digs (apply_run send ids ir s)) x y z \<longleftrightarrow> pending_contains (as_Digs s) x y z \<or>
      run_taken send ids ir \<and> (dr_DigType (snd ir), \<lparr>cd_X = x, cd_Y = y, cd_Z = z\<rparr>) \<in> run_tiles (snd ir)"
    using pending_contains_add [of "snd ir" "as_Digs s" x y z] Cons.prems by (simp add: apply_run_effect)
  moreover note Cons.IH [of "apply_run send ids ir s", OF _ apply_run_Digs [OF Cons.prems(2)]]
  ultimately show ?case using Cons.prems(1) by (simp add: disj_assoc)
qed simp

text \<open>
  The report of a blueprint's application is true: the tiles counted as designated and as failed add up to the
  number of distinct tiles, those counted as designated are the tiles of the runs the plugin took, an error is reported
  exactly when a run failed, and the record of dug rectangles then holds exactly the tiles it
  held before and those of the runs that were taken.
\<close>

theorem blueprint_apply_accounts:
  assumes "applyBlueprintCmds send ids cmds (Some digs) = s"
  shows "as_okCount s + as_failCount s = int (card (cmd_tile ` set cmds)) \<and>
    as_okCount s = (\<Sum>ir\<leftarrow>filter (run_taken send ids) (enumerate 0 (coalesceDigRuns cmds)). int (card (run_tiles (snd ir)))) \<and>
    (as_firstErr s = None \<longleftrightarrow> (\<forall>ir\<in>set (enumerate 0 (coalesceDigRuns cmds)). run_taken send ids ir)) \<and>
    (\<forall>x y z. pending_contains (as_Digs s) x y z \<longleftrightarrow> pending_contains (Some digs) x y z \<or>
       (\<exists>ir\<in>set (enumerate 0 (coalesceDigRuns cmds)). run_taken send ids ir \<and>
          (dr_DigType (snd ir), \<lparr>cd_X = x, cd_Y = y, cd_Z = z\<rparr>) \<in> run_tiles (snd ir)))"
proof -
  let ?irs = "enumerate 0 (coalesceDigRuns cmds)"
  have mem: "snd ir \<in> set (coalesceDigRuns cmds)" if "ir \<in> set ?irs" for ir
    using that imageI [of ir "set ?irs" snd] by (simp flip: set_map)
  have le: "sint (dr_X1 (snd ir)) \<le> sint (dr_X2 (snd ir))" if "ir \<in> set ?irs" for ir
    using coalesce_runs(2) mem that by blast
  have "(\<Sum>ir\<leftarrow>?irs. dr_Count (snd ir)) = (\<Sum>r\<leftarrow>map snd ?irs. dr_Count r)" by (simp add: o_def del: map_snd_enumerate)
  then have total: "(\<Sum>ir\<leftarrow>?irs. dr_Count (snd ir)) = int (card (cmd_tile ` set cmds))" by (simp add: coalesce_total)
  have count: "(\<Sum>ir\<leftarrow>filter (run_taken send ids) ?irs. dr_Count (snd ir)) =
      (\<Sum>ir\<leftarrow>filter (run_taken send ids) ?irs. int (card (run_tiles (snd ir))))"
    by (rule arg_cong [of _ _ sum_list], rule map_cong [OF refl], rule coalesce_count, rule mem) simp
  define s0 where "s0 = \<lparr>as_okCount = 0, as_failCount = 0, as_firstErr = None, as_partialRuns = 0,
    as_firstPartial = None, as_Digs = Some digs\<rparr>"
  have s: "s = fold (apply_run send ids) ?irs s0" using assms by (simp add: applyBlueprintCmds_def s0_def)
  have s0: "as_okCount s0 = 0" "as_failCount s0 = 0" "as_firstErr s0 = None" "as_Digs s0 = Some digs"
    by (simp_all add: s0_def)
  show ?thesis
  proof (intro conjI allI)
    show "as_okCount s + as_failCount s = int (card (cmd_tile ` set cmds))"
      using apply_runs_counts(2) [of send ids ?irs s0] by (simp add: s s0 total)
    show "as_okCount s = (\<Sum>ir\<leftarrow>filter (run_taken send ids) ?irs. int (card (run_tiles (snd ir))))"
      using apply_runs_counts(1) [of send ids ?irs s0] by (simp add: s s0 count)
    show "as_firstErr s = None \<longleftrightarrow> (\<forall>ir\<in>set ?irs. run_taken send ids ir)"
      using apply_runs_counts(3) [of send ids ?irs s0] by (simp add: s s0)
    show "pending_contains (as_Digs s) x y z \<longleftrightarrow> pending_contains (Some digs) x y z \<or>
       (\<exists>ir\<in>set ?irs. run_taken send ids ir \<and>
          (dr_DigType (snd ir), \<lparr>cd_X = x, cd_Y = y, cd_Z = z\<rparr>) \<in> run_tiles (snd ir))" for x y z
      using apply_runs_Digs [of ?irs s0 send ids x y z, OF le] by (simp add: s s0)
  qed
qed

text \<open>A plugin that takes the first run and refuses the second.\<close>

definition took :: CommandResult where
  "took = \<lparr>cr_Success = True, cr_Status = 0, cr_ErrorMsg = [], cr_Response = None, cr_Duration = 0\<rparr>"

definition first_only :: "nat \<Rightarrow> CommandMessage \<Rightarrow> send_reply" where
  "first_only i m = (if i = 0 then Inr (Some took) else Inr None)"

lemma blueprint_apply_accounts_witness:
  "as_okCount (applyBlueprintCmds first_only (\<lambda>i. of_nat i) [dig_at 4, dig_at 1, dig_at 2, dig_at 2] (Some [])) = 2 \<and>
   as_failCount (applyBlueprintCmds first_only (\<lambda>i. of_nat i) [dig_at 4, dig_at 1, dig_at 2, dig_at 2] (Some [])) = 1"
proof -
  let ?cmds = "[dig_at 4, dig_at 1, dig_at 2, dig_at 2]"
  let ?s = "applyBlueprintCmds first_only (\<lambda>i. of_nat i) ?cmds (Some [])"
  have "as_okCount ?s = 2" by code_simp
  moreover have "card (cmd_tile ` set ?cmds) = 3" by code_simp
  ultimately show ?thesis
    using blueprint_apply_accounts [of first_only "\<lambda>i. of_nat i" ?cmds "[]" ?s] by simp
qed

section \<open>Round trips\<close>

text \<open>A header of the community's format, without the empty cells the files of this repository are padded with.\<close>

text \<open>
  The documented Quickfort header does not load: a file that starts with a record of one field, as in
  the example in the loader's comment, and has a row of any other length is refused before it is looked at.
\<close>

theorem unpadded_header_rejected:
  assumes "length header = 1" and "row \<in> set rows" and "length row \<noteq> 1"
  shows "LoadFromCSV filename (header # rows) = Inl CsvFieldCount"
  using assms by (auto simp: LoadFromCSV_def ReadAll_def)

lemma unpadded_header_rejected_witness:
  "LoadFromCSV [] [[runes ''#dig start(26;25)''], [[], runes ''d'', runes ''d'']] = Inl CsvFieldCount"
  by (rule unpadded_header_rejected) auto

lemma load_row_format:
  "load_row i [format_int (sint x), format_int (sint y), format_int (sint z), t] = Inr \<lparr>de_X = x, de_Y = y, de_Z = z, de_DigType = t\<rparr>"
  by (simp add: load_row_def)

lemma load_rows_format:
  "load_rows i (map (\<lambda>dig. [format_int (sint (de_X dig)), format_int (sint (de_Y dig)), format_int (sint (de_Z dig)),
     de_DigType dig]) digs) = Inr digs"
  by (induction digs arbitrary: i) (simp_all add: load_row_format)

definition box_blueprint :: "rune list \<Rightarrow> DigEntry list \<Rightarrow> DigBlueprint" where
  "box_blueprint name digs = (let b = bounding_box (map entry_coord digs) in
     (new_blueprint name)\<lparr>bp_Digs := digs, bp_Width := mr_XMax b - mr_XMin b + 1,
       bp_Height := mr_YMax b - mr_YMin b + 1, bp_Depth := mr_ZMax b - mr_ZMin b + 1\<rparr>)"

lemma box_blueprint_Digs [simp]: "bp_Digs (box_blueprint name digs) = digs"
  by (simp add: box_blueprint_def Let_def)

lemma Load_Save: "LoadFromCSV filename (SaveToCSV bp) = Inr (box_blueprint filename (bp_Digs bp))"
proof -
  have all: "ReadAll (SaveToCSV bp) = Some (SaveToCSV bp)" by (simp add: ReadAll_def SaveToCSV_def)
  have trim: "TrimSpace (runes ''x'') = runes ''x''" by (simp add: TrimSpace_def runes_def is_space_def)
  have hash: "\<not> HasPrefix (runes ''x'') (runes ''#'')" by code_simp
  have parts: "SaveToCSV bp \<noteq> []" "hd (SaveToCSV bp) \<noteq> []" "hd (hd (SaveToCSV bp)) = runes ''x''"
    by (simp_all add: SaveToCSV_def)
  have "load_rows 1 (drop 1 (SaveToCSV bp)) = Inr (bp_Digs bp)"
    by (simp add: SaveToCSV_def load_rows_format)
  then show ?thesis
    by (simp only: LoadFromCSV_def all parts trim hash option.case if_True if_False Let_def simp_thms bindr_simps box_blueprint_def)
qed

text \<open>
  C30: A saved blueprint digs the same tiles again: the tiles a scan of a region found dug (everything but
  constructions), written to a file, read back and placed at the region's corner, come out as commands for exactly those
  tiles, and the runs that are sent cover exactly those tiles.
\<close>

theorem saved_blueprint_redigs:
  assumes "CreateBlueprintFromRegionScan tiles region name = Inr bp"
  shows "\<exists>bp'. LoadFromCSV filename (SaveToCSV bp) = Inr bp' \<and> bp_Digs bp' = bp_Digs bp \<and>
    (\<Union>r\<in>set (coalesceDigRuns (ApplyAt \<lparr>cd_X = mr_XMin region, cd_Y = mr_YMin region, cd_Z = mr_ZMin region\<rparr> bp')). run_tiles r) =
    {(runes ''default'', \<lparr>cd_X = rst_X t, cd_Y = rst_Y t, cd_Z = rst_Z t\<rparr>) | t. t \<in> set tiles \<and> rst_Kind t \<noteq> runes ''construction''}"
proof -
  let ?o = "\<lparr>cd_X = mr_XMin region, cd_Y = mr_YMin region, cd_Z = mr_ZMin region\<rparr>"
  let ?bp = "box_blueprint filename (bp_Digs bp)"
  have digs: "bp_Digs bp = map (\<lambda>t. region_entry region (rst_X t) (rst_Y t) (rst_Z t))
      (filter (\<lambda>t. rst_Kind t \<noteq> runes ''construction'') tiles)"
    using assms by (auto simp: CreateBlueprintFromRegionScan_def region_blueprint_def Let_def split: if_splits)
  have "cmd_tile ` set (ApplyAt ?o ?bp) =
      {(runes ''default'', \<lparr>cd_X = rst_X t, cd_Y = rst_Y t, cd_Z = rst_Z t\<rparr>) | t. t \<in> set tiles \<and> rst_Kind t \<noteq> runes ''construction''}"
    by (auto simp: ApplyAt_def digs cmd_tile_def region_entry_def image_iff)
  then show ?thesis
    using coalesce_runs(3) [of "ApplyAt ?o ?bp"] by (intro exI [of _ ?bp]) (simp add: Load_Save)
qed

lemma saved_blueprint_redigs_witness:
  "\<exists>bp bp'. CreateBlueprintFromRegionScan
       [\<lparr>rst_X = 5, rst_Y = 6, rst_Z = 7, rst_Kind = runes ''floor''\<rparr>, \<lparr>rst_X = 6, rst_Y = 6, rst_Z = 7, rst_Kind = runes ''construction''\<rparr>]
       \<lparr>mr_XMin = 5, mr_XMax = 9, mr_YMin = 5, mr_YMax = 9, mr_ZMin = 7, mr_ZMax = 7\<rparr> [] = Inr bp \<and>
     LoadFromCSV [] (SaveToCSV bp) = Inr bp' \<and>
     (\<Union>r\<in>set (coalesceDigRuns (ApplyAt \<lparr>cd_X = 5, cd_Y = 5, cd_Z = 7\<rparr> bp')). run_tiles r) =
       {(runes ''default'', \<lparr>cd_X = 5, cd_Y = 6, cd_Z = 7\<rparr>)}"
proof -
  let ?ts = "[\<lparr>rst_X = 5, rst_Y = 6, rst_Z = 7, rst_Kind = runes ''floor''\<rparr>,
    \<lparr>rst_X = 6, rst_Y = 6, rst_Z = 7, rst_Kind = runes ''construction''\<rparr>]"
  let ?r = "\<lparr>mr_XMin = 5, mr_XMax = 9, mr_YMin = 5, mr_YMax = 9, mr_ZMin = 7, mr_ZMax = 7\<rparr>"
  obtain bp where bp: "CreateBlueprintFromRegionScan ?ts ?r [] = Inr bp"
    by (simp add: CreateBlueprintFromRegionScan_def)
  obtain bp' where bp': "LoadFromCSV [] (SaveToCSV bp) = Inr bp'"
    and tiles: "(\<Union>r\<in>set (coalesceDigRuns (ApplyAt \<lparr>cd_X = mr_XMin ?r, cd_Y = mr_YMin ?r, cd_Z = mr_ZMin ?r\<rparr> bp')). run_tiles r) =
      {(runes ''default'', \<lparr>cd_X = rst_X t, cd_Y = rst_Y t, cd_Z = rst_Z t\<rparr>) | t. t \<in> set ?ts \<and> rst_Kind t \<noteq> runes ''construction''}"
    using saved_blueprint_redigs [OF bp, of "[]"] by (elim exE conjE) (rule that)
  have kinds: "runes ''floor'' \<noteq> runes ''construction''" unfolding runes_inj by simp
  have "{(runes ''default'', \<lparr>cd_X = rst_X t, cd_Y = rst_Y t, cd_Z = rst_Z t\<rparr>) | t. t \<in> set ?ts \<and> rst_Kind t \<noteq> runes ''construction''} =
      {(runes ''default'', \<lparr>cd_X = 5, cd_Y = 6, cd_Z = 7\<rparr>)}"
    using kinds by (auto intro!: exI [of _ "hd ?ts"])
  then show ?thesis using bp bp' tiles by (intro exI [of _ bp] exI [of _ bp']) simp
qed

end
