(* ===== verification/Deliberator.thy ===== *)
theory Deliberator
  imports Go_Fmt Plan_Executor
begin

text \<open>
  The deliberator (\<open>internal/bdi/loop.go\<close>): a turn asks the language model, answers its queries for a
  bounded number of passes, and commits the commands of one response to the plan. The provider, its response parsers
  and the query registry are arguments of the definitions. The texts of the log are not modelled.
\<close>

section \<open>Parsed commands\<close>

record RegionSpec =
  rs_X1 :: u16
  rs_Y1 :: u16
  rs_Z :: u16
  rs_X2 :: u16
  rs_Y2 :: u16
  rs_Z2 :: u16

record CommandSpec =
  cs_Type :: string
  cs_DigType :: string
  cs_BuildType :: u8
  cs_ZoneType :: u8
  cs_OrderType :: u8
  cs_Quantity :: u16
  cs_StockpileGroups :: u32
  cs_SmoothType :: u8
  cs_AlertID :: u32
  cs_Region :: "RegionSpec option"

text \<open>The conversions between \<open>uint16\<close> and \<open>int16\<close> keep the bits.\<close>

definition region_of_spec :: "RegionSpec \<Rightarrow> PlanRegion" where
  "region_of_spec r =
     (let z1 = rs_Z r;
          z2 = z1;
          z2 = (if rs_Z2 r > 0 \<and> z2 \<noteq> rs_Z2 r then rs_Z2 r else z2)
      in \<lparr>pr_X1 = rs_X1 r, pr_Y1 = rs_Y1 r, pr_Z1 = z1, pr_X2 = rs_X2 r, pr_Y2 = rs_Y2 r, pr_Z2 = z2\<rparr>)"

definition actionFromCommandSpec :: "CommandSpec \<Rightarrow> Action" where
  "actionFromCommandSpec spec = \<lparr>ac_Type = cs_Type spec, ac_DigType = cs_DigType spec, ac_BuildType = cs_BuildType spec,
     ac_ZoneType = cs_ZoneType spec, ac_OrderType = cs_OrderType spec, ac_Quantity = cs_Quantity spec,
     ac_StockpileGroups = cs_StockpileGroups spec, ac_SmoothType = cs_SmoothType spec, ac_AlertID = cs_AlertID spec,
     ac_Region = (case cs_Region spec of
         None \<Rightarrow> \<lparr>pr_X1 = 0, pr_Y1 = 0, pr_Z1 = 0, pr_X2 = 0, pr_Y2 = 0, pr_Z2 = 0\<rparr>
       | Some r \<Rightarrow> region_of_spec r),
     ac_Description = []\<rparr>"

section \<open>Committing\<close>

definition node_id :: "u64 \<Rightarrow> nat \<Rightarrow> string" where
  "node_id turn idx = ''t'' @ dec (unat turn) @ ''-n'' @ dec idx"

definition plan_node_of :: "go_time \<Rightarrow> u64 \<Rightarrow> nat \<Rightarrow> Action \<Rightarrow> Node" where
  "plan_node_of now turn idx action = \<lparr>nd_ID = node_id turn idx, nd_Action = action, nd_Dependencies = [],
     nd_Status = StatusPending, nd_CreatedAt = now, nd_StartedAt = 0, nd_DoneAt = 0, nd_LastProgressAt = 0,
     nd_StallNotedAt = 0, nd_Result = Text [], nd_PredictionCount = 0, nd_PredictionsConfirmed = 0,
     nd_PredictionsDiverged = 0, nd_CommittingTurn = turn\<rparr>"

definition commit_one :: "(nat \<Rightarrow> go_time) \<Rightarrow> u64 \<Rightarrow> nat \<times> CommandSpec \<Rightarrow> int \<times> DAG \<Rightarrow> int \<times> DAG" where
  "commit_one clock turn ic acc = (case ic of (idx, spec) \<Rightarrow> case acc of (count, d) \<Rightarrow>
     let action = actionFromCommandSpec spec in
     if ac_Type action = [] then (count, d)
     else (count + 1, Add (clock idx) (Some (plan_node_of (clock idx) turn idx action)) d))"

definition commitPlan :: "(nat \<Rightarrow> go_time) \<Rightarrow> u64 \<Rightarrow> CommandSpec list option \<Rightarrow> DAG \<Rightarrow> int \<times> DAG" where
  "commitPlan clock turn parsed d = (case parsed of
       None \<Rightarrow> (0, d)
     | Some cmds \<Rightarrow>
       if cmds = [] then (0, d) else fold (commit_one clock turn) (enumerate 0 cmds) (0, d))"

section \<open>A turn\<close>

datatype role = User | Assistant

datatype stop_reason = LlmError nat | Committed int nat | EmptyResponse nat | MaxPasses int

record cycle_state =
  cy_history :: "(role \<times> gostring) list"
  cy_currentMsg :: gostring
  cy_totalRequests :: int
  cy_committed :: int
  cy_stopReason :: "stop_reason option"
  cy_dag :: DAG

text \<open>
  What a turn is given: the provider's answer to a prompt (its error is only reported), the parsed commands of a
  response (None for no result), the number of queries in it, and the text of their results.
\<close>

record cycle_env =
  ce_SendPrompt :: "nat \<Rightarrow> (role \<times> gostring) list \<Rightarrow> gostring \<Rightarrow> gostring option"
  ce_ParseResponse :: "gostring \<Rightarrow> CommandSpec list option"
  ce_ParseRequests :: "gostring \<Rightarrow> nat"
  ce_Results :: "gostring \<Rightarrow> gostring"
  ce_clock :: "nat \<Rightarrow> go_time"

fun run_passes :: "cycle_env \<Rightarrow> u64 \<Rightarrow> nat \<Rightarrow> nat \<Rightarrow> cycle_state \<Rightarrow> cycle_state" where
  "run_passes e turn 0 pass st = st"
| "run_passes e turn (Suc k) pass st = (case ce_SendPrompt e pass (cy_history st) (cy_currentMsg st) of
     None \<Rightarrow> st\<lparr>cy_stopReason := Some (LlmError pass)\<rparr>
   | Some text \<Rightarrow>
     let parsed = ce_ParseResponse e text; requests = ce_ParseRequests e text in
     if parsed \<noteq> None \<and> parsed \<noteq> Some [] then
       (let (committed, d) = commitPlan (ce_clock e) turn parsed (cy_dag st)
        in st\<lparr>cy_committed := committed, cy_dag := d, cy_stopReason := Some (Committed committed pass)\<rparr>)
     else if requests > 0 then
       run_passes e turn k (Suc pass)
         (st\<lparr>cy_totalRequests := cy_totalRequests st + int requests,
            cy_history := cy_history st @ [(User, cy_currentMsg st), (Assistant, text)],
            cy_currentMsg := ce_Results e text\<rparr>)
     else st\<lparr>cy_stopReason := Some (EmptyResponse pass)\<rparr>)"

record Loop =
  lp_WaitOnEmptySnapshot :: bool
  lp_MinDwarvesToStart :: int
  lp_MaxPasses :: int
  lp_turnCounter :: u64
  lp_dag :: DAG

definition nextTurn :: "Loop \<Rightarrow> u64 \<times> Loop" where
  "nextTurn l = (lp_turnCounter l + 1, l\<lparr>lp_turnCounter := lp_turnCounter l + 1\<rparr>)"

text \<open>The number of dwarves in the snapshot and the rendered first message are what the turn starts from.\<close>

definition runCycle :: "cycle_env \<Rightarrow> int \<Rightarrow> gostring \<Rightarrow> Loop \<Rightarrow> cycle_state option \<times> Loop" where
  "runCycle e dwarves initialMsg l =
     (if lp_WaitOnEmptySnapshot l \<and> dwarves < lp_MinDwarvesToStart l then (None, l)
      else let (turn, l) = nextTurn l;
               maxPasses = (if lp_MaxPasses l \<le> 0 then 5 else lp_MaxPasses l);
               st = run_passes e turn (nat maxPasses) 1 \<lparr>cy_history = [], cy_currentMsg = initialMsg, cy_totalRequests = 0,
                 cy_committed = 0, cy_stopReason = None, cy_dag = lp_dag l\<rparr>;
               st = (if cy_stopReason st = None then st\<lparr>cy_stopReason := Some (MaxPasses maxPasses)\<rparr> else st)
           in (Some st, l\<lparr>lp_dag := cy_dag st\<rparr>))"

section \<open>What a commit does to the plan\<close>

lemma dec_no_dash: "CHR ''-'' \<notin> set (dec n)"
  using dec_chars [of "CHR ''-''" n] by auto

lemma node_id_inj [simp]: "node_id t i = node_id u j \<longleftrightarrow> t = u \<and> i = j"
proof
  assume "node_id t i = node_id u j"
  then have eq: "dec (unat t) @ CHR ''-'' # ''n'' @ dec i = dec (unat u) @ CHR ''-'' # ''n'' @ dec j"
    by (simp add: node_id_def)
  have "\<not> (48 \<le> (of_char CHR ''-'' :: nat) \<and> (of_char CHR ''-'' :: nat) < 58)" by simp
  from dec_split [OF eq this] have "unat t = unat u" "dec i = dec j" by simp_all
  then show "t = u \<and> i = j" by (simp add: dec_inj word_unat_eq_iff)
qed simp

lemma node_id_not_Nil [simp]: "node_id t i \<noteq> []"
  by (simp add: node_id_def)

text \<open>The node as it stands in the plan.\<close>

definition ready_node :: "(nat \<Rightarrow> go_time) \<Rightarrow> u64 \<Rightarrow> nat \<Rightarrow> CommandSpec \<Rightarrow> Node" where
  "ready_node clock turn idx spec = (plan_node_of (clock idx) turn idx (actionFromCommandSpec spec))\<lparr>nd_Status := StatusReady\<rparr>"

lemma Add_plan_node:
  "dg_nodes d (node_id turn idx) = None \<Longrightarrow> Add (clock idx) (Some (plan_node_of (clock idx) turn idx (actionFromCommandSpec spec))) d =
     \<lparr>dg_nodes = (dg_nodes d)(node_id turn idx \<mapsto> ready_node clock turn idx spec),
      dg_insertOrder = dg_insertOrder d @ [node_id turn idx]\<rparr>"
  by (simp add: Add_def plan_node_of_def ready_node_def allDepsDoneLocked_def)

definition live :: "nat \<times> CommandSpec \<Rightarrow> bool" where
  "live ic \<longleftrightarrow> cs_Type (snd ic) \<noteq> []"

lemma commit_one_step:
  "commit_one clock turn ic (n, d) = (if live ic
     then (n + 1, Add (clock (fst ic)) (Some (plan_node_of (clock (fst ic)) turn (fst ic) (actionFromCommandSpec (snd ic)))) d)
     else (n, d))"
  by (cases ic) (simp add: commit_one_def live_def actionFromCommandSpec_def Let_def)

lemma commit_fold:
  assumes "dag_inv d" and "distinct (map fst ics)" and "\<And>ic. ic \<in> set ics \<Longrightarrow> dg_nodes d (node_id turn (fst ic)) = None"
    and "fold (commit_one clock turn) ics (n, d) = (n', d')"
  shows "dag_inv d' \<and> n' = n + int (length (filter live ics)) \<and>
    dg_insertOrder d' = dg_insertOrder d @ map (node_id turn \<circ> fst) (filter live ics) \<and>
    (\<forall>ic\<in>set ics. live ic \<longrightarrow> dg_nodes d' (node_id turn (fst ic)) = Some (ready_node clock turn (fst ic) (snd ic))) \<and>
    (\<forall>j. j \<notin> (node_id turn \<circ> fst) ` set (filter live ics) \<longrightarrow> dg_nodes d' j = dg_nodes d j)"
  using assms
proof (induction ics arbitrary: n d)
  case (Cons ic ics)
  show ?case
  proof (cases "live ic")
    case False
    then have "fold (commit_one clock turn) ics (n, d) = (n', d')" using Cons.prems(4) by (simp add: commit_one_step)
    then show ?thesis using Cons.IH [OF Cons.prems(1)] Cons.prems(2,3) False by simp
  next
    case True
    let ?n = "plan_node_of (clock (fst ic)) turn (fst ic) (actionFromCommandSpec (snd ic))"
    define d1 where "d1 = Add (clock (fst ic)) (Some ?n) d"
    have fresh: "dg_nodes d (node_id turn (fst ic)) = None" using Cons.prems(3) by simp
    have d1: "d1 = \<lparr>dg_nodes = (dg_nodes d)(node_id turn (fst ic) \<mapsto> ready_node clock turn (fst ic) (snd ic)),
        dg_insertOrder = dg_insertOrder d @ [node_id turn (fst ic)]\<rparr>"
      unfolding d1_def by (rule Add_plan_node [OF fresh])
    have "dag_inv d1" unfolding d1_def
      by (rule conjunct1 [OF Add_inv [OF Cons.prems(1)]]) (simp_all add: plan_node_of_def fresh)
    moreover have "dg_nodes d1 (node_id turn (fst jc)) = None" if "jc \<in> set ics" for jc
    proof -
      have "fst jc \<noteq> fst ic" using that Cons.prems(2) by (auto simp: image_iff)
      then show ?thesis using Cons.prems(3) [of jc] that by (simp add: d1)
    qed
    moreover have "fold (commit_one clock turn) ics (n + 1, d1) = (n', d')"
      using Cons.prems(4) True by (simp add: commit_one_step d1_def)
    ultimately have IH: "dag_inv d' \<and> n' = n + 1 + int (length (filter live ics)) \<and>
      dg_insertOrder d' = dg_insertOrder d1 @ map (node_id turn \<circ> fst) (filter live ics) \<and>
      (\<forall>ic\<in>set ics. live ic \<longrightarrow> dg_nodes d' (node_id turn (fst ic)) = Some (ready_node clock turn (fst ic) (snd ic))) \<and>
      (\<forall>j. j \<notin> (node_id turn \<circ> fst) ` set (filter live ics) \<longrightarrow> dg_nodes d' j = dg_nodes d1 j)"
      using Cons.prems(2) by (intro Cons.IH) simp_all
    have "node_id turn (fst ic) \<notin> (node_id turn \<circ> fst) ` set (filter live ics)"
      using Cons.prems(2) by (auto simp: image_iff)
    then have "dg_nodes d' (node_id turn (fst ic)) = Some (ready_node clock turn (fst ic) (snd ic))"
      using IH by (simp add: d1)
    then show ?thesis using IH True by (auto simp: d1)
  qed
qed simp

text \<open>No node of the turn is in the plan yet.\<close>

definition turn_fresh :: "u64 \<Rightarrow> DAG \<Rightarrow> bool" where
  "turn_fresh turn d \<longleftrightarrow> (\<forall>idx. dg_nodes d (node_id turn idx) = None)"

lemma commitPlan_effect:
  assumes "dag_inv d" and "turn_fresh turn d" and "commitPlan clock turn (Some cmds) d = (n, d')"
  shows "dag_inv d' \<and> n = int (length (filter live (enumerate 0 cmds))) \<and>
    dg_insertOrder d' = dg_insertOrder d @ map (node_id turn \<circ> fst) (filter live (enumerate 0 cmds)) \<and>
    (\<forall>idx<length cmds. cs_Type (cmds ! idx) \<noteq> [] \<longrightarrow>
       dg_nodes d' (node_id turn idx) = Some (ready_node clock turn idx (cmds ! idx))) \<and>
    (\<forall>j. j \<notin> (node_id turn \<circ> fst) ` set (filter live (enumerate 0 cmds)) \<longrightarrow> dg_nodes d' j = dg_nodes d j)"
proof (cases "cmds = []")
  case False
  then have run: "fold (commit_one clock turn) (enumerate 0 cmds) (0, d) = (n, d')"
    using assms(3) by (simp add: commitPlan_def)
  have "(idx, cmds ! idx) \<in> set (enumerate 0 cmds)" if "idx < length cmds" for idx
    using that by (simp add: in_set_enumerate_eq)
  moreover have "distinct (map fst (enumerate 0 cmds))" by simp
  ultimately show ?thesis
    using commit_fold [OF assms(1) _ _ run] assms(2) by (fastforce simp: turn_fresh_def live_def)
qed (use assms in \<open>simp add: commitPlan_def\<close>)

text \<open>
  A committed plan is the response, word for word: every command with a type becomes a node with an id of its
  own, Ready at once, with exactly the command's action and its turn, in the order of the response; nothing else in
  the plan changes, and the plan stays well formed.
\<close>

theorem commit_adds_commands:
  assumes "dag_inv d" and "turn_fresh turn d" and "commitPlan clock turn (Some cmds) d = (n, d')"
  shows "dag_inv d' \<and>
    (\<forall>idx<length cmds. cs_Type (cmds ! idx) \<noteq> [] \<longrightarrow> (\<exists>m. Get d' (node_id turn idx) = Some m \<and>
       nd_Status m = StatusReady \<and> nd_Action m = actionFromCommandSpec (cmds ! idx) \<and> nd_CommittingTurn m = turn)) \<and>
    (\<forall>j. (\<nexists>idx. idx < length cmds \<and> cs_Type (cmds ! idx) \<noteq> [] \<and> j = node_id turn idx) \<longrightarrow> Get d' j = Get d j) \<and>
    dg_insertOrder d' = dg_insertOrder d @ map (node_id turn) (filter (\<lambda>idx. cs_Type (cmds ! idx) \<noteq> []) [0..<length cmds]) \<and>
    n = int (length (filter (\<lambda>spec. cs_Type spec \<noteq> []) cmds))"
proof -
  note eff = commitPlan_effect [OF assms]
  have en: "enumerate 0 cmds = map (\<lambda>i. (i, cmds ! i)) [0..<length cmds]"
    by (rule nth_equalityI) (simp_all add: nth_enumerate_eq)
  have live_map: "filter live (enumerate 0 cmds) = map (\<lambda>i. (i, cmds ! i)) (filter (\<lambda>idx. cs_Type (cmds ! idx) \<noteq> []) [0..<length cmds])"
    unfolding en by (simp add: filter_map o_def live_def)
  have "filter (\<lambda>spec. cs_Type spec \<noteq> []) cmds = map ((!) cmds) (filter (\<lambda>idx. cs_Type (cmds ! idx) \<noteq> []) [0..<length cmds])"
    using filter_map [of "\<lambda>spec. cs_Type spec \<noteq> []" "(!) cmds" "[0..<length cmds]"] by (simp add: map_nth o_def)
  then have n: "n = int (length (filter (\<lambda>spec. cs_Type spec \<noteq> []) cmds))" using eff live_map by simp
  have "(node_id turn \<circ> fst) ` set (filter live (enumerate 0 cmds)) =
      {node_id turn idx | idx. idx < length cmds \<and> cs_Type (cmds ! idx) \<noteq> []}"
    unfolding live_map by (auto simp: image_iff)
  moreover have "map (node_id turn \<circ> fst) (filter live (enumerate 0 cmds)) =
      map (node_id turn) (filter (\<lambda>idx. cs_Type (cmds ! idx) \<noteq> []) [0..<length cmds])"
    unfolding live_map by simp
  ultimately show ?thesis
    using eff n by (auto simp: Get_def ready_node_def plan_node_of_def)
qed

text \<open>One command that does nothing, and one without a type.\<close>

definition spec_of :: "string \<Rightarrow> CommandSpec" where
  "spec_of ty = \<lparr>cs_Type = ty, cs_DigType = [], cs_BuildType = 0, cs_ZoneType = 0, cs_OrderType = 0, cs_Quantity = 0,
     cs_StockpileGroups = 0, cs_SmoothType = 0, cs_AlertID = 0, cs_Region = None\<rparr>"

lemma spec_of_Type [simp]: "cs_Type (spec_of ty) = ty"
  by (simp add: spec_of_def)

lemma action_Type [simp]: "ac_Type (actionFromCommandSpec s) = cs_Type s"
  by (simp add: actionFromCommandSpec_def)

lemma commit_adds_commands_witness:
  "\<exists>m. Get (snd (commitPlan (\<lambda>_. 5) 1 (Some [spec_of [], spec_of ''wait'']) New)) (node_id 1 1) = Some m \<and>
     nd_Status m = StatusReady \<and> ac_Type (nd_Action m) = ''wait''"
proof -
  obtain n d where run: "commitPlan (\<lambda>_. 5) 1 (Some [spec_of [], spec_of ''wait'']) New = (n, d)" by fastforce
  have "turn_fresh 1 New" by (simp add: turn_fresh_def New_def)
  from commit_adds_commands [OF New_inv this run] have
    "\<forall>idx<length [spec_of [], spec_of ''wait'']. cs_Type ([spec_of [], spec_of ''wait''] ! idx) \<noteq> [] \<longrightarrow>
       (\<exists>m. Get d (node_id 1 idx) = Some m \<and> nd_Status m = StatusReady \<and>
          nd_Action m = actionFromCommandSpec ([spec_of [], spec_of ''wait''] ! idx) \<and> nd_CommittingTurn m = 1)" by blast
  from this [rule_format, of 1] show ?thesis
    by (auto simp: run)
qed



text \<open>
  The model cannot ask for a shaft down to level 0: the parsed region's second level 0 is taken for "not
  given", so the planned region keeps both levels of the command exactly when the second one is not 0 or the first is 0 too.
\<close>

theorem planned_levels:
  assumes "cs_Region spec = Some r"
  shows "(pr_Z1 (ac_Region (actionFromCommandSpec spec)) = rs_Z r \<and> pr_Z2 (ac_Region (actionFromCommandSpec spec)) = rs_Z2 r) \<longleftrightarrow>
    rs_Z2 r \<noteq> 0 \<or> rs_Z r = 0"
  using assms by (auto simp: actionFromCommandSpec_def region_of_spec_def Let_def word_greater_zero_iff)

lemma planned_levels_witness:
  fixes s :: CommandSpec
  defines "s \<equiv> \<lparr>cs_Type = ''dig'', cs_DigType = ''updownstairs'', cs_BuildType = 0, cs_ZoneType = 0, cs_OrderType = 0,
    cs_Quantity = 0, cs_StockpileGroups = 0, cs_SmoothType = 0, cs_AlertID = 0,
    cs_Region = Some \<lparr>rs_X1 = 4, rs_Y1 = 4, rs_Z = 7, rs_X2 = 4, rs_Y2 = 4, rs_Z2 = 0\<rparr>\<rparr>"
  shows "pr_Z2 (ac_Region (actionFromCommandSpec s)) \<noteq> 0"
proof -
  have "pr_Z1 (ac_Region (actionFromCommandSpec s)) = 7"
    by (simp add: s_def actionFromCommandSpec_def region_of_spec_def Let_def)
  then show ?thesis using planned_levels [of s "\<lparr>rs_X1 = 4, rs_Y1 = 4, rs_Z = 7, rs_X2 = 4, rs_Y2 = 4, rs_Z2 = 0\<rparr>"]
    by (auto simp: s_def)
qed

section \<open>The passes of a turn\<close>

text \<open>
  A turn commits one response at most, and as a whole: either the plan is as it was, or it is the plan after the
  commands of one response, whose pass the stop reason names.
\<close>

lemma run_passes_outcome:
  "cy_stopReason st = None \<Longrightarrow>
     case cy_stopReason (run_passes e turn k pass st) of
       Some (Committed n p) \<Rightarrow> pass \<le> p \<and> p < pass + k \<and> (\<exists>text cmds. ce_ParseResponse e text = Some cmds \<and> cmds \<noteq> [] \<and>
         commitPlan (ce_clock e) turn (Some cmds) (cy_dag st) = (n, cy_dag (run_passes e turn k pass st)))
     | Some (MaxPasses m) \<Rightarrow> False
     | _ \<Rightarrow> cy_dag (run_passes e turn k pass st) = cy_dag st"
proof (induction e turn k pass st rule: run_passes.induct)
  case (2 e turn k pass st)
  show ?case
  proof (cases "ce_SendPrompt e pass (cy_history st) (cy_currentMsg st)")
    case (Some resp)
    let ?st = "st\<lparr>cy_totalRequests := cy_totalRequests st + int (ce_ParseRequests e resp),
      cy_history := cy_history st @ [(User, cy_currentMsg st), (Assistant, resp)], cy_currentMsg := ce_Results e resp\<rparr>"
    show ?thesis
    proof (cases "ce_ParseResponse e resp \<noteq> None \<and> ce_ParseResponse e resp \<noteq> Some []")
      case True
      then obtain cmds where cmds: "ce_ParseResponse e resp = Some cmds" "cmds \<noteq> []" by auto
      obtain n d where "commitPlan (ce_clock e) turn (Some cmds) (cy_dag st) = (n, d)" by fastforce
      then show ?thesis using Some cmds by (simp add: Let_def) blast
    next
      case False
      show ?thesis
      proof (cases "ce_ParseRequests e resp > 0")
        case True
        have "run_passes e turn (Suc k) pass st = run_passes e turn k (Suc pass) ?st"
          using Some False True by (auto simp: Let_def)
        moreover have "cy_stopReason ?st = None" "cy_dag ?st = cy_dag st" using "2.prems" by simp_all
        ultimately show ?thesis
          using "2.IH" [OF Some refl refl False True] by (auto split: option.splits stop_reason.splits)
      qed (use Some False in \<open>auto simp: Let_def\<close>)
    qed
  qed simp
qed simp

lemma run_passes_history:
  "cy_stopReason st = None \<Longrightarrow> length (cy_history (run_passes e turn k pass st)) +
     (if cy_stopReason (run_passes e turn k pass st) = None then 0 else 2) \<le> length (cy_history st) + 2 * k"
proof (induction e turn k pass st rule: run_passes.induct)
  case (2 e turn k pass st)
  show ?case
  proof (cases "ce_SendPrompt e pass (cy_history st) (cy_currentMsg st)")
    case (Some resp)
    then show ?thesis
      using "2.IH" [OF Some refl refl] "2.prems" by (auto simp: Let_def split: prod.split)
  qed simp
qed simp

lemma turn_outcome:
  assumes "runCycle e dwarves msg l = (Some st, l')"
  shows "lp_turnCounter l' = lp_turnCounter l + 1 \<and>
    int (length (cy_history st) div 2) + (if \<exists>m. cy_stopReason st = Some (MaxPasses m) then 0 else 1)
      \<le> (if lp_MaxPasses l \<le> 0 then 5 else lp_MaxPasses l) \<and>
    (case cy_stopReason st of
       Some (Committed n p) \<Rightarrow> (\<exists>text cmds. ce_ParseResponse e text = Some cmds \<and> cmds \<noteq> [] \<and>
         commitPlan (ce_clock e) (lp_turnCounter l + 1) (Some cmds) (lp_dag l) = (n, lp_dag l'))
     | _ \<Rightarrow> lp_dag l' = lp_dag l)"
proof -
  let ?st0 = "\<lparr>cy_history = [], cy_currentMsg = msg, cy_totalRequests = 0, cy_committed = 0, cy_stopReason = None,
    cy_dag = lp_dag l\<rparr>"
  define mp where "mp = (if lp_MaxPasses l \<le> 0 then 5 else lp_MaxPasses l)"
  define s where "s = run_passes e (lp_turnCounter l + 1) (nat mp) 1 ?st0"
  have mp: "mp > 0" by (simp add: mp_def)
  have st0: "cy_stopReason ?st0 = None" "cy_dag ?st0 = lp_dag l" by simp_all
  have st: "st = (if cy_stopReason s = None then s\<lparr>cy_stopReason := Some (MaxPasses mp)\<rparr> else s)"
    and l': "l' = l\<lparr>lp_turnCounter := lp_turnCounter l + 1, lp_dag := cy_dag st\<rparr>"
    using assms by (auto simp: runCycle_def nextTurn_def Let_def mp_def s_def split: if_splits)
  have hist: "length (cy_history s) + (if cy_stopReason s = None then 0 else 2) \<le> 2 * nat mp"
    using run_passes_history [of ?st0 e "lp_turnCounter l + 1" "nat mp" 1] by (simp add: s_def del: One_nat_def)
  have out: "case cy_stopReason s of
       Some (Committed n p) \<Rightarrow> 1 \<le> p \<and> p < 1 + nat mp \<and> (\<exists>text cmds. ce_ParseResponse e text = Some cmds \<and> cmds \<noteq> [] \<and>
         commitPlan (ce_clock e) (lp_turnCounter l + 1) (Some cmds) (lp_dag l) = (n, cy_dag s))
     | Some (MaxPasses m) \<Rightarrow> False
     | _ \<Rightarrow> cy_dag s = lp_dag l"
    by (rule run_passes_outcome [OF st0(1), of e "lp_turnCounter l + 1" "nat mp" 1, folded s_def, unfolded st0(2)])
  have "int (length (cy_history st) div 2) + (if \<exists>m. cy_stopReason st = Some (MaxPasses m) then 0 else 1) \<le> mp"
    using hist mp out by (cases "cy_stopReason s") (auto simp: st split: stop_reason.splits)
  moreover have "case cy_stopReason st of
       Some (Committed n p) \<Rightarrow> (\<exists>text cmds. ce_ParseResponse e text = Some cmds \<and> cmds \<noteq> [] \<and>
         commitPlan (ce_clock e) (lp_turnCounter l + 1) (Some cmds) (lp_dag l) = (n, lp_dag l'))
     | _ \<Rightarrow> lp_dag l' = lp_dag l"
    using out by (cases "cy_stopReason s") (auto simp: st l' split: stop_reason.splits)
  ultimately show ?thesis by (simp add: l' mp_def)
qed


text \<open>A model that asks a query first and then answers with one command.\<close>

definition ask_then_wait :: cycle_env where
  "ask_then_wait = \<lparr>ce_SendPrompt = \<lambda>pass _ _. Some (if pass = 1 then [1] else [2]),
     ce_ParseResponse = \<lambda>resp. Some (if resp = [2] then [spec_of ''wait''] else []),
     ce_ParseRequests = \<lambda>resp. if resp = [1] then 1 else 0, ce_Results = \<lambda>_. [3], ce_clock = \<lambda>_. 5\<rparr>"

definition idle_loop :: Loop where
  "idle_loop = \<lparr>lp_WaitOnEmptySnapshot = True, lp_MinDwarvesToStart = 1, lp_MaxPasses = 5, lp_turnCounter = 0, lp_dag = New\<rparr>"


section \<open>The loop over its life\<close>

text \<open>
  Turns, and between them whatever keeps the plan as the executor and the reconciler keep it. The counter of turns does
  not wrap.
\<close>

inductive loop_step :: "Loop \<Rightarrow> Loop \<Rightarrow> bool" where
  turn: "lp_turnCounter l + 1 \<noteq> 0 \<Longrightarrow> runCycle e dwarves msg l = (r, l') \<Longrightarrow> loop_step l l'"
| work: "keeps_plan (lp_dag l) d \<Longrightarrow> loop_step l (l\<lparr>lp_dag := d\<rparr>)"

text \<open>Every node was committed by a turn that has been.\<close>

definition loop_inv :: "Loop \<Rightarrow> bool" where
  "loop_inv l \<longleftrightarrow> dag_inv (lp_dag l) \<and>
     (\<forall>i\<in>dom (dg_nodes (lp_dag l)). \<exists>t idx. i = node_id t idx \<and> t \<le> lp_turnCounter l)"

lemma unat_next: "c + 1 \<noteq> 0 \<Longrightarrow> unat (c + 1) = Suc (unat c)" for c :: u64
  using unatSuc [of c] by (simp add: add.commute)

lemma loop_inv_fresh:
  assumes "loop_inv l" and "lp_turnCounter l + 1 \<noteq> 0"
  shows "turn_fresh (lp_turnCounter l + 1) (lp_dag l)"
proof (unfold turn_fresh_def, rule allI, rule ccontr)
  fix idx assume "dg_nodes (lp_dag l) (node_id (lp_turnCounter l + 1) idx) \<noteq> None"
  then have "node_id (lp_turnCounter l + 1) idx \<in> dom (dg_nodes (lp_dag l))" by blast
  then obtain t i where "node_id (lp_turnCounter l + 1) idx = node_id t i" "t \<le> lp_turnCounter l"
    using assms(1) unfolding loop_inv_def by blast
  then have "lp_turnCounter l + 1 \<le> lp_turnCounter l" by simp
  then show False using unat_next [OF assms(2)] by (simp add: word_le_nat_alt)
qed

lemma commitPlan_progress:
  assumes "dag_inv d" and "turn_fresh turn d" and "commitPlan clock turn (Some cmds) d = (n, d')"
  shows "progress d d'" and "dag_inv d'" and "dom (dg_nodes d') \<subseteq> dom (dg_nodes d) \<union> range (node_id turn)"
proof -
  note eff = commitPlan_effect [OF assms]
  have "(node_id turn \<circ> fst) ` set (filter live (enumerate 0 cmds)) \<subseteq> range (node_id turn)" by auto
  then have old: "dg_nodes d' j = dg_nodes d j" if "j \<notin> range (node_id turn)" for j using eff that by blast
  have "j \<notin> range (node_id turn)" if "dg_nodes d j = Some m" for j m using that assms(2) by (auto simp: turn_fresh_def)
  then show "progress d d'" using old by (fastforce simp: progress_def)
  show "dag_inv d'" using eff by blast
  show "dom (dg_nodes d') \<subseteq> dom (dg_nodes d) \<union> range (node_id turn)" using old by (force simp: dom_def)
qed

lemma runCycle_cases:
  assumes "runCycle e dwarves msg l = (r, l')"
  obtains (skipped) "l' = l"
  | (idle) "lp_turnCounter l' = lp_turnCounter l + 1" "lp_dag l' = lp_dag l"
  | (committed) cmds n where "lp_turnCounter l' = lp_turnCounter l + 1"
      "commitPlan (ce_clock e) (lp_turnCounter l + 1) (Some cmds) (lp_dag l) = (n, lp_dag l')"
proof (cases r)
  case None
  then show ?thesis using assms skipped by (auto simp: runCycle_def nextTurn_def Let_def split: if_splits)
next
  case (Some st)
  note once = turn_outcome [OF assms [unfolded Some]]
  show ?thesis
  proof (cases "\<exists>n p. cy_stopReason st = Some (Committed n p)")
    case True
    then show ?thesis using once committed by auto
  next
    case False
    then have "lp_dag l' = lp_dag l" using once by (auto split: option.splits stop_reason.splits)
    then show ?thesis using once idle by blast
  qed
qed

lemma loop_step_inv: "loop_step l l' \<Longrightarrow> loop_inv l \<Longrightarrow> loop_inv l' \<and> progress (lp_dag l) (lp_dag l')"
proof (induction rule: loop_step.induct)
  case (turn l e dwarves msg r l')
  have le: "t \<le> lp_turnCounter l + 1" if "t \<le> lp_turnCounter l" for t
    using that unat_next [OF turn(1)] by (simp add: word_le_nat_alt)
  from turn(2) show ?case
  proof (cases rule: runCycle_cases)
    case skipped
    then show ?thesis using turn(3) by (simp add: progress_refl)
  next
    case idle
    then show ?thesis using turn(3) le by (fastforce simp: loop_inv_def progress_refl)
  next
    case (committed cmds n)
    have inv: "dag_inv (lp_dag l)" using turn(3) by (simp add: loop_inv_def)
    note c = commitPlan_progress [OF inv loop_inv_fresh [OF turn(3,1)] committed(2)]
    have "\<exists>t idx. i = node_id t idx \<and> t \<le> lp_turnCounter l'" if "i \<in> dom (dg_nodes (lp_dag l'))" for i
    proof -
      have "i \<in> dom (dg_nodes (lp_dag l)) \<or> i \<in> range (node_id (lp_turnCounter l + 1))" using c(3) that by blast
      then show ?thesis
      proof
        assume "i \<in> dom (dg_nodes (lp_dag l))"
        then show ?thesis using turn(3) le unfolding loop_inv_def committed(1) by blast
      qed (auto simp: committed(1))
    qed
    then show ?thesis using c by (simp add: loop_inv_def)
  qed
next
  case (work l d)
  then show ?case by (auto simp: loop_inv_def keeps_plan_def)
qed

lemma loop_run_inv: "loop_step\<^sup>*\<^sup>* l l' \<Longrightarrow> loop_inv l \<Longrightarrow> loop_inv l' \<and> progress (lp_dag l) (lp_dag l')"
  by (induction rule: rtranclp_induct) (auto simp: progress_refl dest: loop_step_inv intro: progress_trans)

text \<open>
  C28: No turn ever overwrites a node: over any run of the loop, turns interleaved with the work of executor and
  reconciler, the plan stays well formed, and every node that was ever in it stays there under its id with its
  action and dependencies, its status only moving forward.
\<close>

theorem turns_keep_plan:
  assumes "lp_turnCounter l = 0" and "lp_dag l = New" and "loop_step\<^sup>*\<^sup>* l l'" and "loop_step\<^sup>*\<^sup>* l' l''"
  shows "dag_inv (lp_dag l'') \<and> progress (lp_dag l') (lp_dag l'')"
proof -
  have "loop_inv l" using assms(1,2) New_inv by (simp add: loop_inv_def New_def)
  then have "loop_inv l'" using loop_run_inv [OF assms(3)] by simp
  then show ?thesis using loop_run_inv [OF assms(4)] by (simp add: loop_inv_def)
qed

lemma turns_keep_plan_witness:
  "\<exists>l1 l2. loop_step idle_loop l1 \<and> loop_step l1 l2 \<and> lp_turnCounter l2 = 2 \<and> dag_inv (lp_dag l2) \<and>
     progress (lp_dag l1) (lp_dag l2)"
proof -
  obtain r1 l1 where run1: "runCycle ask_then_wait 7 [] idle_loop = (r1, l1)" by fastforce
  obtain r2 l2 where run2: "runCycle ask_then_wait 7 [] l1 = (r2, l2)" by fastforce
  have l0: "lp_WaitOnEmptySnapshot idle_loop" "lp_MinDwarvesToStart idle_loop = 1" "lp_turnCounter idle_loop = 0" "lp_dag idle_loop = New"
    by (simp_all add: idle_loop_def)
  have l1: "lp_MinDwarvesToStart l1 = 1" "lp_turnCounter l1 = 1"
    using run1 l0 by (auto simp: runCycle_def nextTurn_def Let_def)
  then have l2: "lp_turnCounter l2 = 2" using run2 by (auto simp: runCycle_def nextTurn_def Let_def)
  have s1: "loop_step idle_loop l1" by (rule loop_step.turn [OF _ run1]) (simp add: l0)
  have s2: "loop_step l1 l2" by (rule loop_step.turn [OF _ run2]) (simp add: l1)
  show ?thesis
    using turns_keep_plan [OF l0(3,4) r_into_rtranclp [of loop_step, OF s1] r_into_rtranclp [of loop_step, OF s2]] s1 s2 l2 by blast
qed

end
