(* ===== verification/Hazards.thy ===== *)
theory Hazards
  imports Modifications
begin

text \<open>
  The hazard overlays (\<open>internal/hazards\<close>): for each kind of hazard a sparse map of its tiles with a cached count
  (\<open>overlay.go\<close>), the tests of a tile (\<open>detectors.go\<close>), the positions of enemies and dwarves (\<open>entities.go\<close>) and the
  manager that keeps them in step with the game (\<open>manager.go\<close>). The package's \<open>Coordinate\<close>, \<open>Bounds\<close> and \<open>Region\<close>
  have the fields of those of \<open>internal/modifications\<close> and are modelled by the same records. The clock readings
  that handling one tile or entity takes are a function from their number.
\<close>

section \<open>One overlay\<close>

type_synonym clock = "nat \<Rightarrow> go_time"

record HazardInfo =
  hz_Severity :: u8
  hz_Flags :: u8
  hz_DetectedAt :: go_time

record HazardOverlay =
  ho_hazards :: "Coord \<rightharpoonup> HazardInfo"
  ho_hazardType :: string
  ho_totalCount :: u32
  ho_lastUpdate :: go_time
  ho_mapBounds :: MapBounds

definition NewHazardOverlay :: "go_time \<Rightarrow> string \<Rightarrow> MapBounds \<Rightarrow> HazardOverlay" where
  "NewHazardOverlay now hazardType bds = \<lparr>ho_hazards = Map.empty, ho_hazardType = hazardType, ho_totalCount = 0,
     ho_lastUpdate = now, ho_mapBounds = bds\<rparr>"

definition ContainsHazard :: "HazardOverlay \<Rightarrow> i16 \<Rightarrow> i16 \<Rightarrow> i16 \<Rightarrow> bool" where
  "ContainsHazard h x y z = (let coord = \<lparr>cd_X = x, cd_Y = y, cd_Z = z\<rparr> in
     case bounds_error (ho_mapBounds h) coord of
       Some a \<Rightarrow> False
     | None \<Rightarrow> ho_hazards h coord \<noteq> None)"

definition GetHazard :: "HazardOverlay \<Rightarrow> i16 \<Rightarrow> i16 \<Rightarrow> i16 \<Rightarrow> HazardInfo option" where
  "GetHazard h x y z = (let coord = \<lparr>cd_X = x, cd_Y = y, cd_Z = z\<rparr> in
     case bounds_error (ho_mapBounds h) coord of
       Some a \<Rightarrow> None
     | None \<Rightarrow> ho_hazards h coord)"

text \<open>The loop meets the keys of the map in the order \<open>ord\<close>.\<close>

definition GetInRegion :: "Coord list \<Rightarrow> ModRegion \<Rightarrow> Coord list" where
  "GetInRegion ord region = filter (in_region region) ord"

definition HazardCount :: "HazardOverlay \<Rightarrow> u32" where
  "HazardCount h = ho_totalCount h"

definition AddHazard :: "go_time \<Rightarrow> Coord \<Rightarrow> HazardInfo \<Rightarrow> HazardOverlay \<Rightarrow> axis + HazardOverlay" where
  "AddHazard now coord info h = (case bounds_error (ho_mapBounds h) coord of
       Some a \<Rightarrow> Inl a
     | None \<Rightarrow>
       let existed = (ho_hazards h coord \<noteq> None);
           h = h\<lparr>ho_hazards := (ho_hazards h)(coord \<mapsto> info)\<rparr>;
           h = (if \<not> existed then h\<lparr>ho_totalCount := ho_totalCount h + 1\<rparr> else h)
       in Inr (h\<lparr>ho_lastUpdate := now\<rparr>))"

definition RemoveHazard :: "go_time \<Rightarrow> Coord \<Rightarrow> HazardOverlay \<Rightarrow> axis + HazardOverlay" where
  "RemoveHazard now coord h = (case bounds_error (ho_mapBounds h) coord of
       Some a \<Rightarrow> Inl a
     | None \<Rightarrow>
       let h = (if ho_hazards h coord \<noteq> None
                then h\<lparr>ho_hazards := (ho_hazards h)(coord := None), ho_totalCount := ho_totalCount h - 1\<rparr>
                else h)
       in Inr (h\<lparr>ho_lastUpdate := now\<rparr>))"

definition ClearHazards :: "go_time \<Rightarrow> HazardOverlay \<Rightarrow> HazardOverlay" where
  "ClearHazards now h = h\<lparr>ho_hazards := Map.empty, ho_totalCount := 0, ho_lastUpdate := now\<rparr>"

text \<open>The manager ignores the errors of these two: an overlay that refuses stays as it is.\<close>

definition add_ignoring :: "go_time \<Rightarrow> Coord \<Rightarrow> HazardInfo \<Rightarrow> HazardOverlay \<Rightarrow> HazardOverlay" where
  "add_ignoring now coord info h = (case AddHazard now coord info h of Inl a \<Rightarrow> h | Inr h' \<Rightarrow> h')"

definition remove_ignoring :: "go_time \<Rightarrow> Coord \<Rightarrow> HazardOverlay \<Rightarrow> HazardOverlay" where
  "remove_ignoring now coord h = (case RemoveHazard now coord h of Inl a \<Rightarrow> h | Inr h' \<Rightarrow> h')"

section \<open>Detectors\<close>

definition IsAquifer :: "u16 \<Rightarrow> u8 \<Rightarrow> bool" where
  "IsAquifer tileType flags =
     (if flags AND 0x01 \<noteq> 0 then True
      else if tileType \<ge> 300 \<and> tileType < 500 then flags AND 0x01 \<noteq> 0
      else False)"

definition IsWater :: "u16 \<Rightarrow> bool \<times> u8 \<times> u8" where
  "IsWater tileType =
     (if tileType \<ge> 90 \<and> tileType < 120 then
        (if tileType \<ge> 90 \<and> tileType < 100 then (True, 3, 0)
         else if tileType \<ge> 100 \<and> tileType < 110 then (True, 7, 0)
         else if tileType \<ge> 110 \<and> tileType < 120 then (True, 5, 0x08 OR 0x01)
         else (True, 7, 0))
      else (False, 0, 0))"

definition IsLava :: "u16 \<Rightarrow> bool \<times> u8 \<times> u8" where
  "IsLava tileType =
     (if tileType \<ge> 120 \<and> tileType < 150 then
        (if tileType \<ge> 120 \<and> tileType < 130 then (True, 3, 0)
         else if tileType \<ge> 130 \<and> tileType < 140 then (True, 7, 0)
         else if tileType \<ge> 140 \<and> tileType < 150 then (True, 5, 0x08 OR 0x01)
         else (True, 7, 0))
      else (False, 0, 0))"

definition IsCavern :: "u16 \<Rightarrow> bool" where
  "IsCavern tileType =
     (if tileType \<ge> 50 \<and> tileType < 90 then True
      else if tileType \<ge> 1 \<and> tileType < 50 then True
      else False)"

definition in_cavern_layer :: "TileState \<Rightarrow> bool" where
  "in_cavern_layer tile \<longleftrightarrow> \<not> slt (ts_Z tile) 10 \<and> slt (ts_Z tile) 90 \<and> IsCavern (ts_TileType tile)"

section \<open>Entities\<close>

record EntityHazardInfo =
  eh_HazardInfo :: HazardInfo
  eh_EntityID :: u32
  eh_RaceID :: u16

text \<open>\<open>EnemyOverlay\<close> and \<open>DwarfOverlay\<close> have the same fields.\<close>

record EntityOverlay =
  eo_HazardOverlay :: HazardOverlay
  eo_entityData :: "Coord \<rightharpoonup> EntityHazardInfo"

definition NewEnemyOverlay :: "go_time \<Rightarrow> MapBounds \<Rightarrow> EntityOverlay" where
  "NewEnemyOverlay now bds = \<lparr>eo_HazardOverlay = NewHazardOverlay now ''enemies'' bds, eo_entityData = Map.empty\<rparr>"

definition NewDwarfOverlay :: "go_time \<Rightarrow> MapBounds \<Rightarrow> EntityOverlay" where
  "NewDwarfOverlay now bds = \<lparr>eo_HazardOverlay = NewHazardOverlay now ''dwarves'' bds, eo_entityData = Map.empty\<rparr>"

definition calculateThreatLevel :: "u16 \<Rightarrow> u8" where
  "calculateThreatLevel raceID = 255"

definition entity_coord :: "EntityInfo \<Rightarrow> Coord" where
  "entity_coord entity = \<lparr>cd_X = ei_X entity, cd_Y = ei_Y entity, cd_Z = ei_Z entity\<rparr>"

definition AddEnemy :: "go_time \<Rightarrow> EntityInfo \<Rightarrow> EntityOverlay \<Rightarrow> axis + EntityOverlay" where
  "AddEnemy now entity e =
     (let coord = entity_coord entity;
          info = \<lparr>hz_Severity = calculateThreatLevel (ei_Subtype entity), hz_Flags = 0,
                  hz_DetectedAt = ho_lastUpdate (eo_HazardOverlay e)\<rparr>
      in case AddHazard now coord info (eo_HazardOverlay e) of
           Inl err \<Rightarrow> Inl err
         | Inr h \<Rightarrow> Inr (e\<lparr>eo_HazardOverlay := h, eo_entityData := (eo_entityData e)(coord \<mapsto>
             \<lparr>eh_HazardInfo = info, eh_EntityID = ei_ID entity, eh_RaceID = ei_Subtype entity\<rparr>)\<rparr>))"

definition AddDwarf :: "go_time \<Rightarrow> EntityInfo \<Rightarrow> EntityOverlay \<Rightarrow> axis + EntityOverlay" where
  "AddDwarf now entity d =
     (let coord = entity_coord entity;
          info = \<lparr>hz_Severity = 1, hz_Flags = 0, hz_DetectedAt = ho_lastUpdate (eo_HazardOverlay d)\<rparr>
      in case AddHazard now coord info (eo_HazardOverlay d) of
           Inl err \<Rightarrow> Inl err
         | Inr h \<Rightarrow> Inr (d\<lparr>eo_HazardOverlay := h, eo_entityData := (eo_entityData d)(coord \<mapsto>
             \<lparr>eh_HazardInfo = info, eh_EntityID = ei_ID entity, eh_RaceID = ei_Subtype entity\<rparr>)\<rparr>))"

text \<open>\<open>RemoveEntity\<close> forgets the entity's data even where the overlay refuses the coordinate.\<close>

definition RemoveEntity :: "go_time \<Rightarrow> Coord \<Rightarrow> EntityOverlay \<Rightarrow> axis option \<times> EntityOverlay" where
  "RemoveEntity now coord e =
     (let e = e\<lparr>eo_entityData := (eo_entityData e)(coord := None)\<rparr>
      in case RemoveHazard now coord (eo_HazardOverlay e) of
           Inl err \<Rightarrow> (Some err, e)
         | Inr h \<Rightarrow> (None, e\<lparr>eo_HazardOverlay := h\<rparr>))"

definition ClearEntities :: "go_time \<Rightarrow> EntityOverlay \<Rightarrow> EntityOverlay" where
  "ClearEntities now e = e\<lparr>eo_entityData := Map.empty, eo_HazardOverlay := ClearHazards now (eo_HazardOverlay e)\<rparr>"

section \<open>The manager\<close>

record HazardManager =
  hm_aquifer :: HazardOverlay
  hm_water :: HazardOverlay
  hm_lava :: HazardOverlay
  hm_caverns :: HazardOverlay
  hm_enemies :: EntityOverlay
  hm_dwarves :: EntityOverlay
  hm_mapBounds :: MapBounds

definition NewHazardManager :: "clock \<Rightarrow> u16 \<Rightarrow> u16 \<Rightarrow> u16 \<Rightarrow> HazardManager" where
  "NewHazardManager now width height depth =
     (let bds = \<lparr>mb_Width = width, mb_Height = height, mb_Depth = depth\<rparr>
      in \<lparr>hm_aquifer = NewHazardOverlay (now 0) ''aquifer'' bds, hm_water = NewHazardOverlay (now 1) ''water'' bds,
          hm_lava = NewHazardOverlay (now 2) ''lava'' bds, hm_caverns = NewHazardOverlay (now 3) ''caverns'' bds,
          hm_enemies = NewEnemyOverlay (now 4) bds, hm_dwarves = NewDwarfOverlay (now 5) bds,
          hm_mapBounds = bds\<rparr>)"

text \<open>\<open>BuildFromTiles\<close>: the four tests of one tile, each on its overlay.\<close>

definition build_aquifer :: "clock \<Rightarrow> TileState \<Rightarrow> HazardOverlay \<Rightarrow> HazardOverlay" where
  "build_aquifer now tile h =
     (if IsAquifer (ts_TileType tile) (ts_Flags tile)
      then add_ignoring (now 1) (tile_coord tile) \<lparr>hz_Severity = 255, hz_Flags = ts_Flags tile, hz_DetectedAt = now 0\<rparr> h
      else h)"

definition build_water :: "clock \<Rightarrow> TileState \<Rightarrow> HazardOverlay \<Rightarrow> HazardOverlay" where
  "build_water now tile h = (case IsWater (ts_TileType tile) of (isWater, depth, flowFlags) \<Rightarrow>
     if isWater
     then add_ignoring (now 3) (tile_coord tile) \<lparr>hz_Severity = depth, hz_Flags = flowFlags, hz_DetectedAt = now 2\<rparr> h
     else h)"

definition build_lava :: "clock \<Rightarrow> TileState \<Rightarrow> HazardOverlay \<Rightarrow> HazardOverlay" where
  "build_lava now tile h = (case IsLava (ts_TileType tile) of (isLava, depth, flowFlags) \<Rightarrow>
     if isLava
     then add_ignoring (now 5) (tile_coord tile) \<lparr>hz_Severity = depth, hz_Flags = flowFlags, hz_DetectedAt = now 4\<rparr> h
     else h)"

definition build_caverns :: "clock \<Rightarrow> TileState \<Rightarrow> HazardOverlay \<Rightarrow> HazardOverlay" where
  "build_caverns now tile h =
     (if in_cavern_layer tile
      then add_ignoring (now 7) (tile_coord tile) \<lparr>hz_Severity = 1, hz_Flags = 0, hz_DetectedAt = now 6\<rparr> h
      else h)"

definition detect_hazards :: "clock \<times> TileState \<Rightarrow> HazardManager \<Rightarrow> HazardManager" where
  "detect_hazards = (\<lambda>(now, tile) m.
     let m = m\<lparr>hm_aquifer := build_aquifer now tile (hm_aquifer m)\<rparr>;
         m = m\<lparr>hm_water := build_water now tile (hm_water m)\<rparr>;
         m = m\<lparr>hm_lava := build_lava now tile (hm_lava m)\<rparr>;
         m = m\<lparr>hm_caverns := build_caverns now tile (hm_caverns m)\<rparr>
     in m)"

definition BuildHazards :: "clock \<Rightarrow> (clock \<times> TileState) list \<Rightarrow> HazardManager \<Rightarrow> HazardManager" where
  "BuildHazards now tiles m =
     fold detect_hazards tiles
       (m\<lparr>hm_aquifer := ClearHazards (now 0) (hm_aquifer m), hm_water := ClearHazards (now 1) (hm_water m),
          hm_lava := ClearHazards (now 2) (hm_lava m), hm_caverns := ClearHazards (now 3) (hm_caverns m)\<rparr>)"

text \<open>\<open>UpdateFromTiles\<close>: aquifers and caverns are added and removed, liquids are also refreshed.\<close>

definition update_aquifer :: "clock \<Rightarrow> TileState \<Rightarrow> HazardOverlay \<Rightarrow> HazardOverlay" where
  "update_aquifer now tile h =
     (let isAquifer = IsAquifer (ts_TileType tile) (ts_Flags tile);
          wasAquifer = ContainsHazard h (ts_X tile) (ts_Y tile) (ts_Z tile)
      in if isAquifer \<and> \<not> wasAquifer
         then add_ignoring (now 1) (tile_coord tile) \<lparr>hz_Severity = 255, hz_Flags = ts_Flags tile, hz_DetectedAt = now 0\<rparr> h
         else if \<not> isAquifer \<and> wasAquifer then remove_ignoring (now 0) (tile_coord tile) h
         else h)"

definition update_water :: "clock \<Rightarrow> TileState \<Rightarrow> HazardOverlay \<Rightarrow> HazardOverlay" where
  "update_water now tile h = (case IsWater (ts_TileType tile) of (isWater, depth, flowFlags) \<Rightarrow>
     let wasWater = ContainsHazard h (ts_X tile) (ts_Y tile) (ts_Z tile)
     in if isWater \<and> \<not> wasWater
        then add_ignoring (now 3) (tile_coord tile) \<lparr>hz_Severity = depth, hz_Flags = flowFlags, hz_DetectedAt = now 2\<rparr> h
        else if isWater \<and> wasWater
        then add_ignoring (now 3) (tile_coord tile) \<lparr>hz_Severity = depth, hz_Flags = flowFlags, hz_DetectedAt = now 2\<rparr> h
        else if \<not> isWater \<and> wasWater then remove_ignoring (now 2) (tile_coord tile) h
        else h)"

definition update_lava :: "clock \<Rightarrow> TileState \<Rightarrow> HazardOverlay \<Rightarrow> HazardOverlay" where
  "update_lava now tile h = (case IsLava (ts_TileType tile) of (isLava, lavaDepth, lavaFlowFlags) \<Rightarrow>
     let wasLava = ContainsHazard h (ts_X tile) (ts_Y tile) (ts_Z tile)
     in if isLava \<and> \<not> wasLava
        then add_ignoring (now 5) (tile_coord tile) \<lparr>hz_Severity = lavaDepth, hz_Flags = lavaFlowFlags, hz_DetectedAt = now 4\<rparr> h
        else if isLava \<and> wasLava
        then add_ignoring (now 5) (tile_coord tile) \<lparr>hz_Severity = lavaDepth, hz_Flags = lavaFlowFlags, hz_DetectedAt = now 4\<rparr> h
        else if \<not> isLava \<and> wasLava then remove_ignoring (now 4) (tile_coord tile) h
        else h)"

definition update_caverns :: "clock \<Rightarrow> TileState \<Rightarrow> HazardOverlay \<Rightarrow> HazardOverlay" where
  "update_caverns now tile h =
     (let isCavern = in_cavern_layer tile;
          wasCavern = ContainsHazard h (ts_X tile) (ts_Y tile) (ts_Z tile)
      in if isCavern \<and> \<not> wasCavern
         then add_ignoring (now 7) (tile_coord tile) \<lparr>hz_Severity = 1, hz_Flags = 0, hz_DetectedAt = now 6\<rparr> h
         else if \<not> isCavern \<and> wasCavern then remove_ignoring (now 6) (tile_coord tile) h
         else h)"

definition refresh_hazards :: "clock \<times> TileState \<Rightarrow> HazardManager \<Rightarrow> HazardManager" where
  "refresh_hazards = (\<lambda>(now, tile) m.
     let m = m\<lparr>hm_aquifer := update_aquifer now tile (hm_aquifer m)\<rparr>;
         m = m\<lparr>hm_water := update_water now tile (hm_water m)\<rparr>;
         m = m\<lparr>hm_lava := update_lava now tile (hm_lava m)\<rparr>;
         m = m\<lparr>hm_caverns := update_caverns now tile (hm_caverns m)\<rparr>
     in m)"

definition UpdateFromTiles :: "(clock \<times> TileState) list \<Rightarrow> HazardManager \<Rightarrow> HazardManager" where
  "UpdateFromTiles tiles m = fold refresh_hazards tiles m"

definition EntityTypeDwarf :: u8 where "EntityTypeDwarf = 0x01"
definition EntityTypeEnemy :: u8 where "EntityTypeEnemy = 0x02"

definition build_entity :: "go_time \<times> EntityInfo \<Rightarrow> HazardManager \<Rightarrow> HazardManager" where
  "build_entity = (\<lambda>(now, entity) m.
     if ei_Type entity = EntityTypeDwarf then
       (case AddDwarf now entity (hm_dwarves m) of Inl err \<Rightarrow> m | Inr d \<Rightarrow> m\<lparr>hm_dwarves := d\<rparr>)
     else if ei_Type entity = EntityTypeEnemy then
       (case AddEnemy now entity (hm_enemies m) of Inl err \<Rightarrow> m | Inr e \<Rightarrow> m\<lparr>hm_enemies := e\<rparr>)
     else m)"

definition BuildFromEntities :: "clock \<Rightarrow> (go_time \<times> EntityInfo) list \<Rightarrow> HazardManager \<Rightarrow> HazardManager" where
  "BuildFromEntities now entities m =
     fold build_entity entities
       (m\<lparr>hm_enemies := ClearEntities (now 0) (hm_enemies m), hm_dwarves := ClearEntities (now 1) (hm_dwarves m)\<rparr>)"

definition GetOverlay :: "string \<Rightarrow> HazardManager \<Rightarrow> HazardOverlay option" where
  "GetOverlay hazardType m =
     (if hazardType = ''aquifer'' then Some (hm_aquifer m)
      else if hazardType = ''water'' then Some (hm_water m)
      else if hazardType = ''lava'' then Some (hm_lava m)
      else if hazardType = ''caverns'' then Some (hm_caverns m)
      else if hazardType = ''enemies'' then Some (eo_HazardOverlay (hm_enemies m))
      else if hazardType = ''dwarves'' then Some (eo_HazardOverlay (hm_dwarves m))
      else None)"

definition GetAllCounts :: "HazardManager \<Rightarrow> (string \<times> u32) list" where
  "GetAllCounts m =
     [(''aquifer'', HazardCount (hm_aquifer m)), (''water'', HazardCount (hm_water m)),
      (''lava'', HazardCount (hm_lava m)), (''caverns'', HazardCount (hm_caverns m)),
      (''enemies'', HazardCount (eo_HazardOverlay (hm_enemies m))),
      (''dwarves'', HazardCount (eo_HazardOverlay (hm_dwarves m)))]"

text \<open>The sum is taken in \<open>uint32\<close> and only then widened.\<close>

definition HazardMemoryUsage :: "HazardManager \<Rightarrow> u64" where
  "HazardMemoryUsage m =
     (let totalHazards = HazardCount (hm_aquifer m) + HazardCount (hm_water m) + HazardCount (hm_lava m) +
            HazardCount (hm_caverns m) + HazardCount (eo_HazardOverlay (hm_enemies m)) +
            HazardCount (eo_HazardOverlay (hm_dwarves m))
      in ucast totalHazards * 32)"

section \<open>What an overlay keeps\<close>

text \<open>The count is the number of hazards, modulo its width, and every hazard lies on the map.\<close>

definition hazard_inv :: "HazardOverlay \<Rightarrow> bool" where
  "hazard_inv h \<longleftrightarrow> ho_totalCount h = of_nat (card (dom (ho_hazards h))) \<and>
     (\<forall>c\<in>dom (ho_hazards h). bounds_error (ho_mapBounds h) c = None)"

abbreviation on_map :: "MapBounds \<Rightarrow> Coord \<Rightarrow> bool" where
  "on_map b c \<equiv> bounds_error b c = None"

definition severity_at :: "HazardOverlay \<Rightarrow> Coord \<Rightarrow> u8 option" where
  "severity_at h c = map_option hz_Severity (ho_hazards h c)"

lemma hazard_inv_New: "hazard_inv (NewHazardOverlay now k b)"
  by (simp add: hazard_inv_def NewHazardOverlay_def)

lemma hazard_inv_Clear: "hazard_inv (ClearHazards now h)"
  by (simp add: hazard_inv_def ClearHazards_def)

lemma Clear_fields [simp]:
  "ho_hazards (ClearHazards now h) = Map.empty" "ho_mapBounds (ClearHazards now h) = ho_mapBounds h"
  by (simp_all add: ClearHazards_def)

lemma off_map: "hazard_inv h \<Longrightarrow> \<not> on_map (ho_mapBounds h) c \<Longrightarrow> ho_hazards h c = None"
  by (auto simp: hazard_inv_def dom_def)

lemma AddHazard_cases:
  obtains (rejected) a where "AddHazard now c info h = Inl a" and "bounds_error (ho_mapBounds h) c = Some a"
  | (added) h' where "AddHazard now c info h = Inr h'" and "on_map (ho_mapBounds h) c"
    and "ho_hazards h' = (ho_hazards h)(c \<mapsto> info)" and "ho_mapBounds h' = ho_mapBounds h"
    and "ho_totalCount h' = (if c \<in> dom (ho_hazards h) then ho_totalCount h else ho_totalCount h + 1)"
proof (cases "bounds_error (ho_mapBounds h) c")
  case None
  then show ?thesis
    by (cases "ho_hazards h c") (auto intro!: added simp: AddHazard_def Let_def)
qed (rule rejected, simp_all add: AddHazard_def)

lemma RemoveHazard_cases:
  obtains (rejected) a where "RemoveHazard now c h = Inl a" and "bounds_error (ho_mapBounds h) c = Some a"
  | (removed) h' where "RemoveHazard now c h = Inr h'" and "on_map (ho_mapBounds h) c"
    and "ho_hazards h' = (ho_hazards h)(c := None)" and "ho_mapBounds h' = ho_mapBounds h"
    and "ho_totalCount h' = (if c \<in> dom (ho_hazards h) then ho_totalCount h - 1 else ho_totalCount h)"
proof (cases "bounds_error (ho_mapBounds h) c")
  case None
  then show ?thesis
    by (cases "ho_hazards h c") (auto intro!: removed simp: RemoveHazard_def Let_def fun_upd_idem)
qed (rule rejected, simp_all add: RemoveHazard_def)

lemma AddHazard_inv:
  assumes "hazard_inv h" and "AddHazard now c info h = Inr h'"
  shows "hazard_inv h'"
proof (cases rule: AddHazard_cases [of now c info h])
  case (added h1)
  have h1: "h1 = h'" using added(1) assms(2) by simp
  have "card (dom (ho_hazards h')) =
      (if c \<in> dom (ho_hazards h) then card (dom (ho_hazards h)) else Suc (card (dom (ho_hazards h))))"
    unfolding added(3) [unfolded h1] by (simp add: insert_absorb)
  then show ?thesis
    using assms(1) added [unfolded h1] by (auto simp: hazard_inv_def split: if_splits)
qed (use assms(2) in simp)

lemma RemoveHazard_inv:
  assumes "hazard_inv h" and "RemoveHazard now c h = Inr h'"
  shows "hazard_inv h'"
proof (cases rule: RemoveHazard_cases [of now c h])
  case (removed h1)
  have h1: "h1 = h'" using removed(1) assms(2) by simp
  have count: "of_nat (card (dom (ho_hazards h) - {c})) = (of_nat (card (dom (ho_hazards h))) :: u32) - (if c \<in> dom (ho_hazards h) then 1 else 0)"
  proof (cases "c \<in> dom (ho_hazards h)")
    case True
    then have "card (dom (ho_hazards h)) = Suc (card (dom (ho_hazards h) - {c}))"
      by (rule card.remove [OF finite_mods])
    with True show ?thesis by simp
  qed simp
  have "ho_totalCount h' = of_nat (card (dom (ho_hazards h')))"
    using assms(1) removed(5) [unfolded h1] by (auto simp: removed(3) [unfolded h1] count hazard_inv_def)
  then show ?thesis
    using assms(1) removed(3,4) [unfolded h1] by (auto simp: hazard_inv_def)
qed (use assms(2) in simp)

lemma add_ignoring_keeps:
  "ho_mapBounds (add_ignoring now c info h) = ho_mapBounds h"
  "hazard_inv h \<Longrightarrow> hazard_inv (add_ignoring now c info h)"
  "severity_at (add_ignoring now c info h) =
     (if on_map (ho_mapBounds h) c then (severity_at h)(c \<mapsto> hz_Severity info) else severity_at h)"
proof -
  note step = AddHazard_cases [of now c info h]
  show "ho_mapBounds (add_ignoring now c info h) = ho_mapBounds h"
    by (cases rule: step) (simp_all add: add_ignoring_def)
  show "hazard_inv (add_ignoring now c info h)" if "hazard_inv h"
    by (cases rule: step) (use that AddHazard_inv in \<open>auto simp: add_ignoring_def\<close>)
  show "severity_at (add_ignoring now c info h) =
      (if on_map (ho_mapBounds h) c then (severity_at h)(c \<mapsto> hz_Severity info) else severity_at h)"
    by (cases rule: step) (auto simp: add_ignoring_def severity_at_def fun_eq_iff)
qed

lemma remove_ignoring_keeps:
  "ho_mapBounds (remove_ignoring now c h) = ho_mapBounds h"
  "hazard_inv h \<Longrightarrow> hazard_inv (remove_ignoring now c h)"
  "severity_at (remove_ignoring now c h) =
     (if on_map (ho_mapBounds h) c then (severity_at h)(c := None) else severity_at h)"
proof -
  note step = RemoveHazard_cases [of now c h]
  show "ho_mapBounds (remove_ignoring now c h) = ho_mapBounds h"
    by (cases rule: step) (simp_all add: remove_ignoring_def)
  show "hazard_inv (remove_ignoring now c h)" if "hazard_inv h"
    by (cases rule: step) (use that RemoveHazard_inv in \<open>auto simp: remove_ignoring_def\<close>)
  show "severity_at (remove_ignoring now c h) =
      (if on_map (ho_mapBounds h) c then (severity_at h)(c := None) else severity_at h)"
    by (cases rule: step) (auto simp: remove_ignoring_def severity_at_def fun_eq_iff)
qed

lemma ContainsHazard_severity:
  "ContainsHazard h (ts_X t) (ts_Y t) (ts_Z t) \<longleftrightarrow>
     on_map (ho_mapBounds h) (tile_coord t) \<and> severity_at h (tile_coord t) \<noteq> None"
  by (auto simp: ContainsHazard_def severity_at_def tile_coord_def Let_def split: option.splits)

lemma severity_off_map: "hazard_inv h \<Longrightarrow> \<not> on_map (ho_mapBounds h) c \<Longrightarrow> severity_at h c = None"
  by (simp add: severity_at_def off_map)

lemma ContainsHazard_GetHazard: "ContainsHazard h x y z \<longleftrightarrow> GetHazard h x y z \<noteq> None"
  by (simp add: ContainsHazard_def GetHazard_def Let_def split: option.splits)

section \<open>Overlays that follow the tiles\<close>

text \<open>The reference: the last of the observed tiles at a coordinate.\<close>

definition last_at :: "TileState list \<Rightarrow> Coord \<Rightarrow> TileState option" where
  "last_at ts c = map_of (rev (map (\<lambda>t. (tile_coord t, t)) ts)) c"

lemma last_at_Nil [simp]: "last_at [] c = None"
  by (simp add: last_at_def)

lemma last_at_Cons:
  "last_at (t # ts) c = (case last_at ts c of Some u \<Rightarrow> Some u | None \<Rightarrow> if tile_coord t = c then Some t else None)"
  by (auto simp: last_at_def map_add_def split: option.splits)

lemma last_at_append:
  "last_at (ts @ us) c = (case last_at us c of Some u \<Rightarrow> Some u | None \<Rightarrow> last_at ts c)"
  by (induction ts) (auto simp: last_at_Cons split: option.splits)

lemma last_at_coord: "last_at ts c = Some t \<Longrightarrow> tile_coord t = c \<and> t \<in> set ts"
  by (induction ts) (auto simp: last_at_Cons split: option.splits if_splits)

text \<open>An overlay in step with the tiles \<open>ts\<close> observed so far on a map of the given bounds.\<close>

definition in_step :: "MapBounds \<Rightarrow> TileState list \<Rightarrow> (TileState \<Rightarrow> u8 option) \<Rightarrow> HazardOverlay \<Rightarrow> bool" where
  "in_step b ts sev h \<longleftrightarrow> ho_mapBounds h = b \<and>
     (\<forall>c. severity_at h c = (if on_map b c then Option.bind (last_at ts c) sev else None))"

text \<open>
  Two contracts of a step that handles one tile for one overlay, where \<open>sev\<close> is the severity the tile is worth and
  \<open>ok\<close> what the overlay keeps. A
  scan handles tiles of a cleared overlay, each coordinate once; a tracker handles any tile at any time.
\<close>

locale hazard_scan =
  fixes ok :: "HazardOverlay \<Rightarrow> bool" and sev :: "TileState \<Rightarrow> u8 option"
    and handle :: "clock \<Rightarrow> TileState \<Rightarrow> HazardOverlay \<Rightarrow> HazardOverlay"
  assumes handle_bounds: "ho_mapBounds (handle k t h) = ho_mapBounds h"
    and handle_inv: "ok h \<Longrightarrow> ok (handle k t h)"
    and handle_fresh: "ok h \<Longrightarrow> severity_at h (tile_coord t) = None \<Longrightarrow>
      severity_at (handle k t h) = (severity_at h)(tile_coord t := if on_map (ho_mapBounds h) (tile_coord t) then sev t else None)"
begin

definition run :: "(clock \<times> TileState) list \<Rightarrow> HazardOverlay \<Rightarrow> HazardOverlay" where
  "run kts = fold (\<lambda>(k, t). handle k t) kts"

lemma run_simps [simp]: "run [] h = h" "run (kt # kts) h = run kts (handle (fst kt) (snd kt) h)"
  by (simp_all add: run_def case_prod_beta)

lemma run_bounds: "ho_mapBounds (run kts h) = ho_mapBounds h"
  by (induction kts arbitrary: h) (simp_all add: handle_bounds)

lemma run_inv: "ok h \<Longrightarrow> ok (run kts h)"
  by (induction kts arbitrary: h) (simp_all add: handle_inv)

lemma run_fresh:
  assumes "ok h" and "distinct (map (tile_coord \<circ> snd) kts)"
    and "\<forall>t\<in>snd ` set kts. severity_at h (tile_coord t) = None"
  shows "severity_at (run kts h) c = (case last_at (map snd kts) c of
      None \<Rightarrow> severity_at h c
    | Some t \<Rightarrow> if on_map (ho_mapBounds h) c then sev t else None)"
  using assms
proof (induction kts arbitrary: h)
  case (Cons kt kts)
  let ?h = "handle (fst kt) (snd kt) h" and ?c = "tile_coord (snd kt)"
  have step: "severity_at ?h = (severity_at h)(?c := if on_map (ho_mapBounds h) ?c then sev (snd kt) else None)"
    using handle_fresh Cons.prems by simp
  have "\<forall>t\<in>snd ` set kts. severity_at ?h (tile_coord t) = None"
    using Cons.prems by (auto simp: step image_iff)
  then have IH: "severity_at (run kts ?h) c = (case last_at (map snd kts) c of
      None \<Rightarrow> severity_at ?h c | Some t \<Rightarrow> if on_map (ho_mapBounds h) c then sev t else None)"
    using Cons.IH [of ?h] Cons.prems handle_inv [of h "fst kt" "snd kt"] handle_bounds [of "fst kt" "snd kt" h]
    by (simp split: option.splits)
  then show ?case by (auto simp: last_at_Cons step split: option.splits)
qed simp

lemma run_in_step:
  assumes "ok h" and "ho_hazards h = Map.empty" and "distinct (map (tile_coord \<circ> snd) kts)"
  shows "in_step (ho_mapBounds h) (map snd kts) sev (run kts h)"
  using run_fresh [OF assms(1,3)] assms(2) by (auto simp: in_step_def run_bounds severity_at_def split: option.splits)

end

locale hazard_tracker =
  fixes ok :: "HazardOverlay \<Rightarrow> bool" and sev :: "TileState \<Rightarrow> u8 option"
    and handle :: "clock \<Rightarrow> TileState \<Rightarrow> HazardOverlay \<Rightarrow> HazardOverlay"
  assumes track_bounds: "ho_mapBounds (handle k t h) = ho_mapBounds h"
    and track_inv: "ok h \<Longrightarrow> ok (handle k t h)"
    and track_sev: "ok h \<Longrightarrow>
      severity_at (handle k t h) = (severity_at h)(tile_coord t := if on_map (ho_mapBounds h) (tile_coord t) then sev t else None)"

sublocale hazard_tracker \<subseteq> hazard_scan ok sev handle
  by unfold_locales (simp_all add: track_bounds track_inv track_sev)

context hazard_tracker
begin

lemma run_sev:
  assumes "ok h"
  shows "severity_at (run kts h) c = (case last_at (map snd kts) c of
      None \<Rightarrow> severity_at h c
    | Some t \<Rightarrow> if on_map (ho_mapBounds h) c then sev t else None)"
  using assms
  by (induction kts arbitrary: h) (auto simp: last_at_Cons track_bounds track_inv track_sev split: option.splits)

lemma run_stays_in_step:
  assumes "ok h" and "in_step b ts sev h"
  shows "in_step b (ts @ map snd kts) sev (run kts h)"
  using run_sev [OF assms(1)] assms(2) by (auto simp: in_step_def run_bounds last_at_append split: option.splits)

end

definition aquifer_sev :: "TileState \<Rightarrow> u8 option" where
  "aquifer_sev t = (if IsAquifer (ts_TileType t) (ts_Flags t) then Some 255 else None)"

definition water_sev :: "TileState \<Rightarrow> u8 option" where
  "water_sev t = (case IsWater (ts_TileType t) of (isWater, depth, flowFlags) \<Rightarrow> if isWater then Some depth else None)"

definition lava_sev :: "TileState \<Rightarrow> u8 option" where
  "lava_sev t = (case IsLava (ts_TileType t) of (isLava, depth, flowFlags) \<Rightarrow> if isLava then Some depth else None)"

definition cavern_sev :: "TileState \<Rightarrow> u8 option" where
  "cavern_sev t = (if in_cavern_layer t then Some 1 else None)"

definition all_severity :: "u8 \<Rightarrow> HazardOverlay \<Rightarrow> bool" where
  "all_severity s h \<longleftrightarrow> hazard_inv h \<and> (\<forall>c. severity_at h c \<in> {None, Some s})"

lemma all_severity_keeps:
  "all_severity s h \<Longrightarrow> hz_Severity info = s \<Longrightarrow> all_severity s (add_ignoring now c info h)"
  "all_severity s h \<Longrightarrow> all_severity s (remove_ignoring now c h)"
  by (simp_all add: all_severity_def add_ignoring_keeps remove_ignoring_keeps)

lemma all_severity_Clear: "all_severity s (ClearHazards now h)"
  by (simp add: all_severity_def hazard_inv_Clear severity_at_def)

lemma all_severity_inv: "all_severity s h \<Longrightarrow> hazard_inv h"
  by (simp add: all_severity_def)

lemma all_severity_at: "all_severity s h \<Longrightarrow> severity_at h c \<noteq> None \<Longrightarrow> severity_at h c = Some s"
  unfolding all_severity_def by (metis insertE singletonD)

lemma severity_unchanged:
  "hazard_inv h \<Longrightarrow> \<not> (on_map (ho_mapBounds h) c \<and> severity_at h c \<noteq> None) \<Longrightarrow> (severity_at h)(c := None) = severity_at h"
  by (auto simp: severity_off_map)

lemmas overlay_keeps = add_ignoring_keeps remove_ignoring_keeps all_severity_keeps

interpretation built_aquifer: hazard_scan "all_severity 255" aquifer_sev build_aquifer
  by unfold_locales (auto simp: build_aquifer_def aquifer_sev_def overlay_keeps)

interpretation built_water: hazard_scan hazard_inv water_sev build_water
  by unfold_locales (auto simp: build_water_def water_sev_def overlay_keeps split: prod.splits)

interpretation built_lava: hazard_scan hazard_inv lava_sev build_lava
  by unfold_locales (auto simp: build_lava_def lava_sev_def overlay_keeps split: prod.splits)

interpretation built_caverns: hazard_scan "all_severity 1" cavern_sev build_caverns
  by unfold_locales (auto simp: build_caverns_def cavern_sev_def overlay_keeps)

lemmas tracking = Let_def overlay_keeps ContainsHazard_severity severity_unchanged severity_off_map

interpretation tracked_aquifer: hazard_tracker "all_severity 255" aquifer_sev update_aquifer
proof unfold_locales
  fix k t and h :: HazardOverlay
  show "severity_at (update_aquifer k t h) = (severity_at h)(tile_coord t :=
      if on_map (ho_mapBounds h) (tile_coord t) then aquifer_sev t else None)" if ok: "all_severity 255 h"
    using all_severity_inv [OF ok] all_severity_at [OF ok, of "tile_coord t"]
    by (auto simp: update_aquifer_def aquifer_sev_def tracking fun_upd_idem)
qed (auto simp: update_aquifer_def tracking)

interpretation tracked_water: hazard_tracker hazard_inv water_sev update_water
  by unfold_locales (auto simp: update_water_def water_sev_def tracking fun_upd_idem split: prod.splits)

interpretation tracked_lava: hazard_tracker hazard_inv lava_sev update_lava
  by unfold_locales (auto simp: update_lava_def lava_sev_def tracking fun_upd_idem split: prod.splits)

interpretation tracked_caverns: hazard_tracker "all_severity 1" cavern_sev update_caverns
proof unfold_locales
  fix k t and h :: HazardOverlay
  show "severity_at (update_caverns k t h) = (severity_at h)(tile_coord t :=
      if on_map (ho_mapBounds h) (tile_coord t) then cavern_sev t else None)" if ok: "all_severity 1 h"
    using all_severity_inv [OF ok] all_severity_at [OF ok, of "tile_coord t"]
    by (auto simp: update_caverns_def cavern_sev_def tracking fun_upd_idem)
qed (auto simp: update_caverns_def tracking)

section \<open>The manager follows the tiles\<close>

lemma build_overlays:
  "hm_aquifer (fold detect_hazards kts m) = built_aquifer.run kts (hm_aquifer m)"
  "hm_water (fold detect_hazards kts m) = built_water.run kts (hm_water m)"
  "hm_lava (fold detect_hazards kts m) = built_lava.run kts (hm_lava m)"
  "hm_caverns (fold detect_hazards kts m) = built_caverns.run kts (hm_caverns m)"
  by (induction kts arbitrary: m; simp add: detect_hazards_def case_prod_beta Let_def)+

lemma update_overlays:
  "hm_aquifer (UpdateFromTiles kts m) = tracked_aquifer.run kts (hm_aquifer m)"
  "hm_water (UpdateFromTiles kts m) = tracked_water.run kts (hm_water m)"
  "hm_lava (UpdateFromTiles kts m) = tracked_lava.run kts (hm_lava m)"
  "hm_caverns (UpdateFromTiles kts m) = tracked_caverns.run kts (hm_caverns m)"
  unfolding UpdateFromTiles_def
  by (induction kts arbitrary: m; simp add: refresh_hazards_def case_prod_beta Let_def)+

text \<open>What a kind of hazard reads off a tile, by the name \<open>GetOverlay\<close> knows it by.\<close>

definition reading :: "string \<Rightarrow> (TileState \<Rightarrow> u8 option) option" where
  "reading kind = map_of [(''aquifer'', aquifer_sev), (''water'', water_sev), (''lava'', lava_sev), (''caverns'', cavern_sev)] kind"

definition manager_in_step :: "MapBounds \<Rightarrow> TileState list \<Rightarrow> HazardManager \<Rightarrow> bool" where
  "manager_in_step b ts m \<longleftrightarrow>
     all_severity 255 (hm_aquifer m) \<and> in_step b ts aquifer_sev (hm_aquifer m) \<and>
     hazard_inv (hm_water m) \<and> in_step b ts water_sev (hm_water m) \<and>
     hazard_inv (hm_lava m) \<and> in_step b ts lava_sev (hm_lava m) \<and>
     all_severity 1 (hm_caverns m) \<and> in_step b ts cavern_sev (hm_caverns m)"

abbreviation map_of_size :: "u16 \<Rightarrow> u16 \<Rightarrow> u16 \<Rightarrow> MapBounds" where
  "map_of_size w h d \<equiv> \<lparr>mb_Width = w, mb_Height = h, mb_Depth = d\<rparr>"

lemma New_bounds [simp]:
  "ho_mapBounds (hm_aquifer (NewHazardManager now w h d)) = map_of_size w h d"
  "ho_mapBounds (hm_water (NewHazardManager now w h d)) = map_of_size w h d"
  "ho_mapBounds (hm_lava (NewHazardManager now w h d)) = map_of_size w h d"
  "ho_mapBounds (hm_caverns (NewHazardManager now w h d)) = map_of_size w h d"
  by (simp_all add: NewHazardManager_def NewHazardOverlay_def Let_def)

lemma built_in_step:
  assumes "distinct (map (tile_coord \<circ> snd) full)"
  shows "manager_in_step (map_of_size w h d) (map snd full) (BuildHazards now full (NewHazardManager now0 w h d))"
  using built_aquifer.run_in_step [OF all_severity_Clear Clear_fields(1) assms, of "now 0" "hm_aquifer (NewHazardManager now0 w h d)"]
    built_water.run_in_step [OF hazard_inv_Clear Clear_fields(1) assms, of "now 1" "hm_water (NewHazardManager now0 w h d)"]
    built_lava.run_in_step [OF hazard_inv_Clear Clear_fields(1) assms, of "now 2" "hm_lava (NewHazardManager now0 w h d)"]
    built_caverns.run_in_step [OF all_severity_Clear Clear_fields(1) assms, of "now 3" "hm_caverns (NewHazardManager now0 w h d)"]
  by (simp add: manager_in_step_def BuildHazards_def build_overlays built_aquifer.run_inv built_water.run_inv
      built_lava.run_inv built_caverns.run_inv all_severity_Clear hazard_inv_Clear)

lemma updated_in_step:
  "manager_in_step b ts m \<Longrightarrow> manager_in_step b (ts @ map snd kts) (UpdateFromTiles kts m)"
  by (simp add: manager_in_step_def update_overlays tracked_aquifer.run_stays_in_step tracked_water.run_stays_in_step
      tracked_lava.run_stays_in_step tracked_caverns.run_stays_in_step tracked_aquifer.run_inv tracked_water.run_inv
      tracked_lava.run_inv tracked_caverns.run_inv)

lemma updates_in_step:
  "manager_in_step b ts m \<Longrightarrow> manager_in_step b (ts @ map snd (concat updates)) (fold UpdateFromTiles updates m)"
  by (induction updates arbitrary: ts m) (use updated_in_step in fastforce)+

lemma followed_in_step:
  assumes "distinct (map (tile_coord \<circ> snd) full)"
  shows "manager_in_step (map_of_size w h d) (map snd (full @ concat updates))
    (fold UpdateFromTiles updates (BuildHazards now full (NewHazardManager now0 w h d)))"
  using updates_in_step [OF built_in_step [OF assms]] by simp

lemma reading_in_step:
  assumes "manager_in_step b ts m" and "reading kind = Some sev" and "GetOverlay kind m = Some ov"
  shows "in_step b ts sev ov"
  using assms by (auto simp: reading_def GetOverlay_def manager_in_step_def split: if_splits)

lemma GetHazard_in_step:
  assumes "in_step b ts sev ov"
  shows "map_option hz_Severity (GetHazard ov x y z) = (if on_map b \<lparr>cd_X = x, cd_Y = y, cd_Z = z\<rparr>
    then Option.bind (last_at ts \<lparr>cd_X = x, cd_Y = y, cd_Z = z\<rparr>) sev else None)"
  using assms by (auto simp: in_step_def GetHazard_def severity_at_def split: option.splits)


text \<open>
  Every tile in the fog of war is an aquifer: whatever full map state and updates were seen, the aquifer overlay
  holds exactly the tiles whose last observation has the flag that the protocol defines as hidden. The type of the
  tile plays no part.
\<close>

theorem hidden_tiles_are_aquifers:
  assumes "distinct (map (tile_coord \<circ> snd) full)"
    and "m = fold UpdateFromTiles updates (BuildHazards now full (NewHazardManager now0 w h d))"
    and "GetOverlay ''aquifer'' m = Some ov" and "c = \<lparr>cd_X = x, cd_Y = y, cd_Z = z\<rparr>"
  shows "ContainsHazard ov x y z \<longleftrightarrow> bounds_error \<lparr>mb_Width = w, mb_Height = h, mb_Depth = d\<rparr> c = None \<and>
    (\<exists>t. last_at (map snd (full @ concat updates)) c = Some t \<and> HasFlag t FlagHidden)"
proof -
  have "in_step (map_of_size w h d) (map snd (full @ concat updates)) aquifer_sev ov"
    using followed_in_step [OF assms(1), of w h d updates now now0] assms(2,3) by (auto simp: manager_in_step_def GetOverlay_def)
  note sev = GetHazard_in_step [OF this, of x y z]
  have "ContainsHazard ov x y z \<longleftrightarrow> map_option hz_Severity (GetHazard ov x y z) \<noteq> None"
    by (simp add: ContainsHazard_GetHazard)
  then show ?thesis
    unfolding sev assms(4) by (auto simp: aquifer_sev_def IsAquifer_def HasFlag_def FlagHidden_def bind_eq_Some_conv split: if_splits)
qed

text \<open>Examples: a lake tile that starts to flow, and an ordinary wall that was never seen.\<close>

definition lake_tile :: "u16 \<Rightarrow> TileState" where
  "lake_tile tt = \<lparr>ts_X = 1, ts_Y = 1, ts_Z = 2, ts_TileType = tt, ts_Flags = FlagDiscovered\<rparr>"

definition hidden_wall :: TileState where
  "hidden_wall = \<lparr>ts_X = 2, ts_Y = 1, ts_Z = 2, ts_TileType = 219, ts_Flags = FlagHidden\<rparr>"

definition ticks :: clock where "ticks n = n"

definition seen_lake :: HazardManager where
  "seen_lake = fold UpdateFromTiles [[(ticks, lake_tile 112)]]
     (BuildHazards ticks [(ticks, lake_tile 105), (ticks, hidden_wall)] (NewHazardManager ticks 4 4 4))"

lemma seen_distinct: "distinct (map (tile_coord \<circ> snd) [(ticks, lake_tile 105), (ticks, hidden_wall)])"
  by (simp add: tile_coord_def lake_tile_def hidden_wall_def)


lemma hidden_tiles_are_aquifers_witness: "ContainsHazard (hm_aquifer seen_lake) 2 1 2"
proof -
  have "GetOverlay ''aquifer'' seen_lake = Some (hm_aquifer seen_lake)" by (simp add: GetOverlay_def)
  note hidden_tiles_are_aquifers [OF seen_distinct seen_lake_def this refl, of 2 1 2]
  then show ?thesis
    by (simp add: bounds_error_def slt_def last_at_Cons lake_tile_def hidden_wall_def tile_coord_def HasFlag_def
        FlagHidden_def)
qed

section \<open>Entities\<close>

text \<open>An entity overlay keeps data for exactly the coordinates it holds.\<close>

definition entity_inv :: "EntityOverlay \<Rightarrow> bool" where
  "entity_inv e \<longleftrightarrow> hazard_inv (eo_HazardOverlay e) \<and> dom (eo_entityData e) = dom (ho_hazards (eo_HazardOverlay e))"

lemma entity_inv_Clear: "entity_inv (ClearEntities now e)"
  by (simp add: entity_inv_def ClearEntities_def hazard_inv_Clear)

lemma entity_added:
  assumes "entity_inv e" and "AddHazard now c info (eo_HazardOverlay e) = Inr h"
  shows "entity_inv (e\<lparr>eo_HazardOverlay := h, eo_entityData := (eo_entityData e)(c \<mapsto> data)\<rparr>)"
proof (cases rule: AddHazard_cases [of now c info "eo_HazardOverlay e"])
  case (added h1)
  then have "ho_hazards h = (ho_hazards (eo_HazardOverlay e))(c \<mapsto> info)" using assms(2) by simp
  then show ?thesis using assms AddHazard_inv [OF _ assms(2)] by (simp add: entity_inv_def)
qed (use assms(2) in simp)

lemma AddEnemy_inv: "entity_inv e \<Longrightarrow> AddEnemy now entity e = Inr e' \<Longrightarrow> entity_inv e'"
  unfolding AddEnemy_def Let_def by (auto intro: entity_added split: sum.splits)

lemma AddDwarf_inv: "entity_inv e \<Longrightarrow> AddDwarf now entity e = Inr e' \<Longrightarrow> entity_inv e'"
  unfolding AddDwarf_def Let_def by (auto intro: entity_added split: sum.splits)

lemma RemoveEntity_inv:
  assumes "entity_inv e"
  shows "entity_inv (snd (RemoveEntity now c e))"
proof (cases rule: RemoveHazard_cases [of now c "eo_HazardOverlay e"])
  case (rejected a)
  then have "c \<notin> dom (eo_entityData e)" using assms by (auto simp: entity_inv_def hazard_inv_def iff del: domIff)
  then have "(eo_entityData e)(c := None) = eo_entityData e" by (simp add: domIff fun_upd_idem)
  then show ?thesis using assms rejected(1) by (simp add: RemoveEntity_def entity_inv_def)
next
  case (removed h')
  then show ?thesis using assms RemoveHazard_inv [OF _ removed(1)] by (simp add: RemoveEntity_def entity_inv_def)
qed

text \<open>The enemies of the last entity update, dead ones included, and nothing else are what the enemy overlay shows.\<close>

definition enemy_coords :: "MapBounds \<Rightarrow> EntityInfo list \<Rightarrow> Coord set" where
  "enemy_coords b es = {entity_coord e | e. e \<in> set es \<and> ei_Type e = EntityTypeEnemy \<and> on_map b (entity_coord e)}"

lemma AddEnemy_result:
  "case AddEnemy now entity e of Inl err \<Rightarrow> \<not> on_map (ho_mapBounds (eo_HazardOverlay e)) (entity_coord entity)
   | Inr e' \<Rightarrow> on_map (ho_mapBounds (eo_HazardOverlay e)) (entity_coord entity) \<and>
       ho_mapBounds (eo_HazardOverlay e') = ho_mapBounds (eo_HazardOverlay e) \<and>
       dom (ho_hazards (eo_HazardOverlay e')) = insert (entity_coord entity) (dom (ho_hazards (eo_HazardOverlay e)))"
  by (cases rule: AddHazard_cases [of now "entity_coord entity" "\<lparr>hz_Severity = calculateThreatLevel (ei_Subtype entity),
        hz_Flags = 0, hz_DetectedAt = ho_lastUpdate (eo_HazardOverlay e)\<rparr>" "eo_HazardOverlay e"])
     (auto simp: AddEnemy_def Let_def)

lemma enemies_shown:
  "dom (ho_hazards (eo_HazardOverlay (hm_enemies (BuildFromEntities now kes m)))) =
     enemy_coords (ho_mapBounds (eo_HazardOverlay (hm_enemies m))) (map snd kes)"
proof -
  let ?E = "\<lambda>m. eo_HazardOverlay (hm_enemies m)"
  have step: "ho_mapBounds (?E (build_entity ke m)) = ho_mapBounds (?E m) \<and>
      dom (ho_hazards (?E (build_entity ke m))) = enemy_coords (ho_mapBounds (?E m)) [snd ke] \<union> dom (ho_hazards (?E m))" for ke m
    using AddEnemy_result [where now = "fst ke" and entity = "snd ke" and e = "hm_enemies m"]
    by (auto simp: build_entity_def enemy_coords_def EntityTypeDwarf_def EntityTypeEnemy_def
        split: sum.splits prod.splits iff del: domIff)
  have "dom (ho_hazards (?E (fold build_entity kes m))) =
      enemy_coords (ho_mapBounds (?E m)) (map snd kes) \<union> dom (ho_hazards (?E m))" for m
  proof (induction kes arbitrary: m)
    case (Cons ke kes)
    then show ?case using step [of ke m] by (auto simp: enemy_coords_def)
  qed (simp add: enemy_coords_def)
  then show ?thesis by (simp add: BuildFromEntities_def ClearEntities_def)
qed

end
