(* ===== verification/Client.thy ===== *)
theory Client
  imports Connection
begin

text \<open>
  The client side of the plugin (\<open>internal/dfhack/client.go\<close>): the handshake with a plugin that connects, the loop
  that routes its messages to bounded channels, heartbeats, commands, and the queries, whose answers are matched to
  the waiting goroutines by an id. The connection objects are a store from numbers to \<open>Connection\<close>. A query that
  has been asked is an entry of a list that only grows; its place stands for its goroutine and its response channel.
  Log output is not modelled.
\<close>

section \<open>State\<close>

datatype query_outcome = SendError conn_error | Cancelled | TimedOut | Answered QueryResponseMessage

text \<open>Where a goroutine in \<open>SendQuery\<close> stands; leaving, it has still to run its deferred clean-up.\<close>

datatype call_phase = CallSending | CallWaiting | CallLeaving query_outcome | CallReturned query_outcome

record QueryCall =
  qc_ID :: u32
  qc_buf :: "QueryResponseMessage option"
  qc_phase :: call_phase

text \<open>\<open>qt_hands\<close> holds the responses that a message loop has matched and not yet put into their channel.\<close>

record QueryTable =
  qt_NextID :: u32
  qt_pending :: "u32 \<rightharpoonup> nat"
  qt_calls :: "QueryCall list"
  qt_hands :: "(nat \<times> QueryResponseMessage) multiset"

record SessionMetrics =
  sm_ConnectionTime :: nat
  sm_MessagesSent :: u64
  sm_MessagesReceived :: u64
  sm_BytesSent :: u64
  sm_BytesReceived :: u64
  sm_ErrorCount :: u64
  sm_LastError :: "conn_error option"
  sm_LastErrorTime :: nat
  sm_HeartbeatsSent :: u64
  sm_HeartbeatsReceived :: u64

text \<open>\<open>cl_called\<close> records the messages the two callbacks, when they are set, have been called for.\<close>

record Client =
  cl_conn :: "nat option"
  cl_conns :: "nat \<Rightarrow> Connection"
  cl_fullStateCh :: "FullStateMessage list"
  cl_tileUpdateCh :: "TileUpdateMessage list"
  cl_entityUpdateCh :: "EntityUpdateMessage list"
  cl_commandAckCh :: "CommandAckMessage list"
  cl_announcementCh :: "AnnouncementUpdateMessage list"
  cl_stopped :: bool
  cl_heartbeatSeq :: u8
  cl_lastHeartbeatAck :: nat
  cl_metrics :: SessionMetrics
  cl_onFullState :: bool
  cl_onSaveRequest :: bool
  cl_called :: "Message list"
  cl_queries :: QueryTable

definition new_metrics :: "nat \<Rightarrow> SessionMetrics" where
  "new_metrics now = \<lparr>sm_ConnectionTime = now, sm_MessagesSent = 0, sm_MessagesReceived = 0, sm_BytesSent = 0,
     sm_BytesReceived = 0, sm_ErrorCount = 0, sm_LastError = None, sm_LastErrorTime = 0, sm_HeartbeatsSent = 0,
     sm_HeartbeatsReceived = 0\<rparr>"

definition NewQueryTable :: QueryTable where
  "NewQueryTable = \<lparr>qt_NextID = 0, qt_pending = Map.empty, qt_calls = [], qt_hands = {#}\<rparr>"

definition NewClient :: Client where
  "NewClient = \<lparr>cl_conn = None, cl_conns = (\<lambda>_. NewConnection), cl_fullStateCh = [], cl_tileUpdateCh = [],
     cl_entityUpdateCh = [], cl_commandAckCh = [], cl_announcementCh = [], cl_stopped = False, cl_heartbeatSeq = 0,
     cl_lastHeartbeatAck = 0, cl_metrics = new_metrics 0, cl_onFullState = False, cl_onSaveRequest = False,
     cl_called = [], cl_queries = NewQueryTable\<rparr>"

section \<open>Queries\<close>

text \<open>The locked part of \<open>SendQuery\<close>: a fresh id, skipping 0, and a response channel for one message.\<close>

definition query_register :: "QueryTable \<Rightarrow> QueryTable" where
  "query_register t =
     (let next_id = qt_NextID t + 1;
          next_id = (if next_id = 0 then 1 else next_id)
      in t\<lparr>qt_NextID := next_id, qt_pending := (qt_pending t)(next_id \<mapsto> length (qt_calls t)),
           qt_calls := qt_calls t @ [\<lparr>qc_ID = next_id, qc_buf = None, qc_phase = CallSending\<rparr>]\<rparr>)"

definition set_call :: "nat \<Rightarrow> (QueryCall \<Rightarrow> QueryCall) \<Rightarrow> QueryTable \<Rightarrow> QueryTable" where
  "set_call k f t = t\<lparr>qt_calls := (qt_calls t)[k := f (qt_calls t ! k)]\<rparr>"

definition set_phase :: "nat \<Rightarrow> call_phase \<Rightarrow> QueryTable \<Rightarrow> QueryTable" where
  "set_phase k p = set_call k (qc_phase_update (\<lambda>_. p))"

text \<open>The \<open>select\<close> took the response out of the channel.\<close>

definition query_take :: "nat \<Rightarrow> QueryResponseMessage \<Rightarrow> QueryTable \<Rightarrow> QueryTable" where
  "query_take k r = set_call k (\<lambda>c. c\<lparr>qc_buf := None, qc_phase := CallLeaving (Answered r)\<rparr>)"

text \<open>The deferred clean-up, then the return.\<close>

definition query_leave :: "nat \<Rightarrow> query_outcome \<Rightarrow> QueryTable \<Rightarrow> QueryTable" where
  "query_leave k out t =
     (let t = t\<lparr>qt_pending := (qt_pending t)(qc_ID (qt_calls t ! k) := None)\<rparr>
      in set_phase k (CallReturned out) t)"

text \<open>The message loop: match a response, then offer it to the channel, which takes one.\<close>

definition query_lookup :: "QueryResponseMessage \<Rightarrow> QueryTable \<Rightarrow> QueryTable" where
  "query_lookup r t = (case qt_pending t (qr_QueryID r) of
       None \<Rightarrow> t
     | Some k \<Rightarrow> t\<lparr>qt_pending := (qt_pending t)(qr_QueryID r := None), qt_hands := add_mset (k, r) (qt_hands t)\<rparr>)"

definition query_put :: "nat \<Rightarrow> QueryResponseMessage \<Rightarrow> QueryTable \<Rightarrow> QueryTable" where
  "query_put k r t =
     set_call k (\<lambda>c. if qc_buf c = None then c\<lparr>qc_buf := Some r\<rparr> else c) (t\<lparr>qt_hands := qt_hands t - {#(k, r)#}\<rparr>)"

datatype query_error = PluginUnknownQuery | QueryFailed bytes | QueryEnded query_outcome

definition query_result :: "query_outcome \<Rightarrow> query_error + bytes" where
  "query_result out = (case out of
       Answered resp \<Rightarrow>
         if qr_Status resp = QueryStatusSuccess then Inr (qr_Data resp)
         else if qr_Status resp = QueryStatusUnknown then Inl PluginUnknownQuery
         else Inl (QueryFailed (qr_Data resp))
     | _ \<Rightarrow> Inl (QueryEnded out))"

section \<open>Messages\<close>

text \<open>A send that does not block: a full channel drops the new message.\<close>

definition offer :: "nat \<Rightarrow> 'a list \<Rightarrow> 'a \<Rightarrow> 'a list" where
  "offer cap ch m = (if length ch < cap then ch @ [m] else ch)"

definition count_error :: "nat \<Rightarrow> conn_error \<Rightarrow> Client \<Rightarrow> Client" where
  "count_error now err c = c\<lparr>cl_metrics := (cl_metrics c)\<lparr>sm_ErrorCount := sm_ErrorCount (cl_metrics c) + 1,
     sm_LastError := Some err, sm_LastErrorTime := now\<rparr>\<rparr>"

definition handleHeartbeat :: "nat \<Rightarrow> Client \<Rightarrow> Client" where
  "handleHeartbeat now c = c\<lparr>cl_lastHeartbeatAck := now,
     cl_metrics := (cl_metrics c)\<lparr>sm_HeartbeatsReceived := sm_HeartbeatsReceived (cl_metrics c) + 1\<rparr>\<rparr>"

definition route_response :: "QueryResponseMessage \<Rightarrow> QueryTable \<Rightarrow> QueryTable" where
  "route_response r t = (case qt_pending t (qr_QueryID r) of
       None \<Rightarrow> query_lookup r t
     | Some k \<Rightarrow> query_put k r (query_lookup r t))"

text \<open>One message, routed; the loop goes on when the result is True.\<close>

definition handle_message :: "nat \<Rightarrow> Message \<Rightarrow> Client \<Rightarrow> bool \<times> Client" where
  "handle_message now msg c =
     (let c = c\<lparr>cl_metrics := (cl_metrics c)\<lparr>sm_MessagesReceived := sm_MessagesReceived (cl_metrics c) + 1\<rparr>\<rparr> in
      case msg of
        FullState m \<Rightarrow>
          let c = c\<lparr>cl_fullStateCh := offer 1 (cl_fullStateCh c) m\<rparr> in
          (True, if cl_onFullState c then c\<lparr>cl_called := cl_called c @ [msg]\<rparr> else c)
      | TileUpdate m \<Rightarrow> (True, c\<lparr>cl_tileUpdateCh := offer 100 (cl_tileUpdateCh c) m\<rparr>)
      | EntityUpdate m \<Rightarrow> (True, c\<lparr>cl_entityUpdateCh := offer 100 (cl_entityUpdateCh c) m\<rparr>)
      | AnnouncementUpdate m \<Rightarrow> (True, c\<lparr>cl_announcementCh := offer 100 (cl_announcementCh c) m\<rparr>)
      | Heartbeat m \<Rightarrow> (True, handleHeartbeat now c)
      | CommandAck m \<Rightarrow> (True, c\<lparr>cl_commandAckCh := offer 100 (cl_commandAckCh c) m\<rparr>)
      | QueryResponse m \<Rightarrow> (True, c\<lparr>cl_queries := route_response m (cl_queries c)\<rparr>)
      | ResyncRequest m \<Rightarrow>
          (True, if rr_Reason m = 0x04 \<and> cl_onSaveRequest c then c\<lparr>cl_called := cl_called c @ [msg]\<rparr> else c)
      | Disconnect m \<Rightarrow> (False, c)
      | _ \<Rightarrow> (True, c))"

definition on_conn :: "nat \<Rightarrow> (Connection \<Rightarrow> 'a \<times> Connection) \<Rightarrow> Client \<Rightarrow> 'a \<times> Client" where
  "on_conn k f c = (case f (cl_conns c k) of (r, cn) \<Rightarrow> (r, c\<lparr>cl_conns := (cl_conns c)(k := cn)\<rparr>))"

text \<open>One turn of the message loop on the connection \<open>k\<close>; None when decoding panics, which ends the program.\<close>

definition message_turn :: "nat \<Rightarrow> nat \<Rightarrow> Client \<Rightarrow> (bool \<times> Client) option" where
  "message_turn now k c =
     (if cl_stopped c then Some (False, c)
      else case on_conn k Receive c of
        (Inl err, c) \<Rightarrow> if err = ReceivePanic then None else Some (False, count_error now err c)
      | (Inr msg, c) \<Rightarrow> Some (handle_message now msg c))"

section \<open>Connecting\<close>

datatype handshake_error =
    HandshakeNotSent conn_error | HandshakeNotReceived conn_error | ExpectedHandshake u8 | PeerVersion u8

definition performHandshake :: "u32 \<Rightarrow> Connection \<Rightarrow> (handshake_error + unit) \<times> Connection" where
  "performHandshake connID cn =
     (case Send (Handshake \<lparr>hs_ProtocolVersion = ProtocolVersion, hs_ConnectionID = connID, hs_Capabilities = []\<rparr>) cn of
        (Inl err, cn) \<Rightarrow> (Inl (HandshakeNotSent err), cn)
      | (Inr _, cn) \<Rightarrow>
        (case Receive cn of
           (Inl err, cn) \<Rightarrow> (Inl (HandshakeNotReceived err), cn)
         | (Inr msg, cn) \<Rightarrow>
           (case msg of
              Handshake handshake \<Rightarrow>
                if hs_ProtocolVersion handshake \<noteq> ProtocolVersion
                then (Inl (PeerVersion (hs_ProtocolVersion handshake)), cn) else (Inr (), cn)
            | _ \<Rightarrow> (Inl (ExpectedHandshake (message_type msg)), cn))))"

text \<open>\<open>tcpConn.Close()\<close> closes the socket below the connection, whose state it does not touch.\<close>

definition close_socket :: "Connection \<Rightarrow> Connection" where
  "close_socket cn = cn\<lparr>cn_conn := map_option (\<lambda>nc. nc\<lparr>nc_in := [], nc_closed := True\<rparr>) (cn_conn cn)\<rparr>"

definition ReasonReconnect :: u8 where "ReasonReconnect = 0x02"

text \<open>True when the connection got its heartbeat and its message loop.\<close>

definition handleConnection :: "nat \<Rightarrow> u32 \<Rightarrow> nat \<Rightarrow> NetConn \<Rightarrow> Client \<Rightarrow> bool \<times> Client" where
  "handleConnection now connID k tcpConn c =
     (let protocolConn = AcceptConnection tcpConn NewConnection;
          c = c\<lparr>cl_conns := (cl_conns c)(k := protocolConn), cl_conn := Some k\<rparr>;
          c = c\<lparr>cl_metrics := new_metrics now\<rparr>
      in case on_conn k (performHandshake connID) c of
           (Inl err, c) \<Rightarrow> (False, c\<lparr>cl_conns := (cl_conns c)(k := close_socket (cl_conns c k))\<rparr>)
         | (Inr _, c) \<Rightarrow> (True, snd (on_conn k (Send (ResyncRequest \<lparr>rr_Reason = ReasonReconnect\<rparr>)) c)))"

definition RequestFullState :: "u8 \<Rightarrow> Client \<Rightarrow> (conn_error option + unit) \<times> Client" where
  "RequestFullState reason c = (case cl_conn c of
       None \<Rightarrow> (Inl None, c)
     | Some k \<Rightarrow>
       (case on_conn k (Send (ResyncRequest \<lparr>rr_Reason = reason\<rparr>)) c of
          (Inl err, c) \<Rightarrow> (Inl (Some err), c)
        | (Inr _, c) \<Rightarrow> (Inr (), c)))"

definition ClientSendCommand :: "CommandMessage \<Rightarrow> Client \<Rightarrow> (conn_error option + unit) \<times> Client" where
  "ClientSendCommand cmd c = (case cl_conn c of
       None \<Rightarrow> (Inl None, c)
     | Some k \<Rightarrow>
       (case on_conn k (Send (Command cmd)) c of
          (Inl err, c) \<Rightarrow> (Inl (Some err), c)
        | (Inr _, c) \<Rightarrow> (Inr (), c)))"

text \<open>
  \<open>SendQuery\<close> up to its \<open>select\<close>: the connection is the one of the start. The result is the place of the call, or
  None without a connection.
\<close>

definition start_query :: "bytes \<Rightarrow> bytes \<Rightarrow> Client \<Rightarrow> nat option \<times> Client" where
  "start_query name args c = (case cl_conn c of
       None \<Rightarrow> (None, c)
     | Some k \<Rightarrow>
       let i = length (qt_calls (cl_queries c));
           c = c\<lparr>cl_queries := query_register (cl_queries c)\<rparr>
       in case on_conn k (Send (Query \<lparr>qm_QueryID = qt_NextID (cl_queries c), qm_Name = name, qm_Args = args\<rparr>)) c of
            (Inl err, c) \<Rightarrow> (Some i, c\<lparr>cl_queries := set_phase i (CallLeaving (SendError err)) (cl_queries c)\<rparr>)
          | (Inr _, c) \<Rightarrow> (Some i, c\<lparr>cl_queries := set_phase i CallWaiting (cl_queries c)\<rparr>))"

definition query_timeout :: "int \<Rightarrow> int" where
  "query_timeout timeout = (if timeout \<le> 0 then 5 * 10 ^ 9 else timeout)"

definition IsConnected :: "Client \<Rightarrow> bool" where
  "IsConnected c = (case cl_conn c of None \<Rightarrow> False | Some k \<Rightarrow> cn_state (cl_conns c k) = StateConnected)"

section \<open>Heartbeats\<close>

definition heartbeatStale :: "nat \<Rightarrow> Client \<Rightarrow> bool" where
  "heartbeatStale k c =
     (if cl_conn c \<noteq> Some k then True
      else let state = cn_state (cl_conns c k) in state = StateError \<or> state = StateDisconnected)"

text \<open>One tick of the goroutine bound to \<open>k\<close>; False ends it. The clock is read for the message and at the end.\<close>

definition heartbeat_tick :: "nat \<Rightarrow> nat \<Rightarrow> nat \<Rightarrow> Client \<Rightarrow> bool \<times> Client" where
  "heartbeat_tick now later k c =
     (if cl_stopped c then (False, c)
      else if heartbeatStale k c then (False, c)
      else
        let c = c\<lparr>cl_heartbeatSeq := cl_heartbeatSeq c + 1\<rparr>;
            hb = \<lparr>hb_Timestamp = of_nat (now div 10 ^ 6), hb_Sequence = cl_heartbeatSeq c\<rparr>
        in case on_conn k (Send (Heartbeat hb)) c of
             (Inl err, c) \<Rightarrow> let c = count_error later err c in (\<not> heartbeatStale k c, c)
           | (Inr _, c) \<Rightarrow>
               let c = c\<lparr>cl_metrics := (cl_metrics c)\<lparr>sm_MessagesSent := sm_MessagesSent (cl_metrics c) + 1,
                         sm_HeartbeatsSent := sm_HeartbeatsSent (cl_metrics c) + 1\<rparr>\<rparr>;
                   timeSinceAck = int later - int (cl_lastHeartbeatAck c)
               in if timeSinceAck > 15 * 10 ^ 9
                  then (False, c\<lparr>cl_conns := (cl_conns c)(k := fst (Close (cl_conns c k)))\<rparr>)
                  else (True, c))"

text \<open>\<open>Stop\<close> without its wait; closing a closed channel panics.\<close>

definition StopClient :: "Client \<Rightarrow> Client option" where
  "StopClient c =
     (if cl_stopped c then None
      else let c = c\<lparr>cl_stopped := True\<rparr>
           in Some (case cl_conn c of
                None \<Rightarrow> c
              | Some k \<Rightarrow> c\<lparr>cl_conns := (cl_conns c)(k := fst (Close (cl_conns c k))), cl_conn := None\<rparr>))"

section \<open>Queries and answers in any order\<close>

text \<open>
  The states that any number of goroutines can bring the queries to, with the responses that have arrived, counted.
  The plugin may send any response at any time.
\<close>

inductive query_reach :: "QueryResponseMessage multiset \<Rightarrow> QueryTable \<Rightarrow> bool" where
  start: "query_reach {#} NewQueryTable"
| ask: "query_reach R t \<Longrightarrow> query_reach R (query_register t)"
| sent: "query_reach R t \<Longrightarrow> k < length (qt_calls t) \<Longrightarrow> qc_phase (qt_calls t ! k) = CallSending \<Longrightarrow>
    query_reach R (set_phase k CallWaiting t)"
| not_sent: "query_reach R t \<Longrightarrow> k < length (qt_calls t) \<Longrightarrow> qc_phase (qt_calls t ! k) = CallSending \<Longrightarrow>
    query_reach R (set_phase k (CallLeaving (SendError e)) t)"
| arrive: "query_reach R t \<Longrightarrow> query_reach (add_mset r R) (query_lookup r t)"
| put: "query_reach R t \<Longrightarrow> (k, r) \<in># qt_hands t \<Longrightarrow> query_reach R (query_put k r t)"
| take: "query_reach R t \<Longrightarrow> k < length (qt_calls t) \<Longrightarrow> qc_phase (qt_calls t ! k) = CallWaiting \<Longrightarrow>
    qc_buf (qt_calls t ! k) = Some r \<Longrightarrow> query_reach R (query_take k r t)"
| cancel: "query_reach R t \<Longrightarrow> k < length (qt_calls t) \<Longrightarrow> qc_phase (qt_calls t ! k) = CallWaiting \<Longrightarrow>
    query_reach R (set_phase k (CallLeaving Cancelled) t)"
| timeout: "query_reach R t \<Longrightarrow> k < length (qt_calls t) \<Longrightarrow> qc_phase (qt_calls t ! k) = CallWaiting \<Longrightarrow>
    query_reach R (set_phase k (CallLeaving TimedOut) t)"
| leave: "query_reach R t \<Longrightarrow> k < length (qt_calls t) \<Longrightarrow> qc_phase (qt_calls t ! k) = CallLeaving out \<Longrightarrow>
    query_reach R (query_leave k out t)"

text \<open>The response a call has been answered with, and those it holds or has been answered with.\<close>

definition answer :: "QueryCall \<Rightarrow> QueryResponseMessage option" where
  "answer c = (case qc_phase c of
       CallLeaving (Answered r) \<Rightarrow> Some r
     | CallReturned (Answered r) \<Rightarrow> Some r
     | _ \<Rightarrow> None)"

definition opt_mset :: "'a option \<Rightarrow> 'a multiset" where
  "opt_mset x = (case x of None \<Rightarrow> {#} | Some r \<Rightarrow> {#r#})"

definition held :: "QueryCall \<Rightarrow> QueryResponseMessage multiset" where
  "held c = opt_mset (qc_buf c) + opt_mset (answer c)"

definition all_held :: "QueryCall list \<Rightarrow> QueryResponseMessage multiset" where
  "all_held cs = sum_list (map held cs)"

definition answers :: "QueryTable \<Rightarrow> QueryResponseMessage multiset" where
  "answers t = sum_list (map (opt_mset \<circ> answer) (qt_calls t))"

definition returned :: "QueryCall \<Rightarrow> bool" where
  "returned c \<longleftrightarrow> (\<exists>out. qc_phase c = CallReturned out)"

text \<open>A call that can still be served: nothing in its channel, nothing taken.\<close>

definition unserved :: "QueryCall \<Rightarrow> bool" where
  "unserved c \<longleftrightarrow> qc_buf c = None \<and> answer c = None"

definition table_inv :: "QueryResponseMessage multiset \<Rightarrow> QueryTable \<Rightarrow> bool" where
  "table_inv R t \<longleftrightarrow>
     (\<forall>i k. qt_pending t i = Some k \<longrightarrow> k < length (qt_calls t) \<and> qc_ID (qt_calls t ! k) = i \<and>
        unserved (qt_calls t ! k) \<and> \<not> returned (qt_calls t ! k) \<and> k \<notin># image_mset fst (qt_hands t)) \<and>
     (\<forall>(k, r) \<in># qt_hands t. k < length (qt_calls t) \<and> qc_ID (qt_calls t ! k) = qr_QueryID r \<and>
        unserved (qt_calls t ! k) \<and> count (image_mset fst (qt_hands t)) k = 1) \<and>
     (\<forall>c \<in> set (qt_calls t). \<forall>r \<in># held c. qr_QueryID r = qc_ID c) \<and>
     all_held (qt_calls t) + image_mset snd (qt_hands t) \<subseteq># R"

lemma all_held_update:
  "k < length cs \<Longrightarrow> all_held (cs[k := c]) + held (cs ! k) = all_held cs + held c"
proof (induction cs arbitrary: k)
  case (Cons a cs)
  then show ?case by (cases k) (auto simp: all_held_def ac_simps)
qed simp

lemma held_simps [simp]:
  "held (c\<lparr>qc_phase := p\<rparr>) = opt_mset (qc_buf c) + opt_mset (answer (c\<lparr>qc_phase := p\<rparr>))"
  "opt_mset None = {#}" "opt_mset (Some r) = {#r#}"
  by (simp_all add: held_def opt_mset_def)

text \<open>A change of phase that answers nothing.\<close>

lemma table_inv_phase:
  assumes inv: "table_inv R t" and k: "k < length (qt_calls t)"
    and "answer ((qt_calls t ! k)\<lparr>qc_phase := p\<rparr>) = answer (qt_calls t ! k)"
    and "returned ((qt_calls t ! k)\<lparr>qc_phase := p\<rparr>) \<Longrightarrow> k \<notin> ran (qt_pending t)"
  shows "table_inv R (set_phase k p t)"
proof -
  let ?c = "(qt_calls t ! k)\<lparr>qc_phase := p\<rparr>"
  have same: "qc_ID ?c = qc_ID (qt_calls t ! k)" "unserved ?c = unserved (qt_calls t ! k)" "held ?c = held (qt_calls t ! k)"
    using assms(3) by (simp_all add: unserved_def held_def)
  have "all_held ((qt_calls t)[k := ?c]) = all_held (qt_calls t)"
    using all_held_update [OF k, of ?c] same(3) by simp
  moreover have "set ((qt_calls t)[k := ?c]) \<subseteq> insert ?c (set (qt_calls t))" by (rule set_update_subset_insert)
  ultimately show ?thesis
    using inv k assms(4) same nth_mem [OF k]
    unfolding table_inv_def set_phase_def set_call_def
    by (auto simp: nth_list_update ran_def split: if_splits)
qed

lemma table_inv_New: "table_inv {#} NewQueryTable"
  by (simp add: table_inv_def NewQueryTable_def all_held_def)

lemma table_invD:
  assumes "table_inv R t"
  shows "\<And>i k. qt_pending t i = Some k \<Longrightarrow> k < length (qt_calls t) \<and> qc_ID (qt_calls t ! k) = i \<and>
      unserved (qt_calls t ! k) \<and> \<not> returned (qt_calls t ! k) \<and> k \<notin># image_mset fst (qt_hands t)"
    and "\<And>k r. (k, r) \<in># qt_hands t \<Longrightarrow> k < length (qt_calls t) \<and> qc_ID (qt_calls t ! k) = qr_QueryID r \<and>
      unserved (qt_calls t ! k) \<and> count (image_mset fst (qt_hands t)) k = 1"
    and "\<And>c r. c \<in> set (qt_calls t) \<Longrightarrow> r \<in># held c \<Longrightarrow> qr_QueryID r = qc_ID c"
    and "all_held (qt_calls t) + image_mset snd (qt_hands t) \<subseteq># R"
  using assms unfolding table_inv_def by fastforce+

lemma pending_not_in_hand:
  assumes "table_inv R t" and "qt_pending t i = Some k"
  shows "(k, r) \<notin># qt_hands t" and "count (image_mset fst (qt_hands t)) k = 0"
proof -
  have away: "k \<notin># image_mset fst (qt_hands t)" using table_invD(1) [OF assms] by blast
  then show "count (image_mset fst (qt_hands t)) k = 0" by (metis count_eq_zero_iff)
  show "(k, r) \<notin># qt_hands t" using away by force
qed

lemma hands_in_range: "table_inv R t \<Longrightarrow> k \<in># image_mset fst (qt_hands t) \<Longrightarrow> k < length (qt_calls t)"
  using table_invD(2) by fastforce

lemma table_inv_register:
  assumes "table_inv R t"
  shows "table_inv R (query_register t)"
proof -
  note inv = table_invD [OF assms]
  have new: "length (qt_calls t) \<notin># image_mset fst (qt_hands t)"
    using hands_in_range [OF assms] by blast
  show ?thesis
    unfolding table_inv_def query_register_def Let_def
    using new inv(3,4)
    by (auto simp: nth_append unserved_def answer_def returned_def all_held_def held_def dest: inv(1) inv(2) pending_not_in_hand(1) [OF assms]
        split: if_splits)
qed

lemma table_inv_lookup:
  assumes "table_inv R t"
  shows "table_inv (add_mset r R) (query_lookup r t)"
proof (cases "qt_pending t (qr_QueryID r)")
  case None
  then show ?thesis
    using assms unfolding query_lookup_def table_inv_def by (auto intro: subset_mset.order_trans)
next
  case (Some k)
  note inv = table_invD [OF assms]
  have k: "k < length (qt_calls t)" "qc_ID (qt_calls t ! k) = qr_QueryID r" "unserved (qt_calls t ! k)"
    using inv(1) [OF Some] by simp_all
  note away = pending_not_in_hand [OF assms Some]
  let ?t = "t\<lparr>qt_pending := (qt_pending t)(qr_QueryID r := None), qt_hands := add_mset (k, r) (qt_hands t)\<rparr>"
  show ?thesis
    unfolding table_inv_def query_lookup_def Some option.case
  proof (intro conjI allI impI ballI)
    fix i k' assume "qt_pending ?t i = Some k'"
    then have p: "qt_pending t i = Some k'" and i: "i \<noteq> qr_QueryID r" by (auto split: if_splits)
    then have "k' \<noteq> k" using inv(1) [OF p] k by auto
    then show "k' < length (qt_calls ?t)"
      "qc_ID (qt_calls ?t ! k') = i"
      "unserved (qt_calls ?t ! k')"
      "\<not> returned (qt_calls ?t ! k')"
      "k' \<notin># image_mset fst (qt_hands ?t)"
      using inv(1) [OF p] by auto
  qed (use inv(2,3,4) k away in \<open>auto 0 3\<close>)
qed

lemma query_put_held:
  assumes "table_inv R t" and "(k, r) \<in># qt_hands t"
  shows "qt_calls (query_put k r t) = (qt_calls t)[k := (qt_calls t ! k)\<lparr>qc_buf := Some r\<rparr>]"
    and "qt_hands (query_put k r t) = qt_hands t - {#(k, r)#}" and "qt_pending (query_put k r t) = qt_pending t"
  using table_invD(2) [OF assms] by (auto simp: query_put_def set_call_def unserved_def)

lemma table_inv_put:
  assumes "table_inv R t" and hand: "(k, r) \<in># qt_hands t"
  shows "table_inv R (query_put k r t)"
proof -
  note inv = table_invD [OF assms(1)] and put = query_put_held [OF assms]
  have k: "k < length (qt_calls t)" and fresh: "unserved (qt_calls t ! k)" and own: "qc_ID (qt_calls t ! k) = qr_QueryID r"
    and once: "count (image_mset fst (qt_hands t)) k = 1"
    using inv(2) [OF hand] by auto
  define H where "H = qt_hands t - {#(k, r)#}"
  have hands: "qt_hands t = add_mset (k, r) H" using hand by (simp add: H_def)
  have gone: "k \<notin># image_mset fst H" using once by (simp add: hands count_eq_zero_iff)
  have held: "held ((qt_calls t ! k)\<lparr>qc_buf := Some r\<rparr>) = {#r#}" "held (qt_calls t ! k) = {#}"
    using fresh by (simp_all add: held_def unserved_def answer_def)
  have all: "all_held ((qt_calls t)[k := (qt_calls t ! k)\<lparr>qc_buf := Some r\<rparr>]) = add_mset r (all_held (qt_calls t))"
    using all_held_update [OF k, of "(qt_calls t ! k)\<lparr>qc_buf := Some r\<rparr>"] by (simp add: held)
  have rest: "(k', r') \<in># H \<Longrightarrow> k' \<noteq> k \<and> (k', r') \<in># qt_hands t" for k' r'
    using gone by (force simp: hands)
  have counts: "k' \<noteq> k \<Longrightarrow> count (image_mset fst H) k' = count (image_mset fst (qt_hands t)) k'" for k'
    by (simp add: hands)
  have pend: "qt_pending t i = Some k' \<Longrightarrow> k' \<noteq> k \<and> k' \<notin># image_mset fst H" for i k'
    using inv(1) [of i k'] by (auto simp: hands)
  have calls: "set ((qt_calls t)[k := (qt_calls t ! k)\<lparr>qc_buf := Some r\<rparr>]) \<subseteq>
      insert ((qt_calls t ! k)\<lparr>qc_buf := Some r\<rparr>) (set (qt_calls t))" by (rule set_update_subset_insert)
  show ?thesis
    unfolding table_inv_def put all H_def [symmetric]
  proof (intro conjI allI impI ballI)
    fix i k' assume "qt_pending t i = Some k'"
    then show "k' < length ((qt_calls t)[k := (qt_calls t ! k)\<lparr>qc_buf := Some r\<rparr>])"
      "qc_ID ((qt_calls t)[k := (qt_calls t ! k)\<lparr>qc_buf := Some r\<rparr>] ! k') = i"
      "unserved ((qt_calls t)[k := (qt_calls t ! k)\<lparr>qc_buf := Some r\<rparr>] ! k')"
      "\<not> returned ((qt_calls t)[k := (qt_calls t ! k)\<lparr>qc_buf := Some r\<rparr>] ! k')" "k' \<notin># image_mset fst H"
      using pend [OF \<open>qt_pending t i = Some k'\<close>] inv(1) [OF \<open>qt_pending t i = Some k'\<close>] by (auto simp: nth_list_update)
  next
    fix kr assume "kr \<in># H"
    then show "case kr of (k', r') \<Rightarrow> k' < length ((qt_calls t)[k := (qt_calls t ! k)\<lparr>qc_buf := Some r\<rparr>]) \<and>
        qc_ID ((qt_calls t)[k := (qt_calls t ! k)\<lparr>qc_buf := Some r\<rparr>] ! k') = qr_QueryID r' \<and>
        unserved ((qt_calls t)[k := (qt_calls t ! k)\<lparr>qc_buf := Some r\<rparr>] ! k') \<and> count (image_mset fst H) k' = 1"
      using rest [of "fst kr" "snd kr"] inv(2) [of "fst kr" "snd kr"] counts by (cases kr) auto
  next
    fix c r' assume "c \<in> set ((qt_calls t)[k := (qt_calls t ! k)\<lparr>qc_buf := Some r\<rparr>])" "r' \<in># held c"
    then show "qr_QueryID r' = qc_ID c" using calls inv(3) own held by auto
  next
    show "add_mset r (all_held (qt_calls t)) + image_mset snd H \<subseteq># R" using inv(4) by (simp add: hands)
  qed
qed

text \<open>A response that moves from the channel to the result.\<close>

lemma table_inv_take:
  assumes "table_inv R t" and k: "k < length (qt_calls t)" and "qc_phase (qt_calls t ! k) = CallWaiting"
    and "qc_buf (qt_calls t ! k) = Some r"
  shows "table_inv R (query_take k r t)"
proof -
  let ?c = "(qt_calls t ! k)\<lparr>qc_buf := None, qc_phase := CallLeaving (Answered r)\<rparr>"
  note inv = table_invD [OF assms(1)]
  have held: "held ?c = held (qt_calls t ! k)" using assms(3,4) by (simp add: held_def answer_def)
  have all: "all_held ((qt_calls t)[k := ?c]) = all_held (qt_calls t)"
    using all_held_update [OF k, of ?c] held by simp
  have served: "\<not> unserved (qt_calls t ! k)" using assms(4) by (simp add: unserved_def)
  then have away: "qt_pending t i \<noteq> Some k" "(k, r') \<notin># qt_hands t" for i r' using inv(1,2) by blast+
  have calls: "set ((qt_calls t)[k := ?c]) \<subseteq> insert ?c (set (qt_calls t))" by (rule set_update_subset_insert)
  have keep: "qt_calls (query_take k r t) = (qt_calls t)[k := ?c]" "qt_pending (query_take k r t) = qt_pending t"
    "qt_hands (query_take k r t) = qt_hands t"
    by (simp_all add: query_take_def set_call_def)
  have own: "r' \<in># held ?c \<Longrightarrow> qr_QueryID r' = qc_ID ?c" for r' using inv(3) [OF nth_mem [OF k]] held by simp
  show ?thesis
    unfolding table_inv_def keep all
  proof (intro conjI allI impI ballI)
    fix kr assume "kr \<in># qt_hands t"
    then show "case kr of (k', r') \<Rightarrow> k' < length ((qt_calls t)[k := ?c]) \<and> qc_ID ((qt_calls t)[k := ?c] ! k') = qr_QueryID r' \<and>
        unserved ((qt_calls t)[k := ?c] ! k') \<and> count (image_mset fst (qt_hands t)) k' = 1"
      using away(2) [of "snd kr"] inv(2) [of "fst kr" "snd kr"] by (cases kr; cases "fst kr = k") simp_all
  next
    fix c r' assume "c \<in> set ((qt_calls t)[k := ?c])" "r' \<in># held c"
    then show "qr_QueryID r' = qc_ID c" using calls inv(3) own by blast
  next
    fix i k' assume p: "qt_pending t i = Some k'"
    then show "k' < length ((qt_calls t)[k := ?c])" "qc_ID ((qt_calls t)[k := ?c] ! k') = i"
      "unserved ((qt_calls t)[k := ?c] ! k')" "\<not> returned ((qt_calls t)[k := ?c] ! k')" "k' \<notin># image_mset fst (qt_hands t)"
      using away(1) [of i] p inv(1) [OF p] by (cases "k' = k"; simp)+
  qed (rule inv(4))
qed

lemma table_inv_forget: "table_inv R t \<Longrightarrow> table_inv R (t\<lparr>qt_pending := (qt_pending t)(i := None)\<rparr>)"
  by (auto simp: table_inv_def)

lemma table_inv_leave:
  assumes "table_inv R t" and "k < length (qt_calls t)" and "qc_phase (qt_calls t ! k) = CallLeaving out"
  shows "table_inv R (query_leave k out t)"
  unfolding query_leave_def Let_def
proof (rule table_inv_phase [OF table_inv_forget [OF assms(1)]])
  show "k \<notin> ran (qt_pending (t\<lparr>qt_pending := (qt_pending t)(qc_ID (qt_calls t ! k) := None)\<rparr>))"
    using table_invD(1) [OF assms(1), of _ k] by (auto simp: ran_def)
qed (use assms(2,3) in \<open>auto simp: answer_def\<close>)

lemma query_reach_inv: "query_reach R t \<Longrightarrow> table_inv R t"
proof (induction rule: query_reach.induct)
  case (sent R t k)
  then show ?case by (intro table_inv_phase) (auto simp: answer_def returned_def)
next
  case (not_sent R t k e)
  then show ?case by (intro table_inv_phase) (auto simp: answer_def returned_def)
next
  case (cancel R t k)
  then show ?case by (intro table_inv_phase) (auto simp: answer_def returned_def)
next
  case (timeout R t k)
  then show ?case by (intro table_inv_phase) (auto simp: answer_def returned_def)
qed (simp_all add: table_inv_New table_inv_register table_inv_lookup table_inv_put table_inv_take table_inv_leave)

text \<open>What the client does is such a run.\<close>

lemma route_response_reach:
  assumes "query_reach R t"
  shows "query_reach (add_mset r R) (route_response r t)"
proof (cases "qt_pending t (qr_QueryID r)")
  case (Some k)
  then have "(k, r) \<in># qt_hands (query_lookup r t)" by (simp add: query_lookup_def)
  then show ?thesis using put [OF arrive [OF assms]] Some by (simp add: route_response_def)
qed (simp add: route_response_def arrive [OF assms])

lemma start_query_reach:
  assumes "query_reach R (cl_queries c)"
  shows "query_reach R (cl_queries (snd (start_query name args c)))"
proof (cases "cl_conn c")
  case (Some j)
  let ?t = "query_register (cl_queries c)"
  have "length (qt_calls (cl_queries c)) < length (qt_calls ?t)"
    and "qc_phase (qt_calls ?t ! length (qt_calls (cl_queries c))) = CallSending"
    by (simp_all add: query_register_def Let_def)
  then show ?thesis
    using Some sent [OF ask [OF assms]] not_sent [OF ask [OF assms]]
    by (auto simp: start_query_def Let_def on_conn_def split: sum.splits prod.splits)
qed (simp add: start_query_def assms)

section \<open>Answers reach the query they belong to\<close>

lemma answers_held: "answers t \<subseteq># all_held (qt_calls t)"
proof -
  have "sum_list (map (opt_mset \<circ> answer) cs) \<subseteq># sum_list (map held cs)" for cs
    by (induction cs) (auto simp: held_def intro: subset_mset.add_mono subset_mset.order_trans [OF _ mset_subset_eq_add_right])
  then show ?thesis by (simp add: answers_def all_held_def)
qed

text \<open>
  C5: No query gets another's answer: however any number of goroutines that ask, give up and return interleave with
  the message loops and whatever the plugin sends, every answer that SendQuery returned carries the id of that very
  query, and no response that arrived answers two of them.
\<close>

theorem query_answers_are_own:
  assumes "query_reach R t"
  shows "(\<forall>c \<in> set (qt_calls t). \<forall>r. qc_phase c = CallReturned (Answered r) \<longrightarrow> qr_QueryID r = qc_ID c) \<and> answers t \<subseteq># R"
proof -
  note inv = table_invD [OF query_reach_inv [OF assms]]
  have "answers t \<subseteq># all_held (qt_calls t)" by (rule answers_held)
  also have "\<dots> \<subseteq># all_held (qt_calls t) + image_mset snd (qt_hands t)" by simp
  also have "\<dots> \<subseteq># R" by (rule inv(4))
  finally have "answers t \<subseteq># R" .
  moreover have "qr_QueryID r = qc_ID c" if "c \<in> set (qt_calls t)" "qc_phase c = CallReturned (Answered r)" for c r
    using inv(3) [OF that(1), of r] that(2) by (simp add: held_def answer_def)
  ultimately show ?thesis by blast
qed

text \<open>
  Queries leave nothing behind: in every reachable state the table of pending queries holds ids of queries that
  have not returned, so it is empty when all have, even after cancellations, timeouts and lost answers.
\<close>

theorem no_query_leaks:
  assumes "query_reach R t" and "\<forall>c \<in> set (qt_calls t). returned c"
  shows "qt_pending t = Map.empty"
proof
  fix i
  show "qt_pending t i = None"
    using table_invD(1) [OF query_reach_inv [OF assms(1)], of i] assms(2) nth_mem by (cases "qt_pending t i") auto
qed

definition expecting :: "QueryCall \<Rightarrow> bool" where
  "expecting c \<longleftrightarrow> qc_buf c = None \<and> qc_phase c \<in> {CallSending, CallWaiting}"

text \<open>While ids have not wrapped around, they number the queries, and whoever expects an answer is in the table.\<close>

definition ids_inv :: "QueryTable \<Rightarrow> bool" where
  "ids_inv t \<longleftrightarrow> qt_NextID t = of_nat (length (qt_calls t)) \<and>
     (\<forall>k < length (qt_calls t). qc_ID (qt_calls t ! k) = of_nat (Suc k)) \<and>
     (\<forall>k < length (qt_calls t). expecting (qt_calls t ! k) \<longrightarrow> k \<notin># image_mset fst (qt_hands t) \<longrightarrow>
        qt_pending t (of_nat (Suc k)) = Some k)"

lemma ids_distinct:
  "i < 2 ^ 32 \<Longrightarrow> j < 2 ^ 32 \<Longrightarrow> (of_nat i :: u32) = of_nat j \<longleftrightarrow> i = j"
  by (metis unat_of_nat_count)

lemma ids_inv_phase:
  assumes "ids_inv t" and "expecting ((qt_calls t ! k)\<lparr>qc_phase := p\<rparr>) \<Longrightarrow> expecting (qt_calls t ! k)"
  shows "ids_inv (set_phase k p t)"
proof (cases "k < length (qt_calls t)")
  case True
  then show ?thesis using assms by (auto simp: ids_inv_def set_phase_def set_call_def nth_list_update)
next
  case False
  then show ?thesis using assms(1) by (simp add: ids_inv_def set_phase_def set_call_def)
qed

lemma query_reach_ids: "query_reach R t \<Longrightarrow> length (qt_calls t) < 2 ^ 32 \<Longrightarrow> ids_inv t"
proof (induction rule: query_reach.induct)
  case start
  show ?case by (simp add: ids_inv_def NewQueryTable_def)
next
  case (ask R t)
  have len: "Suc (length (qt_calls t)) < 2 ^ 32" using ask.prems by (simp add: query_register_def Let_def)
  have IH: "ids_inv t" using ask.IH len by simp
  have "(of_nat (Suc (length (qt_calls t))) :: u32) \<noteq> of_nat 0" using len by (subst ids_distinct) auto
  then have nz: "qt_NextID t + 1 \<noteq> 0" "qt_NextID t + 1 = of_nat (Suc (length (qt_calls t)))"
    using IH by (simp_all add: ids_inv_def add.commute)
  have other: "k < length (qt_calls t) \<Longrightarrow> (of_nat (Suc k) :: u32) \<noteq> of_nat (Suc (length (qt_calls t)))" for k
    using len by (subst ids_distinct) auto
  show ?case
    using IH other unfolding ids_inv_def query_register_def Let_def nz(2)
    using nz nz(1) [unfolded add.commute [of _ 1]] IH by (auto simp: nth_append less_Suc_eq ids_inv_def)
next
  case (sent R t k)
  then show ?case by (intro ids_inv_phase) (auto simp: expecting_def set_phase_def set_call_def)
next
  case (not_sent R t k e)
  then show ?case by (intro ids_inv_phase) (auto simp: expecting_def set_phase_def set_call_def)
next
  case (arrive R t r)
  have IH: "ids_inv t" using arrive by (simp add: query_lookup_def split: option.splits)
  show ?case
  proof (cases "qt_pending t (qr_QueryID r)")
    case (Some k)
    then have "qc_ID (qt_calls t ! k) = qr_QueryID r" "k < length (qt_calls t)"
      using table_invD(1) [OF query_reach_inv [OF arrive.hyps]] by auto
    then show ?thesis using IH by (auto simp: ids_inv_def query_lookup_def Some)
  qed (use IH in \<open>simp add: query_lookup_def\<close>)
next
  case (put R t k r)
  note q = query_put_held [OF query_reach_inv [OF put.hyps(1)] put.hyps(2)]
  have k: "k < length (qt_calls t)" using table_invD(2) [OF query_reach_inv [OF put.hyps(1)] put.hyps(2)] by simp
  have IH: "ids_inv t" using put.IH put.prems by (simp add: q)
  obtain H where "qt_hands t = add_mset (k, r) H" using multi_member_split [OF put.hyps(2)] by blast
  then have rest: "k \<noteq> j \<Longrightarrow> j \<in> fst ` set_mset (qt_hands t - {#(k, r)#}) \<longleftrightarrow> j \<in> fst ` set_mset (qt_hands t)" for j
    by auto
  have "qt_NextID (query_put k r t) = qt_NextID t" by (simp add: query_put_def set_call_def)
  then show ?case
    using IH k unfolding ids_inv_def q by (auto simp: nth_list_update expecting_def rest)
next
  case (take R t k r)
  then have IH: "ids_inv t" by (simp add: query_take_def set_call_def)
  then show ?case
    using take.hyps(2) unfolding ids_inv_def query_take_def set_call_def
    by (auto simp: nth_list_update expecting_def)
next
  case (cancel R t k)
  then show ?case by (intro ids_inv_phase) (auto simp: expecting_def set_phase_def set_call_def)
next
  case (timeout R t k)
  then show ?case by (intro ids_inv_phase) (auto simp: expecting_def set_phase_def set_call_def)
next
  case (leave R t k out)
  have IH: "ids_inv t" and len: "length (qt_calls t) < 2 ^ 32"
    using leave by (simp_all add: query_leave_def set_phase_def set_call_def Let_def)
  have "j < length (qt_calls t) \<Longrightarrow> j \<noteq> k \<Longrightarrow> (of_nat (Suc j) :: u32) \<noteq> of_nat (Suc k)" for j
    using leave.hyps(2) len by (subst ids_distinct) auto
  then have "ids_inv (set_phase k (CallReturned out) (t\<lparr>qt_pending := (qt_pending t)(of_nat (Suc k) := None)\<rparr>))"
    using IH leave.hyps(2) by (auto simp: ids_inv_def set_phase_def set_call_def nth_list_update expecting_def)
  then show ?case using IH leave.hyps(2) by (simp add: query_leave_def Let_def ids_inv_def)
qed

text \<open>
  C6: A waiting query is answered: with fewer than 2^32 queries asked so far, when the response with the id of a
  query that is still sending or waiting, and has no answer on its way, comes out of the message loop, it is in the
  channel of exactly that query.
\<close>

theorem waiting_query_is_served:
  assumes "query_reach R (cl_queries c)" and "length (qt_calls (cl_queries c)) < 2 ^ 32"
    and "k < length (qt_calls (cl_queries c))" and "expecting (qt_calls (cl_queries c) ! k)"
    and "k \<notin># image_mset fst (qt_hands (cl_queries c))" and "qr_QueryID r = qc_ID (qt_calls (cl_queries c) ! k)"
    and "handle_message now (QueryResponse r) c = (goes_on, c')"
  shows "qt_calls (cl_queries c') =
    (qt_calls (cl_queries c))[k := (qt_calls (cl_queries c) ! k)\<lparr>qc_buf := Some r\<rparr>]"
proof -
  let ?t = "cl_queries c"
  have pend: "qt_pending ?t (qr_QueryID r) = Some k"
    using query_reach_ids [OF assms(1,2)] assms(3-6) by (simp add: ids_inv_def)
  have t': "query_reach (add_mset r R) (query_lookup r ?t)" by (rule arrive [OF assms(1)])
  have hand: "(k, r) \<in># qt_hands (query_lookup r ?t)" by (simp add: query_lookup_def pend)
  have "qt_calls (query_put k r (query_lookup r ?t)) = (qt_calls ?t)[k := (qt_calls ?t ! k)\<lparr>qc_buf := Some r\<rparr>]"
    using query_put_held(1) [OF query_reach_inv [OF t'] hand] by (simp add: query_lookup_def pend)
  then show ?thesis
    using assms(7) by (auto simp: handle_message_def Let_def route_response_def pend)
qed

section \<open>Connections that fail to shake hands\<close>

definition link_broke :: "handshake_error \<Rightarrow> bool" where
  "link_broke err \<longleftrightarrow> (case err of
       HandshakeNotSent e \<Rightarrow> e = SendFailed
     | HandshakeNotReceived (HeaderFailed e) \<Rightarrow> True
     | HandshakeNotReceived (PayloadFailed e) \<Rightarrow> True
     | _ \<Rightarrow> False)"

lemma Send_state:
  "Send msg cn = (r, cn') \<Longrightarrow> cn_state cn' = (if r = Inl SendFailed then StateError else cn_state cn)"
  by (auto simp: Send_def lock_conn_def lock_error_def Let_def split: sum.splits option.splits prod.splits if_splits)

lemma performHandshake_state:
  assumes "performHandshake connID cn = (Inl err, cn')" and "cn_state cn = StateConnected"
  shows "cn_state cn' = (if link_broke err then StateError else StateConnected)"
proof -
  let ?hs = "Handshake \<lparr>hs_ProtocolVersion = ProtocolVersion, hs_ConnectionID = connID, hs_Capabilities = []\<rparr>"
  obtain r1 cn1 where s: "Send ?hs cn = (r1, cn1)" by (cases "Send ?hs cn")
  obtain r2 cn2 where r: "Receive cn1 = (r2, cn2)" by (cases "Receive cn1")
  show ?thesis
    using assms(1) Send_state [OF s] Receive_state [OF r] assms(2)
    by (cases r1; cases r2) (auto simp: performHandshake_def s r link_broke_def split: Message.splits if_splits conn_error.splits)
qed

text \<open>
  A client whose handshake failed can still report that it is connected: unless the connection broke while the
  two handshakes were exchanged, a plugin that is turned away, for its version or for anything else it sent, is
  followed by a client that says it is connected, with a socket that is closed.
\<close>

theorem failed_handshake_looks_connected:
  assumes "performHandshake connID (AcceptConnection tcpConn NewConnection) = (Inl err, cn)"
    and "handleConnection now connID k tcpConn c = (started, c')"
  shows "\<not> started \<and> (IsConnected c' \<longleftrightarrow> \<not> link_broke err) \<and> fst (ClientSendCommand cmd c') \<noteq> Inr ()"
proof -
  have state: "cn_state cn = (if link_broke err then StateError else StateConnected)"
    using performHandshake_state [OF assms(1)] by (simp add: AcceptConnection_def)
  have c': "\<not> started" "cl_conn c' = Some k" "cl_conns c' k = close_socket cn"
    using assms by (auto simp: handleConnection_def on_conn_def Let_def)
  then have "IsConnected c' \<longleftrightarrow> \<not> link_broke err"
    using state by (simp add: IsConnected_def close_socket_def)
  moreover have "fst (ClientSendCommand cmd c') \<noteq> Inr ()"
    using c'(2,3) by (auto simp: ClientSendCommand_def on_conn_def Send_def lock_conn_def net_write_def Let_def close_socket_def
      split: sum.splits prod.splits option.splits if_splits)
  ultimately show ?thesis using c'(1) by blast
qed

text \<open>A full state that nobody has taken keeps later ones out of its channel: who asks again gets the old one.\<close>

lemma untaken_full_state_stays:
  "cl_fullStateCh c = [old] \<Longrightarrow> cl_fullStateCh (snd (handle_message now (FullState new) c)) = [old]"
  by (simp add: handle_message_def offer_def Let_def)

text \<open>After a plugin has reconnected, the heartbeat of its old connection ends without a message.\<close>

lemma replaced_heartbeat_ends:
  assumes "handleConnection now connID k tcpConn c = (started, c')" and "j \<noteq> k"
  shows "heartbeat_tick t1 t2 j c' = (False, c')"
  using assms by (auto simp: handleConnection_def on_conn_def heartbeat_tick_def heartbeatStale_def Let_def
      split: sum.splits prod.splits)

section \<open>Examples\<close>

definition pong :: QueryResponseMessage where
  "pong = \<lparr>qr_QueryID = 1, qr_Status = QueryStatusSuccess, qr_Data = [123, 125]\<rparr>"

text \<open>One query asked and sent; the same, answered and returned.\<close>

definition asked_once :: QueryTable where
  "asked_once = set_phase 0 CallWaiting (query_register NewQueryTable)"

definition answered_once :: QueryTable where
  "answered_once = query_leave 0 (Answered pong) (query_take 0 pong (query_put 0 pong (query_lookup pong asked_once)))"

lemmas query_ops = query_register_def query_lookup_def query_put_def query_take_def query_leave_def set_phase_def
  set_call_def Let_def NewQueryTable_def

lemma asked_once_reach: "query_reach {#} asked_once"
  unfolding asked_once_def by (rule sent [OF ask [OF start]]) (simp_all add: query_ops)

lemma answered_once_reach: "query_reach {#pong#} answered_once"
  unfolding answered_once_def
  by (rule leave [OF take [OF put [OF arrive [OF asked_once_reach]]]])
    (simp_all add: asked_once_def query_ops pong_def)

lemma answered_once_calls:
  "qt_calls answered_once = [\<lparr>qc_ID = 1, qc_buf = None, qc_phase = CallReturned (Answered pong)\<rparr>]"
  by (simp add: answered_once_def asked_once_def query_ops pong_def)

lemma query_answers_are_own_witness:
  "qr_QueryID pong = 1 \<and> answers answered_once \<subseteq># {#pong#} \<and> answers answered_once \<noteq> {#}"
  using query_answers_are_own [OF answered_once_reach] by (simp add: answered_once_calls answers_def answer_def)

lemma no_query_leaks_witness: "qt_pending answered_once = Map.empty"
  by (rule no_query_leaks [OF answered_once_reach]) (simp add: answered_once_calls returned_def)

lemma waiting_query_is_served_witness:
  "qc_buf (qt_calls (cl_queries (snd (handle_message 5 (QueryResponse pong) (NewClient\<lparr>cl_queries := asked_once\<rparr>)))) ! 0) = Some pong"
proof -
  let ?c = "NewClient\<lparr>cl_queries := asked_once\<rparr>"
  have reach: "query_reach {#} (cl_queries ?c)" by (simp add: asked_once_reach)
  have k: "length (qt_calls (cl_queries ?c)) < 2 ^ 32" "0 < length (qt_calls (cl_queries ?c))"
    "expecting (qt_calls (cl_queries ?c) ! 0)" "0 \<notin># image_mset fst (qt_hands (cl_queries ?c))"
    "qr_QueryID pong = qc_ID (qt_calls (cl_queries ?c) ! 0)"
    by (simp_all add: asked_once_def query_ops expecting_def pong_def)
  obtain on c' where run: "handle_message 5 (QueryResponse pong) ?c = (on, c')" by (cases "handle_message 5 (QueryResponse pong) ?c")
  show ?thesis using waiting_query_is_served [OF reach k run] k(2) by (simp add: run)
qed

text \<open>A plugin that answers the handshake with a goodbye.\<close>

lemma failed_handshake_looks_connected_witness:
  "IsConnected (snd (handleConnection 5 7 0 (wire_example\<lparr>nc_in := [0, 0, 0, 7, 1, 7, 0]\<rparr>) NewClient))"
proof -
  let ?nc = "wire_example\<lparr>nc_in := [0, 0, 0, 7, 1, 7, 0]\<rparr>"
  let ?hs = "Handshake \<lparr>hs_ProtocolVersion = ProtocolVersion, hs_ConnectionID = 7, hs_Capabilities = []\<rparr>"
  have ser: "SerializeMessage (Disconnect \<lparr>dc_Reason = 0\<rparr>) = Inr [0, 0, 0, 7, 1, 7, 0]"
    by (simp add: SerializeMessage_def validated_def validate_disconnect_def require_def serializeDisconnect_def const_defs
        put_u8_byte put_u32_bytes)
  obtain bs where bs: "SerializeMessage ?hs = Inr bs"
    by (auto simp: SerializeMessage_def validated_def validate_handshake_def require_def bindr_def)
  have sent: "Send ?hs (AcceptConnection ?nc NewConnection) = (Inr (), connected (?nc\<lparr>nc_out := bs\<rparr>))"
    by (simp add: Send_def bs AcceptConnection_def lock_connected_def lock_conn_def net_write_def wire_example_def
        NewConnection_def connected_def)
  have ok: "sendable (Disconnect \<lparr>dc_Reason = 0\<rparr>)" by (simp add: sendable_def ser maxFrame_def)
  have "Receive (connected (?nc\<lparr>nc_out := bs\<rparr>)) = (Inr (message_shown (Disconnect \<lparr>dc_Reason = 0\<rparr>)),
      connected ((?nc\<lparr>nc_out := bs\<rparr>)\<lparr>nc_in := []\<rparr>))"
    by (rule Receive_frame [OF ser ok]) simp
  then obtain cn where hs: "performHandshake 7 (AcceptConnection ?nc NewConnection) = (Inl (ExpectedHandshake MessageTypeDisconnect), cn)"
    by (simp add: performHandshake_def sent)
  obtain on c' where run: "handleConnection 5 7 0 ?nc NewClient = (on, c')" by (cases "handleConnection 5 7 0 ?nc NewClient")
  show ?thesis using failed_handshake_looks_connected [OF hs run] by (simp add: run link_broke_def)
qed

end
