(* ===== verification/Item_Clusters.thy ===== *)
theory Item_Clusters
  imports Go_Base "HOL-Library.Multiset" "HOL-Library.Product_Lexorder"
begin

text \<open>
  The piles of loose items of a view (\<open>mapview/items.go\<close>): tiles with items are grouped into 8-connected clusters by
  a depth-first search and sorted, the largest first. The text built from them is not modelled. Go's \<open>int\<close> counts
  are integers.
\<close>

section \<open>The search\<close>

type_synonym pos = "i16 \<times> i16"

record ItemCluster =
  ic_X1 :: i16
  ic_Y1 :: i16
  ic_X2 :: i16
  ic_Y2 :: i16
  ic_Tiles :: int
  ic_Items :: int

text \<open>The first loop: items per position, repeated positions added up, and the positions in order of appearance.\<close>

definition count_tile :: "(pos \<rightharpoonup> int) \<times> pos list \<Rightarrow> i16 \<times> i16 \<times> i16 \<Rightarrow> (pos \<rightharpoonup> int) \<times> pos list" where
  "count_tile = (\<lambda>(counts, order) (x, y, n).
     let p = (x, y) in
     (counts(p \<mapsto> (case counts p of None \<Rightarrow> 0 | Some k \<Rightarrow> k) + sint n),
      if counts p = None then order @ [p] else order))"

definition item_counts :: "(i16 \<times> i16 \<times> i16) list \<Rightarrow> (pos \<rightharpoonup> int) \<times> pos list" where
  "item_counts tiles = foldl count_tile (Map.empty, []) tiles"

definition nbr8 :: "pos \<Rightarrow> pos list" where
  "nbr8 p = [(fst p + dx, snd p + dy). dy \<leftarrow> [-1, 0, 1], dx \<leftarrow> [-1, 0, 1], \<not> (dx = 0 \<and> dy = 0)]"

text \<open>The stack has its top first.\<close>

definition push_tile :: "(pos \<rightharpoonup> int) \<Rightarrow> pos set \<times> pos list \<Rightarrow> pos \<Rightarrow> pos set \<times> pos list" where
  "push_tile counts = (\<lambda>(visited, stack) n.
     if counts n = None \<or> n \<in> visited then (visited, stack) else (insert n visited, n # stack))"

definition add_tile :: "(pos \<rightharpoonup> int) \<Rightarrow> pos \<Rightarrow> ItemCluster \<Rightarrow> ItemCluster" where
  "add_tile counts p c =
     (let c = c\<lparr>ic_Tiles := ic_Tiles c + 1\<rparr>;
          c = c\<lparr>ic_Items := ic_Items c + (case counts p of None \<Rightarrow> 0 | Some k \<Rightarrow> k)\<rparr>;
          c = (if slt (fst p) (ic_X1 c) then c\<lparr>ic_X1 := fst p\<rparr> else c);
          c = (if slt (ic_X2 c) (fst p) then c\<lparr>ic_X2 := fst p\<rparr> else c);
          c = (if slt (snd p) (ic_Y1 c) then c\<lparr>ic_Y1 := snd p\<rparr> else c);
          c = (if slt (ic_Y2 c) (snd p) then c\<lparr>ic_Y2 := snd p\<rparr> else c)
      in c)"

lemma push_skips: "counts n = None \<or> n \<in> V \<Longrightarrow> push_tile counts (V, st) n = (V, st)"
  by (simp add: push_tile_def)

lemma push_takes: "\<not> (counts n = None \<or> n \<in> V) \<Longrightarrow> push_tile counts (V, st) n = (insert n V, n # st)"
  by (simp add: push_tile_def)

lemma push_measure:
  fixes visited :: "pos set"
  shows "2 * card (- fst (foldl (push_tile counts) (visited, stack) ns)) + length (snd (foldl (push_tile counts) (visited, stack) ns))
    \<le> 2 * card (- visited) + length stack"
proof (induction ns arbitrary: visited stack)
  case (Cons n ns)
  show ?case
  proof (cases "counts n = None \<or> n \<in> visited")
    case False
    then have "card (- visited) = Suc (card (- visited - {n}))"
      by (intro card.remove) simp_all
    then have "card (- visited) = Suc (card (- insert n visited))" by (simp add: Compl_insert)
    moreover have "push_tile counts (visited, stack) n = (insert n visited, n # stack)"
      using False by (rule push_takes)
    ultimately show ?thesis using Cons.IH [of "insert n visited" "n # stack"] by simp
  qed (use Cons.IH push_skips in simp)
qed simp

function cluster_loop :: "(pos \<rightharpoonup> int) \<Rightarrow> pos set \<Rightarrow> pos list \<Rightarrow> ItemCluster \<Rightarrow> pos set \<times> ItemCluster" where
  "cluster_loop counts visited [] c = (visited, c)"
| "cluster_loop counts visited (p # stack) c =
     (let (visited', stack') = foldl (push_tile counts) (visited, stack) (nbr8 p)
      in cluster_loop counts visited' stack' (add_tile counts p c))"
  by pat_completeness auto
termination
proof (relation "measure (\<lambda>(counts, visited, stack, c). 2 * card (- visited) + length stack)")
  fix counts :: "pos \<rightharpoonup> int" and visited p stack c x visited' stack'
  assume "x = foldl (push_tile counts) (visited, stack) (nbr8 p)" and "(visited', stack') = x"
  then have "foldl (push_tile counts) (visited, stack) (nbr8 p) = (visited', stack')" by simp
  then show "((counts, visited', stack', add_tile counts p c), counts, visited, p # stack, c)
      \<in> measure (\<lambda>(counts, visited, stack, c). 2 * card (- visited) + length stack)"
    using push_measure [of counts visited stack "nbr8 p"] by simp
qed simp

definition cluster_from :: "(pos \<rightharpoonup> int) \<Rightarrow> pos set \<times> ItemCluster list \<Rightarrow> pos \<Rightarrow> pos set \<times> ItemCluster list" where
  "cluster_from counts = (\<lambda>(visited, out) seed.
     if seed \<in> visited then (visited, out)
     else case cluster_loop counts (insert seed visited) [seed]
         \<lparr>ic_X1 = fst seed, ic_Y1 = snd seed, ic_X2 = fst seed, ic_Y2 = snd seed, ic_Tiles = 0, ic_Items = 0\<rparr> of
       (visited, c) \<Rightarrow> (visited, out @ [c]))"

text \<open>The comparison of the stable sort: more items first, then the smaller \<open>X1\<close>, then the smaller \<open>Y1\<close>.\<close>

definition cluster_key :: "ItemCluster \<Rightarrow> int \<times> int \<times> int" where
  "cluster_key c = (- ic_Items c, sint (ic_X1 c), sint (ic_Y1 c))"

definition ClusterItemTiles :: "(i16 \<times> i16 \<times> i16) list \<Rightarrow> ItemCluster list" where
  "ClusterItemTiles tiles =
     (if tiles = [] then []
      else case item_counts tiles of (counts, order) \<Rightarrow>
        sort_key cluster_key (snd (foldl (cluster_from counts) ({}, []) order)))"

definition sumItemCounts :: "(i16 \<times> i16 \<times> i16) list \<Rightarrow> int" where
  "sumItemCounts tiles = foldl (\<lambda>n t. n + sint (snd (snd t))) 0 tiles"

section \<open>Connected components\<close>

definition adjacent :: "pos set \<Rightarrow> pos \<Rightarrow> pos \<Rightarrow> bool" where
  "adjacent S p q \<longleftrightarrow> p \<in> S \<and> q \<in> S \<and> p \<noteq> q \<and> fst q - fst p \<in> {- 1, 0, 1} \<and> snd q - snd p \<in> {- 1, 0, 1}"

definition pile_of :: "pos set \<Rightarrow> pos \<Rightarrow> pos set" where
  "pile_of S p = {q. (adjacent S)\<^sup>*\<^sup>* p q}"

lemma nbr8_mem:
  "q \<in> set (nbr8 p) \<longleftrightarrow> (\<exists>dx\<in>{- 1, 0, 1}. \<exists>dy\<in>{- 1, 0, 1}. \<not> (dx = 0 \<and> dy = 0) \<and> q = (fst p + dx, snd p + dy))"
  by (simp add: nbr8_def) blast

lemma adjacent_nbr8: "adjacent S p q \<longleftrightarrow> p \<in> S \<and> q \<in> S \<and> q \<in> set (nbr8 p)"
proof -
  have "p \<noteq> q \<and> fst q - fst p \<in> {- 1, 0, 1} \<and> snd q - snd p \<in> {- 1, 0, 1} \<longleftrightarrow> q \<in> set (nbr8 p)"
  proof
    assume l: "p \<noteq> q \<and> fst q - fst p \<in> {- 1, 0, 1} \<and> snd q - snd p \<in> {- 1, 0, 1}"
    moreover have "q = (fst p + (fst q - fst p), snd p + (snd q - snd p))" by simp
    moreover have "\<not> (fst q - fst p = 0 \<and> snd q - snd p = 0)" using l by (auto simp: prod_eq_iff)
    ultimately show "q \<in> set (nbr8 p)" unfolding nbr8_mem by blast
  next
    assume "q \<in> set (nbr8 p)"
    then obtain dx dy where d: "dx \<in> {- 1, 0, 1}" "dy \<in> {- 1, 0, 1}" "\<not> (dx = 0 \<and> dy = 0)" "q = (fst p + dx, snd p + dy)"
      unfolding nbr8_mem by blast
    then show "p \<noteq> q \<and> fst q - fst p \<in> {- 1, 0, 1} \<and> snd q - snd p \<in> {- 1, 0, 1}"
      by (cases p) auto
  qed
  then show ?thesis by (auto simp: adjacent_def)
qed

lemma nbr8_sym:
  assumes "q \<in> set (nbr8 p)"
  shows "p \<in> set (nbr8 q)"
proof -
  obtain dx dy where d: "dx \<in> {- 1, 0, 1}" "dy \<in> {- 1, 0, 1}" "\<not> (dx = 0 \<and> dy = 0)" "q = (fst p + dx, snd p + dy)"
    using assms nbr8_mem by blast
  then have "p = (fst q + - dx, snd q + - dy)" "\<not> (- dx = 0 \<and> - dy = 0)" "- dx \<in> {- 1, 0, 1}" "- dy \<in> {- 1, 0, 1}"
    by auto
  then show ?thesis unfolding nbr8_mem by blast
qed

lemma adjacent_sym: "adjacent S p q \<Longrightarrow> adjacent S q p"
  using nbr8_sym by (auto simp: adjacent_nbr8)

lemma connected_sym: "(adjacent S)\<^sup>*\<^sup>* p q \<Longrightarrow> (adjacent S)\<^sup>*\<^sup>* q p"
  by (induction rule: rtranclp_induct) (auto intro: converse_rtranclp_into_rtranclp adjacent_sym)

lemma pile_of_refl: "p \<in> pile_of S p"
  by (simp add: pile_of_def)

lemma pile_of_sub: "p \<in> S \<Longrightarrow> pile_of S p \<subseteq> S"
  unfolding pile_of_def by (auto elim: rtranclp.cases simp: adjacent_nbr8)

lemma pile_of_eq: "q \<in> pile_of S p \<Longrightarrow> pile_of S q = pile_of S p"
  unfolding pile_of_def by (auto intro: rtranclp_trans connected_sym dest: connected_sym)

text \<open>A set of piles contains the neighbours of its tiles.\<close>

definition closed_in :: "pos set \<Rightarrow> pos set \<Rightarrow> bool" where
  "closed_in S V \<longleftrightarrow> (\<forall>p\<in>V. \<forall>q\<in>S. q \<in> set (nbr8 p) \<longrightarrow> q \<in> V)"

section \<open>The search finds the pile\<close>

lemma push_tiles:
  "\<exists>new. foldl (push_tile counts) (V, st) ns = (V \<union> set new, new @ st) \<and> distinct new \<and>
     set new = {n \<in> set ns. n \<in> dom counts \<and> n \<notin> V}"
proof (induction ns arbitrary: V st)
  case (Cons n ns)
  show ?case
  proof (cases "counts n = None \<or> n \<in> V")
    case True
    then show ?thesis using Cons.IH [of V st] push_skips [of counts n V st] by auto
  next
    case False
    obtain new where "foldl (push_tile counts) (insert n V, n # st) ns = (insert n V \<union> set new, new @ n # st)"
      "distinct new" "set new = {m \<in> set ns. m \<in> dom counts \<and> m \<notin> insert n V}"
      using Cons.IH [of "insert n V" "n # st"] by blast
    then show ?thesis using False push_takes [of counts n V st] by (intro exI [of _ "new @ [n]"]) auto
  qed
qed simp

lemma cluster_loop_spec:
  assumes "cluster_loop counts V st c = (W, c')" and "distinct st" and "set st \<subseteq> V" and "set st \<subseteq> dom counts"
  shows "\<exists>P. distinct P \<and> set st \<subseteq> set P \<and> set P \<inter> (V - set st) = {} \<and> set P \<subseteq> dom counts \<and> W = V \<union> set P \<and>
    c' = fold (add_tile counts) P c \<and> (\<forall>p\<in>set P. \<forall>q\<in>dom counts. q \<in> set (nbr8 p) \<longrightarrow> q \<in> W) \<and>
    (\<forall>p\<in>set P. \<exists>s\<in>set st. (adjacent (dom counts))\<^sup>*\<^sup>* s p)"
  using assms
proof (induction counts V st c rule: cluster_loop.induct)
  case (1 counts V c)
  then show ?case by (intro exI [of _ "[]"]) auto
next
  case (2 counts V p st c)
  obtain new where push: "foldl (push_tile counts) (V, st) (nbr8 p) = (V \<union> set new, new @ st)"
    and new: "distinct new" "set new = {n \<in> set (nbr8 p). n \<in> dom counts \<and> n \<notin> V}"
    using push_tiles [of counts V st "nbr8 p"] by blast
  have run: "cluster_loop counts (V \<union> set new) (new @ st) (add_tile counts p c) = (W, c')"
    using "2.prems"(1) by (simp add: push)
  have pre: "distinct (new @ st)" "set (new @ st) \<subseteq> V \<union> set new" "set (new @ st) \<subseteq> dom counts"
    using "2.prems" new by auto
  obtain P where P: "distinct P" "set (new @ st) \<subseteq> set P" "set P \<inter> (V \<union> set new - set (new @ st)) = {}"
    "set P \<subseteq> dom counts" "W = V \<union> set new \<union> set P" "c' = fold (add_tile counts) P (add_tile counts p c)"
    "\<forall>x\<in>set P. \<forall>q\<in>dom counts. q \<in> set (nbr8 x) \<longrightarrow> q \<in> W"
    "\<forall>x\<in>set P. \<exists>s\<in>set (new @ st). (adjacent (dom counts))\<^sup>*\<^sup>* s x"
    using "2.IH" [OF push [symmetric] refl run pre] by blast
  have p: "p \<in> V" "p \<notin> set st" "p \<notin> set new" "p \<in> dom counts" using "2.prems" new by auto
  have W: "W = V \<union> set (p # P)" using P(2,5) p(1) by auto
  have adj: "adjacent (dom counts) p s" if "s \<in> set new" for s using that new(2) p(4) by (auto simp: adjacent_nbr8)
  have reach: "\<exists>s\<in>set (p # st). (adjacent (dom counts))\<^sup>*\<^sup>* s x" if x: "x \<in> set (p # P)" for x
  proof (cases "x = p")
    case False
    then obtain s where s: "s \<in> set (new @ st)" "(adjacent (dom counts))\<^sup>*\<^sup>* s x" using x P(8) by (metis set_ConsD)
    show ?thesis
    proof (cases "s \<in> set new")
      case True
      then have "(adjacent (dom counts))\<^sup>*\<^sup>* p x"
        by (intro converse_rtranclp_into_rtranclp [OF _ s(2)] adj)
      then show ?thesis by (intro bexI [of _ p]) simp_all
    next
      case False
      then show ?thesis using s by (intro bexI [of _ s]) simp_all
    qed
  qed auto
  have close: "q \<in> W" if q: "x \<in> set (p # P)" "q \<in> dom counts" "q \<in> set (nbr8 x)" for x q
  proof (cases "x = p")
    case True
    then have "q \<in> V \<union> set new" using q new(2) by blast
    then show ?thesis using P(5) by blast
  next
    case False
    then show ?thesis using q P(7) by (metis set_ConsD)
  qed
  show ?case
  proof (intro exI [of _ "p # P"] conjI)
    show "distinct (p # P)" "set (p # P) \<inter> (V - set (p # st)) = {}"
      using P(1,3) p new(2) by auto
  qed (use P W reach close p in auto)
qed

lemma cluster_finds_pile:
  assumes "cluster_loop counts (insert seed V) [seed] c = (W, c')" and "seed \<in> dom counts" and "seed \<notin> V"
    and "closed_in (dom counts) V" and "V \<subseteq> dom counts"
  shows "\<exists>P. distinct P \<and> set P = pile_of (dom counts) seed \<and> W = V \<union> set P \<and> closed_in (dom counts) W \<and>
    V \<inter> set P = {} \<and> c' = fold (add_tile counts) P c"
proof -
  let ?S = "dom counts"
  obtain P where P: "distinct P" "seed \<in> set P" "set P \<inter> (insert seed V - {seed}) = {}" "set P \<subseteq> ?S"
    "W = insert seed V \<union> set P" "c' = fold (add_tile counts) P c"
    "\<forall>p\<in>set P. \<forall>q\<in>?S. q \<in> set (nbr8 p) \<longrightarrow> q \<in> W" "\<forall>p\<in>set P. (adjacent ?S)\<^sup>*\<^sup>* seed p"
    using cluster_loop_spec [OF assms(1)] assms(2) by auto
  have away: "V \<inter> set P = {}" using P(3) assms(3) by auto
  have step: "q \<in> set P" if "p \<in> set P" "adjacent ?S p q" for p q
  proof -
    have "q \<in> W" using that P(7) by (auto simp: adjacent_nbr8)
    moreover have "q \<notin> V"
      using that away assms(4) adjacent_sym [OF that(2)] by (auto simp: closed_in_def adjacent_nbr8)
    ultimately show ?thesis using P(2,5) by auto
  qed
  have "q \<in> set P" if "(adjacent ?S)\<^sup>*\<^sup>* seed q" for q
    using that P(2) by (induction rule: rtranclp_induct) (auto intro: step)
  then have "set P = pile_of ?S seed" using P(8) by (auto simp: pile_of_def)
  moreover have "W = V \<union> set P" using P(2,5) by auto
  moreover have "closed_in ?S W" using P(2,7) assms(4) P(5) unfolding closed_in_def by blast
  ultimately show ?thesis using P(1,6) away by blast
qed

section \<open>What a cluster tells of its pile\<close>

definition positions :: "(i16 \<times> i16 \<times> i16) list \<Rightarrow> pos set" where
  "positions tiles = (\<lambda>(x, y, n). (x, y)) ` set tiles"

text \<open>All the items reported on a set of positions.\<close>

definition items_on :: "(i16 \<times> i16 \<times> i16) list \<Rightarrow> pos set \<Rightarrow> int" where
  "items_on tiles C = sum_list (map (\<lambda>(x, y, n). if (x, y) \<in> C then sint n else 0) tiles)"

definition describes :: "(i16 \<times> i16 \<times> i16) list \<Rightarrow> pos set \<Rightarrow> ItemCluster \<Rightarrow> bool" where
  "describes tiles C c \<longleftrightarrow> ic_Tiles c = int (card C) \<and> ic_Items c = items_on tiles C \<and>
     (\<forall>(x, y) \<in> C. sint (ic_X1 c) \<le> sint x \<and> sint x \<le> sint (ic_X2 c) \<and> sint (ic_Y1 c) \<le> sint y \<and> sint y \<le> sint (ic_Y2 c)) \<and>
     ic_X1 c \<in> fst ` C \<and> ic_X2 c \<in> fst ` C \<and> ic_Y1 c \<in> snd ` C \<and> ic_Y2 c \<in> snd ` C"

definition piles :: "(i16 \<times> i16 \<times> i16) list \<Rightarrow> pos set set" where
  "piles tiles = pile_of (positions tiles) ` positions tiles"

lemma piles_sub: "C \<in> piles tiles \<Longrightarrow> C \<subseteq> positions tiles"
  unfolding piles_def using pile_of_sub by blast

lemma add_tile_fields [simp]:
  "ic_Tiles (add_tile counts p c) = ic_Tiles c + 1"
  "ic_Items (add_tile counts p c) = ic_Items c + (case counts p of None \<Rightarrow> 0 | Some k \<Rightarrow> k)"
  "ic_X1 (add_tile counts p c) = (if slt (fst p) (ic_X1 c) then fst p else ic_X1 c)"
  "ic_X2 (add_tile counts p c) = (if slt (ic_X2 c) (fst p) then fst p else ic_X2 c)"
  "ic_Y1 (add_tile counts p c) = (if slt (snd p) (ic_Y1 c) then snd p else ic_Y1 c)"
  "ic_Y2 (add_tile counts p c) = (if slt (ic_Y2 c) (snd p) then snd p else ic_Y2 c)"
  by (simp_all add: add_tile_def Let_def)

lemma fold_add_tile:
  "ic_Tiles (fold (add_tile counts) P c) = ic_Tiles c + int (length P)"
  "ic_Items (fold (add_tile counts) P c) = ic_Items c + sum_list (map (\<lambda>p. case counts p of None \<Rightarrow> 0 | Some k \<Rightarrow> k) P)"
  by (induction P arbitrary: c) simp_all

lemma fold_add_box:
  fixes counts P c
  defines "d \<equiv> fold (add_tile counts) P c"
  shows "(\<forall>p\<in>set P. sint (ic_X1 d) \<le> sint (fst p)) \<and> ic_X1 d \<in> insert (ic_X1 c) (fst ` set P)"
    and "(\<forall>p\<in>set P. sint (fst p) \<le> sint (ic_X2 d)) \<and> ic_X2 d \<in> insert (ic_X2 c) (fst ` set P)"
    and "(\<forall>p\<in>set P. sint (ic_Y1 d) \<le> sint (snd p)) \<and> ic_Y1 d \<in> insert (ic_Y1 c) (snd ` set P)"
    and "(\<forall>p\<in>set P. sint (snd p) \<le> sint (ic_Y2 d)) \<and> ic_Y2 d \<in> insert (ic_Y2 c) (snd ` set P)"
  unfolding d_def by (induction P rule: rev_induct; force simp: slt_def)+

lemma item_counts_spec:
  assumes "item_counts tiles = (counts, order)"
  shows "set order = positions tiles \<and> distinct order \<and> dom counts = positions tiles \<and>
    (\<forall>p. (case counts p of None \<Rightarrow> 0 | Some k \<Rightarrow> k) = items_on tiles {p})"
  using assms
proof (induction tiles arbitrary: counts order rule: rev_induct)
  case Nil
  then show ?case by (auto simp: item_counts_def positions_def items_on_def)
next
  case (snoc t tiles)
  obtain x y n where t: "t = (x, y, n)" by (cases t)
  obtain counts' order' where prev: "item_counts tiles = (counts', order')" by (cases "item_counts tiles")
  note IH = snoc.IH [OF prev]
  have new: "counts = counts'((x, y) \<mapsto> (case counts' (x, y) of None \<Rightarrow> 0 | Some k \<Rightarrow> k) + sint n)"
    "order = (if counts' (x, y) = None then order' @ [(x, y)] else order')"
    using snoc.prems prev by (simp_all add: item_counts_def count_tile_def t Let_def)
  have "positions (tiles @ [t]) = insert (x, y) (positions tiles)" by (simp add: positions_def t)
  moreover have "items_on (tiles @ [t]) {p} = items_on tiles {p} + (if p = (x, y) then sint n else 0)" for p
    by (auto simp: items_on_def t)
  moreover have "(x, y) \<in> positions tiles \<longleftrightarrow> counts' (x, y) \<noteq> None" using IH by blast
  moreover have "dom counts = insert (x, y) (dom counts')" by (simp add: new(1))
  moreover have "(case counts p of None \<Rightarrow> 0 | Some k \<Rightarrow> k) =
      (case counts' p of None \<Rightarrow> 0 | Some k \<Rightarrow> k) + (if p = (x, y) then sint n else 0)" for p
    by (simp add: new(1))
  ultimately show ?case
    using IH by (simp add: new(2) insert_absorb)
qed

lemma items_on_sum: "finite C \<Longrightarrow> items_on tiles C = (\<Sum>p\<in>C. items_on tiles {p})"
proof (induction tiles)
  case (Cons t tiles)
  obtain x y n where t: "t = (x, y, n)" by (cases t)
  have "(\<Sum>p\<in>C. if (x, y) = p then sint n else 0) = (if (x, y) \<in> C then sint n else 0)"
    using Cons.prems by simp
  then show ?case using Cons by (simp add: items_on_def t sum.distrib)
qed (simp add: items_on_def)

lemma pile_described:
  assumes "item_counts tiles = (counts, order)" and "distinct P" and "seed \<in> set P"
  shows "describes tiles (set P) (fold (add_tile counts) P
    \<lparr>ic_X1 = fst seed, ic_Y1 = snd seed, ic_X2 = fst seed, ic_Y2 = snd seed, ic_Tiles = 0, ic_Items = 0\<rparr>)"
proof -
  have "(\<lambda>p. case counts p of None \<Rightarrow> 0 | Some k \<Rightarrow> k) = (\<lambda>p. items_on tiles {p})"
    using item_counts_spec [OF assms(1)] by blast
  then have "sum_list (map (\<lambda>p. case counts p of None \<Rightarrow> 0 | Some k \<Rightarrow> k) P) = items_on tiles (set P)"
    using assms(2) by (simp only: items_on_sum [OF finite_set] sum_list_distinct_conv_sum_set)
  then show ?thesis
    using fold_add_box [where P = P and counts = counts and c = "\<lparr>ic_X1 = fst seed, ic_Y1 = snd seed, ic_X2 = fst seed, ic_Y2 = snd seed, ic_Tiles = 0, ic_Items = 0\<rparr>"] assms(2,3)
    unfolding describes_def by (auto simp: fold_add_tile distinct_card [symmetric])
qed

section \<open>All piles, each once\<close>

lemma clusters_of_order:
  assumes counts: "item_counts tiles = (counts, order)" and "foldl (cluster_from counts) (V, out) seeds = (W, out')"
    and "set seeds \<subseteq> dom counts" and "V = \<Union> (set done)" and "set done \<subseteq> piles tiles" and "distinct done"
    and "closed_in (dom counts) V" and "list_all2 (describes tiles) done out"
  shows "\<exists>all. distinct all \<and> set all \<subseteq> piles tiles \<and> \<Union> (set all) = W \<and> V \<union> set seeds \<subseteq> W \<and> list_all2 (describes tiles) all out'"
  using assms(2-)
proof (induction seeds arbitrary: V out "done")
  case Nil
  then show ?case by auto
next
  case (Cons seed seeds)
  have S: "dom counts = positions tiles" using item_counts_spec [OF counts] by blast
  have V: "V \<subseteq> dom counts" using Cons.prems(3,4) S piles_sub by blast
  show ?case
  proof (cases "seed \<in> V")
    case True
    then have "foldl (cluster_from counts) (V, out) seeds = (W, out')" using Cons.prems(1) by (simp add: cluster_from_def)
    then show ?thesis using Cons.IH [OF _ _ Cons.prems(3-7)] Cons.prems(2) True by fastforce
  next
    case False
    obtain V' c where run: "cluster_loop counts (insert seed V) [seed]
        \<lparr>ic_X1 = fst seed, ic_Y1 = snd seed, ic_X2 = fst seed, ic_Y2 = snd seed, ic_Tiles = 0, ic_Items = 0\<rparr> = (V', c)"
      by (cases "cluster_loop counts (insert seed V) [seed]
        \<lparr>ic_X1 = fst seed, ic_Y1 = snd seed, ic_X2 = fst seed, ic_Y2 = snd seed, ic_Tiles = 0, ic_Items = 0\<rparr>")
    have seed: "seed \<in> dom counts" using Cons.prems(2) by simp
    obtain P where P: "distinct P" "set P = pile_of (dom counts) seed" "V' = V \<union> set P" "closed_in (dom counts) V'"
      "V \<inter> set P = {}" "c = fold (add_tile counts) P
        \<lparr>ic_X1 = fst seed, ic_Y1 = snd seed, ic_X2 = fst seed, ic_Y2 = snd seed, ic_Tiles = 0, ic_Items = 0\<rparr>"
      using cluster_finds_pile [OF run seed False Cons.prems(6) V] by blast
    have rest: "foldl (cluster_from counts) (V', out @ [c]) seeds = (W, out')"
      using Cons.prems(1) False run by (simp add: cluster_from_def)
    have mem: "seed \<in> set P" using P(2) pile_of_refl by simp
    have "describes tiles (set P) c" using pile_described [OF counts P(1) mem] P(6) by simp
    moreover have "set P \<in> piles tiles" using P(2) S seed by (auto simp: piles_def)
    moreover have "set P \<notin> set done" using mem P(5) Cons.prems(3) by auto
    moreover have "V' = \<Union> (set (done @ [set P]))" using P(3) Cons.prems(3) by auto
    moreover have "set seeds \<subseteq> dom counts" using Cons.prems(2) by simp
    ultimately obtain all where "distinct all" "set all \<subseteq> piles tiles" "\<Union> (set all) = W" "V' \<union> set seeds \<subseteq> W"
      "list_all2 (describes tiles) all out'"
      using Cons.IH [OF rest, of "done @ [set P]"] Cons.prems(4,5,7) P(4) by (simp add: list_all2_appendI) blast
    then show ?thesis using mem P(3) by (intro exI [of _ all]) auto
  qed
qed

text \<open>
  The reported clusters are the piles on the floor: they correspond one to one to the 8-connected groups of
  positions with items, each with the size of its group, all the items reported there, also where a position was
  reported twice, and its exact bounding box, and they come sorted, most items first.
\<close>

theorem clusters_are_piles:
  "\<exists>groups. distinct groups \<and> set groups = piles tiles \<and> list_all2 (describes tiles) groups (ClusterItemTiles tiles) \<and>
     sorted (map cluster_key (ClusterItemTiles tiles))"
proof (cases "tiles = []")
  case True
  then show ?thesis by (simp add: ClusterItemTiles_def piles_def positions_def)
next
  case False
  obtain counts order where counts: "item_counts tiles = (counts, order)" by (cases "item_counts tiles")
  note spec = item_counts_spec [OF counts]
  obtain W out where run: "foldl (cluster_from counts) ({}, []) order = (W, out)"
    by (cases "foldl (cluster_from counts) ({}, []) order")
  obtain all where all: "distinct all" "set all \<subseteq> piles tiles" "\<Union> (set all) = W" "set order \<subseteq> W"
    "list_all2 (describes tiles) all out"
    using clusters_of_order [OF counts run, of "[]"] spec by (auto simp: closed_in_def)
  have "C \<in> set all" if "C \<in> piles tiles" for C
  proof -
    from that obtain p where p: "p \<in> positions tiles" "C = pile_of (positions tiles) p" by (auto simp: piles_def)
    then obtain D where D: "D \<in> set all" "p \<in> D" using all(3,4) spec by blast
    then obtain q where "D = pile_of (positions tiles) q" using all(2) by (auto simp: piles_def)
    then show ?thesis using D p(2) pile_of_eq by metis
  qed
  then have "set all = piles tiles" using all(2) by blast
  moreover have "list_all2 (\<lambda>c C. describes tiles C c) out all" using all(5) by (simp add: list_all2_conv_all_nth)
  then obtain groups where "list_all2 (describes tiles) groups (sort_key cluster_key out)" "mset groups = mset all"
    using list_all2_reorder_left_invariance [of "\<lambda>c C. describes tiles C c" out all "sort_key cluster_key out"]
    by (auto simp: list_all2_conv_all_nth)
  moreover have "ClusterItemTiles tiles = sort_key cluster_key out"
    using False counts run by (simp add: ClusterItemTiles_def)
  ultimately show ?thesis
    using all(1) by (metis mset_eq_imp_distinct_iff mset_eq_setD sorted_sort_key)
qed

end
