(* ===== verification/Mapview.thy ===== *)
theory Mapview
  imports Item_Clusters "HOL-Library.List_Lexorder"
begin

text \<open>
  Views of the map (\<open>internal/mapview\<close>, and \<open>fetchStitchedRegion\<close> of \<open>mcpserver/tools_percept.go\<close>): a region larger
  than the plugin sends at once is fetched in blocks and stitched together (\<open>stitch.go\<close>), large views are reduced to
  the most frequent glyph of each square (\<open>downsample.go\<close>), and a column of levels is searched for its surface
  (\<open>types.go\<close>). A row is a list of characters: bytes where the code takes its length, code points where it converts
  to runes. The text around the grids is not modelled.
\<close>

section \<open>Slices\<close>

record 'c Slice =
  sl_Z :: i16
  sl_X1 :: i16
  sl_Y1 :: i16
  sl_Rows :: "'c list list"
  sl_Designated :: "(i16 \<times> i16) list"
  sl_Water :: "(i16 \<times> i16 \<times> i16) list"
  sl_Aquifer :: "(i16 \<times> i16) list"
  sl_DesignationKinds :: "(i16 \<times> i16 \<times> i16) list"
  sl_Smoothed :: "(i16 \<times> i16) list"
  sl_FloorItems :: "(i16 \<times> i16 \<times> i16) list"
  sl_StockpileTilesInView :: "int option"
  sl_StockpileTilesOccupied :: "int option"
  sl_FloorItemsNoStock :: "(i16 \<times> i16 \<times> i16) list"
  sl_FloorItemsNoStockCapped :: bool
  sl_FloorItemClasses :: "(i16 \<times> i16 \<times> i16) list"
  sl_FloorItemClassNames :: "string list"
  sl_PendingBuilding :: "(i16 \<times> i16) list"
  sl_Minerals :: "(i16 \<times> i16 \<times> i16) list"
  sl_MineralNames :: "string list"

definition new_slice :: "i16 \<Rightarrow> i16 \<Rightarrow> i16 \<Rightarrow> 'c list list \<Rightarrow> 'c Slice" where
  "new_slice z x1 y1 rows = \<lparr>sl_Z = z, sl_X1 = x1, sl_Y1 = y1, sl_Rows = rows, sl_Designated = [], sl_Water = [],
     sl_Aquifer = [], sl_DesignationKinds = [], sl_Smoothed = [], sl_FloorItems = [], sl_StockpileTilesInView = None,
     sl_StockpileTilesOccupied = None, sl_FloorItemsNoStock = [], sl_FloorItemsNoStockCapped = False,
     sl_FloorItemClasses = [], sl_FloorItemClassNames = [], sl_PendingBuilding = [], sl_Minerals = [],
     sl_MineralNames = []\<rparr>"

section \<open>Stitching\<close>

datatype stitch_error =
    EmptyGrid | RaggedGrid nat | NilBlock nat nat | MismatchedZ nat nat | EmptyBlock nat nat
  | MismatchedHeight nat nat | MismatchedWidth nat

fun check_ragged :: "nat \<Rightarrow> nat \<Rightarrow> 'c Slice option list list \<Rightarrow> stitch_error option" where
  "check_ragged cols r [] = None"
| "check_ragged cols r (row # grid) = (if length row \<noteq> cols then Some (RaggedGrid r) else check_ragged cols (Suc r) grid)"

text \<open>The blocks of one tile row; the result is its height, None before the first block.\<close>

fun check_blocks :: "i16 \<Rightarrow> nat \<Rightarrow> nat \<Rightarrow> nat option \<Rightarrow> 'c Slice option list \<Rightarrow> stitch_error + nat option" where
  "check_blocks z r c height [] = Inr height"
| "check_blocks z r c height (None # blks) = Inl (NilBlock r c)"
| "check_blocks z r c height (Some blk # blks) =
     (if sl_Z blk \<noteq> z then Inl (MismatchedZ r c)
      else if sl_Rows blk = [] then Inl (EmptyBlock r c)
      else case height of
        None \<Rightarrow> check_blocks z r (Suc c) (Some (length (sl_Rows blk))) blks
      | Some h \<Rightarrow> if length (sl_Rows blk) \<noteq> h then Inl (MismatchedHeight r c)
                  else check_blocks z r (Suc c) (Some h) blks)"

definition block_row :: "'c Slice option list \<Rightarrow> nat \<Rightarrow> 'c list" where
  "block_row tileRow gr = concat (map (\<lambda>b. case b of None \<Rightarrow> [] | Some blk \<Rightarrow> sl_Rows blk ! gr) tileRow)"

text \<open>Lines are added as long as they have the width of the first line of all.\<close>

fun add_lines :: "nat \<Rightarrow> 'c list list \<Rightarrow> nat option \<times> 'c list list \<Rightarrow> stitch_error + nat option \<times> 'c list list" where
  "add_lines r [] acc = Inr acc"
| "add_lines r (line # ls) (wantWidth, rows) = (case wantWidth of
     None \<Rightarrow> add_lines r ls (Some (length line), rows @ [line])
   | Some w \<Rightarrow> if length line \<noteq> w then Inl (MismatchedWidth r) else add_lines r ls (Some w, rows @ [line]))"

fun stitch_rows :: "i16 \<Rightarrow> nat \<Rightarrow> 'c Slice option list list \<Rightarrow> nat option \<times> 'c list list \<Rightarrow> stitch_error + nat option \<times> 'c list list" where
  "stitch_rows z r [] acc = Inr acc"
| "stitch_rows z r (tileRow # grid) acc = (case check_blocks z r 0 None tileRow of
     Inl e \<Rightarrow> Inl e
   | Inr height \<Rightarrow>
     (case add_lines r (map (block_row tileRow) [0..<(case height of None \<Rightarrow> 0 | Some h \<Rightarrow> h)]) acc of
        Inl e \<Rightarrow> Inl e
      | Inr acc \<Rightarrow> stitch_rows z (Suc r) grid acc))"

text \<open>A block's class names enter the common table; the result maps the block's indices to it.\<close>

definition remap_class :: "(string \<rightharpoonup> nat) \<times> string list \<times> nat list \<Rightarrow> string \<Rightarrow> (string \<rightharpoonup> nat) \<times> string list \<times> nat list" where
  "remap_class = (\<lambda>(classIndex, names, remap) name. case classIndex name of
     Some idx \<Rightarrow> (classIndex, names, remap @ [idx])
   | None \<Rightarrow> (classIndex(name \<mapsto> length names), names @ [name], remap @ [length names]))"

definition remap_entries :: "nat list \<Rightarrow> (i16 \<times> i16 \<times> i16) list \<Rightarrow> (i16 \<times> i16 \<times> i16) list" where
  "remap_entries remap fcs = concat (map (\<lambda>(x, y, i).
     if sint i < 0 \<or> sint i \<ge> int (length remap) then [] else [(x, y, of_nat (remap ! nat (sint i)))]) fcs)"

text \<open>The second loop: the map of classes, whether every block was measured, the two sums, and the result so far.\<close>

definition merge_block ::
  "'c Slice \<Rightarrow> (string \<rightharpoonup> nat) \<times> bool \<times> int \<times> int \<times> 'c Slice \<Rightarrow> (string \<rightharpoonup> nat) \<times> bool \<times> int \<times> int \<times> 'c Slice" where
  "merge_block blk = (\<lambda>(classIndex, allMeasured, spInView, spOccupied, out).
     let out = out\<lparr>sl_Designated := sl_Designated out @ sl_Designated blk, sl_Water := sl_Water out @ sl_Water blk,
           sl_Aquifer := sl_Aquifer out @ sl_Aquifer blk,
           sl_DesignationKinds := sl_DesignationKinds out @ sl_DesignationKinds blk,
           sl_Smoothed := sl_Smoothed out @ sl_Smoothed blk, sl_FloorItems := sl_FloorItems out @ sl_FloorItems blk,
           sl_FloorItemsNoStock := sl_FloorItemsNoStock out @ sl_FloorItemsNoStock blk,
           sl_FloorItemsNoStockCapped := sl_FloorItemsNoStockCapped out \<or> sl_FloorItemsNoStockCapped blk\<rparr>;
         (allMeasured, spInView, spOccupied) = (case sl_StockpileTilesInView blk of
             None \<Rightarrow> (False, spInView, spOccupied)
           | Some v \<Rightarrow> (allMeasured, spInView + v,
               spOccupied + (case sl_StockpileTilesOccupied blk of None \<Rightarrow> 0 | Some n \<Rightarrow> n)));
         (classIndex, names, remap) = foldl remap_class (classIndex, sl_FloorItemClassNames out, []) (sl_FloorItemClassNames blk);
         out = out\<lparr>sl_FloorItemClassNames := names,
           sl_FloorItemClasses := sl_FloorItemClasses out @ remap_entries remap (sl_FloorItemClasses blk)\<rparr>
     in (classIndex, allMeasured, spInView, spOccupied, out))"

definition StitchSlices :: "'c Slice option list list \<Rightarrow> stitch_error + 'c Slice" where
  "StitchSlices grid = (case grid of
       [] \<Rightarrow> Inl EmptyGrid
     | [] # _ \<Rightarrow> Inl EmptyGrid
     | (first # _) # _ \<Rightarrow>
       (case check_ragged (length (hd grid)) 0 grid of
          Some e \<Rightarrow> Inl e
        | None \<Rightarrow>
          (case first of
             None \<Rightarrow> Inl (NilBlock 0 0)
           | Some f \<Rightarrow>
             (case stitch_rows (sl_Z f) 0 grid (None, []) of
                Inl e \<Rightarrow> Inl e
              | Inr (_, rows) \<Rightarrow>
                let out = new_slice (sl_Z f) (sl_X1 f) (sl_Y1 f) rows;
                    (_, allMeasured, spInView, spOccupied, out) =
                      fold merge_block (List.map_filter id (concat grid)) (Map.empty, True, 0, 0, out)
                in Inr (if allMeasured
                        then out\<lparr>sl_StockpileTilesInView := Some spInView, sl_StockpileTilesOccupied := Some spOccupied\<rparr>
                        else out)))))"

section \<open>Fetching a region in blocks\<close>

definition blockFetchMax :: i16 where "blockFetchMax = 48"

datatype 'e fetch_error = BlockFailed "i16 \<times> i16 \<times> i16 \<times> i16" 'e | StitchFailed stitch_error

text \<open>
  The two loops. The plugin's answers at the level in question are the argument \<open>MapSlice\<close>. A counter that wraps
  around can keep a loop from ending, unless a block fails.
\<close>

partial_function (option) fetch_row ::
  "(i16 \<Rightarrow> i16 \<Rightarrow> i16 \<Rightarrow> i16 \<Rightarrow> 'e + 'c Slice) \<Rightarrow> i16 \<Rightarrow> i16 \<Rightarrow> i16 \<Rightarrow> i16 \<Rightarrow> ('e fetch_error + 'c Slice option list) option" where
  "fetch_row MapSlice by0 byEnd x1 bx =
     (if slt x1 bx then Some (Inr [])
      else
        let bxEnd = bx + blockFetchMax - 1;
            bxEnd = (if slt x1 bxEnd then x1 else bxEnd)
        in (case MapSlice bx by0 bxEnd byEnd of
              Inl e \<Rightarrow> Some (Inl (BlockFailed (bx, by0, bxEnd, byEnd) e))
            | Inr s \<Rightarrow> Option.bind (fetch_row MapSlice by0 byEnd x1 (bx + blockFetchMax))
                (\<lambda>r. Some (case r of Inl e \<Rightarrow> Inl e | Inr row \<Rightarrow> Inr (Some s # row)))))"

partial_function (option) fetch_grid ::
  "(i16 \<Rightarrow> i16 \<Rightarrow> i16 \<Rightarrow> i16 \<Rightarrow> 'e + 'c Slice) \<Rightarrow> i16 \<Rightarrow> i16 \<Rightarrow> i16 \<Rightarrow> i16 \<Rightarrow> ('e fetch_error + 'c Slice option list list) option" where
  "fetch_grid MapSlice x0 x1 y1 by0 =
     (if slt y1 by0 then Some (Inr [])
      else
        let byEnd = by0 + blockFetchMax - 1;
            byEnd = (if slt y1 byEnd then y1 else byEnd)
        in Option.bind (fetch_row MapSlice by0 byEnd x1 x0) (\<lambda>r.
           case r of
             Inl e \<Rightarrow> Some (Inl e)
           | Inr row \<Rightarrow> Option.bind (fetch_grid MapSlice x0 x1 y1 (by0 + blockFetchMax))
               (\<lambda>r. Some (case r of Inl e \<Rightarrow> Inl e | Inr grid \<Rightarrow> Inr (row # grid)))))"

definition fetchStitchedRegion ::
  "(i16 \<Rightarrow> i16 \<Rightarrow> i16 \<Rightarrow> i16 \<Rightarrow> 'e + 'c Slice) \<Rightarrow> i16 \<Rightarrow> i16 \<Rightarrow> i16 \<Rightarrow> i16 \<Rightarrow> ('e fetch_error + 'c Slice) option" where
  "fetchStitchedRegion MapSlice x0 y0 x1 y1 =
     map_option (\<lambda>r. case r of
       Inl e \<Rightarrow> Inl e
     | Inr grid \<Rightarrow> (case StitchSlices grid of Inl e \<Rightarrow> Inl (StitchFailed e) | Inr s \<Rightarrow> Inr s))
     (fetch_grid MapSlice x0 x1 y1 y0)"

section \<open>Downsampling\<close>

text \<open>The size of a square; with \<open>maxCells\<close> 0 the division panics. Go's division rounds towards zero.\<close>

definition DownsampleBlockSizeFor :: "int \<Rightarrow> int \<Rightarrow> int \<Rightarrow> int option" where
  "DownsampleBlockSizeFor w h maxCells =
     (let dim = (if h > w then h else w)
      in if maxCells = 0 then None
         else let n = dim + maxCells - 1;
                  block = sgn n * sgn maxCells * (\<bar>n\<bar> div \<bar>maxCells\<bar>)
              in Some (if block < 1 then 1 else block))"

text \<open>\<open>modalGlyph\<close>: the loop meets the distinct glyphs in the order \<open>ord\<close>; None before the first.\<close>

definition modal_step :: "(nat \<Rightarrow> nat) \<Rightarrow> nat \<Rightarrow> nat \<times> int \<Rightarrow> nat \<times> int" where
  "modal_step counts r = (\<lambda>(best, bestN).
     if int (counts r) > bestN \<or> (int (counts r) = bestN \<and> r < best) then (r, int (counts r)) else (best, bestN))"

definition modalGlyph :: "nat list \<Rightarrow> (nat \<Rightarrow> nat) \<Rightarrow> nat" where
  "modalGlyph ord counts = (case fold (modal_step counts) ord (0, -1) of
     (best, bestN) \<Rightarrow> if bestN < 0 then 63 else best)"

text \<open>The glyphs of one square, row by row; a row may be shorter than the first.\<close>

definition block_glyphs :: "nat list list \<Rightarrow> nat \<Rightarrow> nat \<Rightarrow> nat \<Rightarrow> nat \<Rightarrow> nat list" where
  "block_glyphs rows x0 x1 y0 y1 = concat (map (\<lambda>y. let rr = rows ! y in
     map (\<lambda>x. rr ! x) [x0..<min x1 (length rr)]) [y0..<y1])"

definition DownsampleGlyphs :: "(nat list \<Rightarrow> nat list) \<Rightarrow> nat list list \<Rightarrow> nat \<Rightarrow> nat list list" where
  "DownsampleGlyphs order rows block =
     (if block \<le> 1 then rows
      else let srcH = length rows in
        if srcH = 0 then rows
        else
          let srcW = length (rows ! 0);
              outRows = (srcH + block - 1) div block;
              outCols = (srcW + block - 1) div block
          in map (\<lambda>b_y.
               let y0 = b_y * block; y1 = min (y0 + block) srcH
               in map (\<lambda>b_x.
                    let x0 = b_x * block; x1 = min (x0 + block) srcW;
                        glyphs = block_glyphs rows x0 x1 y0 y1
                    in modalGlyph (order glyphs) (count_list glyphs))
                  [0..<outCols]) [0..<outRows])"

section \<open>The surface of a column\<close>

record ColumnLevel =
  lv_Z :: i16
  lv_Glyph :: string
  lv_Shape :: string
  lv_Material :: string
  lv_Hidden :: bool
  lv_Water :: int
  lv_Aquifer :: bool
  lv_Damp :: bool
  lv_Smooth :: bool
  lv_FloorItems :: int

datatype SurfaceResult = SurfaceFound | SurfaceAboveWindow | SurfaceUnknownAllAir

definition isOpenAir :: "ColumnLevel \<Rightarrow> bool" where
  "isOpenAir lv \<longleftrightarrow> lv_Shape lv = ''open'' \<or> lv_Material lv = ''air''"

fun first_solid :: "ColumnLevel list \<Rightarrow> i16 \<times> SurfaceResult" where
  "first_solid [] = (0, SurfaceUnknownAllAir)"
| "first_solid (lv # lvs) = (if isOpenAir lv then first_solid lvs else (lv_Z lv, SurfaceFound))"

definition ColumnSurfaceZ :: "ColumnLevel list option \<Rightarrow> i16 \<times> SurfaceResult" where
  "ColumnSurfaceZ c = (case c of
       None \<Rightarrow> (0, SurfaceUnknownAllAir)
     | Some [] \<Rightarrow> (0, SurfaceUnknownAllAir)
     | Some (lv # lvs) \<Rightarrow>
         if \<not> isOpenAir lv then (0, SurfaceAboveWindow)
         else first_solid (lv # lvs))"

section \<open>A stitched region is the map\<close>

text \<open>The part of a map that a window shows, and the blocks one axis is cut into.\<close>

definition window :: "(int \<Rightarrow> int \<Rightarrow> 'c) \<Rightarrow> int \<Rightarrow> int \<Rightarrow> int \<Rightarrow> int \<Rightarrow> 'c list list" where
  "window glyph x1 x2 y1 y2 = map (\<lambda>y. map (\<lambda>x. glyph x y) [x1..x2]) [y1..y2]"

function chunks :: "int \<Rightarrow> int \<Rightarrow> (int \<times> int) list" where
  "chunks lo hi = (if hi < lo then [] else (lo, min (lo + 47) hi) # chunks (lo + 48) hi)"
  by pat_completeness auto
termination by (relation "measure (\<lambda>(lo, hi). nat (hi - lo + 1))") auto

declare chunks.simps [simp del]

lemma chunks_cover: "concat (map (\<lambda>(lo, hi). [lo..hi]) (chunks lo hi)) = [lo..hi]"
proof (induction lo hi rule: chunks.induct)
  case (1 lo hi)
  show ?case
  proof (cases "hi < lo")
    case False
    have "[lo..hi] = [lo..min (lo + 47) hi] @ [min (lo + 47) hi + 1..hi]"
      using False by (intro upto_split2) auto
    moreover have "[min (lo + 47) hi + 1..hi] = [lo + 48..hi]" by (auto simp: min_def add.commute)
    ultimately show ?thesis using 1 False by (simp add: chunks.simps [of lo hi])
  qed (simp add: chunks.simps [of lo hi])
qed

lemma chunks_range: "(a, b) \<in> set (chunks lo hi) \<Longrightarrow> lo \<le> a \<and> a \<le> b \<and> b \<le> hi"
proof (induction lo hi rule: chunks.induct)
  case (1 lo hi)
  then show ?case by (fastforce simp: chunks.simps [of lo hi] split: if_splits)
qed

lemma sint_plus:
  fixes x y :: i16
  assumes "- 32768 \<le> sint x + sint y" and "sint x + sint y \<le> 32767"
  shows "sint (x + y) = sint x + sint y"
  using assms by (simp add: sint_word_ariths signed_take_bit_int_eq_self)

text \<open>A plugin that answers every query inside the region with what the map shows there.\<close>

definition slice_of :: "(int \<Rightarrow> int \<Rightarrow> 'c) \<Rightarrow> i16 \<Rightarrow> int \<times> int \<Rightarrow> int \<times> int \<Rightarrow> 'c Slice option \<Rightarrow> bool" where
  "slice_of glyph z = (\<lambda>(ya, yb) (xa, xb) blk. \<exists>s. blk = Some s \<and> sl_Z s = z \<and> sint (sl_X1 s) = xa \<and> sint (sl_Y1 s) = ya \<and>
     sl_Rows s = window glyph xa xb ya yb)"

definition truthful :: "(int \<Rightarrow> int \<Rightarrow> 'c) \<Rightarrow> i16 \<Rightarrow> (i16 \<Rightarrow> i16 \<Rightarrow> i16 \<Rightarrow> i16 \<Rightarrow> 'e + 'c Slice) \<Rightarrow> i16 \<Rightarrow> i16 \<Rightarrow> i16 \<Rightarrow> i16 \<Rightarrow> bool" where
  "truthful glyph z MapSlice x0 y0 x1 y1 \<longleftrightarrow> (\<forall>xa ya xb yb.
     sint x0 \<le> sint xa \<and> sint xa \<le> sint xb \<and> sint xb \<le> sint x1 \<and> sint y0 \<le> sint ya \<and> sint ya \<le> sint yb \<and> sint yb \<le> sint y1 \<longrightarrow>
     (\<exists>s. MapSlice xa ya xb yb = Inr s \<and> sl_Z s = z \<and> sl_X1 s = xa \<and> sl_Y1 s = ya \<and>
        sl_Rows s = window glyph (sint xa) (sint xb) (sint ya) (sint yb)))"

lemma block_end:
  assumes "\<not> slt hi b" and "sint hi + 48 \<le> 32767"
  shows "sint (if slt hi (b + blockFetchMax - 1) then hi else b + blockFetchMax - 1) = min (sint b + 47) (sint hi)"
    and "sint (b + blockFetchMax) = sint b + 48"
proof -
  have b: "sint b \<le> sint hi" "- 32768 \<le> sint b" using assms(1) sint_ge [of b] by (auto simp: slt_def)
  have "sint (b + 47) = sint b + 47" using b assms(2) by (subst sint_plus) auto
  then have "sint (b + blockFetchMax - 1) = sint b + 47" by (simp add: blockFetchMax_def add.commute)
  then show "sint (if slt hi (b + blockFetchMax - 1) then hi else b + blockFetchMax - 1) = min (sint b + 47) (sint hi)"
    by (auto simp: slt_def)
  show "sint (b + blockFetchMax) = sint b + 48" using b assms(2) by (subst sint_plus) (auto simp: blockFetchMax_def)
qed

lemma fetch_row_truthful:
  assumes "truthful glyph z MapSlice x0 y0 x1 y1" and "sint x1 + 48 \<le> 32767" and "sint x0 \<le> sint bx"
    and "sint y0 \<le> sint by0" and "sint by0 \<le> sint byEnd" and "sint byEnd \<le> sint y1"
  shows "\<exists>row. fetch_row MapSlice by0 byEnd x1 bx = Some (Inr row) \<and>
    list_all2 (slice_of glyph z (sint by0, sint byEnd)) (chunks (sint bx) (sint x1)) row"
  using assms(3)
proof (induction "nat (sint x1 - sint bx + 1)" arbitrary: bx rule: less_induct)
  case less
  show ?case
  proof (cases "slt x1 bx")
    case True
    then show ?thesis by (simp add: fetch_row.simps [of MapSlice by0 byEnd x1 bx] chunks.simps [of "sint bx"] slt_def)
  next
    case False
    note e = block_end [OF False assms(2)]
    let ?e = "if slt x1 (bx + blockFetchMax - 1) then x1 else bx + blockFetchMax - 1"
    have le: "sint bx \<le> sint x1" using False by (simp add: slt_def)
    have in_range: "sint x0 \<le> sint bx \<and> sint bx \<le> sint ?e \<and> sint ?e \<le> sint x1 \<and> sint y0 \<le> sint by0 \<and> sint by0 \<le> sint byEnd \<and> sint byEnd \<le> sint y1"
      unfolding e(1) using less.prems le assms(4-6) by simp
    obtain s where s: "MapSlice bx by0 ?e byEnd = Inr s" "sl_Z s = z" "sl_X1 s = bx" "sl_Y1 s = by0"
      "sl_Rows s = window glyph (sint bx) (sint ?e) (sint by0) (sint byEnd)"
      using assms(1) in_range unfolding truthful_def by blast
    obtain row where row: "fetch_row MapSlice by0 byEnd x1 (bx + blockFetchMax) = Some (Inr row)"
      "list_all2 (slice_of glyph z (sint by0, sint byEnd)) (chunks (sint (bx + blockFetchMax)) (sint x1)) row"
      using less.hyps [of "bx + blockFetchMax"] less.prems le e(2) by auto
    have "fetch_row MapSlice by0 byEnd x1 bx = Some (Inr (Some s # row))"
      using False s(1) row(1) by (simp add: fetch_row.simps [of MapSlice by0 byEnd x1 bx] Let_def)
    moreover have "slice_of glyph z (sint by0, sint byEnd) (sint bx, min (sint bx + 47) (sint x1)) (Some s)"
      using s unfolding slice_of_def e(1) by simp
    ultimately show ?thesis
      using row(2) le by (simp add: chunks.simps [of "sint bx"] e(2))
  qed
qed

lemma fetch_grid_truthful:
  assumes "truthful glyph z MapSlice x0 y0 x1 y1" and "sint x1 + 48 \<le> 32767" and "sint y1 + 48 \<le> 32767" and "sint y0 \<le> sint by0"
  shows "\<exists>grid. fetch_grid MapSlice x0 x1 y1 by0 = Some (Inr grid) \<and>
    list_all2 (\<lambda>yr. list_all2 (slice_of glyph z yr) (chunks (sint x0) (sint x1))) (chunks (sint by0) (sint y1)) grid"
  using assms(4)
proof (induction "nat (sint y1 - sint by0 + 1)" arbitrary: by0 rule: less_induct)
  case less
  show ?case
  proof (cases "slt y1 by0")
    case True
    then show ?thesis by (simp add: fetch_grid.simps [of MapSlice x0 x1 y1 by0] chunks.simps [of "sint by0"] slt_def)
  next
    case False
    note e = block_end [OF False assms(3)]
    let ?e = "if slt y1 (by0 + blockFetchMax - 1) then y1 else by0 + blockFetchMax - 1"
    have le: "sint by0 \<le> sint y1" using False by (simp add: slt_def)
    have "sint by0 \<le> sint ?e" "sint ?e \<le> sint y1" unfolding e(1) using le by simp_all
    then obtain row where row: "fetch_row MapSlice by0 ?e x1 x0 = Some (Inr row)"
      "list_all2 (slice_of glyph z (sint by0, sint ?e)) (chunks (sint x0) (sint x1)) row"
      using fetch_row_truthful [OF assms(1,2) order_refl less.prems, of ?e] by blast
    obtain grid where grid: "fetch_grid MapSlice x0 x1 y1 (by0 + blockFetchMax) = Some (Inr grid)"
      "list_all2 (\<lambda>yr. list_all2 (slice_of glyph z yr) (chunks (sint x0) (sint x1))) (chunks (sint (by0 + blockFetchMax)) (sint y1)) grid"
      using less.hyps [of "by0 + blockFetchMax"] less.prems le e(2) by auto
    have "fetch_grid MapSlice x0 x1 y1 by0 = Some (Inr (row # grid))"
      using False row(1) grid(1) by (simp add: fetch_grid.simps [of MapSlice x0 x1 y1 by0] Let_def)
    then show ?thesis
      using row(2) grid(2) le by (simp add: chunks.simps [of "sint by0"] e)
  qed
qed

text \<open>Stitching such a grid: no check fails, and the rows are the map's.\<close>

lemma check_blocks_truthful:
  assumes "list_all2 (slice_of glyph z (ya, yb)) xs row" and "ya \<le> yb" and "h \<in> {None, Some (nat (yb - ya + 1))}"
  shows "check_blocks z r c h row = Inr (if row = [] then h else Some (nat (yb - ya + 1)))"
  using assms(1,3)
proof (induction xs row arbitrary: c h rule: list_all2_induct)
  case (Cons x xs b bs)
  then obtain s where b: "b = Some s" "sl_Z s = z" "sl_Rows s = window glyph (fst x) (snd x) ya yb"
    by (auto simp: slice_of_def split: prod.splits)
  have rows: "length (sl_Rows s) = nat (yb - ya + 1)" "sl_Rows s \<noteq> []" using b(3) assms(2) by (auto simp: window_def)
  show ?case using Cons.IH [of "Some (nat (yb - ya + 1))" "Suc c"] Cons.prems b(1,2) rows by auto
qed simp

lemma block_row_truthful:
  assumes "list_all2 (slice_of glyph z (ya, yb)) (chunks x0 x1) row" and "gr < nat (yb - ya + 1)"
  shows "block_row row gr = map (\<lambda>x. glyph x (ya + int gr)) [x0..x1]"
proof -
  have "block_row row gr = concat (map (\<lambda>(xa, xb). map (\<lambda>x. glyph x (ya + int gr)) [xa..xb]) (chunks x0 x1))"
    using assms(1)
    by (induction rule: list_all2_induct)
      (use assms(2) in \<open>auto simp: block_row_def slice_of_def window_def nth_upto split: prod.splits\<close>)
  also have "\<dots> = map (\<lambda>x. glyph x (ya + int gr)) (concat (map (\<lambda>(lo, hi). [lo..hi]) (chunks x0 x1)))"
    by (simp add: map_concat case_prod_unfold comp_def)
  finally show ?thesis by (simp add: chunks_cover)
qed

lemma lines_truthful:
  assumes "list_all2 (slice_of glyph z (ya, yb)) (chunks x0 x1) row" and "ya \<le> yb"
  shows "map (block_row row) [0..<nat (yb - ya + 1)] = window glyph x0 x1 ya yb"
  using block_row_truthful [OF assms(1)] assms(2)
  by (intro nth_equalityI) (auto simp: window_def nth_upto)

lemma add_lines_same_width:
  assumes "\<forall>l\<in>set ls. length l = w" and "h \<in> {None, Some w}"
  shows "add_lines r ls (h, rows) = Inr (if ls = [] then h else Some w, rows @ ls)"
  using assms by (induction ls arbitrary: h rows) auto

lemma stitch_rows_truthful:
  assumes "list_all2 (\<lambda>yr. list_all2 (slice_of glyph z yr) (chunks x0 x1)) ys grid" and "x0 \<le> x1" and "\<forall>(ya, yb)\<in>set ys. ya \<le> yb"
    and "h \<in> {None, Some (nat (x1 - x0 + 1))}"
  shows "\<exists>h'. stitch_rows z r grid (h, rows) = Inr (h', rows @ concat (map (\<lambda>(ya, yb). window glyph x0 x1 ya yb) ys))"
  using assms(1,3,4)
proof (induction ys grid arbitrary: r h rows rule: list_all2_induct)
  case (Cons yr ys row grid)
  obtain ya yb where yr: "yr = (ya, yb)" "ya \<le> yb" using Cons.prems(1) by (cases yr) auto
  have "row \<noteq> []" using Cons.hyps(1) assms(2) by (auto simp: chunks.simps [of x0])
  then have blocks: "check_blocks z r 0 None row = Inr (Some (nat (yb - ya + 1)))"
    using check_blocks_truthful [OF Cons.hyps(1) [unfolded yr] yr(2), of None] by simp
  have lines: "map (block_row row) [0..<nat (yb - ya + 1)] = window glyph x0 x1 ya yb"
    by (rule lines_truthful [OF Cons.hyps(1) [unfolded yr] yr(2)])
  have "\<forall>l\<in>set (window glyph x0 x1 ya yb). length l = nat (x1 - x0 + 1)" by (auto simp: window_def)
  from add_lines_same_width [OF this Cons.prems(2), of r rows]
  have "\<exists>h'. h' \<in> {None, Some (nat (x1 - x0 + 1))} \<and> add_lines r (window glyph x0 x1 ya yb) (h, rows) = Inr (h', rows @ window glyph x0 x1 ya yb)"
    using Cons.prems(2) by auto
  then obtain h' where h': "h' \<in> {None, Some (nat (x1 - x0 + 1))}"
    "add_lines r (window glyph x0 x1 ya yb) (h, rows) = Inr (h', rows @ window glyph x0 x1 ya yb)" by blast
  obtain h'' where "stitch_rows z (Suc r) grid (h', rows @ window glyph x0 x1 ya yb) =
      Inr (h'', (rows @ window glyph x0 x1 ya yb) @ concat (map (\<lambda>(ya, yb). window glyph x0 x1 ya yb) ys))"
    using Cons.IH [of h' "Suc r" "rows @ window glyph x0 x1 ya yb"] Cons.prems(1) h'(1) by auto
  then show ?case using blocks lines h'(2) yr(1) by simp
qed simp

lemma windows_cover: "concat (map (\<lambda>(ya, yb). window glyph x0 x1 ya yb) (chunks y0 y1)) = window glyph x0 x1 y0 y1"
proof -
  have "concat (map (\<lambda>(ya, yb). window glyph x0 x1 ya yb) ys) =
      map (\<lambda>y. map (\<lambda>x. glyph x y) [x0..x1]) (concat (map (\<lambda>(lo, hi). [lo..hi]) ys))" for ys
    by (simp add: window_def map_concat case_prod_unfold comp_def)
  then show ?thesis by (simp add: chunks_cover window_def)
qed

lemma merge_block_keeps:
  assumes "fold merge_block blks (ci, am, iv, oc, out) = (ci', am', iv', oc', out')"
  shows "sl_Rows out' = sl_Rows out \<and> sl_Z out' = sl_Z out \<and> sl_X1 out' = sl_X1 out \<and> sl_Y1 out' = sl_Y1 out \<and>
    sl_PendingBuilding out' = sl_PendingBuilding out \<and> sl_Minerals out' = sl_Minerals out"
  using assms
proof (induction blks arbitrary: ci am iv oc out)
  case (Cons b blks)
  obtain ci1 am1 iv1 oc1 out1 where m: "merge_block b (ci, am, iv, oc, out) = (ci1, am1, iv1, oc1, out1)"
    by (metis surj_pair)
  have "sl_Rows out1 = sl_Rows out \<and> sl_Z out1 = sl_Z out \<and> sl_X1 out1 = sl_X1 out \<and> sl_Y1 out1 = sl_Y1 out \<and>
      sl_PendingBuilding out1 = sl_PendingBuilding out \<and> sl_Minerals out1 = sl_Minerals out"
    using m by (auto simp: merge_block_def Let_def split: prod.splits option.splits)
  then show ?case using Cons m by simp
qed simp

lemma check_ragged_ok: "\<forall>row\<in>set grid. length row = cols \<Longrightarrow> check_ragged cols r grid = None"
  by (induction grid arbitrary: r) simp_all

lemma StitchSlices_rows:
  assumes "grid = (Some f # row) # rest" and "\<forall>r\<in>set grid. length r = Suc (length row)"
    and "stitch_rows (sl_Z f) 0 grid (None, []) = Inr (h, rows)"
  shows "\<exists>s. StitchSlices grid = Inr s \<and> sl_Rows s = rows \<and> sl_Z s = sl_Z f \<and> sl_X1 s = sl_X1 f \<and> sl_Y1 s = sl_Y1 f \<and>
    sl_PendingBuilding s = [] \<and> sl_Minerals s = []"
proof -
  let ?out = "new_slice (sl_Z f) (sl_X1 f) (sl_Y1 f) rows"
  obtain ci am iv oc out where m: "fold merge_block (List.map_filter id (concat grid)) (Map.empty, True, 0, 0, ?out) = (ci, am, iv, oc, out)"
    by (metis surj_pair)
  have "check_ragged (length (hd grid)) 0 grid = None" using assms(1,2) by (intro check_ragged_ok) auto
  then have "StitchSlices grid = Inr (if am then out\<lparr>sl_StockpileTilesInView := Some iv, sl_StockpileTilesOccupied := Some oc\<rparr> else out)"
    using assms(3) m unfolding StitchSlices_def assms(1) by (simp add: Let_def)
  then show ?thesis using merge_block_keeps [OF m] by (auto simp: new_slice_def)
qed


text \<open>What a stitched view loses: the tiles under construction, which every single view shows.\<close>

lemma stitched_view_drops_pending:
  assumes "StitchSlices grid = Inr s"
  shows "sl_PendingBuilding s = [] \<and> sl_Minerals s = []"
proof -
  obtain b row rest where g: "grid = (b # row) # rest"
    using assms by (cases grid; cases "hd grid") (auto simp: StitchSlices_def)
  obtain f where f: "b = Some f" and ragged: "check_ragged (length (hd grid)) 0 grid = None"
    using assms unfolding StitchSlices_def g by (cases b; cases "check_ragged (length (hd ((b # row) # rest))) 0 ((b # row) # rest)") auto
  obtain h rows where rows: "stitch_rows (sl_Z f) 0 grid (None, []) = Inr (h, rows)"
    using assms ragged unfolding StitchSlices_def g f
    by (cases "stitch_rows (sl_Z f) 0 ((Some f # row) # rest) (None, [])") (auto simp del: stitch_rows.simps)
  let ?out = "new_slice (sl_Z f) (sl_X1 f) (sl_Y1 f) rows"
  obtain ci am iv oc out where m: "fold merge_block (List.map_filter id (concat grid)) (Map.empty, True, 0, 0, ?out) = (ci, am, iv, oc, out)"
    by (metis surj_pair)
  have "s = (if am then out\<lparr>sl_StockpileTilesInView := Some iv, sl_StockpileTilesOccupied := Some oc\<rparr> else out)"
    using assms ragged rows m unfolding StitchSlices_def g f by (simp add: Let_def del: stitch_rows.simps)
  then show ?thesis using merge_block_keeps [OF m] by (auto simp: new_slice_def)
qed

section \<open>Downsampling keeps the most frequent glyph\<close>

definition is_mode :: "nat list \<Rightarrow> nat \<Rightarrow> bool" where
  "is_mode gs g \<longleftrightarrow> g \<in> set gs \<and>
     (\<forall>r\<in>set gs. count_list gs r < count_list gs g \<or> (count_list gs r = count_list gs g \<and> g \<le> r))"

lemma modal_fold:
  assumes "rs \<noteq> []"
  shows "case fold (modal_step counts) rs (0, -1) of (best, bestN) \<Rightarrow> best \<in> set rs \<and> bestN = int (counts best) \<and>
    (\<forall>r\<in>set rs. counts r < counts best \<or> (counts r = counts best \<and> best \<le> r))"
  using assms
proof (induction rs rule: rev_nonempty_induct)
  case (snoc r rs)
  then show ?case by (auto simp: modal_step_def split: prod.splits)
qed (simp add: modal_step_def)

lemma modalGlyph_mode:
  assumes "set (order gs) = set gs" and "gs \<noteq> []"
  shows "is_mode gs (modalGlyph (order gs) (count_list gs))"
proof -
  have "order gs \<noteq> []" using assms by (metis set_empty)
  from modal_fold [OF this, of "count_list gs"] show ?thesis
    using assms(1) by (auto simp: is_mode_def modalGlyph_def split: prod.splits)
qed

text \<open>
  A downsampled view shows in each cell the glyph that is most frequent in its square of the map, the smallest
  of them in a tie, whatever order Go's map iteration takes, also in the narrower squares at the right and lower edge.
\<close>

theorem downsample_majority:
  assumes "1 < block" and "rows \<noteq> []" and "\<forall>row\<in>set rows. length row = w" and "\<forall>gs. set (order gs) = set gs"
    and "cy < (length rows + block - 1) div block" and "cx < (w + block - 1) div block"
  shows "is_mode [rows ! y ! x. y \<leftarrow> [cy * block..<min (cy * block + block) (length rows)], x \<leftarrow> [cx * block..<min (cx * block + block) w]]
    (DownsampleGlyphs order rows block ! cy ! cx)"
proof -
  let ?y1 = "min (cy * block + block) (length rows)" and ?x1 = "min (cx * block + block) w"
  have w: "length (rows ! y) = w" if "y < length rows" for y using assms(3) that by simp
  have gs: "block_glyphs rows (cx * block) ?x1 (cy * block) ?y1 = [rows ! y ! x. y \<leftarrow> [cy * block..<?y1], x \<leftarrow> [cx * block..<?x1]]"
    unfolding block_glyphs_def Let_def by (rule arg_cong [where f = concat], rule map_cong) (auto simp: w)
  have inside: "c * block < n" if "c < (n + block - 1) div block" for c n
  proof -
    have "Suc c * block \<le> (n + block - 1) div block * block" using that by (intro mult_right_mono) auto
    also have "\<dots> \<le> n + block - 1" by simp
    finally show ?thesis using assms(1) by simp
  qed
  have "cy * block < length rows" "cx * block < w" using inside assms(5,6) by blast+
  then have "rows ! (cy * block) ! (cx * block) \<in> set (block_glyphs rows (cx * block) ?x1 (cy * block) ?y1)"
    unfolding gs using assms(1) by force
  then have "block_glyphs rows (cx * block) ?x1 (cy * block) ?y1 \<noteq> []" by auto
  from modalGlyph_mode [OF _ this, of order] show ?thesis
    using assms unfolding gs by (simp add: DownsampleGlyphs_def Let_def w flip: gs)
qed

section \<open>Examples\<close>

text \<open>A map of dots with a hash every seventh tile, and a plugin that shows it at level 9.\<close>

definition dotted :: "int \<Rightarrow> int \<Rightarrow> nat" where
  "dotted x y = (if (x + y) mod 7 = 0 then 35 else 46)"

definition honest :: "i16 \<Rightarrow> i16 \<Rightarrow> i16 \<Rightarrow> i16 \<Rightarrow> unit + nat Slice" where
  "honest xa ya xb yb = Inr (new_slice 9 xa ya (window dotted (sint xa) (sint xb) (sint ya) (sint yb)))"

lemma honest_truthful: "truthful dotted 9 honest x0 y0 x1 y1"
  by (simp add: truthful_def honest_def new_slice_def)


theorem downsample_majority_witness:
  "is_mode [46, 35, 46, 46] (DownsampleGlyphs remdups [[46, 35, 46], [46, 46, 35]] 2 ! 0 ! 0)"
  using downsample_majority [of 2 "[[46, 35, 46], [46, 46, 35]]" 3 remdups 0 0] by (simp add: upt_rec)

end
