(* ===== verification/Proposals.thy ===== *)
theory Proposals
  imports Modifications Command_Types "HOL-Library.Multiset"
begin

text \<open>
  Proposals of the goal agents and what becomes of them (\<open>internal/agents/graph.go\<close> and \<open>executor.go\<close>, and
  \<open>assembleProposalGraph\<close> of \<open>autonomous/loop.go\<close>): the graph of proposed modifications with its dependency and
  conflict edges, the sort by dependencies, and the conversion of an arbiter's decision into commands. Strings are
  lists of characters. The urgency, a float the graph only carries, is a type parameter. A loop over a Go map takes
  the order it meets the keys in as an argument. JSON and the log are not modelled.
\<close>

section \<open>Data\<close>

datatype DependencyType = DependencyAccess | DependencyWater | DependencyStairs | DependencyPower

text \<open>A value of the metadata: only whether it is a string matters to the code.\<close>

datatype 'v meta_value = MetaString string | MetaOther 'v

record ('u, 'v) ModificationNode =
  mn_ID :: string
  mn_AgentName :: string
  mn_Type :: string
  mn_Region :: ModRegion
  mn_Dependencies :: "DependencyType list"
  mn_Conflicts :: "string list"
  mn_Priority :: int
  mn_Urgency :: 'u
  mn_Rationale :: string
  mn_Metadata :: "(string \<rightharpoonup> 'v meta_value) option"
  mn_Status :: string

record ('u, 'v) ProposalGraph =
  pg_Nodes :: "('u, 'v) ModificationNode list"
  pg_DependencyEdges :: "string \<rightharpoonup> string list"
  pg_ConflictEdges :: "string \<rightharpoonup> string list"
  pg_AgentMetadata :: "string \<rightharpoonup> string"
  pg_Timestamp :: go_time

definition NewProposalGraph :: "go_time \<Rightarrow> ('u, 'v) ProposalGraph" where
  "NewProposalGraph now = \<lparr>pg_Nodes = [], pg_DependencyEdges = Map.empty, pg_ConflictEdges = Map.empty,
     pg_AgentMetadata = Map.empty, pg_Timestamp = now\<rparr>"

section \<open>Building the graph\<close>

datatype graph_error = NodeAlreadyExists string | NodeNotFound string | DependencyNotFound string | CycleDetected

definition nodeExists :: "('u, 'v) ProposalGraph \<Rightarrow> string \<Rightarrow> bool" where
  "nodeExists g i = list_ex (\<lambda>node. mn_ID node = i) (pg_Nodes g)"

definition GetNode :: "('u, 'v) ProposalGraph \<Rightarrow> string \<Rightarrow> ('u, 'v) ModificationNode option" where
  "GetNode g i = List.find (\<lambda>node. mn_ID node = i) (pg_Nodes g)"

definition AddNode ::
  "('u, 'v) ModificationNode \<Rightarrow> ('u, 'v) ProposalGraph \<Rightarrow> graph_error + ('u, 'v) ProposalGraph" where
  "AddNode node g =
     (if list_ex (\<lambda>existing. mn_ID existing = mn_ID node) (pg_Nodes g) then Inl (NodeAlreadyExists (mn_ID node))
      else Inr (g\<lparr>pg_Nodes := pg_Nodes g @ [node],
                  pg_AgentMetadata := (pg_AgentMetadata g)(mn_ID node \<mapsto> mn_AgentName node)\<rparr>))"

text \<open>The list under a key, the empty one when there is none, and its extension.\<close>

definition edges_of :: "(string \<rightharpoonup> string list) \<Rightarrow> string \<Rightarrow> string list" where
  "edges_of m i = (case m i of None \<Rightarrow> [] | Some xs \<Rightarrow> xs)"

definition add_edge :: "string \<Rightarrow> string \<Rightarrow> (string \<rightharpoonup> string list) \<Rightarrow> (string \<rightharpoonup> string list)" where
  "add_edge i j m = m(i \<mapsto> edges_of m i @ [j])"

definition AddDependency ::
  "string \<Rightarrow> string \<Rightarrow> ('u, 'v) ProposalGraph \<Rightarrow> graph_error + ('u, 'v) ProposalGraph" where
  "AddDependency nodeID dependsOnID g =
     (if \<not> nodeExists g nodeID then Inl (NodeNotFound nodeID)
      else if \<not> nodeExists g dependsOnID then Inl (DependencyNotFound dependsOnID)
      else Inr (g\<lparr>pg_DependencyEdges := add_edge nodeID dependsOnID (pg_DependencyEdges g)\<rparr>))"

definition AddConflict ::
  "string \<Rightarrow> string \<Rightarrow> ('u, 'v) ProposalGraph \<Rightarrow> graph_error + ('u, 'v) ProposalGraph" where
  "AddConflict nodeA nodeB g =
     (if \<not> nodeExists g nodeA then Inl (NodeNotFound nodeA)
      else if \<not> nodeExists g nodeB then Inl (NodeNotFound nodeB)
      else Inr (g\<lparr>pg_ConflictEdges := add_edge nodeB nodeA (add_edge nodeA nodeB (pg_ConflictEdges g))\<rparr>))"

section \<open>Conflicts in space\<close>

definition regionsOverlap :: "ModRegion \<Rightarrow> ModRegion \<Rightarrow> bool" where
  "regionsOverlap a b =
     (if slt (mr_XMax a) (mr_XMin b) \<or> slt (mr_XMax b) (mr_XMin a) then False
      else if slt (mr_YMax a) (mr_YMin b) \<or> slt (mr_YMax b) (mr_YMin a) then False
      else if slt (mr_ZMax a) (mr_ZMin b) \<or> slt (mr_ZMax b) (mr_ZMin a) then False
      else True)"

text \<open>A call whose error the source drops leaves the graph as it is.\<close>

definition ignoring_error :: "('g \<Rightarrow> 'e + 'g) \<Rightarrow> 'g \<Rightarrow> 'g" where
  "ignoring_error f g = (case f g of Inl e \<Rightarrow> g | Inr g \<Rightarrow> g)"

definition detect_pair ::
  "('u, 'v) ModificationNode \<Rightarrow> ('u, 'v) ModificationNode \<Rightarrow> ('u, 'v) ProposalGraph \<Rightarrow> ('u, 'v) ProposalGraph" where
  "detect_pair n m g = (if regionsOverlap (mn_Region n) (mn_Region m)
     then ignoring_error (AddConflict (mn_ID n) (mn_ID m)) g else g)"

text \<open>The two loops over the pairs \<open>i < j\<close>.\<close>

fun detect_pairs :: "('u, 'v) ModificationNode list \<Rightarrow> ('u, 'v) ProposalGraph \<Rightarrow> ('u, 'v) ProposalGraph" where
  "detect_pairs [] g = g"
| "detect_pairs (n # ns) g = detect_pairs ns (fold (detect_pair n) ns g)"

definition DetectSpatialConflicts :: "('u, 'v) ProposalGraph \<Rightarrow> ('u, 'v) ProposalGraph" where
  "DetectSpatialConflicts g = detect_pairs (pg_Nodes g) (g\<lparr>pg_ConflictEdges := Map.empty\<rparr>)"

definition assembleProposalGraph ::
  "go_time \<Rightarrow> ('u, 'v) ModificationNode list \<Rightarrow> ('u, 'v) ProposalGraph" where
  "assembleProposalGraph now proposals =
     DetectSpatialConflicts (fold (\<lambda>p. ignoring_error (AddNode p)) proposals (NewProposalGraph now))"

section \<open>The sort by dependencies\<close>

definition degree_at :: "(string \<rightharpoonup> int) \<Rightarrow> string \<Rightarrow> int" where
  "degree_at m i = (case m i of None \<Rightarrow> 0 | Some d \<Rightarrow> d)"

definition in_degrees :: "string list \<Rightarrow> ('u, 'v) ProposalGraph \<Rightarrow> string \<rightharpoonup> int" where
  "in_degrees keys g =
     fold (\<lambda>k inDegree. fold (\<lambda>dep inDegree. inDegree(dep \<mapsto> degree_at inDegree dep + 1))
                             (edges_of (pg_DependencyEdges g) k) inDegree)
          keys (fold (\<lambda>node inDegree. inDegree(mn_ID node \<mapsto> 0)) (pg_Nodes g) Map.empty)"

text \<open>One round of the loop over the dependencies of the node just taken.\<close>

definition release :: "string \<Rightarrow> (string \<rightharpoonup> int) \<times> string list \<Rightarrow> (string \<rightharpoonup> int) \<times> string list" where
  "release depID st = (case st of (inDegree, queue) \<Rightarrow>
     let inDegree = inDegree(depID \<mapsto> degree_at inDegree depID - 1)
     in (inDegree, if degree_at inDegree depID = 0 then queue @ [depID] else queue))"

partial_function (option) sort_loop ::
  "('u, 'v) ProposalGraph \<Rightarrow> (string \<rightharpoonup> int) \<Rightarrow> string list \<Rightarrow> ('u, 'v) ModificationNode list \<Rightarrow>
   ('u, 'v) ModificationNode list option" where
  "sort_loop g inDegree queue out = (case queue of
       [] \<Rightarrow> Some out
     | i # queue \<Rightarrow> (case GetNode g i of
         None \<Rightarrow> sort_loop g inDegree queue out
       | Some node \<Rightarrow> (case fold release (edges_of (pg_DependencyEdges g) i) (inDegree, queue) of
           (inDegree, queue) \<Rightarrow> sort_loop g inDegree queue (out @ [node]))))"

text \<open>\<open>keys\<close> and \<open>ids\<close> are the orders the two maps are met in; None stands for a loop that does not end.\<close>

definition TopologicalSort ::
  "string list \<Rightarrow> string list \<Rightarrow> ('u, 'v) ProposalGraph \<Rightarrow> (graph_error + ('u, 'v) ModificationNode list) option" where
  "TopologicalSort keys ids g =
     (let inDegree = in_degrees keys g;
          queue = filter (\<lambda>i. degree_at inDegree i = 0) ids
      in map_option (\<lambda>sorted. if length sorted \<noteq> length (pg_Nodes g) then Inl CycleDetected else Inr sorted)
           (sort_loop g inDegree queue []))"

section \<open>Executing a decision\<close>

record ('u, 'v) RejectedNode =
  rn_Node :: "('u, 'v) ModificationNode"
  rn_Reason :: string

record ('u, 'v) ArbitrationDecision =
  ad_ExecutionSequence :: "('u, 'v) ModificationNode list"
  ad_InjectedNodes :: "('u, 'v) ModificationNode list"
  ad_DeferredNodes :: "('u, 'v) ModificationNode list"
  ad_RejectedNodes :: "('u, 'v) RejectedNode list"
  ad_SpatialAllocation :: "string \<rightharpoonup> ModRegion"
  ad_LaborAllocation :: int
  ad_Rationale :: string
  ad_Timestamp :: go_time
  ad_Latency :: int
  ad_TokensUsed :: int

definition convertRegion :: "ModRegion \<Rightarrow> Region" where
  "convertRegion r = \<lparr>rg_X1 = mr_XMin r, rg_Y1 = mr_YMin r, rg_Z1 = mr_ZMin r,
     rg_X2 = mr_XMax r, rg_Y2 = mr_YMax r, rg_Z2 = mr_ZMax r\<rparr>"

definition node_dig :: "u8 \<Rightarrow> ('u, 'v) ModificationNode \<Rightarrow> CommandMessage" where
  "node_dig digType node = zero_CommandMessage\<lparr>cm_CommandType := CommandTypeDig, cm_DigType := digType,
     cm_Region := convertRegion (mn_Region node)\<rparr>"

definition blueprint_used :: "('u, 'v) ModificationNode \<Rightarrow> string option" where
  "blueprint_used node = (case mn_Metadata node of
       None \<Rightarrow> None
     | Some m \<Rightarrow> (case m ''blueprint_used'' of
         Some (MetaString b) \<Rightarrow> if b \<noteq> [] then Some b else None
       | _ \<Rightarrow> None))"

definition handleBedroomCluster :: "('u, 'v) ModificationNode \<Rightarrow> CommandMessage list" where
  "handleBedroomCluster node = (case blueprint_used node of
       Some b \<Rightarrow> [zero_CommandMessage\<lparr>cm_CommandType := CommandTypeBlueprint, cm_BlueprintName := map of_char b,
         cm_OriginX := mr_XMin (mn_Region node), cm_OriginY := mr_YMin (mn_Region node),
         cm_OriginZ := mr_ZMin (mn_Region node)\<rparr>]
     | None \<Rightarrow> [node_dig DigTypeDefault node])"

definition handleMiningShaft :: "('u, 'v) ModificationNode \<Rightarrow> CommandMessage list" where
  "handleMiningShaft node = [node_dig DigTypeDownStair node]"

definition handleFarmPlot :: "('u, 'v) ModificationNode \<Rightarrow> CommandMessage list" where
  "handleFarmPlot node = [node_dig DigTypeDefault node]"

definition handleCorridor :: "('u, 'v) ModificationNode \<Rightarrow> CommandMessage list" where
  "handleCorridor node = [node_dig DigTypeDefault node]"

definition handleWorkshop :: "('u, 'v) ModificationNode \<Rightarrow> CommandMessage list" where
  "handleWorkshop node = [node_dig DigTypeDefault node]"

definition handleDefensive :: "('u, 'v) ModificationNode \<Rightarrow> CommandMessage list" where
  "handleDefensive node = [node_dig DigTypeDefault node]"

definition handleExploratory :: "('u, 'v) ModificationNode \<Rightarrow> CommandMessage list" where
  "handleExploratory node = [node_dig DigTypeDefault node]"

definition handleStairCluster :: "('u, 'v) ModificationNode \<Rightarrow> CommandMessage list" where
  "handleStairCluster node = [node_dig DigTypeUpDownStair node]"

text \<open>The error is the type no handler takes.\<close>

definition convertNodeToCommands :: "('u, 'v) ModificationNode \<Rightarrow> string + CommandMessage list" where
  "convertNodeToCommands node = (let t = mn_Type node in
     if t = ''bedroom_cluster'' then Inr (handleBedroomCluster node)
     else if t = ''mining_shaft'' then Inr (handleMiningShaft node)
     else if t = ''farm_plot'' \<or> t = ''gather_zone'' then Inr (handleFarmPlot node)
     else if t = ''corridor_connector'' then Inr (handleCorridor node)
     else if t = ''workshop_zone'' \<or> t = ''production_area'' then Inr (handleWorkshop node)
     else if t = ''seal_entrance'' \<or> t = ''defensive_wall'' then Inr (handleDefensive node)
     else if t = ''exploratory_tunnel'' then Inr (handleExploratory node)
     else if t = ''stair_cluster'' then Inr (handleStairCluster node)
     else Inl t)"

text \<open>The two loops over nodes: a node no handler takes is skipped.\<close>

definition execute_node :: "('u, 'v) ModificationNode \<Rightarrow> CommandMessage list \<Rightarrow> CommandMessage list" where
  "execute_node node commands = (case convertNodeToCommands node of
       Inl e \<Rightarrow> commands
     | Inr nodeCommands \<Rightarrow> commands @ nodeCommands)"

definition GraphExecutor_Execute :: "('u, 'v) ArbitrationDecision \<Rightarrow> CommandMessage list" where
  "GraphExecutor_Execute decision =
     fold execute_node (ad_InjectedNodes decision) (fold execute_node (ad_ExecutionSequence decision) [])"

text \<open>One axis of the path: the coordinates visited on the way from \<open>x\<close> to \<open>e\<close>.\<close>

definition toward :: "i16 \<Rightarrow> i16 \<Rightarrow> i16" where
  "toward x e = (if slt x e then x + 1 else x - 1)"

lemma sint_differs: "x \<noteq> e \<Longrightarrow> sint x \<noteq> sint e" for x e :: i16
  using signed_word_eqI by blast

lemma sint_toward:
  assumes "x \<noteq> e"
  shows "sint (toward x e) = sint x + (if slt x e then 1 else - 1)"
proof -
  have range: "- 32768 \<le> sint y" "sint y < 32768" for y :: i16
    using sint_ge [of y] sint_lt [of y] by simp_all
  have "sint x \<noteq> sint e" using assms by (rule sint_differs)
  then show ?thesis
    using range [of x] range [of e]
    by (simp add: toward_def slt_def sint_word_ariths signed_take_bit_int_eq_self)
qed

function axis_path :: "i16 \<Rightarrow> i16 \<Rightarrow> i16 list" where
  "axis_path x e = (if x = e then [] else toward x e # axis_path (toward x e) e)"
  by pat_completeness auto
termination
proof (relation "measure (\<lambda>(x, e). nat \<bar>sint e - sint x\<bar>)")
  fix x e :: i16
  assume "x \<noteq> e"
  then have "\<bar>sint e - sint (toward x e)\<bar> < \<bar>sint e - sint x\<bar>"
    using sint_differs [of x e] by (simp add: sint_toward slt_def)
  then show "((toward x e, e), x, e) \<in> measure (\<lambda>(x, e). nat \<bar>sint e - sint x\<bar>)" by simp
qed simp

declare axis_path.simps [simp del]

definition calculateManhattanPath :: "Coord \<Rightarrow> Coord \<Rightarrow> Coord list" where
  "calculateManhattanPath start target =
     map (\<lambda>x. \<lparr>cd_X = x, cd_Y = cd_Y start, cd_Z = cd_Z start\<rparr>) (axis_path (cd_X start) (cd_X target)) @
     map (\<lambda>y. \<lparr>cd_X = cd_X target, cd_Y = y, cd_Z = cd_Z start\<rparr>) (axis_path (cd_Y start) (cd_Y target))"

text \<open>Execution keeps the order of the nodes, and a node becomes what its handler makes of it or nothing.\<close>

lemma execute_nodes:
  "fold execute_node ns cs = cs @ concat (map (\<lambda>node. case convertNodeToCommands node of Inl e \<Rightarrow> [] | Inr cs \<Rightarrow> cs) ns)"
  by (induction ns arbitrary: cs) (auto simp: execute_node_def split: sum.splits)

lemma Execute_commands:
  "GraphExecutor_Execute d = concat (map (\<lambda>node. case convertNodeToCommands node of Inl e \<Rightarrow> [] | Inr cs \<Rightarrow> cs)
     (ad_ExecutionSequence d @ ad_InjectedNodes d))"
  by (simp add: GraphExecutor_Execute_def execute_nodes)

text \<open>A stockpile proposed for execution gives no command.\<close>

lemma stockpile_never_executed: "mn_Type node = ''stockpile_zone'' \<Longrightarrow> execute_node node cs = cs"
  by (simp add: execute_node_def convertNodeToCommands_def)

lemma length_axis_path: "int (length (axis_path x e)) = \<bar>sint e - sint x\<bar>"
proof (induction x e rule: axis_path.induct)
  case (1 x e)
  show ?case
  proof (cases "x = e")
    case False
    then have "sint x \<noteq> sint e" by (rule sint_differs)
    then show ?thesis
      using 1 [OF False] sint_toward [OF False] False by (subst axis_path.simps) (auto simp: slt_def)
  qed (simp add: axis_path.simps)
qed

text \<open>The path is as long as the distance in the plane; the level of the target plays no part in it.\<close>

lemma length_ManhattanPath:
  "int (length (calculateManhattanPath start target)) =
     \<bar>sint (cd_X target) - sint (cd_X start)\<bar> + \<bar>sint (cd_Y target) - sint (cd_Y start)\<bar>"
  by (simp add: calculateManhattanPath_def length_axis_path)

lemma ManhattanPath_level: "c \<in> set (calculateManhattanPath start target) \<Longrightarrow> cd_Z c = cd_Z start"
  by (auto simp: calculateManhattanPath_def)

section \<open>Graphs the operations build\<close>

datatype ('u, 'v) graph_op =
    OpNode "('u, 'v) ModificationNode" | OpDependency string string | OpConflict string string | OpDetect

fun graph_do :: "('u, 'v) graph_op \<Rightarrow> ('u, 'v) ProposalGraph \<Rightarrow> ('u, 'v) ProposalGraph" where
  "graph_do (OpNode n) = ignoring_error (AddNode n)"
| "graph_do (OpDependency a b) = ignoring_error (AddDependency a b)"
| "graph_do (OpConflict a b) = ignoring_error (AddConflict a b)"
| "graph_do OpDetect = DetectSpatialConflicts"

definition built :: "go_time \<Rightarrow> ('u, 'v) graph_op list \<Rightarrow> ('u, 'v) ProposalGraph" where
  "built now ops = fold graph_do ops (NewProposalGraph now)"

definition node_ids :: "('u, 'v) ProposalGraph \<Rightarrow> string list" where
  "node_ids g = map mn_ID (pg_Nodes g)"

text \<open>The pairs of a node and one it depends on.\<close>

definition dep_rel :: "('u, 'v) ProposalGraph \<Rightarrow> (string \<times> string) set" where
  "dep_rel g = {(a, b). b \<in> set (edges_of (pg_DependencyEdges g) a)}"

definition graph_wf :: "('u, 'v) ProposalGraph \<Rightarrow> bool" where
  "graph_wf g \<longleftrightarrow> distinct (node_ids g) \<and> dom (pg_DependencyEdges g) \<subseteq> set (node_ids g) \<and>
     (\<forall>a b. b \<in> set (edges_of (pg_DependencyEdges g) a) \<longrightarrow> a \<in> set (node_ids g) \<and> b \<in> set (node_ids g))"

lemma nodeExists_iff: "nodeExists g i \<longleftrightarrow> i \<in> set (node_ids g)"
  by (auto simp: nodeExists_def node_ids_def list_ex_iff)

lemma list_ex_node: "list_ex (\<lambda>existing. mn_ID existing = i) (pg_Nodes g) \<longleftrightarrow> i \<in> set (node_ids g)"
  by (auto simp: node_ids_def list_ex_iff)

lemma edges_of_add: "edges_of (add_edge i j m) k = (if k = i then edges_of m i @ [j] else edges_of m k)"
  by (simp add: add_edge_def edges_of_def)

lemma dom_add_edge: "dom (add_edge i j m) = insert i (dom m)"
  by (simp add: add_edge_def)

lemma AddConflict_nodes:
  "pg_Nodes (ignoring_error (AddConflict a b) g) = pg_Nodes g"
  "pg_DependencyEdges (ignoring_error (AddConflict a b) g) = pg_DependencyEdges g"
  by (simp_all add: ignoring_error_def AddConflict_def)

lemma detect_pair_nodes:
  "pg_Nodes (fold (detect_pair n) ns g) = pg_Nodes g"
  "pg_DependencyEdges (fold (detect_pair n) ns g) = pg_DependencyEdges g"
  by (induction ns arbitrary: g) (simp_all add: detect_pair_def AddConflict_nodes)

lemma detect_pairs_nodes:
  "pg_Nodes (detect_pairs ns g) = pg_Nodes g"
  "pg_DependencyEdges (detect_pairs ns g) = pg_DependencyEdges g"
  by (induction ns g rule: detect_pairs.induct) (simp_all add: detect_pair_nodes)

lemma DetectSpatialConflicts_nodes:
  "pg_Nodes (DetectSpatialConflicts g) = pg_Nodes g"
  "pg_DependencyEdges (DetectSpatialConflicts g) = pg_DependencyEdges g"
  by (simp_all add: DetectSpatialConflicts_def detect_pairs_nodes)

lemma graph_wf_same:
  "pg_Nodes h = pg_Nodes g \<Longrightarrow> pg_DependencyEdges h = pg_DependencyEdges g \<Longrightarrow> graph_wf h = graph_wf g"
  by (simp add: graph_wf_def node_ids_def dep_rel_def)

lemma AddNode_wf: "graph_wf g \<Longrightarrow> graph_wf (ignoring_error (AddNode n) g)"
  unfolding ignoring_error_def AddNode_def list_ex_node
  by (auto simp: graph_wf_def node_ids_def dep_rel_def)

lemma AddDependency_wf: "graph_wf g \<Longrightarrow> graph_wf (ignoring_error (AddDependency a b) g)"
  unfolding ignoring_error_def AddDependency_def nodeExists_iff
  by (auto simp: graph_wf_def node_ids_def edges_of_add dom_add_edge split: if_splits)

lemma graph_do_wf: "graph_wf g \<Longrightarrow> graph_wf (graph_do op g)"
  by (cases op) (simp_all add: AddNode_wf AddDependency_wf graph_wf_same [OF AddConflict_nodes]
    graph_wf_same [OF DetectSpatialConflicts_nodes])

lemma NewProposalGraph_wf: "graph_wf (NewProposalGraph now)"
  by (simp add: graph_wf_def NewProposalGraph_def node_ids_def dep_rel_def edges_of_def)

lemma fold_graph_do_wf: "graph_wf g \<Longrightarrow> graph_wf (fold graph_do ops g)"
  by (induction ops arbitrary: g) (simp_all add: graph_do_wf)

lemma built_wf: "graph_wf (built now ops)"
  by (simp add: built_def fold_graph_do_wf NewProposalGraph_wf)

section \<open>The sort\<close>

definition comes_before :: "'a list \<Rightarrow> 'a \<Rightarrow> 'a \<Rightarrow> bool" where
  "comes_before xs a b \<longleftrightarrow> b \<in> set xs \<and> a \<in> set (takeWhile (\<lambda>x. x \<noteq> b) xs)"

lemma comes_before_snoc_old: "comes_before xs a b \<Longrightarrow> comes_before (xs @ ys) a b"
  by (auto simp: comes_before_def takeWhile_append1 [of b])

lemma comes_before_snoc_new: "b \<notin> set xs \<Longrightarrow> comes_before (xs @ [b]) a b \<longleftrightarrow> a \<in> set xs"
proof -
  assume "b \<notin> set xs"
  then have "takeWhile (\<lambda>x. x \<noteq> b) (xs @ [b]) = xs @ takeWhile (\<lambda>x. x \<noteq> b) [b]"
    by (intro takeWhile_append2) auto
  then show ?thesis by (simp add: comes_before_def)
qed

lemma count_list_pos [simp]: "0 < count_list xs x \<longleftrightarrow> x \<in> set xs"
  by (metis count_list_0_iff gr0I less_irrefl)

lemma degree_at_update: "degree_at (m(k \<mapsto> d)) i = (if i = k then d else degree_at m i)"
  by (simp add: degree_at_def)

definition all_degrees_at_least :: "(string \<rightharpoonup> int) \<Rightarrow> string list \<Rightarrow> bool" where
  "all_degrees_at_least deg ds \<longleftrightarrow> (\<forall>v. int (count_list ds v) \<le> degree_at deg v)"

lemma release_fold:
  assumes "all_degrees_at_least deg ds"
  shows "\<exists>deg' new. fold release ds (deg, queue) = (deg', queue @ new) \<and> distinct new \<and>
     set new = {v \<in> set ds. degree_at deg v = int (count_list ds v)} \<and>
     (\<forall>v. degree_at deg' v = degree_at deg v - int (count_list ds v))"
  using assms
proof (induction ds arbitrary: deg queue)
  case (Cons d ds)
  let ?deg = "deg(d \<mapsto> degree_at deg d - 1)"
  have enough: "int (count_list (d # ds) v) \<le> degree_at deg v" for v
    using Cons.prems by (simp add: all_degrees_at_least_def)
  have "all_degrees_at_least ?deg ds"
    unfolding all_degrees_at_least_def
  proof
    fix v show "int (count_list ds v) \<le> degree_at ?deg v"
      using enough [of v] by (auto simp: degree_at_update split: if_splits)
  qed
  from Cons.IH [OF this, of "if degree_at ?deg d = 0 then queue @ [d] else queue"] obtain deg' new where
    f: "fold release ds (?deg, if degree_at ?deg d = 0 then queue @ [d] else queue) =
          (deg', (if degree_at ?deg d = 0 then queue @ [d] else queue) @ new)"
    and new: "distinct new" "set new = {v \<in> set ds. degree_at ?deg v = int (count_list ds v)}"
    and deg': "\<forall>v. degree_at deg' v = degree_at ?deg v - int (count_list ds v)"
    by (elim exE conjE) (rule that)
  have step: "fold release (d # ds) (deg, queue) =
      fold release ds (?deg, if degree_at ?deg d = 0 then queue @ [d] else queue)"
    by (simp add: release_def Let_def)
  have deg'': "\<forall>v. degree_at deg' v = degree_at deg v - int (count_list (d # ds) v)"
    using deg' by (simp add: degree_at_update)
  have settled: "degree_at deg d = 1 \<Longrightarrow> d \<notin> set ds"
    using enough [of d] by (auto simp: count_list_0_iff [symmetric])
  show ?case
  proof (cases "degree_at deg d = 1")
    case True
    have "count_list ds d = 0" using settled [OF True] by (simp add: count_list_0_iff)
    have "v \<in> set (d # new) \<longleftrightarrow> v \<in> set (d # ds) \<and> degree_at deg v = int (count_list (d # ds) v)" for v
      unfolding set_simps new(2)
      by (cases "v = d") (simp_all add: True \<open>count_list ds d = 0\<close> degree_at_update)
    then have "set (d # new) = {v \<in> set (d # ds). degree_at deg v = int (count_list (d # ds) v)}"
      by (intro set_eqI) simp
    moreover have "distinct (d # new)" using new settled [OF True] by simp
    moreover have "fold release (d # ds) (deg, queue) = (deg', queue @ (d # new))"
      using step f True by (simp add: degree_at_update)
    ultimately show ?thesis using deg'' by (intro exI conjI)
  next
    case False
    have "v \<in> set ds \<longleftrightarrow> v \<in> set (d # ds)" if "degree_at deg v = int (count_list (d # ds) v)" for v
      using that False by (cases "v = d") auto
    moreover have "degree_at ?deg v = int (count_list ds v) \<longleftrightarrow> degree_at deg v = int (count_list (d # ds) v)" for v
      by (auto simp: degree_at_update)
    ultimately have "set new = {v \<in> set (d # ds). degree_at deg v = int (count_list (d # ds) v)}"
      using new(2) by blast
    moreover have "fold release (d # ds) (deg, queue) = (deg', queue @ new)"
      using step f False by (simp add: degree_at_update)
    ultimately show ?thesis using deg'' new(1) by (intro exI conjI)
  qed
qed simp

text \<open>
  Before every round: nodes are taken and queued once, the degree of a node is the number of edges to it from nodes
  not taken yet, the nodes of degree zero are those taken or queued, and whatever depends on a taken node was taken
  before it.
\<close>

abbreviation deps_of :: "('u, 'v) ProposalGraph \<Rightarrow> string \<Rightarrow> string list" where
  "deps_of g \<equiv> edges_of (pg_DependencyEdges g)"

definition sort_inv ::
  "('u, 'v) ProposalGraph \<Rightarrow> (string \<rightharpoonup> int) \<Rightarrow> string list \<Rightarrow> ('u, 'v) ModificationNode list \<Rightarrow> bool" where
  "sort_inv g deg queue out \<longleftrightarrow>
     distinct (map mn_ID out @ queue) \<and> set out \<subseteq> set (pg_Nodes g) \<and> set queue \<subseteq> set (node_ids g) \<and>
     (\<forall>v. degree_at deg v = (\<Sum>u\<in>set (node_ids g) - mn_ID ` set out. int (count_list (deps_of g u) v))) \<and>
     (\<forall>v\<in>set (node_ids g). v \<in> mn_ID ` set out \<union> set queue \<longleftrightarrow> degree_at deg v = 0) \<and>
     (\<forall>a b. (a, b) \<in> dep_rel g \<longrightarrow> b \<in> mn_ID ` set out \<longrightarrow> comes_before (map mn_ID out) a b)"

lemma GetNode_id:
  assumes "i \<in> set (node_ids g)"
  obtains n where "GetNode g i = Some n" "mn_ID n = i" "n \<in> set (pg_Nodes g)"
proof (cases "GetNode g i")
  case None
  then have False using assms by (auto simp: GetNode_def find_None_iff node_ids_def)
  then show thesis by simp
next
  case (Some n)
  then have "mn_ID n = i \<and> n \<in> set (pg_Nodes g)"
    by (auto simp: GetNode_def find_Some_iff in_set_conv_nth)
  then show thesis using that Some by blast
qed

lemma dep_relD:
  assumes "graph_wf g" "(a, b) \<in> dep_rel g"
  shows "a \<in> set (node_ids g)" "b \<in> set (node_ids g)"
  using assms by (auto simp: graph_wf_def dep_rel_def)

lemma sort_inv_step:
  assumes wf: "graph_wf g" and inv: "sort_inv g deg (i # queue) out"
    and n: "mn_ID n = i" "n \<in> set (pg_Nodes g)"
  shows "\<exists>deg' new. fold release (deps_of g i) (deg, queue) = (deg', queue @ new) \<and>
     sort_inv g deg' (queue @ new) (out @ [n])"
proof -
  let ?V = "set (node_ids g)" and ?done = "mn_ID ` set out"
  have i: "i \<in> ?V" "i \<notin> ?done" "i \<notin> set queue"
    using inv by (auto simp: sort_inv_def)
  have deg: "degree_at deg v = (\<Sum>u\<in>?V - ?done. int (count_list (deps_of g u) v))" for v
    using inv by (simp add: sort_inv_def)
  have split: "degree_at deg v = int (count_list (deps_of g i) v) +
      (\<Sum>u\<in>?V - insert i ?done. int (count_list (deps_of g u) v))" for v
  proof -
    have "?V - insert i ?done = ?V - ?done - {i}" by blast
    moreover have "i \<in> ?V - ?done" using i by blast
    ultimately show ?thesis
      unfolding deg using sum.remove [of "?V - ?done" i "\<lambda>u. int (count_list (deps_of g u) v)"] by simp
  qed
  have rest: "0 \<le> (\<Sum>u\<in>?V - insert i ?done. int (count_list (deps_of g u) v))" for v
    by (simp add: sum_nonneg)
  have "all_degrees_at_least deg (deps_of g i)"
    unfolding all_degrees_at_least_def
  proof
    fix v show "int (count_list (deps_of g i) v) \<le> degree_at deg v" using split [of v] rest [of v] by linarith
  qed
  from release_fold [OF this, of queue] obtain deg' new where
    f: "fold release (deps_of g i) (deg, queue) = (deg', queue @ new)"
    and new: "distinct new" "set new = {v \<in> set (deps_of g i). degree_at deg v = int (count_list (deps_of g i) v)}"
    and deg': "\<And>v. degree_at deg' v = degree_at deg v - int (count_list (deps_of g i) v)"
    by blast
  have degree: "degree_at deg' v = (\<Sum>u\<in>?V - insert i ?done. int (count_list (deps_of g u) v))" for v
    using deg' [of v] split [of v] by simp
  have zero: "v \<in> ?done \<union> set (i # queue) \<longleftrightarrow> degree_at deg v = 0" if "v \<in> ?V" for v
    using inv that by (simp add: sort_inv_def)
  have new': "v \<in> set new \<longleftrightarrow> v \<in> set (deps_of g i) \<and> degree_at deg' v = 0" for v
    using new(2) deg' by auto
  have newV: "set new \<subseteq> ?V"
    using new(2) wf by (auto simp: graph_wf_def)
  have fresh: "v \<notin> ?done \<union> set (i # queue)" if "v \<in> set new" for v
  proof -
    have "0 < degree_at deg v" using that new(2) by simp
    then show ?thesis using zero [of v] newV that by auto
  qed
  have "v \<in> insert i ?done \<union> set (queue @ new) \<longleftrightarrow> degree_at deg' v = 0" if v: "v \<in> ?V" for v
  proof (cases "v \<in> ?done \<union> set (i # queue)")
    case True
    then have "degree_at deg v = 0" using zero [OF v] by simp
    then have "degree_at deg' v = 0" using deg' [of v] degree [of v] rest [of v] by linarith
    then show ?thesis using True by auto
  next
    case False
    then have "degree_at deg v \<noteq> 0" using zero [OF v] by simp
    moreover have "count_list (deps_of g i) v = 0" if "v \<notin> set (deps_of g i)"
      using that by (simp add: count_list_0_iff)
    ultimately have "degree_at deg' v = 0 \<longrightarrow> v \<in> set (deps_of g i)"
      unfolding deg' by auto
    then show ?thesis using False new' [of v] by auto
  qed
  moreover have "comes_before (map mn_ID (out @ [n])) a b"
    if ab: "(a, b) \<in> dep_rel g" "b \<in> insert i ?done" for a b
  proof (cases "b = i")
    case True
    have "degree_at deg i = 0" using zero [of i] i by simp
    then have "\<forall>u\<in>?V - ?done. count_list (deps_of g u) i = 0"
      unfolding deg by (subst (asm) sum_nonneg_eq_0_iff) auto
    moreover have "a \<in> ?V" "i \<in> set (deps_of g a)"
      using ab True dep_relD [OF wf ab(1)] by (auto simp: dep_rel_def)
    ultimately have "a \<in> ?done" by (auto simp: count_list_0_iff)
    then show ?thesis using True i n by (simp add: comes_before_snoc_new)
  next
    case False
    then have "comes_before (map mn_ID out) a b" using inv ab by (auto simp: sort_inv_def)
    then show ?thesis by (simp add: comes_before_snoc_old)
  qed
  moreover have "distinct (map mn_ID (out @ [n]) @ queue @ new)"
    using inv n i new(1) fresh by (auto simp: sort_inv_def)
  ultimately have "sort_inv g deg' (queue @ new) (out @ [n])"
    using inv n newV degree by (auto simp: sort_inv_def simp del: set_map)
  then show ?thesis using f by blast
qed

lemma sort_loop_returns:
  assumes "graph_wf g" "sort_inv g deg queue out"
  shows "\<exists>out' deg'. sort_loop g deg queue out = Some out' \<and> sort_inv g deg' [] out'"
  using assms(2)
proof (induction "length (pg_Nodes g) - length out" arbitrary: deg queue out rule: less_induct)
  case less
  show ?case
  proof (cases queue)
    case Nil
    then show ?thesis using less.prems by (subst sort_loop.simps) auto
  next
    case (Cons i rest)
    then have i: "i \<in> set (node_ids g)" "i \<notin> mn_ID ` set out" using less.prems by (auto simp: sort_inv_def)
    obtain n where n: "GetNode g i = Some n" "mn_ID n = i" "n \<in> set (pg_Nodes g)"
      using GetNode_id [OF i(1)] by blast
    have inv: "sort_inv g deg (i # rest) out" using less.prems Cons by simp
    from sort_inv_step [OF assms(1) this n(2) n(3)] obtain deg' new where
      step: "fold release (deps_of g i) (deg, rest) = (deg', rest @ new)" "sort_inv g deg' (rest @ new) (out @ [n])"
      by blast
    have "set (map mn_ID (out @ [n])) \<subseteq> set (node_ids g)" "distinct (map mn_ID (out @ [n]))"
      using step(2) by (auto simp: sort_inv_def node_ids_def)
    then have "length (out @ [n]) \<le> length (pg_Nodes g)"
      by (metis card_length card_mono distinct_card finite_set le_trans length_map node_ids_def)
    then have "length (pg_Nodes g) - length (out @ [n]) < length (pg_Nodes g) - length out" by simp
    from less.hyps [OF this step(2)] show ?thesis
      by (subst sort_loop.simps) (simp add: Cons n(1) step(1))
  qed
qed

lemma degree_after_edges:
  "degree_at (fold (\<lambda>dep m. m(dep \<mapsto> degree_at m dep + 1)) ds m) v = degree_at m v + int (count_list ds v)"
  by (induction ds arbitrary: m) (auto simp: degree_at_update)

lemma dom_after_edges: "dom (fold (\<lambda>dep m. m(dep \<mapsto> degree_at m dep + 1)) ds m) = dom m \<union> set ds"
  by (induction ds arbitrary: m) auto

lemma degree_after_keys:
  "degree_at (fold (\<lambda>k m. fold (\<lambda>dep m. m(dep \<mapsto> degree_at m dep + 1)) (ds k) m) keys m) v =
     degree_at m v + (\<Sum>k\<leftarrow>keys. int (count_list (ds k) v))"
  by (induction keys arbitrary: m) (auto simp: degree_after_edges)

lemma dom_after_keys:
  "dom (fold (\<lambda>k m. fold (\<lambda>dep m. m(dep \<mapsto> degree_at m dep + 1)) (ds k) m) keys m) =
     dom m \<union> (\<Union>k\<in>set keys. set (ds k))"
  by (induction keys arbitrary: m) (auto simp: dom_after_edges)

lemma zero_degrees:
  "degree_at (fold (\<lambda>node m. m(mn_ID node \<mapsto> 0)) ns m) v = 0 \<longleftrightarrow> v \<in> mn_ID ` set ns \<or> degree_at m v = 0"
  by (induction ns arbitrary: m) (auto simp: degree_at_update)

lemma dom_zero_degrees: "dom (fold (\<lambda>node m. m(mn_ID node \<mapsto> 0)) ns m) = dom m \<union> mn_ID ` set ns"
  by (induction ns arbitrary: m) auto

lemma in_degrees_correct:
  assumes "graph_wf g" "distinct keys" "set keys = dom (pg_DependencyEdges g)"
  shows "degree_at (in_degrees keys g) v = (\<Sum>u\<in>set (node_ids g). int (count_list (deps_of g u) v))"
    and "dom (in_degrees keys g) = set (node_ids g)"
proof -
  have keys: "set keys \<subseteq> set (node_ids g)" using assms by (simp add: graph_wf_def)
  have "(\<Sum>k\<leftarrow>keys. int (count_list (deps_of g k) v)) = (\<Sum>k\<in>set keys. int (count_list (deps_of g k) v))"
    using assms(2) by (simp add: sum_list_distinct_conv_sum_set)
  also have "\<dots> = (\<Sum>u\<in>set (node_ids g). int (count_list (deps_of g u) v))"
    using keys assms(3) by (intro sum.mono_neutral_left) (auto simp: edges_of_def domIff)
  finally show "degree_at (in_degrees keys g) v = (\<Sum>u\<in>set (node_ids g). int (count_list (deps_of g u) v))"
    using zero_degrees [of "pg_Nodes g" Map.empty v] unfolding in_degrees_def degree_after_keys
    by (simp add: degree_at_def)
  have "(\<Union>k\<in>set keys. set (deps_of g k)) \<subseteq> set (node_ids g)"
    using assms(1) by (auto simp: graph_wf_def)
  then show "dom (in_degrees keys g) = set (node_ids g)"
    unfolding in_degrees_def dom_after_keys dom_zero_degrees by (auto simp: node_ids_def)
qed

text \<open>A set of nodes each of which something in the set depends on holds a cycle.\<close>

lemma stuck_nodes_cyclic:
  assumes "finite R" "R \<noteq> {}" "\<And>v. v \<in> R \<Longrightarrow> \<exists>u\<in>R. (u, v) \<in> E"
  shows "\<not> acyclic E"
proof
  assume "acyclic E"
  let ?E = "E \<inter> R \<times> R"
  have "acyclic ?E" using \<open>acyclic E\<close> by (rule acyclic_subset) simp
  then have "wf ?E" using assms(1) by (simp add: finite_acyclic_wf)
  then obtain v where "v \<in> R" "\<And>u. (u, v) \<in> ?E \<Longrightarrow> u \<notin> R" using assms(2) by (rule wfE_min') blast
  then show False using assms(3) by blast
qed

text \<open>A list that has whatever depends on a node before the node has no cycle in it.\<close>

lemma ordered_acyclic:
  assumes "\<And>a b. (a, b) \<in> E \<Longrightarrow> comes_before xs a b"
  shows "acyclic E"
proof -
  define pos where "pos b = length (takeWhile (\<lambda>x. x \<noteq> b) xs)" for b
  have "pos a < pos b" if "comes_before xs a b" for a b
  proof -
    have "length (takeWhile (\<lambda>x. x \<noteq> a) (takeWhile (\<lambda>x. x \<noteq> b) xs)) < length (takeWhile (\<lambda>x. x \<noteq> b) xs)"
      if "a \<in> set (takeWhile (\<lambda>x. x \<noteq> b) xs)"
      using that by (induction xs) (auto split: if_splits)
    moreover have "takeWhile (\<lambda>x. x \<noteq> a) (takeWhile (\<lambda>x. x \<noteq> b) xs) = takeWhile (\<lambda>x. x \<noteq> a) xs"
      if "a \<in> set (takeWhile (\<lambda>x. x \<noteq> b) xs)"
      using that by (induction xs) (auto split: if_splits)
    ultimately show ?thesis using that by (simp add: comes_before_def pos_def)
  qed
  then have "E \<subseteq> measure pos" using assms by (auto simp: measure_def inv_image_def)
  then show ?thesis by (rule acyclic_subset [OF wf_acyclic [OF wf_measure]])
qed

lemma sort_inv_start:
  assumes "graph_wf g" "distinct keys" "set keys = dom (pg_DependencyEdges g)"
    "distinct ids" "set ids = dom (in_degrees keys g)"
  shows "sort_inv g (in_degrees keys g) (filter (\<lambda>i. degree_at (in_degrees keys g) i = 0) ids) []"
  using assms(4,5) in_degrees_correct [OF assms(1-3)] by (auto simp: sort_inv_def)

lemma sort_inv_end:
  assumes "graph_wf g" "sort_inv g deg [] out" "length out \<noteq> length (pg_Nodes g)"
  shows "\<not> acyclic (dep_rel g)"
proof (rule stuck_nodes_cyclic [of "set (node_ids g) - mn_ID ` set out"])
  have "set (node_ids g) = mn_ID ` set out" if "set (node_ids g) - mn_ID ` set out = {}"
    using that assms(2) by (auto simp: sort_inv_def node_ids_def)
  moreover have "length out = length (pg_Nodes g)" if "set (node_ids g) = mn_ID ` set out"
    using that assms(1,2) distinct_card [of "node_ids g"] distinct_card [of "map mn_ID out"]
    by (simp add: sort_inv_def graph_wf_def node_ids_def)
  ultimately show "set (node_ids g) - mn_ID ` set out \<noteq> {}" using assms(3) by blast
next
  fix v assume v: "v \<in> set (node_ids g) - mn_ID ` set out"
  then have "degree_at deg v \<noteq> 0" using assms(2) by (auto simp: sort_inv_def)
  then have "(\<Sum>u\<in>set (node_ids g) - mn_ID ` set out. int (count_list (deps_of g u) v)) \<noteq> 0"
    using assms(2) by (simp add: sort_inv_def)
  then obtain u where "u \<in> set (node_ids g) - mn_ID ` set out" "count_list (deps_of g u) v \<noteq> 0"
    by (auto elim: sum.not_neutral_contains_not_neutral)
  then show "\<exists>u\<in>set (node_ids g) - mn_ID ` set out. (u, v) \<in> dep_rel g"
    by (auto simp: dep_rel_def count_list_0_iff)
qed simp

text \<open>What the sort returns: the nodes, each after whatever depends on it, or the report of a cycle there is.\<close>

definition sorts_graph ::
  "('u, 'v) ProposalGraph \<Rightarrow> graph_error + ('u, 'v) ModificationNode list \<Rightarrow> bool" where
  "sorts_graph g r \<longleftrightarrow> (case r of
       Inl e \<Rightarrow> e = CycleDetected \<and> \<not> acyclic (dep_rel g)
     | Inr out \<Rightarrow> mset out = mset (pg_Nodes g) \<and>
         (\<forall>(a, b)\<in>dep_rel g. comes_before (map mn_ID out) a b) \<and> acyclic (dep_rel g))"

lemma sort_inv_sorted:
  assumes "graph_wf g" "sort_inv g deg [] out" "length out = length (pg_Nodes g)"
  shows "sorts_graph g (Inr out)"
proof -
  have out: "distinct (map mn_ID out)" "set out \<subseteq> set (pg_Nodes g)" "distinct (pg_Nodes g)" "distinct out"
    using assms(1,2) by (auto simp: sort_inv_def graph_wf_def node_ids_def distinct_map)
  then have "set out = set (pg_Nodes g)"
    using assms(3) by (intro card_subset_eq) (simp_all add: distinct_card)
  moreover from this have "comes_before (map mn_ID out) a b" if "(a, b) \<in> dep_rel g" for a b
    using dep_relD(2) [OF assms(1) that] assms(2) that by (auto simp: sort_inv_def node_ids_def)
  ultimately show ?thesis
    using out ordered_acyclic [of "dep_rel g" "map mn_ID out"]
    by (auto simp: sorts_graph_def set_eq_iff_mset_eq_distinct)
qed

text \<open>
  C36: In whatever order the maps are met, sorting a graph built by its operations returns: with all the nodes, each of
  them after every node that depends on it, so a node comes before what it needs, when no node depends on itself
  through others; and with the report of a cycle otherwise.
\<close>

theorem topological_sort_puts_dependents_first:
  assumes "distinct keys" "set keys = dom (pg_DependencyEdges (built now ops))"
    and "distinct ids" "set ids = dom (in_degrees keys (built now ops))"
  shows "\<exists>r. TopologicalSort keys ids (built now ops) = Some r \<and> sorts_graph (built now ops) r"
proof -
  let ?g = "built now ops" and ?deg = "in_degrees keys (built now ops)"
  obtain out deg' where out: "sort_loop ?g ?deg (filter (\<lambda>i. degree_at ?deg i = 0) ids) [] = Some out"
      "sort_inv ?g deg' [] out"
    using sort_loop_returns [OF built_wf sort_inv_start [OF built_wf assms]] by (elim exE conjE) (rule that)
  show ?thesis
  proof (cases "length out = length (pg_Nodes ?g)")
    case True
    then show ?thesis
      using out sort_inv_sorted [OF built_wf out(2)] by (simp add: TopologicalSort_def Let_def)
  next
    case False
    then show ?thesis
      using out sort_inv_end [OF built_wf out(2)] by (simp add: TopologicalSort_def Let_def sorts_graph_def)
  qed
qed

section \<open>Conflicts\<close>

lemma regionsOverlap_sym: "regionsOverlap a b = regionsOverlap b a"
  by (auto simp: regionsOverlap_def)

text \<open>Two regions whose corners are in order overlap exactly when they share a tile.\<close>

definition proper_region :: "ModRegion \<Rightarrow> bool" where
  "proper_region r \<longleftrightarrow> \<not> slt (mr_XMax r) (mr_XMin r) \<and> \<not> slt (mr_YMax r) (mr_YMin r) \<and> \<not> slt (mr_ZMax r) (mr_ZMin r)"

definition share_tile :: "ModRegion \<Rightarrow> ModRegion \<Rightarrow> bool" where
  "share_tile a b \<longleftrightarrow> (\<exists>c. in_region a c \<and> in_region b c)"

definition larger :: "i16 \<Rightarrow> i16 \<Rightarrow> i16" where
  "larger a b = (if slt a b then b else a)"

lemma regionsOverlap_shares:
  assumes "proper_region a" "proper_region b"
  shows "regionsOverlap a b \<longleftrightarrow> share_tile a b"
proof
  assume "regionsOverlap a b"
  then have "in_region a c \<and> in_region b c"
    if "c = \<lparr>cd_X = larger (mr_XMin a) (mr_XMin b), cd_Y = larger (mr_YMin a) (mr_YMin b),
             cd_Z = larger (mr_ZMin a) (mr_ZMin b)\<rparr>" for c
    using that assms by (auto simp: regionsOverlap_def in_region_def larger_def proper_region_def slt_def split: if_splits)
  then show "share_tile a b" unfolding share_tile_def by blast
next
  assume "share_tile a b"
  then show "regionsOverlap a b"
    by (auto simp: share_tile_def regionsOverlap_def in_region_def slt_def)
qed

abbreviation conflicts_of :: "('u, 'v) ProposalGraph \<Rightarrow> string \<Rightarrow> string list" where
  "conflicts_of g \<equiv> edges_of (pg_ConflictEdges g)"

lemma count_AddConflict:
  assumes "a \<in> set (node_ids g)" "b \<in> set (node_ids g)" "a \<noteq> b"
  shows "count_list (conflicts_of (ignoring_error (AddConflict a b) g) i) j =
    count_list (conflicts_of g i) j + (if (i, j) = (a, b) \<or> (i, j) = (b, a) then 1 else 0)"
  using assms by (auto simp: ignoring_error_def AddConflict_def nodeExists_iff edges_of_add)

lemma count_detect_pair_fold:
  assumes "mn_ID n \<in> set (node_ids g)" "mn_ID ` set ns \<subseteq> set (node_ids g)"
    "distinct (map mn_ID (n # ns))"
  shows "count_list (conflicts_of (fold (detect_pair n) ns g) i) j = count_list (conflicts_of g i) j +
    (if \<exists>m\<in>set ns. regionsOverlap (mn_Region n) (mn_Region m) \<and>
        ((i, j) = (mn_ID n, mn_ID m) \<or> (i, j) = (mn_ID m, mn_ID n)) then 1 else 0)"
  using assms
proof (induction ns arbitrary: g)
  case (Cons m ns)
  have same: "node_ids (detect_pair n m g) = node_ids g"
    by (simp add: detect_pair_def node_ids_def AddConflict_nodes)
  have *: "count_list (conflicts_of (detect_pair n m g) i) j = count_list (conflicts_of g i) j +
      (if regionsOverlap (mn_Region n) (mn_Region m) \<and>
         ((i, j) = (mn_ID n, mn_ID m) \<or> (i, j) = (mn_ID m, mn_ID n)) then 1 else 0)"
    using Cons.prems count_AddConflict [of "mn_ID n" g "mn_ID m"] by (simp add: detect_pair_def)
  have "count_list (conflicts_of (fold (detect_pair n) ns (detect_pair n m g)) i) j =
      count_list (conflicts_of (detect_pair n m g) i) j +
      (if \<exists>m\<in>set ns. regionsOverlap (mn_Region n) (mn_Region m) \<and>
        ((i, j) = (mn_ID n, mn_ID m) \<or> (i, j) = (mn_ID m, mn_ID n)) then 1 else 0)"
    using Cons.prems by (intro Cons.IH) (simp_all add: same)
  then show ?case unfolding * using Cons.prems by (auto simp: image_iff)
qed simp

text \<open>Two nodes of the list with these ids overlap; the same of a node and one of the list.\<close>

definition clash :: "('u, 'v) ModificationNode list \<Rightarrow> string \<Rightarrow> string \<Rightarrow> bool" where
  "clash ns i j \<longleftrightarrow> (\<exists>n\<in>set ns. \<exists>m\<in>set ns. mn_ID n = i \<and> mn_ID m = j \<and> i \<noteq> j \<and>
     regionsOverlap (mn_Region n) (mn_Region m))"

definition clash_with :: "('u, 'v) ModificationNode \<Rightarrow> ('u, 'v) ModificationNode list \<Rightarrow> string \<Rightarrow> string \<Rightarrow> bool" where
  "clash_with n ns i j \<longleftrightarrow> (\<exists>m\<in>set ns. regionsOverlap (mn_Region n) (mn_Region m) \<and>
     ((i, j) = (mn_ID n, mn_ID m) \<or> (i, j) = (mn_ID m, mn_ID n)))"

lemma clash_Cons:
  assumes "mn_ID n \<notin> mn_ID ` set ns"
  shows "clash (n # ns) i j \<longleftrightarrow> clash ns i j \<or> clash_with n ns i j"
    and "\<not> (clash ns i j \<and> clash_with n ns i j)"
proof -
  have w: "clash (n # ns) i j" if m: "m \<in> set ns" "regionsOverlap (mn_Region n) (mn_Region m)"
      "(i, j) = (mn_ID n, mn_ID m) \<or> (i, j) = (mn_ID m, mn_ID n)" for m
  proof -
    have ne: "mn_ID n \<noteq> mn_ID m" using m(1) assms by auto
    have sym: "regionsOverlap (mn_Region m) (mn_Region n)" by (subst regionsOverlap_sym) (rule m(2))
    from m(3) show ?thesis
    proof
      assume "(i, j) = (mn_ID n, mn_ID m)"
      then show ?thesis unfolding clash_def using m(1,2) ne by (intro bexI [of _ n] bexI [of _ m]) simp_all
    next
      assume "(i, j) = (mn_ID m, mn_ID n)"
      then show ?thesis unfolding clash_def using m(1) sym ne by (intro bexI [of _ m] bexI [of _ n]) simp_all
    qed
  qed
  have "clash ns i j \<or> clash_with n ns i j"
    if ab: "a \<in> set (n # ns)" "b \<in> set (n # ns)" "mn_ID a = i" "mn_ID b = j" "i \<noteq> j"
      "regionsOverlap (mn_Region a) (mn_Region b)" for a b
  proof -
    consider "a = n" "b \<in> set ns" | "a \<in> set ns" "b = n" | "a \<in> set ns" "b \<in> set ns"
      using ab by auto
    then show ?thesis
    proof cases
      case 1
      then show ?thesis unfolding clash_with_def using ab by (intro disjI2 bexI [of _ b]) simp_all
    next
      case 2
      have "regionsOverlap (mn_Region n) (mn_Region a)" using ab(6) 2(2) by (subst regionsOverlap_sym) simp
      then show ?thesis unfolding clash_with_def using ab 2 by (intro disjI2 bexI [of _ a]) simp_all
    next
      case 3
      then show ?thesis unfolding clash_def using ab by (intro disjI1 bexI [of _ a] bexI [of _ b]) simp_all
    qed
  qed
  then have "clash (n # ns) i j \<Longrightarrow> clash ns i j \<or> clash_with n ns i j"
    unfolding clash_def [of "n # ns"] by (elim bexE conjE)
  moreover have "clash ns i j \<Longrightarrow> clash (n # ns) i j"
    unfolding clash_def by (meson list.set_intros(2))
  moreover have "clash_with n ns i j \<Longrightarrow> clash (n # ns) i j"
    unfolding clash_with_def by (elim bexE conjE) (rule w)
  ultimately show "clash (n # ns) i j \<longleftrightarrow> clash ns i j \<or> clash_with n ns i j" by blast
  have "clash ns i j \<Longrightarrow> i \<in> mn_ID ` set ns \<and> j \<in> mn_ID ` set ns"
    by (auto simp: clash_def)
  moreover have "clash_with n ns i j \<Longrightarrow> i = mn_ID n \<or> j = mn_ID n"
    unfolding clash_with_def by auto
  ultimately show "\<not> (clash ns i j \<and> clash_with n ns i j)" using assms by metis
qed

lemma count_detect_pairs:
  assumes "mn_ID ` set ns \<subseteq> set (node_ids g)" "distinct (map mn_ID ns)"
  shows "count_list (conflicts_of (detect_pairs ns g) i) j =
    count_list (conflicts_of g i) j + (if clash ns i j then 1 else 0)"
  using assms
proof (induction ns arbitrary: g)
  case (Cons n ns)
  have same: "node_ids (fold (detect_pair n) ns g) = node_ids g" by (simp add: node_ids_def detect_pair_nodes)
  have "count_list (conflicts_of (detect_pairs ns (fold (detect_pair n) ns g)) i) j =
      count_list (conflicts_of (fold (detect_pair n) ns g) i) j + (if clash ns i j then 1 else 0)"
    using Cons.prems by (intro Cons.IH) (simp_all add: same)
  moreover have "count_list (conflicts_of (fold (detect_pair n) ns g) i) j =
      count_list (conflicts_of g i) j + (if clash_with n ns i j then 1 else 0)"
    unfolding clash_with_def using Cons.prems by (intro count_detect_pair_fold) auto
  ultimately show ?case
    using Cons.prems clash_Cons [of n ns i j] by simp
qed (simp add: clash_def)

text \<open>The graph is assembled from the first proposal of each id.\<close>

fun first_proposals :: "('u, 'v) ModificationNode list \<Rightarrow> ('u, 'v) ModificationNode list \<Rightarrow> ('u, 'v) ModificationNode list" where
  "first_proposals taken [] = taken"
| "first_proposals taken (p # ps) =
     first_proposals (if mn_ID p \<in> mn_ID ` set taken then taken else taken @ [p]) ps"

lemma assembled_nodes:
  "pg_Nodes (fold (\<lambda>p. ignoring_error (AddNode p)) ps g) = first_proposals (pg_Nodes g) ps"
proof (induction ps arbitrary: g)
  case (Cons p ps)
  have "pg_Nodes (ignoring_error (AddNode p) g) =
      (if mn_ID p \<in> mn_ID ` set (pg_Nodes g) then pg_Nodes g else pg_Nodes g @ [p])"
    unfolding ignoring_error_def AddNode_def list_ex_node by (simp add: node_ids_def)
  then show ?case using Cons by simp
qed simp

lemma first_proposals_find:
  "distinct (map mn_ID taken) \<Longrightarrow> distinct (map mn_ID (first_proposals taken ps)) \<and>
     set (first_proposals taken ps) = set taken \<union> {n. mn_ID n \<notin> mn_ID ` set taken \<and>
        List.find (\<lambda>p. mn_ID p = mn_ID n) ps = Some n}"
proof (induction taken ps rule: first_proposals.induct)
  case (2 taken p ps)
  then show ?case by (auto split: if_splits)
qed auto

text \<open>The first proposal of an id.\<close>

definition proposed :: "('u, 'v) ModificationNode list \<Rightarrow> string \<Rightarrow> ('u, 'v) ModificationNode option" where
  "proposed ps i = List.find (\<lambda>p. mn_ID p = i) ps"

lemma assembled_set:
  fixes ps :: "('u, 'v) ModificationNode list"
  shows "distinct (map mn_ID (first_proposals [] ps))"
    and "n \<in> set (first_proposals [] ps) \<longleftrightarrow> proposed ps (mn_ID n) = Some n"
  using first_proposals_find [of "[] :: ('u, 'v) ModificationNode list" ps] by (auto simp: proposed_def)

lemma proposedD: "proposed ps i = Some n \<Longrightarrow> n \<in> set ps \<and> mn_ID n = i"
  by (auto simp: proposed_def find_Some_iff in_set_conv_nth)


section \<open>Examples\<close>

definition proposal_at :: "string \<Rightarrow> string \<Rightarrow> i16 \<Rightarrow> i16 \<Rightarrow> (unit, unit) ModificationNode" where
  "proposal_at i t x1 x2 = \<lparr>mn_ID = i, mn_AgentName = ''Housing'', mn_Type = t,
     mn_Region = \<lparr>mr_XMin = x1, mr_XMax = x2, mr_YMin = 30, mr_YMax = 40, mr_ZMin = 125, mr_ZMax = 125\<rparr>,
     mn_Dependencies = [DependencyAccess], mn_Conflicts = [], mn_Priority = 9, mn_Urgency = (), mn_Rationale = [],
     mn_Metadata = None, mn_Status = []\<rparr>"

text \<open>The bedrooms need the corridor; the farm stands alone.\<close>

definition housing_ops :: "(unit, unit) graph_op list" where
  "housing_ops = [OpNode (proposal_at ''housing_1'' ''bedroom_cluster'' 60 70), OpNode (proposal_at ''corridor_1'' ''corridor_connector'' 50 59),
     OpNode (proposal_at ''food_1'' ''farm_plot'' 40 50), OpDependency ''housing_1'' ''corridor_1'']"

lemma housing_graph:
  "node_ids (built 5 housing_ops) = [''housing_1'', ''corridor_1'', ''food_1'']"
  "pg_DependencyEdges (built 5 housing_ops) = [''housing_1'' \<mapsto> [''corridor_1'']]"
  by (simp_all add: built_def housing_ops_def NewProposalGraph_def ignoring_error_def AddNode_def AddDependency_def
    nodeExists_def node_ids_def add_edge_def edges_of_def proposal_at_def)

theorem topological_sort_puts_dependents_first_witness:
  "\<exists>r. TopologicalSort [''housing_1''] [''corridor_1'', ''housing_1'', ''food_1''] (built 5 housing_ops) = Some r \<and>
     sorts_graph (built 5 housing_ops) r"
proof (rule topological_sort_puts_dependents_first)
  show keys: "set [''housing_1''] = dom (pg_DependencyEdges (built 5 housing_ops))" by (simp add: housing_graph)
  show "set [''corridor_1'', ''housing_1'', ''food_1''] = dom (in_degrees [''housing_1''] (built 5 housing_ops))"
    using in_degrees_correct(2) [OF built_wf _ keys] by (auto simp: housing_graph)
qed simp_all


end
