(* ===== verification/World_Model.thy ===== *)
theory World_Model
  imports Hazards Alerts Predicted Messages Complex_Main
begin

text \<open>
  The world model and the populator that feeds it (\<open>internal/worldmodel/types.go\<close>, \<open>populator.go\<close>), the installation
  of a full state (\<open>mcpserver/bridge.go\<close>), and the predicates that are checked on the model (\<open>internal/predicate\<close>).
  The overlay of modifications is reached from the world model and from the detector: overlays live in a store and
  both hold an address. The other overlays are reached only through the world model. None is a panic. The plan
  package's reader is a type parameter. The names, descriptions and evidence texts of predicates are not modelled,
  and their confidence, a float, is a rational number; a check reads the clock once. The named places, which are
  reloaded after a full state, are not part of this state.
\<close>

section \<open>The world model\<close>

record EntitySnapshot =
  es_All :: "EntityInfo list"
  es_Dwarves :: "EntityInfo list"
  es_Enemies :: "EntityInfo list"
  es_Animals :: "EntityInfo list"
  es_UpdatedAt :: go_time
  es_EventSeq :: u64

record ZoneSnapshot =
  zs_All :: "ZoneData list"
  zs_UpdatedAt :: go_time
  zs_EventSeq :: u64

record FortSnapshot =
  ft_DaysElapsed :: u32
  ft_CreatedWealth :: u64
  ft_Season :: u8
  ft_Year :: u32
  ft_UpdatedAt :: go_time
  ft_Valid :: bool

record WorldSnapshot =
  ws_SaveDir :: gostring
  ws_ID1 :: u32
  ws_ID2 :: u32
  ws_Known :: bool
  ws_Switches :: int

definition Changed :: "WorldSnapshot \<Rightarrow> WorldSnapshot \<Rightarrow> bool" where
  "Changed w other = (if \<not> ws_Known w \<or> \<not> ws_Known other then False
     else ws_SaveDir w \<noteq> ws_SaveDir other \<or> ws_ID1 w \<noteq> ws_ID1 other \<or> ws_ID2 w \<noteq> ws_ID2 other)"

record LiveTileCount =
  lv_Count :: u32
  lv_Source :: gostring
  lv_Ok :: bool

record ObservedState =
  ob_Topology :: "TopologyOverlay option"
  ob_Hazards :: "HazardManager option"
  ob_Modifications :: "nat option"
  ob_Entities :: EntitySnapshot
  ob_Zones :: ZoneSnapshot
  ob_Fort :: FortSnapshot
  ob_World :: WorldSnapshot
  ob_Alerts :: "AlertStore option"
  ob_LiveDugTiles :: LiveTileCount

record 'p WorldModel =
  wm_Observed :: ObservedState
  wm_Predicted :: PredictedState
  wm_plan :: "'p option"
  wm_tick :: u64
  wm_eventSeq :: u64
  wm_lastUpdate :: go_time
  wm_bornAt :: go_time
  wm_tileDeltaCount :: u64

definition zero_Observed :: ObservedState where
  "zero_Observed = \<lparr>ob_Topology = None, ob_Hazards = None, ob_Modifications = None,
     ob_Entities = \<lparr>es_All = [], es_Dwarves = [], es_Enemies = [], es_Animals = [], es_UpdatedAt = 0, es_EventSeq = 0\<rparr>,
     ob_Zones = \<lparr>zs_All = [], zs_UpdatedAt = 0, zs_EventSeq = 0\<rparr>,
     ob_Fort = \<lparr>ft_DaysElapsed = 0, ft_CreatedWealth = 0, ft_Season = 0, ft_Year = 0, ft_UpdatedAt = 0, ft_Valid = False\<rparr>,
     ob_World = \<lparr>ws_SaveDir = [], ws_ID1 = 0, ws_ID2 = 0, ws_Known = False, ws_Switches = 0\<rparr>,
     ob_Alerts = None, ob_LiveDugTiles = \<lparr>lv_Count = 0, lv_Source = [], lv_Ok = False\<rparr>\<rparr>"

definition NewWorldModel ::
  "go_time \<Rightarrow> TopologyOverlay option \<Rightarrow> HazardManager option \<Rightarrow> nat option \<Rightarrow> 'p WorldModel" where
  "NewWorldModel now topo hzd mods = \<lparr>wm_Observed = zero_Observed\<lparr>ob_Topology := topo, ob_Hazards := hzd,
       ob_Modifications := mods, ob_Alerts := Some (NewAlertStore 0)\<rparr>,
     wm_Predicted = newPredictedState, wm_plan = None, wm_tick = 0, wm_eventSeq = 0, wm_lastUpdate = 0,
     wm_bornAt = now, wm_tileDeltaCount = 0\<rparr>"

abbreviation observed :: "(ObservedState \<Rightarrow> ObservedState) \<Rightarrow> 'p WorldModel \<Rightarrow> 'p WorldModel" where
  "observed f w \<equiv> w\<lparr>wm_Observed := f (wm_Observed w)\<rparr>"

definition SetOverlays ::
  "TopologyOverlay option \<Rightarrow> HazardManager option \<Rightarrow> nat option \<Rightarrow> 'p WorldModel \<Rightarrow> 'p WorldModel" where
  "SetOverlays topo hzd mods w =
     observed (\<lambda>ob. ob\<lparr>ob_Topology := topo, ob_Hazards := hzd, ob_Modifications := mods\<rparr>) w"

definition SetLiveDugTiles :: "u32 \<Rightarrow> gostring \<Rightarrow> 'p WorldModel \<Rightarrow> 'p WorldModel" where
  "SetLiveDugTiles count source w =
     observed (\<lambda>ob. ob\<lparr>ob_LiveDugTiles := \<lparr>lv_Count = count, lv_Source = source, lv_Ok = True\<rparr>\<rparr>) w"

definition ClearLiveDugTiles :: "'p WorldModel \<Rightarrow> 'p WorldModel" where
  "ClearLiveDugTiles w = observed (\<lambda>ob. ob\<lparr>ob_LiveDugTiles := \<lparr>lv_Count = 0, lv_Source = [], lv_Ok = False\<rparr>\<rparr>) w"

definition LiveDugTiles :: "'p WorldModel \<Rightarrow> LiveTileCount" where
  "LiveDugTiles w = ob_LiveDugTiles (wm_Observed w)"

definition SetPlanReader :: "'p option \<Rightarrow> 'p WorldModel \<Rightarrow> 'p WorldModel" where
  "SetPlanReader p w = w\<lparr>wm_plan := p\<rparr>"

definition PlannedNodes :: "('p \<Rightarrow> 'n list) \<Rightarrow> ('p \<Rightarrow> 'n list) \<Rightarrow> 'p WorldModel \<Rightarrow> 'n list \<times> 'n list" where
  "PlannedNodes pendingNodes activeNodes w = (case wm_plan w of
       None \<Rightarrow> ([], [])
     | Some p \<Rightarrow> (pendingNodes p, activeNodes p))"

definition AdvanceTick :: "'p WorldModel \<Rightarrow> u64 \<times> 'p WorldModel" where
  "AdvanceTick w = (wm_tick w + 1, w\<lparr>wm_tick := wm_tick w + 1\<rparr>)"

definition NextEventID :: "'p WorldModel \<Rightarrow> u64 \<times> 'p WorldModel" where
  "NextEventID w = (wm_eventSeq w + 1, w\<lparr>wm_eventSeq := wm_eventSeq w + 1\<rparr>)"

definition AdvanceTileDeltaCount :: "u64 \<Rightarrow> 'p WorldModel \<Rightarrow> u64 \<times> 'p WorldModel" where
  "AdvanceTileDeltaCount n w = (wm_tileDeltaCount w + n, w\<lparr>wm_tileDeltaCount := wm_tileDeltaCount w + n\<rparr>)"

definition markUpdated :: "go_time \<Rightarrow> 'p WorldModel \<Rightarrow> 'p WorldModel" where
  "markUpdated now w = w\<lparr>wm_lastUpdate := now\<rparr>"

definition SnapshotMaxAlerts :: int where "SnapshotMaxAlerts = 25"

record Snapshot =
  sn_Tick :: u64
  sn_EventSeq :: u64
  sn_TakenAt :: go_time
  sn_LastUpdate :: go_time
  sn_Entities :: EntitySnapshot
  sn_Zones :: ZoneSnapshot
  sn_Fort :: FortSnapshot
  sn_World :: WorldSnapshot
  sn_Predictions :: PredictedSummary
  sn_TileDeltaCount :: u64
  sn_ActiveAlerts :: "Alert list"
  sn_ActiveAlertCount :: int

text \<open>\<open>ord\<close> is the order the predictions are met in.\<close>

definition take_Snapshot :: "WCoord list \<Rightarrow> go_time \<Rightarrow> 'p WorldModel \<Rightarrow> Snapshot" where
  "take_Snapshot ord now w =
     (let ob = wm_Observed w;
          alerts = (case ob_Alerts ob of None \<Rightarrow> [] | Some s \<Rightarrow> ActiveAlerts SnapshotMaxAlerts s);
          activeCount = (case ob_Alerts ob of None \<Rightarrow> 0 | Some s \<Rightarrow> fst (AlertCounts s))
      in \<lparr>sn_Tick = wm_tick w, sn_EventSeq = wm_eventSeq w, sn_TakenAt = now, sn_LastUpdate = wm_lastUpdate w,
          sn_Entities = ob_Entities ob, sn_Zones = ob_Zones ob, sn_Fort = ob_Fort ob, sn_World = ob_World ob,
          sn_Predictions = summary ord (wm_Predicted w), sn_TileDeltaCount = wm_tileDeltaCount w,
          sn_ActiveAlerts = alerts, sn_ActiveAlertCount = activeCount\<rparr>)"

section \<open>The populator\<close>

text \<open>
  The world model with the populator bound to it, the detector (the address of its overlay, and its baseline), and
  the store of modification overlays.
\<close>

record 'p Populator =
  po_wm :: "'p WorldModel option"
  po_modDetector :: "(nat \<times> (Coord \<rightharpoonup> baselineTile)) option"
  po_store :: "ModificationOverlay list"

definition SetModDetector :: "(nat \<times> (Coord \<rightharpoonup> baselineTile)) option \<Rightarrow> 'p Populator \<Rightarrow> 'p Populator" where
  "SetModDetector d p = p\<lparr>po_modDetector := d\<rparr>"

definition EntityTypeAnimal :: u8 where "EntityTypeAnimal = 0x03"

definition buildEntitySnapshot :: "EntityInfo list \<Rightarrow> go_time \<Rightarrow> u64 \<Rightarrow> EntitySnapshot" where
  "buildEntitySnapshot entities now seq =
     \<lparr>es_All = entities, es_Dwarves = filter (\<lambda>e. ei_Type e = EntityTypeDwarf) entities,
      es_Enemies = filter (\<lambda>e. ei_Type e = EntityTypeEnemy) entities,
      es_Animals = filter (\<lambda>e. ei_Type e = EntityTypeAnimal) entities, es_UpdatedAt = now, es_EventSeq = seq\<rparr>"

definition alert_of :: "go_time \<Rightarrow> AnnouncementInfo \<Rightarrow> Alert" where
  "alert_of now a = \<lparr>al_ID = an_ID a, al_TypeID = an_TypeID a, al_Severity = an_Severity a, al_Text = an_Text a,
     al_X = an_X a, al_Y = an_Y a, al_Z = an_Z a, al_GameYear = an_GameYear a, al_GameTick = an_GameTick a,
     al_ReceivedAt = now, al_Dismissed = False, al_RepeatCount = an_RepeatCount a\<rparr>"

text \<open>Announcements are paired with the time each is taken in.\<close>

fun add_announcements :: "(go_time \<times> AnnouncementInfo) list \<Rightarrow> AlertStore \<Rightarrow> AlertStore option" where
  "add_announcements [] s = Some s"
| "add_announcements ((now, a) # as) s = (case AddAlert (alert_of now a) s of
       None \<Rightarrow> None
     | Some (changed, s) \<Rightarrow> add_announcements as s)"

definition OnAnnouncementUpdate ::
  "(nat \<Rightarrow> go_time) \<Rightarrow> go_time \<Rightarrow> AnnouncementUpdateMessage option \<Rightarrow> 'p Populator \<Rightarrow> 'p Populator option" where
  "OnAnnouncementUpdate now marked msg p = (case (po_wm p, msg) of
       (Some w, Some m) \<Rightarrow> (case ob_Alerts (wm_Observed w) of
           None \<Rightarrow> Some p
         | Some s \<Rightarrow> (case add_announcements
               (zip (map now [0..<length (au_Announcements m)]) (au_Announcements m)) s of
               None \<Rightarrow> None
             | Some s \<Rightarrow> Some (p\<lparr>po_wm := Some (markUpdated marked (observed (\<lambda>ob. ob\<lparr>ob_Alerts := Some s\<rparr>) w))\<rparr>)))
     | _ \<Rightarrow> Some p)"

definition OnFullState :: "go_time \<Rightarrow> FullStateMessage option \<Rightarrow> 'p Populator \<Rightarrow> 'p Populator" where
  "OnFullState marked msg p = (case (po_wm p, msg) of
       (Some w, Some m) \<Rightarrow> p\<lparr>po_wm := Some (markUpdated marked (snd (AdvanceTick w)))\<rparr>
     | _ \<Rightarrow> p)"

text \<open>The tiles written to the overlay one by one, errors dropped; only a panic ends the loop.\<close>

fun set_tile_states :: "TileState list \<Rightarrow> TopologyOverlay \<Rightarrow> TopologyOverlay option" where
  "set_tile_states [] t = Some t"
| "set_tile_states (tile # tiles) t =
     (case SetTileState t (ts_X tile) (ts_Y tile) (ts_Z tile) (ClassifyState (ts_Flags tile)) of
        Inr t \<Rightarrow> set_tile_states tiles t
      | Inl Panic \<Rightarrow> None
      | Inl e \<Rightarrow> set_tile_states tiles t)"

definition update_topology :: "TileUpdateMessage \<Rightarrow> 'p WorldModel \<Rightarrow> 'p WorldModel option" where
  "update_topology m w = (case ob_Topology (wm_Observed w) of
       Some topo \<Rightarrow> if tu_Count m > 0
         then map_option (\<lambda>topo. observed (\<lambda>ob. ob\<lparr>ob_Topology := Some topo\<rparr>) w) (set_tile_states (tu_Tiles m) topo)
         else Some w
     | None \<Rightarrow> Some w)"

text \<open>\<open>clk\<close> gives the clock readings of each tile's hazard checks.\<close>

definition update_hazards :: "(nat \<Rightarrow> clock) \<Rightarrow> TileUpdateMessage \<Rightarrow> 'p WorldModel \<Rightarrow> 'p WorldModel" where
  "update_hazards clk m w = (case ob_Hazards (wm_Observed w) of
       Some hzd \<Rightarrow> if tu_Count m > 0
         then observed (\<lambda>ob. ob\<lparr>ob_Hazards :=
           Some (UpdateFromTiles (zip (map clk [0..<length (tu_Tiles m)]) (tu_Tiles m)) hzd)\<rparr>) w
         else w
     | None \<Rightarrow> w)"

definition update_modifications :: "go_time \<Rightarrow> go_time \<Rightarrow> TileUpdateMessage \<Rightarrow> 'p Populator \<Rightarrow> 'p Populator" where
  "update_modifications now clock m p = (case po_modDetector p of
       Some (a, baseline) \<Rightarrow> if tu_Count m > 0
         then (let d = snd (DetectModifications now clock (tu_Tiles m)
                     \<lparr>dt_baseline = baseline, dt_overlay = po_store p ! a\<rparr>)
               in p\<lparr>po_modDetector := Some (a, dt_baseline d), po_store := (po_store p)[a := dt_overlay d]\<rparr>)
         else p
     | None \<Rightarrow> p)"

definition OnTileUpdate ::
  "(nat \<Rightarrow> clock) \<Rightarrow> go_time \<Rightarrow> go_time \<Rightarrow> go_time \<Rightarrow> TileUpdateMessage option \<Rightarrow> 'p Populator \<Rightarrow> 'p Populator option" where
  "OnTileUpdate clk now clock marked msg p = (case (po_wm p, msg) of
       (Some w, Some m) \<Rightarrow> (case update_topology m w of
           None \<Rightarrow> None
         | Some w \<Rightarrow>
           let w = update_hazards clk m w;
               p = update_modifications now clock m p;
               w = (if tu_Count m > 0 then snd (AdvanceTileDeltaCount (of_nat (length (tu_Tiles m))) w) else w);
               w = markUpdated marked (snd (AdvanceTick w))
           in Some (p\<lparr>po_wm := Some w\<rparr>))
     | _ \<Rightarrow> Some p)"

text \<open>The identity a message reports, and what becomes of the known one.\<close>

definition world_of :: "WorldIdentity \<Rightarrow> WorldSnapshot" where
  "world_of i = \<lparr>ws_SaveDir = wi_SaveDir i, ws_ID1 = wi_ID1 i, ws_ID2 = wi_ID2 i, ws_Known = True, ws_Switches = 0\<rparr>"

definition switch_world :: "WorldIdentity option \<Rightarrow> WorldSnapshot \<Rightarrow> bool \<times> WorldSnapshot" where
  "switch_world reported prev = (case reported of
       None \<Rightarrow> (False, prev)
     | Some i \<Rightarrow>
         if Changed prev (world_of i) then (True, (world_of i)\<lparr>ws_Switches := ws_Switches prev + 1\<rparr>)
         else (False, (world_of i)\<lparr>ws_Switches := ws_Switches prev\<rparr>))"

definition fort_of :: "go_time \<Rightarrow> FortInfo \<Rightarrow> FortSnapshot" where
  "fort_of now f = \<lparr>ft_DaysElapsed = fi_DaysElapsed f, ft_CreatedWealth = fi_CreatedWealth f, ft_Season = fi_Season f,
     ft_Year = fi_Year f, ft_UpdatedAt = now, ft_Valid = True\<rparr>"

definition OnEntityUpdate ::
  "go_time \<Rightarrow> go_time \<Rightarrow> EntityUpdateMessage option \<Rightarrow> 'p Populator \<Rightarrow> 'p Populator" where
  "OnEntityUpdate now marked msg p = (case (po_wm p, msg) of
       (Some w, Some m) \<Rightarrow>
         let w = snd (AdvanceTick w);
             (eventSeq, w) = NextEventID w;
             entSnap = buildEntitySnapshot (eu_Entities m) now eventSeq;
             zoneSnap = \<lparr>zs_All = eu_Zones m, zs_UpdatedAt = now, zs_EventSeq = eventSeq\<rparr>;
             (worldSwitched, world) = switch_world (eu_World m) (ob_World (wm_Observed w));
             w = observed (\<lambda>ob. ob\<lparr>ob_World := world, ob_Entities := entSnap, ob_Zones := zoneSnap,
                   ob_Fort := (case eu_FortInfo m of None \<Rightarrow> ob_Fort ob | Some f \<Rightarrow> fort_of now f)\<rparr>) w;
             w = (if worldSwitched then observed (\<lambda>ob. ob\<lparr>ob_Alerts := map_option ResetAlerts (ob_Alerts ob)\<rparr>) w else w)
         in p\<lparr>po_wm := Some (markUpdated marked w)\<rparr>
     | _ \<Rightarrow> p)"

section \<open>Installing a full state\<close>

text \<open>
  The overlay built from a full state; no overlay when the dimensions or the tiles are refused, and the left side for a
  panic.
\<close>

definition full_state_topology :: "FullStateMessage \<Rightarrow> go_error + TopologyOverlay option" where
  "full_state_topology state =
     (case NewTopologyOverlay (fs_Width state) (fs_Height state) (fs_Depth state) of
        None \<Rightarrow> Inr None
      | Some topo \<Rightarrow> (case BuildFromTiles topo (fs_Tiles state) of
          Inl Panic \<Rightarrow> Inl Panic
        | Inl e \<Rightarrow> Inr None
        | Inr topo \<Rightarrow> Inr (Some topo)))"

definition install_full_state ::
  "clock \<Rightarrow> clock \<Rightarrow> (nat \<Rightarrow> clock) \<Rightarrow> go_time \<Rightarrow> go_time \<Rightarrow> FullStateMessage \<Rightarrow> 'p Populator \<Rightarrow> 'p Populator option" where
  "install_full_state made cleared clk now marked state p = (case full_state_topology state of
        Inl e \<Rightarrow> None
      | Inr None \<Rightarrow> Some p
      | Inr (Some topo) \<Rightarrow>
          let hzd = BuildHazards cleared (zip (map clk [0..<length (fs_Tiles state)]) (fs_Tiles state))
                (NewHazardManager made (fs_Width state) (fs_Height state) (fs_Depth state));
              mods = NewModificationOverlay now
                \<lparr>mb_Width = fs_Width state, mb_Height = fs_Height state, mb_Depth = fs_Depth state\<rparr>;
              det = InitializeBaseline (fs_Tiles state) (NewDetector mods);
              a = length (po_store p);
              p = p\<lparr>po_store := po_store p @ [dt_overlay det],
                    po_wm := map_option (SetOverlays (Some topo) (Some hzd) (Some a)) (po_wm p)\<rparr>;
              p = SetModDetector (Some (a, dt_baseline det)) p
          in Some (OnFullState marked (Some state) p))"

section \<open>Predicates on the world model\<close>

datatype Horizon = HorizonNow | HorizonSoon | HorizonEventual

record Result =
  re_Horizon :: Horizon
  re_Satisfied :: bool
  re_Confidence :: rat
  re_CheckedAt :: go_time

datatype Predicate =
    HasMinDwarves int Horizon
  | HasShelter int Horizon
  | HasModifiedAnything Horizon
  | NoActiveHostiles Horizon
  | HasBedroomZones int Horizon
  | HasDiningHall Horizon

definition ZoneTypeBedroom :: u8 where "ZoneTypeBedroom = 0x01"
definition ZoneTypeDiningHall :: u8 where "ZoneTypeDiningHall = 0x04"

definition sec :: int where "sec = 1000000000"
definition minute :: int where "minute = 60 * sec"

definition confidenceFromFreshness :: "go_time \<Rightarrow> go_time \<Rightarrow> rat" where
  "confidenceFromFreshness now observedAt =
     (if observedAt = 0 then 0
      else let age = int now - int observedAt in
       if age < 30 * sec then 1
       else if age < 5 * minute then
         (let t = of_int (age - 30 * sec) / of_int (5 * minute - 30 * sec) in 1 - (1 / 2) * t)
       else if age < 30 * minute then
         (let t = of_int (age - 5 * minute) / of_int (30 * minute - 5 * minute) in (1 / 2) * (1 - t))
       else 0)"

text \<open>The count of dug tiles: the live one when there is one, else that of the overlay of modifications.\<close>

definition dugTiles :: "ModificationOverlay list \<Rightarrow> 'p WorldModel \<Rightarrow> int" where
  "dugTiles store w =
     (let overlayCount = (case ob_Modifications (wm_Observed w) of
            None \<Rightarrow> 0
          | Some a \<Rightarrow> uint (GetCount (store ! a)));
          live = LiveDugTiles w
      in if lv_Ok live then uint (lv_Count live) else overlayCount)"

definition count_zones :: "u8 \<Rightarrow> ZoneData list \<Rightarrow> int" where
  "count_zones t zs = int (length (filter (\<lambda>z. zn_ZoneType z = t) zs))"

definition result :: "Horizon \<Rightarrow> bool \<Rightarrow> rat \<Rightarrow> go_time \<Rightarrow> Result" where
  "result h satisfied confidence now =
     \<lparr>re_Horizon = h, re_Satisfied = satisfied, re_Confidence = confidence, re_CheckedAt = now\<rparr>"

definition check_min_dwarves :: "go_time \<Rightarrow> 'p WorldModel \<Rightarrow> int \<Rightarrow> Horizon \<Rightarrow> Result" where
  "check_min_dwarves now w minimum h =
     (let ents = ob_Entities (wm_Observed w); count = int (length (es_Dwarves ents))
      in result h (count \<ge> minimum) (confidenceFromFreshness now (es_UpdatedAt ents)) now)"

definition check_shelter ::
  "go_time \<Rightarrow> ModificationOverlay list \<Rightarrow> 'p WorldModel \<Rightarrow> int \<Rightarrow> Horizon \<Rightarrow> Result" where
  "check_shelter now store w perDwarf h =
     (let ents = ob_Entities (wm_Observed w); dwarfCount = int (length (es_Dwarves ents))
      in if dwarfCount = 0 then result h False (1 / 2) now
         else result h (dugTiles store w \<ge> dwarfCount * perDwarf) (confidenceFromFreshness now (es_UpdatedAt ents)) now)"

definition check_modified :: "go_time \<Rightarrow> ModificationOverlay list \<Rightarrow> 'p WorldModel \<Rightarrow> Horizon \<Rightarrow> Result" where
  "check_modified now store w h = result h (dugTiles store w > 0) 1 now"

definition check_hostiles :: "go_time \<Rightarrow> 'p WorldModel \<Rightarrow> Horizon \<Rightarrow> Result" where
  "check_hostiles now w h =
     (let ents = ob_Entities (wm_Observed w)
      in result h (length (es_Enemies ents) = 0) (confidenceFromFreshness now (es_UpdatedAt ents)) now)"

definition check_bedrooms :: "go_time \<Rightarrow> 'p WorldModel \<Rightarrow> int \<Rightarrow> Horizon \<Rightarrow> Result" where
  "check_bedrooms now w minimum h =
     (let zones = ob_Zones (wm_Observed w)
      in result h (count_zones ZoneTypeBedroom (zs_All zones) \<ge> minimum) (confidenceFromFreshness now (zs_UpdatedAt zones)) now)"

definition check_dining_hall :: "go_time \<Rightarrow> 'p WorldModel \<Rightarrow> Horizon \<Rightarrow> Result" where
  "check_dining_hall now w h =
     (let zones = ob_Zones (wm_Observed w)
      in result h (count_zones ZoneTypeDiningHall (zs_All zones) \<ge> 1) (confidenceFromFreshness now (zs_UpdatedAt zones)) now)"

text \<open>The method of the interface.\<close>

fun Check :: "go_time \<Rightarrow> ModificationOverlay list \<Rightarrow> 'p WorldModel \<Rightarrow> Predicate \<Rightarrow> Result" where
  "Check now store w (HasMinDwarves minimum h) = check_min_dwarves now w minimum h"
| "Check now store w (HasShelter perDwarf h) = check_shelter now store w perDwarf h"
| "Check now store w (HasModifiedAnything h) = check_modified now store w h"
| "Check now store w (NoActiveHostiles h) = check_hostiles now w h"
| "Check now store w (HasBedroomZones minimum h) = check_bedrooms now w minimum h"
| "Check now store w (HasDiningHall h) = check_dining_hall now w h"

lemmas check_defs = check_min_dwarves_def check_shelter_def check_modified_def check_hostiles_def check_bedrooms_def
  check_dining_hall_def result_def

text \<open>A library is the list of its predicates.\<close>

definition Register :: "Predicate \<Rightarrow> Predicate list \<Rightarrow> Predicate list" where
  "Register p lib = lib @ [p]"

definition NewStarterLibrary :: "Predicate list" where
  "NewStarterLibrary = fold Register
     [HasModifiedAnything HorizonNow, HasMinDwarves 7 HorizonNow, HasShelter 6 HorizonNow, NoActiveHostiles HorizonNow,
      HasBedroomZones 7 HorizonSoon, HasDiningHall HorizonSoon, HasMinDwarves 14 HorizonSoon, HasShelter 12 HorizonSoon,
      HasBedroomZones 15 HorizonEventual] []"

definition CheckAll ::
  "(nat \<Rightarrow> go_time) \<Rightarrow> ModificationOverlay list \<Rightarrow> 'p WorldModel option \<Rightarrow> Predicate list \<Rightarrow> Result list" where
  "CheckAll now store wm lib = (case wm of
       None \<Rightarrow> []
     | Some w \<Rightarrow> map (\<lambda>(k, p). Check (now k) store w p) (List.enumerate 0 lib))"

definition SatisfiedCount :: "Result list \<Rightarrow> int" where
  "SatisfiedCount results = int (length (filter re_Satisfied results))"

definition FilterByHorizon :: "Result list \<Rightarrow> Horizon \<Rightarrow> Result list" where
  "FilterByHorizon results h = filter (\<lambda>r. re_Horizon r = h) results"

definition Unsatisfied :: "Result list \<Rightarrow> Result list" where
  "Unsatisfied results = filter (\<lambda>r. \<not> re_Satisfied r) results"

section \<open>Runs\<close>

text \<open>What reaches the model: the client's messages, in the order one goroutine takes them, and dismissals of alerts.\<close>

datatype perception_event =
    FullStateArrived clock clock "nat \<Rightarrow> clock" go_time go_time FullStateMessage
  | TilesArrived "nat \<Rightarrow> clock" go_time go_time go_time TileUpdateMessage
  | EntitiesArrived go_time go_time EntityUpdateMessage
  | AnnouncementsArrived "nat \<Rightarrow> go_time" go_time AnnouncementUpdateMessage
  | AlertDismissed u32
  | AllAlertsDismissed

definition dismiss_alert :: "u32 \<Rightarrow> 'p Populator \<Rightarrow> 'p Populator option" where
  "dismiss_alert i p = (case po_wm p of
       None \<Rightarrow> Some p
     | Some w \<Rightarrow> (case ob_Alerts (wm_Observed w) of
         None \<Rightarrow> Some p
       | Some s \<Rightarrow> (case Dismiss i s of
           None \<Rightarrow> None
         | Some (dismissed, s) \<Rightarrow> Some (p\<lparr>po_wm := Some (observed (\<lambda>ob. ob\<lparr>ob_Alerts := Some s\<rparr>) w)\<rparr>))))"

definition dismiss_all_alerts :: "'p Populator \<Rightarrow> 'p Populator" where
  "dismiss_all_alerts p = p\<lparr>po_wm := map_option (observed (\<lambda>ob. ob\<lparr>ob_Alerts :=
     map_option (\<lambda>s. snd (DismissAll s)) (ob_Alerts ob)\<rparr>)) (po_wm p)\<rparr>"

fun perceive :: "perception_event \<Rightarrow> 'p Populator \<Rightarrow> 'p Populator option" where
  "perceive (FullStateArrived made cleared clk now marked m) p = install_full_state made cleared clk now marked m p"
| "perceive (TilesArrived clk now clock marked m) p = OnTileUpdate clk now clock marked (Some m) p"
| "perceive (EntitiesArrived now marked m) p = Some (OnEntityUpdate now marked (Some m) p)"
| "perceive (AnnouncementsArrived now marked m) p = OnAnnouncementUpdate now marked (Some m) p"
| "perceive (AlertDismissed i) p = dismiss_alert i p"
| "perceive AllAlertsDismissed p = Some (dismiss_all_alerts p)"

fun perceive_all :: "perception_event list \<Rightarrow> 'p Populator \<Rightarrow> 'p Populator option" where
  "perceive_all [] p = Some p"
| "perceive_all (e # es) p = Option.bind (perceive e p) (perceive_all es)"

definition new_populator :: "go_time \<Rightarrow> 'p Populator" where
  "new_populator born = \<lparr>po_wm = Some (NewWorldModel born None None None), po_modDetector = None, po_store = []\<rparr>"

lemma perceive_all_append: "perceive_all (es @ fs) p = Option.bind (perceive_all es p) (perceive_all fs)"
  by (induction es arbitrary: p) (auto split: bind_splits)

section \<open>What a run amounts to\<close>

text \<open>
  The specification of the model's state: the identity of the world and how often it changed, the bounded list of
  alerts since the last change, the tiles observed since the last full state with the bounds of the map, and the
  last message about entities.
\<close>

record Perceived =
  pd_world :: "WorldIdentity option"
  pd_switches :: int
  pd_alerts :: "Alert list"
  pd_seen :: "(MapBounds \<times> TileState list) option"
  pd_last :: "EntityUpdateMessage option"

definition nothing_perceived :: Perceived where
  "nothing_perceived = \<lparr>pd_world = None, pd_switches = 0, pd_alerts = [], pd_seen = None, pd_last = None\<rparr>"

definition effective_tiles :: "TileUpdateMessage \<Rightarrow> TileState list" where
  "effective_tiles m = (if tu_Count m > 0 then tu_Tiles m else [])"

definition full_bounds :: "FullStateMessage \<Rightarrow> MapBounds" where
  "full_bounds m = \<lparr>mb_Width = fs_Width m, mb_Height = fs_Height m, mb_Depth = fs_Depth m\<rparr>"

text \<open>Another world than the one known.\<close>

definition other_world :: "WorldIdentity option \<Rightarrow> WorldIdentity option \<Rightarrow> bool" where
  "other_world known reported \<longleftrightarrow> known \<noteq> None \<and> reported \<noteq> None \<and> known \<noteq> reported"

fun perceived_step :: "perception_event \<Rightarrow> Perceived \<Rightarrow> Perceived" where
  "perceived_step (FullStateArrived made cleared clk now marked m) d = d\<lparr>pd_seen := Some (full_bounds m, fs_Tiles m)\<rparr>"
| "perceived_step (TilesArrived clk now clock marked m) d =
     d\<lparr>pd_seen := map_option (\<lambda>(b, ts). (b, ts @ effective_tiles m)) (pd_seen d)\<rparr>"
| "perceived_step (EntitiesArrived now marked m) d =
     (let d' = d\<lparr>pd_last := Some m, pd_world := (if eu_World m = None then pd_world d else eu_World m)\<rparr>
      in if other_world (pd_world d) (eu_World m) then d'\<lparr>pd_switches := pd_switches d + 1, pd_alerts := []\<rparr> else d')"
| "perceived_step (AnnouncementsArrived now marked m) d =
     d\<lparr>pd_alerts := fold (\<lambda>(t, a). spec_add 200 (alert_of t a))
        (zip (map now [0..<length (au_Announcements m)]) (au_Announcements m)) (pd_alerts d)\<rparr>"
| "perceived_step (AlertDismissed i) d = d\<lparr>pd_alerts := spec_dismiss i (pd_alerts d)\<rparr>"
| "perceived_step AllAlertsDismissed d =
     d\<lparr>pd_alerts := map (al_Dismissed_update (\<lambda>_. True)) (pd_alerts d)\<rparr>"

definition perceived :: "perception_event list \<Rightarrow> Perceived" where
  "perceived es = fold perceived_step es nothing_perceived"

text \<open>A full state whose map fits the coordinates and lists every tile of the map once.\<close>

definition good_full_state :: "FullStateMessage \<Rightarrow> bool" where
  "good_full_state m \<longleftrightarrow>
     0 < unat (fs_Width m) \<and> 0 < unat (fs_Height m) \<and> 0 < unat (fs_Depth m) \<and>
     unat (fs_Width m) < 32768 \<and> unat (fs_Height m) < 32768 \<and> unat (fs_Depth m) < 32768 \<and>
     unat (fs_Width m) * unat (fs_Height m) * unat (fs_Depth m) + 7 < 2 ^ 32 \<and>
     length (fs_Tiles m) = unat (fs_Width m) * unat (fs_Height m) * unat (fs_Depth m) \<and>
     (\<forall>t\<in>set (fs_Tiles m). bounds_error (full_bounds m) (tile_coord t) = None) \<and>
     distinct (map tile_coord (fs_Tiles m))"

fun good_event :: "perception_event \<Rightarrow> bool" where
  "good_event (FullStateArrived made cleared clk now marked m) = good_full_state m"
| "good_event e = True"

text \<open>The parts of the observed state against the parts of the specification.\<close>

definition alerts_track :: "Alert list \<Rightarrow> AlertStore option \<Rightarrow> bool" where
  "alerts_track as store \<longleftrightarrow> (\<exists>s. store = Some s \<and> alert_inv s \<and> as_capacity s = 200 \<and> as_entries s = as)"

definition world_track :: "WorldIdentity option \<Rightarrow> int \<Rightarrow> WorldSnapshot \<Rightarrow> bool" where
  "world_track known n w \<longleftrightarrow> ws_Switches w = n \<and> (case known of
       None \<Rightarrow> \<not> ws_Known w
     | Some i \<Rightarrow> ws_Known w \<and> ws_SaveDir w = wi_SaveDir i \<and> ws_ID1 w = wi_ID1 i \<and> ws_ID2 w = wi_ID2 i)"

definition roster_track :: "EntityUpdateMessage option \<Rightarrow> ObservedState \<Rightarrow> bool" where
  "roster_track msg ob \<longleftrightarrow> (case msg of
       None \<Rightarrow> True
     | Some m \<Rightarrow> es_Dwarves (ob_Entities ob) = filter (\<lambda>e. ei_Type e = EntityTypeDwarf) (eu_Entities m) \<and>
         es_Enemies (ob_Entities ob) = filter (\<lambda>e. ei_Type e = EntityTypeEnemy) (eu_Entities m) \<and>
         es_All (ob_Entities ob) = eu_Entities m \<and> zs_All (ob_Zones ob) = eu_Zones m)"

definition topology_in_step :: "MapBounds \<Rightarrow> TileState list \<Rightarrow> TopologyOverlay \<Rightarrow> bool" where
  "topology_in_step b ts t \<longleftrightarrow> ov_wf t \<and>
     ov_width t = mb_Width b \<and> ov_height t = mb_Height b \<and> ov_depth t = mb_Depth b \<and>
     (\<forall>x y z. GetTileState t x y z = Inr (
        if bounds_error b \<lparr>cd_X = x, cd_Y = y, cd_Z = z\<rparr> = None
        then (case last_at ts \<lparr>cd_X = x, cd_Y = y, cd_Z = z\<rparr> of
                None \<Rightarrow> StateUnknown
              | Some u \<Rightarrow> ClassifyState (ts_Flags u))
        else StateUnknown))"

definition detector_in_step ::
  "MapBounds \<Rightarrow> TileState list \<Rightarrow> nat option \<Rightarrow> (nat \<times> (Coord \<rightharpoonup> baselineTile)) option \<Rightarrow> ModificationOverlay list \<Rightarrow> bool" where
  "detector_in_step b ts m det store \<longleftrightarrow> (\<exists>a base n. m = Some a \<and> det = Some (a, base) \<and> a < length store \<and>
     detector_inv b ts (n, \<lparr>dt_baseline = base, dt_overlay = store ! a\<rparr>))"

definition views_track :: "(MapBounds \<times> TileState list) option \<Rightarrow> ObservedState \<Rightarrow>
    (nat \<times> (Coord \<rightharpoonup> baselineTile)) option \<Rightarrow> ModificationOverlay list \<Rightarrow> bool" where
  "views_track seen ob det store \<longleftrightarrow> (case seen of
       None \<Rightarrow> ob_Topology ob = None \<and> ob_Hazards ob = None \<and> det = None
     | Some (b, ts) \<Rightarrow> (\<exists>t h. ob_Topology ob = Some t \<and> topology_in_step b ts t \<and>
         ob_Hazards ob = Some h \<and> manager_in_step b ts h \<and>
         detector_in_step b ts (ob_Modifications ob) det store))"

definition tracks :: "Perceived \<Rightarrow> 'p Populator \<Rightarrow> bool" where
  "tracks d p \<longleftrightarrow> (\<exists>w. po_wm p = Some w \<and> alerts_track (pd_alerts d) (ob_Alerts (wm_Observed w)) \<and>
     world_track (pd_world d) (pd_switches d) (ob_World (wm_Observed w)) \<and> roster_track (pd_last d) (wm_Observed w) \<and>
     views_track (pd_seen d) (wm_Observed w) (po_modDetector p) (po_store p))"

lemma views_track_frame [simp]:
  "views_track seen (ob\<lparr>ob_Alerts := a\<rparr>) det store = views_track seen ob det store"
  "views_track seen (ob\<lparr>ob_World := ws\<rparr>) det store = views_track seen ob det store"
  "views_track seen (ob\<lparr>ob_Entities := es\<rparr>) det store = views_track seen ob det store"
  "views_track seen (ob\<lparr>ob_Zones := zs\<rparr>) det store = views_track seen ob det store"
  "views_track seen (ob\<lparr>ob_Fort := f\<rparr>) det store = views_track seen ob det store"
  by (simp_all add: views_track_def split: option.split prod.split)

lemma roster_track_frame [simp]:
  "roster_track msg (ob\<lparr>ob_Alerts := a\<rparr>) = roster_track msg ob"
  "roster_track msg (ob\<lparr>ob_World := ws\<rparr>) = roster_track msg ob"
  "roster_track msg (ob\<lparr>ob_Fort := f\<rparr>) = roster_track msg ob"
  "roster_track msg (ob\<lparr>ob_Topology := t\<rparr>) = roster_track msg ob"
  "roster_track msg (ob\<lparr>ob_Hazards := h\<rparr>) = roster_track msg ob"
  "roster_track msg (ob\<lparr>ob_Modifications := m\<rparr>) = roster_track msg ob"
  by (simp_all add: roster_track_def split: option.split)

lemma roster_track_new [simp]:
  "roster_track (Some m) (ob\<lparr>ob_Entities := buildEntitySnapshot (eu_Entities m) now seq,
     ob_Zones := \<lparr>zs_All = eu_Zones m, zs_UpdatedAt = now, zs_EventSeq = seq\<rparr>\<rparr>)"
  by (simp add: roster_track_def buildEntitySnapshot_def)

lemmas wm_step_defs = markUpdated_def AdvanceTick_def NextEventID_def AdvanceTileDeltaCount_def

lemma tracks_new: "tracks nothing_perceived (new_populator born)"
  using NewAlertStore_inv [of 0]
  by (simp add: tracks_def new_populator_def NewWorldModel_def zero_Observed_def nothing_perceived_def alerts_track_def
    world_track_def roster_track_def views_track_def) (simp add: NewAlertStore_def)

subsection \<open>Alerts and the world\<close>

lemma add_announcements_correct:
  assumes "alert_inv s" "as_capacity s = 200"
  shows "\<exists>s'. add_announcements as s = Some s' \<and> alert_inv s' \<and> as_capacity s' = 200 \<and>
    as_entries s' = fold (\<lambda>(t, a). spec_add 200 (alert_of t a)) as (as_entries s)"
  using assms
proof (induction as s rule: add_announcements.induct)
  case (2 now a as s)
  obtain s' where s': "AddAlert (alert_of now a) s = Some (spec_changed (alert_of now a) (as_entries s), s')"
      "alert_inv s'" "as_entries s' = spec_add (as_capacity s) (alert_of now a) (as_entries s)" "as_capacity s' = as_capacity s"
    by (rule AddAlert_correct [OF 2(2)])
  then show ?case using 2(1) [OF s'(1) refl s'(2)] 2(3) by simp
qed simp

lemma announcements_tracked:
  assumes "tracks d p"
  shows "\<exists>p'. perceive (AnnouncementsArrived now marked m) p = Some p' \<and>
    tracks (perceived_step (AnnouncementsArrived now marked m) d) p'"
proof -
  obtain w s where w: "po_wm p = Some w" "ob_Alerts (wm_Observed w) = Some s" "alert_inv s" "as_capacity s = 200"
      "as_entries s = pd_alerts d"
    using assms by (auto simp: tracks_def alerts_track_def)
  obtain s' where "add_announcements (zip (map now [0..<length (au_Announcements m)]) (au_Announcements m)) s = Some s'"
      "alert_inv s'" "as_capacity s' = 200" "as_entries s' = fold (\<lambda>(t, a). spec_add 200 (alert_of t a))
        (zip (map now [0..<length (au_Announcements m)]) (au_Announcements m)) (pd_alerts d)"
    using add_announcements_correct [OF w(3,4)] w(5) by metis
  then show ?thesis
    using assms w by (simp add: OnAnnouncementUpdate_def tracks_def alerts_track_def wm_step_defs)
qed

lemma dismissal_tracked:
  assumes "tracks d p"
  shows "\<exists>p'. perceive (AlertDismissed i) p = Some p' \<and> tracks (perceived_step (AlertDismissed i) d) p'"
proof -
  obtain w s where w: "po_wm p = Some w" "ob_Alerts (wm_Observed w) = Some s" "alert_inv s" "as_capacity s = 200"
      "as_entries s = pd_alerts d"
    using assms by (auto simp: tracks_def alerts_track_def)
  then show ?thesis
    using assms Dismiss_correct [OF w(3), of i]
    by (auto simp: dismiss_alert_def tracks_def alerts_track_def)
qed

lemma full_dismissal_tracked:
  assumes "tracks d p"
  shows "\<exists>p'. perceive AllAlertsDismissed p = Some p' \<and> tracks (perceived_step AllAlertsDismissed d) p'"
proof -
  obtain w s where w: "po_wm p = Some w" "ob_Alerts (wm_Observed w) = Some s" "alert_inv s" "as_capacity s = 200"
      "as_entries s = pd_alerts d"
    using assms by (auto simp: tracks_def alerts_track_def)
  then show ?thesis
    using assms DismissAll_correct [OF w(3)]
    by (auto simp: dismiss_all_alerts_def tracks_def alerts_track_def)
qed

lemma switch_world_track:
  assumes "world_track known n w"
  shows "fst (switch_world reported w) \<longleftrightarrow> other_world known reported"
    and "world_track (if reported = None then known else reported) (if other_world known reported then n + 1 else n)
      (snd (switch_world reported w))"
  using assms
  by (auto simp: switch_world_def world_track_def other_world_def Changed_def world_of_def split: option.splits)

lemma entities_tracked:
  assumes "tracks d p"
  shows "\<exists>p'. perceive (EntitiesArrived now marked m) p = Some p' \<and>
    tracks (perceived_step (EntitiesArrived now marked m) d) p'"
proof -
  obtain w where w: "po_wm p = Some w" and world: "world_track (pd_world d) (pd_switches d) (ob_World (wm_Observed w))"
    using assms by (auto simp: tracks_def)
  obtain b ws where sw: "switch_world (eu_World m) (ob_World (wm_Observed w)) = (b, ws)" by fastforce
  note tr = switch_world_track [OF world, of "eu_World m", unfolded sw, simplified]
  show ?thesis
    using assms w sw tr ResetAlerts_inv
    by (auto simp: OnEntityUpdate_def tracks_def alerts_track_def wm_step_defs Let_def ResetAlerts_def)
qed

subsection \<open>Tiles\<close>

lemma in_bounds_iff:
  assumes "ov_width t = mb_Width b" "ov_height t = mb_Height b" "ov_depth t = mb_Depth b"
  shows "in_bounds t x y z \<longleftrightarrow> bounds_error b \<lparr>cd_X = x, cd_Y = y, cd_Z = z\<rparr> = None"
  using assms by (simp add: in_bounds_def bounds_error_def)

lemma tile_set_in_step:
  fixes u :: TileState
  assumes "topology_in_step b ts t"
  defines "s \<equiv> SetTileState t (ts_X u) (ts_Y u) (ts_Z u) (ClassifyState (ts_Flags u))"
  shows "(s = Inl OutOfRange \<and> topology_in_step b (ts @ [u]) t) \<or> (\<exists>t'. s = Inr t' \<and> topology_in_step b (ts @ [u]) t')"
proof -
  have t: "ov_wf t" "ov_width t = mb_Width b" "ov_height t = mb_Height b" "ov_depth t = mb_Depth b"
    and read: "\<And>x y z. GetTileState t x y z = Inr (if bounds_error b \<lparr>cd_X = x, cd_Y = y, cd_Z = z\<rparr> = None
        then (case last_at ts \<lparr>cd_X = x, cd_Y = y, cd_Z = z\<rparr> of
                None \<Rightarrow> StateUnknown | Some u \<Rightarrow> ClassifyState (ts_Flags u)) else StateUnknown)"
    using assms(1) by (auto simp: topology_in_step_def)
  have last: "last_at (ts @ [u]) c = (if tile_coord u = c then Some u else last_at ts c)" for c
    by (simp add: last_at_append last_at_Cons)
  show ?thesis
  proof (cases "in_bounds t (ts_X u) (ts_Y u) (ts_Z u)")
    case False
    then have "bounds_error b (tile_coord u) \<noteq> None" using in_bounds_iff [OF t(2-4)] by (simp add: tile_coord_def)
    then have "topology_in_step b (ts @ [u]) t"
      using t read by (auto simp: topology_in_step_def last)
    then show ?thesis using False by (simp add: s_def SetTileState_def)
  next
    case True
    then have "bounds_error b (tile_coord u) = None" using in_bounds_iff [OF t(2-4)] by (simp add: tile_coord_def)
    moreover obtain t' where t': "s = Inr t'" "ov_wf t'" "same_shape t t'"
        "\<And>x' y' z'. GetTileState t' x' y' z' = (if x' = ts_X u \<and> y' = ts_Y u \<and> z' = ts_Z u
          then Inr (ClassifyState (ts_Flags u)) else GetTileState t x' y' z')"
      using SetTileState_read [OF t(1) True, of "ClassifyState (ts_Flags u)"] unfolding s_def by blast
    ultimately have "topology_in_step b (ts @ [u]) t'"
      using t read by (auto simp: topology_in_step_def last tile_coord_def same_shape_def)
    then show ?thesis using t'(1) by blast
  qed
qed

lemma tiles_set_in_step:
  "topology_in_step b ts t \<Longrightarrow> \<exists>t'. set_tile_states us t = Some t' \<and> topology_in_step b (ts @ us) t'"
proof (induction us arbitrary: ts t)
  case (Cons u us)
  from tile_set_in_step [OF Cons.prems, of u]
  obtain t' where "set_tile_states (u # us) t = set_tile_states us t'" "topology_in_step b (ts @ [u]) t'"
    by (elim disjE exE conjE) simp_all
  then show ?case using Cons.IH [of "ts @ [u]" t'] by simp
qed simp

lemma map_snd_zip_readings [simp]: "map snd (zip (map f [0..<length xs]) xs) = xs"
  by simp

lemma detector_fields [simp]: "\<lparr>dt_baseline = dt_baseline d, dt_overlay = dt_overlay d\<rparr> = d" for d :: Detector
  by (cases d) simp

lemma detected_in_step:
  assumes "detector_inv b ts (n, d)"
  shows "\<exists>n'. detector_inv b (ts @ us) (n', snd (DetectModifications now clock us d))"
proof -
  obtain k d' where "DetectModifications now clock us d = (k, d')" by fastforce
  then show ?thesis using observe_inv [OF assms, of "[(now, clock, us)]"] by (auto simp: observe_def)
qed

lemma tiles_tracked:
  assumes "tracks d p"
  shows "\<exists>p'. perceive (TilesArrived clk now clock marked m) p = Some p' \<and>
    tracks (perceived_step (TilesArrived clk now clock marked m) d) p'"
proof -
  obtain w where w: "po_wm p = Some w" and views: "views_track (pd_seen d) (wm_Observed w) (po_modDetector p) (po_store p)"
    using assms by (auto simp: tracks_def)
  show ?thesis
  proof (cases "pd_seen d")
    case None
    then show ?thesis
      using assms w views by (simp add: OnTileUpdate_def update_topology_def update_hazards_def update_modifications_def
        tracks_def wm_step_defs Let_def views_track_def)
  next
    case (Some bts)
    then obtain b ts t h a base n where seen: "pd_seen d = Some (b, ts)"
      and v: "ob_Topology (wm_Observed w) = Some t" "topology_in_step b ts t" "ob_Hazards (wm_Observed w) = Some h"
        "manager_in_step b ts h" "ob_Modifications (wm_Observed w) = Some a" "po_modDetector p = Some (a, base)"
        "a < length (po_store p)" "detector_inv b ts (n, \<lparr>dt_baseline = base, dt_overlay = po_store p ! a\<rparr>)"
      using views by (cases bts) (auto simp: views_track_def detector_in_step_def)
    show ?thesis
    proof (cases "tu_Count m > 0")
      case False
      then show ?thesis
        using assms w seen v by (simp add: OnTileUpdate_def update_topology_def update_hazards_def update_modifications_def
          tracks_def wm_step_defs Let_def effective_tiles_def)
    next
      case True
      obtain t' where t': "set_tile_states (tu_Tiles m) t = Some t'" "topology_in_step b (ts @ tu_Tiles m) t'"
        using tiles_set_in_step [OF v(2)] by blast
      have h': "manager_in_step b (ts @ tu_Tiles m) (UpdateFromTiles (zip (map clk [0..<length (tu_Tiles m)]) (tu_Tiles m)) h)"
        using updated_in_step [OF v(4), of "zip (map clk [0..<length (tu_Tiles m)]) (tu_Tiles m)"] by simp
      obtain n' where d': "detector_inv b (ts @ tu_Tiles m) (n', snd (DetectModifications now clock (tu_Tiles m)
          \<lparr>dt_baseline = base, dt_overlay = po_store p ! a\<rparr>))"
        using detected_in_step [OF v(8)] by blast
      then show ?thesis
        using assms w seen v True t' h'
        by (auto simp: OnTileUpdate_def update_topology_def update_hazards_def update_modifications_def
          tracks_def wm_step_defs Let_def effective_tiles_def views_track_def detector_in_step_def intro!: exI [of _ n'])
    qed
  qed
qed

lemma full_topology:
  assumes "good_full_state m"
  obtains t where "full_state_topology m = Inr (Some t)" "topology_in_step (full_bounds m) (fs_Tiles m) t"
proof -
  let ?b = "full_bounds m" and ?ts = "fs_Tiles m"
  have dims: "fs_Width m \<noteq> 0" "fs_Height m \<noteq> 0" "fs_Depth m \<noteq> 0" and tiles: "distinct (map tile_coord ?ts)"
      "\<forall>u\<in>set ?ts. bounds_error ?b (tile_coord u) = None"
      "length ?ts = unat (fs_Width m) * unat (fs_Height m) * unat (fs_Depth m)"
    using assms by (auto simp: good_full_state_def)
  then obtain t0 where t0: "NewTopologyOverlay (fs_Width m) (fs_Height m) (fs_Depth m) = Some t0"
    by (simp add: NewTopologyOverlay_def Let_def)
  have wf0: "ov_wf t0" "ov_width t0 = fs_Width m" "ov_height t0 = fs_Height m" "ov_depth t0 = fs_Depth m"
    using NewTopologyOverlay_wf [OF t0] assms by (simp_all add: good_full_state_def)
  define u where "u = t0\<lparr>ov_data := replicate (unat ((ov_totalTiles t0 + 7) div 8)) 0,
    ov_known := replicate (unat ((ov_totalTiles t0 + 7) div 8)) 0, ov_openTileCount := 0, ov_closedTileCount := 0\<rparr>"
  note u = reset_overlay [OF wf0(1), folded u_def]
  have udims: "ov_width u = mb_Width ?b" "ov_height u = mb_Height ?b" "ov_depth u = mb_Depth ?b"
    by (simp_all add: u_def wf0 full_bounds_def)
  have size: "length ?ts = ov_size t0" using tiles(3) by (simp add: ov_size_def wf0)
  then have build: "BuildFromTiles t0 ?ts = build_tiles u ?ts"
    using wf0(1) by (simp add: BuildFromTiles_def u_def Let_def ov_wf_def)
  have pos: "tile_pos v = (cd_X (tile_coord v), cd_Y (tile_coord v), cd_Z (tile_coord v))" for v
    by (simp add: tile_pos_def tile_coord_def)
  have "inj_on (\<lambda>c :: Coord. (cd_X c, cd_Y c, cd_Z c)) A" for A
    by (rule inj_onI) (auto intro: Coord.equality)
  then have "distinct (map tile_pos ?ts)"
    using tiles(1) distinct_map [of "\<lambda>c. (cd_X c, cd_Y c, cd_Z c)" "map tile_coord ?ts"]
    by (simp add: pos [abs_def] comp_def)
  moreover have "\<forall>v\<in>set ?ts. in_bounds u (ts_X v) (ts_Y v) (ts_Z v)"
    using tiles(2) by (simp add: in_bounds_iff [OF udims] tile_coord_def)
  ultimately obtain t where t: "build_tiles u ?ts = Inr t" "ov_wf t" "same_shape u t"
      "\<And>v. v \<in> set ?ts \<Longrightarrow> GetTileState t (ts_X v) (ts_Y v) (ts_Z v) = Inr (ClassifyState (ts_Flags v))"
      "\<And>x y z. (x, y, z) \<notin> tile_pos ` set ?ts \<Longrightarrow> GetTileState t x y z = Inr StateUnknown"
    using build_tiles_read [OF u(1), of ?ts] u(3) by auto
  have tdims: "ov_width t = mb_Width ?b" "ov_height t = mb_Height ?b" "ov_depth t = mb_Depth ?b"
    using t(3) udims by (simp_all add: same_shape_def)
  have "GetTileState t x y z = Inr (if bounds_error ?b \<lparr>cd_X = x, cd_Y = y, cd_Z = z\<rparr> = None
      then (case last_at ?ts \<lparr>cd_X = x, cd_Y = y, cd_Z = z\<rparr> of
              None \<Rightarrow> StateUnknown | Some v \<Rightarrow> ClassifyState (ts_Flags v)) else StateUnknown)" for x y z
  proof (cases "last_at ?ts \<lparr>cd_X = x, cd_Y = y, cd_Z = z\<rparr>")
    case None
    then have "(x, y, z) \<notin> tile_pos ` set ?ts"
      by (auto simp: last_at_def tile_pos_def tile_coord_def map_of_eq_None_iff image_iff)
    then show ?thesis using t(5) None by simp
  next
    case (Some v)
    then have v: "v \<in> set ?ts" "tile_coord v = \<lparr>cd_X = x, cd_Y = y, cd_Z = z\<rparr>" using last_at_coord by blast+
    then have "bounds_error ?b \<lparr>cd_X = x, cd_Y = y, cd_Z = z\<rparr> = None" using tiles(2) by metis
    then show ?thesis using Some v t(4) [OF v(1)] by (simp add: tile_coord_def)
  qed
  then have "topology_in_step ?b ?ts t" using t(2) tdims by (simp add: topology_in_step_def)
  then show ?thesis using that t0 t(1) build by (simp add: full_state_topology_def)
qed

lemma flags_at_once:
  "distinct (map tile_coord ts) \<Longrightarrow> flags_at c ts = (case last_at ts c of None \<Rightarrow> [] | Some t \<Rightarrow> [ts_Flags t])"
proof (induction ts)
  case (Cons t ts)
  have "last_at ts (tile_coord t) = None"
    using Cons.prems by (auto simp: last_at_def map_of_eq_None_iff image_iff)
  then show ?case using Cons by (auto simp: flags_at_def last_at_Cons split: option.splits)
qed (simp add: flags_at_def)

lemma baseline_last:
  "dt_baseline (InitializeBaseline ts d) c =
     map_option (\<lambda>t. \<lparr>bt_TileType = ts_TileType t, bt_Flags = ts_Flags t\<rparr>) (last_at ts c)"
proof -
  have "fold (\<lambda>t m. m(fst (baseline_of t) \<mapsto> snd (baseline_of t))) ts m c =
      (case last_at ts c of None \<Rightarrow> m c | Some t \<Rightarrow> Some \<lparr>bt_TileType = ts_TileType t, bt_Flags = ts_Flags t\<rparr>)" for m
    by (induction ts arbitrary: m) (auto simp: last_at_Cons baseline_of_def tile_coord_def split: option.splits)
  then show ?thesis by (simp add: InitializeBaseline_def split: option.split)
qed

lemma full_detector:
  assumes "good_full_state m"
  shows "detector_inv (full_bounds m) (fs_Tiles m)
    (0, InitializeBaseline (fs_Tiles m) (NewDetector (NewModificationOverlay now (full_bounds m))))"
proof -
  have once: "flags_at c (fs_Tiles m) = (case last_at (fs_Tiles m) c of None \<Rightarrow> [] | Some t \<Rightarrow> [ts_Flags t])" for c
    using assms by (intro flags_at_once) (simp add: good_full_state_def)
  have "\<not> modified_after [] (flags_at c (fs_Tiles m))" for c by (simp add: once split: option.split)
  moreover have "map_option bt_Flags (dt_baseline (InitializeBaseline (fs_Tiles m) d) c) = stored_base (flags_at c (fs_Tiles m))"
    for c d by (simp add: baseline_last once split: option.split)
  ultimately show ?thesis
    using overlay_inv_New [of now "full_bounds m"]
    by (simp add: detector_inv_def) (simp add: InitializeBaseline_def NewDetector_def NewModificationOverlay_def)
qed

lemma full_state_tracked:
  assumes "tracks d p" "good_full_state m"
  shows "\<exists>p'. perceive (FullStateArrived made cleared clk now marked m) p = Some p' \<and>
    tracks (perceived_step (FullStateArrived made cleared clk now marked m) d) p'"
proof -
  obtain w where w: "po_wm p = Some w" using assms by (auto simp: tracks_def)
  obtain t where t: "full_state_topology m = Inr (Some t)" "topology_in_step (full_bounds m) (fs_Tiles m) t"
    using full_topology [OF assms(2)] by blast
  let ?kts = "zip (map clk [0..<length (fs_Tiles m)]) (fs_Tiles m)"
  have "map (tile_coord \<circ> snd) ?kts = map tile_coord (fs_Tiles m)"
    unfolding map_map [symmetric] by simp
  then have "distinct (map (tile_coord \<circ> snd) ?kts)" using assms(2) by (simp add: good_full_state_def)
  then have h: "manager_in_step (full_bounds m) (fs_Tiles m)
      (BuildHazards cleared ?kts (NewHazardManager made (fs_Width m) (fs_Height m) (fs_Depth m)))"
    using built_in_step [of ?kts "fs_Width m" "fs_Height m" "fs_Depth m"] by (simp add: full_bounds_def)
  show ?thesis
    using assms(1) w t h full_detector [OF assms(2), of now]
    by (auto simp: install_full_state_def OnFullState_def SetOverlays_def SetModDetector_def tracks_def wm_step_defs
      Let_def views_track_def detector_in_step_def full_bounds_def nth_append intro!: exI [of _ 0])
qed

lemma perceive_tracked:
  assumes "tracks d p" "good_event e"
  shows "\<exists>p'. perceive e p = Some p' \<and> tracks (perceived_step e d) p'"
proof (cases e)
  case FullStateArrived
  then show ?thesis using full_state_tracked [OF assms(1)] assms(2) by (simp del: perceived_step.simps perceive.simps)
qed (simp_all only: tiles_tracked entities_tracked announcements_tracked dismissal_tracked full_dismissal_tracked
  assms(1))

lemma perceive_all_tracked:
  "tracks d p \<Longrightarrow> \<forall>e\<in>set es. good_event e \<Longrightarrow>
     \<exists>p'. perceive_all es p = Some p' \<and> tracks (fold perceived_step es d) p'"
proof (induction es arbitrary: d p)
  case (Cons e es)
  then obtain p1 where "perceive e p = Some p1" "tracks (perceived_step e d) p1"
    using perceive_tracked [of d p e] by auto
  then show ?case using Cons.IH Cons.prems by fastforce
qed simp

lemma run_tracked:
  assumes "\<forall>e\<in>set es. good_event e"
  obtains p :: "'p Populator" and w where
    "perceive_all es (new_populator born) = Some p" "po_wm p = Some w"
    "alerts_track (pd_alerts (perceived es)) (ob_Alerts (wm_Observed w))"
    "world_track (pd_world (perceived es)) (pd_switches (perceived es)) (ob_World (wm_Observed w))"
    "roster_track (pd_last (perceived es)) (wm_Observed w)"
    "views_track (pd_seen (perceived es)) (wm_Observed w) (po_modDetector p) (po_store p)"
  using perceive_all_tracked [OF tracks_new assms] that by (auto simp: perceived_def tracks_def)

section \<open>What the model tells\<close>


text \<open>
  C8: The alerts on show are those of this world: after any such run they are what the bounded list of reports
  would hold that starts empty with every change of the world's identity, and the counter of switches is the number
  of these changes.
\<close>

theorem alerts_are_of_this_world:
  assumes "\<forall>e\<in>set es. good_event e"
  shows "\<exists>p w s. perceive_all es (new_populator born) = Some p \<and> po_wm p = Some w \<and>
    ob_Alerts (wm_Observed w) = Some s \<and> as_entries s = pd_alerts (perceived es) \<and>
    ws_Switches (ob_World (wm_Observed w)) = pd_switches (perceived es)"
  by (rule run_tracked [OF assms, of born]) (auto simp: alerts_track_def world_track_def)

text \<open>Who and what the last message about entities names.\<close>

definition how_many :: "u8 \<Rightarrow> EntityUpdateMessage \<Rightarrow> int" where
  "how_many t m = int (length (filter (\<lambda>e. ei_Type e = t) (eu_Entities m)))"

fun judged :: "int \<Rightarrow> EntityUpdateMessage \<Rightarrow> Predicate \<Rightarrow> bool" where
  "judged dug m (HasMinDwarves n h) = (n \<le> how_many EntityTypeDwarf m)"
| "judged dug m (HasShelter n h) = (how_many EntityTypeDwarf m \<noteq> 0 \<and> how_many EntityTypeDwarf m * n \<le> dug)"
| "judged dug m (HasModifiedAnything h) = (0 < dug)"
| "judged dug m (NoActiveHostiles h) = (how_many EntityTypeEnemy m = 0)"
| "judged dug m (HasBedroomZones n h) = (n \<le> count_zones ZoneTypeBedroom (eu_Zones m))"
| "judged dug m (HasDiningHall h) = (1 \<le> count_zones ZoneTypeDiningHall (eu_Zones m))"

lemma judged_Check:
  assumes "roster_track (Some m) (wm_Observed w)"
  shows "re_Satisfied (Check now store w c) = judged (dugTiles store w) m c"
  using assms by (cases c) (auto simp: roster_track_def how_many_def check_defs Let_def)

lemma judged_CheckAll:
  assumes "roster_track (Some m) (wm_Observed w)"
  shows "map re_Satisfied (CheckAll now store (Some w) lib) = map (judged (dugTiles store w) m) lib"
proof -
  have "map re_Satisfied (CheckAll now store (Some w) lib) = map (judged (dugTiles store w) m \<circ> snd) (List.enumerate 0 lib)"
    using judged_Check [OF assms] by (simp add: CheckAll_def comp_def case_prod_unfold)
  also have "\<dots> = map (judged (dugTiles store w) m) lib"
    unfolding map_map [symmetric] by simp
  finally show ?thesis .
qed


text \<open>
  After a change of the world the record of modifications is still the one of the world before: only a full state
  replaces it.
\<close>

lemma switch_keeps_modifications:
  assumes "po_wm p = Some w"
  shows "po_store (OnEntityUpdate now marked (Some m) p) = po_store p"
    and "map_option (\<lambda>w. ob_Modifications (wm_Observed w)) (po_wm (OnEntityUpdate now marked (Some m) p)) =
      Some (ob_Modifications (wm_Observed w))"
  using assms by (auto simp: OnEntityUpdate_def wm_step_defs Let_def split: prod.split)

text \<open>
  A killed enemy that the game still lists, with its \<open>Dead\<close> mark, counts as an active hostile, and a dead dwarf
  towards the number of dwarves said to be alive.
\<close>

lemma dead_units_count:
  assumes "roster_track (Some m) (wm_Observed w)" and "e \<in> set (eu_Entities m)" and "ei_Dead e"
  shows "ei_Type e = EntityTypeEnemy \<Longrightarrow> \<not> re_Satisfied (Check now store w (NoActiveHostiles h))"
    and "ei_Type e = EntityTypeDwarf \<Longrightarrow> re_Satisfied (Check now store w (HasMinDwarves 1 h))"
  unfolding judged_Check [OF assms(1)] using assms(2) by (auto simp: how_many_def filter_empty_conv Suc_le_eq)

text \<open>The confidence falls with age, and is not yet zero after five minutes.\<close>

lemma confidence_bounds: "observedAt \<le> now \<Longrightarrow> 0 \<le> confidenceFromFreshness now observedAt \<and> confidenceFromFreshness now observedAt \<le> 1"
  by (simp add: confidenceFromFreshness_def Let_def minute_def sec_def field_simps)

lemma confidence_after_ten_minutes: "confidenceFromFreshness (1 + 600000000000) 1 = 2 / 5"
  by (simp add: confidenceFromFreshness_def Let_def minute_def sec_def)

section \<open>Examples\<close>

definition column_state :: FullStateMessage where
  "column_state = \<lparr>fs_Width = 1, fs_Height = 1, fs_Depth = 2,
     fs_Tiles = [\<lparr>ts_X = 0, ts_Y = 0, ts_Z = 1, ts_TileType = 1, ts_Flags = FlagWall\<rparr>,
                 \<lparr>ts_X = 0, ts_Y = 0, ts_Z = 0, ts_TileType = 2, ts_Flags = FlagWall\<rparr>], fs_IsSoilLayer = []\<rparr>"

definition fort_a :: EntityUpdateMessage where
  "fort_a = \<lparr>eu_Count = 1, eu_Entities = [\<lparr>ei_ID = 7, ei_X = 0, ei_Y = 0, ei_Z = 1, ei_Type = EntityTypeDwarf,
      ei_Subtype = 0, ei_Dead = False\<rparr>],
     eu_FortInfo = None, eu_Zones = [], eu_World = Some \<lparr>wi_SaveDir = [65], wi_ID1 = 1, wi_ID2 = 2\<rparr>\<rparr>"

definition siege_news :: AnnouncementUpdateMessage where
  "siege_news = \<lparr>au_Count = 1, au_Announcements = [\<lparr>an_ID = 9, an_TypeID = 3, an_Severity = 2, an_X = 0, an_Y = 0,
      an_Z = 0, an_GameYear = 100, an_GameTick = 5, an_Text = [83], an_RepeatCount = 0\<rparr>]\<rparr>"

definition dug_column :: TileUpdateMessage where
  "dug_column = \<lparr>tu_Count = 1, tu_Tiles = [\<lparr>ts_X = 0, ts_Y = 0, ts_Z = 1, ts_TileType = 4, ts_Flags = FlagFloor\<rparr>]\<rparr>"

text \<open>A fort is seen, a siege is announced, a tile is dug; then another save is loaded.\<close>

definition session :: "perception_event list" where
  "session = [FullStateArrived ticks ticks (\<lambda>_. ticks) 3 4 column_state, EntitiesArrived 5 6 fort_a,
     AnnouncementsArrived (\<lambda>n. 7 + n) 8 siege_news, TilesArrived (\<lambda>_. ticks) 9 10 11 dug_column,
     EntitiesArrived 12 13 (fort_a\<lparr>eu_World := Some \<lparr>wi_SaveDir = [66], wi_ID1 = 1, wi_ID2 = 2\<rparr>\<rparr>)]"

lemma session_good: "\<forall>e\<in>set session. good_event e"
  by (simp add: session_def good_full_state_def column_state_def full_bounds_def tile_coord_def bounds_error_def slt_def)

lemma session_perceived:
  "pd_seen (perceived session) = Some (full_bounds column_state, fs_Tiles column_state @ tu_Tiles dug_column)"
  "pd_last (perceived session) = Some (fort_a\<lparr>eu_World := Some \<lparr>wi_SaveDir = [66], wi_ID1 = 1, wi_ID2 = 2\<rparr>\<rparr>)"
  "pd_alerts (perceived session) = []" "pd_switches (perceived session) = 1"
  by (simp_all add: perceived_def session_def nothing_perceived_def fort_a_def other_world_def effective_tiles_def
    dug_column_def Let_def)


theorem alerts_are_of_this_world_witness:
  "\<exists>p w s. perceive_all session (new_populator 0) = Some p \<and> po_wm p = Some w \<and>
    ob_Alerts (wm_Observed w) = Some s \<and> as_entries s = [] \<and> ws_Switches (ob_World (wm_Observed w)) = 1"
  using alerts_are_of_this_world [OF session_good, of 0] by (simp add: session_perceived)


end
