(* ===== verification/Places.thy ===== *)
theory Places
  imports World_Model Mapview
begin

text \<open>
  The named places of the fort (\<open>mcpserver/places.go\<close>) and the callback that installs a full state
  (\<open>mcpserver/bridge.go\<close>): a name is attached to a tile of carved space, looked up in the overlay and, when the
  overlay knows of none there, in a live slice of the map, which is written into the overlay. The file of places is a
  list of them, its JSON is below the model; the order in which the map is listed and the outcome of a write are
  arguments. None is a panic.
\<close>

section \<open>The store\<close>

record Place =
  pc_Anchor :: Coord
  pc_Name :: gostring

record PlaceStore =
  st_items :: "Coord \<rightharpoonup> gostring"

definition NewPlaceStore :: PlaceStore where
  "NewPlaceStore = \<lparr>st_items = Map.empty\<rparr>"

text \<open>What reading the file finds.\<close>

datatype places_file = NoFile | Unreadable | Garbled | Holds "Place list"

text \<open>The flag tells whether there was no error.\<close>

definition Load :: "places_file \<Rightarrow> PlaceStore \<Rightarrow> bool \<times> PlaceStore" where
  "Load file ps = (case file of
       NoFile \<Rightarrow> (True, ps)
     | Unreadable \<Rightarrow> (False, ps)
     | Garbled \<Rightarrow> (False, ps)
     | Holds places \<Rightarrow> (True, ps\<lparr>st_items := fold (\<lambda>p m. m(pc_Anchor p \<mapsto> pc_Name p)) places Map.empty\<rparr>))"

definition allLocked :: "Coord list \<Rightarrow> PlaceStore \<Rightarrow> Place list" where
  "allLocked ord ps = map (\<lambda>anchor. \<lparr>pc_Anchor = anchor, pc_Name = the (st_items ps anchor)\<rparr>) ord"

text \<open>A write that fails leaves the file in some state.\<close>

datatype write_outcome = Written | WriteFailed places_file

definition Save :: "write_outcome \<Rightarrow> Coord list \<Rightarrow> PlaceStore \<Rightarrow> bool \<times> places_file" where
  "Save outcome ord ps = (case outcome of
       Written \<Rightarrow> (True, Holds (allLocked ord ps))
     | WriteFailed file \<Rightarrow> (False, file))"

definition Set_place :: "Coord \<Rightarrow> gostring \<Rightarrow> PlaceStore \<Rightarrow> PlaceStore" where
  "Set_place anchor name ps = ps\<lparr>st_items := (st_items ps)(anchor \<mapsto> name)\<rparr>"

definition ReconcilePlaces :: "RegionGraph \<Rightarrow> PlaceStore \<Rightarrow> PlaceStore" where
  "ReconcilePlaces rg ps = ps\<lparr>st_items := (\<lambda>anchor. if RegionAt rg anchor = None then None else st_items ps anchor)\<rparr>"

section \<open>The tile to name\<close>

datatype anchor_error = NoRegionThere

definition resolveAnchor :: "TopologyOverlay \<Rightarrow> i16 \<Rightarrow> i16 \<Rightarrow> i16 \<Rightarrow> anchor_error + Coord" where
  "resolveAnchor topo x y z =
     (let rg = BuildRegionGraph topo; c = \<lparr>cd_X = x, cd_Y = y, cd_Z = z\<rparr>
      in if RegionAt rg c = None then Inl NoRegionThere else Inr c)"

definition anchorLiveWindow :: i16 where "anchorLiveWindow = 5"

definition clampAnchorLow :: "i16 \<Rightarrow> i16" where
  "clampAnchorLow v = (if slt v 0 then 0 else v)"

definition clampAnchorHigh :: "i16 \<Rightarrow> i16 \<Rightarrow> i16" where
  "clampAnchorHigh v m = (if slt m v then m else v)"

text \<open>The glyphs \<open>. , < > X ^\<close> and \<open># % =\<close>, as bytes.\<close>

definition glyphTileState :: "u8 \<Rightarrow> OverlayState option" where
  "glyphTileState g =
     (if g \<in> {0x2E, 0x2C, 0x3C, 0x3E, 0x58, 0x5E} then Some StateOpen
      else if g \<in> {0x23, 0x25, 0x3D} then Some StateClosed
      else None)"

text \<open>The tiles of a slice with their glyphs, row by row.\<close>

definition slice_cells :: "u8 Slice \<Rightarrow> (Coord \<times> u8) list" where
  "slice_cells s = concat (map (\<lambda>(dy, row). map (\<lambda>(dx, g).
       (\<lparr>cd_X = sl_X1 s + of_nat dx, cd_Y = sl_Y1 s + of_nat dy, cd_Z = sl_Z s\<rparr>, g))
     (List.enumerate 0 row)) (List.enumerate 0 (sl_Rows s)))"

fun seed_cells :: "(Coord \<times> u8) list \<Rightarrow> TopologyOverlay \<Rightarrow> TopologyOverlay option" where
  "seed_cells [] topo = Some topo"
| "seed_cells ((c, g) # cells) topo = (case glyphTileState g of
       None \<Rightarrow> seed_cells cells topo
     | Some state \<Rightarrow> (case SetTileState topo (cd_X c) (cd_Y c) (cd_Z c) state of
           Inr topo \<Rightarrow> seed_cells cells topo
         | Inl Panic \<Rightarrow> None
         | Inl e \<Rightarrow> seed_cells cells topo))"

definition seedOverlayFromSlice :: "TopologyOverlay \<Rightarrow> u8 Slice \<Rightarrow> TopologyOverlay option" where
  "seedOverlayFromSlice topo s = seed_cells (slice_cells s) topo"

text \<open>The query, on \<open>x1\<close>, \<open>y1\<close>, \<open>z\<close>, \<open>x2\<close> and \<open>y2\<close>; there is none without a live connection.\<close>

type_synonym 'e live_map = "i16 \<Rightarrow> i16 \<Rightarrow> i16 \<Rightarrow> i16 \<Rightarrow> i16 \<Rightarrow> 'e + u8 Slice"

definition resolveAnchorLive :: "TopologyOverlay \<Rightarrow> 'e live_map option \<Rightarrow> i16 \<Rightarrow> i16 \<Rightarrow> i16 \<Rightarrow>
    ((anchor_error + Coord) \<times> TopologyOverlay) option" where
  "resolveAnchorLive topo live x y z = (case (resolveAnchor topo x y z, live) of
       (Inr c, _) \<Rightarrow> Some (Inr c, topo)
     | (Inl e, None) \<Rightarrow> Some (Inl e, topo)
     | (Inl e, Some MapSlice) \<Rightarrow>
         let (w, h, d) = GetDimensions topo;
             x1 = clampAnchorLow (x - anchorLiveWindow); y1 = clampAnchorLow (y - anchorLiveWindow);
             x2 = clampAnchorHigh (x + anchorLiveWindow) (w - 1); y2 = clampAnchorHigh (y + anchorLiveWindow) (h - 1)
         in (case MapSlice x1 y1 z x2 y2 of
               Inl liveErr \<Rightarrow> Some (Inl e, topo)
             | Inr s \<Rightarrow> (case seedOverlayFromSlice topo s of
                 None \<Rightarrow> None
               | Some topo \<Rightarrow>
                   let target = \<lparr>cd_X = x, cd_Y = y, cd_Z = z\<rparr>; rg = BuildRegionGraph topo
                   in if RegionAt rg target = None then Some (Inl e, topo) else Some (Inr target, topo))))"

section \<open>The tools and the callback\<close>

text \<open>The parts of the bridge that they touch, and the file.\<close>

record 'p Bridge =
  br_pop :: "'p Populator"
  br_Places :: PlaceStore
  br_file :: places_file

definition Topo :: "'p Bridge \<Rightarrow> TopologyOverlay option" where
  "Topo b = (case po_wm (br_pop b) of None \<Rightarrow> None | Some w \<Rightarrow> ob_Topology (wm_Observed w))"

text \<open>A write into the overlay that the world model refers to.\<close>

definition put_topo :: "TopologyOverlay \<Rightarrow> 'p Bridge \<Rightarrow> 'p Bridge" where
  "put_topo topo b = b\<lparr>br_pop := (br_pop b)\<lparr>po_wm :=
     map_option (observed (\<lambda>ob. ob\<lparr>ob_Topology := Some topo\<rparr>)) (po_wm (br_pop b))\<rparr>\<rparr>"

datatype name_answer = TopologyNotBuilt | NotNamed anchor_error | NamedNotPersisted | Named

text \<open>\<open>ord\<close> lists the names with the new one; the coordinates are cut to 16 bits.\<close>

definition name_place :: "'e live_map option \<Rightarrow> write_outcome \<Rightarrow> Coord list \<Rightarrow> int \<Rightarrow> int \<Rightarrow> int \<Rightarrow> gostring \<Rightarrow>
    'p Bridge \<Rightarrow> (name_answer \<times> 'p Bridge) option" where
  "name_place live outcome ord x y z name b = (case Topo b of
       None \<Rightarrow> Some (TopologyNotBuilt, b)
     | Some topo \<Rightarrow> (case resolveAnchorLive topo live (word_of_int x) (word_of_int y) (word_of_int z) of
         None \<Rightarrow> None
       | Some (Inl e, topo) \<Rightarrow> Some (NotNamed e, put_topo topo b)
       | Some (Inr anchor, topo) \<Rightarrow>
           let b = (put_topo topo b)\<lparr>br_Places := Set_place anchor name (br_Places b)\<rparr>;
               (ok, file) = Save outcome ord (br_Places b);
               b = b\<lparr>br_file := file\<rparr>
           in Some (if ok then Named else NamedNotPersisted, b)))"

definition on_full_state ::
  "clock \<Rightarrow> clock \<Rightarrow> (nat \<Rightarrow> clock) \<Rightarrow> go_time \<Rightarrow> go_time \<Rightarrow> FullStateMessage \<Rightarrow> 'p Bridge \<Rightarrow> 'p Bridge option" where
  "on_full_state made cleared clk now marked state b = (case full_state_topology state of
       Inl e \<Rightarrow> None
     | Inr None \<Rightarrow> Some b
     | Inr (Some topo) \<Rightarrow> (case install_full_state made cleared clk now marked state (br_pop b) of
           None \<Rightarrow> None
         | Some pop \<Rightarrow>
             let b = b\<lparr>br_pop := pop\<rparr>;
                 (ok, ps) = Load (br_file b) (br_Places b);
                 b = b\<lparr>br_Places := ps\<rparr>
             in Some (if ok then b\<lparr>br_Places := ReconcilePlaces (BuildRegionGraph topo) ps\<rparr> else b)))"

section \<open>Seeding the overlay\<close>

text \<open>The last state that some cells show at a tile.\<close>

fun shown_state :: "(Coord \<times> u8) list \<Rightarrow> Coord \<Rightarrow> OverlayState option" where
  "shown_state [] c = None"
| "shown_state ((c', g) # cells) c = (case shown_state cells c of
       None \<Rightarrow> if c' = c then glyphTileState g else None
     | Some s \<Rightarrow> Some s)"

lemma seed_cells_read:
  assumes "ov_wf t"
  shows "\<exists>t'. seed_cells cells t = Some t' \<and> ov_wf t' \<and> same_shape t t' \<and>
    (\<forall>x y z. GetTileState t' x y z =
      (if in_bounds t x y z
       then (case shown_state cells \<lparr>cd_X = x, cd_Y = y, cd_Z = z\<rparr> of None \<Rightarrow> GetTileState t x y z | Some s \<Rightarrow> Inr s)
       else Inr StateUnknown))"
  using assms
proof (induction cells arbitrary: t)
  case Nil
  then show ?case by (auto simp: same_shape_def GetTileState_def)
next
  case (Cons cell cells)
  obtain c g where cell: "cell = (c, g)" by fastforce
  show ?case
  proof (cases "glyphTileState g")
    case None
    then have "seed_cells (cell # cells) t = seed_cells cells t" by (simp add: cell)
    moreover have "shown_state (cell # cells) = shown_state cells"
      by (rule ext) (simp add: cell None split: option.split)
    ultimately show ?thesis using Cons.IH [OF Cons.prems] by (simp only:)
  next
    case (Some s)
    show ?thesis
    proof (cases "in_bounds t (cd_X c) (cd_Y c) (cd_Z c)")
      case False
      then have "seed_cells (cell # cells) t = seed_cells cells t" by (simp add: cell Some SetTileState_def)
      moreover have "shown_state (cell # cells) \<lparr>cd_X = x, cd_Y = y, cd_Z = z\<rparr> = shown_state cells \<lparr>cd_X = x, cd_Y = y, cd_Z = z\<rparr>"
        if "in_bounds t x y z" for x y z
        using that False by (auto simp: cell split: option.split)
      moreover obtain t' where "seed_cells cells t = Some t' \<and> ov_wf t' \<and> same_shape t t' \<and> (\<forall>x y z. GetTileState t' x y z =
          (if in_bounds t x y z
           then (case shown_state cells \<lparr>cd_X = x, cd_Y = y, cd_Z = z\<rparr> of None \<Rightarrow> GetTileState t x y z | Some s \<Rightarrow> Inr s)
           else Inr StateUnknown))"
        using Cons.IH [OF Cons.prems] by blast
      ultimately show ?thesis by (intro exI [of _ t']) (simp del: shown_state.simps)
    next
      case True
      obtain t1 where t1: "SetTileState t (cd_X c) (cd_Y c) (cd_Z c) s = Inr t1" "ov_wf t1" "same_shape t t1"
          "\<And>x' y' z'. GetTileState t1 x' y' z' =
            (if x' = cd_X c \<and> y' = cd_Y c \<and> z' = cd_Z c then Inr s else GetTileState t x' y' z')"
        using SetTileState_read [OF Cons.prems True, of s] by blast
      have "seed_cells (cell # cells) t = seed_cells cells t1" by (simp add: cell Some t1(1))
      moreover have "in_bounds t1 = in_bounds t" using t1(3) by (intro ext) (simp add: in_bounds_def same_shape_def)
      moreover have "(c = \<lparr>cd_X = x, cd_Y = y, cd_Z = z\<rparr>) = (x = cd_X c \<and> y = cd_Y c \<and> z = cd_Z c)" for x y z by (cases c) auto
      ultimately show ?thesis
        using Cons.IH [OF t1(2)] t1(3,4) Some
        by (auto simp: cell same_shape_def split: option.split)
    qed
  qed
qed

lemma shown_state_function:
  assumes "\<forall>(c', g)\<in>set cells. g = glyph c'"
  shows "shown_state cells c = (if c \<in> fst ` set cells then glyphTileState (glyph c) else None)"
proof -
  have "shown_state cells c = (if \<exists>g. (c, g) \<in> set cells then glyphTileState (glyph c) else None)"
    using assms by (induction cells) (auto split: option.splits)
  moreover have "(\<exists>g. (c, g) \<in> set cells) \<longleftrightarrow> c \<in> fst ` set cells" by force
  ultimately show ?thesis by simp
qed

text \<open>What a true slice of a window shows: the glyphs of the map inside the window.\<close>

lemma set_enumerate_0: "set (List.enumerate 0 xs) = (\<lambda>i. (i, xs ! i)) ` {..<length xs}"
  by (auto simp: in_set_enumerate_eq image_iff)

lemma cell_in_slice:
  "(c, g) \<in> set (slice_cells s) \<longleftrightarrow> (\<exists>dy dx. dy < length (sl_Rows s) \<and> dx < length (sl_Rows s ! dy) \<and>
     c = \<lparr>cd_X = sl_X1 s + of_nat dx, cd_Y = sl_Y1 s + of_nat dy, cd_Z = sl_Z s\<rparr> \<and> g = sl_Rows s ! dy ! dx)"
  by (auto simp: slice_cells_def set_enumerate_0 image_image image_iff Bex_def)

lemma sint_offset:
  fixes v w :: i16
  assumes "int k \<le> sint w - sint v"
  shows "sint (v + of_nat k) = sint v + int k"
proof -
  have "sint w < 32768" "- 32768 \<le> sint v" using sint_range_size [of w] sint_range_size [of v] by (auto simp: word_size)
  then have "sint (word_of_int (sint v + int k) :: i16) = sint v + int k"
    using assms by (simp add: signed_of_int signed_take_bit_int_eq_self del: of_int_add)
  then show ?thesis by simp
qed

lemma window_cells:
  fixes xa xb ya yb :: i16
  assumes "sl_Rows s = window glyph (sint xa) (sint xb) (sint ya) (sint yb)" "sl_X1 s = xa" "sl_Y1 s = ya" "sl_Z s = z"
  shows "\<forall>(c, g)\<in>set (slice_cells s). g = glyph (sint (cd_X c)) (sint (cd_Y c))" (is ?glyphs)
    and "fst ` set (slice_cells s) =
      {c. sint xa \<le> sint (cd_X c) \<and> sint (cd_X c) \<le> sint xb \<and> sint ya \<le> sint (cd_Y c) \<and> sint (cd_Y c) \<le> sint yb \<and> cd_Z c = z}"
      (is ?tiles)
proof -
  have mem: "(c, g) \<in> set (slice_cells s) \<longleftrightarrow> (\<exists>dy dx. int dy \<le> sint yb - sint ya \<and> int dx \<le> sint xb - sint xa \<and>
      c = \<lparr>cd_X = xa + of_nat dx, cd_Y = ya + of_nat dy, cd_Z = z\<rparr> \<and> g = glyph (sint xa + int dx) (sint ya + int dy))" for c g
    unfolding cell_in_slice assms
    by (intro ex_cong1) (auto simp: window_def nth_upto zless_nat_eq_int_zless)
  show ?glyphs by (auto simp: mem sint_offset [of _ xb] sint_offset [of _ yb])
  have "c \<in> fst ` set (slice_cells s)"
    if "sint xa \<le> sint (cd_X c)" "sint (cd_X c) \<le> sint xb" "sint ya \<le> sint (cd_Y c)" "sint (cd_Y c) \<le> sint yb" "cd_Z c = z" for c
  proof -
    define dx dy where "dx = nat (sint (cd_X c) - sint xa)" and "dy = nat (sint (cd_Y c) - sint ya)"
    have "xa + of_nat dx = cd_X c" "ya + of_nat dy = cd_Y c"
      using that by (simp_all add: dx_def dy_def of_nat_nat)
    then have "(c, glyph (sint xa + int dx) (sint ya + int dy)) \<in> set (slice_cells s)"
      unfolding mem using that by (intro exI [of _ dy] exI [of _ dx]) (auto simp: dx_def dy_def)
    then show ?thesis by force
  qed
  then show ?tiles by (auto simp: mem sint_offset [of _ xb] sint_offset [of _ yb])
qed

section \<open>Which tiles can be named\<close>

lemma RegionAt_open: "RegionAt (BuildRegionGraph topo) c = None \<longleftrightarrow> \<not> tile_open topo c"
  using region_at_tile by blast

lemma tile_open_bounds: "tile_open topo c \<Longrightarrow> in_bounds topo (cd_X c) (cd_Y c) (cd_Z c)"
  by (auto simp: tile_open_def GetTileState_def split: if_splits)

text \<open>The window of the live query holds the tile and lies in the map.\<close>

lemma live_window:
  fixes x w :: i16
  assumes "\<not> slt x 0" "slt x w" "unat w \<le> 32762"
  shows "0 \<le> sint (clampAnchorLow (x - anchorLiveWindow))"
    and "sint (clampAnchorLow (x - anchorLiveWindow)) \<le> sint x"
    and "sint x \<le> sint (clampAnchorHigh (x + anchorLiveWindow) (w - 1))"
    and "sint (clampAnchorHigh (x + anchorLiveWindow) (w - 1)) \<le> sint (w - 1)"
proof -
  have w: "sint w = int (unat w)" using assms(3) sint_small [of w] by simp
  have x: "0 \<le> sint x" "sint x < sint w" using assms(1,2) by (simp_all add: slt_def)
  have small: "sint w \<le> 32762" using assms(3) unfolding w by linarith
  have "sint (x + - 5) = sint x + sint (- 5 :: i16)" using x small by (intro sint_plus) auto
  then have low: "sint (x - 5) = sint x - 5" by simp
  have "sint (x + 5) = sint x + sint (5 :: i16)" using x small by (intro sint_plus) auto
  then have high: "sint (x + 5) = sint x + 5" by simp
  have "sint (w + - 1) = sint w + sint (- 1 :: i16)" using x small by (intro sint_plus) auto
  then have last: "sint (w - 1) = sint w - 1" by simp
  show "0 \<le> sint (clampAnchorLow (x - anchorLiveWindow))"
    and "sint (clampAnchorLow (x - anchorLiveWindow)) \<le> sint x"
    and "sint x \<le> sint (clampAnchorHigh (x + anchorLiveWindow) (w - 1))"
    and "sint (clampAnchorHigh (x + anchorLiveWindow) (w - 1)) \<le> sint (w - 1)"
    using x by (auto simp: clampAnchorLow_def clampAnchorHigh_def anchorLiveWindow_def slt_def low high last)
qed

text \<open>A plugin that shows the map as it is.\<close>

definition shows_map :: "(int \<Rightarrow> int \<Rightarrow> i16 \<Rightarrow> u8) \<Rightarrow> TopologyOverlay \<Rightarrow> 'e live_map \<Rightarrow> bool" where
  "shows_map glyph topo live \<longleftrightarrow> (\<forall>z. truthful (\<lambda>x y. glyph x y z) z (\<lambda>xa ya xb yb. live xa ya z xb yb)
     0 0 (ov_width topo - 1) (ov_height topo - 1))"

definition open_now :: "(int \<Rightarrow> int \<Rightarrow> i16 \<Rightarrow> u8) \<Rightarrow> TopologyOverlay \<Rightarrow> Coord \<Rightarrow> bool" where
  "open_now glyph topo c \<longleftrightarrow> tile_open topo c \<or> in_bounds topo (cd_X c) (cd_Y c) (cd_Z c) \<and>
     glyphTileState (glyph (sint (cd_X c)) (sint (cd_Y c)) (cd_Z c)) = Some StateOpen"

lemma live_slice_opens:
  fixes xa xb ya yb :: i16
  assumes "ov_wf topo" and "in_bounds topo (cd_X c) (cd_Y c) (cd_Z c)" and "\<not> tile_open topo c"
    and "sl_Rows s = window (\<lambda>x y. glyph x y (cd_Z c)) (sint xa) (sint xb) (sint ya) (sint yb)"
    and "sl_X1 s = xa" "sl_Y1 s = ya" "sl_Z s = cd_Z c"
    and "sint xa \<le> sint (cd_X c)" "sint (cd_X c) \<le> sint xb" "sint ya \<le> sint (cd_Y c)" "sint (cd_Y c) \<le> sint yb"
  shows "\<exists>t'. seedOverlayFromSlice topo s = Some t' \<and> (tile_open t' c \<longleftrightarrow> open_now glyph topo c)"
proof -
  note cells = window_cells [OF assms(4-7)]
  have "shown_state (slice_cells s) c = glyphTileState (glyph (sint (cd_X c)) (sint (cd_Y c)) (cd_Z c))"
    using shown_state_function [OF cells(1), of c] assms(8-11) by (simp add: cells(2))
  moreover obtain t' where t': "seedOverlayFromSlice topo s = Some t'" and read: "\<And>x y z. GetTileState t' x y z =
      (if in_bounds topo x y z
       then (case shown_state (slice_cells s) \<lparr>cd_X = x, cd_Y = y, cd_Z = z\<rparr> of None \<Rightarrow> GetTileState topo x y z | Some s \<Rightarrow> Inr s)
       else Inr StateUnknown)"
    using seed_cells_read [OF assms(1), of "slice_cells s"] by (auto simp: seedOverlayFromSlice_def)
  moreover have eta: "\<lparr>cd_X = cd_X c, cd_Y = cd_Y c, cd_Z = cd_Z c\<rparr> = c" by simp
  have "GetTileState t' (cd_X c) (cd_Y c) (cd_Z c) = (case shown_state (slice_cells s) c of
      None \<Rightarrow> GetTileState topo (cd_X c) (cd_Y c) (cd_Z c) | Some s \<Rightarrow> Inr s)"
    using read [of "cd_X c" "cd_Y c" "cd_Z c"] assms(2) unfolding eta by simp
  ultimately show ?thesis
    using assms(2,3) by (auto simp: open_now_def tile_open_def split: option.splits)
qed

lemma resolveAnchorLive_iff:
  fixes x y z :: i16
  assumes "ov_wf topo" "unat (ov_width topo) \<le> 32762" "unat (ov_height topo) \<le> 32762" "shows_map glyph topo live"
  defines "c \<equiv> \<lparr>cd_X = x, cd_Y = y, cd_Z = z\<rparr>"
  shows "\<exists>t'. resolveAnchorLive topo (Some live) x y z =
    Some (if open_now glyph topo c then Inr c else Inl NoRegionThere, t')"
proof (cases "tile_open topo c")
  case True
  then show ?thesis
    by (simp add: resolveAnchorLive_def resolveAnchor_def Let_def RegionAt_open c_def [symmetric] open_now_def)
next
  case closed: False
  let ?x1 = "clampAnchorLow (x - anchorLiveWindow)" and ?y1 = "clampAnchorLow (y - anchorLiveWindow)"
  let ?x2 = "clampAnchorHigh (x + anchorLiveWindow) (ov_width topo - 1)"
  let ?y2 = "clampAnchorHigh (y + anchorLiveWindow) (ov_height topo - 1)"
  have run: "resolveAnchorLive topo (Some live) x y z = (case live ?x1 ?y1 z ?x2 ?y2 of
      Inl e \<Rightarrow> Some (Inl NoRegionThere, topo)
    | Inr s \<Rightarrow> (case seedOverlayFromSlice topo s of
        None \<Rightarrow> None
      | Some t \<Rightarrow> Some (if tile_open t c then Inr c else Inl NoRegionThere, t)))"
    using closed by (simp add: resolveAnchorLive_def resolveAnchor_def GetDimensions_def RegionAt_open c_def Let_def
      split: sum.split option.split)
  show ?thesis
  proof (cases "in_bounds topo x y z")
    case True
    then have "\<not> slt x 0" "slt x (ov_width topo)" "\<not> slt y 0" "slt y (ov_height topo)" by (auto simp: in_bounds_def)
    note wx = live_window [OF this(1,2) assms(2)] and wy = live_window [OF this(3,4) assms(3)]
    obtain s where s: "live ?x1 ?y1 z ?x2 ?y2 = Inr s" "sl_Z s = z" "sl_X1 s = ?x1" "sl_Y1 s = ?y1"
        "sl_Rows s = window (\<lambda>x y. glyph x y z) (sint ?x1) (sint ?x2) (sint ?y1) (sint ?y2)"
      using assms(4) [unfolded shows_map_def truthful_def, rule_format, of ?x1 ?x2 ?y1 ?y2 z] wx wy by auto
    have "\<exists>t'. seedOverlayFromSlice topo s = Some t' \<and> (tile_open t' c \<longleftrightarrow> open_now glyph topo c)"
      by (rule live_slice_opens [OF assms(1) _ closed]) (use True s wx wy in \<open>simp_all add: c_def\<close>)
    then show ?thesis using run s(1) by auto
  next
    case False
    have never: "\<not> tile_open t c" if "seedOverlayFromSlice topo s = Some t" for s t
      using that False seed_cells_read [OF assms(1), of "slice_cells s"] tile_open_bounds [of t c]
      by (auto simp: seedOverlayFromSlice_def c_def in_bounds_def same_shape_def)
    have seeded: "\<exists>t. seedOverlayFromSlice topo s = Some t" for s
      using seed_cells_read [OF assms(1), of "slice_cells s"] by (auto simp: seedOverlayFromSlice_def)
    have "\<not> open_now glyph topo c" using False closed by (simp add: open_now_def c_def)
    then show ?thesis
    proof (cases "live ?x1 ?y1 z ?x2 ?y2")
      case (Inr s)
      moreover obtain t where "seedOverlayFromSlice topo s = Some t" using seeded by blast
      ultimately show ?thesis using run never \<open>\<not> open_now glyph topo c\<close> by simp
    qed (simp add: run)
  qed
qed


text \<open>The coordinates are cut to 16 bits unchecked: a tile far off the map names one of the map.\<close>

lemma far_tile_aliased: "name_place live outcome ord (x + 65536) y z name b = name_place live outcome ord x y z name b"
proof -
  have "(word_of_int (x + 65536) :: i16) = word_of_int x" by simp
  then show ?thesis by (simp only: name_place_def)
qed

section \<open>Names over a restart\<close>

text \<open>The tiles a full state shows open.\<close>

definition shown_open :: "FullStateMessage \<Rightarrow> Coord \<Rightarrow> bool" where
  "shown_open m c \<longleftrightarrow> (case last_at (fs_Tiles m) c of None \<Rightarrow> False | Some u \<Rightarrow> ClassifyState (ts_Flags u) = StateOpen)"

lemma full_state_open:
  assumes "good_full_state m" and "topology_in_step (full_bounds m) (fs_Tiles m) t"
  shows "tile_open t c \<longleftrightarrow> shown_open m c"
proof -
  have eta: "\<lparr>cd_X = cd_X c, cd_Y = cd_Y c, cd_Z = cd_Z c\<rparr> = c" by simp
  have "bounds_error (full_bounds m) c = None" if "last_at (fs_Tiles m) c = Some u" for u
    using last_at_coord [OF that] assms(1) by (auto simp: good_full_state_def)
  then show ?thesis
    using assms(2) unfolding tile_open_def topology_in_step_def
    by (auto simp: eta shown_open_def simp del: Coord.surjective split: option.splits if_splits)
qed

lemma Load_saved_places:
  assumes "set ord = dom (st_items ps)"
  shows "Load (snd (Save Written ord ps)) ps0 = (True, ps0\<lparr>st_items := st_items ps\<rparr>)"
proof -
  have "fold (\<lambda>p m. m(pc_Anchor p \<mapsto> pc_Name p)) (allLocked cs ps) m c =
      (if c \<in> set cs then Some (the (st_items ps c)) else m c)" for cs m c
    by (induction cs arbitrary: m) (auto simp: allLocked_def)
  then have "fold (\<lambda>p m. m(pc_Anchor p \<mapsto> pc_Name p)) (allLocked ord ps) Map.empty = st_items ps"
    using assms by (intro ext) (auto simp: dom_def)
  then show ?thesis by (simp add: Load_def Save_def)
qed

lemma full_state_places:
  assumes "good_full_state m" and "Load (br_file b) (br_Places b) = (True, ps)"
  shows "\<exists>b'. on_full_state made cleared clk now marked m b = Some b' \<and>
    st_items (br_Places b') = (\<lambda>c. if shown_open m c then st_items ps c else None)"
proof -
  obtain t where t: "full_state_topology m = Inr (Some t)" "topology_in_step (full_bounds m) (fs_Tiles m) t"
    using full_topology [OF assms(1)] by blast
  have "\<exists>pop. install_full_state made cleared clk now marked m (br_pop b) = Some pop"
    by (simp add: install_full_state_def t(1) Let_def)
  then show ?thesis
    using t assms full_state_open [OF assms(1) t(2)]
    by (auto simp: on_full_state_def ReconcilePlaces_def RegionAt_open intro!: ext)
qed


section \<open>Examples\<close>

definition column_bridge :: "unit Bridge" where
  "column_bridge = \<lparr>br_pop = \<lparr>po_wm = Some (NewWorldModel 0 (Some column_map) None None), po_modDetector = None, po_store = []\<rparr>,
     br_Places = NewPlaceStore, br_file = NoFile\<rparr>"

text \<open>A plugin that shows floor everywhere.\<close>

definition floor_everywhere :: "unit live_map" where
  "floor_everywhere x1 y1 z x2 y2 = Inr (new_slice z x1 y1 (window (\<lambda>x y. 0x2E) (sint x1) (sint x2) (sint y1) (sint y2)))"

lemma floor_everywhere_shows: "shows_map (\<lambda>x y z. 0x2E) topo floor_everywhere"
  by (auto simp: shows_map_def truthful_def floor_everywhere_def new_slice_def)

lemma column_bridge_Topo: "Topo column_bridge = Some column_map"
  by (simp add: Topo_def column_bridge_def NewWorldModel_def)

lemma column_small: "unat (ov_width column_map) \<le> 32762" "unat (ov_height column_map) \<le> 32762" "in_bounds column_map 0 0 0"
  by (simp_all add: column_map_def in_bounds_def slt_def)


lemma column_named: "\<exists>b1. name_place (None :: unit live_map option) Written [\<lparr>cd_X = 0, cd_Y = 0, cd_Z = 1\<rparr>] 0 0 1 [83] column_bridge = Some (Named, b1) \<and>
    st_items (br_Places b1) = [\<lparr>cd_X = 0, cd_Y = 0, cd_Z = 1\<rparr> \<mapsto> [83]]"
  by (simp add: name_place_def column_bridge_Topo resolveAnchorLive_def resolveAnchor_def Let_def RegionAt_open tile_open_def
    column_tiles Save_def Set_place_def put_topo_def) (simp add: column_bridge_def NewPlaceStore_def)

definition carved_column :: FullStateMessage where
  "carved_column = \<lparr>fs_Width = 1, fs_Height = 1, fs_Depth = 2,
     fs_Tiles = [\<lparr>ts_X = 0, ts_Y = 0, ts_Z = 1, ts_TileType = 1, ts_Flags = FlagFloor\<rparr>,
                 \<lparr>ts_X = 0, ts_Y = 0, ts_Z = 0, ts_TileType = 2, ts_Flags = FlagWall\<rparr>], fs_IsSoilLayer = []\<rparr>"

lemma carved_column_good: "good_full_state carved_column"
  by (simp add: good_full_state_def carved_column_def full_bounds_def tile_coord_def bounds_error_def slt_def)


end
