(* ===== verification/Live_State.thy ===== *)
theory Live_State
  imports World_Model Blueprints
begin

text \<open>
  The live count of dug tiles that the goals are checked against (\<open>mcpserver/live_state.go\<close>, the footprint of the fort in
  \<open>mcpserver/tools_percept.go\<close>, the tool \<open>check_goals\<close> in \<open>mcpserver/tools_control.go\<close>): which levels are scanned, which
  part of each, and what is counted. The plugin's answers to the two queries are arguments, after their JSON; so is the
  text that tells where a count comes from. The order in which a map is ranged over is an argument. None at the outer
  level is a loop that does not end.
\<close>

section \<open>Levels\<close>

definition count_dug :: "bool \<Rightarrow> RegionScanTile \<Rightarrow> u32 \<Rightarrow> u32" where
  "count_dug excludeAmbiguousFloor t n =
     (if rst_Kind t = runes ''construction'' then n
      else if excludeAmbiguousFloor \<and> rst_Kind t = runes ''floor'' then n
      else n + 1)"

definition countDugTiles :: "RegionScanTile list \<Rightarrow> bool \<Rightarrow> u32" where
  "countDugTiles tiles excludeAmbiguousFloor = fold (count_dug excludeAmbiguousFloor) tiles 0"

definition alive_levels :: "EntityInfo list \<Rightarrow> i16 list" where
  "alive_levels dwarves = map ei_Z (filter (\<lambda>d. \<not> ei_Dead d) dwarves)"

definition busier :: "(i16 \<Rightarrow> int) \<Rightarrow> i16 \<Rightarrow> i16 \<times> int \<Rightarrow> i16 \<times> int" where
  "busier counts zz acc = (case acc of (best, bestCount) \<Rightarrow>
     if counts zz > bestCount then (zz, counts zz) else (best, bestCount))"

text \<open>\<open>sort.Slice\<close> by \<open><\<close> on the distinct keys of a map has one result.\<close>

definition modeDwarfZ :: "EntityInfo list \<Rightarrow> i16 option" where
  "modeDwarfZ dwarves =
     (let counts = (\<lambda>z. int (count_list (alive_levels dwarves) z));
          zs = sort_key sint (remdups (alive_levels dwarves))
      in case zs of
           [] \<Rightarrow> None
         | z0 # _ \<Rightarrow> Some (fst (fold (busier counts) zs (z0, -1))))"

definition shelterScanMaxZLevels :: nat where "shelterScanMaxZLevels = 30"

text \<open>The set of levels seen, as a list without repetition.\<close>

fun zone_levels :: "ZoneData list \<Rightarrow> i16 list \<Rightarrow> i16 list option" where
  "zone_levels [] seen = Some seen"
| "zone_levels (zn # zones) seen =
     (let (lo, hi) = (if slt (zn_Z2 zn) (zn_Z1 zn) then (zn_Z2 zn, zn_Z1 zn) else (zn_Z1 zn, zn_Z2 zn))
      in Option.bind (for_i16 lo hi (\<lambda>z seen. Some (List.insert z seen)) seen) (zone_levels zones))"

definition candidateShelterZLevels ::
  "ZoneData list \<Rightarrow> EntityInfo list \<Rightarrow> i16 option \<Rightarrow> (i16 list \<times> bool) option" where
  "candidateShelterZLevels zones dwarves fallback =
     Option.bind (zone_levels zones []) (\<lambda>seen.
       let seen = fold List.insert (alive_levels dwarves) seen
       in if seen = [] then (case fallback of None \<Rightarrow> Some ([], False) | Some z \<Rightarrow> Some ([z], False))
          else let levels = sort_key sint seen
          in if length levels > shelterScanMaxZLevels then Some (take shelterScanMaxZLevels levels, True)
             else Some (levels, False))"

section \<open>The footprint on a level\<close>

record BBox =
  bx_X0 :: i16
  bx_Y0 :: i16
  bx_X1 :: i16
  bx_Y1 :: i16

definition widen_xy :: "Coord \<Rightarrow> BBox \<Rightarrow> BBox" where
  "widen_xy c b =
     (let b = (if slt (cd_X c) (bx_X0 b) then b\<lparr>bx_X0 := cd_X c\<rparr> else b);
          b = (if slt (bx_X1 b) (cd_X c) then b\<lparr>bx_X1 := cd_X c\<rparr> else b);
          b = (if slt (cd_Y c) (bx_Y0 b) then b\<lparr>bx_Y0 := cd_Y c\<rparr> else b);
          b = (if slt (bx_Y1 b) (cd_Y c) then b\<lparr>bx_Y1 := cd_Y c\<rparr> else b)
      in b)"

definition sessionModBBox :: "Coord list \<Rightarrow> ModificationOverlay \<Rightarrow> u16 \<Rightarrow> u16 \<Rightarrow> i16 \<Rightarrow> BBox option" where
  "sessionModBBox ord mods mapW mapH z =
     (let region = \<lparr>mr_XMin = 0, mr_XMax = mapW - 1, mr_YMin = 0, mr_YMax = mapH - 1, mr_ZMin = z, mr_ZMax = z\<rparr>;
          hits = GetModificationsInRegion region 0 mods;
          found = filter (\<lambda>c. case hits c of None \<Rightarrow> False | Some info \<Rightarrow> mi_Type info \<noteq> ModificationUnknown) ord
      in if found = [] then None
         else Some (fold widen_xy found \<lparr>bx_X0 = 32767, bx_Y0 = 32767, bx_X1 = -32768, bx_Y1 = -32768\<rparr>))"

text \<open>The smallest box around two, of which one may be missing, and the margin around a box, cut at the map's edge.\<close>

definition merge_boxes :: "BBox option \<Rightarrow> BBox option \<Rightarrow> BBox" where
  "merge_boxes seen mapped =
     (let b = (case seen of
                None \<Rightarrow> \<lparr>bx_X0 = 32767, bx_Y0 = 32767, bx_X1 = -32768, bx_Y1 = -32768\<rparr>
              | Some s \<Rightarrow> s)
      in case mapped of
           None \<Rightarrow> b
         | Some m \<Rightarrow>
             let b = (if seen = None \<or> slt (bx_X0 m) (bx_X0 b) then b\<lparr>bx_X0 := bx_X0 m\<rparr> else b);
                 b = (if seen = None \<or> slt (bx_Y0 m) (bx_Y0 b) then b\<lparr>bx_Y0 := bx_Y0 m\<rparr> else b);
                 b = (if seen = None \<or> slt (bx_X1 b) (bx_X1 m) then b\<lparr>bx_X1 := bx_X1 m\<rparr> else b)
             in if seen = None \<or> slt (bx_Y1 b) (bx_Y1 m) then b\<lparr>bx_Y1 := bx_Y1 m\<rparr> else b)"

definition pad_box :: "BBox \<Rightarrow> u16 \<Rightarrow> u16 \<Rightarrow> i16 \<Rightarrow> BBox" where
  "pad_box b mapW mapH margin =
     (let b = \<lparr>bx_X0 = bx_X0 b - margin, bx_Y0 = bx_Y0 b - margin, bx_X1 = bx_X1 b + margin, bx_Y1 = bx_Y1 b + margin\<rparr>;
          b = (if slt (bx_X0 b) 0 then b\<lparr>bx_X0 := 0\<rparr> else b);
          b = (if slt (bx_Y0 b) 0 then b\<lparr>bx_Y0 := 0\<rparr> else b);
          b = (if slt (mapW - 1) (bx_X1 b) then b\<lparr>bx_X1 := mapW - 1\<rparr> else b)
      in if slt (mapH - 1) (bx_Y1 b) then b\<lparr>bx_Y1 := mapH - 1\<rparr> else b)"

definition unionFootprintBBox :: "BBox option \<Rightarrow> BBox option \<Rightarrow> u16 \<Rightarrow> u16 \<Rightarrow> i16 \<Rightarrow> BBox option" where
  "unionFootprintBBox seen mapped mapW mapH margin =
     (if seen = None \<and> mapped = None then None else Some (pad_box (merge_boxes seen mapped) mapW mapH margin))"

definition fortFootprintMargin :: i16 where "fortFootprintMargin = 8"

text \<open>
  The plugin: the answer to \<open>fort_footprint\<close> on a level (a failure, nothing found, or a box with the flag for natural
  caves), and the tiles of \<open>region_scan\<close> in a region.
\<close>

record LivePlugin =
  lp_footprint :: "i16 \<Rightarrow> unit + (BBox \<times> bool) option"
  lp_scan :: "ModRegion \<Rightarrow> unit + RegionScanTile list"

definition fortFootprintBBox ::
  "LivePlugin \<Rightarrow> Coord list \<Rightarrow> ModificationOverlay \<Rightarrow> u16 \<Rightarrow> u16 \<Rightarrow> i16 \<Rightarrow> i16 \<Rightarrow> (BBox \<times> bool) option" where
  "fortFootprintBBox b ord mods mapW mapH z margin =
     (let s = sessionModBBox ord mods mapW mapH z;
          m = (case lp_footprint b z of Inl mErr \<Rightarrow> None | Inr found \<Rightarrow> found)
      in map_option (\<lambda>box. (box, case m of None \<Rightarrow> False | Some (mbox, cave) \<Rightarrow> cave))
           (unionFootprintBBox s (map_option fst m) mapW mapH margin))"

section \<open>The count\<close>

definition level_region :: "BBox \<Rightarrow> i16 \<Rightarrow> ModRegion" where
  "level_region box z = \<lparr>mr_XMin = bx_X0 box, mr_XMax = bx_X1 box, mr_YMin = bx_Y0 box, mr_YMax = bx_Y1 box, mr_ZMin = z, mr_ZMax = z\<rparr>"

text \<open>One level: the running total, the flag, and the levels scanned so far.\<close>

definition scan_level :: "LivePlugin \<Rightarrow> Coord list \<Rightarrow> ModificationOverlay \<Rightarrow> u16 \<Rightarrow> u16 \<Rightarrow> i16 \<Rightarrow>
    u32 \<times> bool \<times> i16 list \<Rightarrow> u32 \<times> bool \<times> i16 list" where
  "scan_level b ord mods mapW mapH z acc = (case acc of (sum_dug, anyNaturalCave, scanned) \<Rightarrow>
     (case fortFootprintBBox b ord mods mapW mapH z fortFootprintMargin of
        None \<Rightarrow> acc
      | Some (box, mayIncludeNaturalCave) \<Rightarrow> (case lp_scan b (level_region box z) of
          Inl err \<Rightarrow> acc
        | Inr tiles \<Rightarrow> (sum_dug + countDugTiles tiles False, anyNaturalCave \<or> mayIncludeNaturalCave, scanned @ [z]))))"

text \<open>\<open>describe\<close> is the text for the levels scanned, the cut and the flag.\<close>

definition liveDugTileCount :: "(i16 list \<Rightarrow> bool \<Rightarrow> bool \<Rightarrow> gostring) \<Rightarrow> LivePlugin \<Rightarrow> Coord list \<Rightarrow>
    ModificationOverlay list \<Rightarrow> 'p WorldModel \<Rightarrow> (u32 \<times> gostring) option option" where
  "liveDugTileCount describe b ord store w =
     (let dwarves = es_Dwarves (ob_Entities (wm_Observed w)); zones = zs_All (ob_Zones (wm_Observed w)) in
      Option.bind (candidateShelterZLevels zones dwarves (modeDwarfZ dwarves)) (\<lambda>(levels, clamped).
        if levels = [] then Some None
        else (case (ob_Modifications (wm_Observed w), ob_Topology (wm_Observed w)) of
            (Some a, Some topo) \<Rightarrow>
              let (mapW, mapH, mapD) = GetDimensions topo;
                  (sum_dug, anyNaturalCave, scanned) = fold (scan_level b ord (store ! a) mapW mapH) levels (0, False, [])
              in if scanned = [] then Some None else Some (Some (sum_dug, describe scanned clamped anyNaturalCave))
          | _ \<Rightarrow> Some None)))"

text \<open>The tool: its results, and the world model it leaves.\<close>

definition check_goals :: "(i16 list \<Rightarrow> bool \<Rightarrow> bool \<Rightarrow> gostring) \<Rightarrow> LivePlugin \<Rightarrow> Coord list \<Rightarrow> (nat \<Rightarrow> go_time) \<Rightarrow>
    Predicate list \<Rightarrow> ModificationOverlay list \<Rightarrow> 'p WorldModel \<Rightarrow> (Result list \<times> 'p WorldModel) option" where
  "check_goals describe b ord now preds store w =
     Option.bind (liveDugTileCount describe b ord store w) (\<lambda>live. case live of
         Some (count, source) \<Rightarrow>
           let w = SetLiveDugTiles count source w
           in Some (CheckAll now store (Some w) preds, ClearLiveDugTiles w)
       | None \<Rightarrow> Some (CheckAll now store (Some w) preds, w))"

section \<open>What is counted\<close>

lemma countDugTiles_eq:
  "countDugTiles tiles ex = of_nat (length (filter (\<lambda>t. rst_Kind t \<noteq> runes ''construction'' \<and> \<not> (ex \<and> rst_Kind t = runes ''floor'')) tiles))"
proof -
  have "fold (count_dug ex) tiles n = n + of_nat (length (filter (\<lambda>t. rst_Kind t \<noteq> runes ''construction'' \<and> \<not> (ex \<and> rst_Kind t = runes ''floor'')) tiles))" for n
    by (induction tiles arbitrary: n) (auto simp: count_dug_def)
  then show ?thesis by (simp add: countDugTiles_def)
qed

text \<open>The count and the capture of a blueprint agree on what is dug.\<close>

lemma count_agrees_with_capture:
  "CreateBlueprintFromRegionScan tiles region name = Inr bp \<Longrightarrow> countDugTiles tiles False = of_nat (length (bp_Digs bp))"
  by (auto simp: CreateBlueprintFromRegionScan_def countDugTiles_eq region_blueprint_def Let_def split: if_splits)

section \<open>The candidate levels\<close>

definition zone_span :: "ZoneData \<Rightarrow> i16 set" where
  "zone_span zn = {z. min (sint (zn_Z1 zn)) (sint (zn_Z2 zn)) \<le> sint z \<and> sint z \<le> max (sint (zn_Z1 zn)) (sint (zn_Z2 zn))}"

definition reaches_top :: "ZoneData \<Rightarrow> bool" where
  "reaches_top zn \<longleftrightarrow> zn_Z1 zn = 0x7FFF \<or> zn_Z2 zn = 0x7FFF"

definition fort_levels :: "ZoneData list \<Rightarrow> EntityInfo list \<Rightarrow> i16 set" where
  "fort_levels zones dwarves = (\<Union>zn\<in>set zones. zone_span zn) \<union> {ei_Z d | d. d \<in> set dwarves \<and> \<not> ei_Dead d}"

lemma fold_insert_set: "set (fold List.insert xs seen) = set xs \<union> set seen"
  by (induction xs arbitrary: seen) auto

lemma fold_insert_distinct: "distinct seen \<Longrightarrow> distinct (fold List.insert xs seen)"
  by (induction xs arbitrary: seen) auto

lemma zone_levels_result:
  "distinct seen \<Longrightarrow> if list_ex reaches_top zones then zone_levels zones seen = None
   else \<exists>seen'. zone_levels zones seen = Some seen' \<and> distinct seen' \<and> set seen' = (\<Union>zn\<in>set zones. zone_span zn) \<union> set seen"
proof (induction zones arbitrary: seen)
  case (Cons zn zones)
  define lo hi where "lo = (if slt (zn_Z2 zn) (zn_Z1 zn) then zn_Z2 zn else zn_Z1 zn)"
    and "hi = (if slt (zn_Z2 zn) (zn_Z1 zn) then zn_Z1 zn else zn_Z2 zn)"
  have step: "zone_levels (zn # zones) seen =
      Option.bind (for_i16 lo hi (\<lambda>z seen. Some (List.insert z seen)) seen) (zone_levels zones)"
    by (simp add: lo_def hi_def)
  have range: "set (i16_range lo hi) = zone_span zn"
    by (auto simp: set_i16_range zone_span_def lo_def hi_def slt_def)
  have top: "hi = 0x7FFF \<longleftrightarrow> reaches_top zn"
    using i16_le_max [of "zn_Z1 zn"] i16_le_max [of "zn_Z2 zn"]
    by (auto simp: hi_def reaches_top_def slt_def i16_max [symmetric])
  show ?case
  proof (cases "reaches_top zn")
    case True
    then show ?thesis using top step by (simp add: for_i16_never)
  next
    case False
    then have "zone_levels (zn # zones) seen = zone_levels zones (fold List.insert (i16_range lo hi) seen)"
      using for_i16_ends [of hi lo "\<lambda>z seen. Some (List.insert z seen)" List.insert seen] top step by simp
    then show ?thesis
      using Cons.IH [OF fold_insert_distinct [OF Cons.prems, of "i16_range lo hi"]] False
      by (auto simp: fold_insert_set range)
  qed
qed simp

lemma sort_key_sint:
  assumes "distinct xs"
  shows "sort_key sint xs = map word_of_int (sorted_list_of_set (sint ` set (xs :: i16 list)))"
proof -
  have "inj_on (sint :: i16 \<Rightarrow> int) (set xs)" by (rule inj_onI) (rule signed_word_eqI)
  then have "distinct (map sint (sort_key sint xs))" using assms by (simp add: distinct_map)
  then have "map sint (sort_key sint xs) = sorted_list_of_set (sint ` set xs)"
    by (intro sorted_distinct_set_unique) simp_all
  then have "map word_of_int (sorted_list_of_set (sint ` set xs)) = map (word_of_int \<circ> sint) (sort_key sint xs)"
    unfolding map_map [symmetric] by simp
  also have "\<dots> = sort_key sint xs" by (rule map_idI) simp
  finally show ?thesis by simp
qed

text \<open>
  C11: The levels to scan: computing them ends exactly when no zone reaches the level 32767, where the counter wraps. Then
  they are, in ascending order and each once, the levels that a zone spans or a living dwarf stands on, the lowest
  thirty of them if there are more, which the flag tells. The fallback is looked at only when there is none.
\<close>

theorem candidate_levels_exact:
  "candidateShelterZLevels zones dwarves fallback =
     (if list_ex reaches_top zones then None
      else let levels = fort_levels zones dwarves
       in if levels = {} then Some (case fallback of None \<Rightarrow> [] | Some z \<Rightarrow> [z], False)
          else Some (map word_of_int (take 30 (sorted_list_of_set (sint ` levels))), card levels > 30))"
proof (cases "list_ex reaches_top zones")
  case True
  then show ?thesis using zone_levels_result [of "[]" zones] by (simp add: candidateShelterZLevels_def)
next
  case False
  then obtain seen where seen: "zone_levels zones [] = Some seen" "distinct seen" "set seen = (\<Union>zn\<in>set zones. zone_span zn)"
    using zone_levels_result [of "[]" zones] by auto
  define all where "all = fold List.insert (alive_levels dwarves) seen"
  have all: "distinct all" "set all = fort_levels zones dwarves"
    using seen by (auto simp: all_def fold_insert_distinct fold_insert_set fort_levels_def alive_levels_def)
  then have "length all = card (fort_levels zones dwarves)" and "all = [] \<longleftrightarrow> fort_levels zones dwarves = {}"
    by (metis distinct_card) (metis all(2) set_empty)
  moreover have "sort_key sint all = map word_of_int (sorted_list_of_set (sint ` fort_levels zones dwarves))"
    using sort_key_sint [OF all(1)] by (simp add: all(2))
  moreover have "card (sint ` fort_levels zones dwarves) = card (fort_levels zones dwarves)"
    by (intro card_image inj_onI) (rule signed_word_eqI)
  ultimately show ?thesis
    using False seen(1)
    by (simp add: candidateShelterZLevels_def all_def [symmetric] Let_def shelterScanMaxZLevels_def take_map split: option.split)
qed

text \<open>With a living dwarf there is a level to scan, so the level of most dwarves is never used in its place.\<close>

lemma fallback_not_used:
  "modeDwarfZ dwarves = Some z \<Longrightarrow> candidateShelterZLevels zones dwarves (modeDwarfZ dwarves) = candidateShelterZLevels zones dwarves None"
proof -
  assume "modeDwarfZ dwarves = Some z"
  then have "alive_levels dwarves \<noteq> []" by (auto simp: modeDwarfZ_def Let_def)
  then have "fort_levels zones dwarves \<noteq> {}" by (auto simp: alive_levels_def fort_levels_def filter_empty_conv)
  then show ?thesis unfolding candidate_levels_exact by (simp add: Let_def)
qed

section \<open>The boxes\<close>

lemma sint_widen [simp]:
  "sint (bx_X0 (widen_xy c b)) = min (sint (bx_X0 b)) (sint (cd_X c))"
  "sint (bx_Y0 (widen_xy c b)) = min (sint (bx_Y0 b)) (sint (cd_Y c))"
  "sint (bx_X1 (widen_xy c b)) = max (sint (bx_X1 b)) (sint (cd_X c))"
  "sint (bx_Y1 (widen_xy c b)) = max (sint (bx_Y1 b)) (sint (cd_Y c))"
  by (auto simp: widen_xy_def Let_def slt_def)

text \<open>The box over a list holds its tiles, and what bounds the start and the tiles bounds the box.\<close>

lemma widen_fold:
  defines "r cs b \<equiv> fold widen_xy cs b"
  shows "c \<in> set cs \<Longrightarrow> sint (bx_X0 (r cs b)) \<le> sint (cd_X c) \<and> sint (cd_X c) \<le> sint (bx_X1 (r cs b)) \<and>
      sint (bx_Y0 (r cs b)) \<le> sint (cd_Y c) \<and> sint (cd_Y c) \<le> sint (bx_Y1 (r cs b))"
    and "k \<le> sint (bx_X0 b) \<Longrightarrow> \<forall>c\<in>set cs. k \<le> sint (cd_X c) \<Longrightarrow> k \<le> sint (bx_X0 (r cs b))"
    and "k \<le> sint (bx_Y0 b) \<Longrightarrow> \<forall>c\<in>set cs. k \<le> sint (cd_Y c) \<Longrightarrow> k \<le> sint (bx_Y0 (r cs b))"
    and "sint (bx_X1 b) \<le> k \<Longrightarrow> \<forall>c\<in>set cs. sint (cd_X c) \<le> k \<Longrightarrow> sint (bx_X1 (r cs b)) \<le> k"
    and "sint (bx_Y1 b) \<le> k \<Longrightarrow> \<forall>c\<in>set cs. sint (cd_Y c) \<le> k \<Longrightarrow> sint (bx_Y1 (r cs b)) \<le> k"
proof -
  have grow: "sint (bx_X0 (r cs b)) \<le> sint (bx_X0 b) \<and> sint (bx_Y0 (r cs b)) \<le> sint (bx_Y0 b) \<and>
      sint (bx_X1 b) \<le> sint (bx_X1 (r cs b)) \<and> sint (bx_Y1 b) \<le> sint (bx_Y1 (r cs b))" for cs b
  proof (induction cs arbitrary: b)
    case (Cons d cs)
    then show ?case using Cons.IH [of "widen_xy d b"] by (auto simp: r_def)
  qed (simp add: r_def)
  show "c \<in> set cs \<Longrightarrow> sint (bx_X0 (r cs b)) \<le> sint (cd_X c) \<and> sint (cd_X c) \<le> sint (bx_X1 (r cs b)) \<and>
      sint (bx_Y0 (r cs b)) \<le> sint (cd_Y c) \<and> sint (cd_Y c) \<le> sint (bx_Y1 (r cs b))"
  proof (induction cs arbitrary: b)
    case (Cons d cs)
    then show ?case using grow [of cs "widen_xy d b"] by (auto simp: r_def)
  qed simp
  show "k \<le> sint (bx_X0 b) \<Longrightarrow> \<forall>c\<in>set cs. k \<le> sint (cd_X c) \<Longrightarrow> k \<le> sint (bx_X0 (r cs b))"
    and "k \<le> sint (bx_Y0 b) \<Longrightarrow> \<forall>c\<in>set cs. k \<le> sint (cd_Y c) \<Longrightarrow> k \<le> sint (bx_Y0 (r cs b))"
    and "sint (bx_X1 b) \<le> k \<Longrightarrow> \<forall>c\<in>set cs. sint (cd_X c) \<le> k \<Longrightarrow> sint (bx_X1 (r cs b)) \<le> k"
    and "sint (bx_Y1 b) \<le> k \<Longrightarrow> \<forall>c\<in>set cs. sint (cd_Y c) \<le> k \<Longrightarrow> sint (bx_Y1 (r cs b)) \<le> k"
    unfolding r_def by (induction cs arbitrary: b) simp_all
qed

section \<open>The exact count\<close>

text \<open>
  A plugin that scans the map as it is: every region gives its tiles that show work, each once with its kind.
\<close>

definition scan_coord :: "RegionScanTile \<Rightarrow> Coord" where
  "scan_coord t = \<lparr>cd_X = rst_X t, cd_Y = rst_Y t, cd_Z = rst_Z t\<rparr>"

definition scans_map :: "(Coord \<Rightarrow> rune list option) \<Rightarrow> LivePlugin \<Rightarrow> bool" where
  "scans_map kind_at b \<longleftrightarrow> (\<forall>region. \<exists>tiles. lp_scan b region = Inr tiles \<and> distinct (map scan_coord tiles) \<and>
     (\<forall>c k. (\<exists>t\<in>set tiles. scan_coord t = c \<and> rst_Kind t = k) \<longleftrightarrow> in_region region c \<and> kind_at c = Some k))"

definition dug_there :: "(Coord \<Rightarrow> rune list option) \<Rightarrow> Coord \<Rightarrow> bool" where
  "dug_there kind_at c \<longleftrightarrow> (\<exists>k. kind_at c = Some k \<and> k \<noteq> runes ''construction'')"

lemma scan_counts:
  assumes "scans_map kind_at b"
  shows "\<exists>tiles. lp_scan b region = Inr tiles \<and>
    countDugTiles tiles False = of_nat (card {c. in_region region c \<and> dug_there kind_at c})"
proof -
  obtain tiles where tiles: "lp_scan b region = Inr tiles" "distinct (map scan_coord tiles)"
      "\<And>c k. (\<exists>t\<in>set tiles. scan_coord t = c \<and> rst_Kind t = k) \<longleftrightarrow> in_region region c \<and> kind_at c = Some k"
    using spec [OF assms [unfolded scans_map_def], of region] by (elim exE conjE) blast
  let ?dug = "filter (\<lambda>t. rst_Kind t \<noteq> runes ''construction'') tiles"
  have "c \<in> set (map scan_coord ?dug) \<longleftrightarrow> in_region region c \<and> dug_there kind_at c" for c
  proof -
    have "c \<in> set (map scan_coord ?dug) \<longleftrightarrow>
        (\<exists>k. k \<noteq> runes ''construction'' \<and> (\<exists>t\<in>set tiles. scan_coord t = c \<and> rst_Kind t = k))" by auto
    then show ?thesis unfolding tiles(3) by (auto simp: dug_there_def)
  qed
  then have "set (map scan_coord ?dug) = {c. in_region region c \<and> dug_there kind_at c}" by blast
  moreover have "distinct (map scan_coord ?dug)" using tiles(2) by (rule distinct_map_filter)
  ultimately have "length ?dug = card {c. in_region region c \<and> dug_there kind_at c}"
    using distinct_card [of "map scan_coord ?dug"] by (simp only: length_map)
  then show ?thesis using tiles(1) by (simp add: countDugTiles_eq)
qed

text \<open>The tiles of a level that the box of the level holds.\<close>

definition in_footprint :: "LivePlugin \<Rightarrow> Coord list \<Rightarrow> ModificationOverlay \<Rightarrow> u16 \<Rightarrow> u16 \<Rightarrow> Coord \<Rightarrow> bool" where
  "in_footprint b ord mods mapW mapH c \<longleftrightarrow> (\<exists>box cave. fortFootprintBBox b ord mods mapW mapH (cd_Z c) fortFootprintMargin = Some (box, cave) \<and>
     in_region (level_region box (cd_Z c)) c)"

lemma in_level_region: "in_region (level_region box z) c \<Longrightarrow> cd_Z c = z"
  unfolding in_region_def level_region_def slt_def by (auto intro: signed_word_eqI)

lemma scan_levels_count:
  assumes "scans_map kind_at b" and "distinct levels"
  shows "\<exists>cave'. fold (scan_level b ord mods mapW mapH) levels (n, cave, seen) =
    (n + of_nat (card {c. cd_Z c \<in> set levels \<and> in_footprint b ord mods mapW mapH c \<and> dug_there kind_at c}), cave',
     seen @ filter (\<lambda>z. fortFootprintBBox b ord mods mapW mapH z fortFootprintMargin \<noteq> None) levels)"
  using assms(2)
proof (induction levels arbitrary: n cave seen)
  case (Cons z levels)
  let ?foot = "\<lambda>c. in_footprint b ord mods mapW mapH c \<and> dug_there kind_at c"
  have split: "card {c. cd_Z c \<in> set (z # levels) \<and> ?foot c} =
      card {c. cd_Z c = z \<and> ?foot c} + card {c. cd_Z c \<in> set levels \<and> ?foot c}"
  proof -
    have "{c. cd_Z c \<in> set (z # levels) \<and> ?foot c} = {c. cd_Z c = z \<and> ?foot c} \<union> {c. cd_Z c \<in> set levels \<and> ?foot c}" by auto
    moreover have "{c. cd_Z c = z \<and> ?foot c} \<inter> {c. cd_Z c \<in> set levels \<and> ?foot c} = {}" using Cons.prems by auto
    ultimately show ?thesis by (simp add: card_Un_disjoint)
  qed
  show ?case
  proof (cases "fortFootprintBBox b ord mods mapW mapH z fortFootprintMargin")
    case None
    then have empty: "{c. cd_Z c = z \<and> ?foot c} = {}" by (auto simp: in_footprint_def)
    have step: "fold (scan_level b ord mods mapW mapH) (z # levels) (n, cave, seen) =
        fold (scan_level b ord mods mapW mapH) levels (n, cave, seen)"
      using None by (simp add: scan_level_def)
    show ?thesis unfolding step split empty using Cons.IH [of n cave seen] Cons.prems None by simp
  next
    case (Some found)
    obtain box flag where found: "found = (box, flag)" by fastforce
    obtain tiles where tiles: "lp_scan b (level_region box z) = Inr tiles"
        "countDugTiles tiles False = of_nat (card {c. in_region (level_region box z) c \<and> dug_there kind_at c})"
      using scan_counts [OF assms(1)] by blast
    have "in_footprint b ord mods mapW mapH c \<longleftrightarrow> in_region (level_region box z) c" if "cd_Z c = z" for c
      using that by (simp add: in_footprint_def Some found)
    then have level: "{c. cd_Z c = z \<and> ?foot c} = {c. in_region (level_region box z) c \<and> dug_there kind_at c}"
      using in_level_region by blast
    have step: "fold (scan_level b ord mods mapW mapH) (z # levels) (n, cave, seen) =
        fold (scan_level b ord mods mapW mapH) levels (n + countDugTiles tiles False, cave \<or> flag, seen @ [z])"
      using Some found tiles(1) by (simp add: scan_level_def)
    show ?thesis
      unfolding step split level
      using Cons.IH [of "n + countDugTiles tiles False" "cave \<or> flag" "seen @ [z]"] Cons.prems Some tiles(2)
      by (simp add: add.assoc)
  qed
qed simp


text \<open>A box that lies in the map; maps are so small that the margin does not wrap.\<close>

definition box_in_map :: "u16 \<Rightarrow> u16 \<Rightarrow> BBox \<Rightarrow> bool" where
  "box_in_map w h b \<longleftrightarrow> 0 \<le> sint (bx_X0 b) \<and> sint (bx_X0 b) < sint w \<and> 0 \<le> sint (bx_X1 b) \<and> sint (bx_X1 b) < sint w \<and>
     0 \<le> sint (bx_Y0 b) \<and> sint (bx_Y0 b) < sint h \<and> 0 \<le> sint (bx_Y1 b) \<and> sint (bx_Y1 b) < sint h"

lemma sint_margin:
  fixes v :: i16
  assumes "0 \<le> sint v" and "sint v \<le> 32759"
  shows "sint (v - 8) = sint v - 8" and "sint (v + 8) = sint v + 8"
proof -
  have "sint (word_of_int (sint v - 8) :: i16) = sint v - 8" using assms by (intro sint_of) auto
  then show "sint (v - 8) = sint v - 8" by simp
  have "sint (word_of_int (sint v + 8) :: i16) = sint v + 8" using assms by (intro sint_of) auto
  then show "sint (v + 8) = sint v + 8" by simp
qed

lemma sint_pred:
  fixes w :: i16
  assumes "0 < sint w"
  shows "sint (w - 1) = sint w - 1"
proof -
  have "sint (word_of_int (sint w - 1) :: i16) = sint w - 1" using assms i16_le_max [of w] by (intro sint_of) auto
  then show ?thesis by simp
qed

text \<open>What a box holds.\<close>

definition box_le :: "BBox \<Rightarrow> BBox \<Rightarrow> bool" where
  "box_le a b \<longleftrightarrow> sint (bx_X0 b) \<le> sint (bx_X0 a) \<and> sint (bx_Y0 b) \<le> sint (bx_Y0 a) \<and>
     sint (bx_X1 a) \<le> sint (bx_X1 b) \<and> sint (bx_Y1 a) \<le> sint (bx_Y1 b)"

lemma merge_boxes_simps [simp]:
  "merge_boxes (Some s) None = s" "merge_boxes None (Some m) = m"
  "sint (bx_X0 (merge_boxes (Some s) (Some m))) = min (sint (bx_X0 s)) (sint (bx_X0 m))"
  "sint (bx_Y0 (merge_boxes (Some s) (Some m))) = min (sint (bx_Y0 s)) (sint (bx_Y0 m))"
  "sint (bx_X1 (merge_boxes (Some s) (Some m))) = max (sint (bx_X1 s)) (sint (bx_X1 m))"
  "sint (bx_Y1 (merge_boxes (Some s) (Some m))) = max (sint (bx_Y1 s)) (sint (bx_Y1 m))"
  by (simp_all add: merge_boxes_def slt_def Let_def)

lemma merge_boxes_le:
  shows "box_le s (merge_boxes (Some s) mapped)" and "box_le m (merge_boxes seen (Some m))"
    and "(\<And>b. seen = Some b \<or> mapped = Some b \<Longrightarrow> box_in_map w h b) \<Longrightarrow> seen \<noteq> None \<or> mapped \<noteq> None \<Longrightarrow>
      box_in_map w h (merge_boxes seen mapped)"
proof -
  show "box_le s (merge_boxes (Some s) mapped)" by (cases mapped) (simp_all add: box_le_def)
  show "box_le m (merge_boxes seen (Some m))" by (cases seen) (simp_all add: box_le_def)
  assume in_map: "\<And>b. seen = Some b \<or> mapped = Some b \<Longrightarrow> box_in_map w h b" and some: "seen \<noteq> None \<or> mapped \<noteq> None"
  show "box_in_map w h (merge_boxes seen mapped)"
  proof (cases "seen = None \<or> mapped = None")
    case True
    then show ?thesis using in_map some by auto
  next
    case False
    then obtain s m where sm: "seen = Some s" "mapped = Some m" by auto
    then have "box_in_map w h s" "box_in_map w h m" using in_map by simp_all
    then show ?thesis by (auto simp: sm box_in_map_def)
  qed
qed

lemma pad_box_le:
  assumes "box_in_map w h b" and "sint w \<le> 32760" "sint h \<le> 32760"
  shows "box_le b (pad_box b w h 8)" and "box_in_map w h (pad_box b w h 8)"
proof -
  have pos: "0 < sint w" "0 < sint h" using assms(1) by (auto simp: box_in_map_def)
  note facts = sint_pred [OF pos(1)] sint_pred [OF pos(2)] sint_margin
  show "box_le b (pad_box b w h 8)" and "box_in_map w h (pad_box b w h 8)"
    using assms by (auto simp: box_le_def box_in_map_def pad_box_def slt_def Let_def facts)
qed

text \<open>Every tile that this connection saw worked on lies in the footprint of its level, whatever the plugin knows.\<close>

lemma recorded_in_footprint:
  assumes "mo_modifications mods c = Some info" "mi_Type info \<noteq> ModificationUnknown" "c \<in> set ord"
    and "0 \<le> sint (cd_X c)" "sint (cd_X c) < sint w" "0 \<le> sint (cd_Y c)" "sint (cd_Y c) < sint h"
    and "sint w \<le> 32760" "sint h \<le> 32760"
    and "\<And>m cave. lp_footprint b (cd_Z c) = Inr (Some (m, cave)) \<Longrightarrow> box_in_map w h m"
  shows "in_footprint b ord mods w h c"
proof -
  let ?z = "cd_Z c"
  define region where "region = \<lparr>mr_XMin = 0, mr_XMax = w - 1, mr_YMin = 0, mr_YMax = h - 1, mr_ZMin = ?z, mr_ZMax = ?z\<rparr>"
  define found where "found = filter (\<lambda>c. case GetModificationsInRegion region 0 mods c of None \<Rightarrow> False
      | Some info \<Rightarrow> mi_Type info \<noteq> ModificationUnknown) ord"
  have pred: "sint (w - 1) = sint w - 1" "sint (h - 1) = sint h - 1" using assms(4-7) by (auto intro!: sint_pred)
  have inside: "in_region region d \<longleftrightarrow> 0 \<le> sint (cd_X d) \<and> sint (cd_X d) < sint w \<and> 0 \<le> sint (cd_Y d) \<and> sint (cd_Y d) < sint h \<and>
      sint (cd_Z d) = sint ?z" for d
    using pred by (auto simp: in_region_def region_def slt_def)
  have c: "c \<in> set found" using assms(1-7) by (simp add: found_def GetModificationsInRegion_def inside)
  have all: "\<forall>d\<in>set found. in_region region d"
    by (auto simp: found_def GetModificationsInRegion_def split: option.splits if_splits)
  define s where "s = fold widen_xy found \<lparr>bx_X0 = 32767, bx_Y0 = 32767, bx_X1 = -32768, bx_Y1 = -32768\<rparr>"
  have seen: "sessionModBBox ord mods w h ?z = Some s"
    using c by (auto simp: sessionModBBox_def Let_def region_def [symmetric] found_def [symmetric] s_def)
  have holds: "sint (bx_X0 s) \<le> sint (cd_X d) \<and> sint (cd_X d) \<le> sint (bx_X1 s) \<and> sint (bx_Y0 s) \<le> sint (cd_Y d) \<and>
      sint (cd_Y d) \<le> sint (bx_Y1 s)" if "d \<in> set found" for d
    unfolding s_def by (rule widen_fold(1) [OF that])
  have "0 \<le> sint (bx_X0 s)"
    unfolding s_def by (rule widen_fold(2)) (use all in \<open>auto simp: inside\<close>)
  moreover have "0 \<le> sint (bx_Y0 s)"
    unfolding s_def by (rule widen_fold(3)) (use all in \<open>auto simp: inside\<close>)
  moreover have "sint (bx_X1 s) \<le> sint w - 1"
    unfolding s_def by (rule widen_fold(4)) (use all assms(4-7) in \<open>auto simp: inside\<close>)
  moreover have "sint (bx_Y1 s) \<le> sint h - 1"
    unfolding s_def by (rule widen_fold(5)) (use all assms(4-7) in \<open>auto simp: inside\<close>)
  ultimately have s: "box_in_map w h s" using holds [OF c] by (auto simp: box_in_map_def)
  let ?m = "case lp_footprint b ?z of Inl e \<Rightarrow> None | Inr found \<Rightarrow> found"
  let ?box = "merge_boxes (Some s) (map_option fst ?m)"
  have "\<And>m. map_option fst ?m = Some m \<Longrightarrow> box_in_map w h m" using assms(10) by (auto split: sum.splits)
  then have merged: "box_le s ?box" "box_in_map w h ?box"
    using s by (auto intro: merge_boxes_le(1) intro!: merge_boxes_le(3))
  note padded = pad_box_le [OF merged(2) assms(8,9)]
  have "\<exists>cave. fortFootprintBBox b ord mods w h ?z fortFootprintMargin = Some (pad_box ?box w h 8, cave)"
    by (simp add: fortFootprintBBox_def seen unionFootprintBBox_def fortFootprintMargin_def Let_def)
  moreover have "in_region (level_region (pad_box ?box w h 8) ?z) c"
    using merged(1) padded(1) holds [OF c] by (auto simp: box_le_def in_region_def level_region_def slt_def)
  ultimately show ?thesis unfolding in_footprint_def by blast
qed

section \<open>The tool\<close>

text \<open>
  The goals are judged by the live count when there is one, and the world model is left without a live count, as
  it was.
\<close>

lemma goals_judged_live:
  assumes "roster_track (Some m) (wm_Observed w)" and "LiveDugTiles w = \<lparr>lv_Count = 0, lv_Source = [], lv_Ok = False\<rparr>"
    and "liveDugTileCount describe b ord store w = Some live"
  shows "\<exists>results. check_goals describe b ord now preds store w = Some (results, w) \<and>
    map re_Satisfied results = map (judged (case live of None \<Rightarrow> dugTiles store w | Some (count, source) \<Rightarrow> uint count) m) preds"
proof (cases live)
  case None
  then show ?thesis using assms(3) judged_CheckAll [OF assms(1)] by (simp add: check_goals_def)
next
  case (Some found)
  obtain count source where found: "found = (count, source)" by fastforce
  let ?w = "SetLiveDugTiles count source w"
  have roster: "roster_track (Some m) (wm_Observed ?w)" using assms(1) by (simp add: SetLiveDugTiles_def roster_track_def)
  have "dugTiles store ?w = uint count" by (simp add: dugTiles_def SetLiveDugTiles_def LiveDugTiles_def Let_def)
  moreover have "ClearLiveDugTiles ?w = w"
    using assms(2) by (cases w) (simp add: ClearLiveDugTiles_def SetLiveDugTiles_def LiveDugTiles_def)
  ultimately show ?thesis
    using assms(3) Some found judged_CheckAll [OF roster] by (simp add: check_goals_def Let_def)
qed

section \<open>Examples\<close>

definition digger :: EntityInfo where
  "digger = \<lparr>ei_ID = 7, ei_X = 0, ei_Y = 0, ei_Z = 1, ei_Type = EntityTypeDwarf, ei_Subtype = 0, ei_Dead = False\<rparr>"

definition dug_room :: "Coord \<Rightarrow> rune list option" where
  "dug_room c = (if c = \<lparr>cd_X = 0, cd_Y = 0, cd_Z = 1\<rparr> then Some (runes ''floor'') else None)"

definition honest_plugin :: LivePlugin where
  "honest_plugin = \<lparr>lp_footprint = (\<lambda>z. Inr (Some (\<lparr>bx_X0 = 0, bx_Y0 = 0, bx_X1 = 0, bx_Y1 = 0\<rparr>, False))),
     lp_scan = (\<lambda>region. Inr (if in_region region \<lparr>cd_X = 0, cd_Y = 0, cd_Z = 1\<rparr>
       then [\<lparr>rst_X = 0, rst_Y = 0, rst_Z = 1, rst_Kind = runes ''floor''\<rparr>] else []))\<rparr>"

definition digger_model :: "unit WorldModel" where
  "digger_model = (let w = NewWorldModel 0 (Some column_map) None (Some 0)
     in w\<lparr>wm_Observed := (wm_Observed w)\<lparr>ob_Entities := buildEntitySnapshot [digger] 1 1\<rparr>\<rparr>)"

lemma digger_model_simps:
  "es_Dwarves (ob_Entities (wm_Observed digger_model)) = [digger]" "zs_All (ob_Zones (wm_Observed digger_model)) = []"
  "ob_Modifications (wm_Observed digger_model) = Some 0" "ob_Topology (wm_Observed digger_model) = Some column_map"
  by (simp_all add: digger_model_def NewWorldModel_def buildEntitySnapshot_def zero_Observed_def digger_def)

lemma honest_scans: "scans_map dug_room honest_plugin"
  by (auto simp: scans_map_def honest_plugin_def dug_room_def scan_coord_def)

lemma digger_level: "candidateShelterZLevels [] [digger] (modeDwarfZ [digger]) = Some ([1], False)"
  by (simp add: candidateShelterZLevels_def alive_levels_def digger_def shelterScanMaxZLevels_def)


end
