(* ===== verification/Spec2Isabelle.thy ===== *)
theory Spec2Isabelle
  imports Connection Command_Codec Compression Task_Queue Reconciler Blueprints Deliberator Hazards Client Mapview Proposals Places Live_State
begin

text \<open>
  A model of the Go side of DF-AI, the orchestrator that lets a language model play Dwarf Fortress
  over a binary protocol, with the theorems that make its core correct.

  The program. A plugin inside the game sends the map, its changes, the dwarves and the fort's
  announcements over TCP (\<open>internal/protocol\<close>); the orchestrator keeps a two-bits-per-tile overlay of
  what is open, closed or unknown (\<open>internal/topology\<close>), plans work as a graph of nodes
  (\<open>internal/plan\<close>) or as a queue of prioritised tasks (\<open>internal/planning\<close>), and sends commands back.

  The theories, in the order the data flows.

  \<^item> \<open>Go_Base\<close>, \<open>Wire\<close>: machine integers, bytes and strings; big-endian readers and writers of
    \<open>encoding/binary\<close> as functions on byte lists that return the rest of the input.
  \<^item> \<open>Command_Types\<close>, \<open>Command_Validate\<close>, \<open>Command_Codec\<close> (\<open>protocol/message.go\<close>,
    \<open>protocol/codec.go\<close>): the commands, what \<open>Validate\<close> accepts, and the writer and reader of every
    payload. Round trip, agreement of reader and validation on the types, older peers' payloads.
  \<^item> \<open>Messages\<close>, \<open>Message_Codec\<close>: the same for the other messages and the frame around all of them.
    Round trip, rejection of damaged frames, validity of what the reader returns, and exactly which
    input makes the reader panic.
  \<^item> \<open>Connection\<close> (\<open>protocol/connection.go\<close>): framing over a byte stream that the network cuts as it
    likes, and the connection's state under interleaved calls. Delivery in order, the frame limit, the
    invariant of state and socket.
  \<^item> \<open>Overlay\<close>, \<open>Regions\<close>, \<open>Compression\<close> (\<open>internal/topology\<close>): the overlay's bits and counters, the
    flood fill and its region graph, run-length coding of the bits. \<open>Regions\<close> states what it needs of
    the overlay as the locale \<open>open_map\<close>, which \<open>Overlay\<close>'s functions are proved to satisfy.
  \<^item> \<open>Plan_DAG\<close> (\<open>plan/types.go\<close>, \<open>plan/dag.go\<close>): the plan's nodes and status transitions; the locale
    \<open>node_mutator\<close> is the contract of a mutator handed to \<open>Update\<close>, kept by all five.
  \<^item> \<open>Go_Heap\<close>, \<open>Task_Queue\<close> (\<open>planning/task_queue.go\<close>): \<open>container/heap\<close> proved against the locale
    \<open>priority_queue\<close>, and the task queue over it.

  \<^item> \<open>Command_Send\<close>, \<open>Command_Tracker\<close> (\<open>commands/executor.go\<close>, \<open>tracker.go\<close>): the message each Send method
    issues, and what becomes of an issued command under acknowledgements, timeouts and cleanup. Issued commands
    survive the wire; a result is delivered to the command it answers; the overwritten acknowledgement.
  \<^item> \<open>Predicted\<close>, \<open>Alerts\<close> (\<open>worldmodel/predicted.go\<close>, \<open>alerts.go\<close>): the tiles a dig is expected to change, with
    their index by plan node and their counters, and the bounded alert store. The books of the first balance; the
    second refines a list.
  \<^item> \<open>Plan_Executor\<close> (\<open>plan/executor.go\<close>): the dispatch of a Ready node to the game and the predictions a dig
    writes. What every dispatch makes of its node, when a dig returns at all, and that a tick dispatches
    every Ready node.
  \<^item> \<open>Reconciler\<close> (\<open>reconcile\<close>): a scan compares the outstanding predictions with the overlay and settles the
    plan's nodes. A node is Done exactly when its predictions are accounted for; over a whole dispatch and scan, Done
    means the tiles were observed; and the two ways in which this goes wrong.
  \<^item> \<open>Modifications\<close> (\<open>internal/modifications\<close>): the record of changed tiles, the detector that fills it and the
    chambers extracted from it. What is recorded is exactly what the observations show; chambers are the connected
    components.
  \<^item> \<open>Go_Fmt\<close>, \<open>Blueprints\<close> (\<open>internal/blueprints\<close>, \<open>mcpserver/blueprint.go\<close>, \<open>digrects.go\<close>): what is used of
    \<open>fmt\<close> and \<open>strconv\<close>; capture, files, placement and the runs of tiles a blueprint is sent as. A saved blueprint
    digs the same tiles again; runs cover exactly the commanded tiles; the report of an application is true.
  \<^item> \<open>Deliberator\<close> (\<open>bdi/loop.go\<close>): a turn asks the model for a bounded number of passes and commits one response.
    Nodes are named by turn and index, so no turn overwrites another's; a commit adds exactly the commands of the
    response, and the next tick sends them to the game.
  \<^item> \<open>Client\<close> (\<open>internal/dfhack/client.go\<close>): the peer of the plugin. Handshake, routing of messages, heartbeats,
    and the queries whose answers find their goroutine by id: none gets another's answer, none that waits is missed.
  \<^item> \<open>Hazards\<close> (\<open>internal/hazards\<close>): the sparse overlays of aquifers, liquids, caverns and creatures. After a full
    state and any updates each overlay tells what the last observation of every tile shows; hidden tiles pass for
    aquifers.
  \<^item> \<open>Item_Clusters\<close>, \<open>Mapview\<close> (\<open>internal/mapview\<close>): piles of loose items as connected components, large views
    stitched from blocks, downsampled views. What is shown is the map, exactly or by majority.
  \<^item> \<open>Proposals\<close> (\<open>agents/graph.go\<close>, \<open>executor.go\<close>): the graph of the agents' proposals. The sort returns for
    every order of the maps, with a cycle reported exactly when there is one, and puts a node before what it depends
    on; conflicts are listed exactly for proposals that share a tile; a decision becomes commands in its order.
  \<^item> \<open>World_Model\<close> (\<open>worldmodel/types.go\<close>, \<open>populator.go\<close>, \<open>mcpserver/bridge.go\<close>, \<open>predicate\<close>): the model that
    perception writes and everything else reads, over \<open>Overlay\<close>, \<open>Hazards\<close>, \<open>Modifications\<close>, \<open>Predicted\<close> and \<open>Alerts\<close>.
    A run of messages is tracked by a specification of what was perceived: the map's views agree with the tiles
    observed, the alerts are those of this world, the goals are judged by the last message about entities.
  \<^item> \<open>Places\<close> (\<open>mcpserver/places.go\<close>): names on carved space, looked up in the overlay or in a live slice of the map that
    is written into it; the file they are kept in. Exactly which tiles can be named, and which names a restart keeps.
  \<^item> \<open>Live_State\<close> (\<open>mcpserver/live_state.go\<close>, the footprint in \<open>tools_percept.go\<close>, \<open>check_goals\<close>): the live count
    of dug tiles: the levels scanned, when that search ends, and that the count is exact for the footprint, which holds every
    tile this connection saw worked on.

  Conventions. Every Go integer that is written to the wire or can wrap is a word of its width; an
  \<open>int\<close> that only counts is an integer. A Go error or panic is the left side of a sum. A method that
  holds its lock throughout is one step; where a method gives the lock up, its parts are separate
  steps. Clock readings are arguments, in nanoseconds, the zero time being 0. Go's map iteration order is an
  argument where it could matter. Text that is only copied is a list of bytes; text that is read rune by rune is a
  list of code points.

  Bounds. Loops over bytes and lists are structural or have a measure and are total; nothing runs on
  fuel except the worker of \<open>Task_Queue\<close>, whose number of turns is the number of waiting tasks, which
  is proved to be enough. The loop over an \<open>int16\<close> range of \<open>Plan_Executor\<close> may not end and is a partial function
  into option: which regions make it end is a theorem. So are the loops that fetch a region in blocks in \<open>Mapview\<close>, and
  the loop over the levels of a zone in \<open>Live_State\<close>.

  Not modelled. The network, clock and file system are parameters; CSV quoting and JSON are below the model. The
  packages that format text for the model or for MCP tools (most of \<open>mcpserver\<close>, \<open>autonomous\<close>, \<open>context\<close>, \<open>llm\<close>),
  the HTTP endpoints, configuration and the program entry points are I/O and glue; what \<open>Deliberator\<close> uses of them, the
  provider, the response parsers and the query registry, are arguments. The ticker loops that call the steps
  above (\<open>Run\<close> of executor, reconciler and populator) are only their repetition. The search for dig sites ranks by
  floating point distance. The agents' intents, spatial planning, phases and zones carry logic of their own, which no modelled
  part depends on.
\<close>

end
